(* ===== verification/Prelude.thy ===== *)
theory Prelude
  imports Main "HOL-Library.Word" "HOL-Library.Monad_Syntax"
begin

unbundle bit_operations_syntax

text \<open>
  Shared vocabulary of the development: the error numbers the code returns, the fixed-width
  conversions C performs implicitly, the page constants, the named collections of rewrite rules,
  and the list and option facts used by several components.

  Conventions.  A C function of type \<open>int\<close> returns a HOL \<open>int\<close>, negative on error exactly as in
  the source (\<open>- EBADF\<close>).  An \<open>unsigned long\<close> is a \<open>64 word\<close>.  An \<open>unsigned int\<close> that counts or
  indexes (file descriptors, table sizes) is a \<open>nat\<close> with the 32-bit wrap-around written out by
  \<open>u32\<close>.  A result \<open>None\<close> of a definition whose type is an \<open>option\<close> of a state means that the call
  does not come back: it runs into a \<open>BUG_ON\<close> or waits for an event that no thread produces.
\<close>

section \<open>Error numbers\<close>

abbreviation (input) EPERM :: int where "EPERM \<equiv> 1"
abbreviation (input) ESRCH :: int where "ESRCH \<equiv> 3"
abbreviation (input) EINTR :: int where "EINTR \<equiv> 4"
abbreviation (input) EIO :: int where "EIO \<equiv> 5"
abbreviation (input) EBADF :: int where "EBADF \<equiv> 9"
abbreviation (input) EAGAIN :: int where "EAGAIN \<equiv> 11"
abbreviation (input) ENOMEM :: int where "ENOMEM \<equiv> 12"
abbreviation (input) EACCES :: int where "EACCES \<equiv> 13"
abbreviation (input) EFAULT :: int where "EFAULT \<equiv> 14"
abbreviation (input) EBUSY :: int where "EBUSY \<equiv> 16"
abbreviation (input) ENODEV :: int where "ENODEV \<equiv> 19"
abbreviation (input) EINVAL :: int where "EINVAL \<equiv> 22"
abbreviation (input) EMFILE :: int where "EMFILE \<equiv> 24"
abbreviation (input) EOVERFLOW :: int where "EOVERFLOW \<equiv> 75"
abbreviation (input) ERESTARTNOINTR :: int where "ERESTARTNOINTR \<equiv> 513"

section \<open>Named collections\<close>

named_theorems bitmap_simps \<open>membership of a bit after an update of a bitmap\<close>
named_theorems fdt_simps \<open>fields of a descriptor table after an update\<close>
named_theorems task_simps \<open>fields of a task after an update\<close>

section \<open>Fixed-width conversions\<close>

definition u32 :: "nat \<Rightarrow> nat" where
  "u32 n = n mod 2 ^ 32"

text \<open>The conversion of an \<open>unsigned int\<close> to the \<open>int\<close> a function returns.\<close>

definition s32 :: "nat \<Rightarrow> int" where
  "s32 n = (if n mod 2 ^ 32 < 2 ^ 31 then int (n mod 2 ^ 32) else int (n mod 2 ^ 32) - 2 ^ 32)"

lemma u32_id [simp]: "n < 2 ^ 32 \<Longrightarrow> u32 n = n"
  by (simp add: u32_def)

lemma u32_less [simp]: "u32 n < 2 ^ 32"
  by (simp add: u32_def)

lemma s32_id [simp]: "n < 2 ^ 31 \<Longrightarrow> s32 n = int n"
  by (simp add: s32_def)

section \<open>Lists and options\<close>

lemma list_update_take_drop:
  "i < length xs \<Longrightarrow> xs[i := x] = take i xs @ x # drop (Suc i) xs"
  by (simp add: upd_conv_take_nth_drop)

lemma nth_list_update_if: "xs[i := x] ! j = (if i = j \<and> j < length xs then x else xs ! j)"
  by (induction xs arbitrary: i j) (auto simp: nth_Cons split: nat.splits)

lemma nth_map_upt0 [simp]: "i < n \<Longrightarrow> map f [0..<n] ! i = f i"
  by simp

lemma bind_SomeD: "x \<bind> f = Some y \<Longrightarrow> \<exists>z. x = Some z \<and> f z = Some y"
  by (cases x) auto

end
