(* ===== verification/Bitmap.thy ===== *)
theory Bitmap
  imports Prelude
begin

text \<open>
  The kernel's bit operations on arrays of \<open>unsigned long\<close> (\<open>test_bit\<close>, \<open>__set_bit\<close>,
  \<open>__clear_bit\<close>, \<open>find_next_zero_bit\<close>), with their documented meaning, on lists of 64-bit words.
  The descriptor tables of \<open>fs/file.c\<close> are built on them.
\<close>

abbreviation (input) BITS_PER_LONG :: nat where "BITS_PER_LONG \<equiv> 64"
abbreviation (input) BITS_PER_BYTE :: nat where "BITS_PER_BYTE \<equiv> 8"

type_synonym bitmap = "64 word list"

definition BITS_TO_LONGS :: "nat \<Rightarrow> nat" where
  "BITS_TO_LONGS n = (n + (BITS_PER_LONG - 1)) div BITS_PER_LONG"

definition test_bit :: "nat \<Rightarrow> bitmap \<Rightarrow> bool" where
  "test_bit nr bm = bit (bm ! (nr div BITS_PER_LONG)) (nr mod BITS_PER_LONG)"

definition raw_set_bit :: "nat \<Rightarrow> bitmap \<Rightarrow> bitmap" where
  "raw_set_bit nr bm =
     bm[nr div BITS_PER_LONG := set_bit (nr mod BITS_PER_LONG) (bm ! (nr div BITS_PER_LONG))]"

definition raw_clear_bit :: "nat \<Rightarrow> bitmap \<Rightarrow> bitmap" where
  "raw_clear_bit nr bm =
     bm[nr div BITS_PER_LONG := unset_bit (nr mod BITS_PER_LONG) (bm ! (nr div BITS_PER_LONG))]"

function find_next_zero_bit :: "bitmap \<Rightarrow> nat \<Rightarrow> nat \<Rightarrow> nat" where
  "find_next_zero_bit bm sz off =
     (if sz \<le> off then sz
      else if test_bit off bm then find_next_zero_bit bm sz (Suc off)
      else off)"
  by pat_completeness auto
termination
  by (relation "measure (\<lambda>(bm, sz, off). sz - off)") auto

declare find_next_zero_bit.simps [simp del]

section \<open>Reading a bit after an update\<close>

lemma length_raw_set_bit [simp]: "length (raw_set_bit nr bm) = length bm"
  by (simp add: raw_set_bit_def)

lemma length_raw_clear_bit [simp]: "length (raw_clear_bit nr bm) = length bm"
  by (simp add: raw_clear_bit_def)

lemma div_less_length: "n < BITS_PER_LONG * length bm \<Longrightarrow> n div BITS_PER_LONG < length bm"
  for bm :: bitmap
  by (simp add: less_mult_imp_div_less mult.commute)

lemma same_word_same_bit:
  "(m::nat) div BITS_PER_LONG = n div BITS_PER_LONG \<Longrightarrow>
   m mod BITS_PER_LONG = n mod BITS_PER_LONG \<Longrightarrow> m = n"
  by (metis div_mult_mod_eq)

lemma test_bit_raw_set_bit [bitmap_simps]:
  assumes "nr < BITS_PER_LONG * length bm"
  shows "test_bit n (raw_set_bit nr bm) \<longleftrightarrow> n = nr \<or> test_bit n bm"
proof (cases "n div BITS_PER_LONG = nr div BITS_PER_LONG")
  case True
  with div_less_length [OF assms] show ?thesis
    by (auto simp: test_bit_def raw_set_bit_def bit_set_bit_iff dest: same_word_same_bit)
next
  case False
  then show ?thesis by (auto simp: test_bit_def raw_set_bit_def)
qed

lemma test_bit_raw_clear_bit [bitmap_simps]:
  assumes "nr < BITS_PER_LONG * length bm"
  shows "test_bit n (raw_clear_bit nr bm) \<longleftrightarrow> n \<noteq> nr \<and> test_bit n bm"
proof (cases "n div BITS_PER_LONG = nr div BITS_PER_LONG")
  case True
  with div_less_length [OF assms] show ?thesis
    by (auto simp: test_bit_def raw_clear_bit_def bit_unset_bit_iff dest: same_word_same_bit)
next
  case False
  then show ?thesis by (auto simp: test_bit_def raw_clear_bit_def)
qed

section \<open>A full word\<close>

lemma word_full_iff: "(w :: 64 word) = - 1 \<longleftrightarrow> (\<forall>n < 64. bit w n)"
  by (auto simp: bit_eq_iff)

lemma nth_full_iff:
  assumes "i < length bm"
  shows "bm ! i = (- 1 :: 64 word) \<longleftrightarrow> (\<forall>n. n div BITS_PER_LONG = i \<longrightarrow> test_bit n bm)"
proof
  assume full: "bm ! i = - 1"
  show "\<forall>n. n div BITS_PER_LONG = i \<longrightarrow> test_bit n bm"
    using full by (auto simp: test_bit_def)
next
  assume all: "\<forall>n. n div BITS_PER_LONG = i \<longrightarrow> test_bit n bm"
  have "bit (bm ! i) k" if "k < 64" for k
    using all [rule_format, of "64 * i + k"] that by (simp add: test_bit_def)
  then show "bm ! i = - 1" by (simp add: word_full_iff)
qed

lemma nth_zero_iff:
  assumes "i < length bm"
  shows "bm ! i = (0 :: 64 word) \<longleftrightarrow> (\<forall>n. n div BITS_PER_LONG = i \<longrightarrow> \<not> test_bit n bm)"
proof
  assume zero: "bm ! i = 0"
  show "\<forall>n. n div BITS_PER_LONG = i \<longrightarrow> \<not> test_bit n bm"
    using zero by (auto simp: test_bit_def)
next
  assume all: "\<forall>n. n div BITS_PER_LONG = i \<longrightarrow> \<not> test_bit n bm"
  have "\<not> bit (bm ! i) k" if "k < 64" for k
    using all [rule_format, of "64 * i + k"] that by (simp add: test_bit_def)
  then show "bm ! i = 0"
    by (intro bit_word_eqI) simp
qed

section \<open>The first zero bit\<close>

lemma find_next_zero_bit_le: "off \<le> sz \<Longrightarrow> find_next_zero_bit bm sz off \<le> sz"
proof (induction bm sz off rule: find_next_zero_bit.induct)
  case (1 bm sz off)
  then show ?case by (auto simp: find_next_zero_bit.simps [of bm sz off])
qed

lemma find_next_zero_bit_ge: "off \<le> sz \<Longrightarrow> off \<le> find_next_zero_bit bm sz off"
proof (induction bm sz off rule: find_next_zero_bit.induct)
  case (1 bm sz off)
  show ?case
  proof (cases "off < sz \<and> test_bit off bm")
    case True
    with 1 have "Suc off \<le> find_next_zero_bit bm sz (Suc off)" by simp
    with True show ?thesis by (simp add: find_next_zero_bit.simps [of bm sz off])
  next
    case False
    with 1 show ?thesis by (auto simp: find_next_zero_bit.simps [of bm sz off])
  qed
qed

lemma find_next_zero_bit_skips:
  "off \<le> n \<Longrightarrow> n < find_next_zero_bit bm sz off \<Longrightarrow> n < sz \<Longrightarrow> test_bit n bm"
proof (induction bm sz off rule: find_next_zero_bit.induct)
  case (1 bm sz off)
  show ?case
  proof (cases "off < sz \<and> test_bit off bm")
    case True
    with 1 show ?thesis
      by (cases "n = off") (auto simp: find_next_zero_bit.simps [of bm sz off])
  next
    case False
    with 1 show ?thesis by (auto simp: find_next_zero_bit.simps [of bm sz off] split: if_splits)
  qed
qed

lemma find_next_zero_bit_clear:
  "find_next_zero_bit bm sz off < sz \<Longrightarrow> \<not> test_bit (find_next_zero_bit bm sz off) bm"
proof (induction bm sz off rule: find_next_zero_bit.induct)
  case (1 bm sz off)
  then show ?case
    by (cases "sz \<le> off"; cases "test_bit off bm")
      (auto simp: find_next_zero_bit.simps [of bm sz off])
qed

lemma find_next_zero_bit_beyond: "sz \<le> off \<Longrightarrow> find_next_zero_bit bm sz off = sz"
  by (simp add: find_next_zero_bit.simps [of bm sz off])

text \<open>The result is determined: it is the least clear bit at or after the offset.\<close>

lemma find_next_zero_bit_unique:
  assumes "off \<le> n" "n < sz" "\<not> test_bit n bm"
    and "\<And>k. off \<le> k \<Longrightarrow> k < n \<Longrightarrow> test_bit k bm"
  shows "find_next_zero_bit bm sz off = n"
proof -
  let ?r = "find_next_zero_bit bm sz off"
  have ge: "off \<le> ?r" and le: "?r \<le> sz"
    using assms(1,2) by (auto intro: find_next_zero_bit_ge find_next_zero_bit_le)
  have "\<not> n < ?r" using find_next_zero_bit_skips [OF assms(1)] assms(2,3) by blast
  moreover have "\<not> ?r < n"
  proof
    assume "?r < n"
    with assms(2) have "\<not> test_bit ?r bm" by (intro find_next_zero_bit_clear) simp
    with assms(4) [OF ge \<open>?r < n\<close>] show False by contradiction
  qed
  ultimately show ?thesis by simp
qed

section \<open>Lengths of bitmaps\<close>

lemma BITS_TO_LONGS_mult [simp]: "BITS_TO_LONGS (BITS_PER_LONG * n) = n"
  by (simp add: BITS_TO_LONGS_def)

lemma BITS_TO_LONGS_dvd: "BITS_PER_LONG dvd n \<Longrightarrow> BITS_TO_LONGS n = n div BITS_PER_LONG"
  by (auto simp: BITS_TO_LONGS_def dvd_def)

lemma BITS_TO_LONGS_covers: "n \<le> BITS_PER_LONG * BITS_TO_LONGS n"
proof -
  have "n + 63 = BITS_PER_LONG * ((n + 63) div BITS_PER_LONG) + (n + 63) mod BITS_PER_LONG"
    by simp
  moreover have "(n + 63) mod BITS_PER_LONG \<le> 63" by simp
  ultimately show ?thesis unfolding BITS_TO_LONGS_def by linarith
qed

lemma BITS_TO_LONGS_mono: "m \<le> n \<Longrightarrow> BITS_TO_LONGS m \<le> BITS_TO_LONGS n"
  by (simp add: BITS_TO_LONGS_def div_le_mono)

end
