(* ===== verification/Fdtable.thy ===== *)
theory Fdtable
  imports Bitmap
begin

text \<open>
  The descriptor table of a process: \<open>struct fdtable\<close> and \<open>struct files_struct\<close>
  (\<open>include/linux/fdtable.h\<close>) and the first half of \<open>fs/file.c\<close>: allocation, copying and
  expansion of tables, the two-level bitmap of used descriptors, and the search for a free one.

  \<open>fdt_ok\<close> and \<open>files_ok\<close> are the representation invariants.  The lemmas show that every helper
  keeps them, that an expanded table has the contents of the old one and none of the uninitialised
  memory it was built from, and that \<open>find_next_fd\<close>, which skips full words through
  \<open>full_fds_bits\<close>, finds the same descriptor as a search of \<open>open_fds\<close> alone.
\<close>

section \<open>Data\<close>

type_synonym file_ptr = nat

record file_struct =
  f_count :: int
  f_mode :: "32 word"
  f_pos_lock :: bool

type_synonym fheap = "file_ptr \<Rightarrow> file_struct"

abbreviation (input) NR_OPEN_DEFAULT :: nat where "NR_OPEN_DEFAULT \<equiv> BITS_PER_LONG"

record fdtable =
  max_fds :: nat
  fdt_fd :: "file_ptr option list"
  fdt_close_on_exec :: bitmap
  fdt_open_fds :: bitmap
  fdt_full_fds_bits :: bitmap

text \<open>
  \<open>fdt\<close> is the table \<open>files->fdt\<close> points to; \<open>fdt_embedded\<close> says that the pointer is
  \<open>&files->fdtab\<close>, the table inside the structure, which is never freed.  \<open>file_lock\<close> holds
  while the spinlock is taken.
\<close>

record files_struct =
  files_count :: int
  resize_in_progress :: bool
  fdt :: fdtable
  fdt_embedded :: bool
  file_lock :: bool
  next_fd :: nat

text \<open>
  What the code takes from elsewhere: the sysctl limit, whether an allocation succeeds (by
  allocation site), what uninitialised memory holds, what other threads leave behind when this
  thread waits for a resize, and the two functions of the VFS that drop a reference.
\<close>

datatype mem_site = Files_obj | Fdtable_obj | Fd_array | Fd_bitmaps

record fs_env =
  sysctl_nr_open :: nat
  kmalloc_ok :: "mem_site \<Rightarrow> bool"
  vmalloc_ok :: "mem_site \<Rightarrow> bool"
  uninit_fd :: "nat \<Rightarrow> file_ptr option"
  uninit_word :: "nat \<Rightarrow> 64 word"
  wait_resize :: "files_struct \<Rightarrow> files_struct"
  fput :: "file_ptr \<Rightarrow> fheap \<Rightarrow> fheap"
  filp_close :: "file_ptr \<Rightarrow> fheap \<Rightarrow> int \<times> fheap"

abbreviation (input) O_CLOEXEC :: "32 word" where "O_CLOEXEC \<equiv> 0x80000"
abbreviation (input) FMODE_PATH :: "32 word" where "FMODE_PATH \<equiv> 0x4000"
abbreviation (input) FMODE_ATOMIC_POS :: "32 word" where "FMODE_ATOMIC_POS \<equiv> 0x8000"
abbreviation (input) PAGE_BYTES :: nat where "PAGE_BYTES \<equiv> 4096"
abbreviation (input) PAGE_ALLOC_COSTLY_ORDER :: nat where "PAGE_ALLOC_COSTLY_ORDER \<equiv> 3"
abbreviation (input) SIZEOF_PTR :: nat where "SIZEOF_PTR \<equiv> 8"
abbreviation (input) SIZEOF_LONG :: nat where "SIZEOF_LONG \<equiv> 8"

definition sysctl_nr_open_min :: nat where
  "sysctl_nr_open_min = BITS_PER_LONG"

definition sysctl_nr_open_max :: nat where
  "sysctl_nr_open_max = min 2147483647 ((2 ^ 64 - 1) div SIZEOF_PTR) div BITS_PER_LONG * BITS_PER_LONG"

definition spin_lock :: "files_struct \<Rightarrow> files_struct" where
  "spin_lock files = files\<lparr>file_lock := True\<rparr>"

definition spin_unlock :: "files_struct \<Rightarrow> files_struct" where
  "spin_unlock files = files\<lparr>file_lock := False\<rparr>"

section \<open>Allocation, copying and expansion of tables\<close>

text \<open>Whether the allocation succeeds.\<close>

definition alloc_fdmem :: "fs_env \<Rightarrow> mem_site \<Rightarrow> nat \<Rightarrow> bool" where
  "alloc_fdmem E site sz =
     (if sz \<le> PAGE_BYTES * 2 ^ PAGE_ALLOC_COSTLY_ORDER \<and> kmalloc_ok E site then True
      else vmalloc_ok E site)"

definition BITBIT_NR :: "nat \<Rightarrow> nat" where
  "BITBIT_NR nr = BITS_TO_LONGS (BITS_TO_LONGS nr)"

definition BITBIT_SIZE :: "nat \<Rightarrow> nat" where
  "BITBIT_SIZE nr = BITBIT_NR nr * SIZEOF_LONG"

text \<open>
  \<open>memcpy\<close> of \<open>cpy\<close> bytes followed by \<open>memset\<close> to zero of the next \<open>clr\<close> bytes, on an array
  whose elements are eight bytes wide; both counts are multiples of eight.
\<close>

definition memcpy_memset :: "'a \<Rightarrow> 'a list \<Rightarrow> 'a list \<Rightarrow> nat \<Rightarrow> nat \<Rightarrow> 'a list" where
  "memcpy_memset zero dst src cpy clr =
     take (cpy div 8) src @ replicate (clr div 8) zero @ drop ((cpy + clr) div 8) dst"

definition copy_fd_bitmaps :: "fdtable \<Rightarrow> fdtable \<Rightarrow> nat \<Rightarrow> fdtable" where
  "copy_fd_bitmaps nfdt ofdt count =
     (let cpy = count div BITS_PER_BYTE;
          clr = (max_fds nfdt - count) div BITS_PER_BYTE;
          nfdt = nfdt\<lparr>fdt_open_fds := memcpy_memset 0 (fdt_open_fds nfdt) (fdt_open_fds ofdt) cpy clr\<rparr>;
          nfdt = nfdt\<lparr>fdt_close_on_exec :=
                   memcpy_memset 0 (fdt_close_on_exec nfdt) (fdt_close_on_exec ofdt) cpy clr\<rparr>;
          cpy = BITBIT_SIZE count;
          clr = BITBIT_SIZE (max_fds nfdt) - cpy
      in nfdt\<lparr>fdt_full_fds_bits :=
           memcpy_memset 0 (fdt_full_fds_bits nfdt) (fdt_full_fds_bits ofdt) cpy clr\<rparr>)"

definition copy_fdtable :: "fdtable \<Rightarrow> fdtable \<Rightarrow> fdtable option" where
  "copy_fdtable nfdt ofdt =
     (if max_fds nfdt < max_fds ofdt then None
      else
        let cpy = u32 (max_fds ofdt * SIZEOF_PTR);
            clr = u32 ((max_fds nfdt - max_fds ofdt) * SIZEOF_PTR);
            nfdt = nfdt\<lparr>fdt_fd := memcpy_memset None (fdt_fd nfdt) (fdt_fd ofdt) cpy clr\<rparr>
        in Some (copy_fd_bitmaps nfdt ofdt (max_fds ofdt)))"

fun fls_long :: "nat \<Rightarrow> nat" where
  "fls_long n = (if n = 0 then 0 else Suc (fls_long (n div 2)))"

declare fls_long.simps [simp del]

definition roundup_pow_of_two :: "nat \<Rightarrow> nat" where
  "roundup_pow_of_two n = 2 ^ fls_long (n - 1)"

text \<open>The number of descriptors a table allocated for \<open>nr\<close> supports.\<close>

definition fdtable_nr :: "nat \<Rightarrow> nat \<Rightarrow> nat" where
  "fdtable_nr nr_open nr =
     (let nr = nr div (1024 div SIZEOF_PTR);
          nr = u32 (roundup_pow_of_two (u32 (nr + 1)));
          nr = u32 (nr * (1024 div SIZEOF_PTR))
      in if nr > nr_open
         then u32 ((u32 (nr_open + (2 ^ 32 - 1)) OR (BITS_PER_LONG - 1)) + 1)
         else nr)"

definition alloc_fdtable :: "fs_env \<Rightarrow> nat \<Rightarrow> fdtable option" where
  "alloc_fdtable E nr =
     (let nr = fdtable_nr (sysctl_nr_open E) nr
      in if \<not> kmalloc_ok E Fdtable_obj then None
         else if \<not> alloc_fdmem E Fd_array (nr * SIZEOF_PTR) then None
         else if \<not> alloc_fdmem E Fd_bitmaps (max (2 * nr div BITS_PER_BYTE + BITBIT_SIZE nr) 64) then None
         else Some \<lparr>max_fds = nr,
                    fdt_fd = map (uninit_fd E) [0..<nr],
                    fdt_close_on_exec = map (uninit_word E) [nr div 64..<2 * (nr div 64)],
                    fdt_open_fds = map (uninit_word E) [0..<nr div 64],
                    fdt_full_fds_bits =
                      map (uninit_word E) [2 * (nr div 64)..<2 * (nr div 64) + BITBIT_NR nr]\<rparr>)"

definition expand_fdtable :: "fs_env \<Rightarrow> files_struct \<Rightarrow> nat \<Rightarrow> (int \<times> files_struct) option" where
  "expand_fdtable E files nr =
     (let files = spin_unlock files;
          new_fdt = alloc_fdtable E nr;
          files = spin_lock files
      in case new_fdt of
           None \<Rightarrow> Some (- ENOMEM, files)
         | Some new_fdt \<Rightarrow>
             if max_fds new_fdt \<le> nr then Some (- EMFILE, files)
             else if nr < max_fds (fdt files) then None
             else do {
               new_fdt \<leftarrow> copy_fdtable new_fdt (fdt files);
               Some (1, files\<lparr>fdt := new_fdt, fdt_embedded := False\<rparr>)
             })"

partial_function (option) expand_files_from ::
    "fs_env \<Rightarrow> int \<Rightarrow> files_struct \<Rightarrow> nat \<Rightarrow> (int \<times> files_struct) option" where
  "expand_files_from E expanded files nr =
     (if nr < max_fds (fdt files) then Some (expanded, files)
      else if nr \<ge> sysctl_nr_open E then Some (- EMFILE, files)
      else if resize_in_progress files then
        expand_files_from E 1 (spin_lock (wait_resize E (spin_unlock files))) nr
      else do {
        (expanded, files) \<leftarrow> expand_fdtable E (files\<lparr>resize_in_progress := True\<rparr>) nr;
        Some (expanded, files\<lparr>resize_in_progress := False\<rparr>)
      })"

declare expand_files_from.simps [code]

definition expand_files :: "fs_env \<Rightarrow> files_struct \<Rightarrow> nat \<Rightarrow> (int \<times> files_struct) option" where
  "expand_files E files nr = expand_files_from E 0 files nr"

section \<open>The bits of a descriptor\<close>

definition raw_set_close_on_exec :: "nat \<Rightarrow> fdtable \<Rightarrow> fdtable" where
  "raw_set_close_on_exec fd t = t\<lparr>fdt_close_on_exec := raw_set_bit fd (fdt_close_on_exec t)\<rparr>"

definition raw_clear_close_on_exec :: "nat \<Rightarrow> fdtable \<Rightarrow> fdtable" where
  "raw_clear_close_on_exec fd t =
     (if test_bit fd (fdt_close_on_exec t)
      then t\<lparr>fdt_close_on_exec := raw_clear_bit fd (fdt_close_on_exec t)\<rparr> else t)"

definition raw_set_open_fd :: "nat \<Rightarrow> fdtable \<Rightarrow> fdtable" where
  "raw_set_open_fd fd t =
     (let t = t\<lparr>fdt_open_fds := raw_set_bit fd (fdt_open_fds t)\<rparr>;
          fd = fd div BITS_PER_LONG
      in if NOT (fdt_open_fds t ! fd) = 0
         then t\<lparr>fdt_full_fds_bits := raw_set_bit fd (fdt_full_fds_bits t)\<rparr> else t)"

definition raw_clear_open_fd :: "nat \<Rightarrow> fdtable \<Rightarrow> fdtable" where
  "raw_clear_open_fd fd t =
     t\<lparr>fdt_open_fds := raw_clear_bit fd (fdt_open_fds t),
       fdt_full_fds_bits := raw_clear_bit (fd div BITS_PER_LONG) (fdt_full_fds_bits t)\<rparr>"

definition close_on_exec :: "nat \<Rightarrow> fdtable \<Rightarrow> bool" where
  "close_on_exec fd t = test_bit fd (fdt_close_on_exec t)"

definition fd_is_open :: "nat \<Rightarrow> fdtable \<Rightarrow> bool" where
  "fd_is_open fd t = test_bit fd (fdt_open_fds t)"

text \<open>The index of the last non-zero word below \<open>i\<close>, or 0.\<close>

fun last_open_word :: "fdtable \<Rightarrow> nat \<Rightarrow> nat" where
  "last_open_word t 0 = 0"
| "last_open_word t (Suc i) = (if fdt_open_fds t ! i \<noteq> 0 then i else last_open_word t i)"

definition count_open_files :: "fdtable \<Rightarrow> nat" where
  "count_open_files t = u32 ((last_open_word t (max_fds t div BITS_PER_LONG) + 1) * BITS_PER_LONG)"

definition find_next_fd :: "fdtable \<Rightarrow> nat \<Rightarrow> nat" where
  "find_next_fd t start =
     (let maxfd = max_fds t;
          maxbit = maxfd div BITS_PER_LONG;
          bitbit = start div BITS_PER_LONG;
          bitbit = u32 (find_next_zero_bit (fdt_full_fds_bits t) maxbit bitbit * BITS_PER_LONG)
      in if bitbit > maxfd then maxfd
         else find_next_zero_bit (fdt_open_fds t) maxfd (if bitbit > start then bitbit else start))"

definition init_fdtable :: fdtable where
  "init_fdtable = \<lparr>max_fds = NR_OPEN_DEFAULT, fdt_fd = replicate NR_OPEN_DEFAULT None,
     fdt_close_on_exec = [0], fdt_open_fds = [0], fdt_full_fds_bits = [0]\<rparr>"

definition init_files :: files_struct where
  "init_files = \<lparr>files_count = 1, resize_in_progress = False, fdt = init_fdtable,
     fdt_embedded = True, file_lock = False, next_fd = 0\<rparr>"


section \<open>Invariants\<close>

text \<open>
  \<open>copy_fdtable\<close> keeps the byte counts of its copies in \<open>unsigned int\<close>s, so a table of \<open>2 ^ 29\<close>
  descriptors or more is not copied correctly although \<open>sysctl_nr_open_max\<close> would allow it (see
  \<open>copy_fdtable_wraps\<close>).  The correctness results assume the sysctl below that size; its default is
  \<open>2 ^ 20\<close>.
\<close>

definition nr_open_safe :: nat where
  "nr_open_safe = 2 ^ 29 - BITS_PER_LONG"

definition fs_env_ok :: "fs_env \<Rightarrow> bool" where
  "fs_env_ok E \<longleftrightarrow> sysctl_nr_open_min \<le> sysctl_nr_open E \<and> sysctl_nr_open E \<le> nr_open_safe"

definition fdt_shape :: "fdtable \<Rightarrow> bool" where
  "fdt_shape t \<longleftrightarrow> 0 < max_fds t \<and> BITS_PER_LONG dvd max_fds t \<and> max_fds t \<le> sysctl_nr_open_max \<and>
     length (fdt_fd t) = max_fds t \<and>
     length (fdt_close_on_exec t) = max_fds t div BITS_PER_LONG \<and>
     length (fdt_open_fds t) = max_fds t div BITS_PER_LONG \<and>
     length (fdt_full_fds_bits t) = BITBIT_NR (max_fds t)"

text \<open>
  A bit of \<open>full_fds_bits\<close> is set exactly for the full words of \<open>open_fds\<close>, the bits past the
  last word are clear, and a slot that holds a file is marked open.
\<close>

definition fdt_ok :: "fdtable \<Rightarrow> bool" where
  "fdt_ok t \<longleftrightarrow> fdt_shape t \<and>
     (\<forall>i < BITS_PER_LONG * BITBIT_NR (max_fds t). test_bit i (fdt_full_fds_bits t) \<longleftrightarrow>
        i < max_fds t div BITS_PER_LONG \<and> fdt_open_fds t ! i = - 1) \<and>
     (\<forall>fd < max_fds t. fdt_fd t ! fd \<noteq> None \<longrightarrow> fd_is_open fd t)"

definition files_ok :: "files_struct \<Rightarrow> bool" where
  "files_ok files \<longleftrightarrow> fdt_ok (fdt files) \<and> \<not> resize_in_progress files \<and>
     next_fd files \<le> max_fds (fdt files) \<and>
     (\<forall>fd < next_fd files. fd_is_open fd (fdt files))"

lemma sysctl_nr_open_max_eq: "sysctl_nr_open_max = 2147483584"
  by (simp add: sysctl_nr_open_max_def)

lemma fdt_shapeD:
  assumes "fdt_shape t"
  shows "0 < max_fds t" "BITS_PER_LONG * (max_fds t div BITS_PER_LONG) = max_fds t"
    "max_fds t < 2 ^ 31" "length (fdt_fd t) = max_fds t"
    "length (fdt_close_on_exec t) = max_fds t div BITS_PER_LONG"
    "length (fdt_open_fds t) = max_fds t div BITS_PER_LONG"
    "length (fdt_full_fds_bits t) = BITBIT_NR (max_fds t)"
    "max_fds t \<le> sysctl_nr_open_max" "BITS_PER_LONG dvd max_fds t"
  using assms by (auto simp: fdt_shape_def sysctl_nr_open_max_eq)

lemma fdt_ok_shape [simp, intro]: "fdt_ok t \<Longrightarrow> fdt_shape t"
  by (simp add: fdt_ok_def)

lemma fdt_ok_full:
  "fdt_ok t \<Longrightarrow> i < BITS_PER_LONG * BITBIT_NR (max_fds t) \<Longrightarrow>
     test_bit i (fdt_full_fds_bits t) \<longleftrightarrow> i < max_fds t div BITS_PER_LONG \<and> fdt_open_fds t ! i = - 1"
  by (simp add: fdt_ok_def)

lemma fdt_ok_installed: "fdt_ok t \<Longrightarrow> fd < max_fds t \<Longrightarrow> fdt_fd t ! fd \<noteq> None \<Longrightarrow> fd_is_open fd t"
  by (simp add: fdt_ok_def)

lemma BITBIT_covers:
  assumes "BITS_PER_LONG dvd n"
  shows "n div BITS_PER_LONG \<le> BITS_PER_LONG * BITBIT_NR n"
  using BITS_TO_LONGS_covers [of "n div BITS_PER_LONG"]
  by (simp add: BITBIT_NR_def BITS_TO_LONGS_dvd [OF assms])

lemma fdt_ok_full_word:
  "fdt_ok t \<Longrightarrow> i < max_fds t div BITS_PER_LONG \<Longrightarrow>
     test_bit i (fdt_full_fds_bits t) \<longleftrightarrow> fdt_open_fds t ! i = - 1"
  using BITBIT_covers [of "max_fds t"]
  by (auto simp: fdt_ok_full fdt_shapeD(9) [OF fdt_ok_shape])

lemma files_ok_fdt [simp, intro]: "files_ok files \<Longrightarrow> fdt_ok (fdt files)"
  by (simp add: files_ok_def)

section \<open>The search for a free descriptor\<close>

lemma find_next_zero_bit_skip_set:
  "a \<le> c \<Longrightarrow> c \<le> sz \<Longrightarrow> (\<And>k. a \<le> k \<Longrightarrow> k < c \<Longrightarrow> test_bit k bm) \<Longrightarrow>
     find_next_zero_bit bm sz a = find_next_zero_bit bm sz c"
proof (induction "c - a" arbitrary: a)
  case 0
  then show ?case by simp
next
  case (Suc d)
  then have "find_next_zero_bit bm sz (Suc a) = find_next_zero_bit bm sz c" by simp
  moreover have "a < sz" "test_bit a bm" using Suc.hyps(2) Suc.prems by auto
  ultimately show ?case by (simp add: find_next_zero_bit.simps [of bm sz a])
qed

lemma find_next_fd_eq:
  assumes ok: "fdt_ok t" and start: "start < max_fds t"
  shows "find_next_fd t start = find_next_zero_bit (fdt_open_fds t) (max_fds t) start"
proof -
  note shape = fdt_shapeD [OF fdt_ok_shape [OF ok]]
  let ?w = "max_fds t div BITS_PER_LONG"
  let ?b = "find_next_zero_bit (fdt_full_fds_bits t) ?w (start div BITS_PER_LONG)"
  have b_le: "?b \<le> ?w" by (intro find_next_zero_bit_le div_le_mono) (use start in simp)
  have fits: "BITS_PER_LONG * ?b \<le> max_fds t" using b_le shape(2) by linarith
  then have u: "u32 (?b * BITS_PER_LONG) = BITS_PER_LONG * ?b" using shape(3) by simp
  have set: "test_bit k (fdt_open_fds t)" if "start \<le> k" "k < BITS_PER_LONG * ?b" for k
  proof -
    have w: "k div BITS_PER_LONG < ?b" "start div BITS_PER_LONG \<le> k div BITS_PER_LONG"
      using that by (auto simp: less_mult_imp_div_less mult.commute div_le_mono)
    with b_le have "test_bit (k div BITS_PER_LONG) (fdt_full_fds_bits t)"
      by (intro find_next_zero_bit_skips [OF w(2) w(1)]) simp
    with ok w(1) b_le have "fdt_open_fds t ! (k div BITS_PER_LONG) = - 1"
      by (simp add: fdt_ok_full_word)
    then show ?thesis using w(1) b_le shape(6) by (simp add: nth_full_iff)
  qed
  show ?thesis
    using fits set by (auto simp: find_next_fd_def Let_def u
        intro!: find_next_zero_bit_skip_set [symmetric])
qed


lemma not_word_eq_0: "NOT w = 0 \<longleftrightarrow> w = (- 1 :: 'a::len word)"
  by (metis bit.compl_zero bit.double_compl)

lemma word_index_less:
  assumes "fdt_shape t" "fd < max_fds t"
  shows "fd div BITS_PER_LONG < max_fds t div BITS_PER_LONG"
    "fd < BITS_PER_LONG * length (fdt_open_fds t)"
    "fd < BITS_PER_LONG * length (fdt_close_on_exec t)"
    "fd div BITS_PER_LONG < BITS_PER_LONG * length (fdt_full_fds_bits t)"
proof -
  note shape = fdt_shapeD [OF assms(1)]
  show w: "fd div BITS_PER_LONG < max_fds t div BITS_PER_LONG"
    using assms(2) shape(2) by linarith
  show "fd < BITS_PER_LONG * length (fdt_open_fds t)" "fd < BITS_PER_LONG * length (fdt_close_on_exec t)"
    using assms(2) shape(2,5,6) by simp_all
  show "fd div BITS_PER_LONG < BITS_PER_LONG * length (fdt_full_fds_bits t)"
    using w BITBIT_covers [OF shape(9)] shape(7) by simp
qed

lemma raw_set_open_fd_fields [fdt_simps]:
  "max_fds (raw_set_open_fd fd t) = max_fds t"
  "fdt_fd (raw_set_open_fd fd t) = fdt_fd t"
  "fdt_close_on_exec (raw_set_open_fd fd t) = fdt_close_on_exec t"
  "fdt_open_fds (raw_set_open_fd fd t) = raw_set_bit fd (fdt_open_fds t)"
  by (simp_all add: raw_set_open_fd_def Let_def)

lemma raw_clear_open_fd_fields [fdt_simps]:
  "max_fds (raw_clear_open_fd fd t) = max_fds t"
  "fdt_fd (raw_clear_open_fd fd t) = fdt_fd t"
  "fdt_close_on_exec (raw_clear_open_fd fd t) = fdt_close_on_exec t"
  "fdt_open_fds (raw_clear_open_fd fd t) = raw_clear_bit fd (fdt_open_fds t)"
  by (simp_all add: raw_clear_open_fd_def)

lemma raw_set_close_on_exec_fields [fdt_simps]:
  "max_fds (raw_set_close_on_exec fd t) = max_fds t"
  "fdt_fd (raw_set_close_on_exec fd t) = fdt_fd t"
  "fdt_open_fds (raw_set_close_on_exec fd t) = fdt_open_fds t"
  "fdt_full_fds_bits (raw_set_close_on_exec fd t) = fdt_full_fds_bits t"
  "length (fdt_close_on_exec (raw_set_close_on_exec fd t)) = length (fdt_close_on_exec t)"
  by (simp_all add: raw_set_close_on_exec_def)

lemma raw_clear_close_on_exec_fields [fdt_simps]:
  "max_fds (raw_clear_close_on_exec fd t) = max_fds t"
  "fdt_fd (raw_clear_close_on_exec fd t) = fdt_fd t"
  "fdt_open_fds (raw_clear_close_on_exec fd t) = fdt_open_fds t"
  "fdt_full_fds_bits (raw_clear_close_on_exec fd t) = fdt_full_fds_bits t"
  "length (fdt_close_on_exec (raw_clear_close_on_exec fd t)) = length (fdt_close_on_exec t)"
  by (simp_all add: raw_clear_close_on_exec_def)

lemma fd_is_open_set_open [fdt_simps]:
  "fdt_shape t \<Longrightarrow> fd < max_fds t \<Longrightarrow> fd_is_open n (raw_set_open_fd fd t) \<longleftrightarrow> n = fd \<or> fd_is_open n t"
  by (simp add: fd_is_open_def fdt_simps bitmap_simps word_index_less)

lemma fd_is_open_clear_open [fdt_simps]:
  "fdt_shape t \<Longrightarrow> fd < max_fds t \<Longrightarrow> fd_is_open n (raw_clear_open_fd fd t) \<longleftrightarrow> n \<noteq> fd \<and> fd_is_open n t"
  by (simp add: fd_is_open_def fdt_simps bitmap_simps word_index_less)

lemma fd_is_open_cloexec [fdt_simps]:
  "fd_is_open n (raw_set_close_on_exec fd t) = fd_is_open n t"
  "fd_is_open n (raw_clear_close_on_exec fd t) = fd_is_open n t"
  by (simp_all add: fd_is_open_def fdt_simps)

lemma close_on_exec_set [fdt_simps]:
  "fdt_shape t \<Longrightarrow> fd < max_fds t \<Longrightarrow>
     close_on_exec n (raw_set_close_on_exec fd t) \<longleftrightarrow> n = fd \<or> close_on_exec n t"
  by (simp add: close_on_exec_def raw_set_close_on_exec_def bitmap_simps word_index_less)

lemma close_on_exec_clear [fdt_simps]:
  "fdt_shape t \<Longrightarrow> fd < max_fds t \<Longrightarrow>
     close_on_exec n (raw_clear_close_on_exec fd t) \<longleftrightarrow> n \<noteq> fd \<and> close_on_exec n t"
  by (auto simp: close_on_exec_def raw_clear_close_on_exec_def bitmap_simps word_index_less)

lemma close_on_exec_open_fd [fdt_simps]:
  "close_on_exec n (raw_set_open_fd fd t) = close_on_exec n t"
  "close_on_exec n (raw_clear_open_fd fd t) = close_on_exec n t"
  by (simp_all add: close_on_exec_def fdt_simps)

lemma fd_bits_fdt_fd [fdt_simps]:
  "fd_is_open n (t\<lparr>fdt_fd := x\<rparr>) = fd_is_open n t"
  "close_on_exec n (t\<lparr>fdt_fd := x\<rparr>) = close_on_exec n t"
  by (simp_all add: fd_is_open_def close_on_exec_def)

lemma fdt_shape_updates [fdt_simps]:
  "fdt_shape (raw_set_open_fd fd t) = fdt_shape t"
  "fdt_shape (raw_clear_open_fd fd t) = fdt_shape t"
  "fdt_shape (raw_set_close_on_exec fd t) = fdt_shape t"
  "fdt_shape (raw_clear_close_on_exec fd t) = fdt_shape t"
  "fdt_shape (t\<lparr>fdt_fd := (fdt_fd t)[i := x]\<rparr>) = fdt_shape t"
  by (simp_all add: fdt_shape_def fdt_simps)
    (simp_all add: raw_set_open_fd_def raw_clear_open_fd_def Let_def)

lemma fdt_ok_set_open:
  assumes ok: "fdt_ok t" and fd: "fd < max_fds t"
  shows "fdt_ok (raw_set_open_fd fd t)"
proof -
  note shape = fdt_shapeD [OF fdt_ok_shape [OF ok]]
  note idx = word_index_less [OF fdt_ok_shape [OF ok] fd]
  let ?t = "raw_set_open_fd fd t"
  have full: "test_bit i (fdt_full_fds_bits ?t) \<longleftrightarrow>
      i < max_fds t div BITS_PER_LONG \<and> fdt_open_fds ?t ! i = - 1"
    if i: "i < BITS_PER_LONG * BITBIT_NR (max_fds t)" for i
  proof (cases "i = fd div BITS_PER_LONG")
    case True
    have "fdt_open_fds t ! i = - 1 \<Longrightarrow> fdt_open_fds ?t ! i = - 1"
      using True idx(1,2) shape(6) by (auto simp: fdt_simps nth_full_iff bitmap_simps)
    then show ?thesis
      using True idx fdt_ok_full_word [OF ok, of i]
      by (auto simp: raw_set_open_fd_def Let_def not_word_eq_0 bitmap_simps)
  next
    case False
    then show ?thesis
      using i idx fdt_ok_full [OF ok i]
      by (auto simp: raw_set_open_fd_def Let_def bitmap_simps) (auto simp: raw_set_bit_def)
  qed
  show ?thesis
    unfolding fdt_ok_def
    using ok fd full by (auto simp: fdt_simps fdt_ok_installed)
qed

lemma fdt_ok_clear_open:
  assumes ok: "fdt_ok t" and fd: "fd < max_fds t" and none: "fdt_fd t ! fd = None"
  shows "fdt_ok (raw_clear_open_fd fd t)"
proof -
  note shape = fdt_shapeD [OF fdt_ok_shape [OF ok]]
  note idx = word_index_less [OF fdt_ok_shape [OF ok] fd]
  let ?t = "raw_clear_open_fd fd t"
  have full: "test_bit i (fdt_full_fds_bits ?t) \<longleftrightarrow>
      i < max_fds t div BITS_PER_LONG \<and> fdt_open_fds ?t ! i = - 1"
    if i: "i < BITS_PER_LONG * BITBIT_NR (max_fds t)" for i
  proof (cases "i = fd div BITS_PER_LONG")
    case True
    have "fdt_open_fds ?t ! i \<noteq> - 1"
      using True idx(1,2) shape(6) by (auto simp: fdt_simps nth_full_iff bitmap_simps)
    then show ?thesis
      using True idx by (auto simp: raw_clear_open_fd_def bitmap_simps)
  next
    case False
    then show ?thesis
      using i idx fdt_ok_full [OF ok i]
      by (auto simp: raw_clear_open_fd_def bitmap_simps) (auto simp: raw_clear_bit_def)
  qed
  show ?thesis
    unfolding fdt_ok_def
    using ok fd full none by (auto simp: fdt_simps fdt_ok_installed)
qed

lemma fdt_ok_cloexec:
  "fdt_ok t \<Longrightarrow> fdt_ok (raw_set_close_on_exec fd t)"
  "fdt_ok t \<Longrightarrow> fdt_ok (raw_clear_close_on_exec fd t)"
  by (auto simp: fdt_ok_def fdt_simps)

lemma fdt_ok_uninstall: "fdt_ok t \<Longrightarrow> fdt_ok (t\<lparr>fdt_fd := (fdt_fd t)[fd := None]\<rparr>)"
  by (auto simp: fdt_ok_def fdt_simps fd_is_open_def nth_list_update_if split: if_splits)

lemma fdt_ok_install:
  "fdt_ok t \<Longrightarrow> fd_is_open fd t \<Longrightarrow> fdt_ok (t\<lparr>fdt_fd := (fdt_fd t)[fd := x]\<rparr>)"
  by (auto simp: fdt_ok_def fdt_simps fd_is_open_def nth_list_update_if split: if_splits)


section \<open>Allocated tables\<close>

lemma less_power_fls_long: "n < 2 ^ fls_long n"
proof (induction n rule: fls_long.induct)
  case (1 n)
  show ?case
  proof (cases "n = 0")
    case True
    then show ?thesis by (simp add: fls_long.simps)
  next
    case False
    with 1 have "n div 2 < 2 ^ fls_long (n div 2)" by simp
    then have "n < 2 * 2 ^ fls_long (n div 2)" by linarith
    with False show ?thesis by (simp add: fls_long.simps [of n])
  qed
qed

lemma power_fls_long_le: "0 < n \<Longrightarrow> 2 ^ fls_long n \<le> 2 * n"
proof (induction n rule: fls_long.induct)
  case (1 n)
  show ?case
  proof (cases "n = 1")
    case True
    then show ?thesis by (simp add: fls_long.simps [of "Suc 0"] fls_long.simps [of 0])
  next
    case False
    with 1 have "2 ^ fls_long (n div 2) \<le> 2 * (n div 2)" by simp
    then have "2 * 2 ^ fls_long (n div 2) \<le> 2 * n" by linarith
    with 1(2) show ?thesis by (simp add: fls_long.simps [of n])
  qed
qed

lemma or_63: "n OR 63 = BITS_PER_LONG * (n div BITS_PER_LONG) + 63" for n :: nat
proof -
  have "n OR mask 6 = push_bit 6 (drop_bit 6 n) OR mask 6"
    by (intro bit_eqI) (auto simp: bit_simps)
  also have "\<dots> = push_bit 6 (drop_bit 6 n) + mask 6"
    by (intro disjunctive_add [symmetric]) (auto simp: bit_simps)
  finally show ?thesis by (simp add: push_bit_eq_mult drop_bit_eq_div mask_eq_exp_minus_1 mult.commute)
qed

lemma fdtable_nr_bounds:
  assumes nr: "nr < 2 ^ 31" and lo: "sysctl_nr_open_min \<le> nr_open" and hi: "nr_open \<le> sysctl_nr_open_max"
  shows "BITS_PER_LONG dvd fdtable_nr nr_open nr" "nr < nr_open \<Longrightarrow> nr < fdtable_nr nr_open nr"
    "0 < fdtable_nr nr_open nr"
    "BITS_PER_LONG dvd L \<Longrightarrow> nr_open \<le> L \<Longrightarrow> fdtable_nr nr_open nr \<le> L"
proof -
  let ?a = "nr div 128"
  let ?p = "2 ^ fls_long ?a :: nat"
  have a: "?a < 2 ^ 24" using nr by (simp add: less_mult_imp_div_less)
  have p_gt: "?a < ?p" by (rule less_power_fls_long)
  have p_le: "?p \<le> 2 ^ 25"
    using power_fls_long_le [of ?a] a by (cases "?a = 0") (auto simp: fls_long.simps [of 0])
  have e1: "u32 (roundup_pow_of_two (u32 (?a + 1))) = ?p"
    using a p_le by (simp add: roundup_pow_of_two_def u32_def)
  have nr_less: "nr < ?p * 128" using p_gt by linarith
  have p128: "?p \<le> 2 ^ 24"
  proof -
    have "fls_long ?a \<le> 24"
    proof (rule ccontr)
      assume "\<not> fls_long ?a \<le> 24"
      then have "(2::nat) ^ 25 \<le> ?p" by (intro power_increasing) auto
      with power_fls_long_le [of ?a] a show False by (cases "?a = 0") (auto simp: fls_long.simps [of 0])
    qed
    then show ?thesis by (intro power_increasing) auto
  qed
  have e2: "u32 (?p * 128) = ?p * 128" using p128 by simp
  have e3: "u32 (nr_open + (2 ^ 32 - 1)) = nr_open - 1"
    using lo hi by (simp add: u32_def sysctl_nr_open_min_def sysctl_nr_open_max_eq mod_if)
  have e4: "u32 ((u32 (nr_open + (2 ^ 32 - 1)) OR 63) + 1) = BITS_PER_LONG * ((nr_open - 1) div BITS_PER_LONG) + 64"
    unfolding e3 or_63 using hi by (simp add: sysctl_nr_open_max_eq)
  have val: "fdtable_nr nr_open nr =
      (if nr_open < ?p * 128 then BITS_PER_LONG * ((nr_open - 1) div BITS_PER_LONG) + 64 else ?p * 128)"
    using e1 e2 e4 by (simp add: fdtable_nr_def Let_def)
  show "BITS_PER_LONG dvd fdtable_nr nr_open nr"
  proof -
    have "?p * 128 = BITS_PER_LONG * (2 * ?p)" by simp
    then have "BITS_PER_LONG dvd ?p * 128" by (metis dvd_triv_left)
    then show ?thesis by (simp only: val) simp
  qed
  have "nr_open - 1 < BITS_PER_LONG * ((nr_open - 1) div BITS_PER_LONG) + 64"
    using div_mult_mod_eq [of "nr_open - 1" 64] mod_less_divisor [of 64 "nr_open - 1"] by linarith
  then show "nr < nr_open \<Longrightarrow> nr < fdtable_nr nr_open nr" using nr_less by (auto simp: val)
  show "0 < fdtable_nr nr_open nr" by (simp add: val)
  show "fdtable_nr nr_open nr \<le> L" if "BITS_PER_LONG dvd L" "nr_open \<le> L"
  proof -
    obtain m where m: "L = BITS_PER_LONG * m" using \<open>BITS_PER_LONG dvd L\<close> by auto
    have "nr_open - 1 < BITS_PER_LONG * m"
      using that(2) lo by (simp add: m sysctl_nr_open_min_def)
    then have "(nr_open - 1) div BITS_PER_LONG < m" by (simp add: less_mult_imp_div_less mult.commute)
    with that show ?thesis by (auto simp: val m)
  qed
qed

lemma alloc_fdtable_shape:
  assumes "fs_env_ok E" "nr < 2 ^ 31" "alloc_fdtable E nr = Some t"
  shows "fdt_shape t" "nr < sysctl_nr_open E \<Longrightarrow> nr < max_fds t" "max_fds t \<le> nr_open_safe"
proof -
  have safe: "BITS_PER_LONG dvd nr_open_safe" "BITS_PER_LONG dvd sysctl_nr_open_max"
      "nr_open_safe \<le> sysctl_nr_open_max"
    by (simp_all add: nr_open_safe_def sysctl_nr_open_max_eq)
  have env: "sysctl_nr_open_min \<le> sysctl_nr_open E" "sysctl_nr_open E \<le> nr_open_safe"
      "sysctl_nr_open E \<le> sysctl_nr_open_max"
    using assms(1) safe(3) by (simp_all add: fs_env_ok_def)
  note b = fdtable_nr_bounds [OF assms(2) env(1,3)]
  have m: "max_fds t = fdtable_nr (sysctl_nr_open E) nr"
    using assms(3) by (auto simp: alloc_fdtable_def Let_def split: if_splits)
  show "nr < sysctl_nr_open E \<Longrightarrow> nr < max_fds t" "max_fds t \<le> nr_open_safe"
    unfolding m using b(2) b(4) [OF safe(1) env(2)] by simp_all
  have "BITS_PER_LONG dvd max_fds t" "max_fds t \<le> sysctl_nr_open_max" "0 < max_fds t"
    unfolding m using b(1,3) b(4) [OF safe(2) env(3)] by simp_all
  then show "fdt_shape t"
    using assms(3) m by (auto simp: alloc_fdtable_def Let_def fdt_shape_def split: if_splits)
qed


section \<open>Copying a table\<close>

lemma memcpy_memset_words:
  assumes "length dst = (cpy + clr) div 8" "8 dvd cpy" "8 dvd clr"
  shows "memcpy_memset z dst src cpy clr = take (cpy div 8) src @ replicate (clr div 8) z"
  using assms by (simp add: memcpy_memset_def)

lemma test_bit_take_replicate:
  assumes "k \<le> length src" "n < BITS_PER_LONG * (k + j)"
  shows "test_bit n (take k src @ replicate j 0) \<longleftrightarrow> n < BITS_PER_LONG * k \<and> test_bit n src"
proof (cases "n < BITS_PER_LONG * k")
  case True
  then have "n div BITS_PER_LONG < k" by (simp add: less_mult_imp_div_less mult.commute)
  with True assms(1) show ?thesis by (simp add: test_bit_def nth_append)
next
  case False
  then have "k \<le> n div BITS_PER_LONG" by (simp add: less_eq_div_iff_mult_less_eq mult.commute)
  moreover have "n div BITS_PER_LONG < k + j"
    using assms(2) by (simp add: less_mult_imp_div_less mult.commute)
  ultimately show ?thesis using False assms(1) by (simp add: test_bit_def nth_append)
qed

lemma BITBIT_NR_mono: "m \<le> n \<Longrightarrow> BITBIT_NR m \<le> BITBIT_NR n"
  by (simp add: BITBIT_NR_def BITS_TO_LONGS_mono)

lemma copy_fd_bitmaps_fields [fdt_simps]:
  "max_fds (copy_fd_bitmaps nfdt ofdt count) = max_fds nfdt"
  "fdt_fd (copy_fd_bitmaps nfdt ofdt count) = fdt_fd nfdt"
  by (simp_all add: copy_fd_bitmaps_def Let_def)

text \<open>
  The copied bitmaps are the first \<open>count\<close> bits of the old ones followed by zeros; nothing of
  the destination's previous contents is left.
\<close>

lemma copy_fd_bitmaps_words:
  assumes n: "fdt_shape nfdt" and o: "fdt_shape ofdt"
    and count: "BITS_PER_LONG dvd count" "count \<le> max_fds ofdt" "count \<le> max_fds nfdt"
  defines "t \<equiv> copy_fd_bitmaps nfdt ofdt count"
  defines "k \<equiv> count div BITS_PER_LONG" and "m \<equiv> max_fds nfdt div BITS_PER_LONG"
  shows "fdt_open_fds t = take k (fdt_open_fds ofdt) @ replicate (m - k) 0"
    "fdt_close_on_exec t = take k (fdt_close_on_exec ofdt) @ replicate (m - k) 0"
    "fdt_full_fds_bits t = take (BITBIT_NR count) (fdt_full_fds_bits ofdt) @
        replicate (BITBIT_NR (max_fds nfdt) - BITBIT_NR count) 0"
proof -
  note sn = fdt_shapeD [OF n] and so = fdt_shapeD [OF o]
  obtain q where q: "count = BITS_PER_LONG * q" using count(1) by auto
  have km: "k = q" "q \<le> m" "max_fds nfdt = BITS_PER_LONG * m"
    using q sn(2) count(3) by (auto simp: k_def m_def)
  have cpy: "count div 8 = 8 * q" "(BITS_PER_LONG * m - count) div 8 = 8 * (m - q)"
    using km(2) by (auto simp: q simp flip: diff_mult_distrib2)
  show "fdt_open_fds t = take k (fdt_open_fds ofdt) @ replicate (m - k) 0"
    "fdt_close_on_exec t = take k (fdt_close_on_exec ofdt) @ replicate (m - k) 0"
    using km sn(5,6)
    by (simp_all add: t_def copy_fd_bitmaps_def Let_def cpy memcpy_memset_def)
  show "fdt_full_fds_bits t = take (BITBIT_NR count) (fdt_full_fds_bits ofdt) @
        replicate (BITBIT_NR (max_fds nfdt) - BITBIT_NR count) 0"
    using sn(7) BITBIT_NR_mono [OF count(3)]
    by (simp add: t_def copy_fd_bitmaps_def Let_def BITBIT_SIZE_def memcpy_memset_def
        flip: diff_mult_distrib)
qed

lemma copy_fd_bitmaps_bits:
  assumes n: "fdt_shape nfdt" and o: "fdt_shape ofdt"
    and count: "BITS_PER_LONG dvd count" "count \<le> max_fds ofdt" "count \<le> max_fds nfdt"
    and fd: "fd < max_fds nfdt"
  shows "fd_is_open fd (copy_fd_bitmaps nfdt ofdt count) \<longleftrightarrow> fd < count \<and> fd_is_open fd ofdt"
    "close_on_exec fd (copy_fd_bitmaps nfdt ofdt count) \<longleftrightarrow> fd < count \<and> close_on_exec fd ofdt"
proof -
  note sn = fdt_shapeD [OF n] and so = fdt_shapeD [OF o]
  obtain q where q: "count = BITS_PER_LONG * q" using count(1) by auto
  have "q \<le> max_fds nfdt div BITS_PER_LONG" "q \<le> max_fds ofdt div BITS_PER_LONG"
    using count(2,3) q by (simp_all add: less_eq_div_iff_mult_less_eq mult.commute)
  then show "fd_is_open fd (copy_fd_bitmaps nfdt ofdt count) \<longleftrightarrow> fd < count \<and> fd_is_open fd ofdt"
    "close_on_exec fd (copy_fd_bitmaps nfdt ofdt count) \<longleftrightarrow> fd < count \<and> close_on_exec fd ofdt"
    using copy_fd_bitmaps_words [OF n o count] q fd sn(2) so(5,6)
    by (simp_all add: fd_is_open_def close_on_exec_def test_bit_take_replicate)
qed

lemma fdt_shape_copy_fd_bitmaps:
  assumes n: "fdt_shape nfdt" and o: "fdt_shape ofdt"
    and count: "BITS_PER_LONG dvd count" "count \<le> max_fds ofdt" "count \<le> max_fds nfdt"
  shows "fdt_shape (copy_fd_bitmaps nfdt ofdt count)"
proof -
  note so = fdt_shapeD [OF o]
  have "count div BITS_PER_LONG \<le> max_fds nfdt div BITS_PER_LONG"
    "count div BITS_PER_LONG \<le> max_fds ofdt div BITS_PER_LONG"
    using count by (simp_all add: div_le_mono)
  then show ?thesis
    using n so(5-7) BITBIT_NR_mono [OF count(2)] BITBIT_NR_mono [OF count(3)]
    by (simp add: fdt_shape_def fdt_simps copy_fd_bitmaps_words [OF n o count])
qed

text \<open>
  The copy is consistent provided the words cut off are empty: then no stale bit of
  \<open>full_fds_bits\<close> past the cut survives in the last word copied.
\<close>

lemma copy_fd_bitmaps_full:
  assumes n: "fdt_shape nfdt" and o: "fdt_ok ofdt"
    and count: "BITS_PER_LONG dvd count" "count \<le> max_fds ofdt" "count \<le> max_fds nfdt"
    and cut: "\<And>i. count div BITS_PER_LONG \<le> i \<Longrightarrow> i < max_fds ofdt div BITS_PER_LONG \<Longrightarrow> fdt_open_fds ofdt ! i = 0"
    and i: "i < BITS_PER_LONG * BITBIT_NR (max_fds nfdt)"
  defines "t \<equiv> copy_fd_bitmaps nfdt ofdt count"
  shows "test_bit i (fdt_full_fds_bits t) \<longleftrightarrow> i < max_fds nfdt div BITS_PER_LONG \<and> fdt_open_fds t ! i = - 1"
proof -
  note so = fdt_shapeD [OF fdt_ok_shape [OF o]]
  note w = copy_fd_bitmaps_words [OF n fdt_ok_shape [OF o] count, folded t_def]
  let ?k = "count div BITS_PER_LONG" and ?m = "max_fds nfdt div BITS_PER_LONG"
  have k: "?k \<le> ?m" "?k \<le> max_fds ofdt div BITS_PER_LONG" using count by (simp_all add: div_le_mono)
  have kb: "?k \<le> BITS_PER_LONG * BITBIT_NR count" using BITBIT_covers [OF count(1)] .
  have bb: "BITBIT_NR count \<le> BITBIT_NR (max_fds ofdt)" "BITBIT_NR count \<le> BITBIT_NR (max_fds nfdt)"
    using count by (simp_all add: BITBIT_NR_mono)
  have "test_bit i (fdt_full_fds_bits t) \<longleftrightarrow>
      i < BITS_PER_LONG * BITBIT_NR count \<and> test_bit i (fdt_full_fds_bits ofdt)"
    unfolding w(3) by (rule test_bit_take_replicate) (use bb i so(7) in auto)
  also have "\<dots> \<longleftrightarrow> i < BITS_PER_LONG * BITBIT_NR count \<and> i < max_fds ofdt div BITS_PER_LONG \<and>
      fdt_open_fds ofdt ! i = - 1"
    using fdt_ok_full [OF o, of i] bb(1) by auto
  also have "\<dots> \<longleftrightarrow> i < ?k \<and> fdt_open_fds ofdt ! i = - 1"
    using cut [of i] kb k by (cases "i < ?k") auto
  also have "\<dots> \<longleftrightarrow> i < ?m \<and> fdt_open_fds t ! i = - 1"
  proof (cases "i < ?k")
    case True
    with k so(6) show ?thesis by (simp add: w(1) nth_append)
  next
    case False
    then have "fdt_open_fds t ! i = 0" if "i < ?m"
      using that k so(6) diff_less_mono [OF that, of ?k] by (simp add: w(1) nth_append)
    with False show ?thesis by auto
  qed
  finally show ?thesis .
qed

lemma copy_fdtable_correct:
  assumes n: "fdt_shape nfdt" and o: "fdt_ok ofdt" and le: "max_fds ofdt \<le> max_fds nfdt"
    and safe: "max_fds nfdt \<le> nr_open_safe"
  obtains t where "copy_fdtable nfdt ofdt = Some t" "fdt_ok t" "max_fds t = max_fds nfdt"
    "\<And>fd. fd < max_fds nfdt \<Longrightarrow> fdt_fd t ! fd = (if fd < max_fds ofdt then fdt_fd ofdt ! fd else None)"
    "\<And>fd. fd < max_fds nfdt \<Longrightarrow> fd_is_open fd t \<longleftrightarrow> fd < max_fds ofdt \<and> fd_is_open fd ofdt"
    "\<And>fd. fd < max_fds nfdt \<Longrightarrow> close_on_exec fd t \<longleftrightarrow> fd < max_fds ofdt \<and> close_on_exec fd ofdt"
proof -
  note sn = fdt_shapeD [OF n] and so = fdt_shapeD [OF fdt_ok_shape [OF o]]
  have len: "u32 (max_fds ofdt * SIZEOF_PTR) = 8 * max_fds ofdt"
    "u32 ((max_fds nfdt - max_fds ofdt) * SIZEOF_PTR) = 8 * (max_fds nfdt - max_fds ofdt)"
    using safe le by (simp_all add: nr_open_safe_def u32_def)
  let ?n = "nfdt\<lparr>fdt_fd := fdt_fd ofdt @ replicate (max_fds nfdt - max_fds ofdt) None\<rparr>"
  let ?t = "copy_fd_bitmaps ?n ofdt (max_fds ofdt)"
  have n': "fdt_shape ?n" using n so(4) le by (simp add: fdt_shape_def)
  have copy: "copy_fdtable nfdt ofdt = Some ?t"
    using le so(4) sn(4) by (simp add: copy_fdtable_def Let_def len memcpy_memset_def)
  have c: "BITS_PER_LONG dvd max_fds ofdt" "max_fds ofdt \<le> max_fds ofdt" "max_fds ofdt \<le> max_fds ?n"
    using so(9) le by auto
  note bits = copy_fd_bitmaps_bits [OF n' fdt_ok_shape [OF o] c]
  have fds: "fdt_fd ?t ! fd = (if fd < max_fds ofdt then fdt_fd ofdt ! fd else None)"
    if "fd < max_fds nfdt" for fd
    using that so(4) by (simp add: fdt_simps nth_append)
  have "fdt_ok ?t"
    unfolding fdt_ok_def
    using fdt_shape_copy_fd_bitmaps [OF n' fdt_ok_shape [OF o] c]
      copy_fd_bitmaps_full [OF n' o c] fds bits(1) fdt_ok_installed [OF o]
    by (auto simp: fdt_simps split: if_splits)
  then show thesis
    using copy fds bits by (intro that [of ?t]) (simp_all add: fdt_simps)
qed


section \<open>The abstract descriptor map\<close>

text \<open>
  What a process sees of its table: which descriptors are in use, the file each refers to
  (\<open>None\<close> while a descriptor is reserved but not installed) and its close-on-exec flag.
\<close>

type_synonym descriptor_map = "nat \<rightharpoonup> file_ptr option \<times> bool"

definition descriptors :: "fdtable \<Rightarrow> descriptor_map" where
  "descriptors t fd =
     (if fd < max_fds t \<and> fd_is_open fd t then Some (fdt_fd t ! fd, close_on_exec fd t) else None)"

lemma dom_descriptors: "fd \<in> dom (descriptors t) \<longleftrightarrow> fd < max_fds t \<and> fd_is_open fd t"
  by (auto simp: descriptors_def split: if_splits)

lemma descriptors_eqI:
  assumes "max_fds t \<le> max_fds t'"
    "\<And>fd. fd < max_fds t' \<Longrightarrow> fdt_fd t' ! fd = (if fd < max_fds t then fdt_fd t ! fd else None)"
    "\<And>fd. fd < max_fds t' \<Longrightarrow> fd_is_open fd t' \<longleftrightarrow> fd < max_fds t \<and> fd_is_open fd t"
    "\<And>fd. fd < max_fds t' \<Longrightarrow> close_on_exec fd t' \<longleftrightarrow> fd < max_fds t \<and> close_on_exec fd t"
  shows "descriptors t' = descriptors t"
  using assms by (auto simp: descriptors_def fun_eq_iff)

section \<open>Expanding the table\<close>

lemma expand_fdtable_ok:
  assumes env: "fs_env_ok E" and ok: "fdt_ok (fdt files)"
    and nr: "max_fds (fdt files) \<le> nr" "nr < sysctl_nr_open E"
  shows "expand_fdtable E files nr = Some (- ENOMEM, spin_lock files) \<or>
    (\<exists>t. expand_fdtable E files nr = Some (1, (spin_lock files)\<lparr>fdt := t, fdt_embedded := False\<rparr>) \<and>
       fdt_ok t \<and> nr < max_fds t \<and> descriptors t = descriptors (fdt files))"
proof (cases "alloc_fdtable E nr")
  case None
  then show ?thesis by (simp add: expand_fdtable_def spin_lock_def spin_unlock_def)
next
  case (Some n)
  have "nr < 2 ^ 31" using env nr(2) by (simp add: fs_env_ok_def nr_open_safe_def)
  note n = alloc_fdtable_shape(1) [OF env this Some] alloc_fdtable_shape(2) [OF env this Some nr(2)]
    alloc_fdtable_shape(3) [OF env this Some]
  have le: "max_fds (fdt files) \<le> max_fds n" using n(2) nr(1) by simp
  obtain t where t: "copy_fdtable n (fdt files) = Some t" "fdt_ok t" "max_fds t = max_fds n"
    "\<And>fd. fd < max_fds n \<Longrightarrow> fdt_fd t ! fd = (if fd < max_fds (fdt files) then fdt_fd (fdt files) ! fd else None)"
    "\<And>fd. fd < max_fds n \<Longrightarrow> fd_is_open fd t \<longleftrightarrow> fd < max_fds (fdt files) \<and> fd_is_open fd (fdt files)"
    "\<And>fd. fd < max_fds n \<Longrightarrow> close_on_exec fd t \<longleftrightarrow> fd < max_fds (fdt files) \<and> close_on_exec fd (fdt files)"
    by (rule copy_fdtable_correct [OF n(1) ok le n(3)]) (assumption | blast)
  have "descriptors t = descriptors (fdt files)"
    using t n(2) nr(1) by (intro descriptors_eqI) auto
  with Some n(2) nr(1) t show ?thesis
    by (auto simp: expand_fdtable_def spin_lock_def spin_unlock_def)
qed

lemma expand_files_room:
  "nr < max_fds (fdt files) \<Longrightarrow> expand_files E files nr = Some (0, files)"
  by (simp add: expand_files_def expand_files_from.simps [of E 0 files nr])

lemma expand_files_limit:
  "max_fds (fdt files) \<le> nr \<Longrightarrow> sysctl_nr_open E \<le> nr \<Longrightarrow> expand_files E files nr = Some (- EMFILE, files)"
  by (simp add: expand_files_def expand_files_from.simps [of E 0 files nr])

text \<open>
  With no resize under way, \<open>expand_files\<close> always comes back, and when it had to grow the table
  the descriptors are those of the old one.
\<close>

lemma expand_files_grows:
  assumes env: "fs_env_ok E" and ok: "fdt_ok (fdt files)" and idle: "\<not> resize_in_progress files"
    and nr: "max_fds (fdt files) \<le> nr" "nr < sysctl_nr_open E"
  shows "expand_files E files nr = Some (- ENOMEM, spin_lock files) \<or>
    (\<exists>t. expand_files E files nr = Some (1, (spin_lock files)\<lparr>fdt := t, fdt_embedded := False\<rparr>) \<and>
       fdt_ok t \<and> nr < max_fds t \<and> descriptors t = descriptors (fdt files))"
proof -
  let ?f = "files\<lparr>resize_in_progress := True\<rparr>"
  have unfold: "expand_files E files nr =
      do { (expanded, files) \<leftarrow> expand_fdtable E ?f nr; Some (expanded, files\<lparr>resize_in_progress := False\<rparr>) }"
    using nr idle by (simp add: expand_files_def expand_files_from.simps [of E 0 files nr])
  have lock: "(spin_lock ?f)\<lparr>resize_in_progress := False\<rparr> = spin_lock files"
    using idle by (cases files) (simp add: spin_lock_def)
  from env ok nr have "expand_fdtable E ?f nr = Some (- ENOMEM, spin_lock ?f) \<or>
    (\<exists>t. expand_fdtable E ?f nr = Some (1, (spin_lock ?f)\<lparr>fdt := t, fdt_embedded := False\<rparr>) \<and>
       fdt_ok t \<and> nr < max_fds t \<and> descriptors t = descriptors (fdt files))"
    using expand_fdtable_ok [of E ?f nr] by simp
  then show ?thesis
  proof (elim disjE exE conjE)
    assume "expand_fdtable E ?f nr = Some (- ENOMEM, spin_lock ?f)"
    with lock show ?thesis by (simp add: unfold)
  next
    fix t
    assume t: "expand_fdtable E ?f nr = Some (1, (spin_lock ?f)\<lparr>fdt := t, fdt_embedded := False\<rparr>)"
      "fdt_ok t" "nr < max_fds t" "descriptors t = descriptors (fdt files)"
    have "(spin_lock ?f)\<lparr>fdt := t, fdt_embedded := False, resize_in_progress := False\<rparr> =
        (spin_lock files)\<lparr>fdt := t, fdt_embedded := False\<rparr>"
      by (subst lock [symmetric]) simp
    with t show ?thesis by (intro disjI2 exI [of _ t]) (simp add: unfold)
  qed
qed

lemma expand_files_cases:
  assumes "fs_env_ok E" "fdt_ok (fdt files)" "\<not> resize_in_progress files"
  obtains (room) "nr < max_fds (fdt files)" "expand_files E files nr = Some (0, files)"
  | (limit) "max_fds (fdt files) \<le> nr" "sysctl_nr_open E \<le> nr" "expand_files E files nr = Some (- EMFILE, files)"
  | (nomem) "max_fds (fdt files) \<le> nr" "nr < sysctl_nr_open E" "expand_files E files nr = Some (- ENOMEM, spin_lock files)"
  | (grown) t where "max_fds (fdt files) \<le> nr" "nr < sysctl_nr_open E"
      "expand_files E files nr = Some (1, (spin_lock files)\<lparr>fdt := t, fdt_embedded := False\<rparr>)"
      "fdt_ok t" "nr < max_fds t" "descriptors t = descriptors (fdt files)"
proof (cases "nr < max_fds (fdt files)")
  case True
  then show thesis by (intro room expand_files_room)
next
  case False
  show thesis
  proof (cases "nr < sysctl_nr_open E")
    case True
    from expand_files_grows [OF assms, of nr] False True nomem grown show thesis by auto
  next
    case lim: False
    with False show thesis by (intro limit expand_files_limit) auto
  qed
qed

end
