(* ===== verification/Fd_Alloc.thy ===== *)
theory Fd_Alloc
  imports Fdtable
begin

text \<open>
  The core of descriptor handling in \<open>fs/file.c\<close>: looking a descriptor up, allocating the lowest
  free one (\<open>__alloc_fd\<close>), installing a file in it and closing it.

  Each operation is related to the abstract map \<open>descriptors\<close>: \<open>raw_alloc_fd_cases\<close>,
  \<open>raw_fd_install_descriptors\<close> and \<open>raw_close_fd_descriptors\<close> say what it returns, how the map
  changes, and that the invariant \<open>files_ok\<close> is kept and the lock released.
\<close>


section \<open>Looking up a descriptor\<close>

definition raw_fcheck_files :: "files_struct \<Rightarrow> nat \<Rightarrow> file_ptr option" where
  "raw_fcheck_files files fd = (if fd < max_fds (fdt files) then fdt_fd (fdt files) ! fd else None)"

definition fcheck_files :: "files_struct \<Rightarrow> nat \<Rightarrow> file_ptr option" where
  "fcheck_files files fd = raw_fcheck_files files fd"

section \<open>Allocating, installing and closing descriptors\<close>

text \<open>
  The body of \<open>__alloc_fd\<close> between \<open>repeat:\<close> and \<open>out:\<close>: the candidate it looks at, the loop, and
  the marking of the descriptor it found.
\<close>

definition alloc_candidate :: "files_struct \<Rightarrow> nat \<Rightarrow> nat" where
  "alloc_candidate files start =
     (let fd = start;
          fd = (if fd < next_fd files then next_fd files else fd)
      in if fd < max_fds (fdt files) then find_next_fd (fdt files) fd else fd)"

definition alloc_mark :: "nat \<Rightarrow> 32 word \<Rightarrow> fdtable \<Rightarrow> fdtable" where
  "alloc_mark fd flags t =
     (let t = raw_set_open_fd fd t;
          t = (if flags AND O_CLOEXEC \<noteq> 0 then raw_set_close_on_exec fd t
               else raw_clear_close_on_exec fd t)
      in if fdt_fd t ! fd \<noteq> None then t\<lparr>fdt_fd := (fdt_fd t)[fd := None]\<rparr> else t)"

partial_function (option) raw_alloc_fd_repeat ::
    "fs_env \<Rightarrow> files_struct \<Rightarrow> nat \<Rightarrow> nat \<Rightarrow> 32 word \<Rightarrow> (int \<times> files_struct) option" where
  "raw_alloc_fd_repeat E files start fend flags =
     (let fd = alloc_candidate files start
      in if fd \<ge> fend then Some (- EMFILE, files)
         else do {
           (error, files) \<leftarrow> expand_files E files fd;
           if error < 0 then Some (error, files)
           else if error \<noteq> 0 then raw_alloc_fd_repeat E files start fend flags
           else
             let files = (if start \<le> next_fd files then files\<lparr>next_fd := u32 (fd + 1)\<rparr> else files)
             in Some (s32 fd, files\<lparr>fdt := alloc_mark fd flags (fdt files)\<rparr>)
         })"

declare raw_alloc_fd_repeat.simps [code]

definition raw_alloc_fd ::
    "fs_env \<Rightarrow> files_struct \<Rightarrow> nat \<Rightarrow> nat \<Rightarrow> 32 word \<Rightarrow> (int \<times> files_struct) option" where
  "raw_alloc_fd E files start fend flags =
     do { (error, files) \<leftarrow> raw_alloc_fd_repeat E (spin_lock files) start fend flags;
          Some (error, spin_unlock files) }"

text \<open>
  The functions below work on \<open>current->files\<close>, passed as an argument; \<open>rlim\<close> is
  \<open>rlimit(RLIMIT_NOFILE)\<close> of the calling task, an \<open>unsigned long\<close> that \<open>__alloc_fd\<close> truncates.
\<close>

definition alloc_fd :: "fs_env \<Rightarrow> nat \<Rightarrow> files_struct \<Rightarrow> nat \<Rightarrow> 32 word \<Rightarrow> (int \<times> files_struct) option" where
  "alloc_fd E rlim files start flags = raw_alloc_fd E files start (u32 rlim) flags"

definition get_unused_fd_flags :: "fs_env \<Rightarrow> nat \<Rightarrow> files_struct \<Rightarrow> 32 word \<Rightarrow> (int \<times> files_struct) option" where
  "get_unused_fd_flags E rlim files flags = raw_alloc_fd E files 0 (u32 rlim) flags"

definition raw_put_unused_fd :: "files_struct \<Rightarrow> nat \<Rightarrow> files_struct" where
  "raw_put_unused_fd files fd =
     (let files = files\<lparr>fdt := raw_clear_open_fd fd (fdt files)\<rparr>
      in if fd < next_fd files then files\<lparr>next_fd := fd\<rparr> else files)"

definition put_unused_fd :: "files_struct \<Rightarrow> nat \<Rightarrow> files_struct" where
  "put_unused_fd files fd = spin_unlock (raw_put_unused_fd (spin_lock files) fd)"

partial_function (option) fd_install_wait :: "fs_env \<Rightarrow> files_struct \<Rightarrow> files_struct option" where
  "fd_install_wait E files =
     (if resize_in_progress files then fd_install_wait E (wait_resize E files) else Some files)"

declare fd_install_wait.simps [code]

definition raw_fd_install :: "fs_env \<Rightarrow> files_struct \<Rightarrow> nat \<Rightarrow> file_ptr \<Rightarrow> files_struct option" where
  "raw_fd_install E files fd f =
     do { files \<leftarrow> fd_install_wait E files;
          if fdt_fd (fdt files) ! fd \<noteq> None then None
          else Some (files\<lparr>fdt := (fdt files)\<lparr>fdt_fd := (fdt_fd (fdt files))[fd := Some f]\<rparr>\<rparr>) }"

definition fd_install :: "fs_env \<Rightarrow> files_struct \<Rightarrow> nat \<Rightarrow> file_ptr \<Rightarrow> files_struct option" where
  "fd_install E files fd f = raw_fd_install E files fd f"

definition raw_close_fd :: "fs_env \<Rightarrow> files_struct \<Rightarrow> fheap \<Rightarrow> nat \<Rightarrow> int \<times> files_struct \<times> fheap" where
  "raw_close_fd E files h fd =
     (let files = spin_lock files
      in if fd \<ge> max_fds (fdt files) then (- EBADF, spin_unlock files, h)
         else case fdt_fd (fdt files) ! fd of
           None \<Rightarrow> (- EBADF, spin_unlock files, h)
         | Some f \<Rightarrow>
             let files = files\<lparr>fdt := (fdt files)\<lparr>fdt_fd := (fdt_fd (fdt files))[fd := None]\<rparr>\<rparr>;
                 files = files\<lparr>fdt := raw_clear_close_on_exec fd (fdt files)\<rparr>;
                 files = raw_put_unused_fd files fd;
                 files = spin_unlock files;
                 (r, h) = filp_close E f h
             in (r, files, h))"

section \<open>What they do to the descriptors\<close>

text \<open>The lowest descriptor not below \<open>start\<close> that is not in use.\<close>

definition lowest_free :: "descriptor_map \<Rightarrow> nat \<Rightarrow> nat \<Rightarrow> bool" where
  "lowest_free m start fd \<longleftrightarrow> start \<le> fd \<and> fd \<notin> dom m \<and> (\<forall>k. start \<le> k \<and> k < fd \<longrightarrow> k \<in> dom m)"

lemma lowest_free_unique: "lowest_free m start a \<Longrightarrow> lowest_free m start b \<Longrightarrow> a = b"
  unfolding lowest_free_def by (meson linorder_neqE_nat)

lemma alloc_candidate_lowest:
  assumes "files_ok files"
  shows "lowest_free (descriptors (fdt files)) start (alloc_candidate files start)"
proof -
  let ?t = "fdt files" and ?s = "max start (next_fd files)"
  have below: "k \<in> dom (descriptors ?t)" if "k < next_fd files" for k
    using assms that by (auto simp: files_ok_def dom_descriptors)
  show ?thesis
  proof (cases "?s < max_fds ?t")
    case True
    let ?r = "find_next_zero_bit (fdt_open_fds ?t) (max_fds ?t) ?s"
    have cand: "alloc_candidate files start = ?r"
      using True assms by (auto simp: alloc_candidate_def max_def find_next_fd_eq)
    have "?s \<le> ?r" using True by (intro find_next_zero_bit_ge) simp
    moreover have "?r < max_fds ?t \<Longrightarrow> \<not> fd_is_open ?r ?t"
      unfolding fd_is_open_def by (rule find_next_zero_bit_clear)
    moreover have "k \<in> dom (descriptors ?t)" if "start \<le> k" "k < ?r" for k
    proof (cases "k < next_fd files")
      case False
      have "?r \<le> max_fds ?t" using True by (intro find_next_zero_bit_le) simp
      with that False find_next_zero_bit_skips [of ?s k "fdt_open_fds ?t" "max_fds ?t"] show ?thesis
        by (simp add: dom_descriptors fd_is_open_def)
    qed (rule below)
    ultimately show ?thesis by (auto simp: lowest_free_def cand dom_descriptors)
  next
    case False
    moreover have "next_fd files \<le> max_fds ?t" using assms by (simp add: files_ok_def)
    ultimately have "k \<in> dom (descriptors ?t)" if "start \<le> k" "k < ?s" for k
      using that below by (auto simp: max_def split: if_splits)
    moreover have "alloc_candidate files start = ?s"
      using False by (auto simp: alloc_candidate_def max_def)
    ultimately show ?thesis using False by (auto simp: lowest_free_def dom_descriptors)
  qed
qed

lemma alloc_mark_fields [fdt_simps]: "max_fds (alloc_mark fd flags t) = max_fds t"
  by (simp add: alloc_mark_def Let_def fdt_simps)

lemma alloc_mark_ok:
  assumes "fdt_ok t" "fd < max_fds t"
  shows "fdt_ok (alloc_mark fd flags t)"
  unfolding alloc_mark_def Let_def
  using assms by (auto intro!: fdt_ok_uninstall fdt_ok_cloexec fdt_ok_set_open)

lemma alloc_mark_open:
  assumes "fdt_shape t" "fd < max_fds t"
  shows "fd_is_open n (alloc_mark fd flags t) \<longleftrightarrow> n = fd \<or> fd_is_open n t"
  using assms by (auto simp: alloc_mark_def Let_def fdt_simps)

lemma descriptors_alloc_mark:
  assumes "fdt_ok t" "fd < max_fds t"
  shows "descriptors (alloc_mark fd flags t) = (descriptors t)(fd \<mapsto> (None, flags AND O_CLOEXEC \<noteq> 0))"
proof -
  note sh = fdt_ok_shape [OF assms(1)]
  have "fdt_fd (alloc_mark fd flags t) ! n = (if n = fd then None else fdt_fd t ! n)" for n
    using assms fdt_shapeD(4) [OF sh]
    by (auto simp: alloc_mark_def Let_def fdt_simps nth_list_update_if)
  moreover have "close_on_exec n (alloc_mark fd flags t) \<longleftrightarrow>
      (if n = fd then flags AND O_CLOEXEC \<noteq> 0 else close_on_exec n t)" for n
    using assms sh by (auto simp: alloc_mark_def Let_def fdt_simps)
  ultimately show ?thesis
    using assms sh by (auto simp: descriptors_def fun_eq_iff alloc_mark_open fdt_simps)
qed


lemma files_ok_lock [simp]:
  "files_ok (spin_lock files) = files_ok files" "files_ok (spin_unlock files) = files_ok files"
  "fdt (spin_lock files) = fdt files" "fdt (spin_unlock files) = fdt files"
  "next_fd (spin_lock files) = next_fd files" "next_fd (spin_unlock files) = next_fd files"
  "files_count (spin_lock files) = files_count files" "files_count (spin_unlock files) = files_count files"
  "spin_lock (spin_lock files) = spin_lock files" "spin_unlock (spin_lock files) = spin_unlock files"
  "file_lock (spin_lock files)" "\<not> file_lock (spin_unlock files)"
  "resize_in_progress (spin_lock files) = resize_in_progress files"
  "resize_in_progress (spin_unlock files) = resize_in_progress files"
  "fdt_embedded (spin_lock files) = fdt_embedded files" "fdt_embedded (spin_unlock files) = fdt_embedded files"
  by (simp_all add: files_ok_def spin_lock_def spin_unlock_def)

lemma files_ok_idle: "files_ok files \<Longrightarrow> \<not> resize_in_progress files"
  by (simp add: files_ok_def)

lemma files_ok_grown:
  assumes "files_ok files" "fdt_ok t" "max_fds (fdt files) \<le> max_fds t" "descriptors t = descriptors (fdt files)"
  shows "files_ok (files\<lparr>fdt := t, fdt_embedded := b\<rparr>)"
proof -
  have "fd_is_open fd t" if "fd < next_fd files" for fd
    using assms that dom_descriptors [of fd t] dom_descriptors [of fd "fdt files"] by (auto simp: files_ok_def)
  with assms show ?thesis by (auto simp: files_ok_def)
qed

lemma alloc_candidate_descriptors:
  "files_ok files \<Longrightarrow> files_ok files' \<Longrightarrow> descriptors (fdt files') = descriptors (fdt files) \<Longrightarrow>
     alloc_candidate files' start = alloc_candidate files start"
  by (metis alloc_candidate_lowest lowest_free_unique)

lemma files_ok_alloc_mark:
  assumes ok: "files_ok files" and fd: "fd = alloc_candidate files start" "fd < max_fds (fdt files)"
  shows "files_ok ((if start \<le> next_fd files then files\<lparr>next_fd := u32 (fd + 1)\<rparr> else files)
     \<lparr>fdt := alloc_mark fd flags (fdt files)\<rparr>)"
proof -
  note low = alloc_candidate_lowest [OF ok, of start, folded fd(1), unfolded lowest_free_def dom_descriptors]
  have nf: "k < next_fd files \<Longrightarrow> fd_is_open k (fdt files)" for k using ok by (simp add: files_ok_def)
  have "u32 (fd + 1) = fd + 1"
    using fd(2) fdt_shapeD(3) [OF fdt_ok_shape [OF files_ok_fdt [OF ok]]] by (intro u32_id) simp
  moreover have "fd_is_open k (alloc_mark fd flags (fdt files))" if "start \<le> next_fd files" "k < fd + 1" for k
    using that low nf [of k] ok fd(2) by (cases "k < start") (auto simp: alloc_mark_open less_Suc_eq)
  ultimately show ?thesis
    using ok fd(2) nf by (auto simp: files_ok_def fdt_simps alloc_mark_open intro!: alloc_mark_ok)
qed

text \<open>One round of the loop when the table already has room, and the whole function.\<close>

lemma raw_alloc_fd_repeat_room:
  assumes "alloc_candidate files start < fend" "alloc_candidate files start < max_fds (fdt files)"
  shows "raw_alloc_fd_repeat E files start fend flags =
    Some (s32 (alloc_candidate files start),
      (if start \<le> next_fd files then files\<lparr>next_fd := u32 (alloc_candidate files start + 1)\<rparr> else files)
      \<lparr>fdt := alloc_mark (alloc_candidate files start) flags (fdt files)\<rparr>)"
  using assms by (simp add: raw_alloc_fd_repeat.simps [of E files] expand_files_room Let_def)

lemma raw_alloc_fd_cases:
  assumes env: "fs_env_ok E" and ok: "files_ok files"
  obtains (limit) fd where "lowest_free (descriptors (fdt files)) start fd"
      "fend \<le> fd \<or> max_fds (fdt files) \<le> fd \<and> sysctl_nr_open E \<le> fd"
      "raw_alloc_fd E files start fend flags = Some (- EMFILE, spin_unlock files)"
  | (nomem) fd where "lowest_free (descriptors (fdt files)) start fd" "fd < fend"
      "max_fds (fdt files) \<le> fd" "fd < sysctl_nr_open E"
      "raw_alloc_fd E files start fend flags = Some (- ENOMEM, spin_unlock files)"
  | (allocated) fd files' where "lowest_free (descriptors (fdt files)) start fd" "fd < fend"
      "raw_alloc_fd E files start fend flags = Some (int fd, files')" "files_ok files'" "\<not> file_lock files'"
      "fd < max_fds (fdt files')" "files_count files' = files_count files"
      "descriptors (fdt files') = (descriptors (fdt files))(fd \<mapsto> (None, flags AND O_CLOEXEC \<noteq> 0))"
proof -
  let ?f = "spin_lock files" and ?fd = "alloc_candidate files start"
  have low: "lowest_free (descriptors (fdt files)) start ?fd" by (rule alloc_candidate_lowest [OF ok])
  have cand: "alloc_candidate ?f start = ?fd" by (simp add: alloc_candidate_def Let_def)
  have fin: thesis
    if g: "raw_alloc_fd E files start fend flags =
             (case raw_alloc_fd_repeat E g start fend flags of None \<Rightarrow> None | Some (e, f) \<Rightarrow> Some (e, spin_unlock f))"
      and "files_ok g" "descriptors (fdt g) = descriptors (fdt files)" "?fd < max_fds (fdt g)" "?fd < fend"
        "files_count g = files_count files" for g
  proof -
    have c: "alloc_candidate g start = ?fd" using that ok by (metis alloc_candidate_descriptors)
    have "?fd < 2 ^ 31"
      using that fdt_shapeD(3) [OF fdt_ok_shape [OF files_ok_fdt [OF that(2)]]] by simp
    then have eq: "raw_alloc_fd E files start fend flags = Some (int ?fd, spin_unlock
      ((if start \<le> next_fd g then g\<lparr>next_fd := u32 (?fd + 1)\<rparr> else g)\<lparr>fdt := alloc_mark ?fd flags (fdt g)\<rparr>))"
      using that by (simp add: raw_alloc_fd_repeat_room c)
    show thesis
      using that files_ok_alloc_mark [OF that(2) c [symmetric], of flags]
      by (intro allocated [OF low _ eq]) (auto simp: fdt_simps descriptors_alloc_mark)
  qed
  have unfold: "raw_alloc_fd E files start fend flags =
      (case raw_alloc_fd_repeat E ?f start fend flags of None \<Rightarrow> None | Some (e, f) \<Rightarrow> Some (e, spin_unlock f))"
    by (simp add: raw_alloc_fd_def split: option.splits)
  show thesis
  proof (cases "?fd < fend")
    case False
    then show thesis
      using low by (intro limit) (auto simp: raw_alloc_fd_def raw_alloc_fd_repeat.simps [of E ?f] cand)
  next
    case fend: True
    have idle: "\<not> resize_in_progress ?f" "fdt_ok (fdt ?f)" using ok by (simp_all add: files_ok_def)
    from env idle(2,1) show thesis
    proof (cases rule: expand_files_cases [where nr = ?fd])
      case room
      with fend ok show thesis by (intro fin [OF unfold]) auto
    next
      case limit': limit
      with fend low show thesis
        by (intro limit) (auto simp: raw_alloc_fd_def raw_alloc_fd_repeat.simps [of E ?f] cand)
    next
      case nomem': nomem
      with fend low show thesis
        by (intro nomem) (auto simp: raw_alloc_fd_def raw_alloc_fd_repeat.simps [of E ?f] cand)
    next
      case (grown t)
      let ?g = "(spin_lock ?f)\<lparr>fdt := t, fdt_embedded := False\<rparr>"
      have "raw_alloc_fd_repeat E ?f start fend flags = raw_alloc_fd_repeat E ?g start fend flags"
        using grown fend by (simp add: raw_alloc_fd_repeat.simps [of E ?f] cand)
      with grown fend ok show thesis
        by (intro fin [of ?g]) (auto simp: unfold intro!: files_ok_grown)
    qed
  qed
qed


lemma raw_fcheck_files_descriptors:
  "files_ok files \<Longrightarrow> raw_fcheck_files files fd = Option.bind (descriptors (fdt files) fd) fst"
  using fdt_ok_installed [of "fdt files" fd] 
  by (cases "fdt_fd (fdt files) ! fd") (auto simp: raw_fcheck_files_def descriptors_def)

lemma descriptors_SomeD:
  "descriptors t fd = Some (x, c) \<Longrightarrow>
     fd < max_fds t \<and> fd_is_open fd t \<and> fdt_fd t ! fd = x \<and> close_on_exec fd t = c"
  by (auto simp: descriptors_def split: if_splits)

lemma descriptors_set_fd:
  assumes "fdt_shape t" "descriptors t fd = Some (x, c)"
  shows "descriptors (t\<lparr>fdt_fd := (fdt_fd t)[fd := y]\<rparr>) = (descriptors t)(fd \<mapsto> (y, c))"
  using descriptors_SomeD [OF assms(2)] fdt_shapeD(4) [OF assms(1)]
  by (auto simp: descriptors_def fun_eq_iff fdt_simps nth_list_update_if)

lemma descriptors_clear_open:
  "fdt_shape t \<Longrightarrow> fd < max_fds t \<Longrightarrow> descriptors (raw_clear_open_fd fd t) = (descriptors t)(fd := None)"
  by (auto simp: descriptors_def fun_eq_iff fdt_simps)

lemma descriptors_clear_cloexec:
  "fdt_shape t \<Longrightarrow> fd < max_fds t \<Longrightarrow> descriptors (raw_clear_close_on_exec fd t) =
     (descriptors t)(fd := map_option (\<lambda>(f, c). (f, False)) (descriptors t fd))"
  by (auto simp: descriptors_def fun_eq_iff fdt_simps)

lemma raw_put_unused_fd_fields [fdt_simps]:
  "fdt (raw_put_unused_fd files fd) = raw_clear_open_fd fd (fdt files)"
  "next_fd (raw_put_unused_fd files fd) = min fd (next_fd files)"
  "files_count (raw_put_unused_fd files fd) = files_count files"
  "resize_in_progress (raw_put_unused_fd files fd) = resize_in_progress files"
  "file_lock (raw_put_unused_fd files fd) = file_lock files"
  by (simp_all add: raw_put_unused_fd_def Let_def)

lemma files_ok_raw_put_unused_fd:
  assumes "files_ok files" "fd < max_fds (fdt files)" "fdt_fd (fdt files) ! fd = None"
  shows "files_ok (raw_put_unused_fd files fd)"
  using assms by (auto simp: files_ok_def fdt_simps intro!: fdt_ok_clear_open)

lemma files_ok_set_fdt:
  assumes "files_ok files" "fdt_ok t" "max_fds t = max_fds (fdt files)"
    "\<And>fd. fd_is_open fd (fdt files) \<Longrightarrow> fd_is_open fd t"
  shows "files_ok (files\<lparr>fdt := t\<rparr>)"
  using assms by (simp add: files_ok_def)

lemma put_unused_fd_descriptors:
  assumes "files_ok files" "descriptors (fdt files) fd = Some (None, c)"
  shows "descriptors (fdt (put_unused_fd files fd)) = (descriptors (fdt files))(fd := None)"
    "files_ok (put_unused_fd files fd)" "\<not> file_lock (put_unused_fd files fd)"
  using assms descriptors_SomeD [OF assms(2)]
  by (simp_all add: put_unused_fd_def fdt_simps descriptors_clear_open files_ok_raw_put_unused_fd)

lemma raw_fd_install_descriptors:
  assumes "files_ok files" "descriptors (fdt files) fd = Some (None, c)"
  obtains files' where "raw_fd_install E files fd f = Some files'"
    "descriptors (fdt files') = (descriptors (fdt files))(fd \<mapsto> (Some f, c))"
    "files_ok files'" "file_lock files' = file_lock files" "files_count files' = files_count files"
proof -
  let ?t = "(fdt files)\<lparr>fdt_fd := (fdt_fd (fdt files))[fd := Some f]\<rparr>"
  note d = descriptors_SomeD [OF assms(2)]
  have eq: "raw_fd_install E files fd f = Some (files\<lparr>fdt := ?t\<rparr>)"
    using d files_ok_idle [OF assms(1)] by (simp add: raw_fd_install_def fd_install_wait.simps [of E files])
  have "files_ok (files\<lparr>fdt := ?t\<rparr>)"
    using assms d by (intro files_ok_set_fdt) (auto simp: fdt_simps intro!: fdt_ok_install)
  then show thesis
    using assms by (intro that [OF eq]) (auto simp: descriptors_set_fd)
qed

lemma raw_fd_install_occupied:
  "files_ok files \<Longrightarrow> descriptors (fdt files) fd = Some (Some g, c) \<Longrightarrow> raw_fd_install E files fd f = None"
  using descriptors_SomeD [of "fdt files" fd] files_ok_idle [of files]
  by (simp add: raw_fd_install_def fd_install_wait.simps [of E files])

lemma raw_close_fd_bad:
  "files_ok files \<Longrightarrow> raw_fcheck_files files fd = None \<Longrightarrow>
     raw_close_fd E files h fd = (- EBADF, spin_unlock files, h)"
  by (auto simp: raw_close_fd_def raw_fcheck_files_def Let_def split: if_splits)

lemma raw_close_fd_descriptors:
  assumes ok: "files_ok files" and m: "descriptors (fdt files) fd = Some (Some f, c)"
  obtains files' where "raw_close_fd E files h fd = (fst (filp_close E f h), files', snd (filp_close E f h))"
    "descriptors (fdt files') = (descriptors (fdt files))(fd := None)"
    "files_ok files'" "\<not> file_lock files'" "files_count files' = files_count files"
proof -
  let ?f = "spin_lock files"
  let ?t = "raw_clear_close_on_exec fd ((fdt files)\<lparr>fdt_fd := (fdt_fd (fdt files))[fd := None]\<rparr>)"
  let ?g = "spin_unlock (raw_put_unused_fd (?f\<lparr>fdt := ?t\<rparr>) fd)"
  note d = descriptors_SomeD [OF m] and sh = fdt_ok_shape [OF files_ok_fdt [OF ok]]
  have eq: "raw_close_fd E files h fd = (fst (filp_close E f h), ?g, snd (filp_close E f h))"
    using d by (simp add: raw_close_fd_def Let_def split_beta)
  have "files_ok (?f\<lparr>fdt := ?t\<rparr>)"
    using ok by (intro files_ok_set_fdt) (auto simp: fdt_simps intro!: fdt_ok_uninstall fdt_ok_cloexec)
  then have "files_ok ?g"
    using d fdt_shapeD(4) [OF sh] by (auto simp: fdt_simps intro!: files_ok_raw_put_unused_fd)
  moreover have "descriptors (fdt ?g) = (descriptors (fdt files))(fd := None)"
    using d m sh by (simp add: fdt_simps descriptors_clear_open descriptors_clear_cloexec descriptors_set_fd)
  ultimately show thesis by (intro that [OF eq]) (auto simp: fdt_simps)
qed

end
