(* ===== verification/File_Ops.thy ===== *)
theory File_Ops
  imports Fd_Alloc
begin

text \<open>
  The rest of \<open>fs/file.c\<close>: taking references to files by descriptor (\<open>fget\<close> and its variants),
  the close-on-exec flag, the \<open>dup\<close> family including the remote variant \<open>do_dup2_to_remote\<close>,
  closing whole tables (\<open>close_files\<close>, \<open>do_close_on_exec\<close>), copying a table for a new process
  (\<open>dup_fd\<close>) and the references to \<open>files_struct\<close> itself.  Functions that the source applies to
  \<open>current->files\<close> take that structure as an argument.
\<close>


section \<open>References to a file by descriptor\<close>

definition get_file :: "file_ptr \<Rightarrow> fheap \<Rightarrow> fheap" where
  "get_file f h = h(f := (h f)\<lparr>f_count := f_count (h f) + 1\<rparr>)"

text \<open>
  A lookup that cannot take its reference, because the count of the file it found has already
  dropped to zero, starts over.
\<close>

partial_function (option) raw_fget_files ::
    "files_struct \<Rightarrow> fheap \<Rightarrow> nat \<Rightarrow> 32 word \<Rightarrow> (file_ptr option \<times> fheap) option" where
  "raw_fget_files files h fd msk =
     (case fcheck_files files fd of
        None \<Rightarrow> Some (None, h)
      | Some f \<Rightarrow>
          if f_mode (h f) AND msk \<noteq> 0 then Some (None, h)
          else if f_count (h f) = 0 then raw_fget_files files h fd msk
          else Some (Some f, get_file f h))"

declare raw_fget_files.simps [code]

definition raw_fget :: "files_struct \<Rightarrow> fheap \<Rightarrow> nat \<Rightarrow> 32 word \<Rightarrow> (file_ptr option \<times> fheap) option" where
  "raw_fget cur h fd msk = raw_fget_files cur h fd msk"

definition fget_files :: "files_struct \<Rightarrow> fheap \<Rightarrow> nat \<Rightarrow> (file_ptr option \<times> fheap) option" where
  "fget_files files h fd = raw_fget_files files h fd FMODE_PATH"

definition fget :: "files_struct \<Rightarrow> fheap \<Rightarrow> nat \<Rightarrow> (file_ptr option \<times> fheap) option" where
  "fget cur h fd = raw_fget cur h fd FMODE_PATH"

definition fget_raw :: "files_struct \<Rightarrow> fheap \<Rightarrow> nat \<Rightarrow> (file_ptr option \<times> fheap) option" where
  "fget_raw cur h fd = raw_fget cur h fd 0"

text \<open>
  The light-weight lookups return a pointer whose two low bits are the flags \<open>FDPUT_FPUT\<close> and
  \<open>FDPUT_POS_UNLOCK\<close>; here the pointer and the two bits are the components of a record.
\<close>

record fd_word =
  fd_file :: "file_ptr option"
  FDPUT_FPUT :: bool
  FDPUT_POS_UNLOCK :: bool

abbreviation (input) fd_null :: fd_word where
  "fd_null \<equiv> \<lparr>fd_file = None, FDPUT_FPUT = False, FDPUT_POS_UNLOCK = False\<rparr>"

definition raw_fget_light :: "files_struct \<Rightarrow> fheap \<Rightarrow> nat \<Rightarrow> 32 word \<Rightarrow> (fd_word \<times> fheap) option" where
  "raw_fget_light files h fd msk =
     (if files_count files = 1 then
        case raw_fcheck_files files fd of
          None \<Rightarrow> Some (fd_null, h)
        | Some f \<Rightarrow>
            if f_mode (h f) AND msk \<noteq> 0 then Some (fd_null, h)
            else Some (\<lparr>fd_file = Some f, FDPUT_FPUT = False, FDPUT_POS_UNLOCK = False\<rparr>, h)
      else do {
        (f, h) \<leftarrow> raw_fget files h fd msk;
        case f of
          None \<Rightarrow> Some (fd_null, h)
        | Some f \<Rightarrow> Some (\<lparr>fd_file = Some f, FDPUT_FPUT = True, FDPUT_POS_UNLOCK = False\<rparr>, h)
      })"

definition raw_fdget :: "files_struct \<Rightarrow> fheap \<Rightarrow> nat \<Rightarrow> (fd_word \<times> fheap) option" where
  "raw_fdget files h fd = raw_fget_light files h fd FMODE_PATH"

definition raw_fdget_raw :: "files_struct \<Rightarrow> fheap \<Rightarrow> nat \<Rightarrow> (fd_word \<times> fheap) option" where
  "raw_fdget_raw files h fd = raw_fget_light files h fd 0"

text \<open>Taking a mutex that nobody will release does not come back.\<close>

definition mutex_lock_pos :: "file_ptr \<Rightarrow> fheap \<Rightarrow> fheap option" where
  "mutex_lock_pos f h =
     (if f_pos_lock (h f) then None else Some (h(f := (h f)\<lparr>f_pos_lock := True\<rparr>)))"

definition raw_fdget_pos :: "files_struct \<Rightarrow> fheap \<Rightarrow> nat \<Rightarrow> (fd_word \<times> fheap) option" where
  "raw_fdget_pos files h fd =
     do { (v, h) \<leftarrow> raw_fdget files h fd;
          case fd_file v of
            None \<Rightarrow> Some (v, h)
          | Some f \<Rightarrow>
              if f_mode (h f) AND FMODE_ATOMIC_POS \<noteq> 0 \<and> f_count (h f) > 1
              then do { h \<leftarrow> mutex_lock_pos f h; Some (v\<lparr>FDPUT_POS_UNLOCK := True\<rparr>, h) }
              else Some (v, h) }"

definition raw_f_unlock_pos :: "file_ptr \<Rightarrow> fheap \<Rightarrow> fheap" where
  "raw_f_unlock_pos f h = h(f := (h f)\<lparr>f_pos_lock := False\<rparr>)"

definition set_close_on_exec :: "files_struct \<Rightarrow> nat \<Rightarrow> bool \<Rightarrow> files_struct" where
  "set_close_on_exec files fd flag =
     (let files = spin_lock files;
          t = (if flag then raw_set_close_on_exec fd (fdt files) else raw_clear_close_on_exec fd (fdt files))
      in spin_unlock (files\<lparr>fdt := t\<rparr>))"

definition get_close_on_exec :: "files_struct \<Rightarrow> nat \<Rightarrow> bool" where
  "get_close_on_exec files fd = close_on_exec fd (fdt files)"

section \<open>Duplicating descriptors\<close>

definition do_dup2 ::
    "fs_env \<Rightarrow> files_struct \<Rightarrow> fheap \<Rightarrow> file_ptr \<Rightarrow> nat \<Rightarrow> 32 word \<Rightarrow> int \<times> files_struct \<times> fheap" where
  "do_dup2 E files h f fd flags =
     (let t = fdt files; tofree = fdt_fd t ! fd
      in if tofree = None \<and> fd_is_open fd t then (- EBUSY, spin_unlock files, h)
         else
           let h = get_file f h;
               t = t\<lparr>fdt_fd := (fdt_fd t)[fd := Some f]\<rparr>;
               t = raw_set_open_fd fd t;
               t = (if flags AND O_CLOEXEC \<noteq> 0 then raw_set_close_on_exec fd t
                    else raw_clear_close_on_exec fd t);
               files = spin_unlock (files\<lparr>fdt := t\<rparr>);
               h = (case tofree of Some g \<Rightarrow> snd (filp_close E g h) | None \<Rightarrow> h)
           in (s32 fd, files, h))"

definition replace_fd ::
    "fs_env \<Rightarrow> nat \<Rightarrow> files_struct \<Rightarrow> fheap \<Rightarrow> nat \<Rightarrow> file_ptr option \<Rightarrow> 32 word \<Rightarrow>
     (int \<times> files_struct \<times> fheap) option" where
  "replace_fd E rlim files h fd f flags =
     (case f of
        None \<Rightarrow> Some (raw_close_fd E files h fd)
      | Some f \<Rightarrow>
          if fd \<ge> rlim then Some (- EBADF, files, h)
          else do {
            (err, files) \<leftarrow> expand_files E (spin_lock files) fd;
            if err < 0 then Some (err, spin_unlock files, h)
            else Some (do_dup2 E files h f fd flags)
          })"

definition sys_dup3 ::
    "fs_env \<Rightarrow> nat \<Rightarrow> files_struct \<Rightarrow> fheap \<Rightarrow> nat \<Rightarrow> nat \<Rightarrow> 32 word \<Rightarrow> (int \<times> files_struct \<times> fheap) option" where
  "sys_dup3 E rlim files h oldfd newfd flags =
     (if flags AND NOT O_CLOEXEC \<noteq> 0 then Some (- EINVAL, files, h)
      else if oldfd = newfd then Some (- EINVAL, files, h)
      else if newfd \<ge> rlim then Some (- EBADF, files, h)
      else do {
        (err, files) \<leftarrow> expand_files E (spin_lock files) newfd;
        case fcheck_files files oldfd of
          None \<Rightarrow> Some (- EBADF, spin_unlock files, h)
        | Some f \<Rightarrow>
            if err < 0 then
              if err = - EMFILE then Some (- EBADF, spin_unlock files, h)
              else Some (err, spin_unlock files, h)
            else Some (do_dup2 E files h f newfd flags)
      })"

definition sys_dup2 ::
    "fs_env \<Rightarrow> nat \<Rightarrow> files_struct \<Rightarrow> fheap \<Rightarrow> nat \<Rightarrow> nat \<Rightarrow> (int \<times> files_struct \<times> fheap) option" where
  "sys_dup2 E rlim files h oldfd newfd =
     (if newfd = oldfd then
        Some (if fcheck_files files oldfd = None then - EBADF else s32 oldfd, files, h)
      else sys_dup3 E rlim files h oldfd newfd 0)"

definition sys_dup ::
    "fs_env \<Rightarrow> nat \<Rightarrow> files_struct \<Rightarrow> fheap \<Rightarrow> nat \<Rightarrow> (int \<times> files_struct \<times> fheap) option" where
  "sys_dup E rlim files h fildes =
     do { (f, h) \<leftarrow> fget_raw files h fildes;
          case f of
            None \<Rightarrow> Some (- EBADF, files, h)
          | Some f \<Rightarrow> do {
              (ret, files) \<leftarrow> get_unused_fd_flags E rlim files 0;
              if ret \<ge> 0 then do {
                files \<leftarrow> fd_install E files (nat ret) f;
                Some (ret, files, h)
              }
              else Some (ret, files, fput E f h)
            } }"

definition f_dupfd ::
    "fs_env \<Rightarrow> nat \<Rightarrow> files_struct \<Rightarrow> fheap \<Rightarrow> nat \<Rightarrow> file_ptr \<Rightarrow> 32 word \<Rightarrow> (int \<times> files_struct \<times> fheap) option" where
  "f_dupfd E rlim files h from f flags =
     (if from \<ge> rlim then Some (- EINVAL, files, h)
      else do {
        (err, files) \<leftarrow> alloc_fd E rlim files from flags;
        if err \<ge> 0 then do {
          files \<leftarrow> fd_install E files (nat err) f;
          Some (err, files, get_file f h)
        }
        else Some (err, files, h)
      })"

text \<open>
  The remote variant works on two tables, which are one and the same when the tracee was cloned
  with \<open>CLONE_FILES\<close>; the store \<open>fs\<close> maps a \<open>files_struct\<close> pointer to the structure.  The limit
  \<open>rlim\<close> is that of the calling task.
\<close>

type_synonym files_ptr = nat
type_synonym files_heap = "files_ptr \<rightharpoonup> files_struct"

definition do_dup2_to_remote ::
    "fs_env \<Rightarrow> nat \<Rightarrow> files_ptr \<Rightarrow> files_ptr \<Rightarrow> files_heap \<Rightarrow> fheap \<Rightarrow> nat \<Rightarrow> nat \<Rightarrow> 32 word \<Rightarrow>
     (int \<times> files_heap \<times> fheap) option" where
  "do_dup2_to_remote E rlim cur child fs h local_fd remote_fd flags =
     (if flags AND NOT O_CLOEXEC \<noteq> 0 then Some (- EINVAL, fs, h)
      else if remote_fd \<ge> rlim then Some (- EBADF, fs, h)
      else do {
        files \<leftarrow> fs child;
        (err, files) \<leftarrow> expand_files E (spin_lock files) remote_fd;
        cur_files \<leftarrow> (fs(child \<mapsto> files)) cur;
        case fcheck_files cur_files local_fd of
          None \<Rightarrow> Some (- EBADF, fs(child \<mapsto> spin_unlock files), h)
        | Some f \<Rightarrow>
            if err < 0 then
              if err = - EMFILE then Some (- EBADF, fs(child \<mapsto> spin_unlock files), h)
              else Some (err, fs(child \<mapsto> spin_unlock files), h)
            else
              let (r, files, h) = do_dup2 E files h f remote_fd flags
              in Some (r, fs(child \<mapsto> files), h)
      })"

section \<open>Iterating over a table\<close>

text \<open>The callback \<open>f\<close> sees the file and the descriptor; a non-zero result stops the iteration.\<close>

function iterate_fd_from :: "fdtable \<Rightarrow> nat \<Rightarrow> (file_ptr \<Rightarrow> nat \<Rightarrow> int) \<Rightarrow> int" where
  "iterate_fd_from t n f =
     (if n < max_fds t then
        case fdt_fd t ! n of
          None \<Rightarrow> iterate_fd_from t (Suc n) f
        | Some file \<Rightarrow>
            let res = f file n in if res \<noteq> 0 then res else iterate_fd_from t (Suc n) f
      else 0)"
  by pat_completeness auto
termination by (relation "measure (\<lambda>(t, n, f). max_fds t - n)") auto

declare iterate_fd_from.simps [simp del]

definition iterate_fd :: "files_struct option \<Rightarrow> nat \<Rightarrow> (file_ptr \<Rightarrow> nat \<Rightarrow> int) \<Rightarrow> int" where
  "iterate_fd files n f =
     (case files of None \<Rightarrow> 0 | Some files \<Rightarrow> iterate_fd_from (fdt files) n f)"


section \<open>Closing whole tables\<close>

text \<open>
  The inner loops of \<open>close_files\<close> and \<open>do_close_on_exec\<close> walk over the bits of one word, lowest
  first, until no bit is left.
\<close>

lemma unat_drop_bit_less: "w \<noteq> 0 \<Longrightarrow> unat (drop_bit (Suc 0) w) < unat w" for w :: "64 word"
  by (simp add: drop_bit_Suc unat_div unat_gt_0 div_less_dividend)

definition close_files_slot :: "fs_env \<Rightarrow> nat \<Rightarrow> fdtable \<Rightarrow> fheap \<Rightarrow> fdtable \<times> fheap" where
  "close_files_slot E i t h =
     (let f = fdt_fd t ! i; t = t\<lparr>fdt_fd := (fdt_fd t)[i := None]\<rparr>
      in case f of None \<Rightarrow> (t, h) | Some f \<Rightarrow> (t, snd (filp_close E f h)))"

function close_files_word :: "fs_env \<Rightarrow> 64 word \<Rightarrow> nat \<Rightarrow> fdtable \<Rightarrow> fheap \<Rightarrow> fdtable \<times> fheap" where
  "close_files_word E w i t h =
     (if w = 0 then (t, h)
      else let (t, h) = (if w AND 1 \<noteq> 0 then close_files_slot E i t h else (t, h))
           in close_files_word E (drop_bit 1 w) (Suc i) t h)"
  by pat_completeness auto
termination by (relation "measure (\<lambda>(E, w, i, t, h). unat w)") (auto simp: unat_drop_bit_less)

declare close_files_word.simps [simp del]

lemma close_files_slot_fields [fdt_simps]:
  "max_fds (fst (close_files_slot E i t h)) = max_fds t"
  "fdt_open_fds (fst (close_files_slot E i t h)) = fdt_open_fds t"
  by (simp_all add: close_files_slot_def Let_def split: option.splits)

lemma close_files_word_fields [fdt_simps]:
  "max_fds (fst (close_files_word E w i t h)) = max_fds t \<and>
   fdt_open_fds (fst (close_files_word E w i t h)) = fdt_open_fds t"
proof (induction E w i t h rule: close_files_word.induct)
  case (1 E w i t h)
  let ?p = "if w AND 1 \<noteq> 0 then close_files_slot E i t h else (t, h)"
  show ?case
    using 1 [of ?p "fst ?p" "snd ?p"]
    by (auto simp: close_files_word.simps [of E w] split_beta Let_def fdt_simps split: if_splits)
qed

function close_files_from :: "fs_env \<Rightarrow> nat \<Rightarrow> fdtable \<Rightarrow> fheap \<Rightarrow> fdtable \<times> fheap" where
  "close_files_from E j t h =
     (let i = j * BITS_PER_LONG
      in if i \<ge> max_fds t then (t, h)
         else let (t, h) = close_files_word E (fdt_open_fds t ! j) i t h
              in close_files_from E (Suc j) t h)"
  by pat_completeness auto
termination
proof (relation "measure (\<lambda>(E, j, t, h). max_fds t - j * BITS_PER_LONG)")
  fix E j t h i p t' h'
  assume "i = j * BITS_PER_LONG" "\<not> max_fds t \<le> i" "p = close_files_word E (fdt_open_fds t ! j) i t h" "(t', h') = p"
  then have "max_fds t' = max_fds t" "j * BITS_PER_LONG < max_fds t"
    using close_files_word_fields [of E "fdt_open_fds t ! j" i t h] by (metis fst_conv, simp)
  then show "((E, Suc j, t', h'), E, j, t, h) \<in> measure (\<lambda>(E, j, t, h). max_fds t - j * BITS_PER_LONG)"
    by simp
qed simp

declare close_files_from.simps [simp del]

definition close_files :: "fs_env \<Rightarrow> files_struct \<Rightarrow> fheap \<Rightarrow> fdtable \<times> fheap" where
  "close_files E files h = close_files_from E 0 (fdt files) h"

definition close_on_exec_slot :: "fs_env \<Rightarrow> nat \<Rightarrow> files_struct \<Rightarrow> fheap \<Rightarrow> files_struct \<times> fheap" where
  "close_on_exec_slot E fd files h =
     (case fdt_fd (fdt files) ! fd of
        None \<Rightarrow> (files, h)
      | Some f \<Rightarrow>
          let files = files\<lparr>fdt := (fdt files)\<lparr>fdt_fd := (fdt_fd (fdt files))[fd := None]\<rparr>\<rparr>;
              files = spin_unlock (raw_put_unused_fd files fd);
              h = snd (filp_close E f h)
          in (spin_lock files, h))"

function close_on_exec_word :: "fs_env \<Rightarrow> 64 word \<Rightarrow> nat \<Rightarrow> files_struct \<Rightarrow> fheap \<Rightarrow> files_struct \<times> fheap" where
  "close_on_exec_word E w fd files h =
     (if w = 0 then (files, h)
      else let (files, h) = (if w AND 1 \<noteq> 0 then close_on_exec_slot E fd files h else (files, h))
           in close_on_exec_word E (drop_bit 1 w) (Suc fd) files h)"
  by pat_completeness auto
termination by (relation "measure (\<lambda>(E, w, fd, files, h). unat w)") (auto simp: unat_drop_bit_less)

declare close_on_exec_word.simps [simp del]

lemma close_on_exec_slot_fields [fdt_simps]:
  "max_fds (fdt (fst (close_on_exec_slot E fd files h))) = max_fds (fdt files)"
  "fdt_close_on_exec (fdt (fst (close_on_exec_slot E fd files h))) = fdt_close_on_exec (fdt files)"
  by (simp_all add: close_on_exec_slot_def Let_def fdt_simps split: option.splits)

lemma close_on_exec_word_fields [fdt_simps]:
  "max_fds (fdt (fst (close_on_exec_word E w fd files h))) = max_fds (fdt files) \<and>
   fdt_close_on_exec (fdt (fst (close_on_exec_word E w fd files h))) = fdt_close_on_exec (fdt files)"
proof (induction E w fd files h rule: close_on_exec_word.induct)
  case (1 E w fd files h)
  let ?p = "if w AND 1 \<noteq> 0 then close_on_exec_slot E fd files h else (files, h)"
  show ?case
    using 1 [of ?p "fst ?p" "snd ?p"]
    by (auto simp: close_on_exec_word.simps [of E w] split_beta Let_def fdt_simps split: if_splits)
qed

function do_close_on_exec_from :: "fs_env \<Rightarrow> nat \<Rightarrow> files_struct \<Rightarrow> fheap \<Rightarrow> files_struct \<times> fheap" where
  "do_close_on_exec_from E i files h =
     (let fd = i * BITS_PER_LONG
      in if fd \<ge> max_fds (fdt files) then (files, h)
         else
           let w = fdt_close_on_exec (fdt files) ! i;
               files = files\<lparr>fdt := (fdt files)\<lparr>fdt_close_on_exec := (fdt_close_on_exec (fdt files))[i := 0]\<rparr>\<rparr>;
               (files, h) = close_on_exec_word E w fd files h
           in do_close_on_exec_from E (Suc i) files h)"
  by pat_completeness auto
termination
proof (relation "measure (\<lambda>(E, i, files, h). max_fds (fdt files) - i * BITS_PER_LONG)")
  fix E i files h fd w files1 p files' h'
  assume "fd = i * BITS_PER_LONG" "\<not> max_fds (fdt files) \<le> fd" "w = fdt_close_on_exec (fdt files) ! i"
    "files1 = files\<lparr>fdt := (fdt files)\<lparr>fdt_close_on_exec := (fdt_close_on_exec (fdt files))[i := 0]\<rparr>\<rparr>"
    "p = close_on_exec_word E w fd files1 h" "(files', h') = p"
  then have "max_fds (fdt files') = max_fds (fdt files1)" "max_fds (fdt files1) = max_fds (fdt files)"
    "i * BITS_PER_LONG < max_fds (fdt files)"
    using close_on_exec_word_fields [of E w fd files1 h] by (metis fst_conv, simp_all)
  then show "((E, Suc i, files', h'), E, i, files, h)
      \<in> measure (\<lambda>(E, i, files, h). max_fds (fdt files) - i * BITS_PER_LONG)"
    by simp
qed simp

declare do_close_on_exec_from.simps [simp del]

definition do_close_on_exec :: "fs_env \<Rightarrow> files_struct \<Rightarrow> fheap \<Rightarrow> files_struct \<times> fheap" where
  "do_close_on_exec E files h =
     (let (files, h) = do_close_on_exec_from E 0 (spin_lock files) h in (spin_unlock files, h))"

section \<open>Copying a table for a new process\<close>

text \<open>
  \<open>dup_fd_table\<close> is the loop that looks for a table large enough; its flag says whether the table
  is still the one embedded in the new structure.  \<open>dup_fd_slot\<close> is one round of the copying loop.
\<close>

partial_function (option) dup_fd_table ::
    "fs_env \<Rightarrow> fdtable \<Rightarrow> bool \<Rightarrow> files_struct \<Rightarrow> ((int + fdtable \<times> bool) \<times> files_struct) option" where
  "dup_fd_table E new_fdt emb oldf =
     (let open_files = count_open_files (fdt oldf)
      in if open_files > max_fds new_fdt then
           let oldf = spin_unlock oldf
           in case alloc_fdtable E (open_files - 1) of
                None \<Rightarrow> Some (Inl (- ENOMEM), oldf)
              | Some new_fdt \<Rightarrow>
                  if max_fds new_fdt < open_files then Some (Inl (- EMFILE), oldf)
                  else dup_fd_table E new_fdt False (spin_lock oldf)
         else Some (Inr (new_fdt, emb), oldf))"

declare dup_fd_table.simps [code]

definition dup_fd_slot :: "fdtable \<Rightarrow> nat \<Rightarrow> fdtable \<times> fheap \<Rightarrow> fdtable \<times> fheap" where
  "dup_fd_slot old_fdt i = (\<lambda>(new_fdt, h).
     let f = fdt_fd old_fdt ! i;
         (new_fdt, h) = (case f of Some g \<Rightarrow> (new_fdt, get_file g h) | None \<Rightarrow> (raw_clear_open_fd i new_fdt, h))
     in (new_fdt\<lparr>fdt_fd := (fdt_fd new_fdt)[i := f]\<rparr>, h))"

definition dup_fd :: "fs_env \<Rightarrow> files_struct \<Rightarrow> fheap \<Rightarrow> ((int + files_struct) \<times> files_struct \<times> fheap) option" where
  "dup_fd E oldf h =
     (if \<not> kmalloc_ok E Files_obj then Some (Inl (- ENOMEM), oldf, h)
      else
        let fdtab = \<lparr>max_fds = NR_OPEN_DEFAULT, fdt_fd = map (uninit_fd E) [0..<NR_OPEN_DEFAULT],
                     fdt_close_on_exec = [uninit_word E 0], fdt_open_fds = [uninit_word E 1],
                     fdt_full_fds_bits = [uninit_word E 2]\<rparr>
        in do {
          (r, oldf) \<leftarrow> dup_fd_table E fdtab True (spin_lock oldf);
          case r of
            Inl err \<Rightarrow> Some (Inl err, oldf, h)
          | Inr (new_fdt, emb) \<Rightarrow>
              let open_files = count_open_files (fdt oldf);
                  new_fdt = copy_fd_bitmaps new_fdt (fdt oldf) open_files;
                  (new_fdt, h) = fold (dup_fd_slot (fdt oldf)) [0..<open_files] (new_fdt, h);
                  oldf = spin_unlock oldf;
                  new_fdt = new_fdt\<lparr>fdt_fd := take open_files (fdt_fd new_fdt) @
                                       replicate (max_fds new_fdt - open_files) None\<rparr>
              in Some (Inr \<lparr>files_count = 1, resize_in_progress = False, fdt = new_fdt,
                            fdt_embedded = emb, file_lock = False, next_fd = 0\<rparr>, oldf, h)
        })"

section \<open>References to a table\<close>

definition get_files_struct :: "files_ptr option \<Rightarrow> files_heap \<Rightarrow> files_ptr option \<times> files_heap" where
  "get_files_struct task_files fs =
     (case task_files of
        None \<Rightarrow> (None, fs)
      | Some p \<Rightarrow> (Some p, fs(p := map_option (\<lambda>f. f\<lparr>files_count := files_count f + 1\<rparr>) (fs p))))"

text \<open>Dropping the last reference closes the files and frees the structure.\<close>

definition put_files_struct :: "fs_env \<Rightarrow> files_ptr \<Rightarrow> files_heap \<Rightarrow> fheap \<Rightarrow> (files_heap \<times> fheap) option" where
  "put_files_struct E p fs h =
     do { files \<leftarrow> fs p;
          let files = files\<lparr>files_count := files_count files - 1\<rparr>
          in if files_count files = 0
             then let (_, h) = close_files E files h in Some (fs(p := None), h)
             else Some (fs(p \<mapsto> files), h) }"

text \<open>Both return the new value of \<open>tsk->files\<close> first.\<close>

definition reset_files_struct ::
    "fs_env \<Rightarrow> files_ptr \<Rightarrow> files_ptr \<Rightarrow> files_heap \<Rightarrow> fheap \<Rightarrow> (files_ptr \<times> files_heap \<times> fheap) option" where
  "reset_files_struct E tsk_files files fs h =
     do { (fs, h) \<leftarrow> put_files_struct E tsk_files fs h; Some (files, fs, h) }"

definition exit_files ::
    "fs_env \<Rightarrow> files_ptr option \<Rightarrow> files_heap \<Rightarrow> fheap \<Rightarrow> (files_ptr option \<times> files_heap \<times> fheap) option" where
  "exit_files E tsk_files fs h =
     (case tsk_files of
        None \<Rightarrow> Some (None, fs, h)
      | Some p \<Rightarrow> do { (fs, h) \<leftarrow> put_files_struct E p fs h; Some (None, fs, h) })"


section \<open>Counting references\<close>

text \<open>
  What the VFS promises: \<open>fput\<close> drops one reference, and so does \<open>filp_close\<close> of a file that is
  still referenced; neither touches the counts of other files or the mode of any file.
\<close>

definition vfs_ok :: "fs_env \<Rightarrow> bool" where
  "vfs_ok E \<longleftrightarrow>
     (\<forall>f h g. f_count (fput E f h g) = f_count (h g) - (if g = f then 1 else 0) \<and>
        f_mode (fput E f h g) = f_mode (h g)) \<and>
     (\<forall>f h g. 0 < f_count (h f) \<longrightarrow>
        f_count (snd (filp_close E f h) g) = f_count (h g) - (if g = f then 1 else 0) \<and>
        f_mode (snd (filp_close E f h) g) = f_mode (h g))"

lemma vfs_okD:
  assumes "vfs_ok E"
  shows "f_count (fput E f h g) = f_count (h g) - (if g = f then 1 else 0)"
    "f_mode (fput E f h g) = f_mode (h g)"
    "0 < f_count (h f) \<Longrightarrow> f_count (snd (filp_close E f h) g) = f_count (h g) - (if g = f then 1 else 0)"
    "0 < f_count (h f) \<Longrightarrow> f_mode (snd (filp_close E f h) g) = f_mode (h g)"
  using assms by (auto simp: vfs_ok_def)

text \<open>
  The number of descriptors of a table that refer to a file, and the references to the file that
  are held by anything else.
\<close>

definition fd_refs :: "fdtable \<Rightarrow> file_ptr \<Rightarrow> nat" where
  "fd_refs t f = length (filter (\<lambda>x. x = Some f) (fdt_fd t))"

definition other_refs :: "files_struct \<Rightarrow> fheap \<Rightarrow> file_ptr \<Rightarrow> int" where
  "other_refs files h f = f_count (h f) - int (fd_refs (fdt files) f)"

definition refs_ok :: "files_struct \<Rightarrow> fheap \<Rightarrow> bool" where
  "refs_ok files h \<longleftrightarrow> (\<forall>f. 0 \<le> other_refs files h f)"

definition map_refs :: "descriptor_map \<Rightarrow> file_ptr \<Rightarrow> nat" where
  "map_refs m f = card {fd. \<exists>c. m fd = Some (Some f, c)}"

lemma finite_dom_descriptors [simp]: "finite (dom (descriptors t))"
  by (rule finite_subset [of _ "{..< max_fds t}"]) (auto simp: descriptors_def split: if_splits)

lemma fd_refs_descriptors: "fdt_ok t \<Longrightarrow> fd_refs t f = map_refs (descriptors t) f"
proof -
  assume ok: "fdt_ok t"
  have "{fd. fd < length (fdt_fd t) \<and> fdt_fd t ! fd = Some f} = {fd. \<exists>c. descriptors t fd = Some (Some f, c)}"
    using fdt_shapeD(4) [OF fdt_ok_shape [OF ok]] fdt_ok_installed [OF ok]
    by (auto simp: descriptors_def)
  then show ?thesis by (simp add: fd_refs_def map_refs_def length_filter_conv_card)
qed

lemma map_refs_upd:
  assumes "finite (dom m)"
  shows "int (map_refs (m(fd := v)) f) =
    int (map_refs m f) - of_bool (\<exists>c. m fd = Some (Some f, c)) + of_bool (\<exists>c. v = Some (Some f, c))"
proof -
  let ?S = "{k. \<exists>c. m k = Some (Some f, c)}"
  have fin: "finite ?S" by (rule finite_subset [OF _ assms]) auto
  have "{k. \<exists>c. (m(fd := v)) k = Some (Some f, c)} =
      (if \<exists>c. v = Some (Some f, c) then insert fd (?S - {fd}) else ?S - {fd})"
    by auto
  then show ?thesis
    using fin card_Suc_Diff1 [OF fin, of fd] by (auto simp: map_refs_def card_insert_if)
qed

lemma map_refs_pos: "finite (dom m) \<Longrightarrow> m fd = Some (Some f, c) \<Longrightarrow> 0 < map_refs m f"
  unfolding map_refs_def
  by (subst card_gt_0_iff) (auto intro: finite_subset [of _ "dom m"])

lemma other_refs_descriptors:
  "files_ok files \<Longrightarrow> other_refs files h f = f_count (h f) - int (map_refs (descriptors (fdt files)) f)"
  by (simp add: other_refs_def fd_refs_descriptors)

lemma refs_ok_count:
  assumes "files_ok files" "refs_ok files h" "descriptors (fdt files) fd = Some (Some f, c)"
  shows "0 < f_count (h f)"
proof -
  have "0 \<le> other_refs files h f" using assms(2) by (simp add: refs_ok_def)
  with assms(1) map_refs_pos [OF finite_dom_descriptors assms(3)] show ?thesis by (simp add: other_refs_descriptors)
qed

lemma f_count_get_file [simp]: "f_count (get_file f h g) = f_count (h g) + (if g = f then 1 else 0)"
  by (simp add: get_file_def)

lemma f_mode_get_file [simp]: "f_mode (get_file f h g) = f_mode (h g)"
  by (simp add: get_file_def)

section \<open>Lookups\<close>

text \<open>
  In a table whose references are counted, a lookup comes back: with the file and one more
  reference to it, unless its mode is masked.
\<close>

lemma raw_fget_files_result:
  assumes ok: "files_ok files" and refs: "refs_ok files h"
  shows "raw_fget_files files h fd msk =
    (case raw_fcheck_files files fd of
       None \<Rightarrow> Some (None, h)
     | Some f \<Rightarrow> if f_mode (h f) AND msk \<noteq> 0 then Some (None, h) else Some (Some f, get_file f h))"
proof (cases "raw_fcheck_files files fd")
  case None
  then show ?thesis by (simp add: raw_fget_files.simps [of files] fcheck_files_def)
next
  case (Some f)
  then obtain c where "descriptors (fdt files) fd = Some (Some f, c)"
    using ok by (auto simp: raw_fcheck_files_descriptors bind_eq_Some_conv)
  then have "f_count (h f) \<noteq> 0" using refs_ok_count [OF ok refs] by force
  with Some show ?thesis by (simp add: raw_fget_files.simps [of files] fcheck_files_def)
qed

section \<open>An interface to descriptor tables\<close>

text \<open>
  What the callers of \<open>__alloc_fd\<close> and \<open>__fd_install\<close> rely on: a descriptor they got is the
  lowest free one, it is theirs until they install a file, and the table is otherwise unchanged.
\<close>

locale fd_table =
  fixes inv :: "'e \<Rightarrow> 's \<Rightarrow> bool"
    and view :: "'s \<Rightarrow> descriptor_map"
    and alloc :: "'e \<Rightarrow> 's \<Rightarrow> nat \<Rightarrow> nat \<Rightarrow> 32 word \<Rightarrow> (int \<times> 's) option"
    and install :: "'e \<Rightarrow> 's \<Rightarrow> nat \<Rightarrow> file_ptr \<Rightarrow> 's option"
  assumes alloc_result: "inv e s \<Longrightarrow> \<exists>r s'. alloc e s start fend flags = Some (r, s') \<and> inv e s' \<and>
      (r \<in> {- EMFILE, - ENOMEM} \<and> view s' = view s \<or>
       (\<exists>fd. r = int fd \<and> fd < fend \<and> lowest_free (view s) start fd \<and>
          view s' = (view s)(fd \<mapsto> (None, flags AND O_CLOEXEC \<noteq> 0))))"
    and install_result: "inv e s \<Longrightarrow> view s fd = Some (None, c) \<Longrightarrow>
      \<exists>s'. install e s fd f = Some s' \<and> inv e s' \<and> view s' = (view s)(fd \<mapsto> (Some f, c))"
begin

lemma alloc_install_cases:
  assumes "inv e s"
  obtains (fail) r s' where "alloc e s start fend flags = Some (r, s')" "r \<in> {- EMFILE, - ENOMEM}" "r < 0"
      "inv e s'" "view s' = view s"
  | (success) fd s' s'' where "alloc e s start fend flags = Some (int fd, s')" "fd < fend"
      "lowest_free (view s) start fd" "install e s' fd f = Some s''" "inv e s''"
      "view s'' = (view s)(fd \<mapsto> (Some f, flags AND O_CLOEXEC \<noteq> 0))"
proof -
  from alloc_result [OF assms, of start fend flags]
  obtain r s' where r: "alloc e s start fend flags = Some (r, s')" "inv e s'"
    "r \<in> {- EMFILE, - ENOMEM} \<and> view s' = view s \<or>
       (\<exists>fd. r = int fd \<and> fd < fend \<and> lowest_free (view s) start fd \<and>
          view s' = (view s)(fd \<mapsto> (None, flags AND O_CLOEXEC \<noteq> 0)))"
    by blast
  from r(3) show thesis
  proof (elim disjE exE conjE)
    assume "r \<in> {- EMFILE, - ENOMEM}" "view s' = view s"
    with r show thesis by (intro fail [of r s']) auto
  next
    fix fd
    assume fd: "r = int fd" "fd < fend" "lowest_free (view s) start fd"
      "view s' = (view s)(fd \<mapsto> (None, flags AND O_CLOEXEC \<noteq> 0))"
    then obtain s'' where "install e s' fd f = Some s''" "inv e s''"
      "view s'' = (view s')(fd \<mapsto> (Some f, flags AND O_CLOEXEC \<noteq> 0))"
      using install_result [OF r(2), of fd] by auto
    with r fd show thesis by (intro success [of fd s' s'']) auto
  qed
qed

end

interpretation files: fd_table "\<lambda>E files. fs_env_ok E \<and> files_ok files" "\<lambda>files. descriptors (fdt files)" raw_alloc_fd raw_fd_install
proof
  fix E files start fend flags
  assume "fs_env_ok E \<and> files_ok files"
  then have ok: "fs_env_ok E" "files_ok files" by auto
  then show "\<exists>r s'. raw_alloc_fd E files start fend flags = Some (r, s') \<and> (fs_env_ok E \<and> files_ok s') \<and>
      (r \<in> {- EMFILE, - ENOMEM} \<and> descriptors (fdt s') = descriptors (fdt files) \<or>
       (\<exists>fd. r = int fd \<and> fd < fend \<and> lowest_free (descriptors (fdt files)) start fd \<and>
          descriptors (fdt s') = (descriptors (fdt files))(fd \<mapsto> (None, flags AND O_CLOEXEC \<noteq> 0))))"
    by (cases rule: raw_alloc_fd_cases [where start = start and fend = fend and flags = flags]) (auto simp: ok)
next
  fix E files fd c f
  assume "fs_env_ok E \<and> files_ok files" "descriptors (fdt files) fd = Some (None, c)"
  then show "\<exists>s'. raw_fd_install E files fd f = Some s' \<and> (fs_env_ok E \<and> files_ok s') \<and>
      descriptors (fdt s') = (descriptors (fdt files))(fd \<mapsto> (Some f, c))"
    by (metis raw_fd_install_descriptors)
qed

section \<open>The dup family\<close>

text \<open>\<open>dup\<close> returns the lowest free descriptor, which refers to the file of the old one.\<close>

lemma fget_raw_result:
  "files_ok files \<Longrightarrow> refs_ok files h \<Longrightarrow> fget_raw files h fd =
     (case raw_fcheck_files files fd of None \<Rightarrow> Some (None, h) | Some f \<Rightarrow> Some (Some f, get_file f h))"
  by (simp add: fget_raw_def raw_fget_def raw_fget_files_result split: option.split)

lemma sys_dup_cases:
  assumes env: "fs_env_ok E" and ok: "files_ok files" and refs: "refs_ok files h"
    and m: "descriptors (fdt files) fildes = Some (Some f, c)"
  obtains (fail) r files' where "sys_dup E rlim files h fildes = Some (r, files', fput E f (get_file f h))"
      "r \<in> {- EMFILE, - ENOMEM}" "files_ok files'" "descriptors (fdt files') = descriptors (fdt files)"
  | (success) fd files' where "sys_dup E rlim files h fildes = Some (int fd, files', get_file f h)"
      "fd < u32 rlim" "lowest_free (descriptors (fdt files)) 0 fd" "files_ok files'"
      "descriptors (fdt files') = (descriptors (fdt files))(fd \<mapsto> (Some f, False))"
proof -
  have chk: "raw_fcheck_files files fildes = Some f" using ok m by (simp add: raw_fcheck_files_descriptors)
  from env ok have "fs_env_ok E \<and> files_ok files" ..
  then show thesis
  proof (cases rule: files.alloc_install_cases [where start = 0 and fend = "u32 rlim" and flags = 0 and f = f])
    case (fail r s')
    with ok refs chk show thesis
      by (intro that(1) [of r s']) (auto simp: sys_dup_def fget_raw_result get_unused_fd_flags_def)
  next
    case (success fd s' s'')
    with ok refs chk show thesis
      by (intro that(2) [of fd s'']) (auto simp: sys_dup_def fget_raw_result get_unused_fd_flags_def fd_install_def)
  qed
qed

lemma sys_dup_bad:
  "files_ok files \<Longrightarrow> refs_ok files h \<Longrightarrow> raw_fcheck_files files fildes = None \<Longrightarrow>
     sys_dup E rlim files h fildes = Some (- EBADF, files, h)"
  by (simp add: sys_dup_def fget_raw_result)


text \<open>\<open>do_dup2\<close> on a table that has room for the new descriptor.\<close>

lemma do_dup2_busy:
  "descriptors (fdt files) fd = Some (None, c) \<Longrightarrow> do_dup2 E files h f fd flags = (- EBUSY, spin_unlock files, h)"
  using descriptors_SomeD [of "fdt files" fd None c] by (simp add: do_dup2_def Let_def)

definition replaced :: "fs_env \<Rightarrow> file_ptr option \<Rightarrow> fheap \<Rightarrow> fheap" where
  "replaced E old h = (case old of Some g \<Rightarrow> snd (filp_close E g h) | None \<Rightarrow> h)"

lemma do_dup2_descriptors:
  assumes ok: "files_ok files" and fd: "fd < max_fds (fdt files)"
    and m: "\<forall>c. descriptors (fdt files) fd \<noteq> Some (None, c)"
  obtains files' where
    "do_dup2 E files h f fd flags =
       (int fd, files', replaced E (Option.bind (descriptors (fdt files) fd) fst) (get_file f h))"
    "files_ok files'" "\<not> file_lock files'" "files_count files' = files_count files"
    "descriptors (fdt files') = (descriptors (fdt files))(fd \<mapsto> (Some f, flags AND O_CLOEXEC \<noteq> 0))"
proof -
  note t_ok = files_ok_fdt [OF ok]
  note sh = fdt_ok_shape [OF t_ok]
  let ?t1 = "raw_set_open_fd fd ((fdt files)\<lparr>fdt_fd := (fdt_fd (fdt files))[fd := Some f]\<rparr>)"
  let ?t1' = "(raw_set_open_fd fd (fdt files))\<lparr>fdt_fd := (fdt_fd (raw_set_open_fd fd (fdt files)))[fd := Some f]\<rparr>"
  let ?t = "if flags AND O_CLOEXEC \<noteq> 0 then raw_set_close_on_exec fd ?t1 else raw_clear_close_on_exec fd ?t1"
  have swap: "?t1 = ?t1'" by (simp add: raw_set_open_fd_def Let_def)
  have ok1: "fdt_ok ?t1"
    unfolding swap using fd t_ok sh by (intro fdt_ok_install fdt_ok_set_open) (auto simp: fdt_simps)
  then have okt: "fdt_ok ?t" by (auto intro: fdt_ok_cloexec)
  have opn: "fd_is_open n ?t \<longleftrightarrow> n = fd \<or> fd_is_open n (fdt files)" for n
    using fd sh by (simp add: fdt_simps)
  have desc: "descriptors ?t = (descriptors (fdt files))(fd \<mapsto> (Some f, flags AND O_CLOEXEC \<noteq> 0))"
    using fd sh fdt_shapeD(4) [OF sh]
    by (auto simp: descriptors_def fun_eq_iff opn fdt_simps nth_list_update_if simp del: if_split split: if_split_asm)
  have old: "Option.bind (descriptors (fdt files) fd) fst = fdt_fd (fdt files) ! fd"
    using raw_fcheck_files_descriptors [OF ok, of fd] fd by (simp add: raw_fcheck_files_def)
  have "\<not> (fdt_fd (fdt files) ! fd = None \<and> fd_is_open fd (fdt files))"
    using m fd by (auto simp: descriptors_def)
  moreover have "s32 fd = int fd" using fd fdt_shapeD(3) [OF sh] by (intro s32_id) simp
  ultimately have eq: "do_dup2 E files h f fd flags =
      (int fd, spin_unlock (files\<lparr>fdt := ?t\<rparr>), replaced E (Option.bind (descriptors (fdt files) fd) fst) (get_file f h))"
    unfolding do_dup2_def Let_def old replaced_def by (simp only: if_False split: option.split)
  have "files_ok (files\<lparr>fdt := ?t\<rparr>)"
    using ok okt by (intro files_ok_set_fdt) (auto simp: opn fdt_simps)
  then show thesis by (intro that [OF eq]) (auto simp: desc)
qed


lemma expand_files_result:
  assumes "fs_env_ok E" "files_ok files"
  obtains err files' where "expand_files E (spin_lock files) nr = Some (err, files')" "files_ok files'"
    "descriptors (fdt files') = descriptors (fdt files)" "file_lock files'" "files_count files' = files_count files"
    "err = - EMFILE \<and> max_fds (fdt files) \<le> nr \<and> sysctl_nr_open E \<le> nr \<or>
     err = - ENOMEM \<and> max_fds (fdt files) \<le> nr \<or> (err = 0 \<or> err = 1) \<and> nr < max_fds (fdt files')"
proof -
  have "fdt_ok (fdt (spin_lock files))" "\<not> resize_in_progress (spin_lock files)"
    using assms(2) by (simp_all add: files_ok_def)
  with assms(1) show thesis
  proof (cases rule: expand_files_cases [where nr = nr])
    case room
    with assms(2) show thesis by (intro that [OF room(2)]) auto
  next
    case limit
    with assms(2) show thesis by (intro that [OF limit(3)]) auto
  next
    case nomem
    with assms(2) show thesis by (intro that [OF nomem(3)]) auto
  next
    case (grown t)
    with assms(2) show thesis by (intro that [OF grown(3)]) (auto intro!: files_ok_grown)
  qed
qed

lemma other_refs_upd:
  assumes "files_ok files" "files_ok files'" "descriptors (fdt files') = (descriptors (fdt files))(fd := v)"
  shows "other_refs files' h' g = f_count (h' g) - f_count (h g) + other_refs files h g
    + of_bool (Option.bind (descriptors (fdt files) fd) fst = Some g) - of_bool (Option.bind v fst = Some g)"
proof -
  have "(\<exists>c. x = Some (Some g, c)) = (Option.bind x fst = Some g)" for x :: "(file_ptr option \<times> bool) option"
    by (auto simp: bind_eq_Some_conv)
  then show ?thesis
    using assms map_refs_upd [OF finite_dom_descriptors, of "fdt files" fd v g]
    by (simp add: other_refs_descriptors)
qed

lemma other_refs_same:
  assumes "files_ok files" "files_ok files'" "descriptors (fdt files') = descriptors (fdt files)"
  shows "other_refs files' h' g = f_count (h' g) - f_count (h g) + other_refs files h g"
  using assms by (simp add: other_refs_descriptors)

lemma refs_ok_same: "refs_ok files h \<Longrightarrow> (\<And>g. other_refs files' h' g = other_refs files h g) \<Longrightarrow> refs_ok files' h'"
  by (simp add: refs_ok_def)

lemma f_count_replaced:
  assumes "vfs_ok E" "files_ok files" "refs_ok files h"
  shows "f_count (replaced E (Option.bind (descriptors (fdt files) fd) fst) (get_file f h) g) =
    f_count (h g) + of_bool (g = f) - of_bool (Option.bind (descriptors (fdt files) fd) fst = Some g)"
proof (cases "Option.bind (descriptors (fdt files) fd) fst")
  case None
  then show ?thesis by (simp add: replaced_def)
next
  case (Some k)
  then obtain c where "descriptors (fdt files) fd = Some (Some k, c)" by (auto simp: bind_eq_Some_conv)
  from refs_ok_count [OF assms(2,3) this] have "0 < f_count (h k)" .
  then have "0 < f_count (get_file f h k)" by auto
  with vfs_okD(3) [OF assms(1), of "get_file f h" k g] Some show ?thesis by (auto simp: replaced_def)
qed

lemma sys_dup3_result:
  assumes env: "fs_env_ok E" "vfs_ok E" and ok: "files_ok files" "refs_ok files h"
    and args: "flags AND NOT O_CLOEXEC = 0" "oldfd \<noteq> newfd" "newfd < rlim"
    and m: "descriptors (fdt files) oldfd = Some (Some f, c)"
  obtains (fail) r files' where "sys_dup3 E rlim files h oldfd newfd flags = Some (r, files', h)"
      "r \<in> {- EBADF, - ENOMEM, - EBUSY}" "files_ok files'" "\<not> file_lock files'"
      "descriptors (fdt files') = descriptors (fdt files)"
      "r = - EBUSY \<longleftrightarrow> (\<exists>c. descriptors (fdt files) newfd = Some (None, c))"
  | (success) files' h' where "sys_dup3 E rlim files h oldfd newfd flags = Some (int newfd, files', h')"
      "files_ok files'" "\<not> file_lock files'"
      "descriptors (fdt files') = (descriptors (fdt files))(newfd \<mapsto> (Some f, flags AND O_CLOEXEC \<noteq> 0))"
      "\<And>g. other_refs files' h' g = other_refs files h g"
proof -
  obtain err f1 where e: "expand_files E (spin_lock files) newfd = Some (err, f1)" "files_ok f1"
    "descriptors (fdt f1) = descriptors (fdt files)"
    "err = - EMFILE \<and> max_fds (fdt files) \<le> newfd \<and> sysctl_nr_open E \<le> newfd \<or>
     err = - ENOMEM \<and> max_fds (fdt files) \<le> newfd \<or> (err = 0 \<or> err = 1) \<and> newfd < max_fds (fdt f1)"
    using expand_files_result [OF env(1) ok(1), of newfd] by metis
  have old: "fcheck_files f1 oldfd = Some f"
    using m e by (simp add: fcheck_files_def raw_fcheck_files_descriptors)
  have none: "max_fds (fdt files) \<le> newfd \<Longrightarrow> descriptors (fdt files) newfd = None"
    by (simp add: descriptors_def)
  show thesis
  proof (cases "err < 0")
    case True
    with e old none args show thesis
      by (intro fail [of "if err = - EMFILE then - EBADF else err" "spin_unlock f1"]) (auto simp: sys_dup3_def)
  next
    case False
    with e have room: "newfd < max_fds (fdt f1)" by auto
    have refs1: "refs_ok f1 h"
      by (rule refs_ok_same [OF ok(2)]) (simp add: other_refs_same [OF ok(1) e(2,3), of h _ h])
    show thesis
    proof (cases "\<exists>c. descriptors (fdt files) newfd = Some (None, c)")
      case busy: True
      then obtain c' where "descriptors (fdt f1) newfd = Some (None, c')" using e by auto
      with e old args False busy show thesis
        by (intro fail [of "- EBUSY" "spin_unlock f1"]) (auto simp: sys_dup3_def do_dup2_busy)
    next
      case nb: False
      with e(3) have "\<forall>c. descriptors (fdt f1) newfd \<noteq> Some (None, c)" by simp
      from do_dup2_descriptors [OF e(2) room this, of E h f flags] obtain f2 where f2:
        "do_dup2 E f1 h f newfd flags =
           (int newfd, f2, replaced E (Option.bind (descriptors (fdt f1) newfd) fst) (get_file f h))"
        "files_ok f2" "\<not> file_lock f2"
        "descriptors (fdt f2) = (descriptors (fdt f1))(newfd \<mapsto> (Some f, flags AND O_CLOEXEC \<noteq> 0))"
        by blast
      let ?h = "replaced E (Option.bind (descriptors (fdt f1) newfd) fst) (get_file f h)"
      have "sys_dup3 E rlim files h oldfd newfd flags = Some (int newfd, f2, ?h)"
        using e old args False f2 by (simp add: sys_dup3_def)
      moreover have "other_refs f2 ?h g = other_refs files h g" for g
        using other_refs_upd [OF e(2) f2(2,4), of ?h g h] other_refs_same [OF ok(1) e(2,3), of h g h]
          f_count_replaced [OF env(2) e(2) refs1, of newfd f g] by auto
      ultimately show thesis using f2 e(3) by (intro success [of f2 ?h]) auto
    qed
  qed
qed


section \<open>Several tables\<close>

text \<open>
  The references to a file that are held by anything but the tables of the store; in a well-formed
  store every table satisfies its invariant and every descriptor is counted.
\<close>

definition store_refs :: "files_heap \<Rightarrow> fheap \<Rightarrow> file_ptr \<Rightarrow> int" where
  "store_refs fs h f = f_count (h f) - (\<Sum>p \<in> dom fs. int (fd_refs (fdt (the (fs p))) f))"

definition store_ok :: "files_heap \<Rightarrow> fheap \<Rightarrow> bool" where
  "store_ok fs h \<longleftrightarrow> finite (dom fs) \<and> (\<forall>files \<in> ran fs. files_ok files) \<and> (\<forall>f. 0 \<le> store_refs fs h f)"

lemma store_okD:
  assumes "store_ok fs h" "fs p = Some files"
  shows "finite (dom fs)" "files_ok files" "refs_ok files h"
proof -
  show fin: "finite (dom fs)" and "files_ok files" using assms by (auto simp: store_ok_def ran_def)
  have "int (fd_refs (fdt files) f) \<le> (\<Sum>p \<in> dom fs. int (fd_refs (fdt (the (fs p))) f))" for f
    using member_le_sum [OF _ _ fin, of p "\<lambda>p. int (fd_refs (fdt (the (fs p))) f)"] assms(2) by auto
  moreover have "0 \<le> store_refs fs h f" for f using assms(1) by (simp add: store_ok_def)
  ultimately show "refs_ok files h"
    unfolding refs_ok_def other_refs_def store_refs_def by (smt (verit))
qed

lemma store_refs_upd:
  assumes "finite (dom fs)" "fs p = Some files"
  shows "store_refs (fs(p \<mapsto> files')) h' f - store_refs fs h f = other_refs files' h' f - other_refs files h f"
proof -
  have p: "p \<in> dom fs" using assms(2) by auto
  have *: "(\<Sum>q \<in> dom gs. int (fd_refs (fdt (the (gs q))) f)) =
      int (fd_refs (fdt (the (gs p))) f) + (\<Sum>q \<in> dom fs - {p}. int (fd_refs (fdt (the (fs q))) f))"
    if "dom gs = dom fs" "\<And>q. q \<noteq> p \<Longrightarrow> gs q = fs q" for gs :: files_heap
    using sum.remove [OF assms(1) p, of "\<lambda>q. int (fd_refs (fdt (the (gs q))) f)"] that
    by (auto intro!: sum.cong)
  show ?thesis
    using * [of fs] * [of "fs(p \<mapsto> files')"] p assms(2)
    by (auto simp: store_refs_def other_refs_def insert_absorb)
qed

lemma store_ok_upd:
  assumes "store_ok fs h" "fs p = Some files" "files_ok files'"
    "\<And>f. other_refs files' h' f = other_refs files h f"
  shows "store_ok (fs(p \<mapsto> files')) h'" "store_refs (fs(p \<mapsto> files')) h' f = store_refs fs h f"
proof -
  have *: "store_refs (fs(p \<mapsto> files')) h' f = store_refs fs h f" for f
    using store_refs_upd [OF store_okD(1) [OF assms(1,2)] assms(2), of files' h' f h] assms(4) by simp
  then show "store_refs (fs(p \<mapsto> files')) h' f = store_refs fs h f" .
  show "store_ok (fs(p \<mapsto> files')) h'"
    using assms * by (auto simp: store_ok_def ran_def split: if_splits)
qed

lemma store_ok_same:
  assumes "store_ok fs h" "fs p = Some files" "files_ok files'"
    "descriptors (fdt files') = descriptors (fdt files)"
  shows "store_ok (fs(p \<mapsto> files')) h" "store_refs (fs(p \<mapsto> files')) h f = store_refs fs h f"
  using store_ok_upd [OF assms(1-3), of h] other_refs_same [OF store_okD(2) [OF assms(1,2)] assms(3,4), of h _ h]
  by simp_all

definition local_file :: "files_heap \<Rightarrow> files_ptr \<Rightarrow> nat \<Rightarrow> file_ptr option" where
  "local_file fs p fd = Option.bind (fs p) (\<lambda>files. Option.bind (descriptors (fdt files) fd) fst)"

text \<open>
  The remote \<open>dup2\<close>: on success the tracee's descriptor refers to the file of the tracer's one and
  nothing else has changed; no reference is lost or left behind on any path.
\<close>

lemma do_dup2_to_remote_result:
  assumes env: "fs_env_ok E" "vfs_ok E" and st: "store_ok fs h"
    and p: "fs child = Some files" "fs cur = Some cfiles"
    and args: "flags AND NOT O_CLOEXEC = 0" "remote_fd < rlim"
  obtains r files' h' where
    "do_dup2_to_remote E rlim cur child fs h local_fd remote_fd flags = Some (r, fs(child \<mapsto> files'), h')"
    "files_ok files'" "\<not> file_lock files'" "store_ok (fs(child \<mapsto> files')) h'"
    "\<And>g. store_refs (fs(child \<mapsto> files')) h' g = store_refs fs h g"
    "r \<in> {- EBADF, - ENOMEM, - EBUSY} \<and> h' = h \<and> descriptors (fdt files') = descriptors (fdt files) \<or>
     r = int remote_fd \<and> (\<exists>f. local_file fs cur local_fd = Some f \<and>
       descriptors (fdt files') = (descriptors (fdt files))(remote_fd \<mapsto> (Some f, flags AND O_CLOEXEC \<noteq> 0)))"
    "local_file fs cur local_fd = None \<Longrightarrow> r = - EBADF"
proof -
  note ok = store_okD [OF st p(1)] and result = that
  obtain err f1 where e: "expand_files E (spin_lock files) remote_fd = Some (err, f1)" "files_ok f1"
    "descriptors (fdt f1) = descriptors (fdt files)"
    "err = - EMFILE \<and> max_fds (fdt files) \<le> remote_fd \<and> sysctl_nr_open E \<le> remote_fd \<or>
     err = - ENOMEM \<and> max_fds (fdt files) \<le> remote_fd \<or> (err = 0 \<or> err = 1) \<and> remote_fd < max_fds (fdt f1)"
    using expand_files_result [OF env(1) ok(2), of remote_fd] by metis
  obtain cf where cf: "(fs(child \<mapsto> f1)) cur = Some cf" "fcheck_files cf local_fd = local_file fs cur local_fd"
  proof (cases "cur = child")
    case True
    with p e show thesis
      by (intro that [of f1]) (auto simp: fcheck_files_def raw_fcheck_files_descriptors local_file_def)
  next
    case False
    with p store_okD(2) [OF st p(2)] show thesis
      by (intro that [of cfiles]) (auto simp: fcheck_files_def raw_fcheck_files_descriptors local_file_def)
  qed
  have fail: thesis
    if "do_dup2_to_remote E rlim cur child fs h local_fd remote_fd flags = Some (r, fs(child \<mapsto> spin_unlock f1), h)"
      "r \<in> {- EBADF, - ENOMEM, - EBUSY}" "local_file fs cur local_fd = None \<longrightarrow> r = - EBADF" for r
    using that e store_ok_same [OF st p(1), of "spin_unlock f1"]
    by (intro result [of r "spin_unlock f1" h]) auto
  show thesis
  proof (cases "local_file fs cur local_fd")
    case None
    with p e cf args show thesis by (intro fail [of "- EBADF"]) (auto simp: do_dup2_to_remote_def)
  next
    case (Some f)
    show thesis
    proof (cases "err < 0")
      case True
      with p e cf args Some show thesis
        by (intro fail [of "if err = - EMFILE then - EBADF else err"]) (auto simp: do_dup2_to_remote_def)
    next
      case False
      with e have room: "remote_fd < max_fds (fdt f1)" by auto
      have refs1: "refs_ok f1 h"
        by (rule refs_ok_same [OF ok(3)]) (simp add: other_refs_same [OF ok(2) e(2,3), of h _ h])
      show thesis
      proof (cases "\<exists>c. descriptors (fdt f1) remote_fd = Some (None, c)")
        case busy: True
        with p e cf args Some False show thesis
          by (intro fail [of "- EBUSY"]) (auto simp: do_dup2_to_remote_def do_dup2_busy)
      next
        case nb: False
        then have "\<forall>c. descriptors (fdt f1) remote_fd \<noteq> Some (None, c)" by simp
        from do_dup2_descriptors [OF e(2) room this, of E h f flags] obtain f2 where f2:
          "do_dup2 E f1 h f remote_fd flags =
             (int remote_fd, f2, replaced E (Option.bind (descriptors (fdt f1) remote_fd) fst) (get_file f h))"
          "files_ok f2" "\<not> file_lock f2"
          "descriptors (fdt f2) = (descriptors (fdt f1))(remote_fd \<mapsto> (Some f, flags AND O_CLOEXEC \<noteq> 0))"
          by blast
        let ?h = "replaced E (Option.bind (descriptors (fdt f1) remote_fd) fst) (get_file f h)"
        have "do_dup2_to_remote E rlim cur child fs h local_fd remote_fd flags =
            Some (int remote_fd, fs(child \<mapsto> f2), ?h)"
          using p e cf Some args False f2 by (simp add: do_dup2_to_remote_def)
        moreover have "other_refs f2 ?h g = other_refs files h g" for g
          using other_refs_upd [OF e(2) f2(2,4), of ?h g h] other_refs_same [OF ok(2) e(2,3), of h g h]
            f_count_replaced [OF env(2) e(2) refs1, of remote_fd f g] by auto
        ultimately show thesis
          using f2 e(3) Some store_ok_upd [OF st p(1) f2(2), of ?h]
          by (intro that [of "int remote_fd" f2 ?h]) auto
      qed
    qed
  qed
qed

end
