(* ===== verification/Table_Life.thy ===== *)
theory Table_Life
  imports File_Ops
begin

text \<open>
  The bulk operations on a table: \<open>do_close_on_exec\<close>, \<open>close_files\<close> and \<open>dup_fd\<close>, which
  \<open>File_Ops\<close> defines as the loops of \<open>fs/file.c\<close>.  Loop invariants give their effect on the
  abstract map and on the reference counts: an exec removes exactly the installed close-on-exec
  descriptors, closing a table drops one reference per descriptor, and a copied table has the
  installed descriptors of the original, each with a reference of its own, and nothing of the
  memory it was built from.
\<close>


section \<open>Closing: one descriptor, those marked close-on-exec, all of them\<close>

lemma raw_close_fd_refs:
  assumes "vfs_ok E" "files_ok files" "refs_ok files h" "raw_close_fd E files h fd = (r, files', h')"
  shows "files_ok files'" "other_refs files' h' g = other_refs files h g"
    "descriptors (fdt files') = (if raw_fcheck_files files fd = None then descriptors (fdt files)
       else (descriptors (fdt files))(fd := None))"
proof -
  have "files_ok files' \<and> other_refs files' h' g = other_refs files h g \<and>
    descriptors (fdt files') = (if raw_fcheck_files files fd = None then descriptors (fdt files)
       else (descriptors (fdt files))(fd := None))"
  proof (cases "raw_fcheck_files files fd")
    case None
    with assms raw_close_fd_bad [of files fd E h] show ?thesis by (auto simp: other_refs_def)
  next
    case (Some f)
    then obtain c where m: "descriptors (fdt files) fd = Some (Some f, c)"
      using assms(2) by (auto simp: raw_fcheck_files_descriptors bind_eq_Some_conv)
    from raw_close_fd_descriptors [OF assms(2) m, of E h] obtain files'' where
      eq: "raw_close_fd E files h fd = (fst (filp_close E f h), files'', snd (filp_close E f h))"
      and f'': "descriptors (fdt files'') = (descriptors (fdt files))(fd := None)" "files_ok files''"
      by blast
    have "f_count (snd (filp_close E f h) g) = f_count (h g) - (if g = f then 1 else 0)"
      using vfs_okD(3) [OF assms(1), of h f g] refs_ok_count [OF assms(2,3) m] by blast
    with other_refs_upd [OF assms(2) f''(2,1), of "snd (filp_close E f h)" g h] m f'' eq assms(4) Some
    show ?thesis by auto
  qed
  then show "files_ok files'" "other_refs files' h' g = other_refs files h g"
    "descriptors (fdt files') = (if raw_fcheck_files files fd = None then descriptors (fdt files)
       else (descriptors (fdt files))(fd := None))" by blast+
qed

lemma close_on_exec_slot_result:
  assumes vfs: "vfs_ok E" and ok: "files_ok files" "refs_ok files h" and fd: "fd < max_fds (fdt files)"
    and r: "close_on_exec_slot E fd files h = (files', h')"
  shows "files_ok files'" "\<And>g. other_refs files' h' g = other_refs files h g" "refs_ok files' h'"
    "descriptors (fdt files') = (if raw_fcheck_files files fd = None then descriptors (fdt files)
       else (descriptors (fdt files))(fd := None))"
proof -
  have *: "files_ok files' \<and> (\<forall>g. other_refs files' h' g = other_refs files h g) \<and>
    descriptors (fdt files') = (if raw_fcheck_files files fd = None then descriptors (fdt files)
       else (descriptors (fdt files))(fd := None))"
  proof (cases "raw_fcheck_files files fd")
    case None
    with r fd ok show ?thesis by (auto simp: close_on_exec_slot_def raw_fcheck_files_def)
  next
    case (Some f)
    then obtain c where m: "descriptors (fdt files) fd = Some (Some f, c)"
      using ok(1) by (auto simp: raw_fcheck_files_descriptors bind_eq_Some_conv)
    note sh = fdt_ok_shape [OF files_ok_fdt [OF ok(1)]]
    let ?t = "(fdt files)\<lparr>fdt_fd := (fdt_fd (fdt files))[fd := None]\<rparr>"
    let ?f = "spin_lock (spin_unlock (raw_put_unused_fd (files\<lparr>fdt := ?t\<rparr>) fd))"
    have res: "files' = ?f" "h' = snd (filp_close E f h)"
      using r Some fd by (auto simp: close_on_exec_slot_def raw_fcheck_files_def Let_def)
    have "files_ok (files\<lparr>fdt := ?t\<rparr>)"
      using ok by (intro files_ok_set_fdt) (auto simp: fdt_simps intro!: fdt_ok_uninstall)
    then have f': "files_ok ?f"
      using fd fdt_shapeD(4) [OF sh] by (auto simp: fdt_simps intro!: files_ok_raw_put_unused_fd)
    have d: "descriptors (fdt ?f) = (descriptors (fdt files))(fd := None)"
      using fd m sh by (simp add: fdt_simps descriptors_clear_open descriptors_set_fd)
    have "other_refs ?f (snd (filp_close E f h)) g = other_refs files h g" for g
      using other_refs_upd [OF ok(1) f' d, of "snd (filp_close E f h)" g h] m
        vfs_okD(3) [OF vfs, of h f g] refs_ok_count [OF ok m] by auto
    with f' d Some show ?thesis by (simp add: res)
  qed
  then show "files_ok files'" and refs: "\<And>g. other_refs files' h' g = other_refs files h g"
    and "descriptors (fdt files') = (if raw_fcheck_files files fd = None then descriptors (fdt files)
       else (descriptors (fdt files))(fd := None))" by auto
  show "refs_ok files' h'" using refs_ok_same [OF ok(2) refs] .
qed

definition installed :: "descriptor_map \<Rightarrow> nat \<Rightarrow> bool" where
  "installed m n \<longleftrightarrow> (\<exists>f c. m n = Some (Some f, c))"

lemma raw_fcheck_files_installed: "files_ok files \<Longrightarrow> raw_fcheck_files files n \<noteq> None \<longleftrightarrow> installed (descriptors (fdt files)) n"
  by (auto simp: installed_def raw_fcheck_files_descriptors bind_eq_Some_conv)

lemma and_1_odd: "w AND 1 \<noteq> 0 \<longleftrightarrow> bit w 0" for w :: "64 word"
  by (simp add: and_one_eq bit_0 odd_iff_mod_2_eq_one)

lemma close_on_exec_word_result:
  "vfs_ok E \<Longrightarrow> files_ok files \<Longrightarrow> refs_ok files h \<Longrightarrow> (\<And>n. bit w n \<Longrightarrow> fd + n < max_fds (fdt files)) \<Longrightarrow>
    close_on_exec_word E w fd files h = (files', h') \<Longrightarrow>
    files_ok files' \<and> (\<forall>g. other_refs files' h' g = other_refs files h g) \<and>
    descriptors (fdt files') = (\<lambda>n. if fd \<le> n \<and> bit w (n - fd) \<and> installed (descriptors (fdt files)) n then None
       else descriptors (fdt files) n)"
proof (induction E w fd files h rule: close_on_exec_word.induct)
  case (1 E w fd files h)
  show ?case
  proof (cases "w = 0")
    case True
    with 1(3,6) show ?thesis by (auto simp: close_on_exec_word.simps [of E 0])
  next
    case False
    let ?p = "if w AND 1 \<noteq> 0 then close_on_exec_slot E fd files h else (files, h)"
    obtain f1 h1 where p: "?p = (f1, h1)" by (cases ?p)
    have rec: "close_on_exec_word E (drop_bit 1 w) (Suc fd) f1 h1 = (files', h')"
      using 1(6) False p by (simp add: close_on_exec_word.simps [of E w])
    have step: "files_ok f1 \<and> refs_ok f1 h1 \<and> (\<forall>g. other_refs f1 h1 g = other_refs files h g) \<and>
        max_fds (fdt f1) = max_fds (fdt files) \<and>
        descriptors (fdt f1) = (\<lambda>n. if n = fd \<and> bit w 0 \<and> installed (descriptors (fdt files)) n then None
          else descriptors (fdt files) n)"
    proof (cases "bit w 0")
      case True
      then have s: "close_on_exec_slot E fd files h = (f1, h1)" using p by (simp add: and_1_odd)
      from True 1(5) [of 0] have "fd < max_fds (fdt files)" by simp
      note res = close_on_exec_slot_result [OF 1(2-4) this s]
      with True s close_on_exec_slot_fields(1) [of E fd files h] raw_fcheck_files_installed [OF 1(3), of fd]
      show ?thesis by (auto simp: fun_eq_iff)
    next
      case False
      with p 1(3,4) show ?thesis by (auto simp: and_1_odd)
    qed
    have "files_ok files' \<and> (\<forall>g. other_refs files' h' g = other_refs f1 h1 g) \<and>
      descriptors (fdt files') = (\<lambda>n. if Suc fd \<le> n \<and> bit (drop_bit 1 w) (n - Suc fd) \<and>
        installed (descriptors (fdt f1)) n then None else descriptors (fdt f1) n)"
    proof (rule 1(1) [OF False p [symmetric] refl 1(2) _ _ _ rec])
      show "Suc fd + n < max_fds (fdt f1)" if "bit (drop_bit 1 w) n" for n
        using that 1(5) [of "Suc n"] step by (simp add: bit_drop_bit_eq)
    qed (use step in auto)
    moreover have "fd \<le> n \<and> bit w (n - fd) \<longleftrightarrow> n = fd \<and> bit w 0 \<or> Suc fd \<le> n \<and> bit w (Suc (n - Suc fd))" for n
      by (cases "n = fd") (auto simp: Suc_diff_Suc)
    ultimately show ?thesis
      using step by (auto simp: bit_drop_bit_eq fun_eq_iff installed_def)
  qed
qed


text \<open>What is left of the descriptors after an exec: reserved ones lose the flag, too.\<close>

definition exec_view :: "descriptor_map \<Rightarrow> descriptor_map" where
  "exec_view m n = (case m n of Some (Some f, True) \<Rightarrow> None | Some (x, c) \<Rightarrow> Some (x, False) | None \<Rightarrow> None)"

lemma fdt_ok_clear_cloexec_word:
  "fdt_ok t \<Longrightarrow> fdt_ok (t\<lparr>fdt_close_on_exec := (fdt_close_on_exec t)[i := 0]\<rparr>)"
  by (auto simp: fdt_ok_def fdt_shape_def fd_is_open_def)

lemma descriptors_clear_cloexec_word:
  assumes "fdt_shape t" "i < max_fds t div BITS_PER_LONG"
  shows "descriptors (t\<lparr>fdt_close_on_exec := (fdt_close_on_exec t)[i := 0]\<rparr>) =
    (\<lambda>n. if n div BITS_PER_LONG = i then map_option (\<lambda>(x, c). (x, False)) (descriptors t n) else descriptors t n)"
  using assms fdt_shapeD(5) [OF assms(1)]
  by (auto simp: descriptors_def fun_eq_iff fd_is_open_def close_on_exec_def test_bit_def nth_list_update_if)

lemma do_close_on_exec_from_result:
  "vfs_ok E \<Longrightarrow> files_ok files \<Longrightarrow> refs_ok files h \<Longrightarrow> do_close_on_exec_from E i files h = (files', h') \<Longrightarrow>
    files_ok files' \<and> (\<forall>g. other_refs files' h' g = other_refs files h g) \<and>
    descriptors (fdt files') = (\<lambda>n. if n < i * BITS_PER_LONG then descriptors (fdt files) n
       else exec_view (descriptors (fdt files)) n)"
proof (induction E i files h rule: do_close_on_exec_from.induct)
  case (1 E i files h)
  note t_ok = files_ok_fdt [OF 1(3)]
  note sh = fdt_ok_shape [OF t_ok]
  let ?t = "(fdt files)\<lparr>fdt_close_on_exec := (fdt_close_on_exec (fdt files))[i := 0]\<rparr>"
  let ?w = "fdt_close_on_exec (fdt files) ! i" and ?fd = "i * BITS_PER_LONG"
  show ?case
  proof (cases "max_fds (fdt files) \<le> ?fd")
    case True
    then have "descriptors (fdt files) n = None" if "\<not> n < ?fd" for n using that by (simp add: descriptors_def)
    with True 1(3,5) show ?thesis
      by (auto simp: do_close_on_exec_from.simps [of E i] fun_eq_iff exec_view_def)
  next
    case False
    then have i: "i < max_fds (fdt files) div BITS_PER_LONG" using fdt_shapeD(2) [OF sh] by linarith
    obtain f1 h1 where w: "close_on_exec_word E ?w ?fd (files\<lparr>fdt := ?t\<rparr>) h = (f1, h1)" by fastforce
    have rec: "do_close_on_exec_from E (Suc i) f1 h1 = (files', h')"
      using 1(5) False w by (simp add: do_close_on_exec_from.simps [of E i])
    have ok0: "files_ok (files\<lparr>fdt := ?t\<rparr>)"
      using 1(3) by (intro files_ok_set_fdt fdt_ok_clear_cloexec_word) (auto simp: fd_is_open_def)
    have refs0: "other_refs (files\<lparr>fdt := ?t\<rparr>) h g = other_refs files h g" for g
      by (simp add: other_refs_def fd_refs_def)
    have bits: "?fd + n < max_fds (fdt (files\<lparr>fdt := ?t\<rparr>))" if "bit ?w n" for n
    proof -
      from that have "n < 64" using bit_imp_le_length [of ?w n] by simp
      then show ?thesis using i fdt_shapeD(2) [OF sh] by simp
    qed
    have m1: "descriptors (fdt (files\<lparr>fdt := ?t\<rparr>)) = (\<lambda>n. if n div BITS_PER_LONG = i
        then map_option (\<lambda>(x, c). (x, False)) (descriptors (fdt files) n) else descriptors (fdt files) n)"
      using descriptors_clear_cloexec_word [OF sh i] by simp
    note word = close_on_exec_word_result [OF 1(2) ok0 refs_ok_same [OF 1(4) refs0] bits w]
    have f1: "files_ok f1" "\<And>g. other_refs f1 h1 g = other_refs files h g" using word refs0 by auto
    have cl: "?fd \<le> n \<and> bit ?w (n - ?fd) \<longleftrightarrow> n div BITS_PER_LONG = i \<and> close_on_exec n (fdt files)" for n
    proof -
      have "bit ?w (n - ?fd) \<Longrightarrow> n - ?fd < 64" using bit_imp_le_length [of ?w "n - ?fd"] by simp
      moreover have "n div 64 = i \<longleftrightarrow> ?fd \<le> n \<and> n - ?fd < 64" by auto
      moreover have "n div 64 = i \<Longrightarrow> n mod 64 = n - ?fd" by (auto simp: modulo_nat_def)
      ultimately show ?thesis by (auto simp: close_on_exec_def test_bit_def)
    qed
    have m2: "descriptors (fdt f1) n = (if n div BITS_PER_LONG = i then exec_view (descriptors (fdt files)) n
        else descriptors (fdt files) n)" for n
    proof -
      let ?m = "descriptors (fdt files)"
      have d: "descriptors (fdt f1) n = (if n div BITS_PER_LONG = i \<and> close_on_exec n (fdt files) \<and> installed ?m n
          then None else if n div BITS_PER_LONG = i then map_option (\<lambda>(x, c). (x, False)) (?m n) else ?m n)"
      proof -
        let ?m1 = "descriptors (fdt (files\<lparr>fdt := ?t\<rparr>))"
        have "installed ?m1 n \<longleftrightarrow> installed ?m n" unfolding m1 installed_def by auto
        moreover from word have "descriptors (fdt f1) n =
            (if (?fd \<le> n \<and> bit ?w (n - ?fd)) \<and> installed ?m1 n then None else ?m1 n)"
          by (simp only: conj_assoc)
        ultimately show ?thesis unfolding cl by (simp only: m1 conj_assoc)
      qed
      show ?thesis
      proof (cases "?m n")
        case None
        then show ?thesis by (simp add: d installed_def exec_view_def)
      next
        case (Some p)
        obtain x c where "p = (x, c)" by (cases p)
        moreover from this Some have "installed ?m n \<longleftrightarrow> x \<noteq> None" by (auto simp: installed_def)
        ultimately show ?thesis
          using Some descriptors_SomeD [of "fdt files" n x c] by (cases x; cases c) (simp_all add: d exec_view_def)
      qed
    qed
    have "files_ok files' \<and> (\<forall>g. other_refs files' h' g = other_refs f1 h1 g) \<and>
      descriptors (fdt files') = (\<lambda>n. if n < Suc i * BITS_PER_LONG then descriptors (fdt f1) n
         else exec_view (descriptors (fdt f1)) n)"
      by (rule 1(1) [OF refl False refl refl w [symmetric] refl 1(2) f1(1) refs_ok_same [OF 1(4) f1(2)] rec])
    moreover have "n < Suc i * 64 \<longleftrightarrow> n < ?fd \<or> n div 64 = i" for n by auto
    ultimately show ?thesis using f1(2) by (auto simp: fun_eq_iff m2 exec_view_def)
  qed
qed


lemma do_close_on_exec_result:
  assumes "vfs_ok E" "files_ok files" "refs_ok files h" "do_close_on_exec E files h = (files', h')"
  shows "files_ok files'" "other_refs files' h' g = other_refs files h g" "\<not> file_lock files'"
    "descriptors (fdt files') = exec_view (descriptors (fdt files))"
proof -
  obtain f1 where f1: "do_close_on_exec_from E 0 (spin_lock files) h = (f1, h')" "files' = spin_unlock f1"
    using assms(4) by (auto simp: do_close_on_exec_def split: prod.splits)
  have r: "other_refs (spin_lock files) h g = other_refs files h g" for g by (simp add: other_refs_def)
  note res = do_close_on_exec_from_result [OF assms(1) _ refs_ok_same [OF assms(3) r] f1(1)]
  show "files_ok files'" "\<not> file_lock files'" "descriptors (fdt files') = exec_view (descriptors (fdt files))"
    using res assms(2) f1(2) by (simp_all add: fun_eq_iff)
  show "other_refs files' h' g = other_refs files h g"
    using res assms(2) f1(2) by (simp add: other_refs_def)
qed

text \<open>
  Closing a table that goes away drops the reference of every descriptor; the argument of the loops
  is the table alone.
\<close>

lemma length_filter_update:
  "i < length xs \<Longrightarrow>
     length (filter P (xs[i := x])) + of_bool (P (xs ! i)) = length (filter P xs) + of_bool (P x)"
proof (induction xs arbitrary: i)
  case (Cons a xs)
  show ?case
  proof (cases i)
    case (Suc j)
    with Cons.prems Cons.IH [of j] show ?thesis by auto
  qed simp
qed simp

lemma close_files_slot_result:
  assumes "vfs_ok E" "i < length (fdt_fd t)" "\<And>g. int (fd_refs t g) \<le> f_count (h g)"
    and r: "close_files_slot E i t h = (t', h')"
  shows "fdt_fd t' = (fdt_fd t)[i := None]"
    "f_count (h' g) - int (fd_refs t' g) = f_count (h g) - int (fd_refs t g)"
proof -
  show fd: "fdt_fd t' = (fdt_fd t)[i := None]"
    using r by (auto simp: close_files_slot_def Let_def split: option.splits)
  have refs: "int (fd_refs t' g) = int (fd_refs t g) - of_bool (fdt_fd t ! i = Some g)" for g
    using length_filter_update [OF assms(2), of "\<lambda>x. x = Some g" None] by (auto simp: fd_refs_def fd)
  show "f_count (h' g) - int (fd_refs t' g) = f_count (h g) - int (fd_refs t g)"
  proof (cases "fdt_fd t ! i")
    case None
    with r refs show ?thesis by (auto simp: close_files_slot_def Let_def)
  next
    case (Some f)
    have "0 < f_count (h f)" using assms(3) [of f] refs [of f] Some by (simp split: if_splits)
    with vfs_okD(3) [OF assms(1), of h f g] r refs Some show ?thesis
      by (auto simp: close_files_slot_def Let_def)
  qed
qed

lemma close_files_word_result:
  "vfs_ok E \<Longrightarrow> (\<And>n. bit w n \<Longrightarrow> i + n < length (fdt_fd t)) \<Longrightarrow> (\<And>g. int (fd_refs t g) \<le> f_count (h g)) \<Longrightarrow>
    close_files_word E w i t h = (t', h') \<Longrightarrow>
    length (fdt_fd t') = length (fdt_fd t) \<and>
    (\<forall>n < length (fdt_fd t). fdt_fd t' ! n = (if i \<le> n \<and> bit w (n - i) then None else fdt_fd t ! n)) \<and>
    (\<forall>g. f_count (h' g) - int (fd_refs t' g) = f_count (h g) - int (fd_refs t g))"
proof (induction E w i t h rule: close_files_word.induct)
  case (1 E w i t h)
  show ?case
  proof (cases "w = 0")
    case True
    with 1(5) show ?thesis by (auto simp: close_files_word.simps [of E 0])
  next
    case False
    let ?p = "if w AND 1 \<noteq> 0 then close_files_slot E i t h else (t, h)"
    obtain t1 h1 where p: "?p = (t1, h1)" by (cases ?p)
    have rec: "close_files_word E (drop_bit 1 w) (Suc i) t1 h1 = (t', h')"
      using 1(5) False p by (simp add: close_files_word.simps [of E w])
    have step: "fdt_fd t1 = (if bit w 0 then (fdt_fd t)[i := None] else fdt_fd t) \<and>
        (\<forall>g. f_count (h1 g) - int (fd_refs t1 g) = f_count (h g) - int (fd_refs t g))"
    proof (cases "bit w 0")
      case True
      then have s: "close_files_slot E i t h = (t1, h1)" using p by (simp add: and_1_odd)
      from True 1(3) [of 0] have "i < length (fdt_fd t)" by simp
      from close_files_slot_result [OF 1(2) this 1(4) s] True show ?thesis by simp
    qed (use p in \<open>auto simp: and_1_odd\<close>)
    have len: "length (fdt_fd t1) = length (fdt_fd t)" using step by simp
    have "length (fdt_fd t') = length (fdt_fd t1) \<and>
      (\<forall>n < length (fdt_fd t1). fdt_fd t' ! n =
         (if Suc i \<le> n \<and> bit (drop_bit 1 w) (n - Suc i) then None else fdt_fd t1 ! n)) \<and>
      (\<forall>g. f_count (h' g) - int (fd_refs t' g) = f_count (h1 g) - int (fd_refs t1 g))"
    proof (rule 1(1) [OF False p [symmetric] refl 1(2) _ _ rec])
      show "Suc i + n < length (fdt_fd t1)" if "bit (drop_bit 1 w) n" for n
        using that 1(3) [of "Suc n"] len by (simp add: bit_drop_bit_eq)
      show "int (fd_refs t1 g) \<le> f_count (h1 g)" for g
        using step 1(4) [of g] by (smt (verit))
    qed
    moreover have "i \<le> n \<and> bit w (n - i) \<longleftrightarrow> n = i \<and> bit w 0 \<or> Suc i \<le> n \<and> bit w (Suc (n - Suc i))" for n
      by (cases "n = i") (auto simp: Suc_diff_Suc)
    ultimately show ?thesis
      using step len by (auto simp: bit_drop_bit_eq nth_list_update_if)
  qed
qed


lemma close_files_word_bits:
  "fdt_close_on_exec (fst (close_files_word E w i t h)) = fdt_close_on_exec t \<and>
   fdt_full_fds_bits (fst (close_files_word E w i t h)) = fdt_full_fds_bits t"
proof (induction E w i t h rule: close_files_word.induct)
  case (1 E w i t h)
  let ?p = "if w AND 1 \<noteq> 0 then close_files_slot E i t h else (t, h)"
  have "fdt_close_on_exec (fst ?p) = fdt_close_on_exec t" "fdt_full_fds_bits (fst ?p) = fdt_full_fds_bits t"
    by (simp_all add: close_files_slot_def Let_def split: option.splits)
  with 1 [of ?p "fst ?p" "snd ?p"] show ?case
    by (auto simp: close_files_word.simps [of E w] split_beta Let_def split: if_splits)
qed

lemma close_files_from_result:
  "vfs_ok E \<Longrightarrow> fdt_shape t \<Longrightarrow> (\<And>g. int (fd_refs t g) \<le> f_count (h g)) \<Longrightarrow>
    close_files_from E j t h = (t', h') \<Longrightarrow>
    length (fdt_fd t') = length (fdt_fd t) \<and>
    (\<forall>n < length (fdt_fd t). fdt_fd t' ! n = (if j * BITS_PER_LONG \<le> n \<and> fd_is_open n t then None else fdt_fd t ! n)) \<and>
    (\<forall>g. f_count (h' g) - int (fd_refs t' g) = f_count (h g) - int (fd_refs t g))"
proof (induction E j t h rule: close_files_from.induct)
  case (1 E j t h)
  note sh = fdt_shapeD [OF 1(3)]
  let ?i = "j * BITS_PER_LONG" and ?w = "fdt_open_fds t ! j"
  show ?case
  proof (cases "max_fds t \<le> ?i")
    case True
    with 1(5) sh(4) show ?thesis by (auto simp: close_files_from.simps [of E j])
  next
    case False
    then have j: "j < max_fds t div BITS_PER_LONG" using sh(2) by linarith
    obtain t1 h1 where w: "close_files_word E ?w ?i t h = (t1, h1)" by fastforce
    have rec: "close_files_from E (Suc j) t1 h1 = (t', h')"
      using 1(5) False w by (simp add: close_files_from.simps [of E j])
    have bits: "?i + n < length (fdt_fd t)" if "bit ?w n" for n
    proof -
      from that have "n < 64" using bit_imp_le_length [of ?w n] by simp
      then show ?thesis using j sh(2,4) by simp
    qed
    note word = close_files_word_result [OF 1(2) bits 1(4) w]
    have t1: "max_fds t1 = max_fds t" "fdt_open_fds t1 = fdt_open_fds t"
      using close_files_word_fields [of E ?w ?i t h] w by simp_all
    have other: "fdt_close_on_exec t1 = fdt_close_on_exec t \<and> fdt_full_fds_bits t1 = fdt_full_fds_bits t"
      using close_files_word_bits [of E ?w ?i t h] w by simp
    have "length (fdt_fd t') = length (fdt_fd t1) \<and>
      (\<forall>n < length (fdt_fd t1). fdt_fd t' ! n = (if Suc j * BITS_PER_LONG \<le> n \<and> fd_is_open n t1 then None else fdt_fd t1 ! n)) \<and>
      (\<forall>g. f_count (h' g) - int (fd_refs t' g) = f_count (h1 g) - int (fd_refs t1 g))"
    proof (rule 1(1) [OF refl False w [symmetric] refl 1(2) _ _ rec])
      show "fdt_shape t1" using 1(3) word t1 other by (simp add: fdt_shape_def)
      show "int (fd_refs t1 g) \<le> f_count (h1 g)" for g using word 1(4) [of g] by (smt (verit))
    qed
    moreover have "(?i \<le> n \<and> bit ?w (n - ?i)) \<or> Suc j * BITS_PER_LONG \<le> n \<and> fd_is_open n t1 \<longleftrightarrow>
        ?i \<le> n \<and> fd_is_open n t" for n
    proof -
      have "bit ?w (n - ?i) \<Longrightarrow> n - ?i < 64" using bit_imp_le_length [of ?w "n - ?i"] by simp
      moreover have "n div 64 = j \<longleftrightarrow> ?i \<le> n \<and> n - ?i < 64" by auto
      moreover have "n div 64 = j \<Longrightarrow> n mod 64 = n - ?i" by (auto simp: modulo_nat_def)
      ultimately show ?thesis using t1(2) by (auto simp: fd_is_open_def test_bit_def)
    qed
    ultimately show ?thesis using word by (smt (verit))
  qed
qed

lemma close_files_result:
  assumes "vfs_ok E" "files_ok files" "refs_ok files h" "close_files E files h = (t', h')"
  shows "fdt_fd t' = replicate (max_fds (fdt files)) None"
    "f_count (h' g) = f_count (h g) - int (fd_refs (fdt files) g)"
proof -
  note t_ok = files_ok_fdt [OF assms(2)]
  have "int (fd_refs (fdt files) g) \<le> f_count (h g)" for g
    using assms(3) by (simp add: refs_ok_def other_refs_def)
  note res = close_files_from_result [OF assms(1) fdt_ok_shape [OF t_ok] this assms(4) [unfolded close_files_def]]
  have "fdt_fd t' ! n = None" if "n < max_fds (fdt files)" for n
    using res that fdt_ok_installed [OF t_ok that] fdt_shapeD(4) [OF fdt_ok_shape [OF t_ok]]
    by (cases "fdt_fd (fdt files) ! n") auto
  with res show none: "fdt_fd t' = replicate (max_fds (fdt files)) None"
    using fdt_shapeD(4) [OF fdt_ok_shape [OF t_ok]] by (auto intro!: nth_equalityI)
  have "fd_refs t' g = 0" by (simp add: fd_refs_def none)
  moreover have "f_count (h' g) - int (fd_refs t' g) = f_count (h g) - int (fd_refs (fdt files) g)" using res by blast
  ultimately show "f_count (h' g) = f_count (h g) - int (fd_refs (fdt files) g)" by simp
qed


section \<open>The table of a new process\<close>

lemma last_open_word_zero: "last_open_word t i < k \<Longrightarrow> k < i \<Longrightarrow> fdt_open_fds t ! k = 0"
  by (induction i) (auto split: if_splits simp: less_Suc_eq)

lemma last_open_word_le: "0 < i \<Longrightarrow> last_open_word t i < i"
  by (induction i) (auto simp: less_Suc_eq)

lemma count_open_files_bounds:
  assumes "fdt_shape t"
  shows "BITS_PER_LONG dvd count_open_files t" "BITS_PER_LONG \<le> count_open_files t" "count_open_files t \<le> max_fds t"
    "count_open_files t div BITS_PER_LONG \<le> i \<Longrightarrow> i < max_fds t div BITS_PER_LONG \<Longrightarrow> fdt_open_fds t ! i = 0"
proof -
  note sh = fdt_shapeD [OF assms]
  let ?w = "max_fds t div BITS_PER_LONG"
  have "0 < ?w" using sh(1,2) by linarith
  then have lt: "last_open_word t ?w < ?w" by (rule last_open_word_le)
  then have "(last_open_word t ?w + 1) * 64 \<le> ?w * 64" by (intro mult_right_mono) auto
  then have le: "(last_open_word t ?w + 1) * 64 \<le> max_fds t" using sh(2) by (simp only: mult.commute)
  then have c: "count_open_files t = (last_open_word t ?w + 1) * 64"
    unfolding count_open_files_def using sh(3) by (intro u32_id) simp
  show "BITS_PER_LONG dvd count_open_files t" "BITS_PER_LONG \<le> count_open_files t" "count_open_files t \<le> max_fds t"
    using le by (simp_all only: c) simp_all
  show "fdt_open_fds t ! i = 0" if "count_open_files t div BITS_PER_LONG \<le> i" "i < ?w"
    using last_open_word_zero [of t ?w i] that unfolding c by simp
qed

lemma count_open_files_closed:
  assumes "fdt_ok t" "count_open_files t \<le> n" "n < max_fds t"
  shows "\<not> fd_is_open n t" "fdt_fd t ! n = None"
proof -
  note sh = fdt_ok_shape [OF assms(1)]
  have n: "n div BITS_PER_LONG < max_fds t div BITS_PER_LONG" "n div BITS_PER_LONG < length (fdt_open_fds t)"
    using word_index_less [OF sh assms(3)] fdt_shapeD(6) [OF sh] by auto
  have "fdt_open_fds t ! (n div BITS_PER_LONG) = 0"
    using count_open_files_bounds(4) [OF sh div_le_mono [OF assms(2)] n(1)] .
  then show "\<not> fd_is_open n t" by (simp add: fd_is_open_def test_bit_def)
  with fdt_ok_installed [OF assms(1,3)] show "fdt_fd t ! n = None" by blast
qed

text \<open>
  The copying loop after \<open>k\<close> rounds.  The slots of the new table are uninitialised to begin with,
  so its invariant is stated for the table with all slots empty.
\<close>

definition blank :: "fdtable \<Rightarrow> fdtable" where
  "blank t = t\<lparr>fdt_fd := replicate (max_fds t) None\<rparr>"

lemma blank_fields [simp]:
  "max_fds (blank t) = max_fds t" "fdt_fd (blank t) = replicate (max_fds t) None"
  "fd_is_open n (blank t) = fd_is_open n t" "close_on_exec n (blank t) = close_on_exec n t"
  "blank (t\<lparr>fdt_fd := x\<rparr>) = blank t"
  "blank (raw_clear_open_fd i t) = raw_clear_open_fd i (blank t)"
  by (simp_all add: blank_def fd_is_open_def close_on_exec_def raw_clear_open_fd_def)

lemma dup_fd_loop:
  assumes new: "fdt_ok (blank new)" "length (fdt_fd new) = max_fds new" and k: "k \<le> max_fds new"
    and r: "fold (dup_fd_slot old) [0..<k] (new, h) = (t, h')"
  shows "fdt_ok (blank t)" "max_fds t = max_fds new" "length (fdt_fd t) = max_fds new"
    "\<And>n. n < max_fds new \<Longrightarrow> fdt_fd t ! n = (if n < k then fdt_fd old ! n else fdt_fd new ! n)"
    "\<And>n. fd_is_open n t \<longleftrightarrow> fd_is_open n new \<and> \<not> (n < k \<and> fdt_fd old ! n = None)"
    "\<And>n. close_on_exec n t = close_on_exec n new"
    "\<And>g. f_count (h' g) = f_count (h g) + int (length (filter (\<lambda>n. fdt_fd old ! n = Some g) [0..<k]))"
proof -
  have "fdt_ok (blank t) \<and> max_fds t = max_fds new \<and> length (fdt_fd t) = max_fds new \<and>
    (\<forall>n < max_fds new. fdt_fd t ! n = (if n < k then fdt_fd old ! n else fdt_fd new ! n)) \<and>
    (\<forall>n. fd_is_open n t \<longleftrightarrow> fd_is_open n new \<and> \<not> (n < k \<and> fdt_fd old ! n = None)) \<and>
    (\<forall>n. close_on_exec n t = close_on_exec n new) \<and>
    (\<forall>g. f_count (h' g) = f_count (h g) + int (length (filter (\<lambda>n. fdt_fd old ! n = Some g) [0..<k])))"
    using k r
  proof (induction k arbitrary: t h')
    case 0
    then show ?case using new by simp
  next
    case (Suc k)
    obtain t1 h1 where p: "fold (dup_fd_slot old) [0..<k] (new, h) = (t1, h1)" by fastforce
    note ih = Suc.IH [OF _ p]
    have k: "k < max_fds t1" "k < max_fds new" and t1: "fdt_ok (blank t1)" using ih Suc.prems(1) by auto
    have sh: "fdt_shape (blank t1)" using t1 by auto
    have clr: "fdt_ok (raw_clear_open_fd k (blank t1))"
      using k by (intro fdt_ok_clear_open [OF t1]) simp_all
    have opn: "fd_is_open n (raw_clear_open_fd k t1) \<longleftrightarrow> n \<noteq> k \<and> fd_is_open n t1" for n
      using fd_is_open_clear_open [OF sh, of k n] k(1) by (metis blank_fields(1,3,6))
    have step: "dup_fd_slot old k (t1, h1) = (t, h')" using Suc.prems(2) p by simp
    show ?case
    proof (cases "fdt_fd old ! k")
      case None
      then have "t = (raw_clear_open_fd k t1)\<lparr>fdt_fd := (fdt_fd t1)[k := None]\<rparr>" "h' = h1"
        using step by (auto simp: dup_fd_slot_def fdt_simps)
      then show ?thesis
        using ih Suc.prems(1) None clr by (auto simp: opn fdt_simps nth_list_update_if less_Suc_eq)
    next
      case (Some f)
      then have "t = t1\<lparr>fdt_fd := (fdt_fd t1)[k := Some f]\<rparr>" "h' = get_file f h1"
        using step by (auto simp: dup_fd_slot_def)
      then show ?thesis
        using ih Suc.prems(1) Some t1 by (auto simp: fdt_simps nth_list_update_if less_Suc_eq)
    qed
  qed
  then show "fdt_ok (blank t)" "max_fds t = max_fds new" "length (fdt_fd t) = max_fds new"
    "\<And>n. n < max_fds new \<Longrightarrow> fdt_fd t ! n = (if n < k then fdt_fd old ! n else fdt_fd new ! n)"
    "\<And>n. fd_is_open n t \<longleftrightarrow> fd_is_open n new \<and> \<not> (n < k \<and> fdt_fd old ! n = None)"
    "\<And>n. close_on_exec n t = close_on_exec n new"
    "\<And>g. f_count (h' g) = f_count (h g) + int (length (filter (\<lambda>n. fdt_fd old ! n = Some g) [0..<k]))"
    by blast+
qed


lemma dup_fd_table_cases:
  assumes env: "fs_env_ok E" and old: "fdt_ok (fdt oldf)" and new: "fdt_shape new_fdt"
  obtains (fail) r where "dup_fd_table E new_fdt emb (spin_lock oldf) = Some (Inl r, spin_unlock oldf)"
      "r \<in> {- ENOMEM, - EMFILE}"
  | (table) t emb' where "dup_fd_table E new_fdt emb (spin_lock oldf) = Some (Inr (t, emb'), spin_lock oldf)"
      "fdt_shape t" "count_open_files (fdt oldf) \<le> max_fds t"
proof (cases "max_fds new_fdt < count_open_files (fdt oldf)")
  case False
  with new show thesis by (intro table) (auto simp: dup_fd_table.simps [of E new_fdt])
next
  case True
  let ?c = "count_open_files (fdt oldf)"
  have c: "?c - 1 < 2 ^ 31"
    using count_open_files_bounds(3) [OF fdt_ok_shape [OF old]] fdt_shapeD(3) [OF fdt_ok_shape [OF old]] by simp
  show thesis
  proof (cases "alloc_fdtable E (?c - 1)")
    case None
    with True show thesis by (intro fail) (auto simp: dup_fd_table.simps [of E new_fdt])
  next
    case (Some t)
    show thesis
    proof (cases "max_fds t < ?c")
      case less: True
      with True Some show thesis by (intro fail) (auto simp: dup_fd_table.simps [of E new_fdt])
    next
      case False
      have relock: "spin_lock (spin_unlock (spin_lock oldf)) = spin_lock oldf"
        by (simp add: spin_lock_def spin_unlock_def)
      have "dup_fd_table E t False (spin_lock oldf) = Some (Inr (t, False), spin_lock oldf)"
        using False by (simp add: dup_fd_table.simps [of E t])
      moreover have "dup_fd_table E new_fdt emb (spin_lock oldf) = dup_fd_table E t False (spin_lock oldf)"
        using True False Some by (simp add: dup_fd_table.simps [of E new_fdt] Let_def)
          (simp add: spin_lock_def spin_unlock_def)
      ultimately show thesis
        using False alloc_fdtable_shape(1) [OF env c Some] by (intro table) auto
    qed
  qed
qed

lemma blank_copy_fd_bitmaps:
  assumes n: "fdt_shape new" and o: "fdt_ok old" and le: "count_open_files old \<le> max_fds new"
  shows "fdt_ok (blank (copy_fd_bitmaps new old (count_open_files old)))"
proof -
  note c = count_open_files_bounds [OF fdt_ok_shape [OF o]]
  have "fdt_shape (copy_fd_bitmaps new old (count_open_files old))"
    by (rule fdt_shape_copy_fd_bitmaps [OF n fdt_ok_shape [OF o] c(1,3) le])
  then show ?thesis
    using copy_fd_bitmaps_full [OF n o c(1,3) le c(4)]
    by (simp add: fdt_ok_def fdt_shape_def blank_def fdt_simps)
qed

lemma dup_fd_copy:
  assumes n: "fdt_shape new" and o: "fdt_ok old" and le: "count_open_files old \<le> max_fds new"
    and r: "fold (dup_fd_slot old) [0..<count_open_files old] (copy_fd_bitmaps new old (count_open_files old), h) = (t, h')"
  defines "t' \<equiv> t\<lparr>fdt_fd := take (count_open_files old) (fdt_fd t) @ replicate (max_fds t - count_open_files old) None\<rparr>"
  shows "fdt_ok t'" "descriptors t' = (\<lambda>n. if installed (descriptors old) n then descriptors old n else None)"
    "f_count (h' g) = f_count (h g) + int (fd_refs t' g)"
proof -
  let ?c = "count_open_files old"
  let ?n = "copy_fd_bitmaps new old ?c"
  note c = count_open_files_bounds [OF fdt_ok_shape [OF o]]
  have len: "length (fdt_fd ?n) = max_fds ?n" using fdt_shapeD(4) [OF n] by (simp add: fdt_simps)
  have le': "?c \<le> max_fds ?n" using le by (simp add: fdt_simps)
  note loop = dup_fd_loop [OF blank_copy_fd_bitmaps [OF n o le] len le' r, unfolded copy_fd_bitmaps_fields]
  note bits = copy_fd_bitmaps_bits [OF n fdt_ok_shape [OF o] c(1,3) le]
  have slots: "fdt_fd t' = map ((!) (fdt_fd old)) [0..<?c] @ replicate (max_fds new - ?c) None"
    using loop(2,3,4) le by (auto simp: t'_def intro!: nth_equalityI)
  have slot: "fdt_fd t' ! k = (if k < ?c then fdt_fd old ! k else None)" if "k < max_fds new" for k
    using that by (simp add: slots nth_append)
  have bit: "fd_is_open k t' \<longleftrightarrow> k < ?c \<and> fdt_fd old ! k \<noteq> None"
    "close_on_exec k t' \<longleftrightarrow> k < ?c \<and> close_on_exec k old" if "k < max_fds new" for k
    using that bits [OF that] loop(5,6) [of k] fdt_ok_installed [OF o, of k] c(3) by (auto simp: t'_def fdt_simps)
  have m: "max_fds t' = max_fds new" using loop(2) by (simp add: t'_def)
  have "fdt_ok (t'\<lparr>fdt_fd := replicate (max_fds t') None\<rparr>)"
    using loop(1) by (simp add: t'_def blank_def)
  then show "fdt_ok t'"
    using slot bit(1) m le by (auto simp: fdt_ok_def fdt_shape_def fdt_simps slots)
  show "descriptors t' = (\<lambda>n. if installed (descriptors old) n then descriptors old n else None)"
  proof
    fix k
    show "descriptors t' k = (if installed (descriptors old) k then descriptors old k else None)"
    proof (cases "k < ?c")
      case True
      then have k: "k < max_fds new" "k < max_fds old" using le c(3) by auto
      have "installed (descriptors old) k \<longleftrightarrow> fdt_fd old ! k \<noteq> None"
        using fdt_ok_installed [OF o k(2)] k(2)
        by (cases "fdt_fd old ! k") (auto simp: installed_def descriptors_def)
      with True k bit [OF k(1)] slot [OF k(1)] fdt_ok_installed [OF o k(2)] m show ?thesis
        by (auto simp: descriptors_def)
    next
      case False
      then have "\<not> installed (descriptors old) k"
        using count_open_files_closed(2) [OF o, of k] by (auto simp: installed_def descriptors_def split: if_splits)
      with False bit(1) [of k] m show ?thesis by (auto simp: descriptors_def)
    qed
  qed
  have "fd_refs t' g = length (filter (\<lambda>k. fdt_fd old ! k = Some g) [0..<?c])"
    by (simp add: fd_refs_def slots filter_map comp_def)
  with loop(7) [of g] show "f_count (h' g) = f_count (h g) + int (fd_refs t' g)" by simp
qed

lemma dup_fd_cases:
  assumes env: "fs_env_ok E" and ok: "files_ok oldf"
  obtains (fail) r oldf' where "dup_fd E oldf h = Some (Inl r, oldf', h)" "r \<in> {- ENOMEM, - EMFILE}"
      "fdt oldf' = fdt oldf"
  | (success) newf h' where "dup_fd E oldf h = Some (Inr newf, spin_unlock oldf, h')" "files_ok newf"
      "files_count newf = 1" "\<not> file_lock newf"
      "descriptors (fdt newf) =
         (\<lambda>n. if installed (descriptors (fdt oldf)) n then descriptors (fdt oldf) n else None)"
      "\<And>g. f_count (h' g) = f_count (h g) + int (fd_refs (fdt newf) g)"
proof (cases "kmalloc_ok E Files_obj")
  case False
  then show thesis by (intro fail) (auto simp: dup_fd_def)
next
  case True
  let ?tab = "\<lparr>max_fds = NR_OPEN_DEFAULT, fdt_fd = map (uninit_fd E) [0..<NR_OPEN_DEFAULT],
     fdt_close_on_exec = [uninit_word E 0], fdt_open_fds = [uninit_word E 1], fdt_full_fds_bits = [uninit_word E 2]\<rparr>"
  have tab: "fdt_shape ?tab"
    by (simp add: fdt_shape_def sysctl_nr_open_max_eq BITBIT_NR_def BITS_TO_LONGS_def)
  note o = files_ok_fdt [OF ok]
  from env o tab show thesis
  proof (cases rule: dup_fd_table_cases [where emb = True])
    case (fail r)
    with True show thesis by (intro that(1) [of r "spin_unlock oldf"]) (auto simp: dup_fd_def)
  next
    case (table t emb')
    let ?c = "count_open_files (fdt oldf)"
    obtain t1 h1 where p: "fold (dup_fd_slot (fdt oldf)) [0..<?c] (copy_fd_bitmaps t (fdt oldf) ?c, h) = (t1, h1)"
      by fastforce
    let ?t = "t1\<lparr>fdt_fd := take ?c (fdt_fd t1) @ replicate (max_fds t1 - ?c) None\<rparr>"
    let ?newf = "\<lparr>files_count = 1, resize_in_progress = False, fdt = ?t, fdt_embedded = emb', file_lock = False, next_fd = 0\<rparr>"
    note copy = dup_fd_copy [OF table(2) o table(3) p]
    have "dup_fd E oldf h = Some (Inr ?newf, spin_unlock oldf, h1)"
      using True table(1) p by (simp add: dup_fd_def Let_def)
    then show thesis
      using copy by (intro that(2)) (auto simp: files_ok_def)
  qed
qed

end
