(* ===== verification/Uaccess.thy ===== *)
theory Uaccess 
  imports Prelude
begin

text \<open>
  User memory as \<open>copy_from_user\<close> and \<open>copy_to_user\<close> see it, little-endian integers, and the
  argument structures of the remote requests (\<open>include/linux/ptrace_remote.h\<close>) with their layout on
  x86-64.  The lemmas show that decoding inverts encoding for each structure, so that the kernel
  sees exactly the arguments the tracer laid out, and how copies change user memory.
\<close>

section \<open>Little-endian integers\<close>

fun le_bytes :: "nat \<Rightarrow> nat \<Rightarrow> 8 word list" where
  "le_bytes 0 v = []"
| "le_bytes (Suc n) v = word_of_nat v # le_bytes n (v div 256)"

fun le_nat :: "8 word list \<Rightarrow> nat" where
  "le_nat [] = 0"
| "le_nat (b # bs) = unat b + 256 * le_nat bs"

lemma length_le_bytes [simp]: "length (le_bytes n v) = n"
  by (induction n arbitrary: v) auto

lemma le_nat_le_bytes: "le_nat (le_bytes n v) = v mod 256 ^ n"
proof (induction n arbitrary: v)
  case (Suc n)
  have "unat (word_of_nat v :: 8 word) = v mod 256" by (simp add: unat_of_nat)
  then have "le_nat (le_bytes (Suc n) v) = v mod 256 + 256 * (v div 256 mod 256 ^ n)" using Suc by simp
  also have "\<dots> = v mod (256 * 256 ^ n)" by (simp add: mod_mult2_eq)
  finally show ?case by simp
qed simp

definition put_u64 :: "64 word \<Rightarrow> 8 word list" where "put_u64 w = le_bytes 8 (unat w)"
definition put_u32 :: "32 word \<Rightarrow> 8 word list" where "put_u32 w = le_bytes 4 (unat w)"
definition get_u64 :: "nat \<Rightarrow> 8 word list \<Rightarrow> 64 word" where "get_u64 off bs = word_of_nat (le_nat (take 8 (drop off bs)))"
definition get_u32 :: "nat \<Rightarrow> 8 word list \<Rightarrow> 32 word" where "get_u32 off bs = word_of_nat (le_nat (take 4 (drop off bs)))"

lemma length_put [simp]: "length (put_u64 w) = 8" "length (put_u32 v) = 4"
  by (simp_all add: put_u64_def put_u32_def)

lemma unat_mod_self: "unat (w :: 64 word) mod 18446744073709551616 = unat w" "unat (v :: 32 word) mod 4294967296 = unat v"
proof -
  have "unat w < 2 ^ LENGTH(64)" "unat v < 2 ^ LENGTH(32)" by (rule unsigned_less)+
  then show "unat w mod 18446744073709551616 = unat w" "unat v mod 4294967296 = unat v" by simp_all
qed

lemma get_put_u64: "get_u64 0 (put_u64 w @ bs) = w"
  by (simp add: get_u64_def put_u64_def le_nat_le_bytes unat_mod_self)

lemma get_put_u32: "get_u32 0 (put_u32 w @ bs) = w"
  by (simp add: get_u32_def put_u32_def le_nat_le_bytes unat_mod_self)

lemma get_skip:
  "length xs \<le> off \<Longrightarrow> get_u64 off (xs @ bs) = get_u64 (off - length xs) bs"
  "length xs \<le> off \<Longrightarrow> get_u32 off (xs @ bs) = get_u32 (off - length xs) bs"
  by (simp_all add: get_u64_def get_u32_def)

lemma get_put_last: "get_u64 0 (put_u64 w) = w" "get_u32 0 (put_u32 v) = v"
  using get_put_u64 [of w "[]"] get_put_u32 [of v "[]"] by simp_all

lemmas get_put = get_put_u64 get_put_u32 get_put_last get_skip

section \<open>User memory\<close>

record user_mem =
  um_byte :: "64 word \<Rightarrow> 8 word"
  um_read :: "64 word \<Rightarrow> bool"
  um_write :: "64 word \<Rightarrow> bool"

fun user_bytes :: "user_mem \<Rightarrow> 64 word \<Rightarrow> nat \<Rightarrow> 8 word list" where
  "user_bytes um a 0 = []"
| "user_bytes um a (Suc n) = um_byte um a # user_bytes um (a + 1) n"

fun user_readable :: "user_mem \<Rightarrow> 64 word \<Rightarrow> nat \<Rightarrow> bool" where
  "user_readable um a 0 \<longleftrightarrow> True"
| "user_readable um a (Suc n) \<longleftrightarrow> um_read um a \<and> user_readable um (a + 1) n"

text \<open>
  \<open>None\<close> is a copy that faulted, that is a non-zero number of bytes left.  A copy to user memory
  that faults has already written the bytes before the fault.
\<close>

definition copy_from_user :: "user_mem \<Rightarrow> 64 word \<Rightarrow> nat \<Rightarrow> 8 word list option" where
  "copy_from_user um a n = (if user_readable um a n then Some (user_bytes um a n) else None)"

fun copy_to_user :: "user_mem \<Rightarrow> 64 word \<Rightarrow> 8 word list \<Rightarrow> bool \<times> user_mem" where
  "copy_to_user um a [] = (True, um)"
| "copy_to_user um a (b # bs) =
     (if um_write um a then copy_to_user (um\<lparr>um_byte := (um_byte um)(a := b)\<rparr>) (a + 1) bs else (False, um))"

definition put_user :: "user_mem \<Rightarrow> 64 word \<Rightarrow> 64 word \<Rightarrow> int \<times> user_mem" where
  "put_user um a v = (let (ok, um) = copy_to_user um a (put_u64 v) in (if ok then 0 else - EFAULT, um))"

lemma length_user_bytes [simp]: "length (user_bytes um a n) = n"
  by (induction n arbitrary: a) auto

lemma copy_to_user_access:
  "um_read (snd (copy_to_user um a bs)) = um_read um" "um_write (snd (copy_to_user um a bs)) = um_write um"
  by (induction um a bs rule: copy_to_user.induct) auto

text \<open>A copy changes nothing outside the bytes it was asked to write.\<close>

lemma copy_to_user_outside:
  "(\<And>i. i < length bs \<Longrightarrow> x \<noteq> a + of_nat i) \<Longrightarrow> um_byte (snd (copy_to_user um a bs)) x = um_byte um x"
proof (induction um a bs rule: copy_to_user.induct)
  case (2 um a b bs)
  have "x \<noteq> a" using "2.prems" [of 0] by simp
  moreover have "x \<noteq> a + 1 + of_nat i" if "i < length bs" for i
    using "2.prems" [of "Suc i"] that by (simp add: add.assoc)
  ultimately show ?case using "2.IH" by simp
qed simp

lemma copy_to_user_bytes:
  assumes "length bs \<le> 2 ^ 64"
  shows "fst (copy_to_user um a bs) \<Longrightarrow> user_bytes (snd (copy_to_user um a bs)) a (length bs) = bs"
  using assms
proof (induction um a bs rule: copy_to_user.induct)
  case (2 um a b bs)
  let ?um = "um\<lparr>um_byte := (um_byte um)(a := b)\<rparr>"
  from 2(2) have w: "um_write um a" by (simp split: if_splits)
  have "a \<noteq> a + 1 + of_nat i" if "i < length bs" for i
  proof
    assume "a = a + 1 + of_nat i"
    then have "(of_nat (Suc i) :: 64 word) = 0" by (simp add: add.assoc)
    then have "(2::nat) ^ 64 dvd Suc i" unfolding word_of_nat_eq_0_iff by simp
    moreover have "Suc i < 2 ^ 64" using that 2(3) by simp
    ultimately show False using nat_dvd_not_less by blast
  qed
  then have "um_byte (snd (copy_to_user ?um (a + 1) bs)) a = b"
    by (subst copy_to_user_outside) auto
  with 2 w show ?case by simp
qed simp

section \<open>The argument structures of the remote requests\<close>

record ptrace_remote_mmap_args =
  mmap_addr :: "64 word"
  mmap_length :: "64 word"
  mmap_prot :: "32 word"
  mmap_flags :: "32 word"
  mmap_fd :: "32 word"
  mmap_pad :: "32 word"
  mmap_offset :: "64 word"

record ptrace_remote_munmap_args =
  munmap_addr :: "64 word"
  munmap_length :: "64 word"

record ptrace_remote_mremap_args =
  mremap_old_addr :: "64 word"
  mremap_old_size :: "64 word"
  mremap_new_addr :: "64 word"
  mremap_new_size :: "64 word"
  mremap_flags :: "32 word"
  mremap_pad :: "32 word"

record ptrace_remote_mprotect_args =
  mprotect_addr :: "64 word"
  mprotect_length :: "64 word"
  mprotect_prot :: "32 word"
  mprotect_pad :: "32 word"

record ptrace_dup_to_remote_args =
  dup_to_local_fd :: "32 word"
  dup_to_flags :: "32 word"

record ptrace_dup2_to_remote_args =
  dup2_local_fd :: "32 word"
  dup2_remote_fd :: "32 word"
  dup2_flags :: "32 word"

record ptrace_dup_from_remote_args =
  dup_from_remote_fd :: "32 word"
  dup_from_flags :: "32 word"

record ptrace_remote_close_args =
  close_remote_fd :: "32 word"

definition put_mmap :: "ptrace_remote_mmap_args \<Rightarrow> 8 word list" where
  "put_mmap a = put_u64 (mmap_addr a) @ put_u64 (mmap_length a) @ put_u32 (mmap_prot a) @ put_u32 (mmap_flags a) @
     put_u32 (mmap_fd a) @ put_u32 (mmap_pad a) @ put_u64 (mmap_offset a)"

definition get_mmap :: "8 word list \<Rightarrow> ptrace_remote_mmap_args" where
  "get_mmap bs = \<lparr>mmap_addr = get_u64 0 bs, mmap_length = get_u64 8 bs, mmap_prot = get_u32 16 bs,
     mmap_flags = get_u32 20 bs, mmap_fd = get_u32 24 bs, mmap_pad = get_u32 28 bs, mmap_offset = get_u64 32 bs\<rparr>"

definition put_munmap :: "ptrace_remote_munmap_args \<Rightarrow> 8 word list" where
  "put_munmap a = put_u64 (munmap_addr a) @ put_u64 (munmap_length a)"

definition get_munmap :: "8 word list \<Rightarrow> ptrace_remote_munmap_args" where
  "get_munmap bs = \<lparr>munmap_addr = get_u64 0 bs, munmap_length = get_u64 8 bs\<rparr>"

definition put_mremap :: "ptrace_remote_mremap_args \<Rightarrow> 8 word list" where
  "put_mremap a = put_u64 (mremap_old_addr a) @ put_u64 (mremap_old_size a) @ put_u64 (mremap_new_addr a) @
     put_u64 (mremap_new_size a) @ put_u32 (mremap_flags a) @ put_u32 (mremap_pad a)"

definition get_mremap :: "8 word list \<Rightarrow> ptrace_remote_mremap_args" where
  "get_mremap bs = \<lparr>mremap_old_addr = get_u64 0 bs, mremap_old_size = get_u64 8 bs, mremap_new_addr = get_u64 16 bs,
     mremap_new_size = get_u64 24 bs, mremap_flags = get_u32 32 bs, mremap_pad = get_u32 36 bs\<rparr>"

definition put_mprotect :: "ptrace_remote_mprotect_args \<Rightarrow> 8 word list" where
  "put_mprotect a = put_u64 (mprotect_addr a) @ put_u64 (mprotect_length a) @ put_u32 (mprotect_prot a) @ put_u32 (mprotect_pad a)"

definition get_mprotect :: "8 word list \<Rightarrow> ptrace_remote_mprotect_args" where
  "get_mprotect bs = \<lparr>mprotect_addr = get_u64 0 bs, mprotect_length = get_u64 8 bs,
     mprotect_prot = get_u32 16 bs, mprotect_pad = get_u32 20 bs\<rparr>"

definition put_dup_to :: "ptrace_dup_to_remote_args \<Rightarrow> 8 word list" where
  "put_dup_to a = put_u32 (dup_to_local_fd a) @ put_u32 (dup_to_flags a)"

definition get_dup_to :: "8 word list \<Rightarrow> ptrace_dup_to_remote_args" where
  "get_dup_to bs = \<lparr>dup_to_local_fd = get_u32 0 bs, dup_to_flags = get_u32 4 bs\<rparr>"

definition put_dup2 :: "ptrace_dup2_to_remote_args \<Rightarrow> 8 word list" where
  "put_dup2 a = put_u32 (dup2_local_fd a) @ put_u32 (dup2_remote_fd a) @ put_u32 (dup2_flags a)"

definition get_dup2 :: "8 word list \<Rightarrow> ptrace_dup2_to_remote_args" where
  "get_dup2 bs = \<lparr>dup2_local_fd = get_u32 0 bs, dup2_remote_fd = get_u32 4 bs, dup2_flags = get_u32 8 bs\<rparr>"

definition put_dup_from :: "ptrace_dup_from_remote_args \<Rightarrow> 8 word list" where
  "put_dup_from a = put_u32 (dup_from_remote_fd a) @ put_u32 (dup_from_flags a)"

definition get_dup_from :: "8 word list \<Rightarrow> ptrace_dup_from_remote_args" where
  "get_dup_from bs = \<lparr>dup_from_remote_fd = get_u32 0 bs, dup_from_flags = get_u32 4 bs\<rparr>"

definition put_close :: "ptrace_remote_close_args \<Rightarrow> 8 word list" where
  "put_close a = put_u32 (close_remote_fd a)"

definition get_close :: "8 word list \<Rightarrow> ptrace_remote_close_args" where
  "get_close bs = \<lparr>close_remote_fd = get_u32 0 bs\<rparr>"

text \<open>
  A structure type as its clients use it: a size and a codec whose decoder inverts the encoder.
  \<open>copy_struct\<close> is \<open>copy_from_user(&args, data, sizeof(args))\<close>.
\<close>

definition copy_struct :: "nat \<Rightarrow> (8 word list \<Rightarrow> 'a) \<Rightarrow> user_mem \<Rightarrow> 64 word \<Rightarrow> 'a option" where
  "copy_struct sz get um a = map_option get (copy_from_user um a sz)"

locale user_struct =
  fixes sz :: nat and put :: "'a \<Rightarrow> 8 word list" and get :: "8 word list \<Rightarrow> 'a"
  assumes length_put_struct: "length (put x) = sz"
    and get_put_struct: "get (put x) = x"
    and sz_small: "sz \<le> 2 ^ 32"
begin

lemma put_inject: "put x = put y \<longleftrightarrow> x = y"
  by (metis get_put_struct)

text \<open>The kernel reads back the arguments that were stored.\<close>

lemma copy_struct_stored:
  assumes "copy_to_user um a (put x) = (True, um')" "user_readable um' a sz"
  shows "copy_struct sz get um' a = Some x"
proof -
  have "user_bytes um' a sz = put x"
    using copy_to_user_bytes [of "put x" um a] assms(1) sz_small by (simp add: length_put_struct)
  with assms(2) show ?thesis by (simp add: copy_struct_def copy_from_user_def get_put_struct)
qed

end

interpretation mmap_struct: user_struct 40 put_mmap get_mmap
  by unfold_locales (simp_all add: put_mmap_def get_mmap_def get_put)

interpretation munmap_struct: user_struct 16 put_munmap get_munmap
  by unfold_locales (simp_all add: put_munmap_def get_munmap_def get_put)

interpretation mremap_struct: user_struct 40 put_mremap get_mremap
  by unfold_locales (simp_all add: put_mremap_def get_mremap_def get_put)

interpretation mprotect_struct: user_struct 24 put_mprotect get_mprotect
  by unfold_locales (simp_all add: put_mprotect_def get_mprotect_def get_put)

interpretation dup_to_struct: user_struct 8 put_dup_to get_dup_to
  by unfold_locales (simp_all add: put_dup_to_def get_dup_to_def get_put)

interpretation dup2_struct: user_struct 12 put_dup2 get_dup2
  by unfold_locales (simp_all add: put_dup2_def get_dup2_def get_put)

interpretation dup_from_struct: user_struct 8 put_dup_from get_dup_from
  by unfold_locales (simp_all add: put_dup_from_def get_dup_from_def get_put)

interpretation close_struct: user_struct 4 put_close get_close
  by unfold_locales (simp_all add: put_close_def get_close_def get_put)

end
