(* ===== verification/Mm_Types.thy ===== *)
theory Mm_Types 
  imports Fdtable
begin

text \<open>
  The data of an address space: \<open>struct vm_area_struct\<close> and \<open>struct mm_struct\<close> as far as the
  memory management code under \<open>mm/\<close> and \<open>kernel/ptrace.c\<close> uses them, and the flag constants of
  \<open>include/linux/mm.h\<close>.

  The areas of an address space form a doubly linked list in address order and a search tree over
  the same nodes.  The list is the HOL list \<open>mmap\<close>, so that \<open>vm_next\<close> and \<open>vm_prev\<close> are the
  neighbours in it; \<open>vm_id\<close> stands for the address of an area and the tree \<open>mm_rb\<close> holds these.
\<close>

type_synonym vma_ptr = nat
type_synonym mm_ptr = nat

datatype rb_tree = Rb_null | Rb_node (rb_left: rb_tree) (rb_vma: vma_ptr) (rb_right: rb_tree)

record vm_operations_struct =
  has_close :: bool
  has_mremap :: bool
  has_page_mkwrite :: bool
  has_pfn_mkwrite :: bool

record vm_area_struct =
  vm_id :: vma_ptr
  vm_start :: "64 word"
  vm_end :: "64 word"
  vm_flags :: "64 word"
  vm_pgoff :: "64 word"
  vm_file :: "file_ptr option"
  vm_page_prot :: "64 word"
  anon_vma :: "nat option"
  anon_vma_chain :: "nat list"
  vm_ops :: "vm_operations_struct option"
  vm_policy :: nat
  vm_userfaultfd_ctx :: nat

text \<open>
  Page tables of four levels.  An entry of an upper level is known by what the predicates
  \<open>pgd_none\<close>, \<open>pgd_bad\<close> and so on say of it; a \<open>pmd\<close> may map a huge page.  The entries are indexed by
  the address divided by the size of what they cover, so that the tables of an address space are four
  functions.
\<close>

datatype dir_entry = Dir_none | Dir_bad | Dir_table

datatype pmd_entry = Pmd_none | Pmd_bad | Pmd_huge "64 word" | Pmd_devmap "64 word" | Pmd_table

record pgtables =
  pt_pgd :: "64 word \<Rightarrow> dir_entry"
  pt_pud :: "64 word \<Rightarrow> dir_entry"
  pt_pmd :: "64 word \<Rightarrow> pmd_entry"
  pt_pte :: "64 word \<Rightarrow> 64 word"

text \<open>\<open>mm->get_unmapped_area\<close> is one of the two functions of \<open>mm/mmap.c\<close> with that type.\<close>

datatype area_method = Arch_get_unmapped_area | Arch_get_unmapped_area_topdown

record mm_struct =
  mmap :: "vm_area_struct list"
  mm_rb :: rb_tree
  highest_vm_end :: "64 word"
  map_count :: int
  total_vm :: "64 word"
  locked_vm :: "64 word"
  data_vm :: "64 word"
  exec_vm :: "64 word"
  stack_vm :: "64 word"
  def_flags :: "64 word"
  mm_get_unmapped_area :: area_method
  mmap_base :: "64 word"
  task_size :: "64 word"
  start_data :: "64 word"
  end_data :: "64 word"
  start_brk :: "64 word"
  brk :: "64 word"
  mm_flags :: "64 word"
  mm_user_ns :: nat
  mm_users :: int
  pgd :: pgtables

text \<open>The counters of an inode and its mapping that mappings of the file change.\<close>

record address_space =
  i_writecount :: int
  i_mmap_writable :: int

abbreviation (input) VM_NONE :: "64 word" where "VM_NONE \<equiv> 0"
abbreviation (input) VM_READ :: "64 word" where "VM_READ \<equiv> 0x1"
abbreviation (input) VM_WRITE :: "64 word" where "VM_WRITE \<equiv> 0x2"
abbreviation (input) VM_EXEC :: "64 word" where "VM_EXEC \<equiv> 0x4"
abbreviation (input) VM_SHARED :: "64 word" where "VM_SHARED \<equiv> 0x8"
abbreviation (input) VM_MAYREAD :: "64 word" where "VM_MAYREAD \<equiv> 0x10"
abbreviation (input) VM_MAYWRITE :: "64 word" where "VM_MAYWRITE \<equiv> 0x20"
abbreviation (input) VM_MAYEXEC :: "64 word" where "VM_MAYEXEC \<equiv> 0x40"
abbreviation (input) VM_MAYSHARE :: "64 word" where "VM_MAYSHARE \<equiv> 0x80"
abbreviation (input) VM_GROWSDOWN :: "64 word" where "VM_GROWSDOWN \<equiv> 0x100"
abbreviation (input) VM_PFNMAP :: "64 word" where "VM_PFNMAP \<equiv> 0x400"
abbreviation (input) VM_DENYWRITE :: "64 word" where "VM_DENYWRITE \<equiv> 0x800"
abbreviation (input) VM_LOCKED :: "64 word" where "VM_LOCKED \<equiv> 0x2000"
abbreviation (input) VM_IO :: "64 word" where "VM_IO \<equiv> 0x4000"
abbreviation (input) VM_GROWSUP :: "64 word" where "VM_GROWSUP \<equiv> 0"
abbreviation (input) VM_DONTEXPAND :: "64 word" where "VM_DONTEXPAND \<equiv> 0x40000"
abbreviation (input) VM_LOCKONFAULT :: "64 word" where "VM_LOCKONFAULT \<equiv> 0x80000"
abbreviation (input) VM_ACCOUNT :: "64 word" where "VM_ACCOUNT \<equiv> 0x100000"
abbreviation (input) VM_NORESERVE :: "64 word" where "VM_NORESERVE \<equiv> 0x200000"
abbreviation (input) VM_HUGETLB :: "64 word" where "VM_HUGETLB \<equiv> 0x400000"
abbreviation (input) VM_SOFTDIRTY :: "64 word" where "VM_SOFTDIRTY \<equiv> 0x8000000"
abbreviation (input) VM_MIXEDMAP :: "64 word" where "VM_MIXEDMAP \<equiv> 0x10000000"

abbreviation (input) MMF_DUMPABLE_MASK :: "64 word" where "MMF_DUMPABLE_MASK \<equiv> 3"
abbreviation (input) SUID_DUMP_USER :: "64 word" where "SUID_DUMP_USER \<equiv> 1"

definition raw_get_dumpable :: "64 word \<Rightarrow> 64 word" where
  "raw_get_dumpable flags = flags AND MMF_DUMPABLE_MASK"

definition get_dumpable :: "mm_struct \<Rightarrow> 64 word" where
  "get_dumpable mm = raw_get_dumpable (mm_flags mm)"

end
