(* ===== verification/Task.thy ===== *)
theory Task 
  imports Table_Life Uaccess Mm_Types
begin

text \<open>
  Tasks and the state of the kernel as \<open>kernel/ptrace.c\<close> sees them: the fields of
  \<open>struct task_struct\<close>, \<open>signal_struct\<close> and \<open>sighand_struct\<close> it reads or writes, the small inline
  functions of \<open>include/linux/sched.h\<close>, and the record \<open>ptrace_env\<close> of the functions that are
  defined outside the sources at hand (signal delivery and scheduling, capabilities and security
  hooks, architecture hooks, access to another address space).

  A task pointer is a \<open>tid\<close>; \<open>ptrace_linked\<close> says that the task's \<open>ptrace_entry\<close> is on some list.
  The system call runs in the task \<open>cur\<close>; \<open>umem\<close> is its user memory.  \<open>populated\<close> records the ranges
  of address spaces whose pages the memory management was asked to fault in, the latest last.  A step of the model is atomic,
  so the spinlocks that only exclude other CPUs (\<open>tasklist_lock\<close>, \<open>siglock\<close>, \<open>task_lock\<close>) do not
  appear.
\<close>

section \<open>Constants\<close>

abbreviation (input) TASK_RUNNING :: "64 word" where "TASK_RUNNING \<equiv> 0"
abbreviation (input) raw_TASK_STOPPED :: "64 word" where "raw_TASK_STOPPED \<equiv> 4"
abbreviation (input) raw_TASK_TRACED :: "64 word" where "raw_TASK_TRACED \<equiv> 8"
abbreviation (input) TASK_STOPPED :: "64 word" where "TASK_STOPPED \<equiv> 132"
abbreviation (input) TASK_TRACED :: "64 word" where "TASK_TRACED \<equiv> 136"
abbreviation (input) EXIT_DEAD :: "32 word" where "EXIT_DEAD \<equiv> 16"
abbreviation (input) EXIT_ZOMBIE :: "32 word" where "EXIT_ZOMBIE \<equiv> 32"

abbreviation (input) PF_EXITING :: "32 word" where "PF_EXITING \<equiv> 0x4"
abbreviation (input) PF_KTHREAD :: "32 word" where "PF_KTHREAD \<equiv> 0x200000"
abbreviation (input) SIGNAL_STOP_STOPPED :: "32 word" where "SIGNAL_STOP_STOPPED \<equiv> 1"

abbreviation (input) JOBCTL_STOP_SIGMASK :: "64 word" where "JOBCTL_STOP_SIGMASK \<equiv> 0xffff"
abbreviation (input) JOBCTL_STOP_PENDING :: "64 word" where "JOBCTL_STOP_PENDING \<equiv> 0x20000"
abbreviation (input) JOBCTL_TRAP_STOP :: "64 word" where "JOBCTL_TRAP_STOP \<equiv> 0x80000"
abbreviation (input) JOBCTL_TRAP_NOTIFY :: "64 word" where "JOBCTL_TRAP_NOTIFY \<equiv> 0x100000"
abbreviation (input) JOBCTL_TRAPPING :: "64 word" where "JOBCTL_TRAPPING \<equiv> 0x200000"
abbreviation (input) JOBCTL_LISTENING :: "64 word" where "JOBCTL_LISTENING \<equiv> 0x400000"
abbreviation (input) JOBCTL_TRAP_MASK :: "64 word" where "JOBCTL_TRAP_MASK \<equiv> 0x180000"

abbreviation (input) PT_SEIZED :: "32 word" where "PT_SEIZED \<equiv> 0x10000"
abbreviation (input) PT_PTRACED :: "32 word" where "PT_PTRACED \<equiv> 1"
abbreviation (input) PT_OPT_FLAG_SHIFT :: nat where "PT_OPT_FLAG_SHIFT \<equiv> 3"
abbreviation (input) PTRACE_O_EXITKILL :: "64 word" where "PTRACE_O_EXITKILL \<equiv> 0x100000"
abbreviation (input) PTRACE_O_SUSPEND_SECCOMP :: "64 word" where "PTRACE_O_SUSPEND_SECCOMP \<equiv> 0x200000"
abbreviation (input) PTRACE_O_MASK :: "64 word" where "PTRACE_O_MASK \<equiv> 0x3000ff"
abbreviation (input) PT_EXITKILL :: "32 word" where "PT_EXITKILL \<equiv> 0x800000"
abbreviation (input) PT_SUSPEND_SECCOMP :: "32 word" where "PT_SUSPEND_SECCOMP \<equiv> 0x1000000"

abbreviation (input) PTRACE_MODE_NOAUDIT :: "32 word" where "PTRACE_MODE_NOAUDIT \<equiv> 0x4"
abbreviation (input) PTRACE_MODE_FSCREDS :: "32 word" where "PTRACE_MODE_FSCREDS \<equiv> 0x8"
abbreviation (input) PTRACE_MODE_REALCREDS :: "32 word" where "PTRACE_MODE_REALCREDS \<equiv> 0x10"
abbreviation (input) PTRACE_MODE_ATTACH_REALCREDS :: "32 word" where "PTRACE_MODE_ATTACH_REALCREDS \<equiv> 0x12"

abbreviation (input) SIGKILL :: nat where "SIGKILL \<equiv> 9"
abbreviation (input) SIGCHLD :: nat where "SIGCHLD \<equiv> 17"
abbreviation (input) SIGSTOP :: nat where "SIGSTOP \<equiv> 19"

section \<open>Data\<close>

type_synonym tid = nat
type_synonym siginfo = "8 word list"

record cred =
  cr_uid :: nat
  cr_gid :: nat
  cr_suid :: nat
  cr_sgid :: nat
  cr_euid :: nat
  cr_egid :: nat
  cr_fsuid :: nat
  cr_fsgid :: nat
  cr_user_ns :: nat

record sigpending =
  sp_list :: "siginfo list"
  sp_signal :: "64 word"

record signal_struct =
  sig_flags :: "32 word"
  group_stop_count :: int
  shared_pending :: sigpending

record sighand_struct =
  sigchld_ignored :: bool
  sigchld_nocldwait :: bool

record task_struct =
  t_state :: "64 word"
  t_flags :: "32 word"
  t_ptrace :: "32 word"
  t_jobctl :: "64 word"
  t_exit_state :: "32 word"
  t_exit_code :: "32 word"
  t_exit_signal :: int
  t_usage :: int
  real_parent :: tid
  parent :: tid
  ptraced :: "tid list"
  ptrace_linked :: bool
  ptracer_cred :: "cred option"
  t_cred :: cred
  t_signal :: nat
  t_sighand :: "nat option"
  t_thread_group :: "tid list"
  t_mm :: "mm_ptr option"
  t_files :: files_ptr
  t_pending :: sigpending
  t_blocked :: "64 word"
  last_siginfo :: "siginfo option"
  ptrace_message :: "64 word"
  tif_syscall_trace :: bool
  tif_syscall_emu :: bool
  tif_sigpending :: bool
  t_seccomp_mode :: nat
  personality :: "64 word"

record kstate =
  cur :: tid
  tasks :: "tid \<Rightarrow> task_struct"
  signals :: "nat \<Rightarrow> signal_struct"
  sighands :: "nat \<Rightarrow> sighand_struct"
  files_tab :: files_heap
  fheap :: fheap
  mms :: "mm_ptr \<Rightarrow> mm_struct"
  spaces :: "nat \<Rightarrow> address_space"
  committed_as :: int
  umem :: user_mem
  populated :: "(mm_ptr \<times> 64 word \<times> 64 word) list"

definition upd_task :: "tid \<Rightarrow> (task_struct \<Rightarrow> task_struct) \<Rightarrow> kstate \<Rightarrow> kstate" where
  "upd_task t f k = k\<lparr>tasks := (tasks k)(t := f (tasks k t))\<rparr>"

lemma upd_task_simps [simp, task_simps]:
  "cur (upd_task t f k) = cur k" "signals (upd_task t f k) = signals k" "sighands (upd_task t f k) = sighands k"
  "files_tab (upd_task t f k) = files_tab k" "fheap (upd_task t f k) = fheap k" "mms (upd_task t f k) = mms k"
  "umem (upd_task t f k) = umem k" "populated (upd_task t f k) = populated k" "spaces (upd_task t f k) = spaces k" "committed_as (upd_task t f k) = committed_as k"
  "tasks (upd_task t f k) s = (if s = t then f (tasks k t) else tasks k s)"
  by (simp_all add: upd_task_def)

section \<open>Small functions of sched.h\<close>

definition task_is_traced :: "task_struct \<Rightarrow> bool" where
  "task_is_traced t \<longleftrightarrow> t_state t AND raw_TASK_TRACED \<noteq> 0"

definition task_is_stopped :: "task_struct \<Rightarrow> bool" where
  "task_is_stopped t \<longleftrightarrow> t_state t AND raw_TASK_STOPPED \<noteq> 0"

definition thread_group_leader :: "task_struct \<Rightarrow> bool" where
  "thread_group_leader p \<longleftrightarrow> t_exit_signal p \<ge> 0"

definition same_thread_group :: "task_struct \<Rightarrow> task_struct \<Rightarrow> bool" where
  "same_thread_group p1 p2 \<longleftrightarrow> t_signal p1 = t_signal p2"

definition thread_group_empty :: "task_struct \<Rightarrow> bool" where
  "thread_group_empty p \<longleftrightarrow> t_thread_group p = []"

definition sigismember :: "64 word \<Rightarrow> nat \<Rightarrow> bool" where
  "sigismember s sig \<longleftrightarrow> bit s (sig - 1)"

definition signal_pending :: "task_struct \<Rightarrow> bool" where
  "signal_pending p \<longleftrightarrow> tif_sigpending p"

definition raw_fatal_signal_pending :: "task_struct \<Rightarrow> bool" where
  "raw_fatal_signal_pending p \<longleftrightarrow> sigismember (sp_signal (t_pending p)) SIGKILL"

definition fatal_signal_pending :: "task_struct \<Rightarrow> bool" where
  "fatal_signal_pending p \<longleftrightarrow> signal_pending p \<and> raw_fatal_signal_pending p"

definition valid_signal :: "64 word \<Rightarrow> bool" where
  "valid_signal sig \<longleftrightarrow> sig \<le> 64"

section \<open>What the code relies on\<close>

text \<open>
  One field per function defined elsewhere.  \<open>wait_trapping\<close> is what other CPUs have done by the
  time \<open>wait_on_bit(&task->jobctl, JOBCTL_TRAPPING_BIT, ...)\<close> returns.  The second component of
  \<open>task_set_jobctl_pending\<close> is its result.  \<open>arch_request\<close> is the architecture's own handling in
  \<open>arch_ptrace\<close>: \<open>None\<close> for the requests that it passes on to \<open>ptrace_request\<close>.
\<close>

datatype step_mode = Step_none | Step_single | Step_block

record user_regset =
  core_note_type :: nat
  regset_n :: nat
  regset_size :: nat

record ptrace_env =
  get_task_mm :: "tid \<Rightarrow> kstate \<Rightarrow> mm_ptr option \<times> kstate"
  mmput :: "mm_ptr \<Rightarrow> kstate \<Rightarrow> kstate"
  access_remote_vm :: "tid \<Rightarrow> mm_ptr \<Rightarrow> 64 word \<Rightarrow> 8 word list \<Rightarrow> 32 word \<Rightarrow> kstate \<Rightarrow> int \<times> 8 word list \<times> kstate"
  ptracer_capable :: "tid \<Rightarrow> nat \<Rightarrow> kstate \<Rightarrow> bool"
  has_ns_capability :: "tid \<Rightarrow> nat \<Rightarrow> kstate \<Rightarrow> bool"
  has_ns_capability_noaudit :: "tid \<Rightarrow> nat \<Rightarrow> kstate \<Rightarrow> bool"
  capable_sys_admin :: "kstate \<Rightarrow> bool"
  security_ptrace_access_check :: "tid \<Rightarrow> 32 word \<Rightarrow> kstate \<Rightarrow> int"
  security_ptrace_traceme :: "tid \<Rightarrow> kstate \<Rightarrow> int"
  cred_guard_interrupted :: "tid \<Rightarrow> kstate \<Rightarrow> bool"
  wake_up_state :: "tid \<Rightarrow> 64 word \<Rightarrow> kstate \<Rightarrow> kstate"
  signal_wake_up_state :: "tid \<Rightarrow> 64 word \<Rightarrow> kstate \<Rightarrow> kstate"
  send_sig_forced :: "nat \<Rightarrow> tid \<Rightarrow> kstate \<Rightarrow> kstate"
  task_set_jobctl_pending :: "tid \<Rightarrow> 64 word \<Rightarrow> kstate \<Rightarrow> bool \<times> kstate"
  task_clear_jobctl_pending :: "tid \<Rightarrow> 64 word \<Rightarrow> kstate \<Rightarrow> kstate"
  task_clear_jobctl_trapping :: "tid \<Rightarrow> kstate \<Rightarrow> kstate"
  do_notify_parent :: "tid \<Rightarrow> int \<Rightarrow> kstate \<Rightarrow> bool \<times> kstate"
  wake_up_parent :: "tid \<Rightarrow> tid \<Rightarrow> kstate \<Rightarrow> kstate"
  wait_task_inactive :: "tid \<Rightarrow> 64 word \<Rightarrow> kstate \<Rightarrow> bool"
  wait_trapping :: "tid \<Rightarrow> kstate \<Rightarrow> kstate"
  ptrace_disable :: "tid \<Rightarrow> kstate \<Rightarrow> kstate"
  arch_ptrace_attach :: "tid \<Rightarrow> kstate \<Rightarrow> kstate"
  arch_has_single_step :: bool
  arch_has_block_step :: bool
  arch_set_step :: "step_mode \<Rightarrow> tid \<Rightarrow> kstate \<Rightarrow> kstate"
  arch_request :: "tid \<Rightarrow> int \<Rightarrow> 64 word \<Rightarrow> 64 word \<Rightarrow> kstate \<Rightarrow> (int \<times> kstate) option"
  find_task_by_vpid :: "int \<Rightarrow> kstate \<Rightarrow> tid option"
  user_regset_view :: "tid \<Rightarrow> user_regset list"
  copy_regset :: "bool \<Rightarrow> tid \<Rightarrow> nat \<Rightarrow> 64 word \<Rightarrow> 64 word \<Rightarrow> kstate \<Rightarrow> int \<times> kstate"
  copy_siginfo_to_user :: "64 word \<Rightarrow> siginfo \<Rightarrow> user_mem \<Rightarrow> int \<times> user_mem"
  seccomp_get_filter :: "tid \<Rightarrow> 64 word \<Rightarrow> 64 word \<Rightarrow> kstate \<Rightarrow> int \<times> kstate"
  suspend_seccomp_config :: bool

definition ptrace_signal_wake_up :: "ptrace_env \<Rightarrow> tid \<Rightarrow> bool \<Rightarrow> kstate \<Rightarrow> kstate" where
  "ptrace_signal_wake_up E t resume k = signal_wake_up_state E t (if resume then raw_TASK_TRACED else 0) k"

end
