(* ===== verification/Ptrace.thy ===== *)
theory Ptrace
  imports Task
begin

text \<open>
  \<open>kernel/ptrace.c\<close> up to the dispatch of requests: the links between tracer and tracee, freezing a
  stopped tracee for the duration of a request, permission checks, attaching and detaching, transfer
  of data, options, signal information, resuming and register sets; with the inline functions of
  \<open>include/linux/ptrace.h\<close>.

  The lemmas give the invariant \<open>links_ok\<close> of the tracer/tracee relation and that attaching, being
  traced, detaching and the exit of a tracer keep it, under the assumption \<open>keeps_links\<close> that the
  functions defined elsewhere do not themselves change who traces whom.
\<close>


section \<open>Access to the tracee's memory\<close>

abbreviation (input) FOLL_WRITE :: "32 word" where "FOLL_WRITE \<equiv> 0x01"
abbreviation (input) FOLL_FORCE :: "32 word" where "FOLL_FORCE \<equiv> 0x10"

text \<open>
  \<open>buf\<close> is the kernel buffer, of the length asked for; the result is the number of bytes
  transferred, the buffer afterwards and the state.
\<close>

definition ptrace_access_vm ::
    "ptrace_env \<Rightarrow> tid \<Rightarrow> 64 word \<Rightarrow> 8 word list \<Rightarrow> 32 word \<Rightarrow> kstate \<Rightarrow> int \<times> 8 word list \<times> kstate" where
  "ptrace_access_vm E tsk addr buf gup_flags k =
     (case get_task_mm E tsk k of
        (None, k) \<Rightarrow> (0, buf, k)
      | (Some mm, k) \<Rightarrow>
          if t_ptrace (tasks k tsk) = 0 \<or> cur k \<noteq> parent (tasks k tsk) \<or>
             get_dumpable (mms k mm) \<noteq> SUID_DUMP_USER \<and> \<not> ptracer_capable E tsk (mm_user_ns (mms k mm)) k
          then (0, buf, mmput E mm k)
          else let (ret, buf, k) = access_remote_vm E tsk mm addr buf gup_flags k
               in (ret, buf, mmput E mm k))"

section \<open>Links between tracer and tracee\<close>

text \<open>\<open>None\<close> is a \<open>BUG_ON\<close>.\<close>

definition raw_ptrace_link :: "tid \<Rightarrow> tid \<Rightarrow> kstate \<Rightarrow> kstate option" where
  "raw_ptrace_link child new_parent k =
     (if ptrace_linked (tasks k child) then None
      else
        let k = upd_task child (\<lambda>t. t\<lparr>ptrace_linked := True\<rparr>) k;
            k = upd_task new_parent (\<lambda>t. t\<lparr>ptraced := child # ptraced t\<rparr>) k;
            k = upd_task child (\<lambda>t. t\<lparr>parent := new_parent\<rparr>) k
        in Some (upd_task child (\<lambda>t. t\<lparr>ptracer_cred := Some (t_cred (tasks k new_parent))\<rparr>) k))"

text \<open>\<open>list_del_init\<close> takes the entry off whatever list it is on.\<close>

definition ptrace_list_del :: "tid \<Rightarrow> kstate \<Rightarrow> kstate" where
  "ptrace_list_del child k =
     upd_task child (\<lambda>t. t\<lparr>ptrace_linked := False\<rparr>)
       (k\<lparr>tasks := (\<lambda>t. (tasks k t)\<lparr>ptraced := removeAll child (ptraced (tasks k t))\<rparr>)\<rparr>)"

text \<open>The group stop that a task leaving ptrace has to conform to is made pending again.\<close>

definition reinstate_group_stop :: "tid \<Rightarrow> kstate \<Rightarrow> kstate" where
  "reinstate_group_stop child k =
     (let sig = signals k (t_signal (tasks k child))
      in if t_flags (tasks k child) AND PF_EXITING = 0 \<and>
            (sig_flags sig AND SIGNAL_STOP_STOPPED \<noteq> 0 \<or> group_stop_count sig \<noteq> 0)
         then
           let k = upd_task child (\<lambda>t. t\<lparr>t_jobctl := t_jobctl t OR JOBCTL_STOP_PENDING\<rparr>) k
           in if t_jobctl (tasks k child) AND JOBCTL_STOP_SIGMASK = 0
              then upd_task child (\<lambda>t. t\<lparr>t_jobctl := t_jobctl t OR of_nat SIGSTOP\<rparr>) k
              else k
         else k)"

definition raw_ptrace_unlink :: "ptrace_env \<Rightarrow> tid \<Rightarrow> kstate \<Rightarrow> kstate option" where
  "raw_ptrace_unlink E child k =
     (if t_ptrace (tasks k child) = 0 then None
      else
        let k = upd_task child (\<lambda>t. t\<lparr>tif_syscall_trace := False\<rparr>) k;
            k = upd_task child (\<lambda>t. t\<lparr>parent := real_parent t\<rparr>) k;
            k = ptrace_list_del child k;
            k = upd_task child (\<lambda>t. t\<lparr>ptracer_cred := None\<rparr>) k;
            k = upd_task child (\<lambda>t. t\<lparr>t_ptrace := 0\<rparr>) k;
            k = task_clear_jobctl_pending E child JOBCTL_TRAP_MASK k;
            k = task_clear_jobctl_trapping E child k;
            k = reinstate_group_stop child k
        in Some (if t_jobctl (tasks k child) AND JOBCTL_STOP_PENDING \<noteq> 0 \<or> task_is_traced (tasks k child)
                 then ptrace_signal_wake_up E child True k else k))"

definition ptrace_unlink :: "ptrace_env \<Rightarrow> tid \<Rightarrow> kstate \<Rightarrow> kstate option" where
  "ptrace_unlink E child k = (if t_ptrace (tasks k child) \<noteq> 0 then raw_ptrace_unlink E child k else Some k)"

definition ptrace_parent :: "tid \<Rightarrow> kstate \<Rightarrow> tid option" where
  "ptrace_parent t k = (if t_ptrace (tasks k t) \<noteq> 0 then Some (parent (tasks k t)) else None)"

definition ptrace_reparented :: "tid \<Rightarrow> kstate \<Rightarrow> bool" where
  "ptrace_reparented child k \<longleftrightarrow>
     \<not> same_thread_group (tasks k (real_parent (tasks k child))) (tasks k (parent (tasks k child)))"

definition sigaddset :: "64 word \<Rightarrow> nat \<Rightarrow> 64 word" where
  "sigaddset s sig = s OR push_bit (sig - 1) 1"

definition ptrace_init_task :: "ptrace_env \<Rightarrow> tid \<Rightarrow> bool \<Rightarrow> kstate \<Rightarrow> kstate option" where
  "ptrace_init_task E child ptrace k =
     (let k = upd_task child (\<lambda>t. t\<lparr>ptrace_linked := False, ptraced := [], t_jobctl := 0, t_ptrace := 0,
                                    parent := real_parent t\<rparr>) k
      in if ptrace \<and> t_ptrace (tasks k (cur k)) \<noteq> 0 then do {
           k \<leftarrow> raw_ptrace_link child (parent (tasks k (cur k)))
                  (upd_task child (\<lambda>t. t\<lparr>t_ptrace := t_ptrace (tasks k (cur k))\<rparr>) k);
           let k = (if t_ptrace (tasks k child) AND PT_SEIZED \<noteq> 0
                    then snd (task_set_jobctl_pending E child JOBCTL_TRAP_STOP k)
                    else upd_task child (\<lambda>t. t\<lparr>t_pending := (t_pending t)\<lparr>sp_signal := sigaddset (sp_signal (t_pending t)) SIGSTOP\<rparr>\<rparr>) k)
           in Some (upd_task child (\<lambda>t. t\<lparr>tif_sigpending := True\<rparr>) k)
         }
         else Some k)"

definition ptrace_release_task :: "ptrace_env \<Rightarrow> tid \<Rightarrow> kstate \<Rightarrow> kstate option" where
  "ptrace_release_task E t k =
     (if ptraced (tasks k t) \<noteq> [] then None
      else do { k \<leftarrow> ptrace_unlink E t k;
                if ptrace_linked (tasks k t) then None else Some k })"

section \<open>Freezing a stopped tracee\<close>

definition ptrace_freeze_traced :: "tid \<Rightarrow> kstate \<Rightarrow> bool \<times> kstate" where
  "ptrace_freeze_traced t k =
     (if t_jobctl (tasks k t) AND JOBCTL_LISTENING \<noteq> 0 then (False, k)
      else if task_is_traced (tasks k t) \<and> \<not> raw_fatal_signal_pending (tasks k t)
           then (True, upd_task t (\<lambda>t. t\<lparr>t_state := raw_TASK_TRACED\<rparr>) k)
           else (False, k))"

definition ptrace_unfreeze_traced :: "ptrace_env \<Rightarrow> tid \<Rightarrow> kstate \<Rightarrow> kstate" where
  "ptrace_unfreeze_traced E t k =
     (if t_state (tasks k t) \<noteq> raw_TASK_TRACED then k
      else if raw_fatal_signal_pending (tasks k t) then wake_up_state E t raw_TASK_TRACED k
      else upd_task t (\<lambda>t. t\<lparr>t_state := TASK_TRACED\<rparr>) k)"

definition ptrace_check_attach :: "ptrace_env \<Rightarrow> tid \<Rightarrow> bool \<Rightarrow> kstate \<Rightarrow> int \<times> kstate" where
  "ptrace_check_attach E child ignore_state k =
     (let (ret, k) =
            (if t_ptrace (tasks k child) \<noteq> 0 \<and> parent (tasks k child) = cur k then
               if ignore_state then (0, k)
               else let (frozen, k) = ptrace_freeze_traced child k in (if frozen then 0 else - ESRCH, k)
             else (- ESRCH, k))
      in if ret = 0 \<and> \<not> ignore_state \<and> \<not> wait_task_inactive E child raw_TASK_TRACED k
         then (- ESRCH, k) else (ret, k))"

section \<open>Permission to trace\<close>

definition ptrace_has_cap :: "ptrace_env \<Rightarrow> nat \<Rightarrow> 32 word \<Rightarrow> kstate \<Rightarrow> bool" where
  "ptrace_has_cap E ns mode k =
     (if mode AND PTRACE_MODE_NOAUDIT \<noteq> 0 then has_ns_capability_noaudit E (cur k) ns k
      else has_ns_capability E (cur k) ns k)"

definition raw_ptrace_may_access :: "ptrace_env \<Rightarrow> tid \<Rightarrow> 32 word \<Rightarrow> kstate \<Rightarrow> int" where
  "raw_ptrace_may_access E t mode k =
     (let cred = t_cred (tasks k (cur k)); tcred = t_cred (tasks k t)
      in if (mode AND PTRACE_MODE_FSCREDS = 0) = (mode AND PTRACE_MODE_REALCREDS = 0) then - EPERM
         else if same_thread_group (tasks k t) (tasks k (cur k)) then 0
         else
           let (caller_uid, caller_gid) =
                 (if mode AND PTRACE_MODE_FSCREDS \<noteq> 0 then (cr_fsuid cred, cr_fsgid cred)
                  else (cr_uid cred, cr_gid cred))
           in if (caller_uid = cr_euid tcred \<and> caller_uid = cr_suid tcred \<and> caller_uid = cr_uid tcred \<and>
                  caller_gid = cr_egid tcred \<and> caller_gid = cr_sgid tcred \<and> caller_gid = cr_gid tcred) \<or>
                 ptrace_has_cap E (cr_user_ns tcred) mode k
              then
                case t_mm (tasks k t) of
                  Some mm \<Rightarrow>
                    if get_dumpable (mms k mm) \<noteq> SUID_DUMP_USER \<and> \<not> ptrace_has_cap E (mm_user_ns (mms k mm)) mode k
                    then - EPERM else security_ptrace_access_check E t mode k
                | None \<Rightarrow> security_ptrace_access_check E t mode k
              else - EPERM)"

definition ptrace_may_access :: "ptrace_env \<Rightarrow> tid \<Rightarrow> 32 word \<Rightarrow> kstate \<Rightarrow> bool" where
  "ptrace_may_access E t mode k \<longleftrightarrow> raw_ptrace_may_access E t mode k = 0"


section \<open>Requests\<close>

abbreviation (input) PTRACE_TRACEME :: int where "PTRACE_TRACEME \<equiv> 0"
abbreviation (input) PTRACE_PEEKTEXT :: int where "PTRACE_PEEKTEXT \<equiv> 1"
abbreviation (input) PTRACE_PEEKDATA :: int where "PTRACE_PEEKDATA \<equiv> 2"
abbreviation (input) PTRACE_POKETEXT :: int where "PTRACE_POKETEXT \<equiv> 4"
abbreviation (input) PTRACE_POKEDATA :: int where "PTRACE_POKEDATA \<equiv> 5"
abbreviation (input) PTRACE_CONT :: int where "PTRACE_CONT \<equiv> 7"
abbreviation (input) PTRACE_KILL :: int where "PTRACE_KILL \<equiv> 8"
abbreviation (input) PTRACE_SINGLESTEP :: int where "PTRACE_SINGLESTEP \<equiv> 9"
abbreviation (input) PTRACE_ATTACH :: int where "PTRACE_ATTACH \<equiv> 16"
abbreviation (input) PTRACE_DETACH :: int where "PTRACE_DETACH \<equiv> 17"
abbreviation (input) PTRACE_OLDSETOPTIONS :: int where "PTRACE_OLDSETOPTIONS \<equiv> 21"
abbreviation (input) PTRACE_SYSCALL :: int where "PTRACE_SYSCALL \<equiv> 24"
abbreviation (input) PTRACE_SYSEMU :: int where "PTRACE_SYSEMU \<equiv> 31"
abbreviation (input) PTRACE_SYSEMU_SINGLESTEP :: int where "PTRACE_SYSEMU_SINGLESTEP \<equiv> 32"
abbreviation (input) PTRACE_SINGLEBLOCK :: int where "PTRACE_SINGLEBLOCK \<equiv> 33"
abbreviation (input) PTRACE_SETOPTIONS :: int where "PTRACE_SETOPTIONS \<equiv> 0x4200"
abbreviation (input) PTRACE_GETEVENTMSG :: int where "PTRACE_GETEVENTMSG \<equiv> 0x4201"
abbreviation (input) PTRACE_GETSIGINFO :: int where "PTRACE_GETSIGINFO \<equiv> 0x4202"
abbreviation (input) PTRACE_SETSIGINFO :: int where "PTRACE_SETSIGINFO \<equiv> 0x4203"
abbreviation (input) PTRACE_GETREGSET :: int where "PTRACE_GETREGSET \<equiv> 0x4204"
abbreviation (input) PTRACE_SETREGSET :: int where "PTRACE_SETREGSET \<equiv> 0x4205"
abbreviation (input) PTRACE_SEIZE :: int where "PTRACE_SEIZE \<equiv> 0x4206"
abbreviation (input) PTRACE_INTERRUPT :: int where "PTRACE_INTERRUPT \<equiv> 0x4207"
abbreviation (input) PTRACE_LISTEN :: int where "PTRACE_LISTEN \<equiv> 0x4208"
abbreviation (input) PTRACE_PEEKSIGINFO :: int where "PTRACE_PEEKSIGINFO \<equiv> 0x4209"
abbreviation (input) PTRACE_GETSIGMASK :: int where "PTRACE_GETSIGMASK \<equiv> 0x420a"
abbreviation (input) PTRACE_SETSIGMASK :: int where "PTRACE_SETSIGMASK \<equiv> 0x420b"
abbreviation (input) PTRACE_SECCOMP_GET_FILTER :: int where "PTRACE_SECCOMP_GET_FILTER \<equiv> 0x420c"
abbreviation (input) PTRACE_EVENT_STOP :: int where "PTRACE_EVENT_STOP \<equiv> 128"

section \<open>Attaching\<close>

definition ptrace_attach :: "ptrace_env \<Rightarrow> tid \<Rightarrow> int \<Rightarrow> 64 word \<Rightarrow> 64 word \<Rightarrow> kstate \<Rightarrow> (int \<times> kstate) option" where
  "ptrace_attach E t request addr flags k =
     (let seize = (request = PTRACE_SEIZE)
      in if seize \<and> (addr \<noteq> 0 \<or> flags AND NOT PTRACE_O_MASK \<noteq> 0) then Some (- EIO, k)
         else
           let pt = (if seize then PT_PTRACED OR PT_SEIZED OR ucast (push_bit PT_OPT_FLAG_SHIFT flags) else PT_PTRACED)
           in if t_flags (tasks k t) AND PF_KTHREAD \<noteq> 0 then Some (- EPERM, k)
              else if same_thread_group (tasks k t) (tasks k (cur k)) then Some (- EPERM, k)
              else if cred_guard_interrupted E t k then Some (- ERESTARTNOINTR, k)
              else
                let retval = raw_ptrace_may_access E t PTRACE_MODE_ATTACH_REALCREDS k
                in if retval \<noteq> 0 then Some (retval, k)
                   else if t_exit_state (tasks k t) \<noteq> 0 then Some (- EPERM, k)
                   else if t_ptrace (tasks k t) \<noteq> 0 then Some (- EPERM, k)
                   else do {
                     k \<leftarrow> raw_ptrace_link t (cur k)
                            (upd_task t (\<lambda>s. s\<lparr>t_ptrace := (if seize then pt OR PT_SEIZED else pt)\<rparr>) k);
                     let k = (if seize then k else send_sig_forced E SIGSTOP t k);
                         k = (if task_is_stopped (tasks k t) then
                                let (set, k) = task_set_jobctl_pending E t (JOBCTL_TRAP_STOP OR JOBCTL_TRAPPING) k
                                in if set then signal_wake_up_state E t raw_TASK_STOPPED k else k
                              else k)
                     in Some (0, wait_trapping E t k)
                   })"

definition ptrace_traceme :: "ptrace_env \<Rightarrow> kstate \<Rightarrow> (int \<times> kstate) option" where
  "ptrace_traceme E k =
     (if t_ptrace (tasks k (cur k)) \<noteq> 0 then Some (- EPERM, k)
      else
        let ret = security_ptrace_traceme E (parent (tasks k (cur k))) k
        in if ret = 0 \<and> t_flags (tasks k (real_parent (tasks k (cur k)))) AND PF_EXITING = 0 then do {
             k \<leftarrow> raw_ptrace_link (cur k) (real_parent (tasks k (cur k)))
                    (upd_task (cur k) (\<lambda>t. t\<lparr>t_ptrace := PT_PTRACED\<rparr>) k);
             Some (ret, k)
           }
           else Some (ret, k))"

section \<open>Detaching\<close>

definition ignoring_children :: "sighand_struct \<Rightarrow> bool" where
  "ignoring_children sigh \<longleftrightarrow> sigchld_ignored sigh \<or> sigchld_nocldwait sigh"

definition sighand_of :: "task_struct \<Rightarrow> kstate \<Rightarrow> sighand_struct" where
  "sighand_of t k = (case t_sighand t of Some s \<Rightarrow> sighands k s | None \<Rightarrow> \<lparr>sigchld_ignored = False, sigchld_nocldwait = False\<rparr>)"

definition raw_ptrace_detach :: "ptrace_env \<Rightarrow> tid \<Rightarrow> tid \<Rightarrow> kstate \<Rightarrow> (bool \<times> kstate) option" where
  "raw_ptrace_detach E tracer p k =
     do { k \<leftarrow> raw_ptrace_unlink E p k;
          if t_exit_state (tasks k p) \<noteq> EXIT_ZOMBIE then Some (False, k)
          else
            let dead = (\<not> thread_group_leader (tasks k p));
                (dead, k) =
                  (if \<not> dead \<and> thread_group_empty (tasks k p) then
                     if \<not> same_thread_group (tasks k (real_parent (tasks k p))) (tasks k tracer)
                     then do_notify_parent E p (t_exit_signal (tasks k p)) k
                     else if ignoring_children (sighand_of (tasks k tracer) k)
                     then (True, wake_up_parent E p tracer k)
                     else (dead, k)
                   else (dead, k))
            in Some (dead, if dead then upd_task p (\<lambda>t. t\<lparr>t_exit_state := EXIT_DEAD\<rparr>) k else k) }"

definition ptrace_detach :: "ptrace_env \<Rightarrow> tid \<Rightarrow> 64 word \<Rightarrow> kstate \<Rightarrow> (int \<times> kstate) option" where
  "ptrace_detach E child data k =
     (let data = (ucast data :: 32 word)
      in if \<not> valid_signal (ucast data) then Some (- EIO, k)
         else
           let k = ptrace_disable E child k;
               k = upd_task child (\<lambda>t. t\<lparr>t_exit_code := data\<rparr>) k
           in do { (_, k) \<leftarrow> raw_ptrace_detach E (cur k) child k; Some (0, k) })"

text \<open>The tracees still to be detached are those left of the list the loop walks over.\<close>

fun exit_ptrace_loop :: "ptrace_env \<Rightarrow> tid \<Rightarrow> tid list \<Rightarrow> tid list \<Rightarrow> kstate \<Rightarrow> (tid list \<times> kstate) option" where
  "exit_ptrace_loop E tracer [] dead k = Some (dead, k)"
| "exit_ptrace_loop E tracer (p # ps) dead k =
     do { let k = (if t_ptrace (tasks k p) AND PT_EXITKILL \<noteq> 0 then send_sig_forced E SIGKILL p k else k);
          (d, k) \<leftarrow> raw_ptrace_detach E tracer p k;
          if d then exit_ptrace_loop E tracer ps (p # dead) (upd_task p (\<lambda>t. t\<lparr>ptrace_linked := True\<rparr>) k)
          else exit_ptrace_loop E tracer ps dead k }"

definition exit_ptrace :: "ptrace_env \<Rightarrow> tid \<Rightarrow> tid list \<Rightarrow> kstate \<Rightarrow> (tid list \<times> kstate) option" where
  "exit_ptrace E tracer dead k = exit_ptrace_loop E tracer (ptraced (tasks k tracer)) dead k"

section \<open>Transfer of data\<close>

definition BUF_SIZE :: int where "BUF_SIZE = 128"

partial_function (option) ptrace_readdata_loop ::
    "ptrace_env \<Rightarrow> tid \<Rightarrow> 64 word \<Rightarrow> 64 word \<Rightarrow> int \<Rightarrow> int \<Rightarrow> kstate \<Rightarrow> (int \<times> kstate) option" where
  "ptrace_readdata_loop E tsk src dst len copied k =
     (if len > 0 then
        let this_len = (if len > BUF_SIZE then BUF_SIZE else len);
            (retval, buf, k) = ptrace_access_vm E tsk src (replicate (nat this_len) 0) FOLL_FORCE k
        in if retval = 0 then Some (if copied \<noteq> 0 then copied else - EIO, k)
           else
             let (ok, um) = copy_to_user (umem k) dst (take (nat retval) buf);
                 k = k\<lparr>umem := um\<rparr>
             in if \<not> ok then Some (- EFAULT, k)
                else ptrace_readdata_loop E tsk (src + of_int retval) (dst + of_int retval)
                       (len - retval) (copied + retval) k
      else Some (copied, k))"

declare ptrace_readdata_loop.simps [code]

definition ptrace_readdata :: "ptrace_env \<Rightarrow> tid \<Rightarrow> 64 word \<Rightarrow> 64 word \<Rightarrow> int \<Rightarrow> kstate \<Rightarrow> (int \<times> kstate) option" where
  "ptrace_readdata E tsk src dst len k = ptrace_readdata_loop E tsk src dst len 0 k"

partial_function (option) ptrace_writedata_loop ::
    "ptrace_env \<Rightarrow> tid \<Rightarrow> 64 word \<Rightarrow> 64 word \<Rightarrow> int \<Rightarrow> int \<Rightarrow> kstate \<Rightarrow> (int \<times> kstate) option" where
  "ptrace_writedata_loop E tsk src dst len copied k =
     (if len > 0 then
        let this_len = (if len > BUF_SIZE then BUF_SIZE else len)
        in case copy_from_user (umem k) src (nat this_len) of
             None \<Rightarrow> Some (- EFAULT, k)
           | Some buf \<Rightarrow>
               let (retval, _, k) = ptrace_access_vm E tsk dst buf (FOLL_FORCE OR FOLL_WRITE) k
               in if retval = 0 then Some (if copied \<noteq> 0 then copied else - EIO, k)
                  else ptrace_writedata_loop E tsk (src + of_int retval) (dst + of_int retval)
                         (len - retval) (copied + retval) k
      else Some (copied, k))"

declare ptrace_writedata_loop.simps [code]

definition ptrace_writedata :: "ptrace_env \<Rightarrow> tid \<Rightarrow> 64 word \<Rightarrow> 64 word \<Rightarrow> int \<Rightarrow> kstate \<Rightarrow> (int \<times> kstate) option" where
  "ptrace_writedata E tsk src dst len k = ptrace_writedata_loop E tsk src dst len 0 k"

definition generic_ptrace_peekdata :: "ptrace_env \<Rightarrow> tid \<Rightarrow> 64 word \<Rightarrow> 64 word \<Rightarrow> kstate \<Rightarrow> int \<times> kstate" where
  "generic_ptrace_peekdata E tsk addr data k =
     (let (copied, buf, k) = ptrace_access_vm E tsk addr (replicate 8 0) FOLL_FORCE k
      in if copied \<noteq> 8 then (- EIO, k)
         else let (r, um) = put_user (umem k) data (get_u64 0 buf) in (r, k\<lparr>umem := um\<rparr>))"

definition generic_ptrace_pokedata :: "ptrace_env \<Rightarrow> tid \<Rightarrow> 64 word \<Rightarrow> 64 word \<Rightarrow> kstate \<Rightarrow> int \<times> kstate" where
  "generic_ptrace_pokedata E tsk addr data k =
     (let (copied, _, k) = ptrace_access_vm E tsk addr (put_u64 data) (FOLL_FORCE OR FOLL_WRITE) k
      in (if copied = 8 then 0 else - EIO, k))"

section \<open>Options and signal information\<close>

definition ptrace_setoptions :: "ptrace_env \<Rightarrow> tid \<Rightarrow> 64 word \<Rightarrow> kstate \<Rightarrow> int \<times> kstate" where
  "ptrace_setoptions E child data k =
     (if data AND NOT PTRACE_O_MASK \<noteq> 0 then (- EINVAL, k)
      else if data AND PTRACE_O_SUSPEND_SECCOMP \<noteq> 0 \<and> \<not> suspend_seccomp_config E then (- EINVAL, k)
      else if data AND PTRACE_O_SUSPEND_SECCOMP \<noteq> 0 \<and> \<not> capable_sys_admin E k then (- EPERM, k)
      else if data AND PTRACE_O_SUSPEND_SECCOMP \<noteq> 0 \<and>
              (t_seccomp_mode (tasks k (cur k)) \<noteq> 0 \<or> t_ptrace (tasks k (cur k)) AND PT_SUSPEND_SECCOMP \<noteq> 0)
           then (- EPERM, k)
      else
        let flags = t_ptrace (tasks k child);
            flags = flags AND NOT (ucast (push_bit PT_OPT_FLAG_SHIFT PTRACE_O_MASK));
            flags = flags OR ucast (push_bit PT_OPT_FLAG_SHIFT data)
        in (0, upd_task child (\<lambda>t. t\<lparr>t_ptrace := flags\<rparr>) k))"

definition ptrace_getsiginfo :: "tid \<Rightarrow> kstate \<Rightarrow> int \<times> siginfo option" where
  "ptrace_getsiginfo child k =
     (case t_sighand (tasks k child) of
        None \<Rightarrow> (- ESRCH, None)
      | Some _ \<Rightarrow> (case last_siginfo (tasks k child) of Some info \<Rightarrow> (0, Some info) | None \<Rightarrow> (- EINVAL, None)))"

definition ptrace_setsiginfo :: "tid \<Rightarrow> siginfo \<Rightarrow> kstate \<Rightarrow> int \<times> kstate" where
  "ptrace_setsiginfo child info k =
     (case t_sighand (tasks k child) of
        None \<Rightarrow> (- ESRCH, k)
      | Some _ \<Rightarrow>
          (case last_siginfo (tasks k child) of
             Some _ \<Rightarrow> (0, upd_task child (\<lambda>t. t\<lparr>last_siginfo := Some info\<rparr>) k)
           | None \<Rightarrow> (- EINVAL, k)))"

abbreviation (input) PTRACE_PEEKSIGINFO_SHARED :: "32 word" where "PTRACE_PEEKSIGINFO_SHARED \<equiv> 1"
abbreviation (input) SIZEOF_SIGINFO :: nat where "SIZEOF_SIGINFO \<equiv> 128"

text \<open>
  \<open>struct ptrace_peeksiginfo_args\<close> is a 64-bit offset, 32-bit flags and a signed 32-bit count.  The
  position \<open>s32 off = arg.off + i\<close> is truncated to 32 bits, and the walk over the list finds an
  entry exactly when the truncated position is not negative and less than its length.
\<close>

definition siginfo_si_code :: "siginfo \<Rightarrow> 32 word" where
  "siginfo_si_code info = get_u32 8 info"

definition peek_siginfo_at :: "siginfo list \<Rightarrow> 64 word \<Rightarrow> nat \<Rightarrow> (int \<times> siginfo option)" where
  "peek_siginfo_at pend arg_off i =
     (let off = sint (ucast (arg_off + of_nat i) :: 32 word)
      in if off < 0 then (off - int (length pend), None)
         else if off < int (length pend) then (- 1, Some (pend ! nat off))
         else (off - int (length pend), None))"

text \<open>
  One step of the loop copies one \<open>siginfo_t\<close> out: \<open>copy_siginfo_to_user\<close> and then \<open>si_code\<close> once
  more.  \<open>info\<close> is uninitialised when the truncated position is negative, the case in which the
  walk runs off the end of the list but leaves \<open>off\<close> negative; \<open>stale i\<close> is what it then holds in
  the round \<open>i\<close>.
\<close>

function ptrace_peek_siginfo_loop ::
    "ptrace_env \<Rightarrow> (nat \<Rightarrow> siginfo) \<Rightarrow> siginfo list \<Rightarrow> 64 word \<Rightarrow> nat \<Rightarrow> nat \<Rightarrow> 64 word \<Rightarrow> kstate \<Rightarrow> nat \<times> int \<times> kstate" where
  "ptrace_peek_siginfo_loop E stale pend arg_off nr i data k =
     (if i < nr then
        let (off, found) = peek_siginfo_at pend arg_off i;
            info = (case found of Some x \<Rightarrow> x | None \<Rightarrow> stale i)
        in if off \<ge> 0 then (i, 0, k)
           else
             let (r, um) = copy_siginfo_to_user E data info (umem k)
             in if r \<noteq> 0 then (i, - EFAULT, k\<lparr>umem := um\<rparr>)
                else
                  let (ok, um) = copy_to_user um (data + 8) (put_u32 (siginfo_si_code info));
                      k = k\<lparr>umem := um\<rparr>
                  in if \<not> ok then (i, - EFAULT, k)
                     else if signal_pending (tasks k (cur k)) then (Suc i, 0, k)
                     else ptrace_peek_siginfo_loop E stale pend arg_off nr (Suc i) (data + of_nat SIZEOF_SIGINFO) k
      else (i, 0, k))"
  by pat_completeness auto
termination by (relation "measure (\<lambda>(E, stale, pend, arg_off, nr, i, data, k). nr - i)") auto

declare ptrace_peek_siginfo_loop.simps [simp del]

definition ptrace_peek_siginfo :: "ptrace_env \<Rightarrow> (nat \<Rightarrow> siginfo) \<Rightarrow> tid \<Rightarrow> 64 word \<Rightarrow> 64 word \<Rightarrow> kstate \<Rightarrow> int \<times> kstate" where
  "ptrace_peek_siginfo E stale child addr data k =
     (case copy_from_user (umem k) addr 16 of
        None \<Rightarrow> (- EFAULT, k)
      | Some arg \<Rightarrow>
          let arg_off = get_u64 0 arg; flags = get_u32 8 arg; nr = sint (get_u32 12 arg)
          in if flags AND NOT PTRACE_PEEKSIGINFO_SHARED \<noteq> 0 then (- EINVAL, k)
             else if nr < 0 then (- EINVAL, k)
             else
               let pend = (if flags AND PTRACE_PEEKSIGINFO_SHARED \<noteq> 0
                           then sp_list (shared_pending (signals k (t_signal (tasks k child))))
                           else sp_list (t_pending (tasks k child)));
                   (i, ret, k) = ptrace_peek_siginfo_loop E stale pend arg_off (nat nr) 0 data k
               in (if i > 0 then int i else ret, k))"

section \<open>Resuming\<close>

definition ptrace_resume :: "ptrace_env \<Rightarrow> tid \<Rightarrow> int \<Rightarrow> 64 word \<Rightarrow> kstate \<Rightarrow> int \<times> kstate" where
  "ptrace_resume E child request data k =
     (if \<not> valid_signal data then (- EIO, k)
      else
        let k = upd_task child (\<lambda>t. t\<lparr>tif_syscall_trace := (request = PTRACE_SYSCALL)\<rparr>) k;
            k = upd_task child (\<lambda>t. t\<lparr>tif_syscall_emu := (request = PTRACE_SYSEMU \<or> request = PTRACE_SYSEMU_SINGLESTEP)\<rparr>) k
        in if request = PTRACE_SINGLEBLOCK \<and> \<not> arch_has_block_step E then (- EIO, k)
           else if (request = PTRACE_SINGLESTEP \<or> request = PTRACE_SYSEMU_SINGLESTEP) \<and> \<not> arch_has_single_step E
           then (- EIO, k)
           else
             let step = (if request = PTRACE_SINGLEBLOCK then Step_block
                         else if request = PTRACE_SINGLESTEP \<or> request = PTRACE_SYSEMU_SINGLESTEP then Step_single
                         else Step_none);
                 k = arch_set_step E step child k;
                 k = upd_task child (\<lambda>t. t\<lparr>t_exit_code := ucast data\<rparr>) k
             in (0, wake_up_state E child raw_TASK_TRACED k))"

section \<open>Register sets\<close>

definition find_regset :: "user_regset list \<Rightarrow> nat \<Rightarrow> nat option" where
  "find_regset view type = find (\<lambda>n. core_note_type (view ! n) = type) [0..<length view]"

text \<open>The new \<open>kiov->iov_len\<close> is the second component of the result.\<close>

definition ptrace_regset ::
    "ptrace_env \<Rightarrow> tid \<Rightarrow> int \<Rightarrow> nat \<Rightarrow> 64 word \<Rightarrow> 64 word \<Rightarrow> kstate \<Rightarrow> int \<times> 64 word \<times> kstate" where
  "ptrace_regset E t req type iov_base iov_len k =
     (let view = user_regset_view E t
      in case find_regset view type of
           None \<Rightarrow> (- EINVAL, iov_len, k)
         | Some no \<Rightarrow>
             let regset = view ! no
             in if unat iov_len mod regset_size regset \<noteq> 0 then (- EINVAL, iov_len, k)
                else
                  let iov_len = min iov_len (of_nat (regset_n regset * regset_size regset));
                      (r, k) = copy_regset E (req = PTRACE_GETREGSET) t no iov_len iov_base k
                  in (r, iov_len, k))"


section \<open>Who traces whom\<close>

text \<open>
  A task is on the list \<open>ptraced\<close> of exactly one task, its parent, while it is traced, and on none
  otherwise; its tracer's credentials are recorded exactly while it is traced; an untraced task has
  its real parent as parent.  The flag \<open>PT_PTRACED\<close>, bit 0, is set while any is.  The tasks of \<open>D\<close> are on the list of dead tasks that an exiting tracer
  collects, which uses the same list entry.
\<close>

definition links_except :: "tid set \<Rightarrow> kstate \<Rightarrow> bool" where
  "links_except D k \<longleftrightarrow>
     (\<forall>t. distinct (ptraced (tasks k t))) \<and>
     (\<forall>t c. c \<in> set (ptraced (tasks k t)) \<longleftrightarrow> t_ptrace (tasks k c) \<noteq> 0 \<and> parent (tasks k c) = t) \<and>
     (\<forall>c. c \<notin> D \<longrightarrow> (ptrace_linked (tasks k c) \<longleftrightarrow> t_ptrace (tasks k c) \<noteq> 0)) \<and>
     (\<forall>c. ptracer_cred (tasks k c) \<noteq> None \<longleftrightarrow> t_ptrace (tasks k c) \<noteq> 0) \<and>
     (\<forall>c. t_ptrace (tasks k c) = 0 \<longrightarrow> parent (tasks k c) = real_parent (tasks k c)) \<and>
     (\<forall>c. t_ptrace (tasks k c) \<noteq> 0 \<longrightarrow> bit (t_ptrace (tasks k c)) 0)"

abbreviation links_ok :: "kstate \<Rightarrow> bool" where
  "links_ok k \<equiv> links_except {} k"

definition same_links :: "kstate \<Rightarrow> kstate \<Rightarrow> bool" where
  "same_links k k' \<longleftrightarrow> cur k' = cur k \<and>
     (\<forall>t. ptraced (tasks k' t) = ptraced (tasks k t) \<and> ptrace_linked (tasks k' t) = ptrace_linked (tasks k t) \<and>
        parent (tasks k' t) = parent (tasks k t) \<and> real_parent (tasks k' t) = real_parent (tasks k t) \<and>
        t_ptrace (tasks k' t) = t_ptrace (tasks k t) \<and> ptracer_cred (tasks k' t) = ptracer_cred (tasks k t))"

lemma same_links_refl [simp, intro]: "same_links k k"
  by (simp add: same_links_def)

lemma same_links_trans [trans]: "same_links k1 k2 \<Longrightarrow> same_links k2 k3 \<Longrightarrow> same_links k1 k3"
  by (simp add: same_links_def)

lemma links_ok_same: "same_links k k' \<Longrightarrow> links_except D k' = links_except D k"
  by (simp add: same_links_def links_except_def)

lemma same_links_upd [intro]:
  assumes "\<And>s. ptraced (f s) = ptraced s" "\<And>s. ptrace_linked (f s) = ptrace_linked s" "\<And>s. parent (f s) = parent s"
    "\<And>s. real_parent (f s) = real_parent s" "\<And>s. t_ptrace (f s) = t_ptrace s" "\<And>s. ptracer_cred (f s) = ptracer_cred s"
  shows "same_links k (upd_task t f k)"
  using assms by (simp add: same_links_def)

text \<open>
  None of the functions defined elsewhere changes who traces whom: they deliver signals, wake tasks
  up, set job control bits and program the hardware.
\<close>

definition keeps_links :: "ptrace_env \<Rightarrow> bool" where
  "keeps_links E \<longleftrightarrow>
     (\<forall>t m k. same_links k (wake_up_state E t m k)) \<and>
     (\<forall>t m k. same_links k (signal_wake_up_state E t m k)) \<and>
     (\<forall>n t k. same_links k (send_sig_forced E n t k)) \<and>
     (\<forall>t m k. same_links k (snd (task_set_jobctl_pending E t m k))) \<and>
     (\<forall>t m k. same_links k (task_clear_jobctl_pending E t m k)) \<and>
     (\<forall>t k. same_links k (task_clear_jobctl_trapping E t k)) \<and>
     (\<forall>t s k. same_links k (snd (do_notify_parent E t s k))) \<and>
     (\<forall>t p k. same_links k (wake_up_parent E t p k)) \<and>
     (\<forall>t k. same_links k (wait_trapping E t k)) \<and>
     (\<forall>t k. same_links k (ptrace_disable E t k))"

lemma keeps_linksD:
  assumes "keeps_links E"
  shows "same_links k (wake_up_state E t m k)" "same_links k (signal_wake_up_state E t m k)"
    "same_links k (send_sig_forced E n t k)" "same_links k (snd (task_set_jobctl_pending E t m k))"
    "same_links k (task_clear_jobctl_pending E t m k)" "same_links k (task_clear_jobctl_trapping E t k)"
    "same_links k (snd (do_notify_parent E t s k))" "same_links k (wake_up_parent E t p k)"
    "same_links k (wait_trapping E t k)" "same_links k (ptrace_disable E t k)"
  using assms by (simp_all add: keeps_links_def)

subsection \<open>Linking\<close>

lemma links_ok_linked: "links_ok k \<Longrightarrow> ptrace_linked (tasks k c) \<longleftrightarrow> t_ptrace (tasks k c) \<noteq> 0"
  by (simp add: links_except_def)

lemma raw_ptrace_link_result:
  assumes ok: "links_ok k" and un: "t_ptrace (tasks k child) = 0" and v: "bit v 0"
  obtains k' where "raw_ptrace_link child p (upd_task child (\<lambda>s. s\<lparr>t_ptrace := v\<rparr>) k) = Some k'"
    "links_ok k'" "cur k' = cur k" "t_ptrace (tasks k' child) = v" "parent (tasks k' child) = p"
    "\<And>c. c \<noteq> child \<Longrightarrow> t_ptrace (tasks k' c) = t_ptrace (tasks k c) \<and> parent (tasks k' c) = parent (tasks k c)"
    "\<And>c. real_parent (tasks k' c) = real_parent (tasks k c)"
proof -
  let ?k = "upd_task child (\<lambda>s. s\<lparr>t_ptrace := v\<rparr>) k"
  have nl: "\<not> ptrace_linked (tasks k child)" using ok un by (simp add: links_except_def)
  have none: "child \<notin> set (ptraced (tasks k t))" for t using ok un by (simp add: links_except_def)
  obtain k' where k': "raw_ptrace_link child p ?k = Some k'" using nl by (auto simp: raw_ptrace_link_def Let_def)
  have f: "cur k' = cur k"
    "ptraced (tasks k' t) = (if t = p then child # ptraced (tasks k t) else ptraced (tasks k t))"
    "parent (tasks k' t) = (if t = child then p else parent (tasks k t))"
    "real_parent (tasks k' t) = real_parent (tasks k t)"
    "t_ptrace (tasks k' t) = (if t = child then v else t_ptrace (tasks k t))"
    "ptrace_linked (tasks k' t) = (t = child \<or> ptrace_linked (tasks k t))"
    "(ptracer_cred (tasks k' t) \<noteq> None) = (t = child \<or> ptracer_cred (tasks k t) \<noteq> None)" for t
    using k' nl by (auto simp: raw_ptrace_link_def Let_def split: if_splits)
  have "links_ok k'"
    using ok un v none unfolding links_except_def f by (auto split: if_splits)
  then show thesis by (intro that [OF k']) (auto simp: f)
qed

subsection \<open>Unlinking\<close>

lemma same_links_jobctl: "same_links k (upd_task c (\<lambda>t. t\<lparr>t_jobctl := f t\<rparr>) k)"
  by (rule same_links_upd) simp_all

lemma same_links_reinstate: "same_links k (reinstate_group_stop c k)"
  by (simp add: reinstate_group_stop_def Let_def same_links_def)

lemma raw_ptrace_unlink_result:
  assumes E: "keeps_links E" and ok: "links_except D k" and tr: "t_ptrace (tasks k child) \<noteq> 0"
  obtains k' where "raw_ptrace_unlink E child k = Some k'" "links_except D k'" "cur k' = cur k"
    "t_ptrace (tasks k' child) = 0" "parent (tasks k' child) = real_parent (tasks k child)"
    "\<And>c. real_parent (tasks k' c) = real_parent (tasks k c)"
    "\<And>c. c \<noteq> child \<Longrightarrow> t_ptrace (tasks k' c) = t_ptrace (tasks k c) \<and> parent (tasks k' c) = parent (tasks k c)"
    "\<And>t. ptraced (tasks k' t) = removeAll child (ptraced (tasks k t))"
proof -
  define k1 where "k1 = upd_task child (\<lambda>t. t\<lparr>t_ptrace := 0\<rparr>)
    (upd_task child (\<lambda>t. t\<lparr>ptracer_cred := None\<rparr>)
      (ptrace_list_del child
        (upd_task child (\<lambda>t. t\<lparr>parent := real_parent t\<rparr>) (upd_task child (\<lambda>t. t\<lparr>tif_syscall_trace := False\<rparr>) k))))"
  have f: "cur k1 = cur k" "ptraced (tasks k1 t) = removeAll child (ptraced (tasks k t))"
    "parent (tasks k1 t) = (if t = child then real_parent (tasks k t) else parent (tasks k t))"
    "real_parent (tasks k1 t) = real_parent (tasks k t)"
    "t_ptrace (tasks k1 t) = (if t = child then 0 else t_ptrace (tasks k t))"
    "ptrace_linked (tasks k1 t) = (t \<noteq> child \<and> ptrace_linked (tasks k t))"
    "(ptracer_cred (tasks k1 t) \<noteq> None) = (t \<noteq> child \<and> ptracer_cred (tasks k t) \<noteq> None)" for t
    by (auto simp: k1_def ptrace_list_del_def upd_task_def)
  have ok1: "links_except D k1"
    using ok tr unfolding links_except_def f by (auto simp: distinct_removeAll split: if_splits)
  define k2 where "k2 = task_clear_jobctl_trapping E child (task_clear_jobctl_pending E child JOBCTL_TRAP_MASK k1)"
  have s2: "same_links k1 k2"
    unfolding k2_def using keeps_linksD(5,6) [OF E] by (blast intro: same_links_trans)
  define k3 where "k3 = reinstate_group_stop child k2"
  have s3: "same_links k2 k3" unfolding k3_def by (rule same_links_reinstate)
  have s4: "same_links k3 (ptrace_signal_wake_up E child True k3)"
    unfolding ptrace_signal_wake_up_def by (rule keeps_linksD(2) [OF E])
  define k' where "k' = (if t_jobctl (tasks k3 child) AND JOBCTL_STOP_PENDING \<noteq> 0 \<or> task_is_traced (tasks k3 child)
    then ptrace_signal_wake_up E child True k3 else k3)"
  have k': "raw_ptrace_unlink E child k = Some k'"
    using tr by (simp only: raw_ptrace_unlink_def Let_def k'_def k1_def k2_def k3_def if_False)
  have "same_links k3 k'" using s4 by (simp add: k'_def)
  with s3 have s: "same_links k2 k'" by (blast intro: same_links_trans)
  from s2 s have "same_links k1 k'" by (rule same_links_trans)
  then show thesis
    using ok1 links_ok_same [of k1 k'] f by (intro that [OF k']) (auto simp: same_links_def)
qed


subsection \<open>The operations\<close>

lemma raw_ptrace_detach_result:
  assumes E: "keeps_links E" and ok: "links_except D k" and tr: "t_ptrace (tasks k p) \<noteq> 0"
  obtains dead k' where "raw_ptrace_detach E tracer p k = Some (dead, k')" "links_except D k'" "cur k' = cur k"
    "t_ptrace (tasks k' p) = 0" "parent (tasks k' p) = real_parent (tasks k p)"
    "\<And>c. real_parent (tasks k' c) = real_parent (tasks k c)"
    "\<And>c. c \<noteq> p \<Longrightarrow> t_ptrace (tasks k' c) = t_ptrace (tasks k c) \<and> parent (tasks k' c) = parent (tasks k c)"
    "\<And>t. ptraced (tasks k' t) = removeAll p (ptraced (tasks k t))"
proof -
  obtain k1 where u: "raw_ptrace_unlink E p k = Some k1" "links_except D k1" "cur k1 = cur k"
    "t_ptrace (tasks k1 p) = 0" "parent (tasks k1 p) = real_parent (tasks k p)"
    "\<And>c. real_parent (tasks k1 c) = real_parent (tasks k c)"
    "\<And>c. c \<noteq> p \<Longrightarrow> t_ptrace (tasks k1 c) = t_ptrace (tasks k c) \<and> parent (tasks k1 c) = parent (tasks k c)"
    "\<And>t. ptraced (tasks k1 t) = removeAll p (ptraced (tasks k t))"
    using raw_ptrace_unlink_result [OF E ok tr] by metis
  have ex: "same_links kk (upd_task p (\<lambda>t. t\<lparr>t_exit_state := EXIT_DEAD\<rparr>) kk)" for kk
    by (rule same_links_upd) simp_all
  define q where "q = (if \<not> \<not> thread_group_leader (tasks k1 p) \<and> thread_group_empty (tasks k1 p) then
                     if \<not> same_thread_group (tasks k1 (real_parent (tasks k1 p))) (tasks k1 tracer)
                     then do_notify_parent E p (t_exit_signal (tasks k1 p)) k1
                     else if ignoring_children (sighand_of (tasks k1 tracer) k1)
                     then (True, wake_up_parent E p tracer k1)
                     else (\<not> thread_group_leader (tasks k1 p), k1)
                   else (\<not> thread_group_leader (tasks k1 p), k1))"
  have q: "same_links k1 (snd q)" using keeps_linksD(7,8) [OF E] by (simp add: q_def)
  obtain dead k' where r: "raw_ptrace_detach E tracer p k = Some (dead, k')" and s: "same_links k1 k'"
  proof (cases "t_exit_state (tasks k1 p) = EXIT_ZOMBIE")
    case False
    with u(1) show thesis by (intro that [of False k1]) (simp_all add: raw_ptrace_detach_def)
  next
    case True
    then have d: "raw_ptrace_detach E tracer p k = Some (fst q, if fst q
        then upd_task p (\<lambda>t. t\<lparr>t_exit_state := EXIT_DEAD\<rparr>) (snd q) else snd q)"
      unfolding raw_ptrace_detach_def u(1) q_def by (simp add: Let_def split_beta)
    show thesis using q ex by (intro that [OF d]) (auto intro: same_links_trans)
  qed
  show thesis
    using u s links_ok_same [OF s] by (intro that [OF r]) (auto simp: same_links_def)
qed

lemma ptrace_detach_result:
  assumes E: "keeps_links E" and ok: "links_ok k" and tr: "t_ptrace (tasks k child) \<noteq> 0"
  obtains (bad) "ptrace_detach E child data k = Some (- EIO, k)"
  | (detached) k' where "ptrace_detach E child data k = Some (0, k')" "links_ok k'" "cur k' = cur k"
      "t_ptrace (tasks k' child) = 0" "parent (tasks k' child) = real_parent (tasks k child)"
      "\<And>c. c \<noteq> child \<Longrightarrow> t_ptrace (tasks k' c) = t_ptrace (tasks k c)"
proof (cases "valid_signal (ucast (ucast data :: 32 word))")
  case False
  then show thesis by (intro bad) (simp add: ptrace_detach_def)
next
  case True
  define k0 where "k0 = upd_task child (\<lambda>t. t\<lparr>t_exit_code := ucast data\<rparr>) (ptrace_disable E child k)"
  have s: "same_links k k0"
    unfolding k0_def by (rule same_links_trans [OF keeps_linksD(10) [OF E]]) (rule same_links_upd, simp_all)
  then have k: "links_ok k0" "t_ptrace (tasks k0 child) \<noteq> 0" "cur k0 = cur k"
    using ok tr links_ok_same by (auto simp: same_links_def)
  from raw_ptrace_detach_result [OF E k(1,2), of "cur k0"] obtain dead k' where
    r: "raw_ptrace_detach E (cur k0) child k0 = Some (dead, k')" "links_ok k'" "cur k' = cur k0"
    "t_ptrace (tasks k' child) = 0" "parent (tasks k' child) = real_parent (tasks k0 child)"
    "\<And>c. c \<noteq> child \<Longrightarrow> t_ptrace (tasks k' c) = t_ptrace (tasks k0 c) \<and> parent (tasks k' c) = parent (tasks k0 c)"
    by metis
  have "ptrace_detach E child data k = Some (0, k')"
    using True r(1) unfolding ptrace_detach_def Let_def k0_def [symmetric] by simp
  with r k(3) s show thesis by (intro detached [of k']) (auto simp: same_links_def)
qed

lemma or_and_absorb: "(x OR y) AND y = y" for x y :: "'a::len word"
  by (rule bit_eqI) (auto simp: bit_simps)

lemma bit_nonzero: "bit w n \<Longrightarrow> w \<noteq> 0" for w :: "'a::len word"
  by auto

lemma attach_flags_bit: "bit (PT_PTRACED OR x :: 32 word) 0"
  by (simp add: bit_or_iff)


lemma ptrace_attach_cases:
  assumes E: "keeps_links E" and ok: "links_ok k"
  obtains (refused) r where "ptrace_attach E t request addr flags k = Some (r, k)" "r \<noteq> 0"
  | (attached) k' where "ptrace_attach E t request addr flags k = Some (0, k')" "links_ok k'" "cur k' = cur k"
      "t_ptrace (tasks k t) = 0" "t_ptrace (tasks k' t) \<noteq> 0" "parent (tasks k' t) = cur k"
      "t_ptrace (tasks k' t) AND PT_SEIZED \<noteq> 0 \<longleftrightarrow> request = PTRACE_SEIZE"
      "raw_ptrace_may_access E t PTRACE_MODE_ATTACH_REALCREDS k = 0"
      "t_flags (tasks k t) AND PF_KTHREAD = 0" "t_exit_state (tasks k t) = 0"
      "\<not> same_thread_group (tasks k t) (tasks k (cur k))"
      "\<And>c. c \<noteq> t \<Longrightarrow> t_ptrace (tasks k' c) = t_ptrace (tasks k c) \<and> parent (tasks k' c) = parent (tasks k c)"
proof -
  let ?seize = "request = PTRACE_SEIZE"
  let ?pt = "if ?seize then PT_PTRACED OR PT_SEIZED OR ucast (push_bit PT_OPT_FLAG_SHIFT flags) else PT_PTRACED :: 32 word"
  let ?v = "if ?seize then ?pt OR PT_SEIZED else ?pt"
  show thesis
  proof (cases "\<not> (?seize \<and> (addr \<noteq> 0 \<or> flags AND NOT PTRACE_O_MASK \<noteq> 0)) \<and> t_flags (tasks k t) AND PF_KTHREAD = 0 \<and>
      \<not> same_thread_group (tasks k t) (tasks k (cur k)) \<and> \<not> cred_guard_interrupted E t k \<and>
      raw_ptrace_may_access E t PTRACE_MODE_ATTACH_REALCREDS k = 0 \<and> t_exit_state (tasks k t) = 0 \<and> t_ptrace (tasks k t) = 0")
    case False
    then show thesis
      by (intro refused [of "if ?seize \<and> (addr \<noteq> 0 \<or> flags AND NOT PTRACE_O_MASK \<noteq> 0) then - EIO
          else if t_flags (tasks k t) AND PF_KTHREAD \<noteq> 0 \<or> same_thread_group (tasks k t) (tasks k (cur k)) then - EPERM
          else if cred_guard_interrupted E t k then - ERESTARTNOINTR
          else if raw_ptrace_may_access E t PTRACE_MODE_ATTACH_REALCREDS k \<noteq> 0
          then raw_ptrace_may_access E t PTRACE_MODE_ATTACH_REALCREDS k else - EPERM"])
        (auto simp: ptrace_attach_def Let_def)
  next
    case True
    have vb: "bit ?v 0" using attach_flags_bit by (auto simp: or.assoc)
    then have vne: "?v \<noteq> 0" by (rule bit_nonzero)
    have tr: "t_ptrace (tasks k t) = 0" using True by simp
    obtain k1 where k1: "raw_ptrace_link t (cur k) (upd_task t (\<lambda>s. s\<lparr>t_ptrace := ?v\<rparr>) k) = Some k1"
      "links_ok k1" "cur k1 = cur k" "t_ptrace (tasks k1 t) = ?v" "parent (tasks k1 t) = cur k"
      "\<And>c. c \<noteq> t \<Longrightarrow> t_ptrace (tasks k1 c) = t_ptrace (tasks k c) \<and> parent (tasks k1 c) = parent (tasks k c)"
      using raw_ptrace_link_result [OF ok tr vb, of "cur k"] by metis
    define k2 where "k2 = (if ?seize then k1 else send_sig_forced E SIGSTOP t k1)"
    define q where "q = task_set_jobctl_pending E t (JOBCTL_TRAP_STOP OR JOBCTL_TRAPPING) k2"
    define k3 where "k3 = (if task_is_stopped (tasks k2 t) then
        if fst q then signal_wake_up_state E t raw_TASK_STOPPED (snd q) else snd q else k2)"
    have "same_links k1 k2" using keeps_linksD(3) [OF E] by (simp add: k2_def)
    moreover have "same_links k2 k3"
    proof -
      have "same_links k2 (snd q)" "same_links k2 (signal_wake_up_state E t raw_TASK_STOPPED (snd q))"
        unfolding q_def
        by (rule keeps_linksD(4) [OF E], rule same_links_trans [OF keeps_linksD(4) [OF E] keeps_linksD(2) [OF E]])
      then show ?thesis by (simp add: k3_def)
    qed
    moreover have "same_links k3 (wait_trapping E t k3)" by (rule keeps_linksD(9) [OF E])
    ultimately have s: "same_links k1 (wait_trapping E t k3)" by (blast intro: same_links_trans)
    have eq: "ptrace_attach E t request addr flags k = Some (0, wait_trapping E t k3)"
      using True k1(1) unfolding ptrace_attach_def Let_def k3_def q_def k2_def
      by (simp add: split_beta)
    define v where "v = ?v"
    have sz: "v AND PT_SEIZED \<noteq> 0 \<longleftrightarrow> ?seize" unfolding v_def
      by (simp add: or_and_absorb)
    note facts = k1(2,3,5,6) k1(4) [folded v_def] vne [folded v_def] sz
    show thesis
      by (rule attached [OF eq]) (use True facts s links_ok_same [OF s] in \<open>auto simp: same_links_def\<close>)
  qed
qed


lemma ptrace_traceme_cases:
  assumes ok: "links_ok k"
  obtains (unchanged) r where "ptrace_traceme E k = Some (r, k)"
  | (traced) k' where "ptrace_traceme E k = Some (0, k')" "links_ok k'" "cur k' = cur k"
      "t_ptrace (tasks k (cur k)) = 0" "t_ptrace (tasks k' (cur k)) = PT_PTRACED"
      "parent (tasks k' (cur k)) = real_parent (tasks k (cur k))"
      "\<And>c. c \<noteq> cur k \<Longrightarrow> t_ptrace (tasks k' c) = t_ptrace (tasks k c)"
proof (cases "t_ptrace (tasks k (cur k)) = 0 \<and> security_ptrace_traceme E (parent (tasks k (cur k))) k = 0 \<and>
    t_flags (tasks k (real_parent (tasks k (cur k)))) AND PF_EXITING = 0")
  case False
  then show thesis
    by (intro unchanged [of "if t_ptrace (tasks k (cur k)) \<noteq> 0 then - EPERM
        else security_ptrace_traceme E (parent (tasks k (cur k))) k"]) (auto simp: ptrace_traceme_def Let_def)
next
  case True
  then have tr: "t_ptrace (tasks k (cur k)) = 0" by simp
  from raw_ptrace_link_result [OF ok tr, of PT_PTRACED "real_parent (tasks k (cur k))"] obtain k' where
    k': "raw_ptrace_link (cur k) (real_parent (tasks k (cur k))) (upd_task (cur k) (\<lambda>s. s\<lparr>t_ptrace := PT_PTRACED\<rparr>) k) = Some k'"
    "links_ok k'" "cur k' = cur k" "t_ptrace (tasks k' (cur k)) = PT_PTRACED"
    "parent (tasks k' (cur k)) = real_parent (tasks k (cur k))"
    "\<And>c. c \<noteq> cur k \<Longrightarrow> t_ptrace (tasks k' c) = t_ptrace (tasks k c) \<and> parent (tasks k' c) = parent (tasks k c)"
    by (metis bit_1_0)
  with True show thesis by (intro traced [of k']) (auto simp: ptrace_traceme_def Let_def)
qed

text \<open>A dead task goes on the list of the dead through its own list entry.\<close>

lemma exit_ptrace_loop_result:
  assumes E: "keeps_links E"
  shows "links_except D k \<Longrightarrow> distinct ps \<Longrightarrow> (\<And>p. p \<in> set ps \<Longrightarrow> t_ptrace (tasks k p) \<noteq> 0) \<Longrightarrow>
    \<exists>dead' k'. exit_ptrace_loop E tracer ps dead k = Some (dead', k') \<and> set dead \<subseteq> set dead' \<and>
      set dead' \<subseteq> set dead \<union> set ps \<and> links_except (D \<union> set ps) k' \<and> cur k' = cur k \<and>
      (\<forall>c. t_ptrace (tasks k' c) = (if c \<in> set ps then 0 else t_ptrace (tasks k c))) \<and>
      (\<forall>c. c \<notin> set ps \<longrightarrow> parent (tasks k' c) = parent (tasks k c)) \<and>
      (\<forall>c. c \<in> set ps \<longrightarrow> parent (tasks k' c) = real_parent (tasks k c))"
proof (induction ps arbitrary: dead k D)
  case Nil
  then show ?case by simp
next
  case (Cons p ps)
  define k0 where "k0 = (if t_ptrace (tasks k p) AND PT_EXITKILL \<noteq> 0 then send_sig_forced E SIGKILL p k else k)"
  have s0: "same_links k k0" using keeps_linksD(3) [OF E] by (simp add: k0_def)
  have ok0: "links_except D k0" using Cons.prems(1) links_ok_same [OF s0] by simp
  have tr0: "t_ptrace (tasks k0 p) \<noteq> 0" using Cons.prems(3) [of p] s0 by (simp add: same_links_def)
  obtain d k1 where k1: "raw_ptrace_detach E tracer p k0 = Some (d, k1)" "links_except D k1" "cur k1 = cur k0"
    "t_ptrace (tasks k1 p) = 0" "parent (tasks k1 p) = real_parent (tasks k0 p)"
    "\<And>c. real_parent (tasks k1 c) = real_parent (tasks k0 c)"
    "\<And>c. c \<noteq> p \<Longrightarrow> t_ptrace (tasks k1 c) = t_ptrace (tasks k0 c) \<and> parent (tasks k1 c) = parent (tasks k0 c)"
    using raw_ptrace_detach_result [OF E ok0 tr0, of tracer] by metis
  define k2 where "k2 = (if d then upd_task p (\<lambda>t. t\<lparr>ptrace_linked := True\<rparr>) k1 else k1)"
  have k2: "links_except (insert p D) k2" using k1(2) by (auto simp: k2_def links_except_def)
  have eq2: "cur k2 = cur k" "\<And>c. t_ptrace (tasks k2 c) = (if c = p then 0 else t_ptrace (tasks k c))"
    "\<And>c. parent (tasks k2 c) = (if c = p then real_parent (tasks k c) else parent (tasks k c))"
    "\<And>c. real_parent (tasks k2 c) = real_parent (tasks k c)"
    using k1 s0 by (auto simp: k2_def same_links_def)
  have rec: "exit_ptrace_loop E tracer (p # ps) dead k = exit_ptrace_loop E tracer ps (if d then p # dead else dead) k2"
    using k1(1) by (simp add: k2_def flip: k0_def)
  have tr2: "t_ptrace (tasks k2 q) \<noteq> 0" if "q \<in> set ps" for q
    using that Cons.prems(2,3) by (auto simp: eq2)
  have dist: "distinct ps" using Cons.prems(2) by simp
  obtain dead' k' where r: "exit_ptrace_loop E tracer ps (if d then p # dead else dead) k2 = Some (dead', k')"
    "set (if d then p # dead else dead) \<subseteq> set dead'" "set dead' \<subseteq> set (if d then p # dead else dead) \<union> set ps"
    "links_except (insert p D \<union> set ps) k'" "cur k' = cur k2"
    "\<forall>c. t_ptrace (tasks k' c) = (if c \<in> set ps then 0 else t_ptrace (tasks k2 c))"
    "\<forall>c. c \<notin> set ps \<longrightarrow> parent (tasks k' c) = parent (tasks k2 c)"
    "\<forall>c. c \<in> set ps \<longrightarrow> parent (tasks k' c) = real_parent (tasks k2 c)"
    using Cons.IH [OF k2 dist tr2, of "if d then p # dead else dead"] by blast
  show ?case
    using r Cons.prems(2) eq2 unfolding rec
    by (intro exI [of _ dead'] exI [of _ k']) (auto split: if_splits)
qed


section \<open>Freezing\<close>

text \<open>
  A frozen tracee has state \<open>__TASK_TRACED\<close> without \<open>TASK_WAKEKILL\<close>, so not even a fatal signal
  wakes it up while the request runs.
\<close>

abbreviation frozen :: "task_struct \<Rightarrow> bool" where
  "frozen t \<equiv> t_state t = raw_TASK_TRACED"

lemma ptrace_check_attach_cases:
  assumes "ptrace_check_attach E child ignore_state k = (r, k')"
  obtains (refused) "r = - ESRCH" "k' = k"
  | (ignored) "r = 0" "k' = k" "ignore_state" "t_ptrace (tasks k child) \<noteq> 0" "parent (tasks k child) = cur k"
  | (frozen) "r = 0" "\<not> ignore_state" "k' = upd_task child (\<lambda>t. t\<lparr>t_state := raw_TASK_TRACED\<rparr>) k"
      "t_ptrace (tasks k child) \<noteq> 0" "parent (tasks k child) = cur k" "task_is_traced (tasks k child)"
      "\<not> raw_fatal_signal_pending (tasks k child)" "t_jobctl (tasks k child) AND JOBCTL_LISTENING = 0"
      "wait_task_inactive E child raw_TASK_TRACED k'"
  | (running) "r = - ESRCH" "\<not> ignore_state" "k' = upd_task child (\<lambda>t. t\<lparr>t_state := raw_TASK_TRACED\<rparr>) k"
      "task_is_traced (tasks k child)" "\<not> wait_task_inactive E child raw_TASK_TRACED k'"
  using assms
  by (auto simp: ptrace_check_attach_def ptrace_freeze_traced_def Let_def split: if_splits)

lemma same_links_state: "same_links k (upd_task c (\<lambda>t. t\<lparr>t_state := f t\<rparr>) k)"
  by (rule same_links_upd) simp_all

lemma ptrace_check_attach_links:
  "ptrace_check_attach E child ign k = (r, k') \<Longrightarrow> same_links k k'"
  by (erule ptrace_check_attach_cases) (auto intro: same_links_state)

lemma ptrace_unfreeze_traced_links:
  "keeps_links E \<Longrightarrow> same_links k (ptrace_unfreeze_traced E t k)"
  using keeps_linksD(1) same_links_state by (simp add: ptrace_unfreeze_traced_def)

section \<open>Options\<close>

lemma option_mask_bits:
  "\<not> bit (ucast (push_bit PT_OPT_FLAG_SHIFT PTRACE_O_MASK) :: 32 word) 0"
  "\<not> bit (ucast (push_bit PT_OPT_FLAG_SHIFT PTRACE_O_MASK) :: 32 word) 16"
  by (simp_all add: bit_numeral_rec)

lemma masked_bit: "data AND NOT m = 0 \<Longrightarrow> bit data n \<Longrightarrow> bit m n" for data m :: "64 word"
proof -
  assume a: "data AND NOT m = 0" "bit data n"
  from a(1) have "\<not> bit (data AND NOT m) n" by simp
  moreover have "n < 64" using bit_imp_le_length [OF a(2)] by simp
  ultimately show ?thesis using a(2) by (simp add: bit_simps)
qed

text \<open>
  Setting options replaces exactly the option bits of \<open>task->ptrace\<close>, and they read back as they
  were given.
\<close>

definition set_opt_bits :: "32 word \<Rightarrow> 64 word \<Rightarrow> 32 word" where
  "set_opt_bits old data = (old AND NOT (ucast (push_bit PT_OPT_FLAG_SHIFT PTRACE_O_MASK))) OR
     ucast (push_bit PT_OPT_FLAG_SHIFT data)"

lemma replace_bits:
  fixes old :: "32 word" and m data :: "64 word"
  assumes "data AND NOT m = 0" "n < 32"
  shows "bit ((old AND NOT (ucast (push_bit 3 m))) OR ucast (push_bit 3 data)) n \<longleftrightarrow>
    (if 3 \<le> n \<and> bit m (n - 3) then bit data (n - 3) else bit old n)"
proof -
  have "bit data (n - 3) \<Longrightarrow> bit m (n - 3)" by (rule masked_bit [OF assms(1)])
  with assms(2) show ?thesis
    by (auto simp: bit_or_iff bit_and_iff bit_not_iff bit_ucast_iff bit_push_bit_iff)
qed

lemma set_opt_bits_bit:
  assumes "data AND NOT PTRACE_O_MASK = 0" "n < 32"
  shows "bit (set_opt_bits old data) n \<longleftrightarrow> (if 3 \<le> n \<and> bit PTRACE_O_MASK (n - 3) then bit data (n - 3) else bit old n)"
  unfolding set_opt_bits_def by (rule replace_bits [OF assms])

lemma set_opt_bits_keeps:
  assumes "data AND NOT PTRACE_O_MASK = 0"
  shows "bit (set_opt_bits old data) 0 = bit old 0" "bit (set_opt_bits old data) 16 = bit old 16"
proof -
  have "\<not> bit (PTRACE_O_MASK :: 64 word) 13" by (simp add: bit_numeral_rec)
  then show "bit (set_opt_bits old data) 0 = bit old 0" "bit (set_opt_bits old data) 16 = bit old 16"
    using set_opt_bits_bit [OF assms, of 0 old] set_opt_bits_bit [OF assms, of 16 old] by simp_all
qed

lemma set_opt_bits_read:
  assumes "data AND NOT PTRACE_O_MASK = 0"
  shows "drop_bit PT_OPT_FLAG_SHIFT (ucast (set_opt_bits old data)) AND PTRACE_O_MASK = data"
proof (rule bit_eqI)
  fix n :: nat
  have small: "bit (PTRACE_O_MASK :: 64 word) n \<Longrightarrow> n < 22"
  proof (rule ccontr)
    assume b: "bit (PTRACE_O_MASK :: 64 word) n" and "\<not> n < 22"
    then have "(PTRACE_O_MASK :: 64 word) = take_bit 22 PTRACE_O_MASK" by simp
    with b \<open>\<not> n < 22\<close> show False by (metis bit_take_bit_iff)
  qed
  show "bit (drop_bit PT_OPT_FLAG_SHIFT (ucast (set_opt_bits old data)) AND PTRACE_O_MASK) n = bit data n"
    using small masked_bit [OF assms, of n] set_opt_bits_bit [OF assms, of "3 + n" old]
    by (auto simp: bit_and_iff bit_drop_bit_eq bit_ucast_iff)
qed

lemma ptrace_setoptions_cases:
  obtains (refused) r where "ptrace_setoptions E child data k = (r, k)" "r \<in> {- EINVAL, - EPERM}"
  | (set) "ptrace_setoptions E child data k =
        (0, upd_task child (\<lambda>t. t\<lparr>t_ptrace := set_opt_bits (t_ptrace (tasks k child)) data\<rparr>) k)"
      "data AND NOT PTRACE_O_MASK = 0"
proof (cases "data AND NOT PTRACE_O_MASK = 0 \<and> \<not> (data AND PTRACE_O_SUSPEND_SECCOMP \<noteq> 0 \<and>
    (\<not> suspend_seccomp_config E \<or> \<not> capable_sys_admin E k \<or> t_seccomp_mode (tasks k (cur k)) \<noteq> 0 \<or>
     t_ptrace (tasks k (cur k)) AND PT_SUSPEND_SECCOMP \<noteq> 0))")
  case True
  then show thesis
    by (intro set) (auto simp: ptrace_setoptions_def set_opt_bits_def Let_def simp del: ucast_drop_bit_eq)
next
  case False
  then show thesis
    by (intro refused [of "if data AND NOT PTRACE_O_MASK = 0 \<and> suspend_seccomp_config E then - EPERM else - EINVAL"])
      (auto simp: ptrace_setoptions_def)
qed

lemma links_ok_setoptions:
  assumes "links_ok k" "t_ptrace (tasks k child) \<noteq> 0" "data AND NOT PTRACE_O_MASK = 0"
  shows "links_ok (upd_task child (\<lambda>t. t\<lparr>t_ptrace := set_opt_bits (t_ptrace (tasks k child)) data\<rparr>) k)"
proof -
  have "bit (set_opt_bits (t_ptrace (tasks k child)) data) 0"
    using assms set_opt_bits_keeps(1) [OF assms(3)] by (auto simp: links_except_def)
  moreover from this have "set_opt_bits (t_ptrace (tasks k child)) data \<noteq> 0" by (rule bit_nonzero)
  ultimately show ?thesis using assms(1,2) by (auto simp: links_except_def)
qed

section \<open>Ptrace as a transition system\<close>

text \<open>
  The operations that change the tracer/tracee relation or the state of a tracee, interleaved in
  any order with changes of the running task and with anything else in the system that leaves the
  relation alone.  A request on a tracee runs only after \<open>ptrace_check_attach\<close> has accepted it.
\<close>

inductive ptrace_step :: "ptrace_env \<Rightarrow> kstate \<Rightarrow> kstate \<Rightarrow> bool" for E where
  step_attach: "ptrace_attach E t request addr flags k = Some (r, k') \<Longrightarrow> ptrace_step E k k'"
| step_traceme: "ptrace_traceme E k = Some (r, k') \<Longrightarrow> ptrace_step E k k'"
| step_check: "ptrace_check_attach E c ign k = (r, k') \<Longrightarrow> ptrace_step E k k'"
| step_unfreeze: "ptrace_step E k (ptrace_unfreeze_traced E c k)"
| step_detach: "t_ptrace (tasks k c) \<noteq> 0 \<Longrightarrow> parent (tasks k c) = cur k \<Longrightarrow>
     ptrace_detach E c data k = Some (r, k') \<Longrightarrow> ptrace_step E k k'"
| step_setoptions: "t_ptrace (tasks k c) \<noteq> 0 \<Longrightarrow> parent (tasks k c) = cur k \<Longrightarrow>
     ptrace_setoptions E c data k = (r, k') \<Longrightarrow> ptrace_step E k k'"
| step_schedule: "ptrace_step E k (k\<lparr>cur := t\<rparr>)"
| step_other: "same_links k k' \<Longrightarrow> ptrace_step E k k'"

lemma ptrace_step_links:
  assumes "keeps_links E"
  shows "ptrace_step E k k' \<Longrightarrow> links_ok k \<Longrightarrow> links_ok k'"
proof (induction rule: ptrace_step.induct)
  case (step_attach t request addr flags k r k')
  from ptrace_attach_cases [OF assms step_attach(2), of t request addr flags] step_attach show ?case
    by (metis option.inject prod.inject)
next
  case (step_traceme k r k')
  from ptrace_traceme_cases [OF step_traceme(2), of E] step_traceme show ?case
    by (metis option.inject prod.inject)
next
  case (step_check c ign k r k')
  then show ?case using ptrace_check_attach_links links_ok_same by blast
next
  case (step_unfreeze k c)
  then show ?case using ptrace_unfreeze_traced_links [OF assms] links_ok_same by blast
next
  case (step_detach k c data r k')
  from ptrace_detach_result [OF assms step_detach(4,1), of data] step_detach show ?case
    by (metis option.inject prod.inject)
next
  case (step_setoptions k c data r k')
  show ?case
    by (cases rule: ptrace_setoptions_cases [of E c data k]) (use step_setoptions links_ok_setoptions in auto)
next
  case (step_schedule k t)
  then show ?case by (simp add: links_except_def)
next
  case (step_other k k')
  then show ?case using links_ok_same by blast
qed

end
