(* ===== verification/Page_Tables.thy ===== *)
theory Page_Tables
  imports Mm_Types "HOL-Library.Monad_Syntax"
begin

unbundle bit_operations_syntax

text \<open>
  The walks over page tables of \<open>mm/mprotect.c\<close> and \<open>mm/mremap.c\<close>: \<open>change_protection\<close> sets the
  protection of the entries of a range, \<open>move_page_tables\<close> moves the entries of a range elsewhere.
  The inline functions of \<open>include/linux/mm.h\<close> that allocate missing tables are here as well.

  \<open>pt_env\<close> collects the operations on entries, which the architecture defines, the tests that clear a
  bad entry, the handling of huge pages, and the allocation of tables.  The locks of page tables, the flushing of TLBs and the calls
  of MMU notifiers do not appear.
\<close>

section \<open>Environment\<close>

record pt_env =
  pgd_addr_end :: "64 word \<Rightarrow> 64 word \<Rightarrow> 64 word"
  pud_addr_end :: "64 word \<Rightarrow> 64 word \<Rightarrow> 64 word"
  pmd_addr_end :: "64 word \<Rightarrow> 64 word \<Rightarrow> 64 word"
  pgd_none_or_clear_bad :: "64 word \<Rightarrow> pgtables \<Rightarrow> bool \<times> pgtables"
  pud_none_or_clear_bad :: "64 word \<Rightarrow> pgtables \<Rightarrow> bool \<times> pgtables"
  pmd_none_or_clear_bad :: "64 word \<Rightarrow> pgtables \<Rightarrow> bool \<times> pgtables"
  pmd_trans_unstable :: "64 word \<Rightarrow> pgtables \<Rightarrow> bool \<times> pgtables"
  pte_none :: "64 word \<Rightarrow> bool"
  pte_present :: "64 word \<Rightarrow> bool"
  pte_write :: "64 word \<Rightarrow> bool"
  pte_dirty :: "64 word \<Rightarrow> bool"
  pte_soft_dirty :: "64 word \<Rightarrow> bool"
  pte_protnone :: "64 word \<Rightarrow> bool"
  pte_modify :: "64 word \<Rightarrow> 64 word \<Rightarrow> 64 word"
  pte_mkwrite :: "64 word \<Rightarrow> 64 word"
  pte_mksoft_dirty :: "64 word \<Rightarrow> 64 word"
  is_swap_pte :: "64 word \<Rightarrow> bool"
  pte_swp_soft_dirty :: "64 word \<Rightarrow> bool"
  pte_swp_mksoft_dirty :: "64 word \<Rightarrow> 64 word"
  is_write_migration_entry :: "64 word \<Rightarrow> bool"
  make_migration_entry_read :: "64 word \<Rightarrow> 64 word"
  move_pte :: "64 word \<Rightarrow> 64 word \<Rightarrow> 64 word \<Rightarrow> 64 word \<Rightarrow> 64 word"
  migration_config :: bool
  mem_soft_dirty_config :: bool
  vm_normal_page :: "vm_area_struct \<Rightarrow> 64 word \<Rightarrow> 64 word \<Rightarrow> nat option"
  page_is_ksm :: "nat \<Rightarrow> bool"
  split_huge_pmd :: "64 word \<Rightarrow> pgtables \<Rightarrow> pgtables"
  change_huge_pmd :: "vm_area_struct \<Rightarrow> 64 word \<Rightarrow> 64 word \<Rightarrow> bool \<Rightarrow> pgtables \<Rightarrow> nat \<times> pgtables"
  hugetlb_change_protection :: "vm_area_struct \<Rightarrow> 64 word \<Rightarrow> 64 word \<Rightarrow> 64 word \<Rightarrow> pgtables \<Rightarrow> 64 word \<times> pgtables"
  move_huge_pmd :: "64 word \<Rightarrow> 64 word \<Rightarrow> 64 word \<Rightarrow> pgtables \<Rightarrow> bool \<times> pgtables"
  raw_pud_alloc :: "64 word \<Rightarrow> pgtables \<Rightarrow> int \<times> pgtables"
  raw_pmd_alloc :: "64 word \<Rightarrow> pgtables \<Rightarrow> int \<times> pgtables"
  raw_pte_alloc :: "64 word \<Rightarrow> pgtables \<Rightarrow> int \<times> pgtables"

section \<open>Entries\<close>

abbreviation (input) PAGE_SIZE :: "64 word" where "PAGE_SIZE \<equiv> 0x1000"
abbreviation (input) PMD_SIZE :: "64 word" where "PMD_SIZE \<equiv> 0x200000"
abbreviation (input) PMD_MASK :: "64 word" where "PMD_MASK \<equiv> NOT 0x1fffff"
abbreviation (input) HPAGE_PMD_NR :: nat where "HPAGE_PMD_NR \<equiv> 512"
abbreviation (input) LATENCY_LIMIT :: "64 word" where "LATENCY_LIMIT \<equiv> 0x40000"

definition pgd_at :: "pgtables \<Rightarrow> 64 word \<Rightarrow> dir_entry" where
  "pgd_at pt a = pt_pgd pt (drop_bit 39 a)"

definition pud_at :: "pgtables \<Rightarrow> 64 word \<Rightarrow> dir_entry" where
  "pud_at pt a = pt_pud pt (drop_bit 30 a)"

definition pmd_at :: "pgtables \<Rightarrow> 64 word \<Rightarrow> pmd_entry" where
  "pmd_at pt a = pt_pmd pt (drop_bit 21 a)"

definition pte_slot :: "pgtables \<Rightarrow> 64 word \<Rightarrow> 64 word" where
  "pte_slot pt a = pt_pte pt (drop_bit 12 a)"

definition set_pmd_at :: "64 word \<Rightarrow> pmd_entry \<Rightarrow> pgtables \<Rightarrow> pgtables" where
  "set_pmd_at a e pt = pt\<lparr>pt_pmd := (pt_pmd pt)(drop_bit 21 a := e)\<rparr>"

definition set_pte_at :: "64 word \<Rightarrow> 64 word \<Rightarrow> pgtables \<Rightarrow> pgtables" where
  "set_pte_at a v pt = pt\<lparr>pt_pte := (pt_pte pt)(drop_bit 12 a := v)\<rparr>"

fun pmd_trans_huge :: "pmd_entry \<Rightarrow> bool" where
  "pmd_trans_huge (Pmd_huge _) = True"
| "pmd_trans_huge _ = False"

fun pmd_devmap :: "pmd_entry \<Rightarrow> bool" where
  "pmd_devmap (Pmd_devmap _) = True"
| "pmd_devmap _ = False"

section \<open>Changing the protection of a range\<close>

text \<open>\<open>False\<close> for a \<open>pmd\<close> that has no page table after all.\<close>

definition lock_pte_protection :: "64 word \<Rightarrow> bool \<Rightarrow> pgtables \<Rightarrow> bool" where
  "lock_pte_protection addr prot_numa pt =
     (if \<not> prot_numa then True else \<not> (pmd_trans_huge (pmd_at pt addr) \<or> pmd_at pt addr = Pmd_none))"

text \<open>The new value of an entry, or \<open>None\<close> if it is left alone.\<close>

definition change_pte :: "pt_env \<Rightarrow> vm_area_struct \<Rightarrow> 64 word \<Rightarrow> 64 word \<Rightarrow> bool \<Rightarrow> bool \<Rightarrow> 64 word \<Rightarrow> 64 word option" where
  "change_pte E vma newprot addr dirty_accountable prot_numa oldpte =
     (if pte_present E oldpte then
        let preserve_write = prot_numa \<and> pte_write E oldpte
        in if prot_numa \<and> ((case vm_normal_page E vma addr oldpte of None \<Rightarrow> True | Some page \<Rightarrow> page_is_ksm E page) \<or> pte_protnone E oldpte)
           then None
           else let ptent = pte_modify E oldpte newprot;
                    ptent = (if preserve_write then pte_mkwrite E ptent else ptent);
                    ptent = (if dirty_accountable \<and> pte_dirty E ptent \<and> (pte_soft_dirty E ptent \<or> vm_flags vma AND VM_SOFTDIRTY = 0)
                             then pte_mkwrite E ptent else ptent)
                in Some ptent
      else if migration_config E \<and> is_write_migration_entry E oldpte then
        let newpte = make_migration_entry_read E oldpte
        in Some (if pte_swp_soft_dirty E oldpte then pte_swp_mksoft_dirty E newpte else newpte)
      else None)"

partial_function (option) change_pte_loop ::
    "pt_env \<Rightarrow> vm_area_struct \<Rightarrow> 64 word \<Rightarrow> bool \<Rightarrow> bool \<Rightarrow> 64 word \<Rightarrow> 64 word \<Rightarrow> 64 word \<Rightarrow> pgtables \<Rightarrow> (64 word \<times> pgtables) option" where
  "change_pte_loop E vma newprot dirty_accountable prot_numa end addr pages pt =
     (let (pages, pt) =
        (case change_pte E vma newprot addr dirty_accountable prot_numa (pte_slot pt addr) of
           None \<Rightarrow> (pages, pt)
         | Some v \<Rightarrow> (pages + 1, set_pte_at addr v pt))
      in if addr + PAGE_SIZE \<noteq> end
         then change_pte_loop E vma newprot dirty_accountable prot_numa end (addr + PAGE_SIZE) pages pt
         else Some (pages, pt))"

declare change_pte_loop.simps [code]

definition change_pte_range ::
    "pt_env \<Rightarrow> vm_area_struct \<Rightarrow> 64 word \<Rightarrow> bool \<Rightarrow> bool \<Rightarrow> 64 word \<Rightarrow> 64 word \<Rightarrow> pgtables \<Rightarrow> (64 word \<times> pgtables) option" where
  "change_pte_range E vma newprot dirty_accountable prot_numa addr end pt =
     (if \<not> lock_pte_protection addr prot_numa pt then Some (0, pt)
      else change_pte_loop E vma newprot dirty_accountable prot_numa end addr 0 pt)"

text \<open>One \<open>pmd\<close> of the loop of \<open>change_pmd_range\<close>: the pages changed under it.\<close>

definition change_pmd ::
    "pt_env \<Rightarrow> vm_area_struct \<Rightarrow> 64 word \<Rightarrow> bool \<Rightarrow> bool \<Rightarrow> 64 word \<Rightarrow> 64 word \<Rightarrow> pgtables \<Rightarrow> (64 word \<times> pgtables) option" where
  "change_pmd E vma newprot dirty_accountable prot_numa addr nxt pt =
     (if \<not> pmd_trans_huge (pmd_at pt addr) \<and> \<not> pmd_devmap (pmd_at pt addr) then
        let (none, pt) = pmd_none_or_clear_bad E addr pt
        in if none then Some (0, pt) else change_pte_range E vma newprot dirty_accountable prot_numa addr nxt pt
      else if nxt - addr \<noteq> PMD_SIZE then
        let (unstable, pt) = pmd_trans_unstable E addr (split_huge_pmd E addr pt)
        in if unstable then Some (0, pt) else change_pte_range E vma newprot dirty_accountable prot_numa addr nxt pt
      else
        let (nr_ptes, pt) = change_huge_pmd E vma addr newprot prot_numa pt
        in if nr_ptes \<noteq> 0 then Some (if nr_ptes = HPAGE_PMD_NR then of_nat HPAGE_PMD_NR else 0, pt)
           else change_pte_range E vma newprot dirty_accountable prot_numa addr nxt pt)"

partial_function (option) change_pmd_range ::
    "pt_env \<Rightarrow> vm_area_struct \<Rightarrow> 64 word \<Rightarrow> bool \<Rightarrow> bool \<Rightarrow> 64 word \<Rightarrow> 64 word \<Rightarrow> pgtables \<Rightarrow> (64 word \<times> pgtables) option" where
  "change_pmd_range E vma newprot dirty_accountable prot_numa addr end pt =
     (let nxt = pmd_addr_end E addr end
      in do {
        (this_pages, pt) \<leftarrow> change_pmd E vma newprot dirty_accountable prot_numa addr nxt pt;
        (pages, pt) \<leftarrow> (if nxt \<noteq> end then change_pmd_range E vma newprot dirty_accountable prot_numa nxt end pt else Some (0, pt));
        Some (this_pages + pages, pt)
      })"

declare change_pmd_range.simps [code]

partial_function (option) change_pud_range ::
    "pt_env \<Rightarrow> vm_area_struct \<Rightarrow> 64 word \<Rightarrow> bool \<Rightarrow> bool \<Rightarrow> 64 word \<Rightarrow> 64 word \<Rightarrow> pgtables \<Rightarrow> (64 word \<times> pgtables) option" where
  "change_pud_range E vma newprot dirty_accountable prot_numa addr end pt =
     (let nxt = pud_addr_end E addr end
      in do {
        (this_pages, pt) \<leftarrow>
          (let (none, pt) = pud_none_or_clear_bad E addr pt
           in if none then Some (0, pt) else change_pmd_range E vma newprot dirty_accountable prot_numa addr nxt pt);
        (pages, pt) \<leftarrow> (if nxt \<noteq> end then change_pud_range E vma newprot dirty_accountable prot_numa nxt end pt else Some (0, pt));
        Some (this_pages + pages, pt)
      })"

declare change_pud_range.simps [code]

partial_function (option) change_pgd_range ::
    "pt_env \<Rightarrow> vm_area_struct \<Rightarrow> 64 word \<Rightarrow> bool \<Rightarrow> bool \<Rightarrow> 64 word \<Rightarrow> 64 word \<Rightarrow> pgtables \<Rightarrow> (64 word \<times> pgtables) option" where
  "change_pgd_range E vma newprot dirty_accountable prot_numa addr end pt =
     (let nxt = pgd_addr_end E addr end
      in do {
        (this_pages, pt) \<leftarrow>
          (let (none, pt) = pgd_none_or_clear_bad E addr pt
           in if none then Some (0, pt) else change_pud_range E vma newprot dirty_accountable prot_numa addr nxt pt);
        (pages, pt) \<leftarrow> (if nxt \<noteq> end then change_pgd_range E vma newprot dirty_accountable prot_numa nxt end pt else Some (0, pt));
        Some (this_pages + pages, pt)
      })"

declare change_pgd_range.simps [code]

text \<open>\<open>None\<close> is the \<open>BUG_ON\<close> or a walk that does not end.\<close>

definition change_protection_range ::
    "pt_env \<Rightarrow> vm_area_struct \<Rightarrow> 64 word \<Rightarrow> 64 word \<Rightarrow> 64 word \<Rightarrow> bool \<Rightarrow> bool \<Rightarrow> pgtables \<Rightarrow> (64 word \<times> pgtables) option" where
  "change_protection_range E vma addr end newprot dirty_accountable prot_numa pt =
     (if addr \<ge> end then None else change_pgd_range E vma newprot dirty_accountable prot_numa addr end pt)"

definition change_protection ::
    "pt_env \<Rightarrow> vm_area_struct \<Rightarrow> 64 word \<Rightarrow> 64 word \<Rightarrow> 64 word \<Rightarrow> bool \<Rightarrow> bool \<Rightarrow> pgtables \<Rightarrow> (64 word \<times> pgtables) option" where
  "change_protection E vma start end newprot dirty_accountable prot_numa pt =
     (if vm_flags vma AND VM_HUGETLB \<noteq> 0 then Some (hugetlb_change_protection E vma start end newprot pt)
      else change_protection_range E vma start end newprot dirty_accountable prot_numa pt)"

section \<open>Allocating tables\<close>

definition pud_alloc :: "pt_env \<Rightarrow> 64 word \<Rightarrow> pgtables \<Rightarrow> bool \<times> pgtables" where
  "pud_alloc E address pt =
     (if pgd_at pt address = Dir_none then let (err, pt) = raw_pud_alloc E address pt in (err = 0, pt) else (True, pt))"

definition pmd_alloc :: "pt_env \<Rightarrow> 64 word \<Rightarrow> pgtables \<Rightarrow> bool \<times> pgtables" where
  "pmd_alloc E address pt =
     (if pud_at pt address = Dir_none then let (err, pt) = raw_pmd_alloc E address pt in (err = 0, pt) else (True, pt))"

text \<open>As in the source, the first component says that the allocation failed.\<close>

definition pte_alloc :: "pt_env \<Rightarrow> 64 word \<Rightarrow> pgtables \<Rightarrow> bool \<times> pgtables" where
  "pte_alloc E address pt =
     (if pmd_at pt address = Pmd_none then let (err, pt) = raw_pte_alloc E address pt in (err \<noteq> 0, pt) else (False, pt))"

section \<open>Moving the entries of a range\<close>

definition get_old_pmd :: "pt_env \<Rightarrow> 64 word \<Rightarrow> pgtables \<Rightarrow> bool \<times> pgtables" where
  "get_old_pmd E addr pt =
     (let (none, pt) = pgd_none_or_clear_bad E addr pt
      in if none then (False, pt)
         else let (none, pt) = pud_none_or_clear_bad E addr pt
              in if none then (False, pt) else (pmd_at pt addr \<noteq> Pmd_none, pt))"

definition alloc_new_pmd :: "pt_env \<Rightarrow> 64 word \<Rightarrow> pgtables \<Rightarrow> bool \<times> pgtables" where
  "alloc_new_pmd E addr pt = (let (pud, pt) = pud_alloc E addr pt in if \<not> pud then (False, pt) else pmd_alloc E addr pt)"

definition move_soft_dirty_pte :: "pt_env \<Rightarrow> 64 word \<Rightarrow> 64 word" where
  "move_soft_dirty_pte E pte =
     (if mem_soft_dirty_config E then
        if pte_present E pte then pte_mksoft_dirty E pte
        else if is_swap_pte E pte then pte_swp_mksoft_dirty E pte else pte
      else pte)"

partial_function (option) move_ptes ::
    "pt_env \<Rightarrow> 64 word \<Rightarrow> 64 word \<Rightarrow> 64 word \<Rightarrow> 64 word \<Rightarrow> pgtables \<Rightarrow> pgtables option" where
  "move_ptes E new_prot old_end old_addr new_addr pt =
     (if old_addr < old_end then
        let pte = pte_slot pt old_addr;
            pt = (if pte_none E pte then pt
                  else let pt = set_pte_at old_addr 0 pt;
                           pte = move_pte E pte new_prot old_addr new_addr;
                           pte = move_soft_dirty_pte E pte
                       in set_pte_at new_addr pte pt)
        in move_ptes E new_prot old_end (old_addr + PAGE_SIZE) (new_addr + PAGE_SIZE) pt
      else Some pt)"

declare move_ptes.simps [code]

text \<open>
  One turn of the loop of \<open>move_page_tables\<close>: the extent that has been dealt with, or \<open>None\<close> for the
  \<open>break\<close> when a table for the new place cannot be allocated.
\<close>

definition move_extent ::
    "pt_env \<Rightarrow> vm_area_struct \<Rightarrow> 64 word \<Rightarrow> 64 word \<Rightarrow> 64 word \<Rightarrow> pgtables \<Rightarrow> (64 word option \<times> pgtables) option" where
  "move_extent E new_vma old_end old_addr new_addr pt =
     (let extent = ((old_addr + PMD_SIZE) AND PMD_MASK) - old_addr;
          extent = (if extent > old_end - old_addr then old_end - old_addr else extent);
          (old_pmd, pt) = get_old_pmd E old_addr pt
      in if \<not> old_pmd then Some (Some extent, pt)
         else
           let (new_pmd, pt) = alloc_new_pmd E new_addr pt
           in if \<not> new_pmd then Some (None, pt)
              else
                let (skip, pt) =
                  (if pmd_trans_huge (pmd_at pt old_addr) then
                     let (moved, pt) = (if extent = PMD_SIZE then move_huge_pmd E old_addr new_addr old_end pt else (False, pt))
                     in if moved then (True, pt) else pmd_trans_unstable E old_addr (split_huge_pmd E old_addr pt)
                   else (False, pt))
                in if skip then Some (Some extent, pt)
                   else
                     let (failed, pt) = pte_alloc E new_addr pt
                     in if failed then Some (None, pt)
                        else
                          let room = ((new_addr + PMD_SIZE) AND PMD_MASK) - new_addr;
                              extent = (if extent > room then room else extent);
                              extent = (if extent > LATENCY_LIMIT then LATENCY_LIMIT else extent)
                          in do { pt \<leftarrow> move_ptes E (vm_page_prot new_vma) (old_addr + extent) old_addr new_addr pt; Some (Some extent, pt) })"

partial_function (option) move_extents ::
    "pt_env \<Rightarrow> vm_area_struct \<Rightarrow> 64 word \<Rightarrow> 64 word \<Rightarrow> 64 word \<Rightarrow> pgtables \<Rightarrow> (64 word \<times> pgtables) option" where
  "move_extents E new_vma old_end old_addr new_addr pt =
     (if old_addr < old_end then do {
        (r, pt) \<leftarrow> move_extent E new_vma old_end old_addr new_addr pt;
        (case r of
           None \<Rightarrow> Some (old_addr, pt)
         | Some extent \<Rightarrow> move_extents E new_vma old_end (old_addr + extent) (new_addr + extent) pt)
      }
      else Some (old_addr, pt))"

declare move_extents.simps [code]

definition move_page_tables ::
    "pt_env \<Rightarrow> 64 word \<Rightarrow> vm_area_struct \<Rightarrow> 64 word \<Rightarrow> 64 word \<Rightarrow> pgtables \<Rightarrow> (64 word \<times> pgtables) option" where
  "move_page_tables E old_addr new_vma new_addr len pt = do {
     let old_end = old_addr + len;
     (old_addr, pt) \<leftarrow> move_extents E new_vma old_end old_addr new_addr pt;
     Some (len + old_addr - old_end, pt)
   }"

end
