(* ===== verification/Vma.thy ===== *)
theory Vma
  imports Task Page_Tables
begin

text \<open>
  The list and the search tree of the areas of an address space (\<open>mm/mmap.c\<close>, \<open>mm/util.c\<close>): looking
  an address up, finding the place of a new area, linking and unlinking areas, and the accounting of
  pages.

  \<open>mm_env\<close> collects what the code under \<open>mm/\<close> calls and these sources do not define.  The calls that
  work on page tables, on the reverse mappings of pages (the interval trees of an \<open>anon_vma\<close> or of a
  file), on uprobes, huge pages, perf events, or that only tell a driver (\<open>vm_ops->open\<close>,
  \<open>vm_ops->close\<close>) change nothing that the model has and do not appear.  \<open>rb_subtree_gap\<close> is not
  stored: it is always what \<open>vma_compute_subtree_gap\<close> computes, so \<open>vma_gap_update\<close> does not appear
  either.
\<close>

section \<open>State and environment\<close>

text \<open>
  The state the memory management works on: one address space, the files and the counters of their
  mappings.  \<open>st_cur\<close> is the address space of the current task if that is not the one worked on.
\<close>

record mmst =
  st_mm :: mm_struct
  st_cur :: "mm_struct option"
  st_heap :: fheap
  st_spaces :: "nat \<Rightarrow> address_space"
  vm_committed_as :: int

definition cur_mm :: "mmst \<Rightarrow> mm_struct" where
  "cur_mm s = (case st_cur s of None \<Rightarrow> st_mm s | Some m \<Rightarrow> m)"

record mm_env =
  vfs :: fs_env
  pgt :: pt_env
  f_mapping :: "file_ptr \<Rightarrow> nat"
  rb_insert_color :: "vma_ptr \<Rightarrow> rb_tree \<Rightarrow> rb_tree"
  rb_erase_augmented :: "vma_ptr \<Rightarrow> rb_tree \<Rightarrow> rb_tree"
  vmacache_find :: "mm_struct \<Rightarrow> 64 word \<Rightarrow> vma_ptr option"
  kmem_cache_alloc :: "mmst \<Rightarrow> vma_ptr option"
  vma_dup_policy :: "vm_area_struct \<Rightarrow> int \<times> nat"
  mpol_equal :: "nat \<Rightarrow> nat \<Rightarrow> bool"
  anon_vma_clone :: "vm_area_struct \<Rightarrow> vm_area_struct \<Rightarrow> int \<times> vm_area_struct"
  anon_vma_prepare :: "vm_area_struct \<Rightarrow> int \<times> vm_area_struct"
  is_hugepage_only_range :: "64 word \<Rightarrow> 64 word \<Rightarrow> bool"
  huge_page_mask :: "vm_area_struct \<Rightarrow> 64 word"
  sysctl_max_map_count :: int
  TASK_SIZE :: "64 word"
  TASK_UNMAPPED_BASE :: "64 word"
  rlimit_as :: "64 word"
  rlimit_data :: "64 word"
  rlimit_max_data :: "64 word"
  rlimit_memlock :: "64 word"
  rlimit_stack :: "64 word"
  ignore_rlimit_data :: bool
  capable_ipc_lock :: bool
  security_vm_enough_memory_mm :: "mmst \<Rightarrow> 64 word \<Rightarrow> int \<times> mmst"
  protection_map :: "64 word \<Rightarrow> 64 word"
  arch_vm_get_page_prot :: "64 word \<Rightarrow> 64 word"
  pgprot_modify :: "64 word \<Rightarrow> 64 word \<Rightarrow> 64 word"
  soft_dirty_config :: bool
  mapping_cap_account_dirty :: "nat \<Rightarrow> bool"
  unmap_vmas :: "64 word \<Rightarrow> 64 word \<Rightarrow> pgtables \<Rightarrow> pgtables"
  free_pgtables :: "vm_area_struct list \<Rightarrow> mmst \<Rightarrow> mmst"
  mmap_sem_killed :: bool
  arch_mmap_check :: "64 word \<Rightarrow> 64 word \<Rightarrow> 64 word \<Rightarrow> 64 word"
  security_mmap_addr :: "64 word \<Rightarrow> int"
  security_mmap_file :: "file_ptr option \<Rightarrow> 64 word \<Rightarrow> 64 word \<Rightarrow> int"
  execute_only_pkey :: "mm_struct \<Rightarrow> int"
  calc_vm_prot_bits :: "64 word \<Rightarrow> int \<Rightarrow> 64 word"
  calc_vm_flag_bits :: "64 word \<Rightarrow> 64 word"
  can_do_mlock :: bool
  path_noexec :: "file_ptr \<Rightarrow> bool"
  is_append :: "nat \<Rightarrow> bool"
  locks_verify_locked :: "file_ptr \<Rightarrow> int"
  is_file_hugepages :: "file_ptr \<Rightarrow> bool"
  huge_page_size :: "file_ptr \<Rightarrow> 64 word"
  hstate_sizelog :: "64 word \<Rightarrow> 64 word option"
  hugetlb_file_setup :: "64 word \<Rightarrow> 64 word \<Rightarrow> fheap \<Rightarrow> (int + file_ptr) \<times> fheap"
  has_f_op_mmap :: "file_ptr \<Rightarrow> bool"
  f_op_mmap :: "file_ptr \<Rightarrow> vm_area_struct \<Rightarrow> int \<times> vm_area_struct"
  f_op_get_unmapped_area :: "file_ptr \<Rightarrow> (mm_struct \<Rightarrow> 64 word \<Rightarrow> 64 word \<Rightarrow> 64 word \<Rightarrow> 64 word \<Rightarrow> 64 word) option"
  shmem_get_unmapped_area :: "mm_struct \<Rightarrow> 64 word \<Rightarrow> 64 word \<Rightarrow> 64 word \<Rightarrow> 64 word \<Rightarrow> 64 word"
  shmem_zero_setup :: "vm_area_struct \<Rightarrow> mmst \<Rightarrow> int \<times> vm_area_struct \<times> mmst"
  deny_write_access :: "address_space \<Rightarrow> int \<times> address_space"
  mapping_map_writable :: "address_space \<Rightarrow> int \<times> address_space"
  overcommit_never :: bool
  VM_DATA_DEFAULT_FLAGS :: "64 word"
  mmap_min_addr :: "64 word"
  arch_validate_prot :: "64 word \<Rightarrow> bool"
  mm_pkey_is_allocated :: "mm_struct \<Rightarrow> int \<Rightarrow> bool"
  mm_pkey_alloc :: "mm_struct \<Rightarrow> int \<times> mm_struct"
  mm_pkey_free :: "mm_struct \<Rightarrow> int \<Rightarrow> int \<times> mm_struct"
  arch_set_user_pkey_access :: "int \<Rightarrow> 64 word \<Rightarrow> int"
  arch_override_mprotect_pkey :: "vm_area_struct \<Rightarrow> 64 word \<Rightarrow> int \<Rightarrow> int"
  arch_vm_pkey_flags :: "64 word"
  security_file_mprotect :: "vm_area_struct \<Rightarrow> 64 word \<Rightarrow> 64 word \<Rightarrow> int"
  ksm_madvise :: "vm_area_struct \<Rightarrow> 64 word \<Rightarrow> 64 word \<Rightarrow> 64 word \<Rightarrow> pgtables \<Rightarrow> int \<times> 64 word \<times> pgtables"
  vm_ops_mremap :: "vm_area_struct \<Rightarrow> int"

section \<open>Pages\<close>

definition PAGE_ALIGN :: "64 word \<Rightarrow> 64 word" where
  "PAGE_ALIGN a = (a + 0xfff) AND NOT 0xfff"

definition offset_in_page :: "64 word \<Rightarrow> 64 word" where
  "offset_in_page a = a AND 0xfff"

definition vma_pages :: "vm_area_struct \<Rightarrow> 64 word" where
  "vma_pages v = drop_bit 12 (vm_end v - vm_start v)"

definition vma_is_anonymous :: "vm_area_struct \<Rightarrow> bool" where
  "vma_is_anonymous v \<longleftrightarrow> vm_ops v = None"

section \<open>Pointers to areas\<close>

definition vma_of :: "mm_struct \<Rightarrow> vma_ptr \<Rightarrow> vm_area_struct option" where
  "vma_of mm p = find (\<lambda>v. vm_id v = p) (mmap mm)"

definition vma_at :: "mm_struct \<Rightarrow> vma_ptr \<Rightarrow> vm_area_struct" where
  "vma_at mm p = the (vma_of mm p)"

definition upd_vma :: "vma_ptr \<Rightarrow> (vm_area_struct \<Rightarrow> vm_area_struct) \<Rightarrow> mm_struct \<Rightarrow> mm_struct" where
  "upd_vma p f mm = mm\<lparr>mmap := map (\<lambda>v. if vm_id v = p then f v else v) (mmap mm)\<rparr>"

definition vm_next :: "mm_struct \<Rightarrow> vma_ptr \<Rightarrow> vma_ptr option" where
  "vm_next mm p = (case dropWhile (\<lambda>v. vm_id v \<noteq> p) (mmap mm) of _ # w # _ \<Rightarrow> Some (vm_id w) | _ \<Rightarrow> None)"

definition vm_prev :: "mm_struct \<Rightarrow> vma_ptr \<Rightarrow> vma_ptr option" where
  "vm_prev mm p = (case takeWhile (\<lambda>v. vm_id v \<noteq> p) (mmap mm) of [] \<Rightarrow> None | vs \<Rightarrow> Some (vm_id (last vs)))"

definition mm_first :: "mm_struct \<Rightarrow> vma_ptr option" where
  "mm_first mm = (case mmap mm of [] \<Rightarrow> None | v # _ \<Rightarrow> Some (vm_id v))"

section \<open>The search tree\<close>

fun inorder :: "rb_tree \<Rightarrow> vma_ptr list" where
  "inorder Rb_null = []"
| "inorder (Rb_node l p r) = inorder l @ p # inorder r"

fun vma_compute_subtree_gap :: "mm_struct \<Rightarrow> rb_tree \<Rightarrow> 64 word" where
  "vma_compute_subtree_gap mm Rb_null = 0"
| "vma_compute_subtree_gap mm (Rb_node l p r) =
     (let m = vm_start (vma_at mm p);
          m = (case vm_prev mm p of None \<Rightarrow> m | Some q \<Rightarrow> m - vm_end (vma_at mm q));
          m = (if l \<noteq> Rb_null \<and> vma_compute_subtree_gap mm l > m then vma_compute_subtree_gap mm l else m);
          m = (if r \<noteq> Rb_null \<and> vma_compute_subtree_gap mm r > m then vma_compute_subtree_gap mm r else m)
      in m)"

fun find_vma_rb :: "mm_struct \<Rightarrow> 64 word \<Rightarrow> vma_ptr option \<Rightarrow> rb_tree \<Rightarrow> vma_ptr option" where
  "find_vma_rb mm addr vma Rb_null = vma"
| "find_vma_rb mm addr vma (Rb_node l tmp r) =
     (if vm_end (vma_at mm tmp) > addr then
        if vm_start (vma_at mm tmp) \<le> addr then Some tmp
        else find_vma_rb mm addr (Some tmp) l
      else find_vma_rb mm addr vma r)"

definition find_vma :: "mm_env \<Rightarrow> mm_struct \<Rightarrow> 64 word \<Rightarrow> vma_ptr option" where
  "find_vma E mm addr =
     (case vmacache_find E mm addr of
        Some v \<Rightarrow> Some v
      | None \<Rightarrow> find_vma_rb mm addr None (mm_rb mm))"

fun rb_last :: "vma_ptr option \<Rightarrow> rb_tree \<Rightarrow> vma_ptr option" where
  "rb_last p Rb_null = p"
| "rb_last p (Rb_node l q r) = rb_last (Some q) r"

definition find_vma_prev :: "mm_env \<Rightarrow> mm_struct \<Rightarrow> 64 word \<Rightarrow> vma_ptr option \<times> vma_ptr option" where
  "find_vma_prev E mm addr =
     (case find_vma E mm addr of
        Some v \<Rightarrow> (Some v, vm_prev mm v)
      | None \<Rightarrow> (None, rb_last None (mm_rb mm)))"

definition find_vma_intersection :: "mm_env \<Rightarrow> mm_struct \<Rightarrow> 64 word \<Rightarrow> 64 word \<Rightarrow> vma_ptr option" where
  "find_vma_intersection E mm start_addr end_addr =
     (case find_vma E mm start_addr of
        None \<Rightarrow> None
      | Some v \<Rightarrow> if end_addr \<le> vm_start (vma_at mm v) then None else Some v)"

text \<open>
  The place of a new area: the area before it, the link in the tree as the path from the root, and
  the parent node.  \<open>None\<close> is the result \<open>- ENOMEM\<close>: an area overlaps the range.
\<close>

datatype rb_dir = Rb_left | Rb_right

record vma_links =
  ln_prev :: "vma_ptr option"
  ln_rb_link :: "rb_dir list"
  ln_rb_parent :: "vma_ptr option"

fun find_vma_links_rb ::
    "mm_struct \<Rightarrow> 64 word \<Rightarrow> 64 word \<Rightarrow> rb_tree \<Rightarrow> vma_ptr option \<Rightarrow> rb_dir list \<Rightarrow> vma_ptr option \<Rightarrow> vma_links option" where
  "find_vma_links_rb mm addr end Rb_null rb_prev link par =
     Some \<lparr>ln_prev = rb_prev, ln_rb_link = link, ln_rb_parent = par\<rparr>"
| "find_vma_links_rb mm addr end (Rb_node l p r) rb_prev link par =
     (if vm_end (vma_at mm p) > addr then
        if vm_start (vma_at mm p) < end then None
        else find_vma_links_rb mm addr end l rb_prev (link @ [Rb_left]) (Some p)
      else find_vma_links_rb mm addr end r (Some p) (link @ [Rb_right]) (Some p))"

definition find_vma_links :: "mm_struct \<Rightarrow> 64 word \<Rightarrow> 64 word \<Rightarrow> vma_links option" where
  "find_vma_links mm addr end = find_vma_links_rb mm addr end (mm_rb mm) None [] None"

fun rb_link_node :: "rb_dir list \<Rightarrow> vma_ptr \<Rightarrow> rb_tree \<Rightarrow> rb_tree" where
  "rb_link_node (Rb_left # ds) p (Rb_node l q r) = Rb_node (rb_link_node ds p l) q r"
| "rb_link_node (Rb_right # ds) p (Rb_node l q r) = Rb_node l q (rb_link_node ds p r)"
| "rb_link_node _ p _ = Rb_node Rb_null p Rb_null"

section \<open>Linking and unlinking\<close>

definition raw_vma_link_list :: "vm_area_struct \<Rightarrow> vma_links \<Rightarrow> mm_struct \<Rightarrow> mm_struct" where
  "raw_vma_link_list vma ln mm = mm\<lparr>mmap :=
     (case ln_prev ln of
        Some p \<Rightarrow> takeWhile (\<lambda>v. vm_id v \<noteq> p) (mmap mm) @
                  (case dropWhile (\<lambda>v. vm_id v \<noteq> p) (mmap mm) of [] \<Rightarrow> [vma] | v # vs \<Rightarrow> v # vma # vs)
      | None \<Rightarrow> (case ln_rb_parent ln of
                   Some q \<Rightarrow> vma # dropWhile (\<lambda>v. vm_id v \<noteq> q) (mmap mm)
                 | None \<Rightarrow> [vma]))\<rparr>"

definition raw_vma_link_rb :: "mm_env \<Rightarrow> vm_area_struct \<Rightarrow> vma_links \<Rightarrow> mm_struct \<Rightarrow> mm_struct" where
  "raw_vma_link_rb E vma ln mm =
     (let mm = (if vm_next mm (vm_id vma) = None then mm\<lparr>highest_vm_end := vm_end vma\<rparr> else mm)
      in mm\<lparr>mm_rb := rb_insert_color E (vm_id vma) (rb_link_node (ln_rb_link ln) (vm_id vma) (mm_rb mm))\<rparr>)"

definition raw_vma_link :: "mm_env \<Rightarrow> vm_area_struct \<Rightarrow> vma_links \<Rightarrow> mm_struct \<Rightarrow> mm_struct" where
  "raw_vma_link E vma ln mm = raw_vma_link_rb E vma ln (raw_vma_link_list vma ln mm)"

definition upd_space :: "nat \<Rightarrow> (address_space \<Rightarrow> address_space) \<Rightarrow> mmst \<Rightarrow> mmst" where
  "upd_space m f s = s\<lparr>st_spaces := (st_spaces s)(m := f (st_spaces s m))\<rparr>"

definition raw_vma_link_file :: "mm_env \<Rightarrow> vm_area_struct \<Rightarrow> mmst \<Rightarrow> mmst" where
  "raw_vma_link_file E vma s =
     (case vm_file vma of
        None \<Rightarrow> s
      | Some f \<Rightarrow>
          let s = (if vm_flags vma AND VM_DENYWRITE \<noteq> 0
                   then upd_space (f_mapping E f) (\<lambda>a. a\<lparr>i_writecount := i_writecount a - 1\<rparr>) s else s)
          in if vm_flags vma AND VM_SHARED \<noteq> 0
             then upd_space (f_mapping E f) (\<lambda>a. a\<lparr>i_mmap_writable := i_mmap_writable a + 1\<rparr>) s else s)"

definition raw_remove_shared_vm_struct :: "mm_env \<Rightarrow> vm_area_struct \<Rightarrow> file_ptr \<Rightarrow> mmst \<Rightarrow> mmst" where
  "raw_remove_shared_vm_struct E vma f s =
     (let s = (if vm_flags vma AND VM_DENYWRITE \<noteq> 0
               then upd_space (f_mapping E f) (\<lambda>a. a\<lparr>i_writecount := i_writecount a + 1\<rparr>) s else s)
      in if vm_flags vma AND VM_SHARED \<noteq> 0
         then upd_space (f_mapping E f) (\<lambda>a. a\<lparr>i_mmap_writable := i_mmap_writable a - 1\<rparr>) s else s)"

definition unlink_file_vma :: "mm_env \<Rightarrow> vm_area_struct \<Rightarrow> mmst \<Rightarrow> mmst" where
  "unlink_file_vma E vma s =
     (case vm_file vma of None \<Rightarrow> s | Some f \<Rightarrow> raw_remove_shared_vm_struct E vma f s)"

definition vma_link :: "mm_env \<Rightarrow> vm_area_struct \<Rightarrow> vma_links \<Rightarrow> mmst \<Rightarrow> mmst" where
  "vma_link E vma ln s =
     (let s = s\<lparr>st_mm := raw_vma_link E vma ln (st_mm s)\<rparr>;
          s = raw_vma_link_file E vma s
      in s\<lparr>st_mm := (st_mm s)\<lparr>map_count := map_count (st_mm s) + 1\<rparr>\<rparr>)"

text \<open>\<open>None\<close> is the \<open>BUG()\<close>.\<close>

definition raw_insert_vm_struct :: "mm_env \<Rightarrow> vm_area_struct \<Rightarrow> mm_struct \<Rightarrow> mm_struct option" where
  "raw_insert_vm_struct E vma mm =
     (case find_vma_links mm (vm_start vma) (vm_end vma) of
        None \<Rightarrow> None
      | Some ln \<Rightarrow> let mm = raw_vma_link E vma ln mm in Some (mm\<lparr>map_count := map_count mm + 1\<rparr>))"

definition raw_vma_unlink :: "mm_env \<Rightarrow> vma_ptr \<Rightarrow> mm_struct \<Rightarrow> mm_struct" where
  "raw_vma_unlink E p mm =
     mm\<lparr>mm_rb := rb_erase_augmented E p (mm_rb mm), mmap := filter (\<lambda>v. vm_id v \<noteq> p) (mmap mm)\<rparr>"

section \<open>Accounting\<close>

fun count_pages_rest :: "64 word \<Rightarrow> vm_area_struct list \<Rightarrow> 64 word \<Rightarrow> 64 word" where
  "count_pages_rest end [] n = n"
| "count_pages_rest end (v # vs) n =
     (if vm_start v > end then n
      else count_pages_rest end vs (n + drop_bit 12 (min end (vm_end v) - vm_start v)))"

definition count_vma_pages_range :: "mm_env \<Rightarrow> mm_struct \<Rightarrow> 64 word \<Rightarrow> 64 word \<Rightarrow> 64 word" where
  "count_vma_pages_range E mm addr end =
     (case find_vma_intersection E mm addr end of
        None \<Rightarrow> 0
      | Some p \<Rightarrow>
          let v = vma_at mm p
          in count_pages_rest end (tl (dropWhile (\<lambda>v. vm_id v \<noteq> p) (mmap mm)))
               (drop_bit 12 (min end (vm_end v) - max addr (vm_start v))))"

definition is_exec_mapping :: "64 word \<Rightarrow> bool" where
  "is_exec_mapping flags \<longleftrightarrow> flags AND (VM_EXEC OR VM_WRITE OR VM_GROWSDOWN) = VM_EXEC"

definition is_stack_mapping :: "64 word \<Rightarrow> bool" where
  "is_stack_mapping flags \<longleftrightarrow> flags AND VM_GROWSDOWN = VM_GROWSDOWN"

definition is_data_mapping :: "64 word \<Rightarrow> bool" where
  "is_data_mapping flags \<longleftrightarrow> flags AND (VM_WRITE OR VM_SHARED OR VM_GROWSDOWN) = VM_WRITE"

definition may_expand_vm :: "mm_env \<Rightarrow> mm_struct \<Rightarrow> 64 word \<Rightarrow> 64 word \<Rightarrow> bool" where
  "may_expand_vm E mm flags npages =
     (if total_vm mm + npages > drop_bit 12 (rlimit_as E) then False
      else if is_data_mapping flags \<and> data_vm mm + npages > drop_bit 12 (rlimit_data E) then
        if rlimit_data E = 0 \<and> data_vm mm + npages \<le> drop_bit 12 (rlimit_max_data E) then True
        else ignore_rlimit_data E
      else True)"

definition vm_stat_account :: "64 word \<Rightarrow> 64 word \<Rightarrow> mm_struct \<Rightarrow> mm_struct" where
  "vm_stat_account flags npages mm =
     (let mm = mm\<lparr>total_vm := total_vm mm + npages\<rparr>
      in if is_exec_mapping flags then mm\<lparr>exec_vm := exec_vm mm + npages\<rparr>
         else if is_stack_mapping flags then mm\<lparr>stack_vm := stack_vm mm + npages\<rparr>
         else if is_data_mapping flags then mm\<lparr>data_vm := data_vm mm + npages\<rparr>
         else mm)"

definition vm_unacct_memory :: "64 word \<Rightarrow> mmst \<Rightarrow> mmst" where
  "vm_unacct_memory pages s = s\<lparr>vm_committed_as := vm_committed_as s - sint pages\<rparr>"


section \<open>The invariant of an address space\<close>

definition aligned :: "64 word \<Rightarrow> bool" where
  "aligned a \<longleftrightarrow> offset_in_page a = 0"

definition area_ok :: "vm_area_struct \<Rightarrow> bool" where
  "area_ok v \<longleftrightarrow> vm_start v < vm_end v \<and> aligned (vm_start v) \<and> aligned (vm_end v)"

definition areas_ok :: "vm_area_struct list \<Rightarrow> bool" where
  "areas_ok vs \<longleftrightarrow> sorted_wrt (\<lambda>v w. vm_end v \<le> vm_start w) vs \<and> (\<forall>v\<in>set vs. area_ok v) \<and> distinct (map vm_id vs)"

definition highest_end :: "vm_area_struct list \<Rightarrow> 64 word" where
  "highest_end vs = (if vs = [] then 0 else vm_end (last vs))"

definition tree_ok :: "mm_struct \<Rightarrow> bool" where
  "tree_ok mm \<longleftrightarrow> areas_ok (mmap mm) \<and> inorder (mm_rb mm) = map vm_id (mmap mm)"

definition mm_ok :: "mm_struct \<Rightarrow> bool" where
  "mm_ok mm \<longleftrightarrow> tree_ok mm \<and> map_count mm = int (length (mmap mm)) \<and> highest_vm_end mm = highest_end (mmap mm)"

text \<open>What the operations on areas leave alone.\<close>

definition mm_fixed :: "mm_struct \<Rightarrow> 64 word \<times> area_method \<times> 64 word \<times> 64 word \<times> 64 word \<times> nat \<times> int" where
  "mm_fixed mm = (def_flags mm, mm_get_unmapped_area mm, mmap_base mm, task_size mm, mm_flags mm, mm_user_ns mm, mm_users mm)"

lemma mm_fixed_simps [simp]:
  "mm_fixed (mm\<lparr>mmap := a\<rparr>) = mm_fixed mm" "mm_fixed (mm\<lparr>mm_rb := b\<rparr>) = mm_fixed mm" "mm_fixed (mm\<lparr>highest_vm_end := c\<rparr>) = mm_fixed mm"
  "mm_fixed (mm\<lparr>map_count := d\<rparr>) = mm_fixed mm" "mm_fixed (mm\<lparr>total_vm := e\<rparr>) = mm_fixed mm" "mm_fixed (mm\<lparr>locked_vm := e\<rparr>) = mm_fixed mm"
  "mm_fixed (mm\<lparr>data_vm := e\<rparr>) = mm_fixed mm" "mm_fixed (mm\<lparr>exec_vm := e\<rparr>) = mm_fixed mm" "mm_fixed (mm\<lparr>stack_vm := e\<rparr>) = mm_fixed mm"
  "mm_fixed (mm\<lparr>pgd := t\<rparr>) = mm_fixed mm" "mm_fixed (upd_vma p f mm) = mm_fixed mm"
  by (simp_all add: mm_fixed_def upd_vma_def)

text \<open>What is assumed of the balancing of trees, of the cache of lookups and of the allocator.\<close>

definition rb_ok :: "mm_env \<Rightarrow> bool" where
  "rb_ok E \<longleftrightarrow> (\<forall>p t. inorder (rb_insert_color E p t) = inorder t) \<and>
     (\<forall>p t. distinct (inorder t) \<longrightarrow> inorder (rb_erase_augmented E p t) = filter (\<lambda>q. q \<noteq> p) (inorder t))"

definition vmacache_ok :: "mm_env \<Rightarrow> bool" where
  "vmacache_ok E \<longleftrightarrow> (\<forall>mm a p. vmacache_find E mm a = Some p \<longrightarrow>
     (\<exists>v. v \<in> set (mmap mm) \<and> vm_id v = p \<and> vm_start v \<le> a \<and> a < vm_end v))"

section \<open>Pointers\<close>

lemma mm_ok_tree [simp]: "mm_ok mm \<Longrightarrow> tree_ok mm"
  by (simp add: mm_ok_def)

lemma areas_ok_Nil [simp]: "areas_ok []"
  by (simp add: areas_ok_def)

lemma areas_ok_append: "areas_ok (vs @ ws) \<longleftrightarrow>
    areas_ok vs \<and> areas_ok ws \<and> (\<forall>v\<in>set vs. \<forall>w\<in>set ws. vm_end v \<le> vm_start w \<and> vm_id v \<noteq> vm_id w)"
  by (auto simp: areas_ok_def sorted_wrt_append)

lemma areas_ok_Cons: "areas_ok (v # vs) \<longleftrightarrow>
    area_ok v \<and> areas_ok vs \<and> (\<forall>w\<in>set vs. vm_end v \<le> vm_start w \<and> vm_id v \<noteq> vm_id w)"
  by (auto simp: areas_ok_def)

lemma find_split: "\<forall>v\<in>set pre. vm_id v \<noteq> vm_id w \<Longrightarrow> find (\<lambda>v. vm_id v = vm_id w) (pre @ w # post) = Some w"
  by (induction pre) auto

text \<open>The pointer of an area in the middle of the list.\<close>

definition vma_position :: "mm_struct \<Rightarrow> vm_area_struct list \<Rightarrow> vm_area_struct \<Rightarrow> vm_area_struct list \<Rightarrow> bool" where
  "vma_position mm pre v post \<longleftrightarrow> mmap mm = pre @ v # post \<and> (\<forall>u\<in>set pre. vm_id u \<noteq> vm_id v) \<and> (\<forall>u\<in>set post. vm_id u \<noteq> vm_id v)"

lemma vma_positionI: "areas_ok (mmap mm) \<Longrightarrow> mmap mm = pre @ v # post \<Longrightarrow> vma_position mm pre v post"
  by (simp add: areas_ok_append areas_ok_Cons vma_position_def) metis

lemma vma_position_at:
  assumes "vma_position mm pre v post"
  shows "vma_of mm (vm_id v) = Some v" "vma_at mm (vm_id v) = v"
proof -
  have "\<forall>u\<in>set pre. vm_id u \<noteq> vm_id v" using assms by (simp add: vma_position_def)
  then show "vma_of mm (vm_id v) = Some v" using assms by (simp add: vma_position_def vma_of_def find_split)
  then show "vma_at mm (vm_id v) = v" by (simp add: vma_at_def)
qed

lemma vma_position_while:
  assumes "vma_position mm pre v post"
  shows "takeWhile (\<lambda>u. vm_id u \<noteq> vm_id v) (mmap mm) = pre" "dropWhile (\<lambda>u. vm_id u \<noteq> vm_id v) (mmap mm) = v # post"
proof -
  have "\<And>u. u \<in> set pre \<Longrightarrow> vm_id u \<noteq> vm_id v" using assms by (simp add: vma_position_def)
  then show "takeWhile (\<lambda>u. vm_id u \<noteq> vm_id v) (mmap mm) = pre" "dropWhile (\<lambda>u. vm_id u \<noteq> vm_id v) (mmap mm) = v # post"
    using assms by (simp_all add: vma_position_def)
qed

lemma vma_position_next_prev:
  assumes "vma_position mm pre v post"
  shows "vm_next mm (vm_id v) = (case post of [] \<Rightarrow> None | w # _ \<Rightarrow> Some (vm_id w))"
    "vm_prev mm (vm_id v) = (if pre = [] then None else Some (vm_id (last pre)))"
  unfolding vm_next_def vm_prev_def vma_position_while [OF assms] by (auto split: list.split)

lemma vma_position_upd:
  assumes "vma_position mm pre v post"
  shows "mmap (upd_vma (vm_id v) f mm) = pre @ f v # post"
proof -
  have "map (\<lambda>u. if vm_id u = vm_id v then f u else u) vs = vs" if "\<forall>u\<in>set vs. vm_id u \<noteq> vm_id v" for vs
    using that by (induction vs) auto
  then show ?thesis using assms by (simp add: upd_vma_def vma_position_def)
qed

lemma vma_position_unlink:
  assumes "vma_position mm pre v post"
  shows "filter (\<lambda>u. vm_id u \<noteq> vm_id v) (mmap mm) = pre @ post"
proof -
  have "filter (\<lambda>u. vm_id u \<noteq> vm_id v) vs = vs" if "\<forall>u\<in>set vs. vm_id u \<noteq> vm_id v" for vs
    using that by (induction vs) auto
  from this [of pre] this [of post] show ?thesis using assms by (simp add: vma_position_def)
qed

lemma upd_vma_simps [simp]:
  "mm_rb (upd_vma p f mm) = mm_rb mm" "map_count (upd_vma p f mm) = map_count mm"
  "highest_vm_end (upd_vma p f mm) = highest_vm_end mm" "total_vm (upd_vma p f mm) = total_vm mm"
  "locked_vm (upd_vma p f mm) = locked_vm mm" "data_vm (upd_vma p f mm) = data_vm mm"
  "exec_vm (upd_vma p f mm) = exec_vm mm" "stack_vm (upd_vma p f mm) = stack_vm mm" "def_flags (upd_vma p f mm) = def_flags mm"
  by (simp_all add: upd_vma_def)

lemma vma_at_in:
  assumes "areas_ok (mmap mm)" "v \<in> set (mmap mm)"
  shows "vma_at mm (vm_id v) = v" "vma_of mm (vm_id v) = Some v"
proof -
  obtain pre post where "mmap mm = pre @ v # post" using assms(2) by (meson split_list)
  from vma_position_at [OF vma_positionI [OF assms(1) this]]
  show "vma_at mm (vm_id v) = v" "vma_of mm (vm_id v) = Some v" by auto
qed

section \<open>Searching the tree\<close>

definition ids_sorted :: "mm_struct \<Rightarrow> vma_ptr list \<Rightarrow> bool" where
  "ids_sorted mm ps \<longleftrightarrow> sorted_wrt (\<lambda>p q. vm_end (vma_at mm p) \<le> vm_start (vma_at mm q)) ps \<and>
     (\<forall>p\<in>set ps. vm_start (vma_at mm p) < vm_end (vma_at mm p))"

lemma ids_sorted_append: "ids_sorted mm (ps @ qs) \<longleftrightarrow> ids_sorted mm ps \<and> ids_sorted mm qs \<and>
    (\<forall>p\<in>set ps. \<forall>q\<in>set qs. vm_end (vma_at mm p) \<le> vm_start (vma_at mm q))"
  by (auto simp: ids_sorted_def sorted_wrt_append)

lemma ids_sorted_Cons: "ids_sorted mm (p # ps) \<longleftrightarrow> vm_start (vma_at mm p) < vm_end (vma_at mm p) \<and> ids_sorted mm ps \<and>
    (\<forall>q\<in>set ps. vm_end (vma_at mm p) \<le> vm_start (vma_at mm q))"
  by (auto simp: ids_sorted_def)

lemma ids_sorted_areas: "areas_ok (mmap mm) \<Longrightarrow> ids_sorted mm (map vm_id (mmap mm))"
proof -
  assume a: "areas_ok (mmap mm)"
  have at: "vma_at mm (vm_id v) = v" if "v \<in> set (mmap mm)" for v by (rule vma_at_in [OF a that])
  have "sorted_wrt (\<lambda>v w. vm_end (vma_at mm (vm_id v)) \<le> vm_start (vma_at mm (vm_id w))) (mmap mm)"
    by (rule sorted_wrt_mono_rel [of _ "\<lambda>v w. vm_end v \<le> vm_start w"]) (use a in \<open>auto simp: at areas_ok_def\<close>)
  then show ?thesis using a by (auto simp: ids_sorted_def sorted_wrt_map at areas_ok_def area_ok_def)
qed

lemma find_append: "find P (xs @ ys) = (case find P xs of None \<Rightarrow> find P ys | Some x \<Rightarrow> Some x)"
  by (induction xs) auto

lemma find_vma_rb_find:
  "ids_sorted mm (inorder t) \<Longrightarrow>
   find_vma_rb mm a best t = (case find (\<lambda>p. a < vm_end (vma_at mm p)) (inorder t) of None \<Rightarrow> best | Some p \<Rightarrow> Some p)"
proof (induction mm a best t rule: find_vma_rb.induct)
  case (2 mm addr vma l tmp r)
  from 2(3) have ord: "\<And>p. p \<in> set (inorder l) \<Longrightarrow> vm_end (vma_at mm p) \<le> vm_start (vma_at mm tmp)"
    "\<And>p. p \<in> set (inorder l) \<Longrightarrow> vm_end (vma_at mm p) \<le> vm_end (vma_at mm tmp)"
    and sub: "ids_sorted mm (inorder l)" "ids_sorted mm (inorder r)"
    by (auto simp: ids_sorted_append ids_sorted_Cons intro: order.trans less_imp_le)
  have none: "find (\<lambda>p. addr < vm_end (vma_at mm p)) (inorder l) = None"
    if "vm_start (vma_at mm tmp) \<le> addr \<or> \<not> addr < vm_end (vma_at mm tmp)"
    using that ord by (force simp: find_None_iff)
  show ?case using 2 sub none by (auto simp: find_append split: option.splits)
qed simp

lemma find_map: "find P (map f xs) = map_option f (find (P \<circ> f) xs)"
  by (induction xs) auto

lemma find_cong_set: "(\<And>x. x \<in> set xs \<Longrightarrow> P x = Q x) \<Longrightarrow> find P xs = find Q xs"
  by (induction xs) auto

lemma find_vma_list:
  assumes "tree_ok mm" "vmacache_ok E"
  shows "find_vma E mm a = map_option vm_id (find (\<lambda>v. a < vm_end v) (mmap mm))"
proof -
  have ok: "areas_ok (mmap mm)" and ino: "inorder (mm_rb mm) = map vm_id (mmap mm)"
    using assms(1) by (auto simp: tree_ok_def)
  have tree: "find_vma_rb mm a None (mm_rb mm) = map_option vm_id (find (\<lambda>v. a < vm_end v) (mmap mm))"
  proof -
    have "find (\<lambda>p. a < vm_end (vma_at mm p)) (inorder (mm_rb mm)) = map_option vm_id (find (\<lambda>v. a < vm_end v) (mmap mm))"
      unfolding ino find_map comp_def by (rule arg_cong [where f = "map_option vm_id"], rule find_cong_set) (simp add: vma_at_in(1) [OF ok])
    then show ?thesis
      using find_vma_rb_find [of mm "mm_rb mm" a None] ids_sorted_areas [OF ok] by (auto simp: ino split: option.splits)
  qed
  show ?thesis
  proof (cases "vmacache_find E mm a")
    case (Some p)
    then obtain v where v: "v \<in> set (mmap mm)" "vm_id v = p" "vm_start v \<le> a" "a < vm_end v"
      using assms(2) unfolding vmacache_ok_def by blast
    obtain pre post where sp: "mmap mm = pre @ v # post" using v(1) by (meson split_list)
    have "\<forall>u\<in>set pre. \<not> a < vm_end u"
      using ok v(3) unfolding sp areas_ok_append areas_ok_Cons by (auto simp: not_less intro: order.trans)
    then have "find (\<lambda>v. a < vm_end v) pre = None" by (auto simp: find_None_iff)
    then show ?thesis using Some v(2,4) by (simp add: find_vma_def sp find_append)
  qed (simp add: find_vma_def tree)
qed


section \<open>The place of a new area\<close>

lemma find_vma_links_rb_None:
  "find_vma_links_rb mm a e t pv lk par = None \<Longrightarrow>
   \<exists>p\<in>set (inorder t). a < vm_end (vma_at mm p) \<and> vm_start (vma_at mm p) < e"
  by (induction mm a e t pv lk par rule: find_vma_links_rb.induct) (auto split: if_splits)

lemma find_vma_links_rb_Some:
  "find_vma_links_rb mm a e t pv lk par = Some ln \<Longrightarrow> ids_sorted mm (inorder t) \<Longrightarrow>
   \<exists>xs ys ds. inorder t = xs @ ys \<and> (\<forall>p\<in>set xs. vm_end (vma_at mm p) \<le> a) \<and>
     (\<forall>p\<in>set ys. a < vm_end (vma_at mm p) \<and> e \<le> vm_start (vma_at mm p)) \<and>
     ln_prev ln = (if xs = [] then pv else Some (last xs)) \<and>
     ln_rb_link ln = lk @ ds \<and> (\<forall>p. inorder (rb_link_node ds p t) = xs @ p # ys) \<and>
     (xs = [] \<longrightarrow> ln_rb_parent ln = (if ys = [] then par else Some (hd ys)))"
proof (induction mm a e t pv lk par rule: find_vma_links_rb.induct)
  case (1 mm addr e rb_prev link par)
  then have "ln = \<lparr>ln_prev = rb_prev, ln_rb_link = link, ln_rb_parent = par\<rparr>" by simp
  then show ?case by (intro exI [of _ "[]"]) auto
next
  case (2 mm a e l p r pv lk par)
  from 2(4) have sub: "ids_sorted mm (inorder l)" "ids_sorted mm (inorder r)"
    and lo: "\<And>q. q \<in> set (inorder l) \<Longrightarrow> vm_end (vma_at mm q) \<le> vm_start (vma_at mm p)"
    and hi: "\<And>q. q \<in> set (inorder r) \<Longrightarrow> vm_end (vma_at mm p) \<le> vm_start (vma_at mm q)"
    and p: "vm_start (vma_at mm p) < vm_end (vma_at mm p)"
    and hi': "\<And>q. q \<in> set (inorder r) \<Longrightarrow> vm_start (vma_at mm q) < vm_end (vma_at mm q)"
    by (auto simp: ids_sorted_append ids_sorted_Cons) (auto simp: ids_sorted_def)
  show ?case
  proof (cases "vm_end (vma_at mm p) > a")
    case True
    then have e: "\<not> vm_start (vma_at mm p) < e" using 2(3) by (auto split: if_splits)
    from 2(3) True e have "find_vma_links_rb mm a e l pv (lk @ [Rb_left]) (Some p) = Some ln" by simp
    from 2(1) [OF True e this sub(1)] obtain xs ys ds where
      ih: "inorder l = xs @ ys" "\<forall>p\<in>set xs. vm_end (vma_at mm p) \<le> a"
      "\<forall>p\<in>set ys. a < vm_end (vma_at mm p) \<and> e \<le> vm_start (vma_at mm p)"
      "ln_prev ln = (if xs = [] then pv else Some (last xs))"
      "ln_rb_link ln = (lk @ [Rb_left]) @ ds" "\<forall>q. inorder (rb_link_node ds q l) = xs @ q # ys"
      "xs = [] \<longrightarrow> ln_rb_parent ln = (if ys = [] then Some p else Some (hd ys))"
      by blast
    have "a < vm_end (vma_at mm q) \<and> e \<le> vm_start (vma_at mm q)" if "q \<in> set (inorder r)" for q
      using hi [OF that] hi' [OF that] p True e by (auto simp: not_less)
    then show ?thesis
      by (intro exI [of _ xs] exI [of _ "ys @ p # inorder r"] exI [of _ "Rb_left # ds"]) (use ih True e in auto)
  next
    case False
    from 2(3) False have "find_vma_links_rb mm a e r (Some p) (lk @ [Rb_right]) (Some p) = Some ln" by simp
    from 2(2) [OF False this sub(2)] obtain xs ys ds where
      ih: "inorder r = xs @ ys" "\<forall>p\<in>set xs. vm_end (vma_at mm p) \<le> a"
      "\<forall>p\<in>set ys. a < vm_end (vma_at mm p) \<and> e \<le> vm_start (vma_at mm p)"
      "ln_prev ln = (if xs = [] then Some p else Some (last xs))"
      "ln_rb_link ln = (lk @ [Rb_right]) @ ds" "\<forall>q. inorder (rb_link_node ds q r) = xs @ q # ys"
      by blast
    have "vm_end (vma_at mm q) \<le> a" if "q \<in> set (inorder l)" for q
      using lo [OF that] p False by (auto simp: not_less)
    then show ?thesis
      by (intro exI [of _ "inorder l @ p # xs"] exI [of _ ys] exI [of _ "Rb_right # ds"]) (use ih False in \<open>auto simp: not_less\<close>)
  qed
qed

text \<open>
  On the list: the new area goes between the areas that end before the range and those that start
  after it.
\<close>

lemma find_vma_links_None:
  assumes "tree_ok mm" "find_vma_links mm a e = None"
  shows "\<exists>v\<in>set (mmap mm). a < vm_end v \<and> vm_start v < e"
proof -
  have ok: "areas_ok (mmap mm)" "inorder (mm_rb mm) = map vm_id (mmap mm)" using assms(1) by (auto simp: tree_ok_def)
  from find_vma_links_rb_None [OF assms(2) [unfolded find_vma_links_def]]
  obtain v where "v \<in> set (mmap mm)" "a < vm_end (vma_at mm (vm_id v))" "vm_start (vma_at mm (vm_id v)) < e"
    unfolding ok(2) by auto
  then show ?thesis using vma_at_in(1) [OF ok(1)] by auto
qed

lemma find_vma_links_Some:
  assumes mm: "tree_ok mm" and f: "find_vma_links mm a e = Some ln"
  obtains xs ys where "mmap mm = xs @ ys" "\<forall>v\<in>set xs. vm_end v \<le> a" "\<forall>v\<in>set ys. a < vm_end v \<and> e \<le> vm_start v"
    "ln_prev ln = (if xs = [] then None else Some (vm_id (last xs)))"
    "\<And>p. inorder (rb_link_node (ln_rb_link ln) p (mm_rb mm)) = map vm_id xs @ p # map vm_id ys"
    "xs = [] \<Longrightarrow> ln_rb_parent ln = (if ys = [] then None else Some (vm_id (hd ys)))"
proof -
  have ok: "areas_ok (mmap mm)" "inorder (mm_rb mm) = map vm_id (mmap mm)" using mm by (auto simp: tree_ok_def)
  have s: "ids_sorted mm (inorder (mm_rb mm))" using ids_sorted_areas [OF ok(1)] by (simp add: ok(2))
  have at: "v \<in> set (mmap mm) \<Longrightarrow> vma_at mm (vm_id v) = v" for v by (rule vma_at_in [OF ok(1)])
  obtain ps qs ds where ps: "map vm_id (mmap mm) = ps @ qs" "\<forall>p\<in>set ps. vm_end (vma_at mm p) \<le> a"
    "\<forall>p\<in>set qs. a < vm_end (vma_at mm p) \<and> e \<le> vm_start (vma_at mm p)"
    "ln_prev ln = (if ps = [] then None else Some (last ps))" "ln_rb_link ln = [] @ ds"
    "\<forall>p. inorder (rb_link_node ds p (mm_rb mm)) = ps @ p # qs"
    "ps = [] \<longrightarrow> ln_rb_parent ln = (if qs = [] then None else Some (hd qs))"
    using find_vma_links_rb_Some [OF f [unfolded find_vma_links_def] s] unfolding ok(2) by blast
  from ps(1) obtain xs ys where xy: "mmap mm = xs @ ys" "ps = map vm_id xs" "qs = map vm_id ys"
    by (metis map_eq_append_conv)
  show ?thesis
  proof (rule that [OF xy(1)])
    show "\<forall>v\<in>set xs. vm_end v \<le> a" "\<forall>v\<in>set ys. a < vm_end v \<and> e \<le> vm_start v"
      using ps(2,3) at by (auto simp: xy)
  qed (use ps(4-7) xy in \<open>auto simp: last_map hd_map\<close>)
qed

lemma raw_vma_link_list_places:
  assumes ids: "distinct (map vm_id (xs @ ys))" and mm: "mmap mm = xs @ ys"
    and "ln_prev ln = (if xs = [] then None else Some (vm_id (last xs)))"
    and "xs = [] \<Longrightarrow> ln_rb_parent ln = (if ys = [] then None else Some (vm_id (hd ys)))"
  shows "mmap (raw_vma_link_list v ln mm) = xs @ v # ys"
proof (cases "xs = []")
  case True
  then show ?thesis using assms by (cases ys) (auto simp: raw_vma_link_list_def)
next
  case False
  then have sp: "xs = butlast xs @ [last xs]" by simp
  obtain bs l where bs: "xs = bs @ [l]" using sp by blast
  have "vma_position mm (butlast xs) (last xs) ys"
    using ids mm by (auto simp: vma_position_def bs image_iff)
  from vma_position_while [OF this] show ?thesis using False assms(3) sp by (simp add: raw_vma_link_list_def)
qed

lemma raw_vma_link_result:
  assumes mm: "tree_ok mm" and E: "rb_ok E" and f: "find_vma_links mm (vm_start v) (vm_end v) = Some ln"
    and v: "area_ok v" "\<forall>u\<in>set (mmap mm). vm_id u \<noteq> vm_id v"
  obtains xs ys t where "mmap mm = xs @ ys" "\<forall>u\<in>set xs. vm_end u \<le> vm_start v" "\<forall>w\<in>set ys. vm_end v \<le> vm_start w"
    "ln_prev ln = (if xs = [] then None else Some (vm_id (last xs)))"
    "raw_vma_link E v ln mm = mm\<lparr>mmap := xs @ v # ys, mm_rb := t,
       highest_vm_end := if ys = [] then vm_end v else highest_vm_end mm\<rparr>"
    "inorder t = map vm_id (xs @ v # ys)" "areas_ok (xs @ v # ys)"
proof -
  from find_vma_links_Some [OF mm f] obtain xs ys where
    xy: "mmap mm = xs @ ys" "\<forall>u\<in>set xs. vm_end u \<le> vm_start v" "\<forall>w\<in>set ys. vm_start v < vm_end w \<and> vm_end v \<le> vm_start w"
    and pv: "ln_prev ln = (if xs = [] then None else Some (vm_id (last xs)))"
    and io: "\<And>p. inorder (rb_link_node (ln_rb_link ln) p (mm_rb mm)) = map vm_id xs @ p # map vm_id ys"
    and par: "xs = [] \<Longrightarrow> ln_rb_parent ln = (if ys = [] then None else Some (vm_id (hd ys)))"
    by blast
  have ok: "areas_ok (xs @ ys)" using mm xy(1) by (auto simp: tree_ok_def)
  have new: "areas_ok (xs @ v # ys)" using ok xy(2,3) v by (auto simp: areas_ok_append areas_ok_Cons xy(1))
  have l: "mmap (raw_vma_link_list v ln mm) = xs @ v # ys"
    by (rule raw_vma_link_list_places [OF _ xy(1) pv par]) (use ok in \<open>simp add: areas_ok_def\<close>)
  then have l': "raw_vma_link_list v ln mm = mm\<lparr>mmap := xs @ v # ys\<rparr>" by (simp add: raw_vma_link_list_def)
  have nx: "vm_next (raw_vma_link_list v ln mm) (vm_id v) = (case ys of [] \<Rightarrow> None | w # _ \<Rightarrow> Some (vm_id w))"
    using vma_position_next_prev(1) [OF vma_positionI [OF _ l]] new l by simp
  define t where "t = rb_insert_color E (vm_id v) (rb_link_node (ln_rb_link ln) (vm_id v) (mm_rb mm))"
  have "raw_vma_link E v ln mm = mm\<lparr>mmap := xs @ v # ys, mm_rb := t,
       highest_vm_end := if ys = [] then vm_end v else highest_vm_end mm\<rparr>"
    using nx unfolding raw_vma_link_def raw_vma_link_rb_def l' t_def by (cases ys) (auto simp: Let_def)
  moreover have "inorder t = map vm_id (xs @ v # ys)" using E io by (simp add: t_def rb_ok_def)
  ultimately show ?thesis using new xy pv by (intro that [of xs ys t]) auto
qed

end
