(* ===== verification/Mm_View.thy ===== *)
theory Mm_View
  imports Vma
begin

text \<open>
  Arithmetic of pages, and the abstract content of an address space: a partial map from addresses to
  the flags, the file and the page offset they are mapped with.  The operations on areas are
  specified by what they do to this map.
\<close>

section \<open>Page arithmetic\<close>

lemma aligned_unat: "aligned a \<longleftrightarrow> unat a mod 4096 = 0"
proof -
  have "a AND 0xfff = take_bit 12 a" by (simp add: take_bit_eq_mask mask_eq_exp_minus_1)
  moreover have "unat (take_bit 12 a) = unat a mod 4096" unfolding unsigned_take_bit_eq by (simp add: take_bit_eq_mod)
  ultimately show ?thesis by (metis aligned_def offset_in_page_def unat_eq_zero)
qed

lemma unat_drop12: "unat (drop_bit 12 (a :: 64 word)) = unat a div 4096"
  unfolding unat_drop_bit_eq by (simp add: drop_bit_eq_div)

lemma unat_minus_le: "b \<le> a \<Longrightarrow> unat (a - b) = unat a - unat (b :: 64 word)"
  by (rule unat_sub)

lemma aligned_diff: "aligned a \<Longrightarrow> aligned b \<Longrightarrow> b \<le> a \<Longrightarrow> aligned (a - b)"
  by (simp add: aligned_unat unat_minus_le) (simp flip: dvd_eq_mod_eq_0 add: dvd_diff_nat)

lemma drop12_diff:
  assumes "s \<le> t" "t \<le> a" "aligned s" "aligned t"
  shows "drop_bit 12 (a - s) = drop_bit 12 (t - s) + drop_bit 12 (a - t)"
proof -
  have st: "s \<le> a" using assms by simp
  have u: "unat s \<le> unat t" "unat t \<le> unat a" using assms by (simp_all add: word_le_nat_alt)
  have "(unat t - unat s) mod 4096 = 0" using aligned_diff [OF assms(4,3,1)] by (simp add: aligned_unat unat_minus_le assms(1))
  then obtain k where k: "unat t - unat s = 4096 * k" by (auto simp: dvd_def simp flip: dvd_eq_mod_eq_0)
  then have "unat a - unat s = 4096 * k + (unat a - unat t)" using u by simp
  then have d: "(unat a - unat s) div 4096 = (unat t - unat s) div 4096 + (unat a - unat t) div 4096"
    unfolding k by simp
  have lt: "(unat t - unat s) div 4096 + (unat a - unat t) div 4096 < 2 ^ 64"
  proof -
    have "unat a < 2 ^ LENGTH(64)" by (rule unsigned_less)
    then show ?thesis unfolding d [symmetric] by simp
  qed
  have "unat (drop_bit 12 (t - s) + drop_bit 12 (a - t)) = unat (drop_bit 12 (a - s))"
    unfolding unat_word_ariths unat_drop12 unat_minus_le [OF assms(1)] unat_minus_le [OF assms(2)] unat_minus_le [OF st] d
    using lt by simp
  then show ?thesis by (metis word_unat_eq_iff)
qed

lemma push_drop12: "aligned a \<Longrightarrow> push_bit 12 (drop_bit 12 a) = a"
proof -
  assume "aligned a"
  then have t: "take_bit 12 a = 0" by (simp add: aligned_def offset_in_page_def take_bit_eq_mask mask_eq_exp_minus_1)
  show ?thesis using bits_ident [of 12 a] t by simp
qed

lemma push12_minus: "push_bit 12 (- a) = - push_bit 12 (a :: 64 word)"
  by (simp add: push_bit_eq_mult)

section \<open>The pages of an address space\<close>

text \<open>
  The abstract content of a list of areas: the flags, the file and the page offset of each mapped
  address.  \<open>VM_SOFTDIRTY\<close> does not count, since areas are merged over it.
\<close>

type_synonym page_attr = "64 word \<times> file_ptr option \<times> 64 word"

definition vma_covers :: "vm_area_struct \<Rightarrow> 64 word \<Rightarrow> bool" where
  "vma_covers v a \<longleftrightarrow> vm_start v \<le> a \<and> a < vm_end v"

definition page_attr :: "vm_area_struct \<Rightarrow> 64 word \<Rightarrow> page_attr" where
  "page_attr v a = (vm_flags v AND NOT VM_SOFTDIRTY, vm_file v, vm_pgoff v + drop_bit 12 (a - vm_start v))"

fun view_of :: "vm_area_struct list \<Rightarrow> 64 word \<Rightarrow> page_attr option" where
  "view_of [] a = None"
| "view_of (v # vs) a = (if vma_covers v a then Some (page_attr v a) else view_of vs a)"

definition mm_view :: "mm_struct \<Rightarrow> 64 word \<Rightarrow> page_attr option" where
  "mm_view mm = view_of (mmap mm)"

lemma view_of_append: "view_of (vs @ ws) a = (case view_of vs a of None \<Rightarrow> view_of ws a | Some x \<Rightarrow> Some x)"
  by (induction vs) auto

lemma view_of_None: "view_of vs a = None \<longleftrightarrow> (\<forall>v\<in>set vs. \<not> vma_covers v a)"
  by (induction vs) auto

lemma view_of_mid: "view_of ms = view_of ms' \<Longrightarrow> view_of (pre @ ms @ post) = view_of (pre @ ms' @ post)"
  by (simp add: view_of_append fun_eq_iff split: option.split)

lemma view_of_range:
  assumes "\<And>a. view_of ms' a = (if lo \<le> a \<and> a < hi then Some (g a) else view_of ms a)"
    and "\<And>v. v \<in> set pre \<Longrightarrow> vm_end v \<le> lo"
  shows "view_of (pre @ ms' @ post) a = (if lo \<le> a \<and> a < hi then Some (g a) else view_of (pre @ ms @ post) a)"
proof -
  have "view_of pre a = None" if "lo \<le> a"
    using assms(2) that by (auto simp: view_of_None vma_covers_def not_less) (meson order.trans)
  then show ?thesis using assms(1) [of a] by (auto simp: view_of_append split: option.split)
qed

lemma view_of_split:
  assumes "vm_start v \<le> a" "a \<le> vm_end v" "aligned (vm_start v)" "aligned a"
    and "vm_flags l = vm_flags v" "vm_flags r = vm_flags v" "vm_file l = vm_file v" "vm_file r = vm_file v"
    and "vm_start l = vm_start v" "vm_end l = a" "vm_pgoff l = vm_pgoff v"
    and "vm_start r = a" "vm_end r = vm_end v" "vm_pgoff r = vm_pgoff v + drop_bit 12 (a - vm_start v)"
  shows "view_of [l, r] = view_of [v]"
proof
  fix x
  show "view_of [l, r] x = view_of [v] x"
    using assms drop12_diff [of "vm_start v" a x] by (auto simp: vma_covers_def page_attr_def algebra_simps)
qed

end
