(* ===== verification/Vma_Adjust.thy ===== *)
theory Vma_Adjust
  imports Mm_View
begin

text \<open>
  \<open>__vma_adjust\<close> and \<open>vma_merge\<close> (\<open>mm/mmap.c\<close>): moving the boundaries of an area over its neighbours.
  The lemmas give the new list of areas in each of the eight cases of the comment on \<open>vma_merge\<close>;
  the relation \<open>now_maps\<close> says that the tree, the count of areas, the highest end and the references
  to files agree with a list of areas.
\<close>

section \<open>Adjusting an area\<close>

text \<open>
  \<open>__vma_adjust\<close> first works out which areas change: \<open>ad_vma\<close> and \<open>ad_next\<close> are its variables \<open>vma\<close>
  and \<open>next\<close> (swapped when \<open>remove_next\<close> is 3), \<open>ad_end\<close> the end of the first pass.
\<close>

record adjust_plan =
  ad_vma :: vma_ptr
  ad_next :: "vma_ptr option"
  ad_end :: "64 word"
  ad_adjust_next :: "64 word"
  ad_remove_next :: nat
  ad_exporter :: "vma_ptr option"
  ad_importer :: "vma_ptr option"

definition vma_adjust_plan ::
    "mm_struct \<Rightarrow> vma_ptr \<Rightarrow> 64 word \<Rightarrow> vm_area_struct option \<Rightarrow> vma_ptr option \<Rightarrow> adjust_plan" where
  "vma_adjust_plan mm vma end ins expand =
     (let plain = \<lparr>ad_vma = vma, ad_next = vm_next mm vma, ad_end = end, ad_adjust_next = 0, ad_remove_next = 0,
                   ad_exporter = None, ad_importer = None\<rparr>
      in case vm_next mm vma of
           None \<Rightarrow> plain
         | Some next \<Rightarrow>
             if ins \<noteq> None then plain
             else if end \<ge> vm_end (vma_at mm next) then
               if expand = Some next
               then plain\<lparr>ad_remove_next := 3, ad_vma := next, ad_next := Some vma, ad_exporter := Some vma, ad_importer := Some next\<rparr>
               else
                 let remove_next = (if end > vm_end (vma_at mm next) then 2 else 1)
                 in plain\<lparr>ad_remove_next := remove_next, ad_end := vm_end (vma_at mm next), ad_importer := Some vma,
                      ad_exporter := if remove_next = 2 \<and> anon_vma (vma_at mm next) = None then vm_next mm next else Some next\<rparr>
             else if end > vm_start (vma_at mm next)
             then plain\<lparr>ad_adjust_next := drop_bit 12 (end - vm_start (vma_at mm next)), ad_exporter := Some next, ad_importer := Some vma\<rparr>
             else if end < vm_end (vma_at mm vma)
             then plain\<lparr>ad_adjust_next := - drop_bit 12 (vm_end (vma_at mm vma) - end), ad_exporter := Some vma, ad_importer := Some next\<rparr>
             else plain)"

text \<open>An area that takes pages over takes the \<open>anon_vma\<close> over too.\<close>

definition vma_adjust_import :: "mm_env \<Rightarrow> vma_ptr option \<Rightarrow> vma_ptr option \<Rightarrow> mm_struct \<Rightarrow> int \<times> mm_struct" where
  "vma_adjust_import E exporter importer mm =
     (case (exporter, importer) of
        (Some e, Some i) \<Rightarrow>
          if anon_vma (vma_at mm e) \<noteq> None \<and> anon_vma (vma_at mm i) = None then
            let (error, v) = anon_vma_clone E ((vma_at mm i)\<lparr>anon_vma := anon_vma (vma_at mm e)\<rparr>) (vma_at mm e)
            in (error, upd_vma i (\<lambda>_. v) mm)
          else (0, mm)
      | _ \<Rightarrow> (0, mm))"

text \<open>
  One pass from the label \<open>again\<close> on.  \<open>file\<close> is the file of the area the function was called for.
  \<open>None\<close> is a \<open>BUG()\<close> or a null pointer.
\<close>

definition vma_adjust_pass ::
    "mm_env \<Rightarrow> vma_ptr \<Rightarrow> vma_ptr option \<Rightarrow> 64 word \<Rightarrow> 64 word \<Rightarrow> 64 word \<Rightarrow> 64 word \<Rightarrow> bool \<Rightarrow>
     vm_area_struct option \<Rightarrow> file_ptr option \<Rightarrow> mmst \<Rightarrow> mmst option" where
  "vma_adjust_pass E vma next start end pgoff adjust_next remove_next ins f s =
     (let s = (case (f, ins) of (Some _, Some i) \<Rightarrow> raw_vma_link_file E i s | _ \<Rightarrow> s);
          end_changed = (end \<noteq> vm_end (vma_at (st_mm s) vma));
          s = s\<lparr>st_mm := upd_vma vma (\<lambda>v. v\<lparr>vm_start := start, vm_end := end, vm_pgoff := pgoff\<rparr>) (st_mm s)\<rparr>;
          s = (case next of
                 Some n \<Rightarrow>
                   if adjust_next \<noteq> 0
                   then s\<lparr>st_mm := upd_vma n (\<lambda>v. v\<lparr>vm_start := vm_start v + push_bit 12 adjust_next, vm_pgoff := vm_pgoff v + adjust_next\<rparr>) (st_mm s)\<rparr>
                   else s
               | None \<Rightarrow> s)
      in if remove_next then
           case next of
             None \<Rightarrow> None
           | Some n \<Rightarrow>
               let nv = vma_at (st_mm s) n;
                   s = s\<lparr>st_mm := raw_vma_unlink E n (st_mm s)\<rparr>;
                   s = (case f of None \<Rightarrow> s | Some g \<Rightarrow> raw_remove_shared_vm_struct E nv g s);
                   s = (case f of None \<Rightarrow> s | Some g \<Rightarrow> s\<lparr>st_heap := fput (vfs E) g (st_heap s)\<rparr>)
               in Some (s\<lparr>st_mm := (st_mm s)\<lparr>map_count := map_count (st_mm s) - 1\<rparr>\<rparr>)
         else case ins of
           Some i \<Rightarrow> map_option (\<lambda>mm. s\<lparr>st_mm := mm\<rparr>) (raw_insert_vm_struct E i (st_mm s))
         | None \<Rightarrow> Some (if end_changed \<and> next = None then s\<lparr>st_mm := (st_mm s)\<lparr>highest_vm_end := end\<rparr>\<rparr> else s))"

definition raw_vma_adjust ::
    "mm_env \<Rightarrow> vma_ptr \<Rightarrow> 64 word \<Rightarrow> 64 word \<Rightarrow> 64 word \<Rightarrow> vm_area_struct option \<Rightarrow> vma_ptr option \<Rightarrow>
     mmst \<Rightarrow> (int \<times> mmst) option" where
  "raw_vma_adjust E vma start end pgoff ins expand s =
     (let f = vm_file (vma_at (st_mm s) vma);
          p = vma_adjust_plan (st_mm s) vma end ins expand;
          (error, mm) = vma_adjust_import E (ad_exporter p) (ad_importer p) (st_mm s);
          s = s\<lparr>st_mm := mm\<rparr>
      in if error \<noteq> 0 then Some (error, s)
         else do {
           s \<leftarrow> vma_adjust_pass E (ad_vma p) (ad_next p) start (ad_end p) pgoff (ad_adjust_next p) (ad_remove_next p \<noteq> 0) ins f s;
           if ad_remove_next p = 2 then do {
             next \<leftarrow> vm_next (st_mm s) (ad_vma p);
             s \<leftarrow> vma_adjust_pass E (ad_vma p) (Some next) start (vm_end (vma_at (st_mm s) next)) pgoff 0 True ins f s;
             Some (0, s)
           } else Some (0, s)
         })"

definition vma_adjust ::
    "mm_env \<Rightarrow> vma_ptr \<Rightarrow> 64 word \<Rightarrow> 64 word \<Rightarrow> 64 word \<Rightarrow> vm_area_struct option \<Rightarrow> mmst \<Rightarrow> (int \<times> mmst) option" where
  "vma_adjust E vma start end pgoff ins s = raw_vma_adjust E vma start end pgoff ins None s"

section \<open>Merging\<close>

definition VM_SPECIAL :: "64 word" where
  "VM_SPECIAL = VM_IO OR VM_DONTEXPAND OR VM_PFNMAP OR VM_MIXEDMAP"

definition is_mergeable_vma :: "vm_area_struct \<Rightarrow> file_ptr option \<Rightarrow> 64 word \<Rightarrow> nat \<Rightarrow> bool" where
  "is_mergeable_vma vma f flags uffd_ctx \<longleftrightarrow>
     (vm_flags vma XOR flags) AND NOT VM_SOFTDIRTY = 0 \<and> vm_file vma = f \<and>
     (case vm_ops vma of None \<Rightarrow> True | Some ops \<Rightarrow> \<not> has_close ops) \<and> vm_userfaultfd_ctx vma = uffd_ctx"

definition is_mergeable_anon_vma :: "nat option \<Rightarrow> nat option \<Rightarrow> vm_area_struct option \<Rightarrow> bool" where
  "is_mergeable_anon_vma anon_vma1 anon_vma2 vma =
     (if (anon_vma1 = None \<or> anon_vma2 = None) \<and> (case vma of None \<Rightarrow> True | Some v \<Rightarrow> length (anon_vma_chain v) = 1)
      then True else anon_vma1 = anon_vma2)"

definition can_vma_merge_before :: "vm_area_struct \<Rightarrow> 64 word \<Rightarrow> nat option \<Rightarrow> file_ptr option \<Rightarrow> 64 word \<Rightarrow> nat \<Rightarrow> bool" where
  "can_vma_merge_before vma flags anon f pgoff uffd_ctx \<longleftrightarrow>
     is_mergeable_vma vma f flags uffd_ctx \<and> is_mergeable_anon_vma anon (anon_vma vma) (Some vma) \<and> vm_pgoff vma = pgoff"

definition can_vma_merge_after :: "vm_area_struct \<Rightarrow> 64 word \<Rightarrow> nat option \<Rightarrow> file_ptr option \<Rightarrow> 64 word \<Rightarrow> nat \<Rightarrow> bool" where
  "can_vma_merge_after vma flags anon f pgoff uffd_ctx \<longleftrightarrow>
     is_mergeable_vma vma f flags uffd_ctx \<and> is_mergeable_anon_vma anon (anon_vma vma) (Some vma) \<and>
     vm_pgoff vma + vma_pages vma = pgoff"

definition vma_merge ::
    "mm_env \<Rightarrow> vma_ptr option \<Rightarrow> 64 word \<Rightarrow> 64 word \<Rightarrow> 64 word \<Rightarrow> nat option \<Rightarrow> file_ptr option \<Rightarrow> 64 word \<Rightarrow> nat \<Rightarrow> nat \<Rightarrow>
     mmst \<Rightarrow> (vma_ptr option \<times> mmst) option" where
  "vma_merge E prev addr end flags anon f pgoff policy uffd_ctx s =
     (let mm = st_mm s;
          pglen = drop_bit 12 (end - addr);
          area = (case prev of Some p \<Rightarrow> vm_next mm p | None \<Rightarrow> mm_first mm);
          next = (case area of Some a \<Rightarrow> if vm_end (vma_at mm a) = end then vm_next mm a else area | None \<Rightarrow> None);
          before_next = (\<lambda>n. end = vm_start (vma_at mm n) \<and> mpol_equal E policy (vm_policy (vma_at mm n)) \<and>
              can_vma_merge_before (vma_at mm n) flags anon f (pgoff + pglen) uffd_ctx);
          front = (case next of
              None \<Rightarrow> Some (None, s)
            | Some n \<Rightarrow>
                if before_next n then
                  case prev of
                    Some p \<Rightarrow>
                      if addr < vm_end (vma_at mm p) then do {
                        (err, s) \<leftarrow> raw_vma_adjust E p (vm_start (vma_at mm p)) addr (vm_pgoff (vma_at mm p)) None (Some n) s;
                        Some (if err \<noteq> 0 then None else area, s)
                      } else do {
                        a \<leftarrow> area;
                        (err, s) \<leftarrow> raw_vma_adjust E a addr (vm_end (vma_at mm n)) (vm_pgoff (vma_at mm n) - pglen) None (Some n) s;
                        Some (if err \<noteq> 0 then None else Some n, s)
                      }
                  | None \<Rightarrow> do {
                        a \<leftarrow> area;
                        (err, s) \<leftarrow> raw_vma_adjust E a addr (vm_end (vma_at mm n)) (vm_pgoff (vma_at mm n) - pglen) None (Some n) s;
                        Some (if err \<noteq> 0 then None else Some n, s)
                      }
                else Some (None, s))
      in if flags AND VM_SPECIAL \<noteq> 0 then Some (None, s)
         else case prev of
           None \<Rightarrow> front
         | Some p \<Rightarrow>
             if vm_end (vma_at mm p) = addr \<and> mpol_equal E (vm_policy (vma_at mm p)) policy \<and>
                can_vma_merge_after (vma_at mm p) flags anon f pgoff uffd_ctx
             then do {
               (err, s) \<leftarrow> (case next of
                   Some n \<Rightarrow>
                     if before_next n \<and> is_mergeable_anon_vma (anon_vma (vma_at mm p)) (anon_vma (vma_at mm n)) None
                     then raw_vma_adjust E p (vm_start (vma_at mm p)) (vm_end (vma_at mm n)) (vm_pgoff (vma_at mm p)) None (Some p) s
                     else raw_vma_adjust E p (vm_start (vma_at mm p)) end (vm_pgoff (vma_at mm p)) None (Some p) s
                 | None \<Rightarrow> raw_vma_adjust E p (vm_start (vma_at mm p)) end (vm_pgoff (vma_at mm p)) None (Some p) s);
               Some (if err \<noteq> 0 then None else Some p, s)
             }
             else front)"

section \<open>Sharing of anonymous areas\<close>

definition anon_vma_compatible :: "mm_env \<Rightarrow> vm_area_struct \<Rightarrow> vm_area_struct \<Rightarrow> bool" where
  "anon_vma_compatible E a b \<longleftrightarrow>
     vm_end a = vm_start b \<and> mpol_equal E (vm_policy a) (vm_policy b) \<and> vm_file a = vm_file b \<and>
     (vm_flags a XOR vm_flags b) AND NOT (VM_READ OR VM_WRITE OR VM_EXEC OR VM_SOFTDIRTY) = 0 \<and>
     vm_pgoff b = vm_pgoff a + drop_bit 12 (vm_start b - vm_start a)"

definition reusable_anon_vma :: "mm_env \<Rightarrow> vm_area_struct \<Rightarrow> vm_area_struct \<Rightarrow> vm_area_struct \<Rightarrow> nat option" where
  "reusable_anon_vma E old a b =
     (if anon_vma_compatible E a b \<and> anon_vma old \<noteq> None \<and> length (anon_vma_chain old) = 1 then anon_vma old else None)"

definition find_mergeable_anon_vma :: "mm_env \<Rightarrow> mm_struct \<Rightarrow> vma_ptr \<Rightarrow> nat option" where
  "find_mergeable_anon_vma E mm p =
     (let vma = vma_at mm p;
          try_prev = (case vm_prev mm p of
              None \<Rightarrow> None
            | Some q \<Rightarrow> reusable_anon_vma E (vma_at mm q) (vma_at mm q) vma)
      in case vm_next mm p of
           None \<Rightarrow> try_prev
         | Some q \<Rightarrow> (case reusable_anon_vma E (vma_at mm q) vma (vma_at mm q) of
              Some a \<Rightarrow> Some a
            | None \<Rightarrow> try_prev))"


section \<open>Balance of references\<close>

text \<open>
  The references to a file, the writable mappings of an inode and the denials of write access that
  are held by anything but the areas of the address space.
\<close>

definition vma_tag :: "vm_area_struct \<Rightarrow> file_ptr option \<times> 64 word" where
  "vma_tag v = (vm_file v, vm_flags v)"

definition shared_in :: "mm_env \<Rightarrow> nat \<Rightarrow> file_ptr option \<times> 64 word \<Rightarrow> bool" where
  "shared_in E m t \<longleftrightarrow> map_option (f_mapping E) (fst t) = Some m \<and> snd t AND VM_SHARED \<noteq> 0"

definition denies_in :: "mm_env \<Rightarrow> nat \<Rightarrow> file_ptr option \<times> 64 word \<Rightarrow> bool" where
  "denies_in E m t \<longleftrightarrow> map_option (f_mapping E) (fst t) = Some m \<and> snd t AND VM_DENYWRITE \<noteq> 0"

definition bal :: "mm_env \<Rightarrow> mmst \<Rightarrow> (file_ptr \<Rightarrow> int) \<times> (nat \<Rightarrow> int) \<times> (nat \<Rightarrow> int)" where
  "bal E s = (let ts = map vma_tag (mmap (st_mm s)) in
     (\<lambda>f. f_count (st_heap s f) - int (length (filter (\<lambda>t. fst t = Some f) ts)),
      \<lambda>m. i_mmap_writable (st_spaces s m) - int (length (filter (shared_in E m) ts)),
      \<lambda>m. i_writecount (st_spaces s m) + int (length (filter (denies_in E m) ts))))"

lemma bal_same:
  "st_heap s' = st_heap s \<Longrightarrow> st_spaces s' = st_spaces s \<Longrightarrow>
   map vma_tag (mmap (st_mm s')) = map vma_tag (mmap (st_mm s)) \<Longrightarrow> bal E s' = bal E s"
  by (simp add: bal_def)

lemma vma_tag_upd [simp]: "vma_tag (v\<lparr>vm_start := a\<rparr>) = vma_tag v" "vma_tag (v\<lparr>vm_end := a\<rparr>) = vma_tag v"
  "vma_tag (v\<lparr>vm_pgoff := a\<rparr>) = vma_tag v" "vma_tag (v\<lparr>vm_policy := b\<rparr>) = vma_tag v" "vma_tag (v\<lparr>vm_id := b\<rparr>) = vma_tag v"
  "vma_tag (v\<lparr>anon_vma := c\<rparr>) = vma_tag v" "vma_tag (v\<lparr>anon_vma_chain := d\<rparr>) = vma_tag v"
  by (simp_all add: vma_tag_def)

section \<open>Areas that differ in their anonymous memory only\<close>

definition anon_only :: "vm_area_struct \<Rightarrow> vm_area_struct \<Rightarrow> bool" where
  "anon_only v w \<longleftrightarrow> w = v\<lparr>anon_vma := anon_vma w, anon_vma_chain := anon_vma_chain w\<rparr>"

definition clone_ok :: "mm_env \<Rightarrow> bool" where
  "clone_ok E \<longleftrightarrow> (\<forall>d v. anon_only d (snd (anon_vma_clone E d v)))"

lemma anon_only_refl [simp, intro]: "anon_only v v"
  by (simp add: anon_only_def)

lemma anon_onlyD:
  assumes "anon_only v w"
  shows "vm_id w = vm_id v" "vm_start w = vm_start v" "vm_end w = vm_end v" "vm_flags w = vm_flags v"
    "vm_pgoff w = vm_pgoff v" "vm_file w = vm_file v" "vm_policy w = vm_policy v" "vm_ops w = vm_ops v"
    "vm_userfaultfd_ctx w = vm_userfaultfd_ctx v" "vm_page_prot w = vm_page_prot v"
proof -
  obtain a c where w: "w = v\<lparr>anon_vma := a, anon_vma_chain := c\<rparr>" using assms unfolding anon_only_def by blast
  show "vm_id w = vm_id v" "vm_start w = vm_start v" "vm_end w = vm_end v" "vm_flags w = vm_flags v"
    "vm_pgoff w = vm_pgoff v" "vm_file w = vm_file v" "vm_policy w = vm_policy v" "vm_ops w = vm_ops v"
    "vm_userfaultfd_ctx w = vm_userfaultfd_ctx v" "vm_page_prot w = vm_page_prot v"
    by (simp_all add: w)
qed

lemma anon_only_trans: "anon_only u v \<Longrightarrow> anon_only v w \<Longrightarrow> anon_only u w"
  unfolding anon_only_def by (cases u; cases v; cases w) simp

lemma anon_only_upd: "anon_only v w \<Longrightarrow> anon_only (v\<lparr>vm_start := a, vm_end := b, vm_pgoff := c\<rparr>) (w\<lparr>vm_start := a, vm_end := b, vm_pgoff := c\<rparr>)"
  unfolding anon_only_def by (cases v; cases w) simp

lemma anon_only_upd2: "anon_only v w \<Longrightarrow> anon_only (v\<lparr>vm_start := a, vm_pgoff := c\<rparr>) (w\<lparr>vm_start := a, vm_pgoff := c\<rparr>)"
  unfolding anon_only_def by (cases v; cases w) simp

abbreviation anons :: "vm_area_struct list \<Rightarrow> vm_area_struct list \<Rightarrow> bool" where
  "anons \<equiv> list_all2 anon_only"

lemma anons_refl [simp, intro]: "anons vs vs"
  by (simp add: list_all2_refl)

lemma anons_tags: "anons vs ws \<Longrightarrow> map vma_tag ws = map vma_tag vs"
  by (induction rule: list_all2_induct) (auto simp: vma_tag_def anon_onlyD)

lemma anons_view: "anons vs ws \<Longrightarrow> view_of ws = view_of vs"
proof (induction rule: list_all2_induct)
  case (Cons v vs w ws)
  then show ?case by (auto simp: fun_eq_iff vma_covers_def page_attr_def anon_onlyD)
qed simp

lemma anons_ids: "anons vs ws \<Longrightarrow> map vm_id ws = map vm_id vs"
  by (induction rule: list_all2_induct) (auto simp: anon_onlyD)

lemma anons_highest: "anons vs ws \<Longrightarrow> highest_end ws = highest_end vs"
proof (induction rule: list_all2_induct)
  case (Cons v vs w ws)
  then show ?case by (auto simp: highest_end_def anon_onlyD dest: list_all2_lengthD)
qed simp

lemma anons_areas: "anons vs ws \<Longrightarrow> areas_ok ws = areas_ok vs"
proof (induction rule: list_all2_induct)
  case (Cons v vs w ws)
  have "(\<forall>u\<in>set ws. P (vm_start u) (vm_id u)) = (\<forall>u\<in>set vs. P (vm_start u) (vm_id u))" for P
    using Cons.hyps(2) by (induction rule: list_all2_induct) (auto simp: anon_onlyD)
  from this [of "\<lambda>a b. vm_end v \<le> a \<and> vm_id v \<noteq> b"] show ?case
    using Cons by (simp add: areas_ok_Cons area_ok_def anon_onlyD)
qed simp

section \<open>The outcome of an operation on the areas\<close>

text \<open>
  \<open>s'\<close> is \<open>s\<close> with the areas \<open>vs\<close>, up to their anonymous memory: the tree, the count and the highest
  end belong to them, and the references are balanced.
\<close>

definition now_maps :: "mm_env \<Rightarrow> mmst \<Rightarrow> mmst \<Rightarrow> vm_area_struct list \<Rightarrow> bool" where
  "now_maps E s s' vs \<longleftrightarrow>
     (\<exists>t ws. anons vs ws \<and> inorder t = map vm_id vs \<and>
        st_mm s' = (st_mm s)\<lparr>mmap := ws, mm_rb := t, map_count := int (length vs), highest_vm_end := highest_end vs\<rparr>) \<and>
     st_cur s' = st_cur s \<and> vm_committed_as s' = vm_committed_as s \<and> bal E s' = bal E s"

lemma now_mapsD:
  assumes "now_maps E s s' vs"
  shows "anons vs (mmap (st_mm s'))" "mm_view (st_mm s') = view_of vs" "bal E s' = bal E s"
    "st_cur s' = st_cur s" "vm_committed_as s' = vm_committed_as s" "map_count (st_mm s') = int (length vs)"
    "total_vm (st_mm s') = total_vm (st_mm s)" "locked_vm (st_mm s') = locked_vm (st_mm s)"
    "areas_ok vs \<Longrightarrow> mm_ok (st_mm s')" "mm_fixed (st_mm s') = mm_fixed (st_mm s)"
  using assms
  by (auto simp: now_maps_def mm_view_def anons_view mm_ok_def tree_ok_def anons_areas anons_ids anons_highest
      dest: list_all2_lengthD)

lemma now_maps_refl: "mm_ok (st_mm s) \<Longrightarrow> now_maps E s s (mmap (st_mm s))"
  unfolding now_maps_def mm_ok_def tree_ok_def
  by (intro conjI exI [of _ "mm_rb (st_mm s)"] exI [of _ "mmap (st_mm s)"]) auto


lemma anon_only_sym: "anon_only v w \<Longrightarrow> anon_only w v"
  unfolding anon_only_def by (cases v; cases w) simp

lemma anons_sym: "anons vs ws \<Longrightarrow> anons ws vs"
  by (induction rule: list_all2_induct) (auto intro: anon_only_sym)

lemma anons_trans: "anons us vs \<Longrightarrow> anons vs ws \<Longrightarrow> anons us ws"
  by (rule list_all2_trans) (auto intro: anon_only_trans)

lemma now_maps_anons:
  assumes "now_maps E s s' vs" "anons vs' vs"
  shows "now_maps E s s' vs'"
proof -
  from assms(1) obtain t ws where t: "anons vs ws" "inorder t = map vm_id vs"
    "st_mm s' = (st_mm s)\<lparr>mmap := ws, mm_rb := t, map_count := int (length vs), highest_vm_end := highest_end vs\<rparr>"
    by (auto simp: now_maps_def)
  note eq = anons_ids [OF assms(2)] anons_highest [OF assms(2)] list_all2_lengthD [OF assms(2)]
  from t eq anons_trans [OF assms(2) t(1)]
  have "\<exists>t ws. anons vs' ws \<and> inorder t = map vm_id vs' \<and>
      st_mm s' = (st_mm s)\<lparr>mmap := ws, mm_rb := t, map_count := int (length vs'), highest_vm_end := highest_end vs'\<rparr>"
    by (intro exI [of _ t] exI [of _ ws]) simp
  with assms(1) show ?thesis by (simp add: now_maps_def)
qed

lemma now_maps_trans:
  assumes "now_maps E s s' vs" "now_maps E s' s'' ws"
  shows "now_maps E s s'' ws"
proof -
  obtain t us where t: "st_mm s' = (st_mm s)\<lparr>mmap := us, mm_rb := t, map_count := int (length vs), highest_vm_end := highest_end vs\<rparr>"
    using assms(1) by (auto simp: now_maps_def)
  obtain t' us' where "anons ws us'" "inorder t' = map vm_id ws"
    "st_mm s'' = (st_mm s')\<lparr>mmap := us', mm_rb := t', map_count := int (length ws), highest_vm_end := highest_end ws\<rparr>"
    using assms(2) by (auto simp: now_maps_def)
  then have "anons ws us' \<and> inorder t' = map vm_id ws \<and>
      st_mm s'' = (st_mm s)\<lparr>mmap := us', mm_rb := t', map_count := int (length ws), highest_vm_end := highest_end ws\<rparr>"
    by (simp add: t)
  with assms show ?thesis unfolding now_maps_def by auto
qed

lemma vma_position_anon: "anons (pre @ v # post) ws \<Longrightarrow> \<exists>pre' v' post'. ws = pre' @ v' # post' \<and> anons pre pre' \<and> anon_only v v' \<and> anons post post'"
  by (auto simp: list_all2_append1 list_all2_Cons1)

lemma upd_vma_eq: "vma_position mm pre v post \<Longrightarrow> upd_vma (vm_id v) f mm = mm\<lparr>mmap := pre @ f v # post\<rparr>"
  using vma_position_upd [of mm pre v post f] by (simp add: upd_vma_def)

lemma raw_vma_unlink_eq: "vma_position mm pre v post \<Longrightarrow>
    raw_vma_unlink E (vm_id v) mm = mm\<lparr>mmap := pre @ post, mm_rb := rb_erase_augmented E (vm_id v) (mm_rb mm)\<rparr>"
  using vma_position_unlink [of mm pre v post] by (simp add: raw_vma_unlink_def)

section \<open>Importing the anonymous memory\<close>

lemma vma_adjust_import_anons:
  assumes E: "clone_ok E" and ok: "areas_ok (mmap mm)" and im: "\<And>p. im = Some p \<Longrightarrow> p \<in> vm_id ` set (mmap mm)"
    and r: "vma_adjust_import E ex im mm = (err, mm')"
  obtains ws where "anons (mmap mm) ws" "mm' = mm\<lparr>mmap := ws\<rparr>"
proof (cases "mm' = mm")
  case True
  then show thesis by (intro that [of "mmap mm"]) auto
next
  case False
    with r obtain a e i w where i: "im = Some i" "anon_vma_clone E ((vma_at mm i)\<lparr>anon_vma := a\<rparr>) e = (err, w)"
      "mm' = upd_vma i (\<lambda>_. w) mm"
      by (auto simp: vma_adjust_import_def split: option.splits if_splits prod.splits)
    from im [OF i(1)] obtain v where v: "v \<in> set (mmap mm)" "i = vm_id v" by auto
    obtain pre post where sp: "mmap mm = pre @ v # post" using v(1) by (meson split_list)
    have pos: "vma_position mm pre v post" by (rule vma_positionI [OF ok sp])
    have "anon_only (v\<lparr>anon_vma := a\<rparr>) w"
      using E i(2) vma_position_at(2) [OF pos] unfolding clone_ok_def v(2) by (metis snd_conv)
    then have "anon_only v w" unfolding anon_only_def by (cases v; cases w) simp
    then show thesis
      by (intro that [of "pre @ w # post"])
        (simp_all add: sp i(3) v(2) upd_vma_eq [OF pos] list_all2_append)
qed

section \<open>The passes\<close>

lemma pass_plain:
  assumes ok: "areas_ok (mmap (st_mm s))" and sp: "mmap (st_mm s) = pre @ v # post"
  shows "vma_adjust_pass E (vm_id v) next start end pgoff 0 False None f s =
    Some (s\<lparr>st_mm := (st_mm s)\<lparr>mmap := pre @ v\<lparr>vm_start := start, vm_end := end, vm_pgoff := pgoff\<rparr> # post,
       highest_vm_end := if end \<noteq> vm_end v \<and> next = None then end else highest_vm_end (st_mm s)\<rparr>\<rparr>)"
proof -
  have pos: "vma_position (st_mm s) pre v post" by (rule vma_positionI [OF ok sp])
  show ?thesis
    by (cases "end \<noteq> vm_end v \<and> next = None")
      (auto simp: vma_adjust_pass_def Let_def upd_vma_eq [OF pos] vma_position_at [OF pos] split: option.splits)
qed

lemma pass_shift:
  assumes ok: "areas_ok (mmap (st_mm s))" and sp: "mmap (st_mm s) = pre @ v # n # post" and d: "d \<noteq> 0"
  shows "vma_adjust_pass E (vm_id v) (Some (vm_id n)) start end pgoff d False None f s =
    Some (s\<lparr>st_mm := (st_mm s)\<lparr>mmap := pre @ v\<lparr>vm_start := start, vm_end := end, vm_pgoff := pgoff\<rparr> #
       n\<lparr>vm_start := vm_start n + push_bit 12 d, vm_pgoff := vm_pgoff n + d\<rparr> # post\<rparr>\<rparr>)"
proof -
  let ?v = "v\<lparr>vm_start := start, vm_end := end, vm_pgoff := pgoff\<rparr>"
  have pos: "vma_position (st_mm s) pre v (n # post)" by (rule vma_positionI [OF ok sp])
  have pos': "vma_position ((st_mm s)\<lparr>mmap := pre @ ?v # n # post\<rparr>) (pre @ [?v]) n post"
    using ok unfolding sp by (simp add: vma_position_def areas_ok_append areas_ok_Cons) metis
  show ?thesis
    using d by (cases f) (simp_all add: vma_adjust_pass_def Let_def upd_vma_eq [OF pos] upd_vma_eq [OF pos'])
qed

text \<open>What a removed area gives back.\<close>

definition released :: "mm_env \<Rightarrow> vm_area_struct \<Rightarrow> file_ptr option \<Rightarrow> mmst \<Rightarrow> mmst" where
  "released E v f s = (case f of
      None \<Rightarrow> s
    | Some g \<Rightarrow> let s = raw_remove_shared_vm_struct E v g s in s\<lparr>st_heap := fput (vfs E) g (st_heap s)\<rparr>)"

lemma released_st [simp]:
  "st_mm (released E v f s) = st_mm s" "st_cur (released E v f s) = st_cur s"
  "vm_committed_as (released E v f s) = vm_committed_as s"
  "released E v f (st_mm_update g s) = st_mm_update g (released E v f s)"
  by (simp_all add: released_def raw_remove_shared_vm_struct_def upd_space_def Let_def split: option.splits)

lemma pass_remove:
  assumes ok: "areas_ok (mmap (st_mm s))" and sp: "mmap (st_mm s) = pre @ v # n # post"
  shows "vma_adjust_pass E (vm_id v) (Some (vm_id n)) start end pgoff 0 True None f s =
    Some ((released E n f s)\<lparr>st_mm := (st_mm s)\<lparr>mmap := pre @ v\<lparr>vm_start := start, vm_end := end, vm_pgoff := pgoff\<rparr> # post,
       mm_rb := rb_erase_augmented E (vm_id n) (mm_rb (st_mm s)), map_count := map_count (st_mm s) - 1\<rparr>\<rparr>)"
proof -
  let ?v = "v\<lparr>vm_start := start, vm_end := end, vm_pgoff := pgoff\<rparr>"
  have pos: "vma_position (st_mm s) pre v (n # post)" by (rule vma_positionI [OF ok sp])
  have pos': "vma_position ((st_mm s)\<lparr>mmap := pre @ ?v # n # post\<rparr>) (pre @ [?v]) n post"
    using ok unfolding sp by (simp add: vma_position_def areas_ok_append areas_ok_Cons) metis
  show ?thesis
    by (cases f) (simp_all add: vma_adjust_pass_def Let_def upd_vma_eq [OF pos] raw_vma_unlink_eq [OF pos'] vma_position_at [OF pos']
        released_def raw_remove_shared_vm_struct_def upd_space_def)
qed

lemma pass_remove_prev:
  assumes ok: "areas_ok (mmap (st_mm s))" and sp: "mmap (st_mm s) = pre @ v # n # post"
  shows "vma_adjust_pass E (vm_id n) (Some (vm_id v)) start end pgoff 0 True None f s =
    Some ((released E v f s)\<lparr>st_mm := (st_mm s)\<lparr>mmap := pre @ n\<lparr>vm_start := start, vm_end := end, vm_pgoff := pgoff\<rparr> # post,
       mm_rb := rb_erase_augmented E (vm_id v) (mm_rb (st_mm s)), map_count := map_count (st_mm s) - 1\<rparr>\<rparr>)"
proof -
  let ?n = "n\<lparr>vm_start := start, vm_end := end, vm_pgoff := pgoff\<rparr>"
  have pos: "vma_position (st_mm s) (pre @ [v]) n post" by (rule vma_positionI [OF ok]) (simp add: sp)
  have pos': "vma_position ((st_mm s)\<lparr>mmap := pre @ v # ?n # post\<rparr>) pre v (?n # post)"
    using ok unfolding sp by (simp add: vma_position_def areas_ok_append areas_ok_Cons) metis
  have eq: "upd_vma (vm_id n) (\<lambda>v. v\<lparr>vm_start := start, vm_end := end, vm_pgoff := pgoff\<rparr>) (st_mm s) = (st_mm s)\<lparr>mmap := pre @ v # ?n # post\<rparr>"
    using upd_vma_eq [OF pos] by simp
  show ?thesis
    by (cases f) (simp_all add: vma_adjust_pass_def Let_def eq raw_vma_unlink_eq [OF pos'] vma_position_at [OF pos']
        released_def raw_remove_shared_vm_struct_def upd_space_def)
qed

lemma bal_released:
  assumes E: "vfs_ok (vfs E)" and f: "vm_file v = f"
    and h: "st_heap s' = st_heap (released E v f s)" "st_spaces s' = st_spaces (released E v f s)"
    and m: "map vma_tag (mmap (st_mm s)) = xs @ vma_tag v # ys" "map vma_tag (mmap (st_mm s')) = xs @ ys"
  shows "bal E s' = bal E s"
  unfolding bal_def m Let_def using f
  by (cases f) (auto simp: h released_def raw_remove_shared_vm_struct_def upd_space_def Let_def vfs_okD [OF E]
      vma_tag_def shared_in_def denies_in_def fun_eq_iff)


text \<open>The passes as outcomes.\<close>

abbreviation (input) resized :: "vm_area_struct \<Rightarrow> 64 word \<Rightarrow> 64 word \<Rightarrow> 64 word \<Rightarrow> vm_area_struct" where
  "resized v start end pgoff \<equiv> v\<lparr>vm_start := start, vm_end := end, vm_pgoff := pgoff\<rparr>"

lemma pass_plain_now:
  assumes mm: "mm_ok (st_mm s)" and sp: "mmap (st_mm s) = pre @ v # post" and nx: "next = None \<longleftrightarrow> post = []"
  shows "\<exists>s'. vma_adjust_pass E (vm_id v) next start end pgoff 0 False None f s = Some s' \<and>
    now_maps E s s' (pre @ resized v start end pgoff # post)"
proof -
  have ok: "areas_ok (mmap (st_mm s))" "inorder (mm_rb (st_mm s)) = map vm_id (mmap (st_mm s))"
    "map_count (st_mm s) = int (length (mmap (st_mm s)))" "highest_vm_end (st_mm s) = highest_end (mmap (st_mm s))"
    using mm by (auto simp: mm_ok_def tree_ok_def)
  let ?s = "s\<lparr>st_mm := (st_mm s)\<lparr>mmap := pre @ resized v start end pgoff # post,
       highest_vm_end := if end \<noteq> vm_end v \<and> next = None then end else highest_vm_end (st_mm s)\<rparr>\<rparr>"
  have "bal E ?s = bal E s" by (rule bal_same) (simp_all add: sp)
  moreover have "st_mm ?s = (st_mm s)\<lparr>mmap := pre @ resized v start end pgoff # post, mm_rb := mm_rb (st_mm s),
      map_count := int (length (pre @ resized v start end pgoff # post)), highest_vm_end := highest_end (pre @ resized v start end pgoff # post)\<rparr>"
    using ok(3,4) nx by (auto simp: sp highest_end_def)
  ultimately have "now_maps E s ?s (pre @ resized v start end pgoff # post)"
    unfolding now_maps_def using ok(2)
    by (intro conjI exI [of _ "mm_rb (st_mm s)"] exI [of _ "pre @ resized v start end pgoff # post"]) (auto simp: sp)
  with pass_plain [OF ok(1) sp] show ?thesis by blast
qed

lemma pass_shift_now:
  assumes mm: "mm_ok (st_mm s)" and sp: "mmap (st_mm s) = pre @ v # n # post" and d: "d \<noteq> 0"
  shows "\<exists>s'. vma_adjust_pass E (vm_id v) (Some (vm_id n)) start end pgoff d False None f s = Some s' \<and>
    now_maps E s s' (pre @ resized v start end pgoff # n\<lparr>vm_start := vm_start n + push_bit 12 d, vm_pgoff := vm_pgoff n + d\<rparr> # post)"
proof -
  have ok: "areas_ok (mmap (st_mm s))" "inorder (mm_rb (st_mm s)) = map vm_id (mmap (st_mm s))"
    "map_count (st_mm s) = int (length (mmap (st_mm s)))" "highest_vm_end (st_mm s) = highest_end (mmap (st_mm s))"
    using mm by (auto simp: mm_ok_def tree_ok_def)
  let ?l = "pre @ resized v start end pgoff # n\<lparr>vm_start := vm_start n + push_bit 12 d, vm_pgoff := vm_pgoff n + d\<rparr> # post"
  let ?s = "s\<lparr>st_mm := (st_mm s)\<lparr>mmap := ?l\<rparr>\<rparr>"
  have "bal E ?s = bal E s" by (rule bal_same) (simp_all add: sp)
  moreover have "st_mm ?s = (st_mm s)\<lparr>mmap := ?l, mm_rb := mm_rb (st_mm s), map_count := int (length ?l), highest_vm_end := highest_end ?l\<rparr>"
    using ok(3,4) by (auto simp: sp highest_end_def)
  ultimately have "now_maps E s ?s ?l"
    unfolding now_maps_def using ok(2)
    by (intro conjI exI [of _ "mm_rb (st_mm s)"] exI [of _ ?l]) (auto simp: sp)
  with pass_shift [OF ok(1) sp d] show ?thesis by blast
qed

lemma erase_now:
  assumes mm: "mm_ok (st_mm s)" and E: "rb_ok E" "vfs_ok (vfs E)" and f: "vm_file r = f"
    and tags: "map vma_tag (mmap (st_mm s)) = xs @ vma_tag r # ys" "map vma_tag l = xs @ ys"
    and l: "map vm_id l = filter (\<lambda>i. i \<noteq> vm_id r) (map vm_id (mmap (st_mm s)))" "int (length l) = map_count (st_mm s) - 1"
      "highest_end l = highest_vm_end (st_mm s)"
    and s': "s' = (released E r f s)\<lparr>st_mm := (st_mm s)\<lparr>mmap := l, mm_rb := rb_erase_augmented E (vm_id r) (mm_rb (st_mm s)),
       map_count := map_count (st_mm s) - 1\<rparr>\<rparr>"
  shows "now_maps E s s' l"
proof -
  have io: "inorder (mm_rb (st_mm s)) = map vm_id (mmap (st_mm s))" "distinct (map vm_id (mmap (st_mm s)))"
    using mm by (auto simp: mm_ok_def tree_ok_def areas_ok_def)
  have t: "inorder (rb_erase_augmented E (vm_id r) (mm_rb (st_mm s))) = map vm_id l"
    using E(1) io by (simp add: rb_ok_def l(1))
  have "bal E s' = bal E s" by (rule bal_released [OF E(2) f]) (simp_all add: s' tags)
  then show ?thesis
    unfolding now_maps_def using t l
    by (intro conjI exI [of _ "rb_erase_augmented E (vm_id r) (mm_rb (st_mm s))"] exI [of _ l]) (simp_all add: s')
qed

lemma filter_ids: "(\<forall>u\<in>set vs. vm_id u \<noteq> i) \<Longrightarrow> filter (\<lambda>j. j \<noteq> i) (map vm_id vs) = map vm_id vs"
  by (induction vs) auto

lemma pass_remove_now:
  assumes mm: "mm_ok (st_mm s)" and E: "rb_ok E" "vfs_ok (vfs E)" and sp: "mmap (st_mm s) = pre @ v # n # post"
    and f: "vm_file n = f" and e: "end = vm_end n"
  shows "\<exists>s'. vma_adjust_pass E (vm_id v) (Some (vm_id n)) start end pgoff 0 True None f s = Some s' \<and>
    now_maps E s s' (pre @ resized v start end pgoff # post)"
proof -
  have ok: "areas_ok (pre @ v # n # post)" using mm sp by (simp add: mm_ok_def tree_ok_def)
  have cnt: "map_count (st_mm s) = int (length (pre @ v # n # post))" "highest_vm_end (st_mm s) = highest_end (pre @ v # n # post)"
    using mm sp by (simp_all add: mm_ok_def)
  have ids: "filter (\<lambda>j. j \<noteq> vm_id n) (map vm_id pre) = map vm_id pre" "filter (\<lambda>j. j \<noteq> vm_id n) (map vm_id post) = map vm_id post"
    "vm_id v \<noteq> vm_id n"
    using ok by (auto simp: areas_ok_append areas_ok_Cons intro!: filter_ids)
  have "now_maps E s ((released E n f s)\<lparr>st_mm := (st_mm s)\<lparr>mmap := pre @ resized v start end pgoff # post,
       mm_rb := rb_erase_augmented E (vm_id n) (mm_rb (st_mm s)), map_count := map_count (st_mm s) - 1\<rparr>\<rparr>) (pre @ resized v start end pgoff # post)"
    by (rule erase_now [OF mm E f _ _ _ _ _ refl, of "map vma_tag pre @ [vma_tag v]" "map vma_tag post" "pre @ resized v start end pgoff # post"])
      (use ids cnt in \<open>simp_all add: sp highest_end_def e\<close>)
  moreover have "areas_ok (mmap (st_mm s))" using ok sp by simp
  ultimately show ?thesis using pass_remove [OF _ sp] by blast
qed

lemma pass_remove_prev_now:
  assumes mm: "mm_ok (st_mm s)" and E: "rb_ok E" "vfs_ok (vfs E)" and sp: "mmap (st_mm s) = pre @ v # n # post"
    and f: "vm_file v = f" and e: "end = vm_end n"
  shows "\<exists>s'. vma_adjust_pass E (vm_id n) (Some (vm_id v)) start end pgoff 0 True None f s = Some s' \<and>
    now_maps E s s' (pre @ resized n start end pgoff # post)"
proof -
  have ok: "areas_ok (pre @ v # n # post)" using mm sp by (simp add: mm_ok_def tree_ok_def)
  have cnt: "map_count (st_mm s) = int (length (pre @ v # n # post))" "highest_vm_end (st_mm s) = highest_end (pre @ v # n # post)"
    using mm sp by (simp_all add: mm_ok_def)
  have ids: "filter (\<lambda>j. j \<noteq> vm_id v) (map vm_id pre) = map vm_id pre" "filter (\<lambda>j. j \<noteq> vm_id v) (map vm_id post) = map vm_id post"
    "vm_id n \<noteq> vm_id v"
    using ok by (auto simp: areas_ok_append areas_ok_Cons intro!: filter_ids)
  have "now_maps E s ((released E v f s)\<lparr>st_mm := (st_mm s)\<lparr>mmap := pre @ resized n start end pgoff # post,
       mm_rb := rb_erase_augmented E (vm_id v) (mm_rb (st_mm s)), map_count := map_count (st_mm s) - 1\<rparr>\<rparr>) (pre @ resized n start end pgoff # post)"
    by (rule erase_now [OF mm E f _ _ _ _ _ refl, of "map vma_tag pre" "vma_tag n # map vma_tag post" "pre @ resized n start end pgoff # post"])
      (use ids cnt in \<open>simp_all add: sp highest_end_def e\<close>)
  moreover have "areas_ok (mmap (st_mm s))" using ok sp by simp
  ultimately show ?thesis using pass_remove_prev [OF _ sp] by blast
qed


section \<open>The cases of an adjustment\<close>

lemma anon_state:
  assumes mm: "mm_ok (st_mm s)" and ws: "anons (mmap (st_mm s)) ws"
  shows "mm_ok (st_mm (s\<lparr>st_mm := (st_mm s)\<lparr>mmap := ws\<rparr>\<rparr>))" "now_maps E s (s\<lparr>st_mm := (st_mm s)\<lparr>mmap := ws\<rparr>\<rparr>) (mmap (st_mm s))"
proof -
  let ?s = "s\<lparr>st_mm := (st_mm s)\<lparr>mmap := ws\<rparr>\<rparr>"
  have "bal E ?s = bal E s" by (rule bal_same) (simp_all add: anons_tags [OF ws])
  then show n: "now_maps E s ?s (mmap (st_mm s))"
    unfolding now_maps_def using mm ws
    by (intro conjI exI [of _ "mm_rb (st_mm s)"] exI [of _ ws]) (auto simp: mm_ok_def tree_ok_def)
  show "mm_ok (st_mm ?s)" by (rule now_mapsD(9) [OF n]) (use mm in \<open>simp add: mm_ok_def tree_ok_def\<close>)
qed

lemma raw_vma_adjust_run:
  assumes mm: "mm_ok (st_mm s)" and E: "clone_ok E"
    and p: "vma_adjust_plan (st_mm s) vma end ins expand =
      \<lparr>ad_vma = q, ad_next = nx, ad_end = e, ad_adjust_next = d, ad_remove_next = rn, ad_exporter = ex, ad_importer = im\<rparr>"
    and im: "\<And>i. im = Some i \<Longrightarrow> i \<in> vm_id ` set (mmap (st_mm s))"
    and n2: "rn \<noteq> 2"
    and pass: "\<And>ws. anons (mmap (st_mm s)) ws \<Longrightarrow>
      \<exists>s'. vma_adjust_pass E q nx start e pgoff d (rn \<noteq> 0) ins (vm_file (vma_at (st_mm s) vma))
             (s\<lparr>st_mm := (st_mm s)\<lparr>mmap := ws\<rparr>\<rparr>) = Some s' \<and> now_maps E s s' vs"
  shows "\<exists>r s'. raw_vma_adjust E vma start end pgoff ins expand s = Some (r, s') \<and>
    now_maps E s s' (if r = 0 then vs else mmap (st_mm s))"
proof -
  obtain err mm' where i: "vma_adjust_import E ex im (st_mm s) = (err, mm')" by fastforce
  have "areas_ok (mmap (st_mm s))" using mm by (simp add: mm_ok_def tree_ok_def)
  from vma_adjust_import_anons [OF E this im i] obtain ws where ws: "anons (mmap (st_mm s)) ws" "mm' = (st_mm s)\<lparr>mmap := ws\<rparr>" by blast
  show ?thesis
  proof (cases "err = 0")
    case True
    from pass [OF ws(1)] obtain s' where "vma_adjust_pass E q nx start e pgoff d (rn \<noteq> 0) ins
        (vm_file (vma_at (st_mm s) vma)) (s\<lparr>st_mm := mm'\<rparr>) = Some s'" "now_maps E s s' vs"
      unfolding ws(2) by blast
    with True n2 show ?thesis
      by (intro exI [of _ 0] exI [of _ s']) (simp add: raw_vma_adjust_def p i Let_def)
  next
    case False
    then have "raw_vma_adjust E vma start end pgoff ins expand s = Some (err, s\<lparr>st_mm := mm'\<rparr>)"
      by (simp add: raw_vma_adjust_def p i Let_def)
    with False anon_state(2) [OF mm ws(1)] show ?thesis unfolding ws(2) by auto
  qed
qed

lemma plan_next:
  assumes mm: "mm_ok (st_mm s)" and sp: "mmap (st_mm s) = pre @ v # n # post"
  shows "vm_next (st_mm s) (vm_id v) = Some (vm_id n)" "vma_at (st_mm s) (vm_id v) = v" "vma_at (st_mm s) (vm_id n) = n"
    "vm_id v \<noteq> vm_id n" "vm_start v < vm_end v" "vm_end v \<le> vm_start n" "vm_start n < vm_end n"
    "vm_next (st_mm s) (vm_id n) = (case post of [] \<Rightarrow> None | x # _ \<Rightarrow> Some (vm_id x))"
proof -
  have ok: "areas_ok (mmap (st_mm s))" using mm by (simp add: mm_ok_def tree_ok_def)
  have v: "vma_position (st_mm s) pre v (n # post)" by (rule vma_positionI [OF ok sp])
  have n: "vma_position (st_mm s) (pre @ [v]) n post" by (rule vma_positionI [OF ok]) (simp add: sp)
  show "vm_next (st_mm s) (vm_id v) = Some (vm_id n)" "vma_at (st_mm s) (vm_id v) = v" "vma_at (st_mm s) (vm_id n) = n"
    "vm_next (st_mm s) (vm_id n) = (case post of [] \<Rightarrow> None | x # _ \<Rightarrow> Some (vm_id x))"
    using vma_position_next_prev(1) [OF v] vma_position_next_prev(1) [OF n] vma_position_at [OF v] vma_position_at [OF n] by simp_all
  show "vm_id v \<noteq> vm_id n" "vm_start v < vm_end v" "vm_end v \<le> vm_start n" "vm_start n < vm_end n"
    using ok by (auto simp: sp areas_ok_append areas_ok_Cons area_ok_def)
qed

lemma adjust_grow:
  assumes mm: "mm_ok (st_mm s)" and E: "clone_ok E" and sp: "mmap (st_mm s) = pre @ v # post"
    and e: "post \<noteq> [] \<Longrightarrow> vm_end v \<le> end \<and> end \<le> vm_start (hd post)"
  shows "\<exists>s'. raw_vma_adjust E (vm_id v) start end pgoff None expand s = Some (0, s') \<and>
    now_maps E s s' (pre @ resized v start end pgoff # post)"
proof -
  have ok: "areas_ok (mmap (st_mm s))" using mm by (simp add: mm_ok_def tree_ok_def)
  have pos: "vma_position (st_mm s) pre v post" by (rule vma_positionI [OF ok sp])
  have p: "vma_adjust_plan (st_mm s) (vm_id v) end None expand =
    \<lparr>ad_vma = vm_id v, ad_next = vm_next (st_mm s) (vm_id v), ad_end = end, ad_adjust_next = 0, ad_remove_next = 0, ad_exporter = None, ad_importer = None\<rparr>"
  proof (cases post)
    case Nil
    then show ?thesis by (simp add: vma_adjust_plan_def vma_position_next_prev [OF pos] Let_def)
  next
    case (Cons n post')
    note n = plan_next [OF mm sp [unfolded Cons]]
    from e n(7) Cons have "\<not> vm_end n \<le> end" "\<not> vm_start n < end" "\<not> end < vm_end v" by auto
    then show ?thesis by (simp add: vma_adjust_plan_def n Let_def)
  qed
  have "vm_next (st_mm s) (vm_id v) = None \<longleftrightarrow> post = []" by (cases post) (simp_all add: vma_position_next_prev [OF pos])
  from pass_plain_now [OF mm sp this, of E start "end" pgoff "vm_file v"]
  obtain s' where "vma_adjust_pass E (vm_id v) (vm_next (st_mm s) (vm_id v)) start end pgoff 0 False None (vm_file v) s = Some s'"
    "now_maps E s s' (pre @ resized v start end pgoff # post)"
    by blast
  then show ?thesis
    by (intro exI [of _ s']) (simp add: raw_vma_adjust_def p vma_adjust_import_def Let_def vma_position_at [OF pos])
qed

lemma adjust_merge_next:
  assumes mm: "mm_ok (st_mm s)" and E: "clone_ok E" "rb_ok E" "vfs_ok (vfs E)" and sp: "mmap (st_mm s) = pre @ v # n # post"
    and e: "end = vm_end n" and x: "expand \<noteq> Some (vm_id n)" and f: "vm_file n = vm_file v"
  shows "\<exists>r s'. raw_vma_adjust E (vm_id v) start end pgoff None expand s = Some (r, s') \<and>
    now_maps E s s' (if r = 0 then pre @ resized v start end pgoff # post else mmap (st_mm s))"
proof -
  note n = plan_next [OF mm sp]
  have p: "vma_adjust_plan (st_mm s) (vm_id v) end None expand =
    \<lparr>ad_vma = vm_id v, ad_next = Some (vm_id n), ad_end = end, ad_adjust_next = 0, ad_remove_next = 1,
     ad_exporter = Some (vm_id n), ad_importer = Some (vm_id v)\<rparr>"
    using x by (simp add: vma_adjust_plan_def n e Let_def)
  show ?thesis
  proof (rule raw_vma_adjust_run [OF mm E(1) p])
    fix ws assume ws: "anons (mmap (st_mm s)) ws"
    let ?s = "s\<lparr>st_mm := (st_mm s)\<lparr>mmap := ws\<rparr>\<rparr>"
    from ws obtain pre' v' n' post' where w: "ws = pre' @ v' # n' # post'" "anons pre pre'" "anon_only v v'" "anon_only n n'" "anons post post'"
      unfolding sp by (auto simp: list_all2_append1 list_all2_Cons1)
    have 1: "mmap (st_mm ?s) = pre' @ v' # n' # post'" "vm_file n' = vm_file v" "end = vm_end n'" using w f e by (simp_all add: anon_onlyD)
    obtain s' where s': "vma_adjust_pass E (vm_id v') (Some (vm_id n')) start end pgoff 0 True None (vm_file v) ?s = Some s'"
      "now_maps E ?s s' (pre' @ resized v' start end pgoff # post')"
      using pass_remove_now [OF anon_state(1) [OF mm ws] E(2,3) 1] by blast
    have "anons (pre @ resized v start end pgoff # post) (pre' @ resized v' start end pgoff # post')"
      using w by (simp add: list_all2_append list_all2_lengthD anon_only_upd)
    from now_maps_anons [OF now_maps_trans [OF anon_state(2) [OF mm ws] s'(2)] this] s'(1)
    show "\<exists>s'. vma_adjust_pass E (vm_id v) (Some (vm_id n)) start end pgoff 0 ((1::nat) \<noteq> 0) None
        (vm_file (vma_at (st_mm s) (vm_id v))) ?s = Some s' \<and> now_maps E s s' (pre @ resized v start end pgoff # post)"
      using w(3,4) by (auto simp: n anon_onlyD)
  qed (auto simp: sp)
qed

lemma adjust_merge_prev:
  assumes mm: "mm_ok (st_mm s)" and E: "clone_ok E" "rb_ok E" "vfs_ok (vfs E)" and sp: "mmap (st_mm s) = pre @ v # n # post"
    and e: "end = vm_end n"
  shows "\<exists>r s'. raw_vma_adjust E (vm_id v) start end pgoff None (Some (vm_id n)) s = Some (r, s') \<and>
    now_maps E s s' (if r = 0 then pre @ resized n start end pgoff # post else mmap (st_mm s))"
proof -
  note n = plan_next [OF mm sp]
  have p: "vma_adjust_plan (st_mm s) (vm_id v) end None (Some (vm_id n)) =
    \<lparr>ad_vma = vm_id n, ad_next = Some (vm_id v), ad_end = end, ad_adjust_next = 0, ad_remove_next = 3,
     ad_exporter = Some (vm_id v), ad_importer = Some (vm_id n)\<rparr>"
    by (simp add: vma_adjust_plan_def n e Let_def)
  show ?thesis
  proof (rule raw_vma_adjust_run [OF mm E(1) p])
    fix ws assume ws: "anons (mmap (st_mm s)) ws"
    let ?s = "s\<lparr>st_mm := (st_mm s)\<lparr>mmap := ws\<rparr>\<rparr>"
    from ws obtain pre' v' n' post' where w: "ws = pre' @ v' # n' # post'" "anons pre pre'" "anon_only v v'" "anon_only n n'" "anons post post'"
      unfolding sp by (auto simp: list_all2_append1 list_all2_Cons1)
    have 1: "mmap (st_mm ?s) = pre' @ v' # n' # post'" "vm_file v' = vm_file v" "end = vm_end n'" using w e by (simp_all add: anon_onlyD)
    obtain s' where s': "vma_adjust_pass E (vm_id n') (Some (vm_id v')) start end pgoff 0 True None (vm_file v) ?s = Some s'"
      "now_maps E ?s s' (pre' @ resized n' start end pgoff # post')"
      using pass_remove_prev_now [OF anon_state(1) [OF mm ws] E(2,3) 1] by blast
    have "anons (pre @ resized n start end pgoff # post) (pre' @ resized n' start end pgoff # post')"
      using w by (simp add: list_all2_append list_all2_lengthD anon_only_upd)
    from now_maps_anons [OF now_maps_trans [OF anon_state(2) [OF mm ws] s'(2)] this] s'(1)
    show "\<exists>s'. vma_adjust_pass E (vm_id n) (Some (vm_id v)) start end pgoff 0 ((3::nat) \<noteq> 0) None
        (vm_file (vma_at (st_mm s) (vm_id v))) ?s = Some s' \<and> now_maps E s s' (pre @ resized n start end pgoff # post)"
      using w(3,4) by (auto simp: n anon_onlyD)
  qed (auto simp: sp)
qed

lemma anon_only_shift: "anon_only v w \<Longrightarrow> anon_only (v\<lparr>vm_start := vm_start v + a, vm_pgoff := vm_pgoff v + c\<rparr>) (w\<lparr>vm_start := vm_start w + a, vm_pgoff := vm_pgoff w + c\<rparr>)"
  unfolding anon_only_def by (cases v; cases w) simp

text \<open>Shifting the boundary between two areas that touch, up or down.\<close>

lemma adjust_shift:
  assumes mm: "mm_ok (st_mm s)" and E: "clone_ok E" and sp: "mmap (st_mm s) = pre @ v # n # post"
    and e: "vm_end v = vm_start n" "vm_start v \<le> end" "end < vm_end n" "end \<noteq> vm_start n" "aligned end"
  shows "\<exists>r s'. raw_vma_adjust E (vm_id v) start end pgoff None expand s = Some (r, s') \<and>
    now_maps E s s' (if r = 0 then pre @ resized v start end pgoff # n\<lparr>vm_start := end,
      vm_pgoff := if end > vm_start n then vm_pgoff n + drop_bit 12 (end - vm_start n) else vm_pgoff n - drop_bit 12 (vm_start n - end)\<rparr> # post
      else mmap (st_mm s))"
proof -
  note n = plan_next [OF mm sp]
  have al: "aligned (vm_start n)" "aligned (vm_end v)"
    using mm by (auto simp: mm_ok_def tree_ok_def sp areas_ok_append areas_ok_Cons area_ok_def)
  define d where "d = (if end > vm_start n then drop_bit 12 (end - vm_start n) else - drop_bit 12 (vm_end v - end))"
  define ex im where "ex = (if end > vm_start n then n else v)" "im = (if end > vm_start n then v else n)"
  have p: "vma_adjust_plan (st_mm s) (vm_id v) end None expand =
    \<lparr>ad_vma = vm_id v, ad_next = Some (vm_id n), ad_end = end, ad_adjust_next = d, ad_remove_next = 0,
     ad_exporter = Some (vm_id ex), ad_importer = Some (vm_id im)\<rparr>"
    using e by (auto simp: vma_adjust_plan_def n Let_def d_def ex_im_def)
  have st: "vm_start n + push_bit 12 d = end"
  proof (cases "end > vm_start n")
    case True
    then show ?thesis using push_drop12 [OF aligned_diff [OF e(5) al(1)]] by (simp add: d_def)
  next
    case False
    then have "end \<le> vm_start n" by simp
    from push_drop12 [OF aligned_diff [OF al(1) e(5) this]] False e(1) show ?thesis by (simp add: d_def push12_minus)
  qed
  have d0: "d \<noteq> 0" using st e(4) by auto
  let ?n = "\<lambda>n. n\<lparr>vm_start := vm_start n + push_bit 12 d, vm_pgoff := vm_pgoff n + d\<rparr>"
  have nn: "?n n = n\<lparr>vm_start := end,
      vm_pgoff := if end > vm_start n then vm_pgoff n + drop_bit 12 (end - vm_start n) else vm_pgoff n - drop_bit 12 (vm_start n - end)\<rparr>"
    using st e(1) by (simp add: d_def)
  show ?thesis unfolding nn [symmetric]
  proof (rule raw_vma_adjust_run [OF mm E p])
    fix ws assume ws: "anons (mmap (st_mm s)) ws"
    let ?s = "s\<lparr>st_mm := (st_mm s)\<lparr>mmap := ws\<rparr>\<rparr>"
    from ws obtain pre' v' n' post' where w: "ws = pre' @ v' # n' # post'" "anons pre pre'" "anon_only v v'" "anon_only n n'" "anons post post'"
      unfolding sp by (auto simp: list_all2_append1 list_all2_Cons1)
    have 1: "mmap (st_mm ?s) = pre' @ v' # n' # post'" using w by simp
    obtain s' where s': "vma_adjust_pass E (vm_id v') (Some (vm_id n')) start end pgoff d False None (vm_file v) ?s = Some s'"
      "now_maps E ?s s' (pre' @ resized v' start end pgoff # ?n n' # post')"
      using pass_shift_now [OF anon_state(1) [OF mm ws] 1 d0] by blast
    have "anons (pre @ resized v start end pgoff # ?n n # post) (pre' @ resized v' start end pgoff # ?n n' # post')"
      using w by (simp add: list_all2_append list_all2_lengthD anon_only_upd anon_only_shift)
    from now_maps_anons [OF now_maps_trans [OF anon_state(2) [OF mm ws] s'(2)] this] s'(1)
    show "\<exists>s'. vma_adjust_pass E (vm_id v) (Some (vm_id n)) start end pgoff d ((0::nat) \<noteq> 0) None
        (vm_file (vma_at (st_mm s) (vm_id v))) ?s = Some s' \<and> now_maps E s s' (pre @ resized v start end pgoff # ?n n # post)"
      using w(3,4) by (auto simp: n anon_onlyD)
  qed (auto simp: sp ex_im_def)
qed


lemma areas_ok_absorb: "areas_ok (pre @ v # n # post) \<Longrightarrow> areas_ok (pre @ resized v (vm_start v) (vm_end n) pgoff # post)"
  by (auto simp: areas_ok_append areas_ok_Cons area_ok_def)

lemma adjust_merge_two:
  assumes mm: "mm_ok (st_mm s)" and E: "clone_ok E" "rb_ok E" "vfs_ok (vfs E)" and sp: "mmap (st_mm s) = pre @ v # n # x # post"
    and e: "end = vm_end x" and ex: "expand \<noteq> Some (vm_id n)" and f: "vm_file n = vm_file v" "vm_file x = vm_file v"
  shows "\<exists>r s'. raw_vma_adjust E (vm_id v) (vm_start v) end pgoff None expand s = Some (r, s') \<and>
    now_maps E s s' (if r = 0 then pre @ resized v (vm_start v) end pgoff # post else mmap (st_mm s))"
proof -
  let ?start = "vm_start v"
  note n = plan_next [OF mm sp]
  have ok: "areas_ok (mmap (st_mm s))" using mm by (simp add: mm_ok_def tree_ok_def)
  have x: "vm_end n < vm_end x" using ok by (auto simp: sp areas_ok_append areas_ok_Cons area_ok_def)
  define exp where "exp = (if anon_vma n = None then Some (vm_id x) else Some (vm_id n))"
  have p: "vma_adjust_plan (st_mm s) (vm_id v) end None expand =
    \<lparr>ad_vma = vm_id v, ad_next = Some (vm_id n), ad_end = vm_end n, ad_adjust_next = 0, ad_remove_next = 2,
     ad_exporter = exp, ad_importer = Some (vm_id v)\<rparr>"
    using ex x by (simp add: vma_adjust_plan_def n e Let_def exp_def)
  obtain err mm' where i: "vma_adjust_import E exp (Some (vm_id v)) (st_mm s) = (err, mm')" by fastforce
  obtain ws where ws: "anons (mmap (st_mm s)) ws" "mm' = (st_mm s)\<lparr>mmap := ws\<rparr>"
    using vma_adjust_import_anons [OF E(1) ok _ i] by (auto simp: sp)
  let ?s = "s\<lparr>st_mm := (st_mm s)\<lparr>mmap := ws\<rparr>\<rparr>"
  show ?thesis
  proof (cases "err = 0")
    case False
    then have "raw_vma_adjust E (vm_id v) ?start end pgoff None expand s = Some (err, ?s)"
      by (simp add: raw_vma_adjust_def p i Let_def ws)
    with False anon_state(2) [OF mm ws(1)] show ?thesis by auto
  next
    case True
    from ws(1) obtain pre' v' n' x' post' where w: "ws = pre' @ v' # n' # x' # post'" "anons pre pre'" "anon_only v v'" "anon_only n n'"
      "anon_only x x'" "anons post post'"
      unfolding sp by (auto simp: list_all2_append1 list_all2_Cons1)
    have 1: "mmap (st_mm ?s) = pre' @ v' # n' # x' # post'" "vm_file n' = vm_file v" "vm_end n = vm_end n'" using w f by (simp_all add: anon_onlyD)
    obtain s1 where s1: "vma_adjust_pass E (vm_id v') (Some (vm_id n')) ?start (vm_end n) pgoff 0 True None (vm_file v) ?s = Some s1"
      "now_maps E ?s s1 (pre' @ resized v' ?start (vm_end n) pgoff # x' # post')"
      using pass_remove_now [OF anon_state(1) [OF mm ws(1)] E(2,3) 1] by blast
    have "areas_ok (pre' @ v' # n' # x' # post')" using ok anons_areas [OF ws(1)] w(1) by simp
    from areas_ok_absorb [OF this] have "areas_ok (pre' @ resized v' ?start (vm_end n) pgoff # x' # post')"
      using w(3,4) by (simp add: anon_onlyD)
    then have mm1: "mm_ok (st_mm s1)" by (rule now_mapsD(9) [OF s1(2)])
    from now_mapsD(1) [OF s1(2)] obtain pre2 v2 x2 post2 where w2: "mmap (st_mm s1) = pre2 @ v2 # x2 # post2" "anons pre' pre2"
      "anon_only (resized v' ?start (vm_end n) pgoff) v2" "anon_only x' x2" "anons post' post2"
      by (auto simp: list_all2_append1 list_all2_Cons1)
    have id2: "vm_id v2 = vm_id v" "vm_end x2 = end" "vm_file x2 = vm_file v" using w2(3,4) w(3,5) e f by (simp_all add: anon_onlyD)
    note n2 = plan_next [OF mm1 w2(1)]
    obtain s2 where s2: "vma_adjust_pass E (vm_id v2) (Some (vm_id x2)) ?start end pgoff 0 True None (vm_file v) s1 = Some s2"
      "now_maps E s1 s2 (pre2 @ resized v2 ?start end pgoff # post2)"
      using pass_remove_now [OF mm1 E(2,3) w2(1) id2(3)] id2(2) by blast
    have run: "raw_vma_adjust E (vm_id v) ?start end pgoff None expand s = Some (0, s2)"
      using True s1(1) s2(1) n2(1,3) id2 w(3,4) by (simp add: raw_vma_adjust_def p i Let_def ws n anon_onlyD)
    have "anon_only (resized v ?start end pgoff) (resized v2 ?start end pgoff)"
      using anon_only_upd [OF anon_only_trans [OF anon_only_upd [OF w(3)] w2(3)], of pgoff "end" ?start] by simp
    then have "anons (pre @ resized v ?start end pgoff # post) (pre2 @ resized v2 ?start end pgoff # post2)"
      using anons_trans [OF w(2) w2(2)] anons_trans [OF w(6) w2(5)] by (simp add: list_all2_append list_all2_lengthD)
    from now_maps_anons [OF now_maps_trans [OF now_maps_trans [OF anon_state(2) [OF mm ws(1)] s1(2)] s2(2)] this] run
    show ?thesis by auto
  qed
qed

section \<open>Inserting the other half of a split area\<close>

lemma raw_vma_link_file_st [simp]: "st_mm (raw_vma_link_file E v s) = st_mm s" "st_cur (raw_vma_link_file E v s) = st_cur s"
  "st_heap (raw_vma_link_file E v s) = st_heap s" "vm_committed_as (raw_vma_link_file E v s) = vm_committed_as s"
  by (simp_all add: raw_vma_link_file_def upd_space_def Let_def split: option.split)

lemma find_vma_links_exists:
  assumes "tree_ok mm" "\<forall>v\<in>set (mmap mm). vm_end v \<le> a \<or> e \<le> vm_start v"
  obtains ln where "find_vma_links mm a e = Some ln"
  using find_vma_links_None [OF assms(1), of a e] assms(2) that by (cases "find_vma_links mm a e") (auto simp: not_less)

text \<open>The references that the areas of a list hold.\<close>

lemma sorted_split_unique:
  assumes "areas_ok (pre @ post)" "pre @ post = xs @ ys"
    and "\<forall>u\<in>set pre. vm_end u \<le> a" "\<forall>w\<in>set post. b \<le> vm_start w"
    and "\<forall>u\<in>set xs. vm_end u \<le> a" "\<forall>w\<in>set ys. b \<le> vm_start w" "a < (b :: 64 word)"
  shows "pre = xs \<and> post = ys"
proof -
  have dis: "False" if "u \<in> set (pre @ post)" "vm_end u \<le> a" "b \<le> vm_start u" for u
  proof -
    have "vm_start u < vm_end u" using assms(1) that(1) by (auto simp: areas_ok_def area_ok_def)
    then show False using that assms(7) by simp
  qed
  from assms(2) obtain us where sp: "pre = xs @ us \<and> us @ post = ys \<or> pre @ us = xs \<and> post = us @ ys"
    by (auto simp: append_eq_append_conv2)
  have l: "us = []" if "pre = xs @ us \<and> us @ post = ys"
  proof (cases us)
    case (Cons u us')
    then show ?thesis using dis [of u] that assms(3,6) by auto
  qed
  have r: "us = []" if "pre @ us = xs \<and> post = us @ ys"
  proof (cases us)
    case (Cons u us')
    then show ?thesis using dis [of u] that assms(4,5) by auto
  qed
  from sp show ?thesis
  proof
    assume a: "pre = xs @ us \<and> us @ post = ys"
    from l [OF a] a show ?thesis by auto
  next
    assume a: "pre @ us = xs \<and> post = us @ ys"
    from r [OF a] a show ?thesis by auto
  qed
qed

lemma raw_insert_places:
  assumes mm: "tree_ok mm" and E: "rb_ok E" and sp: "mmap mm = pre @ post"
    and pl: "\<forall>u\<in>set pre. vm_end u \<le> vm_start v" "\<forall>w\<in>set post. vm_end v \<le> vm_start w"
    and v: "area_ok v" "\<forall>u\<in>set (mmap mm). vm_id u \<noteq> vm_id v"
  obtains t where "raw_insert_vm_struct E v mm = Some (mm\<lparr>mmap := pre @ v # post, mm_rb := t,
       highest_vm_end := if post = [] then vm_end v else highest_vm_end mm, map_count := map_count mm + 1\<rparr>)"
    "inorder t = map vm_id (pre @ v # post)"
proof -
  have "\<forall>u\<in>set (mmap mm). vm_end u \<le> vm_start v \<or> vm_end v \<le> vm_start u" using pl by (auto simp: sp)
  from find_vma_links_exists [OF mm this] obtain ln where ln: "find_vma_links mm (vm_start v) (vm_end v) = Some ln" .
  obtain xs ys t where
    xy: "mmap mm = xs @ ys" "\<forall>u\<in>set xs. vm_end u \<le> vm_start v" "\<forall>w\<in>set ys. vm_end v \<le> vm_start w"
    and "ln_prev ln = (if xs = [] then None else Some (vm_id (last xs)))"
    and r: "raw_vma_link E v ln mm = mm\<lparr>mmap := xs @ v # ys, mm_rb := t, highest_vm_end := if ys = [] then vm_end v else highest_vm_end mm\<rparr>"
    "inorder t = map vm_id (xs @ v # ys)" "areas_ok (xs @ v # ys)"
    by (rule raw_vma_link_result [OF mm E ln v])
  have "areas_ok (pre @ post)" "vm_start v < vm_end v" using mm sp v(1) by (auto simp: tree_ok_def area_ok_def)
  from sorted_split_unique [OF this(1) _ pl xy(2,3) this(2)] xy(1) sp have "pre = xs" "post = ys" by simp_all
  then show thesis using r ln by (intro that [of t]) (simp_all add: raw_insert_vm_struct_def)
qed

end
