(* ===== verification/Vma_Merge.thy ===== *)
theory Vma_Merge
  imports Vma_Adjust
begin

text \<open>
  What merging does to the content of an address space: \<open>vma_merge\<close> either gives up and leaves every
  area as it was, or changes the pages of the range and nothing else.
\<close>

section \<open>Merging\<close>

text \<open>The attributes of a range that is mapped with given flags, file and offset.\<close>

definition range_attr :: "64 word \<Rightarrow> 64 word \<Rightarrow> file_ptr option \<Rightarrow> 64 word \<Rightarrow> 64 word \<Rightarrow> page_attr" where
  "range_attr addr flags f pgoff a = (flags AND NOT VM_SOFTDIRTY, f, pgoff + drop_bit 12 (a - addr))"

definition merge_outcome ::
    "mm_env \<Rightarrow> mmst \<Rightarrow> 64 word \<Rightarrow> 64 word \<Rightarrow> 64 word \<Rightarrow> file_ptr option \<Rightarrow> 64 word \<Rightarrow> (vma_ptr option \<times> mmst) option \<Rightarrow> bool" where
  "merge_outcome E s addr end flags f pgoff res =
     (case res of
        None \<Rightarrow> False
      | Some (None, s') \<Rightarrow> now_maps E s s' (mmap (st_mm s))
      | Some (Some q, s') \<Rightarrow> \<exists>vs v. now_maps E s s' vs \<and> areas_ok vs \<and> v \<in> set vs \<and> vm_id v = q \<and>
          vm_id ` set vs \<subseteq> vm_id ` set (mmap (st_mm s)) \<and>
          vm_start v \<le> addr \<and> end \<le> vm_end v \<and> vm_flags v AND NOT VM_SOFTDIRTY = flags AND NOT VM_SOFTDIRTY \<and> vm_file v = f \<and>
          (\<forall>u\<in>set (mmap (st_mm s)). u \<in> set vs \<or> vm_start v \<le> vm_start u \<and> vm_end u \<le> vm_end v \<or> vm_start u < end \<and> addr < vm_end u) \<and>
          (\<forall>a. view_of vs a = (if addr \<le> a \<and> a < end then Some (range_attr addr flags f pgoff a) else view_of (mmap (st_mm s)) a)))"

lemma xor_mask_eq: "(a XOR b) AND m = 0 \<longleftrightarrow> a AND m = b AND (m :: 64 word)"
  by (auto simp: bit_eq_iff bit_simps)

lemma attr_after:
  assumes "can_vma_merge_after p flags anon f pgoff u" "vm_end p = addr" "area_ok p" "addr \<le> a"
  shows "page_attr (resized p (vm_start p) e (vm_pgoff p)) a = range_attr addr flags f pgoff a"
proof -
  have "drop_bit 12 (a - vm_start p) = drop_bit 12 (addr - vm_start p) + drop_bit 12 (a - addr)"
    by (rule drop12_diff) (use assms in \<open>auto simp: area_ok_def\<close>)
  then show ?thesis
    using assms(1,2) by (auto simp: page_attr_def range_attr_def can_vma_merge_after_def is_mergeable_vma_def xor_mask_eq vma_pages_def algebra_simps)
qed

lemma attr_before:
  assumes "can_vma_merge_before n flags anon f (pgoff + drop_bit 12 (end - addr)) u" "vm_start n = end"
    and "aligned addr" "aligned end" "addr \<le> end"
  shows "end \<le> a \<Longrightarrow> page_attr n a = range_attr addr flags f pgoff a"
    "page_attr (resized n addr e (vm_pgoff n - drop_bit 12 (end - addr))) a = range_attr addr flags f pgoff a"
    "page_attr (n\<lparr>vm_start := addr, vm_pgoff := vm_pgoff n - drop_bit 12 (end - addr)\<rparr>) a = range_attr addr flags f pgoff a"
proof -
  assume "end \<le> a"
  then have "drop_bit 12 (a - addr) = drop_bit 12 (end - addr) + drop_bit 12 (a - end)"
    by (rule drop12_diff [OF assms(5) _ assms(3,4)])
  then show "page_attr n a = range_attr addr flags f pgoff a"
    using assms(1,2) by (auto simp: page_attr_def range_attr_def can_vma_merge_before_def is_mergeable_vma_def xor_mask_eq algebra_simps)
qed (use assms(1) in \<open>auto simp: page_attr_def range_attr_def can_vma_merge_before_def is_mergeable_vma_def xor_mask_eq\<close>)

lemma mergeD:
  "can_vma_merge_after p flags anon f pgoff u \<Longrightarrow> vm_file p = f \<and> vm_flags p AND NOT VM_SOFTDIRTY = flags AND NOT VM_SOFTDIRTY"
  "can_vma_merge_before n flags anon f pgoff u \<Longrightarrow> vm_file n = f \<and> vm_flags n AND NOT VM_SOFTDIRTY = flags AND NOT VM_SOFTDIRTY"
  by (simp_all add: can_vma_merge_after_def can_vma_merge_before_def is_mergeable_vma_def xor_mask_eq)

text \<open>
  From the outcome of \<open>__vma_adjust\<close> to that of \<open>vma_merge\<close>: the middle of the list of areas is replaced.
\<close>

lemma merge_outcomeI:
  assumes r: "\<exists>r s'. adj = Some (r, s') \<and> now_maps E s s' (if r = 0 then pre @ ms' @ post else mmap (st_mm s))"
    and res: "\<And>r s'. adj = Some (r, s') \<Longrightarrow> res = Some (if r \<noteq> 0 then None else Some (vm_id v), s')"
    and sp: "mmap (st_mm s) = pre @ ms @ post"
    and ok: "areas_ok (pre @ ms' @ post)" and v: "v \<in> set ms'" "vm_id ` set ms' \<subseteq> vm_id ` set ms"
    and fl: "vm_start v \<le> addr" "end \<le> vm_end v" "vm_flags v AND NOT VM_SOFTDIRTY = flags AND NOT VM_SOFTDIRTY" "vm_file v = f"
    and keep: "\<forall>u\<in>set ms. u \<in> set ms' \<or> vm_start v \<le> vm_start u \<and> vm_end u \<le> vm_end v \<or> vm_start u < end \<and> addr < vm_end u"
    and pre: "\<And>u. u \<in> set pre \<Longrightarrow> vm_end u \<le> addr"
    and view: "\<And>a. view_of ms' a = (if addr \<le> a \<and> a < end then Some (range_attr addr flags f pgoff a) else view_of ms a)"
  shows "merge_outcome E s addr end flags f pgoff res"
proof -
  from r obtain r s' where r: "adj = Some (r, s')" "now_maps E s s' (if r = 0 then pre @ ms' @ post else mmap (st_mm s))" by blast
  show ?thesis
  proof (cases "r = 0")
    case True
    have "view_of (pre @ ms' @ post) a = (if addr \<le> a \<and> a < end then Some (range_attr addr flags f pgoff a) else view_of (mmap (st_mm s)) a)" for a
      unfolding sp by (rule view_of_range [OF view pre])
    moreover have "vm_id ` set (pre @ ms' @ post) \<subseteq> vm_id ` set (mmap (st_mm s))" using v(2) by (auto simp: sp)
    moreover have "v \<in> set (pre @ ms' @ post)" using v(1) by simp
    moreover have "\<forall>u\<in>set (mmap (st_mm s)). u \<in> set (pre @ ms' @ post) \<or> vm_start v \<le> vm_start u \<and> vm_end u \<le> vm_end v \<or> vm_start u < end \<and> addr < vm_end u"
      using keep by (auto simp: sp)
    ultimately show ?thesis
      using res [OF r(1)] r(2) True ok fl
      by (auto simp: merge_outcome_def simp del: set_append intro!: exI [of _ "pre @ ms' @ post"] exI [of _ v]) 
  next
    case False
    then show ?thesis using res [OF r(1)] r(2) by (simp add: merge_outcome_def)
  qed
qed

lemma adjust_grow_or_fail:
  assumes "mm_ok (st_mm s)" "clone_ok E" "mmap (st_mm s) = pre @ v # post"
    and "post \<noteq> [] \<Longrightarrow> vm_end v \<le> end \<and> end \<le> vm_start (hd post)"
  shows "\<exists>r s'. raw_vma_adjust E (vm_id v) start end pgoff None expand s = Some (r, s') \<and>
    now_maps E s s' (if r = 0 then pre @ resized v start end pgoff # post else mmap (st_mm s))"
  using adjust_grow [OF assms] by (metis (mono_tags, lifting))

lemma merge_none: "mm_ok (st_mm s) \<Longrightarrow> res = Some (None, s) \<Longrightarrow> merge_outcome E s addr end flags f pgoff res"
  by (simp add: merge_outcome_def now_maps_refl)

lemma area_bounds:
  assumes "areas_ok (pre @ ms @ post)"
  shows "\<And>v. v \<in> set ms \<Longrightarrow> area_ok v" "\<And>u v. u \<in> set pre \<Longrightarrow> v \<in> set ms \<Longrightarrow> vm_end u \<le> vm_start v"
    "\<And>v w. v \<in> set ms \<Longrightarrow> w \<in> set post \<Longrightarrow> vm_end v \<le> vm_start w"
  using assms by (auto simp: areas_ok_append) (auto simp: areas_ok_def)

lemma merge_prev_next:
  assumes mm: "mm_ok (st_mm s)" and E: "clone_ok E" "rb_ok E" "vfs_ok (vfs E)"
    and sp: "mmap (st_mm s) = pre @ p # n # post"
    and r: "aligned addr" "aligned end" "addr < end" "vm_end p = addr" "vm_start n = end"
    and m: "can_vma_merge_after p flags anon f pgoff u" "can_vma_merge_before n flags anon f (pgoff + drop_bit 12 (end - addr)) u"
    and res: "\<And>r s'. raw_vma_adjust E (vm_id p) (vm_start p) (vm_end n) (vm_pgoff p) None (Some (vm_id p)) s = Some (r, s') \<Longrightarrow>
      res = Some (if r \<noteq> 0 then None else Some (vm_id p), s')"
  shows "merge_outcome E s addr end flags f pgoff res"
proof -
  have ok: "areas_ok (pre @ p # n # post)" using mm sp by (simp add: mm_ok_def tree_ok_def)
  have b: "area_ok p" "area_ok n" "vm_id p \<noteq> vm_id n" "\<And>u. u \<in> set pre \<Longrightarrow> vm_end u \<le> vm_start p"
    using ok by (auto simp: areas_ok_append areas_ok_Cons)
  let ?p = "resized p (vm_start p) (vm_end n) (vm_pgoff p)"
  have f: "vm_file n = vm_file p" using m mergeD by metis
  have adj: "\<exists>r s'. raw_vma_adjust E (vm_id p) (vm_start p) (vm_end n) (vm_pgoff p) None (Some (vm_id p)) s = Some (r, s') \<and>
      now_maps E s s' (if r = 0 then pre @ [?p] @ post else mmap (st_mm s))"
    unfolding append_Cons append_Nil by (rule adjust_merge_next [OF mm E sp refl _ f]) (use b(3) in simp)
  show ?thesis
  proof (rule merge_outcomeI [OF adj, where v = ?p and ms = "[p, n]"])
    show "areas_ok (pre @ [?p] @ post)" using areas_ok_absorb [OF ok, of "vm_pgoff p"] by simp
    show "vm_end u \<le> addr" if "u \<in> set pre" for u using b(1) b(4) [OF that] r by (auto simp: area_ok_def)
    fix a
    have "page_attr ?p a = range_attr addr flags f pgoff a" if "addr \<le> a" by (rule attr_after [OF m(1) r(4) b(1) that])
    moreover have "page_attr n a = range_attr addr flags f pgoff a" if "end \<le> a"
      by (rule attr_before(1) [OF m(2) r(5,1,2) less_imp_le [OF r(3)] that])
    moreover have "page_attr ?p a = page_attr p a" by (simp add: page_attr_def)
    moreover have "vm_start p < addr" "end < vm_end n" using b r by (auto simp: area_ok_def)
    ultimately show "view_of [?p] a = (if addr \<le> a \<and> a < end then Some (range_attr addr flags f pgoff a) else view_of [p, n] a)"
      using r by (auto simp: vma_covers_def not_less)
  qed (use res sp r b mergeD(1) [OF m(1)] in \<open>auto simp: area_ok_def\<close>)
qed

lemma merge_prev_grow:
  assumes mm: "mm_ok (st_mm s)" and E: "clone_ok E"
    and sp: "mmap (st_mm s) = pre @ p # post"
    and r: "aligned addr" "aligned end" "addr < end" "vm_end p = addr" "post \<noteq> [] \<Longrightarrow> end \<le> vm_start (hd post)"
    and m: "can_vma_merge_after p flags anon f pgoff u"
    and res: "\<And>r s'. raw_vma_adjust E (vm_id p) (vm_start p) end (vm_pgoff p) None (Some (vm_id p)) s = Some (r, s') \<Longrightarrow>
      res = Some (if r \<noteq> 0 then None else Some (vm_id p), s')"
  shows "merge_outcome E s addr end flags f pgoff res"
proof -
  have ok: "areas_ok (pre @ p # post)" using mm sp by (simp add: mm_ok_def tree_ok_def)
  have b: "area_ok p" "\<And>u. u \<in> set pre \<Longrightarrow> vm_end u \<le> vm_start p" using ok by (auto simp: areas_ok_append areas_ok_Cons)
  have post: "end \<le> vm_start w" if "w \<in> set post" for w
  proof -
    obtain x xs where post: "post = x # xs" using \<open>w \<in> set post\<close> by (cases post) auto
    then have "end \<le> vm_start x" "x \<noteq> w \<Longrightarrow> vm_end x \<le> vm_start w" "vm_start x < vm_end x"
      using r(5) ok that by (auto simp: areas_ok_append areas_ok_Cons area_ok_def)
    then show ?thesis by (cases "x = w") auto
  qed
  let ?p = "resized p (vm_start p) end (vm_pgoff p)"
  have adj: "\<exists>r s'. raw_vma_adjust E (vm_id p) (vm_start p) end (vm_pgoff p) None (Some (vm_id p)) s = Some (r, s') \<and>
      now_maps E s s' (if r = 0 then pre @ [?p] @ post else mmap (st_mm s))"
    unfolding append_Cons append_Nil by (rule adjust_grow_or_fail [OF mm E sp]) (use r(3-5) in auto)
  have lt: "vm_start p < end" using b(1) r by (auto simp: area_ok_def)
  show ?thesis
  proof (rule merge_outcomeI [OF adj, where v = ?p and ms = "[p]"])
    show "areas_ok (pre @ [?p] @ post)" using ok r(2) lt post by (auto simp: areas_ok_append areas_ok_Cons area_ok_def)
    show "vm_end u \<le> addr" if "u \<in> set pre" for u using b(1) b(2) [OF that] r by (auto simp: area_ok_def)
    fix a
    have "page_attr ?p a = range_attr addr flags f pgoff a" if "addr \<le> a" by (rule attr_after [OF m r(4) b(1) that])
    moreover have "page_attr ?p a = page_attr p a" by (simp add: page_attr_def)
    moreover have "vm_start p < addr" using b r by (auto simp: area_ok_def)
    ultimately show "view_of [?p] a = (if addr \<le> a \<and> a < end then Some (range_attr addr flags f pgoff a) else view_of [p] a)"
      using r by (auto simp: vma_covers_def not_less)
  qed (use res sp r b mergeD(1) [OF m(1)] in \<open>auto simp: area_ok_def\<close>)
qed

lemma merge_next_grow:
  assumes mm: "mm_ok (st_mm s)" and E: "clone_ok E"
    and sp: "mmap (st_mm s) = pre @ n # post"
    and r: "aligned addr" "aligned end" "addr < end" "vm_start n = end" "\<And>u. u \<in> set pre \<Longrightarrow> vm_end u \<le> addr"
    and m: "can_vma_merge_before n flags anon f (pgoff + drop_bit 12 (end - addr)) u"
    and res: "\<And>r s'. raw_vma_adjust E (vm_id n) addr (vm_end n) (vm_pgoff n - drop_bit 12 (end - addr)) None (Some (vm_id n)) s = Some (r, s') \<Longrightarrow>
      res = Some (if r \<noteq> 0 then None else Some (vm_id n), s')"
  shows "merge_outcome E s addr end flags f pgoff res"
proof -
  have ok: "areas_ok (pre @ n # post)" using mm sp by (simp add: mm_ok_def tree_ok_def)
  have b: "area_ok n" using ok by (auto simp: areas_ok_append areas_ok_Cons)
  let ?n = "resized n addr (vm_end n) (vm_pgoff n - drop_bit 12 (end - addr))"
  have hd: "post \<noteq> [] \<Longrightarrow> vm_end n \<le> vm_start (hd post)" using ok by (cases post) (auto simp: areas_ok_append areas_ok_Cons)
  have adj: "\<exists>r s'. raw_vma_adjust E (vm_id n) addr (vm_end n) (vm_pgoff n - drop_bit 12 (end - addr)) None (Some (vm_id n)) s = Some (r, s') \<and>
      now_maps E s s' (if r = 0 then pre @ [?n] @ post else mmap (st_mm s))"
    unfolding append_Cons append_Nil by (rule adjust_grow_or_fail [OF mm E sp]) (use hd in auto)
  have lt: "addr < vm_end n" "end < vm_end n" using b(1) r by (auto simp: area_ok_def)
  show ?thesis
  proof (rule merge_outcomeI [OF adj, where v = ?n and ms = "[n]"])
    show "areas_ok (pre @ [?n] @ post)" using ok r(1,5) lt by (auto simp: areas_ok_append areas_ok_Cons area_ok_def)
    fix a
    have "page_attr ?n a = range_attr addr flags f pgoff a" by (rule attr_before(2) [OF m r(4,1,2) less_imp_le [OF r(3)]])
    moreover have "page_attr n a = range_attr addr flags f pgoff a" if "end \<le> a"
      by (rule attr_before(1) [OF m r(4,1,2) less_imp_le [OF r(3)] that])
    ultimately show "view_of [?n] a = (if addr \<le> a \<and> a < end then Some (range_attr addr flags f pgoff a) else view_of [n] a)"
      using r lt by (auto simp: vma_covers_def not_less)
  qed (use res sp r lt mergeD(2) [OF m] in auto)
qed


text \<open>Cases 4 and 5: the boundary between two areas moves.\<close>

lemma merge_shift_down:
  assumes mm: "mm_ok (st_mm s)" and E: "clone_ok E"
    and sp: "mmap (st_mm s) = pre @ v # n # post"
    and r: "aligned addr" "aligned end" "addr < end" "vm_start v < addr" "vm_end v = end" "vm_start n = end"
    and m: "can_vma_merge_before n flags anon f (pgoff + drop_bit 12 (end - addr)) u"
    and res: "\<And>r s'. raw_vma_adjust E (vm_id v) (vm_start v) addr (vm_pgoff v) None (Some (vm_id n)) s = Some (r, s') \<Longrightarrow>
      res = Some (if r \<noteq> 0 then None else Some (vm_id n), s')"
  shows "merge_outcome E s addr end flags f pgoff res"
proof -
  have ok: "areas_ok (pre @ v # n # post)" using mm sp by (simp add: mm_ok_def tree_ok_def)
  have b: "area_ok v" "area_ok n" "\<And>u. u \<in> set pre \<Longrightarrow> vm_end u \<le> vm_start v" using ok by (auto simp: areas_ok_append areas_ok_Cons)
  have lt: "addr < vm_end n" "end < vm_end n" using b r by (auto simp: area_ok_def)
  let ?v = "resized v (vm_start v) addr (vm_pgoff v)"
  let ?n = "n\<lparr>vm_start := addr, vm_pgoff := vm_pgoff n - drop_bit 12 (end - addr)\<rparr>"
  have c: "vm_end v = vm_start n" "vm_start v \<le> addr" "addr < vm_end n" "addr \<noteq> vm_start n" "aligned addr"
    using r lt by auto
  have pg: "(if vm_start n < addr then vm_pgoff n + drop_bit 12 (addr - vm_start n) else vm_pgoff n - drop_bit 12 (vm_start n - addr)) =
      vm_pgoff n - drop_bit 12 (end - addr)"
    using r by auto
  have adj: "\<exists>r s'. raw_vma_adjust E (vm_id v) (vm_start v) addr (vm_pgoff v) None (Some (vm_id n)) s = Some (r, s') \<and>
      now_maps E s s' (if r = 0 then pre @ [?v, ?n] @ post else mmap (st_mm s))"
    unfolding append_Cons append_Nil by (rule adjust_shift [OF mm E sp c, unfolded pg])
  show ?thesis
  proof (rule merge_outcomeI [OF adj, where v = ?n and ms = "[v, n]"])
    show "areas_ok (pre @ [?v, ?n] @ post)"
      using ok r lt by (auto simp: areas_ok_append areas_ok_Cons area_ok_def)
    show "vm_end u \<le> addr" if "u \<in> set pre" for u using b(3) [OF that] r by auto
    fix a
    have "page_attr ?n a = range_attr addr flags f pgoff a" by (rule attr_before(3) [OF m r(6,1,2) less_imp_le [OF r(3)]])
    moreover have "page_attr n a = range_attr addr flags f pgoff a" if "end \<le> a"
      by (rule attr_before(1) [OF m r(6,1,2) less_imp_le [OF r(3)] that])
    moreover have "page_attr ?v a = page_attr v a" by (simp add: page_attr_def)
    ultimately show "view_of [?v, ?n] a = (if addr \<le> a \<and> a < end then Some (range_attr addr flags f pgoff a) else view_of [v, n] a)"
      using r lt by (auto simp: vma_covers_def not_less)
  qed (use res sp r lt mergeD(2) [OF m] in auto)
qed

lemma merge_shift_up:
  assumes mm: "mm_ok (st_mm s)" and E: "clone_ok E"
    and sp: "mmap (st_mm s) = pre @ p # v # post"
    and r: "aligned addr" "aligned end" "addr < end" "vm_end p = addr" "vm_start v = addr" "end < vm_end v"
    and m: "can_vma_merge_after p flags anon f pgoff u"
    and res: "\<And>r s'. raw_vma_adjust E (vm_id p) (vm_start p) end (vm_pgoff p) None (Some (vm_id p)) s = Some (r, s') \<Longrightarrow>
      res = Some (if r \<noteq> 0 then None else Some (vm_id p), s')"
  shows "merge_outcome E s addr end flags f pgoff res"
proof -
  have ok: "areas_ok (pre @ p # v # post)" using mm sp by (simp add: mm_ok_def tree_ok_def)
  have b: "area_ok p" "area_ok v" "\<And>u. u \<in> set pre \<Longrightarrow> vm_end u \<le> vm_start p" using ok by (auto simp: areas_ok_append areas_ok_Cons)
  have lt: "vm_start p < end" "vm_start p < addr" using b r by (auto simp: area_ok_def)
  let ?p = "resized p (vm_start p) end (vm_pgoff p)"
  let ?v = "v\<lparr>vm_start := end, vm_pgoff := vm_pgoff v + drop_bit 12 (end - addr)\<rparr>"
  have c: "vm_end p = vm_start v" "vm_start p \<le> end" "end < vm_end v" "end \<noteq> vm_start v" "aligned end"
    using r lt by auto
  have pg: "(if vm_start v < end then vm_pgoff v + drop_bit 12 (end - vm_start v) else vm_pgoff v - drop_bit 12 (vm_start v - end)) =
      vm_pgoff v + drop_bit 12 (end - addr)"
    using r by auto
  have adj: "\<exists>r s'. raw_vma_adjust E (vm_id p) (vm_start p) end (vm_pgoff p) None (Some (vm_id p)) s = Some (r, s') \<and>
      now_maps E s s' (if r = 0 then pre @ [?p, ?v] @ post else mmap (st_mm s))"
    unfolding append_Cons append_Nil by (rule adjust_shift [OF mm E sp c, unfolded pg])
  show ?thesis
  proof (rule merge_outcomeI [OF adj, where v = ?p and ms = "[p, v]"])
    show "areas_ok (pre @ [?p, ?v] @ post)"
      using ok r lt by (auto simp: areas_ok_append areas_ok_Cons area_ok_def)
    show "vm_end u \<le> addr" if "u \<in> set pre" for u using b(3) [OF that] lt by auto
    fix a
    have "page_attr ?p a = range_attr addr flags f pgoff a" if "addr \<le> a" by (rule attr_after [OF m r(4) b(1) that])
    moreover have "page_attr ?p a = page_attr p a" by (simp add: page_attr_def)
    moreover have "page_attr ?v a = page_attr v a" if "end \<le> a"
      using drop12_diff [OF less_imp_le [OF r(3)] that r(1,2)] r(5) by (simp add: page_attr_def)
    ultimately show "view_of [?p, ?v] a = (if addr \<le> a \<and> a < end then Some (range_attr addr flags f pgoff a) else view_of [p, v] a)"
      using r lt by (auto simp: vma_covers_def not_less)
  qed (use res sp r lt mergeD(1) [OF m] in auto)
qed

text \<open>Cases 6, 7 and 8: the area itself disappears.\<close>

lemma merge_all_three:
  assumes mm: "mm_ok (st_mm s)" and E: "clone_ok E" "rb_ok E" "vfs_ok (vfs E)"
    and sp: "mmap (st_mm s) = pre @ p # v # n # post"
    and r: "aligned addr" "aligned end" "addr < end" "vm_end p = addr" "vm_start v = addr" "vm_end v = end" "vm_start n = end" "vm_file v = f"
    and m: "can_vma_merge_after p flags anon f pgoff u" "can_vma_merge_before n flags anon f (pgoff + drop_bit 12 (end - addr)) u"
    and res: "\<And>r s'. raw_vma_adjust E (vm_id p) (vm_start p) (vm_end n) (vm_pgoff p) None (Some (vm_id p)) s = Some (r, s') \<Longrightarrow>
      res = Some (if r \<noteq> 0 then None else Some (vm_id p), s')"
  shows "merge_outcome E s addr end flags f pgoff res"
proof -
  have ok: "areas_ok (pre @ p # v # n # post)" using mm sp by (simp add: mm_ok_def tree_ok_def)
  have b: "area_ok p" "area_ok n" "vm_id p \<noteq> vm_id v" "\<And>u. u \<in> set pre \<Longrightarrow> vm_end u \<le> vm_start p"
    using ok by (auto simp: areas_ok_append areas_ok_Cons)
  have lt: "vm_start p < addr" "end < vm_end n" using b r by (auto simp: area_ok_def)
  have f: "vm_file v = vm_file p" "vm_file n = vm_file p" using r(8) mergeD(1) [OF m(1)] mergeD(2) [OF m(2)] by simp_all
  let ?p = "resized p (vm_start p) (vm_end n) (vm_pgoff p)"
  have adj: "\<exists>r s'. raw_vma_adjust E (vm_id p) (vm_start p) (vm_end n) (vm_pgoff p) None (Some (vm_id p)) s = Some (r, s') \<and>
      now_maps E s s' (if r = 0 then pre @ [?p] @ post else mmap (st_mm s))"
    unfolding append_Cons append_Nil by (rule adjust_merge_two [OF mm E sp refl _ f]) (use b(3) in simp)
  show ?thesis
  proof (rule merge_outcomeI [OF adj, where v = ?p and ms = "[p, v, n]"])
    show "areas_ok (pre @ [?p] @ post)" using areas_ok_absorb [OF areas_ok_absorb [OF ok], of "vm_pgoff p"] by simp
    show "vm_end u \<le> addr" if "u \<in> set pre" for u using b(4) [OF that] lt by auto
    fix a
    have "page_attr ?p a = range_attr addr flags f pgoff a" if "addr \<le> a" by (rule attr_after [OF m(1) r(4) b(1) that])
    moreover have "page_attr n a = range_attr addr flags f pgoff a" if "end \<le> a"
      by (rule attr_before(1) [OF m(2) r(7,1,2) less_imp_le [OF r(3)] that])
    moreover have "page_attr ?p a = page_attr p a" by (simp add: page_attr_def)
    ultimately show "view_of [?p] a = (if addr \<le> a \<and> a < end then Some (range_attr addr flags f pgoff a) else view_of [p, v, n] a)"
      using r lt by (auto simp: vma_covers_def not_less)
  qed (use res sp r lt mergeD(1) [OF m(1)] in auto)
qed

lemma merge_into_prev:
  assumes mm: "mm_ok (st_mm s)" and E: "clone_ok E" "rb_ok E" "vfs_ok (vfs E)"
    and sp: "mmap (st_mm s) = pre @ p # v # post"
    and r: "aligned addr" "aligned end" "addr < end" "vm_end p = addr" "vm_start v = addr" "vm_end v = end" "vm_file v = f"
    and m: "can_vma_merge_after p flags anon f pgoff u"
    and res: "\<And>r s'. raw_vma_adjust E (vm_id p) (vm_start p) end (vm_pgoff p) None (Some (vm_id p)) s = Some (r, s') \<Longrightarrow>
      res = Some (if r \<noteq> 0 then None else Some (vm_id p), s')"
  shows "merge_outcome E s addr end flags f pgoff res"
proof -
  have ok: "areas_ok (pre @ p # v # post)" using mm sp by (simp add: mm_ok_def tree_ok_def)
  have b: "area_ok p" "vm_id p \<noteq> vm_id v" "\<And>u. u \<in> set pre \<Longrightarrow> vm_end u \<le> vm_start p"
    using ok by (auto simp: areas_ok_append areas_ok_Cons)
  have lt: "vm_start p < addr" using b r by (auto simp: area_ok_def)
  have f: "vm_file v = vm_file p" using r(7) mergeD(1) [OF m(1)] by simp
  let ?p = "resized p (vm_start p) end (vm_pgoff p)"
  have adj: "\<exists>r s'. raw_vma_adjust E (vm_id p) (vm_start p) end (vm_pgoff p) None (Some (vm_id p)) s = Some (r, s') \<and>
      now_maps E s s' (if r = 0 then pre @ [?p] @ post else mmap (st_mm s))"
    unfolding append_Cons append_Nil by (rule adjust_merge_next [OF mm E sp _ _ f]) (use b(2) r(6) in simp_all)
  show ?thesis
  proof (rule merge_outcomeI [OF adj, where v = ?p and ms = "[p, v]"])
    show "areas_ok (pre @ [?p] @ post)" using areas_ok_absorb [OF ok, of "vm_pgoff p"] r(6) by simp
    show "vm_end u \<le> addr" if "u \<in> set pre" for u using b(3) [OF that] lt by auto
    fix a
    have "page_attr ?p a = range_attr addr flags f pgoff a" if "addr \<le> a" by (rule attr_after [OF m(1) r(4) b(1) that])
    moreover have "page_attr ?p a = page_attr p a" by (simp add: page_attr_def)
    ultimately show "view_of [?p] a = (if addr \<le> a \<and> a < end then Some (range_attr addr flags f pgoff a) else view_of [p, v] a)"
      using r lt by (auto simp: vma_covers_def not_less)
  qed (use res sp r lt mergeD(1) [OF m(1)] in auto)
qed

lemma merge_into_next:
  assumes mm: "mm_ok (st_mm s)" and E: "clone_ok E" "rb_ok E" "vfs_ok (vfs E)"
    and sp: "mmap (st_mm s) = pre @ v # n # post"
    and r: "aligned addr" "aligned end" "addr < end" "vm_start v = addr" "vm_end v = end" "vm_start n = end"
    and m: "can_vma_merge_before n flags anon f (pgoff + drop_bit 12 (end - addr)) u"
    and res: "\<And>r s'. raw_vma_adjust E (vm_id v) addr (vm_end n) (vm_pgoff n - drop_bit 12 (end - addr)) None (Some (vm_id n)) s = Some (r, s') \<Longrightarrow>
      res = Some (if r \<noteq> 0 then None else Some (vm_id n), s')"
  shows "merge_outcome E s addr end flags f pgoff res"
proof -
  have ok: "areas_ok (pre @ v # n # post)" using mm sp by (simp add: mm_ok_def tree_ok_def)
  have b: "area_ok n" "\<And>u. u \<in> set pre \<Longrightarrow> vm_end u \<le> vm_start v" using ok by (auto simp: areas_ok_append areas_ok_Cons)
  have lt: "addr < vm_end n" "end < vm_end n" using b r by (auto simp: area_ok_def)
  let ?n = "resized n addr (vm_end n) (vm_pgoff n - drop_bit 12 (end - addr))"
  have adj: "\<exists>r s'. raw_vma_adjust E (vm_id v) addr (vm_end n) (vm_pgoff n - drop_bit 12 (end - addr)) None (Some (vm_id n)) s = Some (r, s') \<and>
      now_maps E s s' (if r = 0 then pre @ [?n] @ post else mmap (st_mm s))"
    unfolding append_Cons append_Nil by (rule adjust_merge_prev [OF mm E sp refl])
  show ?thesis
  proof (rule merge_outcomeI [OF adj, where v = ?n and ms = "[v, n]"])
    show "areas_ok (pre @ [?n] @ post)" using ok r lt by (auto simp: areas_ok_append areas_ok_Cons area_ok_def)
    show "vm_end u \<le> addr" if "u \<in> set pre" for u using b(2) [OF that] r by auto
    fix a
    have "page_attr ?n a = range_attr addr flags f pgoff a" by (rule attr_before(2) [OF m r(6,1,2) less_imp_le [OF r(3)]])
    moreover have "page_attr n a = range_attr addr flags f pgoff a" if "end \<le> a"
      by (rule attr_before(1) [OF m r(6,1,2) less_imp_le [OF r(3)] that])
    ultimately show "view_of [?n] a = (if addr \<le> a \<and> a < end then Some (range_attr addr flags f pgoff a) else view_of [v, n] a)"
      using r lt by (auto simp: vma_covers_def not_less)
  qed (use res sp r lt mergeD(2) [OF m] in auto)
qed


lemma mm_ok_position:
  assumes "mm_ok mm" "mmap mm = pre @ v # post"
  shows "vma_at mm (vm_id v) = v" "vm_next mm (vm_id v) = (case post of [] \<Rightarrow> None | w # _ \<Rightarrow> Some (vm_id w))"
    "vm_prev mm (vm_id v) = (if pre = [] then None else Some (vm_id (last pre)))" "vma_of mm (vm_id v) = Some v"
proof -
  have "vma_position mm pre v post" by (rule vma_positionI [OF _ assms(2)]) (use assms(1) in \<open>simp add: mm_ok_def tree_ok_def\<close>)
  from vma_position_at [OF this] vma_position_next_prev [OF this]
  show "vma_at mm (vm_id v) = v" "vm_next mm (vm_id v) = (case post of [] \<Rightarrow> None | w # _ \<Rightarrow> Some (vm_id w))"
    "vm_prev mm (vm_id v) = (if pre = [] then None else Some (vm_id (last pre)))" "vma_of mm (vm_id v) = Some v" by simp_all
qed

definition before_next :: "mm_env \<Rightarrow> vm_area_struct \<Rightarrow> 64 word \<Rightarrow> 64 word \<Rightarrow> 64 word \<Rightarrow> nat option \<Rightarrow> file_ptr option \<Rightarrow> 64 word \<Rightarrow> nat \<Rightarrow> nat \<Rightarrow> bool" where
  "before_next E n addr end flags anon f pgoff policy u \<longleftrightarrow> end = vm_start n \<and> mpol_equal E policy (vm_policy n) \<and>
     can_vma_merge_before n flags anon f (pgoff + drop_bit 12 (end - addr)) u"

definition after_prev :: "mm_env \<Rightarrow> vm_area_struct \<Rightarrow> 64 word \<Rightarrow> 64 word \<Rightarrow> nat option \<Rightarrow> file_ptr option \<Rightarrow> 64 word \<Rightarrow> nat \<Rightarrow> nat \<Rightarrow> bool" where
  "after_prev E p addr flags anon f pgoff policy u \<longleftrightarrow> vm_end p = addr \<and> mpol_equal E (vm_policy p) policy \<and>
     can_vma_merge_after p flags anon f pgoff u"

text \<open>Mapping a range that is free: the cases 1, 2 and 3.\<close>

lemma vma_merge_free:
  assumes mm: "mm_ok (st_mm s)" and E: "clone_ok E" "rb_ok E" "vfs_ok (vfs E)"
    and sp: "mmap (st_mm s) = pre @ post"
    and r: "aligned addr" "aligned end" "addr < end"
    and fr: "\<And>u. u \<in> set pre \<Longrightarrow> vm_end u \<le> addr" "\<And>w. w \<in> set post \<Longrightarrow> end \<le> vm_start w"
    and prev: "prev = (if pre = [] then None else Some (vm_id (last pre)))"
  shows "merge_outcome E s addr end flags f pgoff (vma_merge E prev addr end flags anon f pgoff policy u s)"
    (is "merge_outcome E s addr end flags f pgoff ?merge")
proof (cases "flags AND VM_SPECIAL \<noteq> 0")
  case True
  then show ?thesis by (intro merge_none [OF mm]) (simp add: vma_merge_def)
next
  case False
  have okn: "vm_end n \<noteq> end" if "n \<in> set post" for n
  proof -
    have "vm_start n < vm_end n" using mm that by (auto simp: mm_ok_def tree_ok_def sp areas_ok_def area_ok_def)
    with fr(2) [OF that] show ?thesis by auto
  qed
  have front: "merge_outcome E s addr end flags f pgoff ?merge"
    if nop: "pre \<noteq> [] \<Longrightarrow> \<not> after_prev E (last pre) addr flags anon f pgoff policy u"
  proof (cases "\<exists>n post'. post = n # post' \<and> before_next E n addr end flags anon f pgoff policy u")
    case True
    then obtain n post' where n: "post = n # post'" "before_next E n addr end flags anon f pgoff policy u" by blast
    have pn: "vma_at (st_mm s) (vm_id n) = n" by (rule mm_ok_position(1) [OF mm sp [unfolded n]])
    have e: "vm_end n \<noteq> end" using okn n(1) by simp
    show ?thesis
    proof (rule merge_next_grow [OF mm E(1) sp [unfolded n] r _ fr(1)])
      fix r s' assume adj: "raw_vma_adjust E (vm_id n) addr (vm_end n) (vm_pgoff n - drop_bit 12 (end - addr)) None (Some (vm_id n)) s = Some (r, s')"
      show "?merge = Some (if r \<noteq> 0 then None else Some (vm_id n), s')"
      proof (cases "pre = []")
        case True
        then show ?thesis using adj False n(2) e pn sp n(1)
          by (auto simp: vma_merge_def prev mm_first_def before_next_def Let_def)
      next
        case pre: False
        let ?p = "last pre"
        have sp': "mmap (st_mm s) = butlast pre @ ?p # n # post'" using sp pre n(1) by simp
        note p = mm_ok_position [OF mm sp']
        have le: "\<not> addr < vm_end ?p" using fr(1) [of ?p] pre by (simp add: not_less)
        show ?thesis using adj False n(2) e pn nop [OF pre] pre le
          by (auto simp: vma_merge_def prev p before_next_def after_prev_def Let_def)
      qed
    qed (use n(2) in \<open>auto simp: before_next_def\<close>)
  next
    case none: False
    show ?thesis
    proof (rule merge_none [OF mm])
      show "?merge = Some (None, s)"
      proof (cases "pre = []")
        case True
        show ?thesis
        proof (cases post)
          case (Cons n post')
          have pn: "vma_at (st_mm s) (vm_id n) = n" by (rule mm_ok_position(1) [OF mm sp [unfolded Cons]])
          show ?thesis using False none Cons okn [of n] pn sp True
            by (auto simp: vma_merge_def prev mm_first_def before_next_def Let_def)
        qed (use False sp True in \<open>simp add: vma_merge_def prev mm_first_def Let_def\<close>)
      next
        case pre: False
        let ?p = "last pre"
        have sp': "mmap (st_mm s) = butlast pre @ ?p # post" using sp pre by simp
        note p = mm_ok_position [OF mm sp']
        show ?thesis
        proof (cases post)
          case (Cons n post')
          have pn: "vma_at (st_mm s) (vm_id n) = n" by (rule mm_ok_position(1) [OF mm sp [unfolded Cons]])
          show ?thesis using False none Cons okn [of n] pn nop [OF pre] pre
            by (auto simp: vma_merge_def prev p before_next_def after_prev_def Let_def)
        qed (use False nop [OF pre] pre in \<open>auto simp: vma_merge_def prev p after_prev_def Let_def\<close>)
      qed
    qed
  qed
  show ?thesis
  proof (cases "pre \<noteq> [] \<and> after_prev E (last pre) addr flags anon f pgoff policy u")
    case a: True
    let ?p = "last pre"
    have sp': "mmap (st_mm s) = butlast pre @ ?p # post" using sp a by simp
    note p = mm_ok_position [OF mm sp']
    have m: "vm_end ?p = addr" "can_vma_merge_after ?p flags anon f pgoff u" using a by (auto simp: after_prev_def)
    show ?thesis
    proof (cases "\<exists>n post'. post = n # post' \<and> before_next E n addr end flags anon f pgoff policy u \<and> is_mergeable_anon_vma (anon_vma ?p) (anon_vma n) None")
      case True
      then obtain n post' where n: "post = n # post'" "before_next E n addr end flags anon f pgoff policy u"
        "is_mergeable_anon_vma (anon_vma ?p) (anon_vma n) None" by blast
      have pn: "vma_at (st_mm s) (vm_id n) = n" by (rule mm_ok_position(1) [OF mm sp [unfolded n]])
      show ?thesis
        by (rule merge_prev_next [OF mm E sp' [unfolded n(1)] r m(1) _ m(2)])
          (use n(2,3) okn [of n] n(1) pn a False in \<open>auto simp: before_next_def after_prev_def vma_merge_def prev p Let_def\<close>)
    next
      case none: False
      show ?thesis
      proof (rule merge_prev_grow [OF mm E(1) sp' r m(1) _ m(2)])
        fix r s' assume adj: "raw_vma_adjust E (vm_id ?p) (vm_start ?p) end (vm_pgoff ?p) None (Some (vm_id ?p)) s = Some (r, s')"
        show "?merge = Some (if r \<noteq> 0 then None else Some (vm_id ?p), s')"
        proof (cases post)
          case Nil
          then show ?thesis using adj a False by (simp add: vma_merge_def prev p after_prev_def Let_def)
        next
          case (Cons n post')
          have pn: "vma_at (st_mm s) (vm_id n) = n" by (rule mm_ok_position(1) [OF mm sp [unfolded Cons]])
          show ?thesis using adj a False none Cons okn [of n] pn
            by (auto simp: vma_merge_def prev p before_next_def after_prev_def Let_def)
        qed
      qed (use fr(2) in auto)
    qed
  qed (use front in auto)
qed

text \<open>Changing the flags of a range inside one area: the cases 4 to 8.\<close>

lemma vma_merge_within:
  assumes mm: "mm_ok (st_mm s)" and E: "clone_ok E" "rb_ok E" "vfs_ok (vfs E)"
    and sp: "mmap (st_mm s) = pre @ v # post"
    and r: "aligned addr" "aligned end" "addr < end" "vm_start v \<le> addr" "end \<le> vm_end v"
    and prev: "prev = (if vm_start v < addr then Some (vm_id v) else if pre = [] then None else Some (vm_id (last pre)))"
    and f: "f = vm_file v"
  shows "merge_outcome E s addr end flags f pgoff (vma_merge E prev addr end flags anon f pgoff policy u s)"
    (is "merge_outcome E s addr end flags f pgoff ?merge")
proof (cases "flags AND VM_SPECIAL \<noteq> 0")
  case True
  then show ?thesis by (intro merge_none [OF mm]) (simp add: vma_merge_def)
next
  case fl: False
  note v = mm_ok_position [OF mm sp]
  have ok: "areas_ok (pre @ v # post)" using mm sp by (simp add: mm_ok_def tree_ok_def)
  have next_ok: "vma_at (st_mm s) (vm_id n) = n" "vm_end v \<le> vm_start n" "vm_start n < vm_end n" "vm_end n \<noteq> end"
    "vm_next (st_mm s) (vm_id v) = Some (vm_id n)" if n: "post = n # post'" for n post'
  proof -
    have "mmap (st_mm s) = (pre @ [v]) @ n # post'" using sp n by simp
    from mm_ok_position(1) [OF mm this] show "vma_at (st_mm s) (vm_id n) = n" .
    show "vm_end v \<le> vm_start n" "vm_start n < vm_end n" using ok n by (auto simp: areas_ok_append areas_ok_Cons area_ok_def)
    then show "vm_end n \<noteq> end" using r(5) by auto
    show "vm_next (st_mm s) (vm_id v) = Some (vm_id n)" by (simp add: v n)
  qed
  show ?thesis
  proof (cases "vm_start v < addr")
    case lt: True
    have nv: "vm_end v \<noteq> addr" "addr < vm_end v" using r by auto
    show ?thesis
    proof (cases "\<exists>n post'. post = n # post' \<and> before_next E n addr end flags anon f pgoff policy u")
      case True
      then obtain n post' where n: "post = n # post'" "before_next E n addr end flags anon f pgoff policy u" by blast
      note nn = next_ok [OF n(1)]
      have e: "vm_end v = end" "vm_start n = end" using n(2) nn(2) r(5) by (auto simp: before_next_def)
      show ?thesis
        by (rule merge_shift_down [OF mm E(1) sp [unfolded n(1)] r(1-3) lt e])
          (use n(2) nn e(1) nv lt fl in \<open>auto simp: before_next_def vma_merge_def prev v Let_def\<close>)
    next
      case none: False
      show ?thesis
      proof (rule merge_none [OF mm])
        show "?merge = Some (None, s)"
        proof (cases post)
          case Nil
          then show ?thesis using fl lt nv by (simp add: vma_merge_def prev v Let_def)
        next
          case (Cons n post')
          note nn = next_ok [OF Cons]
          show ?thesis using fl lt nv none nn Cons by (auto simp: vma_merge_def prev v before_next_def Let_def)
        qed
      qed
    qed
  next
    case False
    then have st: "vm_start v = addr" using r(4) by simp
    have pv: "(case prev of Some p \<Rightarrow> vm_next (st_mm s) p | None \<Rightarrow> mm_first (st_mm s)) = Some (vm_id v)"
    proof (cases "pre = []")
      case True
      then show ?thesis using False sp by (simp add: prev mm_first_def)
    next
      case pre: False
      have "mmap (st_mm s) = butlast pre @ last pre # v # post" using sp pre by simp
      from mm_ok_position(2) [OF mm this] show ?thesis using False pre by (simp add: prev)
    qed
    let ?next = "if vm_end v = end then vm_next (st_mm s) (vm_id v) else Some (vm_id v)"
    have ne: "end \<noteq> vm_start v" using st r(3) by auto
    show ?thesis
    proof (cases "pre \<noteq> [] \<and> after_prev E (last pre) addr flags anon f pgoff policy u")
      case a: True
      let ?p = "last pre"
      have sp': "mmap (st_mm s) = butlast pre @ ?p # v # post" using sp a by simp
      note p = mm_ok_position [OF mm sp']
      have m: "vm_end ?p = addr" "can_vma_merge_after ?p flags anon f pgoff u" using a by (auto simp: after_prev_def)
      consider (three) n post' where "post = n # post'" "vm_end v = end" "before_next E n addr end flags anon f pgoff policy u"
          "is_mergeable_anon_vma (anon_vma ?p) (anon_vma n) None"
        | (two) "vm_end v = end" "\<And>n post'. post = n # post' \<Longrightarrow> \<not> (before_next E n addr end flags anon f pgoff policy u \<and>
          is_mergeable_anon_vma (anon_vma ?p) (anon_vma n) None)"
        | (up) "end < vm_end v"
        using r(5) by fastforce
      then show ?thesis
      proof cases
        case three
        note nn = next_ok [OF three(1)]
        show ?thesis
          by (rule merge_all_three [OF mm E sp' [unfolded three(1)] r(1-3) m(1) st three(2) _ f [symmetric] m(2)])
            (use three nn a fl False in \<open>auto simp: before_next_def after_prev_def vma_merge_def prev p Let_def v(1)\<close>)
      next
        case two
        show ?thesis
        proof (rule merge_into_prev [OF mm E sp' r(1-3) m(1) st two(1) f [symmetric] m(2)])
          fix r s' assume adj: "raw_vma_adjust E (vm_id ?p) (vm_start ?p) end (vm_pgoff ?p) None (Some (vm_id ?p)) s = Some (r, s')"
          show "?merge = Some (if r \<noteq> 0 then None else Some (vm_id ?p), s')"
          proof (cases post)
            case Nil
            then show ?thesis using adj a fl False two(1) by (simp add: vma_merge_def prev p v after_prev_def Let_def)
          next
            case (Cons n post')
            note nn = next_ok [OF Cons]
            show ?thesis using adj a fl False two(1) two(2) [OF Cons] nn
              by (auto simp: vma_merge_def prev p v(1) before_next_def after_prev_def Let_def)
          qed
        qed
      next
        case up
        show ?thesis
          by (rule merge_shift_up [OF mm E(1) sp' r(1-3) m(1) st up m(2)])
            (use up a fl False ne in \<open>auto simp: after_prev_def vma_merge_def prev p Let_def v(1)\<close>)
      qed
    next
      case nop: False
      have sel: "?merge = (case ?next of None \<Rightarrow> Some (None, s) | Some n \<Rightarrow>
          if end = vm_start (vma_at (st_mm s) n) \<and> mpol_equal E policy (vm_policy (vma_at (st_mm s) n)) \<and>
             can_vma_merge_before (vma_at (st_mm s) n) flags anon f (pgoff + drop_bit 12 (end - addr)) u
          then do {
            (err, s) \<leftarrow> raw_vma_adjust E (vm_id v) addr (vm_end (vma_at (st_mm s) n)) (vm_pgoff (vma_at (st_mm s) n) - drop_bit 12 (end - addr)) None (Some n) s;
            Some (if err \<noteq> 0 then None else Some n, s) } else Some (None, s))"
      proof (cases "pre = []")
        case True
        have pr: "prev = None" using True False by (simp add: prev)
        have mf: "mm_first (st_mm s) = Some (vm_id v)" using pv pr by simp
        show ?thesis using fl by (simp add: vma_merge_def pr mf v(1) Let_def cong: option.case_cong if_cong)
      next
        case pre: False
        have "mmap (st_mm s) = butlast pre @ last pre # v # post" using sp pre by simp
        note p = mm_ok_position [OF mm this]
        have "vm_end (last pre) \<le> vm_start v" using ok pre by (auto simp: areas_ok_append)
        then have le: "\<not> addr < vm_end (last pre)" using st by simp
        have pr: "prev = Some (vm_id (last pre))" using pre False by (simp add: prev)
        have na: "(vm_end (last pre) = addr \<and> mpol_equal E (vm_policy (last pre)) policy \<and>
            can_vma_merge_after (last pre) flags anon f pgoff u) = False"
          using nop pre by (simp add: after_prev_def)
        show ?thesis using fl le
          by (simp add: vma_merge_def pr p v(1) Let_def na cong: option.case_cong if_cong)
      qed
      show ?thesis
      proof (cases "\<exists>n post'. post = n # post' \<and> vm_end v = end \<and> before_next E n addr end flags anon f pgoff policy u")
        case True
        then obtain n post' where n: "post = n # post'" "vm_end v = end" "before_next E n addr end flags anon f pgoff policy u" by blast
        note nn = next_ok [OF n(1)]
        have bn: "vm_start n = end" "can_vma_merge_before n flags anon f (pgoff + drop_bit 12 (end - addr)) u"
          using n(3) by (auto simp: before_next_def)
        show ?thesis
        proof (rule merge_into_next [OF mm E sp [unfolded n(1)] r(1-3) st n(2) bn])
          fix r s' assume "raw_vma_adjust E (vm_id v) addr (vm_end n) (vm_pgoff n - drop_bit 12 (end - addr)) None (Some (vm_id n)) s = Some (r, s')"
          then show "?merge = Some (if r \<noteq> 0 then None else Some (vm_id n), s')"
            unfolding sel using n(2,3) nn bn by (simp add: before_next_def)
        qed
      next
        case none: False
        show ?thesis
        proof (rule merge_none [OF mm])
          show "?merge = Some (None, s)"
          proof (cases "vm_end v = end")
            case e: True
            show ?thesis
            proof (cases post)
              case Nil
              then show ?thesis using e by (simp add: sel v)
            next
              case (Cons n post')
              note nn = next_ok [OF Cons]
              show ?thesis using e none Cons nn by (auto simp: sel before_next_def)
            qed
          next
            case e: False
            then show ?thesis using ne by (simp add: sel v(1))
          qed
        qed
      qed
    qed
  qed
qed

end
