(* ===== verification/Munmap.thy ===== *)
theory Munmap
  imports Vma_Merge
begin

text \<open>
  Splitting and unmapping (\<open>mm/mmap.c\<close>): \<open>__split_vma\<close>, \<open>do_munmap\<close> and what they call, the system call
  \<open>munmap\<close>, and \<open>exit_mmap\<close>.

  \<open>unmap_vmas\<close> and \<open>free_pgtables\<close> change the page tables, and \<open>free_pgtables\<close> calls \<open>unlink_file_vma\<close>
  for every area it is given.  The methods \<open>open\<close> and \<open>close\<close> of an area work on data of the driver or file system that
  mapped it, which the model does not have.  \<open>mmap_sem_killed\<close> says that waiting for \<open>mmap_sem\<close> is cut short by a fatal signal.
\<close>

section \<open>Splitting\<close>

definition raw_split_vma :: "mm_env \<Rightarrow> vma_ptr \<Rightarrow> 64 word \<Rightarrow> bool \<Rightarrow> mmst \<Rightarrow> (int \<times> mmst) option" where
  "raw_split_vma E p addr new_below s =
     (let vma = vma_at (st_mm s) p
      in if vm_flags vma AND VM_HUGETLB \<noteq> 0 \<and> addr AND NOT (huge_page_mask E vma) \<noteq> 0 then Some (- EINVAL, s)
         else case kmem_cache_alloc E s of
           None \<Rightarrow> Some (- ENOMEM, s)
         | Some q \<Rightarrow>
             let new = vma\<lparr>vm_id := q, anon_vma_chain := []\<rparr>;
                 new = (if new_below then new\<lparr>vm_end := addr\<rparr>
                        else new\<lparr>vm_start := addr, vm_pgoff := vm_pgoff new + drop_bit 12 (addr - vm_start vma)\<rparr>);
                 (err, pol) = vma_dup_policy E vma
             in if err \<noteq> 0 then Some (err, s)
                else
                  let new = new\<lparr>vm_policy := pol\<rparr>;
                      (err, new) = anon_vma_clone E new vma
                  in if err \<noteq> 0 then Some (err, s)
                     else
                       let s = (case vm_file new of None \<Rightarrow> s | Some f \<Rightarrow> s\<lparr>st_heap := get_file f (st_heap s)\<rparr>)
                       in do {
                         (err, s) \<leftarrow>
                           (if new_below
                            then vma_adjust E p addr (vm_end vma) (vm_pgoff vma + drop_bit 12 (addr - vm_start new)) (Some new) s
                            else vma_adjust E p (vm_start vma) addr (vm_pgoff vma) (Some new) s);
                         Some (if err = 0 then (0, s)
                               else (err, case vm_file new of None \<Rightarrow> s | Some f \<Rightarrow> s\<lparr>st_heap := fput (vfs E) f (st_heap s)\<rparr>))
                       })"

definition split_vma :: "mm_env \<Rightarrow> vma_ptr \<Rightarrow> 64 word \<Rightarrow> bool \<Rightarrow> mmst \<Rightarrow> (int \<times> mmst) option" where
  "split_vma E p addr new_below s =
     (if map_count (st_mm s) \<ge> sysctl_max_map_count E then Some (- ENOMEM, s) else raw_split_vma E p addr new_below s)"

section \<open>Unmapping\<close>

definition set_pgd :: "pgtables \<Rightarrow> mmst \<Rightarrow> mmst" where
  "set_pgd t s = s\<lparr>st_mm := (st_mm s)\<lparr>pgd := t\<rparr>\<rparr>"

definition remove_vma :: "mm_env \<Rightarrow> vm_area_struct \<Rightarrow> mmst \<Rightarrow> mmst" where
  "remove_vma E vma s = (case vm_file vma of None \<Rightarrow> s | Some f \<Rightarrow> s\<lparr>st_heap := fput (vfs E) f (st_heap s)\<rparr>)"

fun remove_vmas :: "mm_env \<Rightarrow> vm_area_struct list \<Rightarrow> 64 word \<Rightarrow> mmst \<Rightarrow> 64 word \<times> mmst" where
  "remove_vmas E [] nr_accounted s = (nr_accounted, s)"
| "remove_vmas E (vma # vs) nr_accounted s =
     (let nr_accounted = (if vm_flags vma AND VM_ACCOUNT \<noteq> 0 then nr_accounted + vma_pages vma else nr_accounted);
          s = s\<lparr>st_mm := vm_stat_account (vm_flags vma) (- vma_pages vma) (st_mm s)\<rparr>
      in remove_vmas E vs nr_accounted (remove_vma E vma s))"

definition remove_vma_list :: "mm_env \<Rightarrow> vm_area_struct list \<Rightarrow> mmst \<Rightarrow> mmst" where
  "remove_vma_list E vs s = (let (nr_accounted, s) = remove_vmas E vs 0 s in vm_unacct_memory nr_accounted s)"

definition unmap_region :: "mm_env \<Rightarrow> vm_area_struct list \<Rightarrow> 64 word \<Rightarrow> 64 word \<Rightarrow> mmst \<Rightarrow> mmst" where
  "unmap_region E vs start end s = free_pgtables E vs (set_pgd (unmap_vmas E start end (pgd (st_mm s))) s)"

text \<open>The areas from \<open>p\<close> on that start below \<open>end\<close>, the first in any case, leave the list and the tree.\<close>

definition detach_vmas_to_be_unmapped ::
    "mm_env \<Rightarrow> vma_ptr \<Rightarrow> vma_ptr option \<Rightarrow> 64 word \<Rightarrow> mm_struct \<Rightarrow> vm_area_struct list \<times> mm_struct" where
  "detach_vmas_to_be_unmapped E p prev end mm =
     (let tail = dropWhile (\<lambda>v. vm_id v \<noteq> p) (mmap mm);
          gone = (case tail of [] \<Rightarrow> [] | v # vs \<Rightarrow> v # takeWhile (\<lambda>w. vm_start w < end) vs);
          rest = drop (length gone) tail;
          front = (case prev of None \<Rightarrow> [] | Some q \<Rightarrow> takeWhile (\<lambda>v. vm_id v \<noteq> q) (mmap mm) @ [vma_at mm q])
      in (gone, mm\<lparr>mmap := front @ rest, mm_rb := fold (\<lambda>v. rb_erase_augmented E (vm_id v)) gone (mm_rb mm),
                   map_count := map_count mm - int (length gone),
                   highest_vm_end := if rest = [] then (case prev of None \<Rightarrow> 0 | Some q \<Rightarrow> vm_end (vma_at mm q)) else highest_vm_end mm\<rparr>))"

fun munlock_vmas :: "64 word \<Rightarrow> vm_area_struct list \<Rightarrow> 64 word \<Rightarrow> 64 word" where
  "munlock_vmas end [] locked = locked"
| "munlock_vmas end (tmp # vs) locked =
     (if vm_start tmp < end
      then munlock_vmas end vs (if vm_flags tmp AND VM_LOCKED \<noteq> 0 then locked - vma_pages tmp else locked)
      else locked)"

text \<open>The last part of \<open>do_munmap\<close>, after the areas at both ends have been split.\<close>

definition munmap_tail :: "mm_env \<Rightarrow> vma_ptr option \<Rightarrow> 64 word \<Rightarrow> 64 word \<Rightarrow> mmst \<Rightarrow> (int \<times> mmst) option" where
  "munmap_tail E prev start end s = do {
     vma \<leftarrow> (case prev of Some q \<Rightarrow> vm_next (st_mm s) q | None \<Rightarrow> mm_first (st_mm s));
     let mm = st_mm s;
         mm = (if locked_vm mm \<noteq> 0
               then mm\<lparr>locked_vm := munlock_vmas end (dropWhile (\<lambda>v. vm_id v \<noteq> vma) (mmap mm)) (locked_vm mm)\<rparr> else mm);
         (gone, mm) = detach_vmas_to_be_unmapped E vma prev end mm;
         s = unmap_region E gone start end (s\<lparr>st_mm := mm\<rparr>)
     in Some (0, remove_vma_list E gone s)
   }"

definition do_munmap :: "mm_env \<Rightarrow> 64 word \<Rightarrow> 64 word \<Rightarrow> mmst \<Rightarrow> (int \<times> mmst) option" where
  "do_munmap E start len s =
     (if offset_in_page start \<noteq> 0 \<or> start > TASK_SIZE E \<or> len > TASK_SIZE E - start then Some (- EINVAL, s)
      else let len = PAGE_ALIGN len in
        if len = 0 then Some (- EINVAL, s)
        else case find_vma E (st_mm s) start of
          None \<Rightarrow> Some (0, s)
        | Some p \<Rightarrow>
            let vma = vma_at (st_mm s) p; prev = vm_prev (st_mm s) p; end = start + len
            in if vm_start vma \<ge> end then Some (0, s)
               else do {
                 (error, prev, s) \<leftarrow>
                   (if start > vm_start vma then
                      if end < vm_end vma \<and> map_count (st_mm s) \<ge> sysctl_max_map_count E then Some (- ENOMEM, prev, s)
                      else do { (error, s) \<leftarrow> raw_split_vma E p start False s; Some (error, Some p, s) }
                    else Some (0, prev, s));
                 if error \<noteq> 0 then Some (error, s)
                 else do {
                   (error, s) \<leftarrow>
                     (case find_vma E (st_mm s) end of
                        None \<Rightarrow> Some (0, s)
                      | Some lst \<Rightarrow>
                          if end > vm_start (vma_at (st_mm s) lst) then raw_split_vma E lst end True s else Some (0, s));
                   if error \<noteq> 0 then Some (error, s) else munmap_tail E prev start end s
                 }
               })"

definition vm_munmap :: "mm_env \<Rightarrow> 64 word \<Rightarrow> 64 word \<Rightarrow> mmst \<Rightarrow> (int \<times> mmst) option" where
  "vm_munmap E start len s = (if mmap_sem_killed E then Some (- EINTR, s) else do_munmap E start len s)"

definition sys_munmap :: "mm_env \<Rightarrow> 64 word \<Rightarrow> 64 word \<Rightarrow> mmst \<Rightarrow> (int \<times> mmst) option" where
  "sys_munmap E addr len s = (if mmap_sem_killed E then Some (- EINTR, s) else do_munmap E addr len s)"

section \<open>The end of an address space\<close>

fun exit_vmas :: "mm_env \<Rightarrow> vm_area_struct list \<Rightarrow> 64 word \<Rightarrow> mmst \<Rightarrow> 64 word \<times> mmst" where
  "exit_vmas E [] nr_accounted s = (nr_accounted, s)"
| "exit_vmas E (vma # vs) nr_accounted s =
     exit_vmas E vs (if vm_flags vma AND VM_ACCOUNT \<noteq> 0 then nr_accounted + vma_pages vma else nr_accounted) (remove_vma E vma s)"

definition exit_mmap :: "mm_env \<Rightarrow> mmst \<Rightarrow> mmst" where
  "exit_mmap E s =
     (if mmap (st_mm s) = [] then s
      else let vs = mmap (st_mm s);
               (nr_accounted, s) = exit_vmas E vs 0 (free_pgtables E vs (set_pgd (unmap_vmas E 0 (- 1) (pgd (st_mm s))) s))
           in vm_unacct_memory nr_accounted s)"

section \<open>Inserting a ready-made area\<close>

text \<open>\<open>None\<close> is the \<open>BUG_ON\<close>.  The area gets its final offset.\<close>

definition insert_vm_struct :: "mm_env \<Rightarrow> vm_area_struct \<Rightarrow> mmst \<Rightarrow> (int \<times> mmst) option" where
  "insert_vm_struct E vma s =
     (case find_vma_links (st_mm s) (vm_start vma) (vm_end vma) of
        None \<Rightarrow> Some (- ENOMEM, s)
      | Some ln \<Rightarrow>
          let (err, s) = (if vm_flags vma AND VM_ACCOUNT \<noteq> 0 then security_vm_enough_memory_mm E s (vma_pages vma) else (0, s))
          in if err \<noteq> 0 then Some (- ENOMEM, s)
             else if vma_is_anonymous vma then
               if anon_vma vma \<noteq> None then None
               else Some (0, vma_link E (vma\<lparr>vm_pgoff := drop_bit 12 (vm_start vma)\<rparr>) ln s)
             else Some (0, vma_link E vma ln s))"


section \<open>What is assumed\<close>

definition alloc_ok :: "mm_env \<Rightarrow> bool" where
  "alloc_ok E \<longleftrightarrow> (\<forall>s q. kmem_cache_alloc E s = Some q \<longrightarrow> (\<forall>v\<in>set (mmap (st_mm s)). vm_id v \<noteq> q))"

definition pgtables_ok :: "mm_env \<Rightarrow> bool" where
  "pgtables_ok E \<longleftrightarrow> (\<forall>vs s. \<exists>t. free_pgtables E vs s = set_pgd t (fold (unlink_file_vma E) vs s))"

text \<open>Everything about the environment that changing the areas of an address space relies on.\<close>

definition mm_env_ok :: "mm_env \<Rightarrow> bool" where
  "mm_env_ok E \<longleftrightarrow> clone_ok E \<and> rb_ok E \<and> vfs_ok (vfs E) \<and> vmacache_ok E \<and> alloc_ok E \<and> pgtables_ok E \<and>
     aligned (TASK_SIZE E) \<and> TASK_SIZE E \<le> 0x8000000000000000"

lemma mm_env_okD:
  assumes "mm_env_ok E"
  shows "clone_ok E" "rb_ok E" "vfs_ok (vfs E)" "vmacache_ok E" "alloc_ok E" "pgtables_ok E"
    "aligned (TASK_SIZE E)" "TASK_SIZE E \<le> 0x8000000000000000"
  using assms by (auto simp: mm_env_ok_def)

section \<open>Splitting\<close>

text \<open>The two halves of an area.\<close>

definition halves :: "vm_area_struct \<Rightarrow> 64 word \<Rightarrow> vm_area_struct \<Rightarrow> vm_area_struct \<Rightarrow> bool" where
  "halves v a l r \<longleftrightarrow> vm_flags l = vm_flags v \<and> vm_flags r = vm_flags v \<and> vm_file l = vm_file v \<and> vm_file r = vm_file v \<and>
     vm_start l = vm_start v \<and> vm_end l = a \<and> vm_pgoff l = vm_pgoff v \<and>
     vm_start r = a \<and> vm_end r = vm_end v \<and> vm_pgoff r = vm_pgoff v + drop_bit 12 (a - vm_start v)"

lemma bal_added:
  assumes h: "st_heap s' = (case vm_file v of None \<Rightarrow> st_heap s | Some f \<Rightarrow> get_file f (st_heap s))"
      "st_spaces s' = st_spaces (raw_vma_link_file E v s)"
    and m: "map vma_tag (mmap (st_mm s)) = xs @ ys" "map vma_tag (mmap (st_mm s')) = xs @ vma_tag v # ys"
  shows "bal E s' = bal E s"
  unfolding bal_def m Let_def
  by (cases "vm_file v") (auto simp: h raw_vma_link_file_def upd_space_def Let_def get_file_def
      vma_tag_def shared_in_def denies_in_def fun_eq_iff)

lemma pass_insert_now:
  assumes mm: "mm_ok (st_mm s)" and E: "rb_ok E" and sp: "mmap (st_mm s) = pre @ v # post"
    and ok: "areas_ok (if below then pre @ i # v' # post else pre @ v' # i # post)"
    and v': "v' = resized v start end pgoff" "\<not> below \<Longrightarrow> end < vm_end v" "vm_end (if below then v' else i) = vm_end v"
    and f: "vm_file i = vm_file v"
    and s0: "s0 = (case vm_file i of None \<Rightarrow> s | Some f \<Rightarrow> s\<lparr>st_heap := get_file f (st_heap s)\<rparr>)"
  shows "\<exists>s'. vma_adjust_pass E (vm_id v) next start end pgoff 0 False (Some i) (vm_file v) s0 = Some s' \<and>
    now_maps E s s' (if below then pre @ i # v' # post else pre @ v' # i # post)"
proof -
  let ?l = "if below then pre @ i # v' # post else pre @ v' # i # post"
  have mmo: "areas_ok (mmap (st_mm s))" "inorder (mm_rb (st_mm s)) = map vm_id (mmap (st_mm s))"
    "map_count (st_mm s) = int (length (mmap (st_mm s)))" "highest_vm_end (st_mm s) = highest_end (mmap (st_mm s))"
    using mm by (auto simp: mm_ok_def tree_ok_def)
  have st0: "st_mm s0 = st_mm s" "st_cur s0 = st_cur s" "st_spaces s0 = st_spaces s" "vm_committed_as s0 = vm_committed_as s"
    by (simp_all add: s0 split: option.split)
  let ?s1 = "case vm_file v of None \<Rightarrow> s0 | Some _ \<Rightarrow> raw_vma_link_file E i s0"
  have st1: "st_mm ?s1 = st_mm s" "st_cur ?s1 = st_cur s" "vm_committed_as ?s1 = vm_committed_as s" "st_heap ?s1 = st_heap s0"
    by (simp_all add: st0 split: option.split)
  have pos: "vma_position (st_mm s) pre v post" by (rule vma_positionI [OF mmo(1) sp])
  let ?mm = "(st_mm s)\<lparr>mmap := pre @ v' # post\<rparr>"
  have tree: "tree_ok ?mm"
    using ok mmo(2) by (auto simp: tree_ok_def sp v'(1) areas_ok_append areas_ok_Cons split: if_splits)
  have fresh: "\<forall>u\<in>set (mmap ?mm). vm_id u \<noteq> vm_id i" and io: "area_ok i"
    using ok by (auto simp: areas_ok_append areas_ok_Cons split: if_splits)
  obtain t where t: "raw_insert_vm_struct E i ?mm = Some (?mm\<lparr>mmap := ?l, mm_rb := t, highest_vm_end := highest_end ?l, map_count := map_count ?mm + 1\<rparr>)"
    "inorder t = map vm_id ?l"
  proof (cases below)
    case True
    have o: "\<forall>u\<in>set pre. vm_end u \<le> vm_start i" "\<forall>w\<in>set (v' # post). vm_end i \<le> vm_start w"
      using ok True by (auto simp: areas_ok_append areas_ok_Cons)
    obtain t where t: "raw_insert_vm_struct E i ?mm = Some (?mm\<lparr>mmap := pre @ i # v' # post, mm_rb := t,
        highest_vm_end := if v' # post = [] then vm_end i else highest_vm_end ?mm, map_count := map_count ?mm + 1\<rparr>)"
      "inorder t = map vm_id (pre @ i # v' # post)"
      using raw_insert_places [OF tree E _ o io fresh] by auto
    have "highest_vm_end (st_mm s) = highest_end (pre @ i # v' # post)"
      using mmo(4) v'(3) True by (simp add: sp highest_end_def)
    then show ?thesis using t that [of t] True by simp
  next
    case False
    have o: "\<forall>u\<in>set (pre @ [v']). vm_end u \<le> vm_start i" "\<forall>w\<in>set post. vm_end i \<le> vm_start w"
      using ok False by (auto simp: areas_ok_append areas_ok_Cons)
    obtain t where t: "raw_insert_vm_struct E i ?mm = Some (?mm\<lparr>mmap := (pre @ [v']) @ i # post, mm_rb := t,
        highest_vm_end := if post = [] then vm_end i else highest_vm_end ?mm, map_count := map_count ?mm + 1\<rparr>)"
      "inorder t = map vm_id ((pre @ [v']) @ i # post)"
      by (rule raw_insert_places [OF tree E _ o io fresh]) simp
    have hi: "(if post = [] then vm_end i else highest_vm_end ?mm) = highest_end (pre @ v' # i # post)"
      using mmo(4) by (auto simp: sp highest_end_def)
    show ?thesis using t that [of t] False unfolding hi by simp
  qed
  let ?s2 = "?s1\<lparr>st_mm := (st_mm s)\<lparr>mmap := ?l, mm_rb := t, highest_vm_end := highest_end ?l, map_count := map_count (st_mm s) + 1\<rparr>\<rparr>"
  have up: "upd_vma (vm_id v) (\<lambda>v. v\<lparr>vm_start := start, vm_end := end, vm_pgoff := pgoff\<rparr>) (st_mm s) = ?mm"
    using upd_vma_eq [OF pos] by (simp add: v'(1))
  have run: "vma_adjust_pass E (vm_id v) next start end pgoff 0 False (Some i) (vm_file v) s0 = Some ?s2"
    using t(1) st1 up by (cases "vm_file v"; cases "next") (simp_all add: vma_adjust_pass_def Let_def)
  have len: "map_count (st_mm s) + 1 = int (length ?l)" using mmo(3) by (simp add: sp)
  have "bal E ?s2 = bal E s"
  proof (cases below)
    case True
    then show ?thesis
      by (intro bal_added [where v = i and xs = "map vma_tag pre" and ys = "map vma_tag (v # post)"])
        (auto simp: sp v'(1) st0 f s0 st1 raw_vma_link_file_def upd_space_def Let_def split: option.split)
  next
    case False
    then show ?thesis
      by (intro bal_added [where v = i and xs = "map vma_tag (pre @ [v])" and ys = "map vma_tag post"])
        (auto simp: sp v'(1) st0 f s0 st1 raw_vma_link_file_def upd_space_def Let_def split: option.split)
  qed
  then have "now_maps E s ?s2 ?l"
    unfolding now_maps_def using t(2) len st1 by (intro conjI exI [of _ t] exI [of _ ?l]) simp_all
  with run show ?thesis by blast
qed

lemma vma_adjust_insert:
  "vma_adjust E p start end pgoff (Some i) s =
     map_option (Pair 0) (vma_adjust_pass E p (vm_next (st_mm s) p) start end pgoff 0 False (Some i) (vm_file (vma_at (st_mm s) p)) s)"
  by (cases "vm_next (st_mm s) p"; cases "vma_adjust_pass E p (vm_next (st_mm s) p) start end pgoff 0 False (Some i) (vm_file (vma_at (st_mm s) p)) s")
    (simp_all add: vma_adjust_def raw_vma_adjust_def vma_adjust_plan_def vma_adjust_import_def Let_def)

lemma raw_split_vma_result:
  assumes mm: "mm_ok (st_mm s)" and E: "mm_env_ok E" and sp: "mmap (st_mm s) = pre @ v # post"
    and a: "vm_start v < a" "a < vm_end v" "aligned a"
  shows "\<exists>r s'. raw_split_vma E (vm_id v) a below s = Some (r, s') \<and>
    (if r = 0 then \<exists>l h. halves v a l h \<and> vm_id (if below then h else l) = vm_id v \<and> areas_ok (pre @ l # h # post) \<and>
       now_maps E s s' (pre @ l # h # post) else s' = s)"
proof -
  note ee = mm_env_okD [OF E]
  have at: "vma_at (st_mm s) (vm_id v) = v" by (rule mm_ok_position(1) [OF mm sp])
  have ok: "areas_ok (pre @ v # post)" using mm sp by (simp add: mm_ok_def tree_ok_def)
  show ?thesis
  proof (cases "vm_flags v AND VM_HUGETLB \<noteq> 0 \<and> a AND NOT (huge_page_mask E v) \<noteq> 0")
    case True
    then show ?thesis by (simp add: raw_split_vma_def at)
  next
    case huge: False
    show ?thesis
    proof (cases "kmem_cache_alloc E s")
      case None
      then show ?thesis using huge by (simp add: raw_split_vma_def at)
    next
      case (Some q)
      then have fresh: "\<forall>u\<in>set (mmap (st_mm s)). vm_id u \<noteq> q" using ee(5) unfolding alloc_ok_def by blast
      obtain e1 pol where pol: "vma_dup_policy E v = (e1, pol)" by fastforce
      define new where "new = (let n = v\<lparr>vm_id := q, anon_vma_chain := []\<rparr> in
          (if below then n\<lparr>vm_end := a\<rparr> else n\<lparr>vm_start := a, vm_pgoff := vm_pgoff n + drop_bit 12 (a - vm_start v)\<rparr>)\<lparr>vm_policy := pol\<rparr>)"
      obtain e2 i where cl: "anon_vma_clone E new v = (e2, i)" by fastforce
      have "anon_only new (snd (anon_vma_clone E new v))" using ee(1) by (simp add: clone_ok_def)
      then have i: "anon_only new i" by (simp add: cl)
      have i': "vm_file i = vm_file v" "vm_flags i = vm_flags v" "vm_id i = q" "vm_start i = (if below then vm_start v else a)"
        "vm_end i = (if below then a else vm_end v)" "vm_pgoff i = (if below then vm_pgoff v else vm_pgoff v + drop_bit 12 (a - vm_start v))"
        by (simp_all add: anon_onlyD [OF i] new_def Let_def)
      show ?thesis
      proof (cases "e1 = 0 \<and> e2 = 0")
        case False
        then show ?thesis using huge Some pol cl
          by (cases below; cases "e1 = 0") (simp_all add: raw_split_vma_def at new_def Let_def)
      next
        case True
        define st where "st = (if below then a else vm_start v)"
        define en where "en = (if below then vm_end v else a)"
        define pg where "pg = (if below then vm_pgoff v + drop_bit 12 (a - vm_start v) else vm_pgoff v)"
        define v' where "v' = resized v st en pg"
        define s0 where "s0 = (case vm_file i of None \<Rightarrow> s | Some f \<Rightarrow> s\<lparr>st_heap := get_file f (st_heap s)\<rparr>)"
        have okl: "areas_ok (if below then pre @ i # v' # post else pre @ v' # i # post)"
          using ok a fresh i' by (auto simp: v'_def st_def en_def pg_def sp areas_ok_append areas_ok_Cons area_ok_def)
        obtain s' where s': "vma_adjust_pass E (vm_id v) (vm_next (st_mm s) (vm_id v)) st en pg 0 False (Some i) (vm_file v) s0 = Some s'"
          "now_maps E s s' (if below then pre @ i # v' # post else pre @ v' # i # post)"
        proof -
          have "\<not> below \<Longrightarrow> en < vm_end v" "vm_end (if below then v' else i) = vm_end v" using a i'(5) by (auto simp: v'_def en_def)
          from pass_insert_now [OF mm ee(2) sp okl v'_def this i'(1) s0_def] show ?thesis using that by blast
        qed
        have m0: "st_mm s0 = st_mm s" by (simp add: s0_def split: option.split)
        have run: "raw_split_vma E (vm_id v) a below s = Some (0, s')"
          using huge Some pol cl True s'(1) i'(4) m0
          by (cases below) (simp_all add: raw_split_vma_def at new_def Let_def s0_def [symmetric] vma_adjust_insert st_def en_def pg_def)
        show ?thesis
        proof (cases below)
          case True
          have "halves v a i v'" using True i' by (simp add: halves_def v'_def st_def en_def pg_def)
          then have "\<exists>l h. halves v a l h \<and> vm_id h = vm_id v \<and> areas_ok (pre @ l # h # post) \<and> now_maps E s s' (pre @ l # h # post)"
          proof (intro exI conjI)
            show "vm_id v' = vm_id v" by (simp add: v'_def)
          qed (use s'(2) okl True in simp_all)
          then show ?thesis using run True by simp
        next
          case False
          have "halves v a v' i" using False i' by (simp add: halves_def v'_def st_def en_def pg_def)
          then have "\<exists>l h. halves v a l h \<and> vm_id l = vm_id v \<and> areas_ok (pre @ l # h # post) \<and> now_maps E s s' (pre @ l # h # post)"
          proof (intro exI conjI)
            show "vm_id v' = vm_id v" by (simp add: v'_def)
          qed (use s'(2) okl False in simp_all)
          then show ?thesis using run False by simp
        qed
      qed
    qed
  qed
qed

lemma halves_view:
  assumes "halves v a l r" "vm_start v < a" "a < vm_end v" "aligned a" "aligned (vm_start v)"
  shows "view_of (pre @ l # r # post) = view_of (pre @ v # post)"
proof -
  have "view_of [l, r] = view_of [v]"
    by (rule view_of_split [of v a]) (use assms in \<open>auto simp: halves_def\<close>)
  from view_of_mid [OF this, of pre post] show ?thesis by simp
qed


section \<open>Removing areas\<close>

definition pages_of :: "vm_area_struct list \<Rightarrow> 64 word" where
  "pages_of vs = sum_list (map vma_pages vs)"

lemma pages_of_simps [simp]: "pages_of [] = 0" "pages_of (v # vs) = vma_pages v + pages_of vs"
  "pages_of (vs @ ws) = pages_of vs + pages_of ws"
  by (simp_all add: pages_of_def)

lemma vm_stat_account_simps [simp]:
  "mmap (vm_stat_account fl n mm) = mmap mm" "mm_rb (vm_stat_account fl n mm) = mm_rb mm"
  "map_count (vm_stat_account fl n mm) = map_count mm" "highest_vm_end (vm_stat_account fl n mm) = highest_vm_end mm"
  "total_vm (vm_stat_account fl n mm) = total_vm mm + n" "locked_vm (vm_stat_account fl n mm) = locked_vm mm"
  "def_flags (vm_stat_account fl n mm) = def_flags mm" "mm_fixed (vm_stat_account fl n mm) = mm_fixed mm"
  by (simp_all add: vm_stat_account_def Let_def)

lemma vm_unacct_memory_simps [simp]:
  "st_mm (vm_unacct_memory n s) = st_mm s" "st_heap (vm_unacct_memory n s) = st_heap s"
  "st_spaces (vm_unacct_memory n s) = st_spaces s" "st_cur (vm_unacct_memory n s) = st_cur s"
  by (simp_all add: vm_unacct_memory_def)

text \<open>A state with the same areas, tree, count and highest end.\<close>

definition same_areas :: "mm_struct \<Rightarrow> mm_struct \<Rightarrow> bool" where
  "same_areas mm mm' \<longleftrightarrow> mmap mm' = mmap mm \<and> mm_rb mm' = mm_rb mm \<and> map_count mm' = map_count mm \<and> highest_vm_end mm' = highest_vm_end mm \<and>
     mm_fixed mm' = mm_fixed mm"

lemma same_areas_ok: "same_areas mm mm' \<Longrightarrow> mm_ok mm' = mm_ok mm"
  by (simp add: same_areas_def mm_ok_def tree_ok_def)

lemma set_pgd_simps [simp]:
  "st_mm (set_pgd t s) = (st_mm s)\<lparr>pgd := t\<rparr>" "st_heap (set_pgd t s) = st_heap s" "st_cur (set_pgd t s) = st_cur s"
  "st_spaces (set_pgd t s) = st_spaces s" "vm_committed_as (set_pgd t s) = vm_committed_as s"
  by (simp_all add: set_pgd_def)

lemma set_pgd_twice [simp]: "set_pgd t (set_pgd u s) = set_pgd t s"
  by (simp add: set_pgd_def)

lemma unmap_region_pgd:
  "pgtables_ok E \<Longrightarrow> \<exists>t. unmap_region E vs a e s = set_pgd t (fold (unlink_file_vma E) vs (set_pgd (unmap_vmas E a e (pgd (st_mm s))) s))"
  unfolding unmap_region_def pgtables_ok_def by blast

lemma remove_vmas_result:
  assumes "vfs_ok (vfs E)"
  shows "same_areas (st_mm s) (st_mm (snd (remove_vmas E vs n s))) \<and> st_spaces (snd (remove_vmas E vs n s)) = st_spaces s \<and>
    st_cur (snd (remove_vmas E vs n s)) = st_cur s \<and>
    total_vm (st_mm (snd (remove_vmas E vs n s))) = total_vm (st_mm s) - pages_of vs \<and>
    (\<forall>f. f_count (st_heap (snd (remove_vmas E vs n s)) f) =
      f_count (st_heap s f) - int (length (filter (\<lambda>t. fst t = Some f) (map vma_tag vs))))"
  using assms
proof (induction E vs n s rule: remove_vmas.induct)
  case (2 E vma vs n s)
  let ?n = "if vm_flags vma AND VM_ACCOUNT \<noteq> 0 then n + vma_pages vma else n"
  let ?s = "s\<lparr>st_mm := vm_stat_account (vm_flags vma) (- vma_pages vma) (st_mm s)\<rparr>"
  note ih = 2(1) [of ?n ?s, OF refl refl 2(2)]
  show ?case
    using ih by (cases "vm_file vma") (auto simp: Let_def same_areas_def remove_vma_def vma_tag_def vfs_okD [OF 2(2)])
qed (simp add: same_areas_def)

lemma unlink_file_vmas_result:
  "st_mm (fold (unlink_file_vma E) vs s) = st_mm s \<and> st_heap (fold (unlink_file_vma E) vs s) = st_heap s \<and>
   st_cur (fold (unlink_file_vma E) vs s) = st_cur s \<and> vm_committed_as (fold (unlink_file_vma E) vs s) = vm_committed_as s \<and>
   (\<forall>m. i_mmap_writable (st_spaces (fold (unlink_file_vma E) vs s) m) =
      i_mmap_writable (st_spaces s m) - int (length (filter (shared_in E m) (map vma_tag vs))) \<and>
      i_writecount (st_spaces (fold (unlink_file_vma E) vs s) m) =
      i_writecount (st_spaces s m) + int (length (filter (denies_in E m) (map vma_tag vs))))"
proof (induction vs arbitrary: s)
  case (Cons v vs)
  show ?case
    using Cons [of "unlink_file_vma E v s"]
    by (cases "vm_file v") (auto simp: unlink_file_vma_def raw_remove_shared_vm_struct_def upd_space_def Let_def vma_tag_def shared_in_def denies_in_def)
qed simp

lemma fold_erase_inorder:
  assumes "rb_ok E"
  shows "distinct (inorder t) \<Longrightarrow> inorder (fold (\<lambda>v. rb_erase_augmented E (vm_id v)) vs t) = filter (\<lambda>p. p \<notin> vm_id ` set vs) (inorder t)"
proof (induction vs arbitrary: t)
  case (Cons v vs)
  have "inorder (rb_erase_augmented E (vm_id v) t) = filter (\<lambda>q. q \<noteq> vm_id v) (inorder t)"
    using assms Cons.prems by (simp add: rb_ok_def)
  then show ?case using Cons by (auto intro: filter_cong)
qed simp

lemma takeWhile_append_None: "(\<forall>x\<in>set xs. P x) \<Longrightarrow> (\<forall>y\<in>set ys. \<not> P y) \<Longrightarrow> takeWhile P (xs @ ys) = xs"
  by (induction xs) (auto, (cases ys; auto))

lemma detach_result:
  assumes mm: "mm_ok mm" and E: "rb_ok E" and sp: "mmap mm = front @ g # gs @ rest"
    and prev: "prev = (if front = [] then None else Some (vm_id (last front)))"
    and e: "\<forall>v\<in>set gs. vm_start v < end" "\<forall>v\<in>set rest. \<not> vm_start v < end"
  shows "\<exists>t. detach_vmas_to_be_unmapped E (vm_id g) prev end mm = (g # gs, mm\<lparr>mmap := front @ rest, mm_rb := t,
       map_count := int (length (front @ rest)), highest_vm_end := highest_end (front @ rest)\<rparr>) \<and> inorder t = map vm_id (front @ rest)"
proof -
  have ok: "areas_ok (mmap mm)" "inorder (mm_rb mm) = map vm_id (mmap mm)" "map_count mm = int (length (mmap mm))"
    "highest_vm_end mm = highest_end (mmap mm)" using mm by (auto simp: mm_ok_def tree_ok_def)
  have pos: "vma_position mm front g (gs @ rest)" by (rule vma_positionI [OF ok(1) sp])
  have front: "(case prev of None \<Rightarrow> [] | Some q \<Rightarrow> takeWhile (\<lambda>v. vm_id v \<noteq> q) (mmap mm) @ [vma_at mm q]) = front"
    "(case prev of None \<Rightarrow> 0 | Some q \<Rightarrow> vm_end (vma_at mm q)) = highest_end front"
  proof -
    have "takeWhile (\<lambda>v. vm_id v \<noteq> vm_id (last front)) (mmap mm) @ [last front] = front \<and> vma_at mm (vm_id (last front)) = last front"
      if "front \<noteq> []"
    proof -
      have sp': "mmap mm = butlast front @ last front # g # gs @ rest" using sp that by simp
      have "vma_position mm (butlast front) (last front) (g # gs @ rest)" by (rule vma_positionI [OF ok(1) sp'])
      from vma_position_while(1) [OF this] vma_position_at(2) [OF this] that show ?thesis by simp
    qed
    then show "(case prev of None \<Rightarrow> [] | Some q \<Rightarrow> takeWhile (\<lambda>v. vm_id v \<noteq> q) (mmap mm) @ [vma_at mm q]) = front"
      "(case prev of None \<Rightarrow> 0 | Some q \<Rightarrow> vm_end (vma_at mm q)) = highest_end front"
      by (auto simp: prev highest_end_def)
  qed
  have tw: "takeWhile (\<lambda>w. vm_start w < end) (gs @ rest) = gs" by (rule takeWhile_append_None [OF e])
  define t where "t = fold (\<lambda>v. rb_erase_augmented E (vm_id v)) (g # gs) (mm_rb mm)"
  have dist: "distinct (map vm_id (front @ g # gs @ rest))" using ok(1) sp by (simp add: areas_ok_def)
  have flt: "filter (\<lambda>p. p \<notin> vm_id ` set (g # gs)) (map vm_id vs) = map vm_id vs" if "\<forall>v\<in>set vs. vm_id v \<notin> vm_id ` set (g # gs)" for vs
    using that by (induction vs) auto
  have "inorder t = filter (\<lambda>p. p \<notin> vm_id ` set (g # gs)) (map vm_id front @ map vm_id (g # gs) @ map vm_id rest)"
    unfolding t_def using fold_erase_inorder [OF E, of "mm_rb mm" "g # gs"] ok(2) dist by (simp add: sp)
  also have "\<dots> = map vm_id front @ map vm_id rest"
  proof -
    have "filter (\<lambda>p. p \<notin> vm_id ` set (g # gs)) (map vm_id (g # gs)) = []" by (auto simp: filter_empty_conv)
    moreover have "vm_id ` set front \<inter> vm_id ` set (g # gs) = {}" "vm_id ` set rest \<inter> vm_id ` set (g # gs) = {}"
      using dist by auto
    then have "\<forall>v\<in>set front. vm_id v \<notin> vm_id ` set (g # gs)" "\<forall>v\<in>set rest. vm_id v \<notin> vm_id ` set (g # gs)"
      by blast+
    ultimately show ?thesis using flt by simp
  qed
  finally have io: "inorder t = map vm_id (front @ rest)" by simp
  have "detach_vmas_to_be_unmapped E (vm_id g) prev end mm = (g # gs, mm\<lparr>mmap := front @ rest, mm_rb := t,
       map_count := int (length (front @ rest)), highest_vm_end := highest_end (front @ rest)\<rparr>)"
    unfolding detach_vmas_to_be_unmapped_def Let_def vma_position_while(2) [OF pos] front list.case tw t_def
    using ok(3,4) by (auto simp: sp highest_end_def)
  with io show ?thesis by blast
qed


section \<open>Rounding to pages\<close>

lemma unat_and_not_fff: "unat (a AND NOT (0xfff :: 64 word)) = unat a div 4096 * 4096"
proof -
  have "a AND NOT (0xfff :: 64 word) = push_bit 12 (drop_bit 12 a)"
  proof -
    have "(0xfff :: 64 word) = mask 12" by (simp add: mask_eq_exp_minus_1)
    then show ?thesis by (auto simp only: bit_eq_iff bit_simps) auto
  qed
  also have "unat \<dots> = unat a div 4096 * 4096"
  proof -
    have "unat a < 2 ^ LENGTH(64)" by (rule unsigned_less)
    then have "unat a div 4096 * 4096 < 2 ^ 64" by (simp add: div_times_less_eq_dividend le_less_trans)
    then show ?thesis by (simp add: push_bit_eq_mult unat_word_ariths unat_drop12)
  qed
  finally show ?thesis .
qed

lemma PAGE_ALIGN_unat: "a \<le> 0x8000000000000000 \<Longrightarrow> unat (PAGE_ALIGN a) = (unat a + 4095) div 4096 * 4096"
proof -
  assume "a \<le> 0x8000000000000000"
  then have "unat a \<le> unat (0x8000000000000000 :: 64 word)" by (simp add: word_le_nat_alt)
  then have "unat (a + 0xfff) = unat a + 4095" by (simp add: unat_word_ariths)
  then show ?thesis unfolding PAGE_ALIGN_def unat_and_not_fff by simp
qed

lemma round_up_nat:
  fixes n m k :: nat
  shows "n \<le> (n + 4095) div 4096 * 4096"
    and "n \<le> m \<Longrightarrow> m mod 4096 = 0 \<Longrightarrow> (n + 4095) div 4096 * 4096 \<le> m"
    and "k mod 4096 = 0 \<Longrightarrow> (k + (n + 4095) div 4096 * 4096) mod 4096 = 0"
proof -
  show "n \<le> (n + 4095) div 4096 * 4096"
    using div_mult_mod_eq [of "n + 4095" 4096] mod_less_divisor [of 4096 "n + 4095"] by linarith
  assume "n \<le> m" "m mod 4096 = 0"
  then obtain q where q: "m = 4096 * q" "n \<le> 4096 * q" by (metis mod_0_imp_dvd dvdE)
  have "(n + 4095) div 4096 \<le> (4096 * q + 4095) div 4096" by (rule div_le_mono) (use q in simp)
  then show "(n + 4095) div 4096 * 4096 \<le> m" by (simp add: q)
qed (simp add: mod_add_left_eq [symmetric])

lemma PAGE_ALIGN_bounds:
  assumes T: "aligned T" "T \<le> 0x8000000000000000" and s: "aligned start" "start \<le> T" "len \<le> T - start"
  shows "aligned (PAGE_ALIGN len)" "len \<le> PAGE_ALIGN len" "PAGE_ALIGN len \<le> T - start" "start + PAGE_ALIGN len \<le> T"
    "aligned (start + PAGE_ALIGN len)" "PAGE_ALIGN len \<noteq> 0 \<Longrightarrow> start < start + PAGE_ALIGN len"
proof -
  have le: "len \<le> 0x8000000000000000"
    by (rule order.trans [OF s(3) order.trans [OF word_sub_le [OF s(2)] T(2)]])
  note u = PAGE_ALIGN_unat [OF le]
  show "aligned (PAGE_ALIGN len)" by (simp add: aligned_unat u)
  show l2: "len \<le> PAGE_ALIGN len" unfolding word_le_nat_alt u by (rule round_up_nat(1))
  have "unat (T - start) mod 4096 = 0" using aligned_diff [OF T(1) s(1,2)] by (simp add: aligned_unat)
  moreover have "unat len \<le> unat (T - start)" using s(3) by (simp add: word_le_nat_alt)
  ultimately have p: "unat (PAGE_ALIGN len) \<le> unat (T - start)" unfolding u by (intro round_up_nat(2))
  then show l3: "PAGE_ALIGN len \<le> T - start" by (simp add: word_le_nat_alt)
  have us: "unat (T - start) = unat T - unat start" "unat start \<le> unat T" using s(2) by (simp_all add: unat_minus_le word_le_nat_alt)
  have T2: "unat T < 2 ^ LENGTH(64)" by (rule unsigned_less)
  have sum: "unat (start + PAGE_ALIGN len) = unat start + unat (PAGE_ALIGN len)"
    using p us T2 by (simp add: unat_word_ariths)
  show "start + PAGE_ALIGN len \<le> T" using p us by (simp add: word_le_nat_alt sum)
  have "unat start mod 4096 = 0" using s(1) by (simp add: aligned_unat)
  then show "aligned (start + PAGE_ALIGN len)" unfolding aligned_unat sum u by (rule round_up_nat(3))
  show "start < start + PAGE_ALIGN len" if "PAGE_ALIGN len \<noteq> 0"
  proof -
    have "unat (PAGE_ALIGN len) \<noteq> 0" using that by (simp add: unat_eq_zero)
    then show ?thesis by (simp add: word_less_nat_alt sum)
  qed
qed

section \<open>The outcome of unmapping\<close>

text \<open>What every operation here preserves: the references, and \<open>total_vm\<close> counting the pages of the areas.\<close>

definition mm_step :: "mm_env \<Rightarrow> mmst \<Rightarrow> mmst \<Rightarrow> bool" where
  "mm_step E s s' \<longleftrightarrow> mm_ok (st_mm s') \<and> bal E s' = bal E s \<and> st_cur s' = st_cur s \<and> mm_fixed (st_mm s') = mm_fixed (st_mm s) \<and>
     total_vm (st_mm s') - pages_of (mmap (st_mm s')) = total_vm (st_mm s) - pages_of (mmap (st_mm s))"

lemma mm_step_refl: "mm_ok (st_mm s) \<Longrightarrow> mm_step E s s"
  by (simp add: mm_step_def)

lemma mm_step_trans: "mm_step E s s' \<Longrightarrow> mm_step E s' s'' \<Longrightarrow> mm_step E s s''"
  by (simp add: mm_step_def)

lemma anons_pages: "anons vs ws \<Longrightarrow> pages_of ws = pages_of vs"
  by (induction rule: list_all2_induct) (auto simp: vma_pages_def anon_onlyD)

lemma now_maps_step:
  assumes "now_maps E s s' vs" "areas_ok vs" "pages_of vs = pages_of (mmap (st_mm s))"
  shows "mm_step E s s'"
  using now_mapsD [OF assms(1)] assms(2,3) anons_pages [OF now_mapsD(1) [OF assms(1)]] by (simp add: mm_step_def)

lemma halves_pages:
  assumes "halves v a l r" "vm_start v < a" "a < vm_end v" "aligned a" "aligned (vm_start v)"
  shows "vma_pages l + vma_pages r = vma_pages v"
  using assms drop12_diff [of "vm_start v" a "vm_end v"] by (simp add: halves_def vma_pages_def)

lemma munmap_tail_result:
  assumes mm: "mm_ok (st_mm s)" and E: "mm_env_ok E" and sp: "mmap (st_mm s) = front @ g # gs @ rest"
    and prev: "prev = (if front = [] then None else Some (vm_id (last front)))"
    and e: "\<forall>v\<in>set gs. vm_start v < end" "\<forall>v\<in>set rest. \<not> vm_start v < end"
  shows "\<exists>s'. munmap_tail E prev start end s = Some (0, s') \<and> mmap (st_mm s') = front @ rest \<and> mm_step E s s'"
proof -
  note ee = mm_env_okD [OF E]
  have nx: "(case prev of Some q \<Rightarrow> vm_next (st_mm s) q | None \<Rightarrow> mm_first (st_mm s)) = Some (vm_id g)"
  proof (cases "front = []")
    case False
    have "mmap (st_mm s) = butlast front @ last front # g # gs @ rest" using sp False by simp
    from mm_ok_position(2) [OF mm this] show ?thesis using False by (simp add: prev)
  qed (simp add: prev mm_first_def sp)
  define mm1 where "mm1 = (if locked_vm (st_mm s) \<noteq> 0
      then (st_mm s)\<lparr>locked_vm := munlock_vmas end (dropWhile (\<lambda>v. vm_id v \<noteq> vm_id g) (mmap (st_mm s))) (locked_vm (st_mm s))\<rparr> else st_mm s)"
  have mm1: "mm_ok mm1" "mmap mm1 = front @ g # gs @ rest" "total_vm mm1 = total_vm (st_mm s)" "mm_fixed mm1 = mm_fixed (st_mm s)"
    using mm sp by (auto simp: mm1_def mm_ok_def tree_ok_def)
  from detach_result [OF mm1(1) ee(2) mm1(2) prev e] obtain t where
    t: "detach_vmas_to_be_unmapped E (vm_id g) prev end mm1 = (g # gs, mm1\<lparr>mmap := front @ rest, mm_rb := t,
       map_count := int (length (front @ rest)), highest_vm_end := highest_end (front @ rest)\<rparr>)" "inorder t = map vm_id (front @ rest)"
    by blast
  define mm2 where "mm2 = mm1\<lparr>mmap := front @ rest, mm_rb := t, map_count := int (length (front @ rest)), highest_vm_end := highest_end (front @ rest)\<rparr>"
  have "areas_ok (front @ rest)" using mm sp by (auto simp: mm_ok_def tree_ok_def areas_ok_append areas_ok_Cons)
  then have mm2: "mm_ok mm2" "mmap mm2 = front @ rest" "total_vm mm2 = total_vm (st_mm s)" "mm_fixed mm2 = mm_fixed (st_mm s)"
    using t(2) mm1(3,4) by (simp_all add: mm2_def mm_ok_def tree_ok_def)
  obtain t2 where t2: "unmap_region E (g # gs) start end (s\<lparr>st_mm := mm2\<rparr>) =
      set_pgd t2 (fold (unlink_file_vma E) (g # gs) (set_pgd (unmap_vmas E start end (pgd (st_mm (s\<lparr>st_mm := mm2\<rparr>)))) (s\<lparr>st_mm := mm2\<rparr>)))"
    using unmap_region_pgd [OF ee(6), of "g # gs" start "end" "s\<lparr>st_mm := mm2\<rparr>"] by blast
  define s2 where "s2 = unmap_region E (g # gs) start end (s\<lparr>st_mm := mm2\<rparr>)"
  have s2: "st_mm s2 = mm2\<lparr>pgd := t2\<rparr>" "st_heap s2 = st_heap s" "st_cur s2 = st_cur s"
    "\<And>m. i_mmap_writable (st_spaces s2 m) = i_mmap_writable (st_spaces s m) - int (length (filter (shared_in E m) (map vma_tag (g # gs))))"
    "\<And>m. i_writecount (st_spaces s2 m) = i_writecount (st_spaces s m) + int (length (filter (denies_in E m) (map vma_tag (g # gs))))"
    using unlink_file_vmas_result [of E "g # gs" "set_pgd (unmap_vmas E start end (pgd (st_mm (s\<lparr>st_mm := mm2\<rparr>)))) (s\<lparr>st_mm := mm2\<rparr>)"]
    unfolding s2_def t2 by simp_all
  define s3 where "s3 = remove_vma_list E (g # gs) s2"
  have s3: "same_areas mm2 (st_mm s3)" "st_spaces s3 = st_spaces s2" "st_cur s3 = st_cur s" "total_vm (st_mm s3) = total_vm (st_mm s) - pages_of (g # gs)"
    "\<And>f. f_count (st_heap s3 f) = f_count (st_heap s f) - int (length (filter (\<lambda>t. fst t = Some f) (map vma_tag (g # gs))))"
    using remove_vmas_result [OF ee(3), of s2 "g # gs" 0] mm2(3)
    by (simp_all add: s3_def remove_vma_list_def case_prod_unfold Let_def s2 same_areas_def)
  have run: "munmap_tail E prev start end s = Some (0, s3)"
    unfolding munmap_tail_def nx bind.bind_lunit Let_def mm1_def [symmetric] t(1) mm2_def [symmetric] prod.case
    by (simp add: s3_def s2_def)
  have mp: "mmap (st_mm s3) = front @ rest" using s3(1) mm2(2) by (simp add: same_areas_def)
  have "bal E s3 = bal E s"
    unfolding bal_def mp sp Let_def by (auto simp: fun_eq_iff s3(2,5) s2(4,5))
  moreover have "total_vm (st_mm s3) - pages_of (mmap (st_mm s3)) = total_vm (st_mm s) - pages_of (mmap (st_mm s))"
    using s3(4) by (simp add: mp sp)
  moreover have "mm_fixed (st_mm s3) = mm_fixed (st_mm s)" using s3(1) mm2(4) by (simp add: same_areas_def)
  ultimately have "mm_step E s s3" using same_areas_ok [OF s3(1)] mm2(1) s3(3) by (simp add: mm_step_def)
  with run mp show ?thesis by blast
qed


lemma find_Some_split: "find P xs = Some x \<Longrightarrow> \<exists>ys zs. xs = ys @ x # zs \<and> (\<forall>y\<in>set ys. \<not> P y) \<and> P x"
proof (induction xs)
  case (Cons y xs)
  show ?case
  proof (cases "P y")
    case True
    then show ?thesis using Cons.prems by (intro exI [of _ "[]"] exI [of _ xs]) auto
  next
    case False
    then obtain ys zs where "xs = ys @ x # zs" "\<forall>y\<in>set ys. \<not> P y" "P x" using Cons by auto
    then show ?thesis using False by (intro exI [of _ "y # ys"] exI [of _ zs]) auto
  qed
qed simp

lemma find_vma_cases [consumes 2, case_names none found]:
  assumes "mm_ok mm" "vmacache_ok E"
  obtains (none) "find_vma E mm a = None" "\<forall>v\<in>set (mmap mm). vm_end v \<le> a"
  | (found) pre v post where "find_vma E mm a = Some (vm_id v)" "mmap mm = pre @ v # post" "\<forall>u\<in>set pre. vm_end u \<le> a" "a < vm_end v"
proof (cases "find (\<lambda>v. a < vm_end v) (mmap mm)")
  case None
  then show thesis using find_vma_list [OF _ assms(2), of mm a] assms(1) by (intro none) (auto simp: find_None_iff not_less)
next
  case (Some v)
  from find_Some_split [OF this] obtain pre post where "mmap mm = pre @ v # post" "\<forall>u\<in>set pre. vm_end u \<le> a" "a < vm_end v"
    by (auto simp: not_less)
  then show thesis using Some find_vma_list [OF _ assms(2), of mm a] assms(1) by (intro found [of v pre post]) auto
qed

lemma anons_bounds:
  "anons vs ws \<Longrightarrow> (\<forall>v\<in>set ws. P (vm_start v) (vm_end v)) = (\<forall>v\<in>set vs. P (vm_start v) (vm_end v))"
  by (induction rule: list_all2_induct) (auto simp: anon_onlyD)

lemma anons_Nil: "anons vs ws \<Longrightarrow> (ws = []) = (vs = [])"
  by (auto dest: list_all2_lengthD)

lemma anons_last: "anons vs ws \<Longrightarrow> vs \<noteq> [] \<Longrightarrow> vm_id (last ws) = vm_id (last vs)"
proof (induction rule: list_all2_induct)
  case (Cons v vs w ws)
  then show ?case by (auto simp: anon_onlyD anons_Nil dest: list_all2_lengthD)
qed simp

text \<open>The first area of the range, cut at the start of the range if necessary.\<close>

definition cut_start :: "mm_env \<Rightarrow> 64 word \<Rightarrow> 64 word \<Rightarrow> vma_ptr \<Rightarrow> mmst \<Rightarrow> (int \<times> vma_ptr option \<times> mmst) option" where
  "cut_start E start end p s =
     (let vma = vma_at (st_mm s) p; prev = vm_prev (st_mm s) p in
      if start > vm_start vma then
        if end < vm_end vma \<and> map_count (st_mm s) \<ge> sysctl_max_map_count E then Some (- ENOMEM, prev, s)
        else do { (error, s) \<leftarrow> raw_split_vma E p start False s; Some (error, Some p, s) }
      else Some (0, prev, s))"

definition cut_end :: "mm_env \<Rightarrow> 64 word \<Rightarrow> mmst \<Rightarrow> (int \<times> mmst) option" where
  "cut_end E end s =
     (case find_vma E (st_mm s) end of
        None \<Rightarrow> Some (0, s)
      | Some lst \<Rightarrow> if end > vm_start (vma_at (st_mm s) lst) then raw_split_vma E lst end True s else Some (0, s))"

lemma cut_start_result:
  assumes mm: "mm_ok (st_mm s)" and E: "mm_env_ok E" and sp: "mmap (st_mm s) = pre @ v # post"
    and st: "aligned start" "\<forall>u\<in>set pre. vm_end u \<le> start" "start < vm_end v" "vm_start v < end"  "start < end"
  shows "\<exists>r prev s'. cut_start E start end (vm_id v) s = Some (r, prev, s') \<and> mm_step E s s' \<and> mm_view (st_mm s') = mm_view (st_mm s) \<and>
    (r = 0 \<longrightarrow> (\<exists>front w rest. mmap (st_mm s') = front @ w # rest \<and> prev = (if front = [] then None else Some (vm_id (last front))) \<and>
       (\<forall>u\<in>set front. vm_end u \<le> start) \<and> start \<le> vm_start w \<and> vm_start w < end))"
proof -
  note at = mm_ok_position [OF mm sp]
  have ok: "areas_ok (pre @ v # post)" using mm sp by (simp add: mm_ok_def tree_ok_def)
  show ?thesis
  proof (cases "vm_start v < start")
    case False
    have "\<exists>front w rest. mmap (st_mm s) = front @ w # rest \<and> vm_prev (st_mm s) (vm_id v) = (if front = [] then None else Some (vm_id (last front))) \<and>
       (\<forall>u\<in>set front. vm_end u \<le> start) \<and> start \<le> vm_start w \<and> vm_start w < end"
      by (rule exI [of _ pre], rule exI [of _ v], rule exI [of _ post]) (use False sp st at in \<open>simp add: not_less\<close>)
    then show ?thesis using False at mm_step_refl [OF mm, of E] by (simp add: cut_start_def Let_def)
  next
    case True
    show ?thesis
    proof (cases "end < vm_end v \<and> map_count (st_mm s) \<ge> sysctl_max_map_count E")
      case lim: True
      then show ?thesis using True at mm_step_refl [OF mm, of E] by (auto simp: cut_start_def Let_def)
    next
      case lim: False
      obtain r s' where r: "raw_split_vma E (vm_id v) start False s = Some (r, s')"
        "if r = 0 then \<exists>l h. halves v start l h \<and> vm_id (if False then h else l) = vm_id v \<and> areas_ok (pre @ l # h # post) \<and>
           now_maps E s s' (pre @ l # h # post) else s' = s"
        using raw_split_vma_result [OF mm E sp True st(3,1), of False] by blast
      have run: "cut_start E start end (vm_id v) s = Some (r, Some (vm_id v), s')"
        using True lim r(1) at by (auto simp: cut_start_def Let_def)
      show ?thesis
      proof (cases "r = 0")
        case False
        then show ?thesis using run r(2) mm_step_refl [OF mm, of E] by simp
      next
        case r0: True
        then obtain l h where lh: "halves v start l h" "vm_id l = vm_id v" "areas_ok (pre @ l # h # post)" "now_maps E s s' (pre @ l # h # post)"
          using r(2) by auto
        have al: "aligned (vm_start v)" using ok by (auto simp: areas_ok_append areas_ok_Cons area_ok_def)
        have "pages_of (pre @ l # h # post) = pages_of (mmap (st_mm s))"
          using halves_pages [OF lh(1) True st(3,1) al] by (simp add: sp add.assoc [symmetric])
        then have step: "mm_step E s s'" by (rule now_maps_step [OF lh(4,3)])
        have view: "mm_view (st_mm s') = mm_view (st_mm s)"
          using now_mapsD(2) [OF lh(4)] halves_view [OF lh(1) True st(3,1) al] by (simp add: mm_view_def sp)
        from now_mapsD(1) [OF lh(4)] obtain pre' l' h' post' where
          m: "mmap (st_mm s') = pre' @ l' # h' # post'" "anons pre pre'" "anon_only l l'" "anon_only h h'"
          by (auto simp: list_all2_append1 list_all2_Cons1)
        have "mmap (st_mm s') = (pre' @ [l']) @ h' # post'" using m(1) by simp
        moreover have "\<forall>u\<in>set (pre' @ [l']). vm_end u \<le> start"
          using anons_bounds [OF m(2), of "\<lambda>a b. b \<le> start"] st(2) lh(1) by (simp add: anon_onlyD [OF m(3)] halves_def)
        moreover have "start \<le> vm_start h'" "vm_start h' < end" using lh(1) st(5) by (simp_all add: anon_onlyD [OF m(4)] halves_def)
        moreover have "Some (vm_id v) = (if pre' @ [l'] = [] then None else Some (vm_id (last (pre' @ [l']))))"
          using lh(2) by (simp add: anon_onlyD [OF m(3)])
        ultimately have "\<exists>front w rest. mmap (st_mm s') = front @ w # rest \<and> Some (vm_id v) = (if front = [] then None else Some (vm_id (last front))) \<and>
            (\<forall>u\<in>set front. vm_end u \<le> start) \<and> start \<le> vm_start w \<and> vm_start w < end" by blast
        then show ?thesis using run step view by blast
      qed
    qed
  qed
qed

lemma cut_end_result:
  assumes mm: "mm_ok (st_mm s)" and E: "mm_env_ok E" and sp: "mmap (st_mm s) = front @ w # rest"
    and w: "vm_start w < end" "\<forall>u\<in>set front. vm_end u \<le> vm_start w" "aligned end"
  shows "\<exists>r s'. cut_end E end s = Some (r, s') \<and> mm_step E s s' \<and> mm_view (st_mm s') = mm_view (st_mm s) \<and>
    (r = 0 \<longrightarrow> (\<exists>front' g gs rest'. mmap (st_mm s') = front' @ g # gs @ rest' \<and> anons front front' \<and> vm_start g = vm_start w \<and>
       (\<forall>v\<in>set (g # gs). vm_end v \<le> end) \<and> (\<forall>v\<in>set rest'. end \<le> vm_start v)))"
proof -
  note ee = mm_env_okD [OF E]
  have ok: "areas_ok (front @ w # rest)" using mm sp by (simp add: mm_ok_def tree_ok_def)
  from mm ee(4) show ?thesis
  proof (cases rule: find_vma_cases [of _ _ "end"])
    case none
    have "\<exists>front' g gs rest'. mmap (st_mm s) = front' @ g # gs @ rest' \<and> anons front front' \<and> vm_start g = vm_start w \<and>
       (\<forall>v\<in>set (g # gs). vm_end v \<le> end) \<and> (\<forall>v\<in>set rest'. end \<le> vm_start v)"
      by (rule exI [of _ front], rule exI [of _ w], rule exI [of _ rest], rule exI [of _ "[]"]) (use none sp in simp)
    then show ?thesis using none mm_step_refl [OF mm, of E] by (simp add: cut_end_def)
  next
    case (found pre v post)
    have "vm_end u \<le> end" if "u \<in> set front" for u using w that by force
    have nf: "v \<notin> set front" using found(4) w by force
    from sp found(2) have eq: "front @ w # rest = pre @ v # post" by simp
    obtain gs0 where gs0: "pre = front @ gs0" "gs0 @ v # post = w # rest"
    proof -
      from eq obtain us where "front = pre @ us \<and> us @ w # rest = v # post \<or> front @ us = pre \<and> w # rest = us @ v # post"
        by (auto simp: append_eq_append_conv2)
      then show ?thesis
      proof
        assume a: "front = pre @ us \<and> us @ w # rest = v # post"
        then have "us = []" using nf by (cases us) auto
        then show ?thesis using a that [of "[]"] by simp
      qed (use that [of us] in auto)
    qed
    have at: "vma_at (st_mm s) (vm_id v) = v" by (rule mm_ok_position(1) [OF mm found(2)])
    have rest: "\<forall>u\<in>set post. end \<le> vm_start u"
    proof -
      have "\<forall>u\<in>set post. vm_end v \<le> vm_start u" using ok eq by (simp add: areas_ok_append areas_ok_Cons)
      then show ?thesis using found(4) by force
    qed
    show ?thesis
    proof (cases "vm_start v < end")
      case False
      then obtain g gs where g: "gs0 = g # gs" "g = w" using gs0(2) w(1) by (cases gs0) auto
      have "mmap (st_mm s) = front @ g # gs @ v # post" using found(2) gs0(1) g by simp
      moreover have "\<forall>u\<in>set (g # gs). vm_end u \<le> end" using found(3) gs0(1) g by auto
      moreover have "\<forall>u\<in>set (v # post). end \<le> vm_start u" using False rest by auto
      ultimately have "\<exists>front' g gs rest'. mmap (st_mm s) = front' @ g # gs @ rest' \<and> anons front front' \<and> vm_start g = vm_start w \<and>
       (\<forall>v\<in>set (g # gs). vm_end v \<le> end) \<and> (\<forall>v\<in>set rest'. end \<le> vm_start v)"
        using g(2) by (intro exI [of _ front] exI [of _ g] exI [of _ gs] exI [of _ "v # post"]) auto
      then show ?thesis using False found(1) at mm_step_refl [OF mm, of E] by (simp add: cut_end_def)
    next
      case True
      obtain r s' where r: "raw_split_vma E (vm_id v) end True s = Some (r, s')"
        "if r = 0 then \<exists>l h. halves v end l h \<and> vm_id (if True then h else l) = vm_id v \<and> areas_ok (pre @ l # h # post) \<and>
           now_maps E s s' (pre @ l # h # post) else s' = s"
        using raw_split_vma_result [OF mm E found(2) True found(4) w(3), of True] by blast
      have run: "cut_end E end s = Some (r, s')" using True r(1) at found(1) by (simp add: cut_end_def)
      show ?thesis
      proof (cases "r = 0")
        case False
        then show ?thesis using run r(2) mm_step_refl [OF mm, of E] by simp
      next
        case r0: True
        then obtain l h where lh: "halves v end l h" "areas_ok (pre @ l # h # post)" "now_maps E s s' (pre @ l # h # post)"
          using r(2) by auto
        have al: "aligned (vm_start v)" using ok eq by (auto simp: areas_ok_append areas_ok_Cons area_ok_def)
        have "pages_of (pre @ l # h # post) = pages_of (mmap (st_mm s))"
          using halves_pages [OF lh(1) True found(4) w(3) al] by (simp add: found(2) add.assoc [symmetric])
        then have step: "mm_step E s s'" by (rule now_maps_step [OF lh(3,2)])
        have view: "mm_view (st_mm s') = mm_view (st_mm s)"
          using now_mapsD(2) [OF lh(3)] halves_view [OF lh(1) True found(4) w(3) al] by (simp add: mm_view_def found(2))
        from now_mapsD(1) [OF lh(3)] obtain front' gs' l' h' post' where
          m: "mmap (st_mm s') = front' @ gs' @ l' # h' # post'" "anons front front'" "anons gs0 gs'" "anon_only l l'" "anon_only h h'" "anons post post'"
          unfolding gs0(1) by (auto simp: list_all2_append1 list_all2_Cons1)
        have b1: "\<forall>u\<in>set (gs' @ [l']). vm_end u \<le> end"
          using anons_bounds [OF m(3), of "\<lambda>a b. b \<le> end"] found(3) gs0(1) lh(1) by (simp add: anon_onlyD [OF m(4)] halves_def)
        have b2: "\<forall>u\<in>set (h' # post'). end \<le> vm_start u"
          using anons_bounds [OF m(6), of "\<lambda>a b. end \<le> a"] rest lh(1) by (simp add: anon_onlyD [OF m(5)] halves_def)
        obtain g gs where g: "gs' @ [l'] = g # gs" by (cases "gs' @ [l']") auto
        have st: "vm_start g = vm_start w"
        proof (cases gs0)
          case Nil
          then have "g = l'" "w = v" using m(3) gs0(2) g by auto
          then show ?thesis using lh(1) by (simp add: anon_onlyD [OF m(4)] halves_def)
        next
          case (Cons x xs)
          then obtain x' xs' where "gs' = x' # xs'" "anon_only x x'" using m(3) by (auto simp: list_all2_Cons1)
          then show ?thesis using g gs0(2) Cons by (simp add: anon_onlyD)
        qed
        have mp: "mmap (st_mm s') = front' @ g # gs @ h' # post'" using m(1) g by (metis append.assoc append_Cons append_Nil)
        have "\<exists>front' g gs rest'. mmap (st_mm s') = front' @ g # gs @ rest' \<and> anons front front' \<and> vm_start g = vm_start w \<and>
          (\<forall>v\<in>set (g # gs). vm_end v \<le> end) \<and> (\<forall>v\<in>set rest'. end \<le> vm_start v)"
          using mp m(2) st b1 b2 g by (intro exI [of _ front'] exI [of _ g] exI [of _ gs] exI [of _ "h' # post'"]) auto
        then show ?thesis using run step view by blast
      qed
    qed
  qed
qed


lemma view_of_clear:
  assumes "areas_ok (front @ gone @ rest)" "\<forall>v\<in>set front. vm_end v \<le> start" "\<forall>v\<in>set gone. start \<le> vm_start v \<and> vm_end v \<le> end"
    "\<forall>v\<in>set rest. end \<le> vm_start v"
  shows "view_of (front @ rest) = (\<lambda>a. if start \<le> a \<and> a < end then None else view_of (front @ gone @ rest) a)"
proof
  fix a
  have f: "view_of front a = None" if "start \<le> a" using assms(2) that by (force simp: view_of_None vma_covers_def)
  have r: "view_of rest a = None" if "a < end" using assms(4) that by (force simp: view_of_None vma_covers_def)
  have g: "view_of gone a = None" if "\<not> (start \<le> a \<and> a < end)" using assms(3) that by (force simp: view_of_None vma_covers_def)
  show "view_of (front @ rest) a = (if start \<le> a \<and> a < end then None else view_of (front @ gone @ rest) a)"
    using f r g by (cases "start \<le> a \<and> a < end") (simp_all add: view_of_append split: option.split)
qed

lemma do_munmap_cuts:
  "do_munmap E start len s =
     (if offset_in_page start \<noteq> 0 \<or> start > TASK_SIZE E \<or> len > TASK_SIZE E - start then Some (- EINVAL, s)
      else if PAGE_ALIGN len = 0 then Some (- EINVAL, s)
      else case find_vma E (st_mm s) start of
          None \<Rightarrow> Some (0, s)
        | Some p \<Rightarrow>
            if vm_start (vma_at (st_mm s) p) \<ge> start + PAGE_ALIGN len then Some (0, s)
               else do {
                 (error, prev, s) \<leftarrow> cut_start E start (start + PAGE_ALIGN len) p s;
                 if error \<noteq> 0 then Some (error, s)
                 else do {
                   (error, s) \<leftarrow> cut_end E (start + PAGE_ALIGN len) s;
                   if error \<noteq> 0 then Some (error, s) else munmap_tail E prev start (start + PAGE_ALIGN len) s
                 }
               })"
  unfolding do_munmap_def cut_start_def cut_end_def Let_def by (rule refl)

lemma do_munmap_result:
  assumes mm: "mm_ok (st_mm s)" and E: "mm_env_ok E"
  shows "\<exists>r s'. do_munmap E start len s = Some (r, s') \<and> mm_step E s s' \<and>
    mm_view (st_mm s') = (\<lambda>a. if r = 0 \<and> start \<le> a \<and> a < start + PAGE_ALIGN len then None else mm_view (st_mm s) a)"
proof -
  let ?e = "start + PAGE_ALIGN len"
  note ee = mm_env_okD [OF E]
  note refl = mm_step_refl [OF mm, of E]
  show ?thesis
  proof (cases "offset_in_page start \<noteq> 0 \<or> start > TASK_SIZE E \<or> len > TASK_SIZE E - start \<or> PAGE_ALIGN len = 0")
    case True
    then show ?thesis using refl by (auto simp: do_munmap_cuts)
  next
    case False
    then have ok: "aligned start" "start \<le> TASK_SIZE E" "len \<le> TASK_SIZE E - start" "PAGE_ALIGN len \<noteq> 0"
      by (auto simp: aligned_def not_less)
    note b = PAGE_ALIGN_bounds [OF ee(7,8) ok(1,2,3)]
    have run: "do_munmap E start len s = (case find_vma E (st_mm s) start of
          None \<Rightarrow> Some (0, s)
        | Some p \<Rightarrow>
            if vm_start (vma_at (st_mm s) p) \<ge> ?e then Some (0, s)
               else do {
                 (error, prev, s) \<leftarrow> cut_start E start ?e p s;
                 if error \<noteq> 0 then Some (error, s)
                 else do {
                   (error, s) \<leftarrow> cut_end E ?e s;
                   if error \<noteq> 0 then Some (error, s) else munmap_tail E prev start ?e s
                 }
               })"
      using False unfolding do_munmap_cuts by simp
    have ao: "areas_ok (mmap (st_mm s))" using mm by (simp add: mm_ok_def tree_ok_def)
    from mm ee(4) show ?thesis
    proof (cases rule: find_vma_cases [of _ _ start])
      case none
      then have "view_of (mmap (st_mm s) @ []) = (\<lambda>a. if start \<le> a \<and> a < ?e then None else view_of (mmap (st_mm s) @ [] @ []) a)"
        by (intro view_of_clear) (use ao in simp_all)
      then have v: "mm_view (st_mm s) = (\<lambda>a. if start \<le> a \<and> a < ?e then None else mm_view (st_mm s) a)"
        unfolding mm_view_def append_Nil append_Nil2 .
      show ?thesis using none run refl v [symmetric] by simp
    next
      case (found pre v post)
      note at = mm_ok_position(1) [OF mm found(2)]
      show ?thesis
      proof (cases "vm_start v \<ge> ?e")
        case True
        have "\<forall>u\<in>set post. vm_end v \<le> vm_start u" using ao found(2) by (simp add: areas_ok_append areas_ok_Cons)
        moreover have "vm_start v < vm_end v" using ao found(2) by (auto simp: areas_ok_append areas_ok_Cons area_ok_def)
        ultimately have "\<forall>u\<in>set (v # post). ?e \<le> vm_start u" using True by force
        then have "view_of (pre @ v # post) = (\<lambda>a. if start \<le> a \<and> a < ?e then None else view_of (pre @ [] @ v # post) a)"
          by (intro view_of_clear) (use ao found in simp_all)
        then have v: "mm_view (st_mm s) = (\<lambda>a. if start \<le> a \<and> a < ?e then None else mm_view (st_mm s) a)"
          unfolding mm_view_def append_Nil found(2) .
        show ?thesis using found(1) True at run refl v [symmetric] by simp
      next
        case False
        then have lt: "vm_start v < ?e" and nle: "(?e \<le> vm_start v) = False" by simp_all
        obtain r prev s1 where c1: "cut_start E start ?e (vm_id v) s = Some (r, prev, s1)" "mm_step E s s1" "mm_view (st_mm s1) = mm_view (st_mm s)"
          "r = 0 \<longrightarrow> (\<exists>front w rest. mmap (st_mm s1) = front @ w # rest \<and> prev = (if front = [] then None else Some (vm_id (last front))) \<and>
             (\<forall>u\<in>set front. vm_end u \<le> start) \<and> start \<le> vm_start w \<and> vm_start w < ?e)"
          using cut_start_result [OF mm E found(2) ok(1) found(3,4) lt b(6) [OF ok(4)]] by blast
        show ?thesis
        proof (cases "r = 0")
          case False
          then have "do_munmap E start len s = Some (r, s1)" using c1(1) found(1) by (simp add: run at nle)
          then show ?thesis using False c1 by simp
        next
          case r0: True
          obtain front w rest where w: "mmap (st_mm s1) = front @ w # rest" "prev = (if front = [] then None else Some (vm_id (last front)))"
             "\<forall>u\<in>set front. vm_end u \<le> start" "start \<le> vm_start w" "vm_start w < ?e" using c1(4) r0 by blast
          have mm1: "mm_ok (st_mm s1)" using c1(2) by (simp add: mm_step_def)
          have fw: "\<forall>u\<in>set front. vm_end u \<le> vm_start w" using w(3,4) by force
          obtain r2 s2 where c2: "cut_end E ?e s1 = Some (r2, s2)" "mm_step E s1 s2" "mm_view (st_mm s2) = mm_view (st_mm s1)"
            "r2 = 0 \<longrightarrow> (\<exists>front' g gs rest'. mmap (st_mm s2) = front' @ g # gs @ rest' \<and> anons front front' \<and> vm_start g = vm_start w \<and>
              (\<forall>v\<in>set (g # gs). vm_end v \<le> ?e) \<and> (\<forall>v\<in>set rest'. ?e \<le> vm_start v))"
            using cut_end_result [OF mm1 E w(1,5) fw b(5)] by blast
          note step2 = mm_step_trans [OF c1(2) c2(2)]
          show ?thesis
          proof (cases "r2 = 0")
            case False
            then have "do_munmap E start len s = Some (r2, s2)" using c1(1) c2(1) r0 found(1) by (simp add: run at nle)
            then show ?thesis using False c1 c2 step2 by simp
          next
            case r20: True
            obtain front' g gs rest' where g: "mmap (st_mm s2) = front' @ g # gs @ rest'" "anons front front'" "vm_start g = vm_start w"
              "\<forall>v\<in>set (g # gs). vm_end v \<le> ?e" "\<forall>v\<in>set rest'. ?e \<le> vm_start v" using c2(4) r20 by blast
            have mm2: "mm_ok (st_mm s2)" using c2(2) by (simp add: mm_step_def)
            then have ao2: "areas_ok (front' @ g # gs @ rest')" using g(1) by (simp add: mm_ok_def tree_ok_def)
            have gs: "\<forall>v\<in>set gs. vm_start v < ?e"
            proof
              fix u assume "u \<in> set gs"
              then have "vm_start u < vm_end u" "vm_end u \<le> ?e" using ao2 g(4) by (auto simp: areas_ok_def area_ok_def)
              then show "vm_start u < ?e" by simp
            qed
            have ge: "\<forall>u\<in>set (g # gs). start \<le> vm_start u"
            proof
              fix u assume u: "u \<in> set (g # gs)"
              have "vm_start g < vm_end g" "\<forall>u\<in>set gs. vm_end g \<le> vm_start u" using ao2 by (auto simp: areas_ok_append areas_ok_Cons area_ok_def)
              then show "start \<le> vm_start u" using u w(4) g(3) by force
            qed
            have pv: "prev = (if front' = [] then None else Some (vm_id (last front')))"
              using w(2) anons_Nil [OF g(2)] anons_last [OF g(2)] by simp
            have nl: "\<forall>v\<in>set rest'. \<not> vm_start v < ?e" using g(5) by (simp add: not_less)
            obtain s3 where s3: "munmap_tail E prev start ?e s2 = Some (0, s3)" "mmap (st_mm s3) = front' @ rest'" "mm_step E s2 s3"
              using munmap_tail_result [OF mm2 E g(1) pv gs nl] by blast
            have fr: "\<forall>u\<in>set front'. vm_end u \<le> start" using anons_bounds [OF g(2), of "\<lambda>a b. b \<le> start"] w(3) by blast
            have old: "view_of (front' @ (g # gs) @ rest') = mm_view (st_mm s)" using c1(3) c2(3) by (simp add: mm_view_def g(1))
            have "view_of (front' @ rest') = (\<lambda>a. if start \<le> a \<and> a < ?e then None else view_of (front' @ (g # gs) @ rest') a)"
              by (rule view_of_clear [OF _ fr _ g(5)]) (use ao2 ge g(4) in simp_all)
            then have "mm_view (st_mm s3) = (\<lambda>a. if start \<le> a \<and> a < ?e then None else mm_view (st_mm s) a)"
              unfolding old mm_view_def [of "st_mm s3"] s3(2) .
            moreover have "do_munmap E start len s = Some (0, s3)" using c1(1) c2(1) r0 r20 s3(1) found(1) by (simp add: run at nle)
            ultimately show ?thesis using mm_step_trans [OF step2 s3(3)] by auto
          qed
        qed
      qed
    qed
  qed
qed

lemma exit_vmas_result:
  assumes "vfs_ok (vfs E)"
  shows "st_spaces (snd (exit_vmas E vs n s)) = st_spaces s" "st_mm (snd (exit_vmas E vs n s)) = st_mm s"
    "f_count (st_heap (snd (exit_vmas E vs n s)) f) = f_count (st_heap s f) - int (length (filter (\<lambda>t. fst t = Some f) (map vma_tag vs)))"
proof (induction vs arbitrary: n s)
  case (Cons v vs)
  { case 1 then show ?case by (simp add: Cons remove_vma_def split: option.splits) }
  { case 2 then show ?case by (simp add: Cons remove_vma_def split: option.splits) }
  { case 3 then show ?case using vfs_okD [OF assms] by (auto simp: Cons remove_vma_def vma_tag_def split: option.splits) }
qed simp_all

lemma exit_mmap_result:
  assumes "mm_env_ok E"
  shows "(\<lambda>f. f_count (st_heap (exit_mmap E s) f), \<lambda>m. i_mmap_writable (st_spaces (exit_mmap E s) m), \<lambda>m. i_writecount (st_spaces (exit_mmap E s) m))
    = bal E s"
proof -
  note ee = mm_env_okD [OF assms]
  let ?vs = "mmap (st_mm s)"
  obtain t where t: "free_pgtables E ?vs (set_pgd (unmap_vmas E 0 (- 1) (pgd (st_mm s))) s) =
      set_pgd t (fold (unlink_file_vma E) ?vs (set_pgd (unmap_vmas E 0 (- 1) (pgd (st_mm s))) s))"
    using ee(6) by (auto simp: pgtables_ok_def)
  let ?s0 = "set_pgd (unmap_vmas E 0 (- 1) (pgd (st_mm s))) s"
  let ?s1 = "set_pgd t (fold (unlink_file_vma E) ?vs ?s0)"
  show ?thesis
  proof (cases "?vs = []")
    case False
    then have run: "exit_mmap E s = vm_unacct_memory (fst (exit_vmas E ?vs 0 ?s1)) (snd (exit_vmas E ?vs 0 ?s1))"
      by (simp add: exit_mmap_def t Let_def case_prod_unfold)
    show ?thesis
      unfolding run bal_def Let_def using unlink_file_vmas_result [of E ?vs ?s0] by (simp add: exit_vmas_result [OF ee(3)])
  qed (simp add: exit_mmap_def bal_def)
qed

end
