(* ===== verification/Unmapped_Area.thy ===== *)
theory Unmapped_Area
  imports Munmap
begin

text \<open>
  The search for an unmapped range (\<open>mm/mmap.c\<close>): \<open>unmapped_area\<close> and \<open>unmapped_area_topdown\<close>, which
  walk the search tree guided by the gap sizes kept in it, the two \<open>arch_get_unmapped_area\<close> functions
  (as they are for an architecture without its own), and \<open>get_task_unmapped_area\<close>.

  The C functions walk the tree with parent pointers and \<open>goto\<close>; here a subtree is visited by a
  recursive call, whose result \<open>Search_on\<close> stands for going back up to the next candidate.
\<close>

section \<open>Errors in addresses\<close>

text \<open>Functions returning \<open>unsigned long\<close> encode an error number as its two's complement.\<close>

abbreviation ulong :: "int \<Rightarrow> 64 word" where "ulong \<equiv> word_of_int"

definition IS_ERR_VALUE :: "64 word \<Rightarrow> bool" where
  "IS_ERR_VALUE x \<longleftrightarrow> x \<ge> - 4095"

section \<open>The search\<close>

record vm_unmapped_area_info =
  ua_flags :: "64 word"
  ua_length :: "64 word"
  ua_low_limit :: "64 word"
  ua_high_limit :: "64 word"
  ua_align_mask :: "64 word"
  ua_align_offset :: "64 word"

datatype gap_search = Gap "64 word" "64 word" | No_gap | Search_on

definition gap_start_of :: "mm_struct \<Rightarrow> vma_ptr \<Rightarrow> 64 word" where
  "gap_start_of mm p = (case vm_prev mm p of None \<Rightarrow> 0 | Some q \<Rightarrow> vm_end (vma_at mm q))"

fun unmapped_area_rb :: "mm_struct \<Rightarrow> 64 word \<Rightarrow> 64 word \<Rightarrow> 64 word \<Rightarrow> rb_tree \<Rightarrow> gap_search" where
  "unmapped_area_rb mm len low_limit high_limit Rb_null = Search_on"
| "unmapped_area_rb mm len low_limit high_limit (Rb_node l p r) =
     (let gap_end = vm_start (vma_at mm p);
          left = (if gap_end \<ge> low_limit \<and> l \<noteq> Rb_null \<and> vma_compute_subtree_gap mm l \<ge> len
                  then unmapped_area_rb mm len low_limit high_limit l else Search_on)
      in case left of
           Search_on \<Rightarrow>
             let gap_start = gap_start_of mm p
             in if gap_start > high_limit then No_gap
                else if gap_end \<ge> low_limit \<and> gap_end - gap_start \<ge> len then Gap gap_start gap_end
                else if r \<noteq> Rb_null \<and> vma_compute_subtree_gap mm r \<ge> len
                then unmapped_area_rb mm len low_limit high_limit r else Search_on
         | res \<Rightarrow> res)"

definition unmapped_area_found :: "vm_unmapped_area_info \<Rightarrow> 64 word \<Rightarrow> 64 word" where
  "unmapped_area_found info gap_start =
     (let gap_start = (if gap_start < ua_low_limit info then ua_low_limit info else gap_start)
      in gap_start + ((ua_align_offset info - gap_start) AND ua_align_mask info))"

definition unmapped_area :: "mm_struct \<Rightarrow> vm_unmapped_area_info \<Rightarrow> 64 word" where
  "unmapped_area mm info =
     (let len = ua_length info + ua_align_mask info
      in if len < ua_length info then ulong (- ENOMEM)
         else if ua_high_limit info < len then ulong (- ENOMEM)
         else let high_limit = ua_high_limit info - len
         in if ua_low_limit info > high_limit then ulong (- ENOMEM)
         else let low_limit = ua_low_limit info + len;
                  check_highest = (if highest_vm_end mm > high_limit then ulong (- ENOMEM)
                                   else unmapped_area_found info (highest_vm_end mm))
         in if mm_rb mm = Rb_null then check_highest
            else if vma_compute_subtree_gap mm (mm_rb mm) < len then check_highest
            else case unmapped_area_rb mm len low_limit high_limit (mm_rb mm) of
                   Gap gap_start _ \<Rightarrow> unmapped_area_found info gap_start
                 | No_gap \<Rightarrow> ulong (- ENOMEM)
                 | Search_on \<Rightarrow> check_highest)"

fun unmapped_area_topdown_rb :: "mm_struct \<Rightarrow> 64 word \<Rightarrow> 64 word \<Rightarrow> 64 word \<Rightarrow> rb_tree \<Rightarrow> gap_search" where
  "unmapped_area_topdown_rb mm len low_limit high_limit Rb_null = Search_on"
| "unmapped_area_topdown_rb mm len low_limit high_limit (Rb_node l p r) =
     (let gap_start = gap_start_of mm p;
          right = (if gap_start \<le> high_limit \<and> r \<noteq> Rb_null \<and> vma_compute_subtree_gap mm r \<ge> len
                   then unmapped_area_topdown_rb mm len low_limit high_limit r else Search_on)
      in case right of
           Search_on \<Rightarrow>
             let gap_end = vm_start (vma_at mm p)
             in if gap_end < low_limit then No_gap
                else if gap_start \<le> high_limit \<and> gap_end - gap_start \<ge> len then Gap gap_start gap_end
                else if l \<noteq> Rb_null \<and> vma_compute_subtree_gap mm l \<ge> len
                then unmapped_area_topdown_rb mm len low_limit high_limit l else Search_on
         | res \<Rightarrow> res)"

definition unmapped_area_topdown_found :: "vm_unmapped_area_info \<Rightarrow> 64 word \<Rightarrow> 64 word" where
  "unmapped_area_topdown_found info gap_end =
     (let gap_end = gap_end - ua_length info
      in gap_end - ((gap_end - ua_align_offset info) AND ua_align_mask info))"

definition unmapped_area_topdown :: "mm_struct \<Rightarrow> vm_unmapped_area_info \<Rightarrow> 64 word" where
  "unmapped_area_topdown mm info =
     (let len = ua_length info + ua_align_mask info
      in if len < ua_length info then ulong (- ENOMEM)
         else if ua_high_limit info < len then ulong (- ENOMEM)
         else let high_limit = ua_high_limit info - len
         in if ua_low_limit info > high_limit then ulong (- ENOMEM)
         else let low_limit = ua_low_limit info + len
         in if highest_vm_end mm \<le> high_limit then unmapped_area_topdown_found info (ua_high_limit info)
            else if mm_rb mm = Rb_null then ulong (- ENOMEM)
            else if vma_compute_subtree_gap mm (mm_rb mm) < len then ulong (- ENOMEM)
            else case unmapped_area_topdown_rb mm len low_limit high_limit (mm_rb mm) of
                   Gap _ gap_end \<Rightarrow>
                     unmapped_area_topdown_found info (if gap_end > ua_high_limit info then ua_high_limit info else gap_end)
                 | _ \<Rightarrow> ulong (- ENOMEM))"

definition vm_unmapped_area :: "mm_struct \<Rightarrow> vm_unmapped_area_info \<Rightarrow> 64 word" where
  "vm_unmapped_area mm info =
     (if ua_flags info AND 1 \<noteq> 0 then unmapped_area_topdown mm info else unmapped_area mm info)"

section \<open>Choosing an address\<close>

abbreviation (input) MAP_SHARED :: "64 word" where "MAP_SHARED \<equiv> 0x1"
abbreviation (input) MAP_PRIVATE :: "64 word" where "MAP_PRIVATE \<equiv> 0x2"
abbreviation (input) MAP_TYPE :: "64 word" where "MAP_TYPE \<equiv> 0xf"
abbreviation (input) MAP_FIXED :: "64 word" where "MAP_FIXED \<equiv> 0x10"

text \<open>\<open>mm\<close> is the address space of the current task.\<close>

definition hinted_area :: "mm_env \<Rightarrow> mm_struct \<Rightarrow> 64 word \<Rightarrow> 64 word \<Rightarrow> bool" where
  "hinted_area E mm addr len \<longleftrightarrow>
     TASK_SIZE E - len \<ge> addr \<and> addr \<ge> mmap_min_addr E \<and>
     (case find_vma E mm addr of None \<Rightarrow> True | Some v \<Rightarrow> addr + len \<le> vm_start (vma_at mm v))"

definition arch_get_unmapped_area :: "mm_env \<Rightarrow> mm_struct \<Rightarrow> 64 word \<Rightarrow> 64 word \<Rightarrow> 64 word \<Rightarrow> 64 word" where
  "arch_get_unmapped_area E mm addr len flags =
     (if len > TASK_SIZE E - mmap_min_addr E then ulong (- ENOMEM)
      else if flags AND MAP_FIXED \<noteq> 0 then addr
      else if addr \<noteq> 0 \<and> hinted_area E mm (PAGE_ALIGN addr) len then PAGE_ALIGN addr
      else vm_unmapped_area mm \<lparr>ua_flags = 0, ua_length = len, ua_low_limit = mmap_base mm, ua_high_limit = TASK_SIZE E,
             ua_align_mask = 0, ua_align_offset = 0\<rparr>)"

definition arch_get_unmapped_area_topdown :: "mm_env \<Rightarrow> mm_struct \<Rightarrow> 64 word \<Rightarrow> 64 word \<Rightarrow> 64 word \<Rightarrow> 64 word" where
  "arch_get_unmapped_area_topdown E mm addr len flags =
     (if len > TASK_SIZE E - mmap_min_addr E then ulong (- ENOMEM)
      else if flags AND MAP_FIXED \<noteq> 0 then addr
      else if addr \<noteq> 0 \<and> hinted_area E mm (PAGE_ALIGN addr) len then PAGE_ALIGN addr
      else let info = \<lparr>ua_flags = 1, ua_length = len, ua_low_limit = max 0x1000 (mmap_min_addr E), ua_high_limit = mmap_base mm,
                       ua_align_mask = 0, ua_align_offset = 0\<rparr>;
               addr = vm_unmapped_area mm info
           in if offset_in_page addr \<noteq> 0
              then vm_unmapped_area mm (info\<lparr>ua_flags := 0, ua_low_limit := TASK_UNMAPPED_BASE E, ua_high_limit := TASK_SIZE E\<rparr>)
              else addr)"

definition get_task_unmapped_area ::
    "mm_env \<Rightarrow> file_ptr option \<Rightarrow> 64 word \<Rightarrow> 64 word \<Rightarrow> 64 word \<Rightarrow> 64 word \<Rightarrow> mmst \<Rightarrow> 64 word" where
  "get_task_unmapped_area E f addr len pgoff flags s =
     (let error = arch_mmap_check E addr len flags
      in if error \<noteq> 0 then error
         else if len > TASK_SIZE E then ulong (- ENOMEM)
         else
           let method = (case mm_get_unmapped_area (st_mm s) of
                 Arch_get_unmapped_area \<Rightarrow> arch_get_unmapped_area E (cur_mm s) addr len flags
               | Arch_get_unmapped_area_topdown \<Rightarrow> arch_get_unmapped_area_topdown E (cur_mm s) addr len flags);
               addr = (case f of
                   Some g \<Rightarrow> (case f_op_get_unmapped_area E g of
                                Some get_area \<Rightarrow> get_area (cur_mm s) addr len pgoff flags
                              | None \<Rightarrow> method)
                 | None \<Rightarrow> if flags AND MAP_SHARED \<noteq> 0 then shmem_get_unmapped_area E (cur_mm s) addr len 0 flags
                           else method)
           in if IS_ERR_VALUE addr then addr
              else if addr > TASK_SIZE E - len then ulong (- ENOMEM)
              else if offset_in_page addr \<noteq> 0 then ulong (- EINVAL)
              else let error = security_mmap_addr E addr in if error \<noteq> 0 then ulong error else addr)"

definition get_unmapped_area ::
    "mm_env \<Rightarrow> file_ptr option \<Rightarrow> 64 word \<Rightarrow> 64 word \<Rightarrow> 64 word \<Rightarrow> 64 word \<Rightarrow> mmst \<Rightarrow> 64 word" where
  "get_unmapped_area E f addr len pgoff flags s =
     get_task_unmapped_area E f addr len pgoff flags (s\<lparr>st_mm := cur_mm s\<rparr>)"


section \<open>The search finds the first gap that is large enough\<close>

abbreviation start_of :: "mm_struct \<Rightarrow> vma_ptr \<Rightarrow> 64 word" where
  "start_of mm p \<equiv> vm_start (vma_at mm p)"

definition wide_gap :: "mm_struct \<Rightarrow> 64 word \<Rightarrow> 64 word \<Rightarrow> 64 word \<Rightarrow> vma_ptr \<Rightarrow> bool" where
  "wide_gap mm len low high p \<longleftrightarrow> gap_start_of mm p \<le> high \<and> low \<le> start_of mm p \<and> len \<le> start_of mm p - gap_start_of mm p"

text \<open>
  The outcome of visiting the nodes \<open>ps\<close> in this order: the first one with a wide gap, or the first
  one after which the search need not go on (\<open>Q\<close>).
\<close>

definition gap_outcome :: "mm_struct \<Rightarrow> (vma_ptr \<Rightarrow> bool) \<Rightarrow> (vma_ptr \<Rightarrow> bool) \<Rightarrow> vma_ptr list \<Rightarrow> gap_search \<Rightarrow> bool" where
  "gap_outcome mm P Q ps res \<longleftrightarrow> (case res of
     Gap s e \<Rightarrow> \<exists>xs p ys. ps = xs @ p # ys \<and> (\<forall>q\<in>set xs. \<not> P q) \<and> P p \<and> s = gap_start_of mm p \<and> e = start_of mm p
   | No_gap \<Rightarrow> \<exists>xs p ys. ps = xs @ p # ys \<and> (\<forall>q\<in>set xs. \<not> P q) \<and> Q p
   | Search_on \<Rightarrow> \<forall>q\<in>set ps. \<not> P q)"

lemma gap_outcome_append:
  assumes a: "gap_outcome mm P Q ps r1" and b: "gap_outcome mm P Q qs r2"
  shows "gap_outcome mm P Q (ps @ p # qs)
     (case r1 of Search_on \<Rightarrow> if Q p then No_gap else if P p then Gap (gap_start_of mm p) (start_of mm p) else r2 | res \<Rightarrow> res)"
proof (cases r1)
  case (Gap s e)
  then obtain xs q ys where "ps = xs @ q # ys" "\<forall>q\<in>set xs. \<not> P q" "P q" "s = gap_start_of mm q" "e = start_of mm q"
    using a by (auto simp: gap_outcome_def)
  then show ?thesis unfolding Gap gap_outcome_def gap_search.case
    by (intro exI [of _ xs] exI [of _ q] exI [of _ "ys @ p # qs"]) simp
next
  case No_gap
  then obtain xs q ys where "ps = xs @ q # ys" "\<forall>q\<in>set xs. \<not> P q" "Q q" using a by (auto simp: gap_outcome_def)
  then show ?thesis unfolding No_gap gap_outcome_def gap_search.case
    by (intro exI [of _ xs] exI [of _ q] exI [of _ "ys @ p # qs"]) simp
next
  case Search_on
  then have n: "\<forall>q\<in>set ps. \<not> P q" using a by (simp add: gap_outcome_def)
  show ?thesis
  proof (cases "Q p \<or> P p")
    case True
    then show ?thesis using n unfolding Search_on gap_outcome_def by (cases "Q p") (auto intro!: exI [of _ ps])
  next
    case False
    show ?thesis
    proof (cases r2)
      case (Gap s e)
      then obtain xs q ys where "qs = xs @ q # ys" "\<forall>q\<in>set xs. \<not> P q" "P q" "s = gap_start_of mm q" "e = start_of mm q"
        using b by (auto simp: gap_outcome_def)
      then have "\<exists>xs q ys. ps @ p # qs = xs @ q # ys \<and> (\<forall>q\<in>set xs. \<not> P q) \<and> P q \<and> s = gap_start_of mm q \<and> e = start_of mm q"
        using n False by (intro exI [of _ "ps @ p # xs"] exI [of _ q] exI [of _ ys]) auto
      then show ?thesis using False unfolding Search_on Gap gap_outcome_def by simp
    next
      case No_gap
      then obtain xs q ys where "qs = xs @ q # ys" "\<forall>q\<in>set xs. \<not> P q" "Q q" using b by (auto simp: gap_outcome_def)
      then have "\<exists>xs q ys. ps @ p # qs = xs @ q # ys \<and> (\<forall>q\<in>set xs. \<not> P q) \<and> Q q"
        using n False by (intro exI [of _ "ps @ p # xs"] exI [of _ q] exI [of _ ys]) auto
      then show ?thesis using False unfolding Search_on No_gap gap_outcome_def by simp
    qed (use b n False in \<open>auto simp: gap_outcome_def Search_on\<close>)
  qed
qed

lemma subtree_gap_bound:
  "p \<in> set (inorder t) \<Longrightarrow> start_of mm p - gap_start_of mm p \<le> vma_compute_subtree_gap mm t"
proof (induction t)
  case (Rb_node l q r)
  define m where "m = start_of mm q - gap_start_of mm q"
  define ml where "ml = (if l \<noteq> Rb_null \<and> vma_compute_subtree_gap mm l > m then vma_compute_subtree_gap mm l else m)"
  have own: "(case vm_prev mm q of None \<Rightarrow> start_of mm q | Some x \<Rightarrow> start_of mm q - vm_end (vma_at mm x)) = m"
    by (simp add: m_def gap_start_of_def split: option.split)
  have g: "vma_compute_subtree_gap mm (Rb_node l q r) =
      (if r \<noteq> Rb_null \<and> vma_compute_subtree_gap mm r > ml then vma_compute_subtree_gap mm r else ml)"
    by (simp add: Let_def own ml_def del: if_split)
  have "m \<le> ml" "l \<noteq> Rb_null \<Longrightarrow> vma_compute_subtree_gap mm l \<le> ml" by (auto simp: ml_def)
  moreover have "ml \<le> vma_compute_subtree_gap mm (Rb_node l q r)"
    "r \<noteq> Rb_null \<Longrightarrow> vma_compute_subtree_gap mm r \<le> vma_compute_subtree_gap mm (Rb_node l q r)" unfolding g by auto
  moreover have "l \<noteq> Rb_null" if "p \<in> set (inorder l)" using that by auto
  moreover have "r \<noteq> Rb_null" if "p \<in> set (inorder r)" using that by auto
  ultimately show ?case using Rb_node m_def by (auto intro: order.trans)
qed simp

lemma small_subtree:
  "vma_compute_subtree_gap mm t < len \<Longrightarrow> \<forall>q\<in>set (inorder t). \<not> wide_gap mm len low high q"
  by (auto simp: wide_gap_def not_le intro: le_less_trans [OF subtree_gap_bound])

lemma gap_outcome_skip: "\<forall>q\<in>set ps. \<not> P q \<Longrightarrow> gap_outcome mm P Q ps Search_on"
  by (simp add: gap_outcome_def)

lemma gap_outcome_if:
  "\<lbrakk>c \<Longrightarrow> gap_outcome mm P Q ps res; \<not> c \<Longrightarrow> \<forall>q\<in>set ps. \<not> P q\<rbrakk> \<Longrightarrow> gap_outcome mm P Q ps (if c then res else Search_on)"
  by (simp add: gap_outcome_skip)

lemma unmapped_area_rb_outcome:
  "sorted_wrt (\<lambda>p q. start_of mm p < start_of mm q) (inorder t) \<Longrightarrow>
   gap_outcome mm (wide_gap mm len low high) (\<lambda>p. high < gap_start_of mm p) (inorder t) (unmapped_area_rb mm len low high t)"
proof (induction t)
  case (Rb_node l p r)
  let ?P = "wide_gap mm len low high" and ?Q = "\<lambda>p. high < gap_start_of mm p"
  define lres where "lres = (if start_of mm p \<ge> low \<and> l \<noteq> Rb_null \<and> vma_compute_subtree_gap mm l \<ge> len
      then unmapped_area_rb mm len low high l else Search_on)"
  define rres where "rres = (if r \<noteq> Rb_null \<and> vma_compute_subtree_gap mm r \<ge> len then unmapped_area_rb mm len low high r else Search_on)"
  have lt: "\<forall>q\<in>set (inorder l). start_of mm q < start_of mm p" using Rb_node(3) by (auto simp: sorted_wrt_append)
  have "gap_outcome mm ?P ?Q (inorder l) lres"
    unfolding lres_def
  proof (rule gap_outcome_if)
    assume "\<not> (low \<le> start_of mm p \<and> l \<noteq> Rb_null \<and> len \<le> vma_compute_subtree_gap mm l)"
    then consider "start_of mm p < low" | "l = Rb_null" | "vma_compute_subtree_gap mm l < len" by (auto simp: not_le)
    then show "\<forall>q\<in>set (inorder l). \<not> ?P q"
      using lt small_subtree [of mm l len low high] by cases (auto simp: wide_gap_def)
  qed (use Rb_node(1,3) in \<open>simp add: sorted_wrt_append\<close>)
  moreover have "gap_outcome mm ?P ?Q (inorder r) rres"
    unfolding rres_def
  proof (rule gap_outcome_if)
    assume "\<not> (r \<noteq> Rb_null \<and> len \<le> vma_compute_subtree_gap mm r)"
    then consider "r = Rb_null" | "vma_compute_subtree_gap mm r < len" by (auto simp: not_le)
    then show "\<forall>q\<in>set (inorder r). \<not> ?P q" using small_subtree [of mm r len low high] by cases auto
  qed (use Rb_node(2,3) in \<open>simp add: sorted_wrt_append\<close>)
  ultimately have o: "gap_outcome mm ?P ?Q (inorder l @ p # inorder r)
     (case lres of Search_on \<Rightarrow> if ?Q p then No_gap else if ?P p then Gap (gap_start_of mm p) (start_of mm p) else rres | res \<Rightarrow> res)"
    by (rule gap_outcome_append)
  have "unmapped_area_rb mm len low high (Rb_node l p r) =
     (case lres of Search_on \<Rightarrow> if ?Q p then No_gap else if ?P p then Gap (gap_start_of mm p) (start_of mm p) else rres | res \<Rightarrow> res)"
    unfolding unmapped_area_rb.simps Let_def lres_def [symmetric] rres_def [symmetric]
    by (cases lres) (auto simp: wide_gap_def)
  then show ?case using o by simp
qed (simp add: gap_outcome_def)

lemma unmapped_area_topdown_rb_outcome:
  "sorted_wrt (\<lambda>p q. gap_start_of mm p \<le> gap_start_of mm q) (inorder t) \<Longrightarrow>
   gap_outcome mm (wide_gap mm len low high) (\<lambda>p. start_of mm p < low) (rev (inorder t)) (unmapped_area_topdown_rb mm len low high t)"
proof (induction t)
  case (Rb_node l p r)
  let ?P = "wide_gap mm len low high" and ?Q = "\<lambda>p. start_of mm p < low"
  define rres where "rres = (if gap_start_of mm p \<le> high \<and> r \<noteq> Rb_null \<and> vma_compute_subtree_gap mm r \<ge> len
      then unmapped_area_topdown_rb mm len low high r else Search_on)"
  define lres where "lres = (if l \<noteq> Rb_null \<and> vma_compute_subtree_gap mm l \<ge> len then unmapped_area_topdown_rb mm len low high l else Search_on)"
  have gt: "\<forall>q\<in>set (inorder r). gap_start_of mm p \<le> gap_start_of mm q" using Rb_node(3) by (auto simp: sorted_wrt_append)
  have "gap_outcome mm ?P ?Q (rev (inorder r)) rres"
    unfolding rres_def
  proof (rule gap_outcome_if)
    assume "\<not> (gap_start_of mm p \<le> high \<and> r \<noteq> Rb_null \<and> len \<le> vma_compute_subtree_gap mm r)"
    then consider "high < gap_start_of mm p" | "r = Rb_null" | "vma_compute_subtree_gap mm r < len" by (auto simp: not_le)
    then show "\<forall>q\<in>set (rev (inorder r)). \<not> ?P q"
      using gt small_subtree [of mm r len low high] by cases (auto simp: wide_gap_def)
  qed (use Rb_node(2,3) in \<open>simp add: sorted_wrt_append\<close>)
  moreover have "gap_outcome mm ?P ?Q (rev (inorder l)) lres"
    unfolding lres_def
  proof (rule gap_outcome_if)
    assume "\<not> (l \<noteq> Rb_null \<and> len \<le> vma_compute_subtree_gap mm l)"
    then consider "l = Rb_null" | "vma_compute_subtree_gap mm l < len" by (auto simp: not_le)
    then show "\<forall>q\<in>set (rev (inorder l)). \<not> ?P q" using small_subtree [of mm l len low high] by cases auto
  qed (use Rb_node(1,3) in \<open>simp add: sorted_wrt_append\<close>)
  ultimately have o: "gap_outcome mm ?P ?Q (rev (inorder r) @ p # rev (inorder l))
     (case rres of Search_on \<Rightarrow> if ?Q p then No_gap else if ?P p then Gap (gap_start_of mm p) (start_of mm p) else lres | res \<Rightarrow> res)"
    by (rule gap_outcome_append)
  have "unmapped_area_topdown_rb mm len low high (Rb_node l p r) =
     (case rres of Search_on \<Rightarrow> if ?Q p then No_gap else if ?P p then Gap (gap_start_of mm p) (start_of mm p) else lres | res \<Rightarrow> res)"
    unfolding unmapped_area_topdown_rb.simps Let_def lres_def [symmetric] rres_def [symmetric]
    by (cases rres) (auto simp: wide_gap_def)
  then show ?case using o by simp
qed (simp add: gap_outcome_def)


section \<open>The address found\<close>

definition range_free :: "mm_struct \<Rightarrow> 64 word \<Rightarrow> 64 word \<Rightarrow> bool" where
  "range_free mm a len \<longleftrightarrow> (\<forall>v\<in>set (mmap mm). vm_end v \<le> a \<or> a + len \<le> vm_start v)"

definition fits :: "mm_struct \<Rightarrow> 64 word \<Rightarrow> 64 word \<Rightarrow> 64 word \<Rightarrow> 64 word \<Rightarrow> bool" where
  "fits mm lo hi len a \<longleftrightarrow> len \<le> hi \<and> lo \<le> a \<and> a \<le> hi - len \<and> range_free mm a len"

lemma fits_no_wrap: "len \<le> hi \<Longrightarrow> a \<le> hi - len \<Longrightarrow> a \<le> a + len \<and> a + len \<le> (hi :: 64 word)"
  by unat_arith

lemma gap_of_position:
  assumes "mm_ok mm" "mmap mm = pre @ v # post"
  shows "gap_start_of mm (vm_id v) = highest_end pre" "start_of mm (vm_id v) = vm_start v"
proof -
  note at = mm_ok_position [OF assms]
  have "vma_at mm (vm_id (last pre)) = last pre" if "pre \<noteq> []"
  proof -
    have "mmap mm = butlast pre @ last pre # v # post" using assms(2) that by simp
    from mm_ok_position(1) [OF assms(1) this] show ?thesis .
  qed
  then show "gap_start_of mm (vm_id v) = highest_end pre" using at by (simp add: gap_start_of_def highest_end_def)
  show "start_of mm (vm_id v) = vm_start v" using at by simp
qed

lemma highest_end_le: "\<forall>v\<in>set pre. vm_end v \<le> b \<Longrightarrow> highest_end pre \<le> b"
  by (simp add: highest_end_def)

lemma highest_end_ge:
  assumes "areas_ok vs" "v \<in> set vs"
  shows "vm_end v \<le> highest_end vs"
proof -
  from assms(2) obtain pre post where sp: "vs = pre @ v # post" by (meson split_list)
  show ?thesis
  proof (cases "post = []")
    case False
    then have "last post \<in> set post" by simp
    then have "vm_end v \<le> vm_start (last post)" "vm_start (last post) < vm_end (last post)"
      using assms(1) unfolding sp by (auto simp: areas_ok_def area_ok_def sorted_wrt_append)
    then show ?thesis using False by (simp add: sp highest_end_def)
  qed (simp add: sp highest_end_def)
qed

lemma gaps_ordered:
  assumes mm: "mm_ok mm"
  shows "sorted_wrt (\<lambda>p q. start_of mm p < start_of mm q \<and> gap_start_of mm p \<le> gap_start_of mm q) (map vm_id (mmap mm))"
    and "\<forall>v\<in>set (mmap mm). gap_start_of mm (vm_id v) \<le> vm_start v \<and> gap_start_of mm (vm_id v) \<le> highest_vm_end mm"
proof -
  have ok: "areas_ok (mmap mm)" and hi: "highest_vm_end mm = highest_end (mmap mm)" using mm by (auto simp: mm_ok_def tree_ok_def)
  have pos: "gap_start_of mm (vm_id v) \<le> vm_start v" if "v \<in> set (mmap mm)" for v
  proof -
    from that obtain pre post where sp: "mmap mm = pre @ v # post" by (meson split_list)
    have "\<forall>u\<in>set pre. vm_end u \<le> vm_start v" using ok sp by (simp add: areas_ok_append)
    then show ?thesis using gap_of_position [OF mm sp] highest_end_le by simp
  qed
  show "\<forall>v\<in>set (mmap mm). gap_start_of mm (vm_id v) \<le> vm_start v \<and> gap_start_of mm (vm_id v) \<le> highest_vm_end mm"
  proof
    fix v assume v: "v \<in> set (mmap mm)"
    have "vm_start v < vm_end v" using ok v by (auto simp: areas_ok_def area_ok_def)
    then show "gap_start_of mm (vm_id v) \<le> vm_start v \<and> gap_start_of mm (vm_id v) \<le> highest_vm_end mm"
      using pos [OF v] highest_end_ge [OF ok v] hi by auto
  qed
  have "sorted_wrt (\<lambda>v w. start_of mm (vm_id v) < start_of mm (vm_id w) \<and> gap_start_of mm (vm_id v) \<le> gap_start_of mm (vm_id w)) (mmap mm)"
    unfolding sorted_wrt_iff_nth_less
  proof (intro allI impI)
    fix i j assume ij: "i < j" "j < length (mmap mm)"
    define v w where "v = mmap mm ! i" and "w = mmap mm ! j"
    have sp: "mmap mm = take i (mmap mm) @ v # drop (Suc i) (mmap mm)" "mmap mm = take j (mmap mm) @ w # drop (Suc j) (mmap mm)"
      using ij by (simp_all add: v_def w_def id_take_nth_drop [symmetric])
    have vin: "v \<in> set (take j (mmap mm))" using ij by (auto simp: v_def in_set_conv_nth intro!: exI [of _ i])
    have okj: "areas_ok (take j (mmap mm))" using ok sp(2) by (metis areas_ok_append)
    have vw: "vm_end v \<le> vm_start w" using ok sp(2) vin by (metis areas_ok_append list.set_intros(1))
    have vv: "v \<in> set (mmap mm)" using ij by (simp add: v_def)
    have lt: "vm_start v < vm_end v" using ok vv by (auto simp: areas_ok_def area_ok_def)
    show "start_of mm (vm_id (mmap mm ! i)) < start_of mm (vm_id (mmap mm ! j)) \<and>
        gap_start_of mm (vm_id (mmap mm ! i)) \<le> gap_start_of mm (vm_id (mmap mm ! j))"
      using gap_of_position [OF mm sp(1)] gap_of_position [OF mm sp(2)] highest_end_ge [OF okj vin] pos [OF vv] vw lt
      unfolding v_def [symmetric] w_def [symmetric] by auto
  qed
  then show "sorted_wrt (\<lambda>p q. start_of mm p < start_of mm q \<and> gap_start_of mm p \<le> gap_start_of mm q) (map vm_id (mmap mm))"
    by (simp add: sorted_wrt_map)
qed

lemma word_gap: "g \<le> b \<Longrightarrow> b \<le> b + len \<Longrightarrow> b + len \<le> s \<Longrightarrow> len \<le> s - (g :: 64 word)"
  by unat_arith

text \<open>Every address that fits lies in a wide gap or behind the last area.\<close>

lemma fits_in_gap:
  assumes mm: "mm_ok mm" and b: "fits mm lo hi len b"
  shows "(\<exists>v\<in>set (mmap mm). wide_gap mm len (lo + len) (hi - len) (vm_id v) \<and> gap_start_of mm (vm_id v) \<le> b \<and> b + len \<le> vm_start v) \<or>
    highest_vm_end mm \<le> b"
proof (cases "find (\<lambda>v. b < vm_end v) (mmap mm)")
  case None
  then have "\<forall>v\<in>set (mmap mm). vm_end v \<le> b" by (simp add: find_None_iff not_less)
  then show ?thesis using mm highest_end_le [of "mmap mm" b] by (simp add: mm_ok_def tree_ok_def)
next
  case (Some v)
  from find_Some_split [OF this] obtain pre post where sp: "mmap mm = pre @ v # post" and pre: "\<forall>u\<in>set pre. vm_end u \<le> b" "b < vm_end v"
    by (auto simp: not_less)
  have nw: "b \<le> b + len" using b fits_no_wrap by (auto simp: fits_def)
  have bv: "b + len \<le> vm_start v" using b pre(2) sp by (auto simp: fits_def range_free_def)
  have gb: "gap_start_of mm (vm_id v) \<le> b"
    using gap_of_position [OF mm sp] highest_end_le [OF pre(1)] by simp
  have "lo + len \<le> b + len" using b nw by (auto simp: fits_def) unat_arith
  then have "wide_gap mm len (lo + len) (hi - len) (vm_id v)"
    using gap_of_position [OF mm sp] gb bv b word_gap [OF gb nw bv] by (auto simp: wide_gap_def fits_def)
  then show ?thesis using gb bv sp by auto
qed

text \<open>An address in the gap in front of an area is free.\<close>

lemma gap_free:
  assumes mm: "mm_ok mm" and sp: "mmap mm = pre @ v # post" and a: "highest_end pre \<le> a" "a + len \<le> vm_start v"
  shows "range_free mm a len"
  unfolding range_free_def
proof
  fix u assume "u \<in> set (mmap mm)"
  then consider "u \<in> set pre" | "u = v" | "u \<in> set post" using sp by auto
  moreover have ok: "areas_ok (pre @ v # post)" using mm sp by (simp add: mm_ok_def tree_ok_def)
  moreover have "areas_ok pre" using ok by (simp add: areas_ok_append)
  moreover have "vm_start v \<le> vm_start w" if "w \<in> set post" for w
  proof -
    have "vm_start v < vm_end v" "vm_end v \<le> vm_start w" using ok that by (auto simp: areas_ok_append areas_ok_Cons area_ok_def)
    then show ?thesis by simp
  qed
  ultimately show "vm_end u \<le> a \<or> a + len \<le> vm_start u"
    using a highest_end_ge [of pre u] by cases (auto intro: order.trans)
qed

lemma top_free: "mm_ok mm \<Longrightarrow> highest_vm_end mm \<le> a \<Longrightarrow> range_free mm a len"
  unfolding range_free_def using highest_end_ge [of "mmap mm"] by (force simp: mm_ok_def tree_ok_def)

lemma split_ids:
  "map vm_id vs = xs @ p # ys \<Longrightarrow> \<exists>pre v post. vs = pre @ v # post \<and> xs = map vm_id pre \<and> p = vm_id v \<and> ys = map vm_id post"
  by (auto simp: map_eq_append_conv)

lemma clip_low: "(if g < lo then lo else g) = max lo (g :: 64 word)"
  by (auto simp: max_def)

lemma fits_clip:
  assumes "g \<le> hi - len" "lo + len \<le> s" "len \<le> s - g" "g \<le> s" "len \<le> hi" "lo \<le> hi - (len :: 64 word)"
  shows "max lo g \<le> hi - len" "max lo g + len \<le> s"
proof -
  have "g + len \<le> s" using assms(3,4) by unat_arith
  then show "max lo g \<le> hi - len" "max lo g + len \<le> s" using assms by (auto simp: max_def)
qed

text \<open>An answer of the search: the lowest (or highest) address that fits, or \<open>- ENOMEM\<close> if none does.\<close>

definition best_fit :: "(64 word \<Rightarrow> 64 word \<Rightarrow> bool) \<Rightarrow> (64 word \<Rightarrow> bool) \<Rightarrow> 64 word \<Rightarrow> bool" where
  "best_fit ord F r \<longleftrightarrow> (if \<exists>a. F a then F r \<and> (\<forall>a. F a \<longrightarrow> ord r a) else r = ulong (- ENOMEM))"

lemma best_fitI: "F r \<Longrightarrow> (\<And>a. F a \<Longrightarrow> ord r a) \<Longrightarrow> best_fit ord F r"
  and best_fit_none: "(\<And>a. \<not> F a) \<Longrightarrow> best_fit ord F (- 12)"
  by (auto simp: best_fit_def)

lemma first_wide_gap:
  assumes "map vm_id (mmap mm) = xs @ p # ys"
  obtains pre v post where "mmap mm = pre @ v # post" "xs = map vm_id pre" "p = vm_id v" "ys = map vm_id post"
  using split_ids [OF assms] by blast

lemma lowest_top:
  assumes mm: "mm_ok mm" and lim: "len \<le> hi" "lo \<le> hi - len" and none: "\<forall>v\<in>set (mmap mm). \<not> wide_gap mm len (lo + len) (hi - len) (vm_id v)"
  shows "best_fit (\<le>) (fits mm lo hi len) (if highest_vm_end mm > hi - len then ulong (- ENOMEM) else max lo (highest_vm_end mm))"
proof -
  have b: "highest_vm_end mm \<le> b" if "fits mm lo hi len b" for b
    using fits_in_gap [OF mm that] none by auto
  show ?thesis
  proof (cases "highest_vm_end mm > hi - len")
    case True
    then have "\<not> fits mm lo hi len a" for a using b [of a] by (auto simp: fits_def)
    then show ?thesis using True by (auto intro: best_fit_none)
  next
    case False
    then have "max lo (highest_vm_end mm) \<le> hi - len" using lim by simp
    then have "fits mm lo hi len (max lo (highest_vm_end mm))" using lim top_free [OF mm, of _ len] by (simp add: fits_def)
    moreover have "max lo (highest_vm_end mm) \<le> a" if "fits mm lo hi len a" for a using b [OF that] that by (simp add: fits_def)
    ultimately show ?thesis using False by (auto intro: best_fitI)
  qed
qed

lemma wide_gap_later:
  assumes mm: "mm_ok mm" and sp: "mmap mm = pre @ v # post" and none: "\<forall>u\<in>set pre. \<not> P (vm_id u)" and w: "w \<in> set (mmap mm)" "P (vm_id w)"
  shows "gap_start_of mm (vm_id v) \<le> gap_start_of mm (vm_id w)"
  using gaps_ordered(1) [OF mm] assms(2-) by (auto simp: sorted_wrt_append)

lemma wide_gap_earlier:
  assumes mm: "mm_ok mm" and sp: "mmap mm = pre @ v # post" and none: "\<forall>u\<in>set post. \<not> P (vm_id u)" and w: "w \<in> set (mmap mm)" "P (vm_id w)"
  shows "vm_start w \<le> vm_start v"
proof -
  have "w = v \<or> w \<in> set pre" using assms by auto
  moreover have "start_of mm (vm_id u) = vm_start u" if "u \<in> set (mmap mm)" for u
    using that vma_at_in mm by (auto simp: mm_ok_def tree_ok_def)
  ultimately show ?thesis using gaps_ordered(1) [OF mm] sp by (auto simp: sorted_wrt_append less_imp_le)
qed

lemma lowest_stop:
  assumes mm: "mm_ok mm" and sp: "mmap mm = pre @ v # post" and none: "\<forall>u\<in>set pre. \<not> wide_gap mm len (lo + len) (hi - len) (vm_id u)"
    and v: "hi - len < gap_start_of mm (vm_id v)"
  shows "\<not> fits mm lo hi len a"
proof
  assume F: "fits mm lo hi len a"
  have vh: "gap_start_of mm (vm_id v) \<le> highest_vm_end mm" using gaps_ordered(2) [OF mm] sp by auto
  from fits_in_gap [OF mm F]
  consider w where "w \<in> set (mmap mm)" "wide_gap mm len (lo + len) (hi - len) (vm_id w)" "gap_start_of mm (vm_id w) \<le> a"
    | "highest_vm_end mm \<le> a" by blast
  then have "gap_start_of mm (vm_id v) \<le> a"
  proof cases
    case 1
    then show ?thesis using wide_gap_later [OF mm sp none] by (auto intro: order.trans)
  qed (use vh in simp)
  then show False using F v by (auto simp: fits_def)
qed

lemma lowest_gap:
  assumes mm: "mm_ok mm" and lim: "len \<le> hi" "lo \<le> hi - len" and sp: "mmap mm = pre @ v # post"
    and none: "\<forall>u\<in>set pre. \<not> wide_gap mm len (lo + len) (hi - len) (vm_id u)" and v: "wide_gap mm len (lo + len) (hi - len) (vm_id v)"
  shows "best_fit (\<le>) (fits mm lo hi len) (max lo (gap_start_of mm (vm_id v)))"
proof (rule best_fitI)
  let ?g = "gap_start_of mm (vm_id v)"
  note at = gap_of_position [OF mm sp]
  have gv: "?g \<le> vm_start v" "?g \<le> highest_vm_end mm" using gaps_ordered(2) [OF mm] sp by auto
  have c: "max lo ?g \<le> hi - len" "max lo ?g + len \<le> vm_start v"
    using fits_clip [of ?g hi len lo "vm_start v"] v gv lim at by (auto simp: wide_gap_def)
  have "range_free mm (max lo ?g) len" by (rule gap_free [OF mm sp]) (use c at in auto)
  then show "fits mm lo hi len (max lo ?g)" using c lim by (simp add: fits_def)
  fix a assume F: "fits mm lo hi len a"
  from fits_in_gap [OF mm F] have "?g \<le> a"
    using wide_gap_later [OF mm sp none] gv(2) by (auto intro: order.trans)
  then show "max lo ?g \<le> a" using F by (simp add: fits_def)
qed

lemma unmapped_area_eq:
  assumes "ua_align_mask info = 0" "ua_length info = len" "ua_low_limit info = lo" "ua_high_limit info = hi" "len \<le> hi" "lo \<le> hi - len"
  shows "unmapped_area mm info =
        (if mm_rb mm = Rb_null \<or> vma_compute_subtree_gap mm (mm_rb mm) < len then (if highest_vm_end mm > hi - len then ulong (- ENOMEM) else max lo (highest_vm_end mm))
         else case unmapped_area_rb mm len (lo + len) (hi - len) (mm_rb mm) of
              Gap g _ \<Rightarrow> max lo g | No_gap \<Rightarrow> ulong (- ENOMEM) | Search_on \<Rightarrow> (if highest_vm_end mm > hi - len then ulong (- ENOMEM) else max lo (highest_vm_end mm)))"
proof -
  have fd: "unmapped_area_found info g = max lo g" for g
    by (simp add: unmapped_area_found_def assms(1-4) Let_def clip_low)
  show ?thesis
    using assms(5,6) [unfolded not_less [symmetric]]
    unfolding unmapped_area_def Let_def fd assms(1-4) add_0_right by simp
qed

lemma unmapped_area_lowest:
  assumes mm: "mm_ok mm" and info: "ua_align_mask info = 0"
  shows "best_fit (\<le>) (fits mm (ua_low_limit info) (ua_high_limit info) (ua_length info)) (unmapped_area mm info)"
proof -
  define lo hi len where d: "lo = ua_low_limit info" "hi = ua_high_limit info" "len = ua_length info"
  note d' = d [symmetric]
  have ids: "inorder (mm_rb mm) = map vm_id (mmap mm)" using mm by (simp add: mm_ok_def tree_ok_def)
  show ?thesis
  proof (cases "len \<le> hi \<and> lo \<le> hi - len")
    case False
    then have "unmapped_area mm info = ulong (- ENOMEM)"
      by (cases "len \<le> hi") (auto simp: unmapped_area_def info Let_def d not_le)
    then show ?thesis using False by (auto simp: d' fits_def best_fit_def)
  next
    case True
    then have lim: "len \<le> hi" "lo \<le> hi - len" by auto
    note run = unmapped_area_eq [OF info d'(3,1,2) lim, of mm]
    have st: "sorted_wrt (\<lambda>p q. start_of mm p < start_of mm q) (inorder (mm_rb mm))"
      unfolding ids by (rule sorted_wrt_mono_rel [OF _ gaps_ordered(1) [OF mm]]) simp
    note o = unmapped_area_rb_outcome [OF st, of len "lo + len" "hi - len", unfolded gap_outcome_def]
    show ?thesis
    proof (cases "mm_rb mm = Rb_null \<or> vma_compute_subtree_gap mm (mm_rb mm) < len")
      case True
      then have "\<forall>q\<in>set (inorder (mm_rb mm)). \<not> wide_gap mm len (lo + len) (hi - len) q" using small_subtree by auto
      then show ?thesis using True lowest_top [OF mm lim] unfolding run d' by (simp add: ids)
    next
      case False
      show ?thesis
      proof (cases "unmapped_area_rb mm len (lo + len) (hi - len) (mm_rb mm)")
        case Search_on
        then show ?thesis using o False lowest_top [OF mm lim] unfolding run d' by (simp add: ids)
      next
        case No_gap
        then obtain xs p ys where sp: "map vm_id (mmap mm) = xs @ p # ys" and p: "\<forall>q\<in>set xs. \<not> wide_gap mm len (lo + len) (hi - len) q" "hi - len < gap_start_of mm p"
          using o by (auto simp: ids)
        from sp show ?thesis
          by (rule first_wide_gap) (use No_gap False p lowest_stop [OF mm] in \<open>auto simp: run d' intro!: best_fit_none\<close>)
      next
        case (Gap g e)
        then obtain xs p ys where sp: "map vm_id (mmap mm) = xs @ p # ys" and p: "\<forall>q\<in>set xs. \<not> wide_gap mm len (lo + len) (hi - len) q"
            "wide_gap mm len (lo + len) (hi - len) p" "g = gap_start_of mm p"
          using o by (auto simp: ids)
        from sp show ?thesis
          by (rule first_wide_gap) (use Gap False p lowest_gap [OF mm lim] in \<open>auto simp: run d'\<close>)
      qed
    qed
  qed
qed

text \<open>The search from the top.\<close>

lemma fits_clip_top:
  assumes "g \<le> hi - len" "lo + len \<le> s" "len \<le> s - g" "g \<le> s" "len \<le> hi" "lo \<le> hi - (len :: 64 word)"
  shows "len \<le> min s hi" "lo \<le> min s hi - len" "min s hi - len \<le> hi - len" "g \<le> min s hi - len" "min s hi - len + len \<le> s"
proof -
  have s: "len \<le> s" "lo \<le> s - len" "g \<le> s - len" using assms by unat_arith+
  show "len \<le> min s hi" "lo \<le> min s hi - len" "g \<le> min s hi - len" "min s hi - len + len \<le> s"
    using s assms by (auto simp: min_def)
  show "min s hi - len \<le> hi - len" using s(1) assms(5) by (auto simp: min_def) unat_arith
qed

lemma highest_stop:
  assumes mm: "mm_ok mm" and sp: "mmap mm = pre @ v # post" and none: "\<forall>u\<in>set post. \<not> wide_gap mm len (lo + len) (hi - len) (vm_id u)"
    and v: "vm_start v < lo + len" and h: "hi - len < highest_vm_end mm"
  shows "\<not> fits mm lo hi len a"
proof
  assume F: "fits mm lo hi len a"
  have "\<not> highest_vm_end mm \<le> a" using F h by (auto simp: fits_def)
  with fits_in_gap [OF mm F] obtain w where
    w: "w \<in> set (mmap mm)" "wide_gap mm len (lo + len) (hi - len) (vm_id w)" by blast
  have "start_of mm (vm_id w) = vm_start w" using w(1) vma_at_in mm by (auto simp: mm_ok_def tree_ok_def)
  then show False using wide_gap_earlier [OF mm sp none w] w(2) v by (auto simp: wide_gap_def)
qed

lemma highest_gap:
  assumes mm: "mm_ok mm" and lim: "len \<le> hi" "lo \<le> hi - len" and sp: "mmap mm = pre @ v # post"
    and none: "\<forall>u\<in>set post. \<not> wide_gap mm len (lo + len) (hi - len) (vm_id u)" and v: "wide_gap mm len (lo + len) (hi - len) (vm_id v)"
    and h: "hi - len < highest_vm_end mm"
  shows "best_fit (\<ge>) (fits mm lo hi len) (min (vm_start v) hi - len)"
proof (rule best_fitI)
  let ?g = "gap_start_of mm (vm_id v)"
  note at = gap_of_position [OF mm sp]
  have gv: "?g \<le> vm_start v" using gaps_ordered(2) [OF mm] sp by auto
  have c: "len \<le> min (vm_start v) hi" "lo \<le> min (vm_start v) hi - len" "min (vm_start v) hi - len \<le> hi - len"
    "?g \<le> min (vm_start v) hi - len" "min (vm_start v) hi - len + len \<le> vm_start v"
    using fits_clip_top [of ?g hi len lo "vm_start v"] v gv lim at by (auto simp: wide_gap_def)
  have "range_free mm (min (vm_start v) hi - len) len" by (rule gap_free [OF mm sp]) (use c at in auto)
  then show "fits mm lo hi len (min (vm_start v) hi - len)" using c lim by (simp add: fits_def)
  fix a assume F: "fits mm lo hi len a"
  have "\<not> highest_vm_end mm \<le> a" using F h by (auto simp: fits_def)
  with fits_in_gap [OF mm F] obtain w where
    w: "w \<in> set (mmap mm)" "wide_gap mm len (lo + len) (hi - len) (vm_id w)" "a + len \<le> vm_start w" by blast
  have "a + len \<le> vm_start v" using wide_gap_earlier [OF mm sp none w(1,2)] w(3) by simp
  moreover have "a \<le> a + len" "a + len \<le> hi" using F fits_no_wrap by (auto simp: fits_def)
  ultimately show "a \<le> min (vm_start v) hi - len" using c(1) by (simp add: min_def) unat_arith
qed

lemma unmapped_area_topdown_eq:
  assumes "ua_align_mask info = 0" "ua_length info = len" "ua_low_limit info = lo" "ua_high_limit info = hi" "len \<le> hi" "lo \<le> hi - len"
  shows "unmapped_area_topdown mm info =
        (if highest_vm_end mm \<le> hi - len then hi - len
         else if mm_rb mm = Rb_null \<or> vma_compute_subtree_gap mm (mm_rb mm) < len then ulong (- ENOMEM)
         else case unmapped_area_topdown_rb mm len (lo + len) (hi - len) (mm_rb mm) of
              Gap _ e \<Rightarrow> min e hi - len | _ \<Rightarrow> ulong (- ENOMEM))"
proof -
  have fd: "unmapped_area_topdown_found info e = e - len" for e
    by (simp add: unmapped_area_topdown_found_def assms(1-4) Let_def)
  have mn: "(if hi < e then hi else e) = min e hi" for e by (auto simp: min_def)
  show ?thesis
    using assms(5,6) [unfolded not_less [symmetric]]
    unfolding unmapped_area_topdown_def Let_def fd assms(1-4) add_0_right mn by (simp split: gap_search.split)
qed

lemma unmapped_area_topdown_highest:
  assumes mm: "mm_ok mm" and info: "ua_align_mask info = 0"
  shows "best_fit (\<ge>) (fits mm (ua_low_limit info) (ua_high_limit info) (ua_length info)) (unmapped_area_topdown mm info)"
proof -
  define lo hi len where d: "lo = ua_low_limit info" "hi = ua_high_limit info" "len = ua_length info"
  note d' = d [symmetric]
  have ids: "inorder (mm_rb mm) = map vm_id (mmap mm)" using mm by (simp add: mm_ok_def tree_ok_def)
  show ?thesis
  proof (cases "len \<le> hi \<and> lo \<le> hi - len")
    case False
    then have "unmapped_area_topdown mm info = ulong (- ENOMEM)"
      by (cases "len \<le> hi") (auto simp: unmapped_area_topdown_def info Let_def d not_le)
    then show ?thesis using False by (auto simp: d' fits_def best_fit_def)
  next
    case True
    then have lim: "len \<le> hi" "lo \<le> hi - len" by auto
    note run = unmapped_area_topdown_eq [OF info d'(3,1,2) lim, of mm]
    have st: "sorted_wrt (\<lambda>p q. gap_start_of mm p \<le> gap_start_of mm q) (inorder (mm_rb mm))"
      unfolding ids by (rule sorted_wrt_mono_rel [OF _ gaps_ordered(1) [OF mm]]) simp
    note o = unmapped_area_topdown_rb_outcome [OF st, of len "lo + len" "hi - len", unfolded gap_outcome_def]
    have none: "best_fit (\<ge>) (fits mm lo hi len) (- 12)"
      if "hi - len < highest_vm_end mm" "\<forall>q\<in>set (inorder (mm_rb mm)). \<not> wide_gap mm len (lo + len) (hi - len) q"
      by (rule best_fit_none) (use that fits_in_gap [OF mm, of lo hi len] in \<open>fastforce simp: ids fits_def\<close>)
    show ?thesis
    proof (cases "highest_vm_end mm \<le> hi - len")
      case True
      then have "fits mm lo hi len (hi - len)" using lim top_free [OF mm True] by (simp add: fits_def)
      then show ?thesis using True unfolding run d' by (auto intro!: best_fitI simp: fits_def)
    next
      case top: False
      show ?thesis
      proof (cases "mm_rb mm = Rb_null \<or> vma_compute_subtree_gap mm (mm_rb mm) < len")
        case True
        then have "\<forall>q\<in>set (inorder (mm_rb mm)). \<not> wide_gap mm len (lo + len) (hi - len) q" using small_subtree by auto
        then show ?thesis using True top none unfolding run d' by simp
      next
        case False
        show ?thesis
        proof (cases "unmapped_area_topdown_rb mm len (lo + len) (hi - len) (mm_rb mm)")
          case Search_on
          then show ?thesis using o False top none unfolding run d' by simp
        next
          case No_gap
          then obtain xs p ys where sp: "rev (map vm_id (mmap mm)) = xs @ p # ys" and
            p: "\<forall>q\<in>set xs. \<not> wide_gap mm len (lo + len) (hi - len) q" "start_of mm p < lo + len"
            using o by (auto simp: ids)
          from sp have "map vm_id (mmap mm) = rev ys @ p # rev xs" by (simp add: rev_eq_append_conv)
          then obtain pre v post where v: "mmap mm = pre @ v # post" "rev ys = map vm_id pre" "p = vm_id v" "rev xs = map vm_id post"
            by (rule first_wide_gap)
          have "\<forall>u\<in>set post. \<not> wide_gap mm len (lo + len) (hi - len) (vm_id u)"
            using p(1) arg_cong [OF v(4), of set] by auto
          then show ?thesis using No_gap False top p(2) highest_stop [OF mm v(1)] gap_of_position [OF mm v(1)] v(3)
            by (auto simp: run d' intro!: best_fit_none)
        next
          case (Gap g e)
          then obtain xs p ys where sp: "rev (map vm_id (mmap mm)) = xs @ p # ys" and
            p: "\<forall>q\<in>set xs. \<not> wide_gap mm len (lo + len) (hi - len) q" "wide_gap mm len (lo + len) (hi - len) p" "e = start_of mm p"
            using o by (auto simp: ids)
          from sp have "map vm_id (mmap mm) = rev ys @ p # rev xs" by (simp add: rev_eq_append_conv)
          then obtain pre v post where v: "mmap mm = pre @ v # post" "rev ys = map vm_id pre" "p = vm_id v" "rev xs = map vm_id post"
            by (rule first_wide_gap)
          have "\<forall>u\<in>set post. \<not> wide_gap mm len (lo + len) (hi - len) (vm_id u)"
            using p(1) arg_cong [OF v(4), of set] by auto
          then show ?thesis using Gap False top p(2,3) highest_gap [OF mm lim v(1)] gap_of_position [OF mm v(1)] v(3)
            by (auto simp: run d')
        qed
      qed
    qed
  qed
qed


section \<open>The address chosen for a mapping\<close>

lemma find_vma_hint_free:
  assumes mm: "mm_ok mm" and E: "vmacache_ok E" and a: "hinted_area E mm a len"
  shows "range_free mm a len"
proof -
  from mm E show ?thesis
  proof (cases rule: find_vma_cases [of _ _ a])
    case none
    then show ?thesis by (simp add: range_free_def)
  next
    case (found pre v post)
    then have v: "a + len \<le> vm_start v" using a mm_ok_position(1) [OF mm found(2)] by (simp add: hinted_area_def)
    have "highest_end pre \<le> a" using highest_end_le [OF found(3)] .
    then show ?thesis by (rule gap_free [OF mm found(2) _ v])
  qed
qed

lemma best_fit_cases: "best_fit ord F r \<Longrightarrow> F r \<or> r = - 12"
  by (auto simp: best_fit_def split: if_splits)

lemma vm_unmapped_area_result:
  assumes "mm_ok mm" "ua_align_mask info = 0"
  shows "vm_unmapped_area mm info = - 12 \<or> fits mm (ua_low_limit info) (ua_high_limit info) (ua_length info) (vm_unmapped_area mm info)"
  using best_fit_cases [OF unmapped_area_lowest [OF assms]] best_fit_cases [OF unmapped_area_topdown_highest [OF assms]]
  by (auto simp: vm_unmapped_area_def)

lemma arch_get_unmapped_area_free:
  assumes "mm_ok mm" "vmacache_ok E" "flags AND MAP_FIXED = 0"
  shows "arch_get_unmapped_area E mm addr len flags = - 12 \<or> range_free mm (arch_get_unmapped_area E mm addr len flags) len"
    "arch_get_unmapped_area_topdown E mm addr len flags = - 12 \<or> range_free mm (arch_get_unmapped_area_topdown E mm addr len flags) len"
proof -
  have u: "vm_unmapped_area mm \<lparr>ua_flags = fl, ua_length = len, ua_low_limit = lo, ua_high_limit = hi, ua_align_mask = 0, ua_align_offset = 0\<rparr> = - 12 \<or>
      range_free mm (vm_unmapped_area mm \<lparr>ua_flags = fl, ua_length = len, ua_low_limit = lo, ua_high_limit = hi, ua_align_mask = 0, ua_align_offset = 0\<rparr>) len"
    for fl lo hi
    using vm_unmapped_area_result [OF assms(1), of "\<lparr>ua_flags = fl, ua_length = len, ua_low_limit = lo, ua_high_limit = hi, ua_align_mask = 0, ua_align_offset = 0\<rparr>"]
    by (auto simp: fits_def)
  note hint = find_vma_hint_free [OF assms(1,2)]
  show "arch_get_unmapped_area E mm addr len flags = - 12 \<or> range_free mm (arch_get_unmapped_area E mm addr len flags) len"
    using assms(3) by (simp add: arch_get_unmapped_area_def) (use u hint in blast)
  show "arch_get_unmapped_area_topdown E mm addr len flags = - 12 \<or> range_free mm (arch_get_unmapped_area_topdown E mm addr len flags) len"
    using assms(3) by (simp add: arch_get_unmapped_area_topdown_def Let_def) (use u hint in blast)
qed

text \<open>What is assumed of the methods of files: like the default ones they find a free range in the current address space.\<close>

definition area_methods_ok :: "mm_env \<Rightarrow> bool" where
  "area_methods_ok E \<longleftrightarrow>
     (\<forall>g get_area mm addr len pgoff flags. f_op_get_unmapped_area E g = Some get_area \<longrightarrow> mm_ok mm \<longrightarrow> flags AND MAP_FIXED = 0 \<longrightarrow>
        IS_ERR_VALUE (get_area mm addr len pgoff flags) \<or> range_free mm (get_area mm addr len pgoff flags) len) \<and>
     (\<forall>mm addr len pgoff flags. mm_ok mm \<longrightarrow> flags AND MAP_FIXED = 0 \<longrightarrow>
        IS_ERR_VALUE (shmem_get_unmapped_area E mm addr len pgoff flags) \<or> range_free mm (shmem_get_unmapped_area E mm addr len pgoff flags) len) \<and>
     (\<forall>addr len flags. arch_mmap_check E addr len flags = 0 \<or> IS_ERR_VALUE (arch_mmap_check E addr len flags)) \<and>
     (\<forall>a. - 4095 \<le> security_mmap_addr E a \<and> security_mmap_addr E a \<le> 0)"

lemma offset_unat: "offset_in_page a = 0 \<longleftrightarrow> unat a mod 4096 = 0"
  using aligned_unat [of a] by (simp add: aligned_def)

lemma err_value_offset: "IS_ERR_VALUE r \<Longrightarrow> offset_in_page r \<noteq> 0"
proof
  assume r: "IS_ERR_VALUE r" "offset_in_page r = 0"
  have "18446744073709547521 \<le> unat r" using r(1) by (simp add: IS_ERR_VALUE_def word_le_nat_alt)
  moreover have "unat r < 2 ^ LENGTH(64)" by (rule unsigned_less)
  moreover obtain k where k: "unat r = 4096 * k" using r(2) by (auto simp: offset_unat mod_eq_0_iff_dvd dvd_def)
  ultimately have "4503599627370495 < k" "k < 4503599627370496" by simp_all
  then show False by simp
qed

lemma ulong_err:
  assumes "- 4095 \<le> e" "e < 0"
  shows "IS_ERR_VALUE (ulong e)" "offset_in_page (ulong e) \<noteq> 0"
proof -
  have "unat (ulong e) = nat (e mod 2 ^ 64)" by (simp add: unat_eq_nat_uint uint_word_of_int)
  moreover have "(e + 2 ^ 64) mod 2 ^ 64 = e + 2 ^ 64" by (rule mod_pos_pos_trivial) (use assms in simp_all)
  moreover have "(e + 2 ^ 64) mod 2 ^ 64 = e mod 2 ^ 64" by (rule mod_add_self2)
  ultimately have "unat (ulong e) = nat (e + 2 ^ 64)" by metis
  then show "IS_ERR_VALUE (ulong e)" using assms by (simp add: IS_ERR_VALUE_def word_le_nat_alt)
  then show "offset_in_page (ulong e) \<noteq> 0" by (rule err_value_offset)
qed

lemma get_task_unmapped_area_result:
  assumes mm: "mm_ok (cur_mm s)" and E: "vmacache_ok E" "area_methods_ok E"
    and r: "get_task_unmapped_area E f addr len pgoff flags s = r" "offset_in_page r = 0"
  shows "len \<le> TASK_SIZE E \<and> r \<le> TASK_SIZE E - len \<and> (flags AND MAP_FIXED = 0 \<longrightarrow> range_free (cur_mm s) r len)"
proof -
  define a where "a = (let method = (case mm_get_unmapped_area (st_mm s) of
                 Arch_get_unmapped_area \<Rightarrow> arch_get_unmapped_area E (cur_mm s) addr len flags
               | Arch_get_unmapped_area_topdown \<Rightarrow> arch_get_unmapped_area_topdown E (cur_mm s) addr len flags)
     in case f of
                   Some g \<Rightarrow> (case f_op_get_unmapped_area E g of
                                Some get_area \<Rightarrow> get_area (cur_mm s) addr len pgoff flags
                              | None \<Rightarrow> method)
                 | None \<Rightarrow> if flags AND MAP_SHARED \<noteq> 0 then shmem_get_unmapped_area E (cur_mm s) addr len 0 flags
                           else method)"
  have run: "get_task_unmapped_area E f addr len pgoff flags s =
     (let error = arch_mmap_check E addr len flags
      in if error \<noteq> 0 then error
         else if len > TASK_SIZE E then ulong (- ENOMEM)
         else if IS_ERR_VALUE a then a
              else if a > TASK_SIZE E - len then ulong (- ENOMEM)
              else if offset_in_page a \<noteq> 0 then ulong (- EINVAL)
              else let error = security_mmap_addr E a in if error \<noteq> 0 then ulong error else a)"
    unfolding get_task_unmapped_area_def a_def Let_def by (rule refl)
  have free: "IS_ERR_VALUE a \<or> range_free (cur_mm s) a len" if "flags AND MAP_FIXED = 0"
  proof -
    have "IS_ERR_VALUE (- 12)" by (simp add: IS_ERR_VALUE_def)
    then have m: "IS_ERR_VALUE (arch_get_unmapped_area E (cur_mm s) addr len flags) \<or> range_free (cur_mm s) (arch_get_unmapped_area E (cur_mm s) addr len flags) len"
      "IS_ERR_VALUE (arch_get_unmapped_area_topdown E (cur_mm s) addr len flags) \<or>
       range_free (cur_mm s) (arch_get_unmapped_area_topdown E (cur_mm s) addr len flags) len"
      using arch_get_unmapped_area_free [OF mm E(1) that, of addr len] by auto
    show ?thesis
      using m that mm E(2) unfolding a_def Let_def area_methods_ok_def by (simp split: option.split area_method.split)
  qed
  have e: "offset_in_page (- 12) \<noteq> 0" "offset_in_page (- 22) \<noteq> 0" by (simp_all add: offset_in_page_def)
  have "security_mmap_addr E a < 0 \<Longrightarrow> offset_in_page (ulong (security_mmap_addr E a)) \<noteq> 0" "security_mmap_addr E a \<le> 0"
    "arch_mmap_check E addr len flags \<noteq> 0 \<Longrightarrow> offset_in_page (arch_mmap_check E addr len flags) \<noteq> 0"
    using E(2) ulong_err(2) [of "security_mmap_addr E a"] err_value_offset unfolding area_methods_ok_def by blast+
  then show ?thesis using r free e err_value_offset unfolding run Let_def
    by (auto simp: not_less split: if_splits)
qed

lemma get_task_unmapped_area_err:
  assumes E: "area_methods_ok E" and r: "get_task_unmapped_area E f addr len pgoff flags s = r" "offset_in_page r \<noteq> 0"
  shows "IS_ERR_VALUE r"
proof -
  have "arch_mmap_check E addr len flags \<noteq> 0 \<Longrightarrow> IS_ERR_VALUE (arch_mmap_check E addr len flags)"
    "\<And>a. security_mmap_addr E a \<noteq> 0 \<Longrightarrow> IS_ERR_VALUE (ulong (security_mmap_addr E a))"
    using E ulong_err(1) unfolding area_methods_ok_def by (meson order_le_less)+
  moreover have "IS_ERR_VALUE (- 12)" "IS_ERR_VALUE (- 22)" by (simp_all add: IS_ERR_VALUE_def)
  ultimately show ?thesis using r unfolding get_task_unmapped_area_def Let_def by (auto split: if_splits)
qed

end
