(* ===== verification/Mmap.thy ===== *)
theory Mmap
  imports Unmapped_Area
begin

text \<open>
  Creating mappings (\<open>mm/mmap.c\<close>, \<open>mm/util.c\<close>): \<open>mmap_task_region\<close>, \<open>do_task_mmap\<close> and their callers,
  among them the remote variants \<open>do_mmap_remote\<close> and \<open>vm_mmap_remote\<close>, and the heap (\<open>do_brk\<close>).

  \<open>allow_write_access\<close> and \<open>mapping_unmap_writable\<close> of \<open>linux/fs.h\<close> add to and subtract from the two
  counters of an inode; \<open>deny_write_access\<close> and \<open>mapping_map_writable\<close>, which may refuse, are
  parameters.  What a call of \<open>mm_populate\<close> is asked to fault in is part of the result.
\<close>

abbreviation (input) PROT_READ :: "64 word" where "PROT_READ \<equiv> 0x1"
abbreviation (input) PROT_WRITE :: "64 word" where "PROT_WRITE \<equiv> 0x2"
abbreviation (input) PROT_EXEC :: "64 word" where "PROT_EXEC \<equiv> 0x4"
abbreviation (input) MAP_ANONYMOUS :: "64 word" where "MAP_ANONYMOUS \<equiv> 0x20"
abbreviation (input) MAP_DENYWRITE :: "64 word" where "MAP_DENYWRITE \<equiv> 0x800"
abbreviation (input) MAP_EXECUTABLE :: "64 word" where "MAP_EXECUTABLE \<equiv> 0x1000"
abbreviation (input) MAP_LOCKED :: "64 word" where "MAP_LOCKED \<equiv> 0x2000"
abbreviation (input) MAP_NORESERVE :: "64 word" where "MAP_NORESERVE \<equiv> 0x4000"
abbreviation (input) MAP_POPULATE :: "64 word" where "MAP_POPULATE \<equiv> 0x8000"
abbreviation (input) MAP_NONBLOCK :: "64 word" where "MAP_NONBLOCK \<equiv> 0x10000"
abbreviation (input) MAP_HUGETLB :: "64 word" where "MAP_HUGETLB \<equiv> 0x40000"
abbreviation (input) READ_IMPLIES_EXEC :: "64 word" where "READ_IMPLIES_EXEC \<equiv> 0x400000"
abbreviation (input) FMODE_READ :: "32 word" where "FMODE_READ \<equiv> 0x1"
abbreviation (input) FMODE_WRITE :: "32 word" where "FMODE_WRITE \<equiv> 0x2"
abbreviation (input) RLIM_INFINITY :: "64 word" where "RLIM_INFINITY \<equiv> - 1"

section \<open>Page protections\<close>

definition vm_get_page_prot :: "mm_env \<Rightarrow> 64 word \<Rightarrow> 64 word" where
  "vm_get_page_prot E flags =
     protection_map E (flags AND (VM_READ OR VM_WRITE OR VM_EXEC OR VM_SHARED)) OR arch_vm_get_page_prot E flags"

definition vm_pgprot_modify :: "mm_env \<Rightarrow> 64 word \<Rightarrow> 64 word \<Rightarrow> 64 word" where
  "vm_pgprot_modify E oldprot flags = pgprot_modify E oldprot (vm_get_page_prot E flags)"

definition vma_wants_writenotify :: "mm_env \<Rightarrow> vm_area_struct \<Rightarrow> 64 word \<Rightarrow> bool" where
  "vma_wants_writenotify E vma page_prot =
     (if vm_flags vma AND (VM_WRITE OR VM_SHARED) \<noteq> VM_WRITE OR VM_SHARED then False
      else if (case vm_ops vma of None \<Rightarrow> False | Some ops \<Rightarrow> has_page_mkwrite ops \<or> has_pfn_mkwrite ops) then True
      else if page_prot \<noteq> vm_pgprot_modify E page_prot (vm_flags vma) then False
      else if soft_dirty_config E \<and> vm_flags vma AND VM_SOFTDIRTY = 0 then True
      else if vm_flags vma AND VM_PFNMAP \<noteq> 0 then False
      else case vm_file vma of None \<Rightarrow> False | Some f \<Rightarrow> mapping_cap_account_dirty E (f_mapping E f))"

definition vma_set_page_prot :: "mm_env \<Rightarrow> vm_area_struct \<Rightarrow> vm_area_struct" where
  "vma_set_page_prot E vma =
     (let page_prot = vm_pgprot_modify E (vm_page_prot vma) (vm_flags vma)
      in vma\<lparr>vm_page_prot :=
           (if vma_wants_writenotify E vma page_prot
            then vm_pgprot_modify E page_prot (vm_flags vma AND NOT VM_SHARED) else page_prot)\<rparr>)"

section \<open>Checks\<close>

definition round_hint_to_min :: "mm_env \<Rightarrow> 64 word \<Rightarrow> 64 word" where
  "round_hint_to_min E hint =
     (let hint = hint AND NOT 0xfff
      in if hint \<noteq> 0 \<and> hint < mmap_min_addr E then PAGE_ALIGN (mmap_min_addr E) else hint)"

definition mlock_future_check :: "mm_env \<Rightarrow> mm_struct \<Rightarrow> 64 word \<Rightarrow> 64 word \<Rightarrow> int" where
  "mlock_future_check E mm flags len =
     (if flags AND VM_LOCKED \<noteq> 0 \<and> drop_bit 12 len + locked_vm mm > drop_bit 12 (rlimit_memlock E) \<and> \<not> capable_ipc_lock E
      then - EAGAIN else 0)"

definition accountable_mapping :: "mm_env \<Rightarrow> file_ptr option \<Rightarrow> 64 word \<Rightarrow> bool" where
  "accountable_mapping E f flags \<longleftrightarrow>
     \<not> (case f of None \<Rightarrow> False | Some g \<Rightarrow> is_file_hugepages E g) \<and>
     flags AND (VM_NORESERVE OR VM_SHARED OR VM_WRITE) = VM_WRITE"

definition mapping_unmap_writable :: "nat \<Rightarrow> mmst \<Rightarrow> mmst" where
  "mapping_unmap_writable m = upd_space m (\<lambda>a. a\<lparr>i_mmap_writable := i_mmap_writable a - 1\<rparr>)"

definition allow_write_access :: "nat \<Rightarrow> mmst \<Rightarrow> mmst" where
  "allow_write_access m = upd_space m (\<lambda>a. a\<lparr>i_writecount := i_writecount a + 1\<rparr>)"

section \<open>Mapping a region\<close>

text \<open>The loop that clears old mappings; its result is the place of the new area, or none if unmapping failed.\<close>

partial_function (option) clear_old_maps :: "mm_env \<Rightarrow> 64 word \<Rightarrow> 64 word \<Rightarrow> mmst \<Rightarrow> (vma_links option \<times> mmst) option" where
  "clear_old_maps E addr len s =
     (case find_vma_links (st_mm s) addr (addr + len) of
        Some ln \<Rightarrow> Some (Some ln, s)
      | None \<Rightarrow> do {
          (r, s) \<leftarrow> do_munmap E addr len s;
          if r \<noteq> 0 then Some (None, s) else clear_old_maps E addr len s
        })"

declare clear_old_maps.simps [code]

text \<open>The gate area is that of an architecture without one.\<close>

definition get_gate_vma :: "mm_struct \<Rightarrow> vma_ptr option" where
  "get_gate_vma mm = None"

text \<open>From the label \<open>out\<close> on.\<close>

definition mmap_region_out :: "mm_env \<Rightarrow> vma_ptr \<Rightarrow> 64 word \<Rightarrow> 64 word \<Rightarrow> mmst \<Rightarrow> mmst" where
  "mmap_region_out E p flags len s =
     (let mm = vm_stat_account flags (drop_bit 12 len) (st_mm s);
          mm = (if flags AND VM_LOCKED \<noteq> 0 then
                  if \<not> (flags AND VM_SPECIAL \<noteq> 0 \<or> vm_flags (vma_at mm p) AND VM_HUGETLB \<noteq> 0 \<or> get_gate_vma mm = Some p)
                  then mm\<lparr>locked_vm := locked_vm mm + drop_bit 12 len\<rparr>
                  else upd_vma p (\<lambda>v. v\<lparr>vm_flags := vm_flags v AND NOT (VM_LOCKED OR VM_LOCKONFAULT)\<rparr>) mm
                else mm);
          mm = upd_vma p (\<lambda>v. vma_set_page_prot E (v\<lparr>vm_flags := vm_flags v OR VM_SOFTDIRTY\<rparr>)) mm
      in s\<lparr>st_mm := mm\<rparr>)"

definition blank_vma :: "mm_env \<Rightarrow> vma_ptr \<Rightarrow> 64 word \<Rightarrow> 64 word \<Rightarrow> 64 word \<Rightarrow> 64 word \<Rightarrow> vm_area_struct" where
  "blank_vma E q addr len flags pgoff =
     \<lparr>vm_id = q, vm_start = addr, vm_end = addr + len, vm_flags = flags, vm_pgoff = pgoff, vm_file = None,
      vm_page_prot = vm_get_page_prot E flags, anon_vma = None, anon_vma_chain = [], vm_ops = None, vm_policy = 0,
      vm_userfaultfd_ctx = 0\<rparr>"

text \<open>The labels \<open>allow_write_and_free_vma\<close>, \<open>free_vma\<close> and \<open>unacct_error\<close>.\<close>

definition unacct_error :: "64 word \<Rightarrow> int \<Rightarrow> mmst \<Rightarrow> 64 word \<times> mmst" where
  "unacct_error charged error s = (ulong error, if charged \<noteq> 0 then vm_unacct_memory charged s else s)"

definition allow_write_and_free_vma :: "nat \<Rightarrow> 64 word \<Rightarrow> 64 word \<Rightarrow> int \<Rightarrow> mmst \<Rightarrow> 64 word \<times> mmst" where
  "allow_write_and_free_vma m flags charged error s =
     unacct_error charged error (if flags AND VM_DENYWRITE \<noteq> 0 then allow_write_access m s else s)"

text \<open>The call of the method \<open>mmap\<close> of a file, with the label \<open>unmap_and_free_vma\<close> for its failure.\<close>

definition mmap_file_call ::
    "mm_env \<Rightarrow> file_ptr \<Rightarrow> 64 word \<Rightarrow> 64 word \<Rightarrow> vm_area_struct \<Rightarrow> vma_links \<Rightarrow> mmst \<Rightarrow> 64 word \<times> mmst" where
  "mmap_file_call E f len flags vma ln s =
     (let m = f_mapping E f;
          vma = vma\<lparr>vm_file := Some f\<rparr>;
          s = s\<lparr>st_heap := get_file f (st_heap s)\<rparr>;
          (error, vma) = f_op_mmap E f vma
      in if error \<noteq> 0 then
           let vma = vma\<lparr>vm_file := None\<rparr>;
               s = s\<lparr>st_heap := fput (vfs E) f (st_heap s)\<rparr>;
               s = unmap_region E [vma] (vm_start vma) (vm_end vma) s;
               s = (if flags AND VM_SHARED \<noteq> 0 then mapping_unmap_writable m s else s)
           in allow_write_and_free_vma m flags 0 error s
         else
           let flags = vm_flags vma;
               s = vma_link E vma ln s;
               s = (if flags AND VM_SHARED \<noteq> 0 then mapping_unmap_writable m s else s);
               s = (if flags AND VM_DENYWRITE \<noteq> 0 then allow_write_access m s else s)
           in (vm_start vma, mmap_region_out E (vm_id vma) flags len s))"

text \<open>A new area for a file: write access is denied and writable mappings are announced while the file's method runs.\<close>

definition mmap_file_area ::
    "mm_env \<Rightarrow> file_ptr \<Rightarrow> 64 word \<Rightarrow> 64 word \<Rightarrow> vm_area_struct \<Rightarrow> vma_links \<Rightarrow> 64 word \<Rightarrow> mmst \<Rightarrow> 64 word \<times> mmst" where
  "mmap_file_area E f len flags vma ln charged s =
     (let m = f_mapping E f;
          (error, sp) = (if flags AND VM_DENYWRITE \<noteq> 0 then deny_write_access E (st_spaces s m) else (0, st_spaces s m))
      in if error \<noteq> 0 then unacct_error charged error s
         else let s = upd_space m (\<lambda>_. sp) s;
                  (error, sp) = (if flags AND VM_SHARED \<noteq> 0 then mapping_map_writable E (st_spaces s m) else (0, st_spaces s m))
         in if error \<noteq> 0 then allow_write_and_free_vma m flags charged error s
            else mmap_file_call E f len flags vma ln (upd_space m (\<lambda>_. sp) s))"

definition mmap_anon_area ::
    "mm_env \<Rightarrow> 64 word \<Rightarrow> 64 word \<Rightarrow> vm_area_struct \<Rightarrow> vma_links \<Rightarrow> 64 word \<Rightarrow> mmst \<Rightarrow> 64 word \<times> mmst" where
  "mmap_anon_area E len flags vma ln charged s =
     (let (error, vma, s) = (if flags AND VM_SHARED \<noteq> 0 then shmem_zero_setup E vma s else (0, vma, s))
      in if error \<noteq> 0 then unacct_error charged error s
         else (vm_start vma, mmap_region_out E (vm_id vma) flags len (vma_link E vma ln s)))"

definition mmap_new_area ::
    "mm_env \<Rightarrow> file_ptr option \<Rightarrow> 64 word \<Rightarrow> 64 word \<Rightarrow> 64 word \<Rightarrow> 64 word \<Rightarrow> vma_links \<Rightarrow> 64 word \<Rightarrow> mmst \<Rightarrow> 64 word \<times> mmst" where
  "mmap_new_area E f addr len flags pgoff ln charged s =
     (case kmem_cache_alloc E s of
        None \<Rightarrow> unacct_error charged (- ENOMEM) s
      | Some q \<Rightarrow>
          let vma = blank_vma E q addr len flags pgoff
          in case f of
               Some g \<Rightarrow> mmap_file_area E g len flags vma ln charged s
             | None \<Rightarrow> mmap_anon_area E len flags vma ln charged s)"

definition mmap_task_region ::
    "mm_env \<Rightarrow> file_ptr option \<Rightarrow> 64 word \<Rightarrow> 64 word \<Rightarrow> 64 word \<Rightarrow> 64 word \<Rightarrow> mmst \<Rightarrow> (64 word \<times> mmst) option" where
  "mmap_task_region E f addr len flags pgoff s =
     (if \<not> may_expand_vm E (st_mm s) flags (drop_bit 12 len) \<and>
         \<not> may_expand_vm E (st_mm s) flags (drop_bit 12 len - count_vma_pages_range E (st_mm s) addr (addr + len))
      then Some (ulong (- ENOMEM), s)
      else do {
        (place, s) \<leftarrow> clear_old_maps E addr len s;
        case place of
          None \<Rightarrow> Some (ulong (- ENOMEM), s)
        | Some ln \<Rightarrow>
            let charged = (if accountable_mapping E f flags then drop_bit 12 len else 0);
                (error, s) = (if accountable_mapping E f flags then security_vm_enough_memory_mm E s charged else (0, s));
                flags = (if accountable_mapping E f flags then flags OR VM_ACCOUNT else flags)
            in if error \<noteq> 0 then Some (ulong (- ENOMEM), s)
               else do {
                 (vma, s) \<leftarrow> vma_merge E (ln_prev ln) addr (addr + len) flags None f pgoff 0 0 s;
                 case vma of
                   Some p \<Rightarrow> Some (addr, mmap_region_out E p flags len s)
                 | None \<Rightarrow> Some (mmap_new_area E f addr len flags pgoff ln charged s)
               }
      })"

definition mmap_region ::
    "mm_env \<Rightarrow> file_ptr option \<Rightarrow> 64 word \<Rightarrow> 64 word \<Rightarrow> 64 word \<Rightarrow> 64 word \<Rightarrow> mmst \<Rightarrow> (64 word \<times> mmst) option" where
  "mmap_region E f addr len flags pgoff s = mmap_task_region E f addr len flags pgoff s"

section \<open>Mapping with the checks of the system call\<close>

text \<open>The flags for a mapping of a file, or the error.\<close>

definition mmap_private_file_flags :: "mm_env \<Rightarrow> file_ptr \<Rightarrow> 64 word \<Rightarrow> mmst \<Rightarrow> int + 64 word" where
  "mmap_private_file_flags E f flags s =
     (if f_mode (st_heap s f) AND FMODE_READ = 0 then Inl (- EACCES)
      else if path_noexec E f \<and> flags AND VM_EXEC \<noteq> 0 then Inl (- EPERM)
      else let flags = (if path_noexec E f then flags AND NOT VM_MAYEXEC else flags)
      in if \<not> has_f_op_mmap E f then Inl (- ENODEV)
         else if flags AND (VM_GROWSDOWN OR VM_GROWSUP) \<noteq> 0 then Inl (- EINVAL)
         else Inr flags)"

definition mmap_file_flags :: "mm_env \<Rightarrow> file_ptr \<Rightarrow> 64 word \<Rightarrow> 64 word \<Rightarrow> 64 word \<Rightarrow> mmst \<Rightarrow> int + 64 word" where
  "mmap_file_flags E f prot map_flags flags s =
     (let mode = f_mode (st_heap s f) in
      if map_flags AND MAP_TYPE = MAP_SHARED then
        if prot AND PROT_WRITE \<noteq> 0 \<and> mode AND FMODE_WRITE = 0 then Inl (- EACCES)
        else if is_append E (f_mapping E f) \<and> mode AND FMODE_WRITE \<noteq> 0 then Inl (- EACCES)
        else if locks_verify_locked E f \<noteq> 0 then Inl (- EAGAIN)
        else let flags = flags OR (VM_SHARED OR VM_MAYSHARE);
                 flags = (if mode AND FMODE_WRITE = 0 then flags AND NOT (VM_MAYWRITE OR VM_SHARED) else flags)
        in mmap_private_file_flags E f flags s
      else if map_flags AND MAP_TYPE = MAP_PRIVATE then mmap_private_file_flags E f flags s
      else Inl (- EINVAL))"

text \<open>The flags and the offset for a mapping without a file.\<close>

definition mmap_anon_flags :: "64 word \<Rightarrow> 64 word \<Rightarrow> 64 word \<Rightarrow> int + (64 word \<times> 64 word)" where
  "mmap_anon_flags addr map_flags flags =
     (if map_flags AND MAP_TYPE = MAP_SHARED then
        if flags AND (VM_GROWSDOWN OR VM_GROWSUP) \<noteq> 0 then Inl (- EINVAL) else Inr (flags OR (VM_SHARED OR VM_MAYSHARE), 0)
      else if map_flags AND MAP_TYPE = MAP_PRIVATE then Inr (flags, drop_bit 12 addr)
      else Inl (- EINVAL))"

text \<open>
  \<open>do_task_mmap\<close> once the address is chosen.  The result is the address or error, the length to
  populate and the new state.
\<close>

definition do_task_mmap_at ::
    "mm_env \<Rightarrow> file_ptr option \<Rightarrow> 64 word \<Rightarrow> 64 word \<Rightarrow> 64 word \<Rightarrow> 64 word \<Rightarrow> 64 word \<Rightarrow> 64 word \<Rightarrow>
     mmst \<Rightarrow> (64 word \<times> 64 word \<times> mmst) option" where
  "do_task_mmap_at E f addr len prot map_flags flags pgoff s =
     (let pkey = (if prot = PROT_EXEC then let k = execute_only_pkey E (st_mm s) in if k < 0 then 0 else k else 0);
          flags = flags OR calc_vm_prot_bits E prot pkey OR calc_vm_flag_bits E map_flags OR def_flags (st_mm s) OR
                  VM_MAYREAD OR VM_MAYWRITE OR VM_MAYEXEC
      in if map_flags AND MAP_LOCKED \<noteq> 0 \<and> \<not> can_do_mlock E then Some (ulong (- EPERM), 0, s)
         else if mlock_future_check E (st_mm s) flags len \<noteq> 0 then Some (ulong (- EAGAIN), 0, s)
         else case (case f of
                      Some g \<Rightarrow> map_sum id (\<lambda>fl. (fl, pgoff)) (mmap_file_flags E g prot map_flags flags s)
                    | None \<Rightarrow> mmap_anon_flags addr map_flags flags) of
                Inl error \<Rightarrow> Some (ulong error, 0, s)
              | Inr (flags, pgoff) \<Rightarrow>
                  let noreserve = map_flags AND MAP_NORESERVE \<noteq> 0 \<and>
                        (\<not> overcommit_never E \<or> (case f of None \<Rightarrow> False | Some g \<Rightarrow> is_file_hugepages E g));
                      flags = (if noreserve then flags OR VM_NORESERVE else flags)
                  in do {
                    (addr, s) \<leftarrow> mmap_task_region E f addr len flags pgoff s;
                    Some (addr,
                          if \<not> IS_ERR_VALUE addr \<and>
                             (flags AND VM_LOCKED \<noteq> 0 \<or> map_flags AND (MAP_POPULATE OR MAP_NONBLOCK) = MAP_POPULATE)
                          then len else 0,
                          s)
                  })"

definition do_task_mmap ::
    "mm_env \<Rightarrow> 64 word \<Rightarrow> file_ptr option \<Rightarrow> 64 word \<Rightarrow> 64 word \<Rightarrow> 64 word \<Rightarrow> 64 word \<Rightarrow> 64 word \<Rightarrow> 64 word \<Rightarrow>
     mmst \<Rightarrow> (64 word \<times> 64 word \<times> mmst) option" where
  "do_task_mmap E pers f addr len prot map_flags flags pgoff s =
     (if len = 0 then Some (ulong (- EINVAL), 0, s)
      else
        let prot = (if prot AND PROT_READ \<noteq> 0 \<and> pers AND READ_IMPLIES_EXEC \<noteq> 0 \<and>
                       \<not> (case f of None \<Rightarrow> False | Some g \<Rightarrow> path_noexec E g) then prot OR PROT_EXEC else prot);
            addr = (if map_flags AND MAP_FIXED = 0 then round_hint_to_min E addr else addr);
            len = PAGE_ALIGN len
        in if len = 0 then Some (ulong (- ENOMEM), 0, s)
           else if pgoff + drop_bit 12 len < pgoff then Some (ulong (- EOVERFLOW), 0, s)
           else if map_count (st_mm s) > sysctl_max_map_count E then Some (ulong (- ENOMEM), 0, s)
           else let addr = get_task_unmapped_area E f addr len pgoff map_flags s
           in if offset_in_page addr \<noteq> 0 then Some (addr, 0, s)
              else do_task_mmap_at E f addr len prot map_flags flags pgoff s)"

definition do_mmap ::
    "mm_env \<Rightarrow> 64 word \<Rightarrow> file_ptr option \<Rightarrow> 64 word \<Rightarrow> 64 word \<Rightarrow> 64 word \<Rightarrow> 64 word \<Rightarrow> 64 word \<Rightarrow> 64 word \<Rightarrow>
     mmst \<Rightarrow> (64 word \<times> 64 word \<times> mmst) option" where
  "do_mmap E pers f addr len prot map_flags flags pgoff s = do_task_mmap E pers f addr len prot map_flags flags pgoff s"

section \<open>Callers\<close>

text \<open>Whose pages \<open>mm_populate\<close> and \<open>mm_populate_task\<close> are asked to fault in.\<close>

datatype populate = Populate_nothing | Populate_current "64 word" "64 word" | Populate_task "64 word" "64 word"

definition vm_mmap_pgoff ::
    "mm_env \<Rightarrow> 64 word \<Rightarrow> file_ptr option \<Rightarrow> 64 word \<Rightarrow> 64 word \<Rightarrow> 64 word \<Rightarrow> 64 word \<Rightarrow> 64 word \<Rightarrow>
     mmst \<Rightarrow> (64 word \<times> populate \<times> mmst) option" where
  "vm_mmap_pgoff E pers f addr len prot map_flags pgoff s =
     (let ret = security_mmap_file E f prot map_flags
      in if ret \<noteq> 0 then Some (ulong ret, Populate_nothing, s)
         else if mmap_sem_killed E then Some (ulong (- EINTR), Populate_nothing, s)
         else do {
           (ret, pop, s) \<leftarrow> do_mmap E pers f addr len prot map_flags 0 pgoff s;
           Some (ret, if pop \<noteq> 0 then Populate_current ret pop else Populate_nothing, s)
         })"

definition vm_mmap ::
    "mm_env \<Rightarrow> 64 word \<Rightarrow> file_ptr option \<Rightarrow> 64 word \<Rightarrow> 64 word \<Rightarrow> 64 word \<Rightarrow> 64 word \<Rightarrow> 64 word \<Rightarrow>
     mmst \<Rightarrow> (64 word \<times> populate \<times> mmst) option" where
  "vm_mmap E pers f addr len prot map_flags offset s =
     (if offset + PAGE_ALIGN len < offset then Some (ulong (- EINVAL), Populate_nothing, s)
      else if offset_in_page offset \<noteq> 0 then Some (ulong (- EINVAL), Populate_nothing, s)
      else vm_mmap_pgoff E pers f addr len prot map_flags (drop_bit 12 offset) s)"

definition vm_mmap_remote ::
    "mm_env \<Rightarrow> 64 word \<Rightarrow> file_ptr option \<Rightarrow> 64 word \<Rightarrow> 64 word \<Rightarrow> 64 word \<Rightarrow> 64 word \<Rightarrow> 64 word \<Rightarrow>
     mmst \<Rightarrow> (64 word \<times> populate \<times> mmst) option" where
  "vm_mmap_remote E pers f addr len prot map_flags offset s =
     (if offset + PAGE_ALIGN len < offset then Some (ulong (- EINVAL), Populate_nothing, s)
      else if offset_in_page offset \<noteq> 0 then Some (ulong (- EINVAL), Populate_nothing, s)
      else let ret = security_mmap_file E f prot map_flags
      in if ret \<noteq> 0 then Some (ulong ret, Populate_nothing, s)
         else if mmap_sem_killed E then Some (ulong (- EINTR), Populate_nothing, s)
         else do {
           (ret, pop, s) \<leftarrow> do_task_mmap E pers f addr len prot map_flags 0 (drop_bit 12 offset) s;
           Some (ret, if pop \<noteq> 0 then Populate_current ret pop else Populate_nothing, s)
         })"

text \<open>
  The file of a request that names a descriptor of the current task or asks for huge pages, with the
  length rounded for it; the reference taken here is dropped at the end.
\<close>

definition mmap_get_file ::
    "mm_env \<Rightarrow> files_struct \<Rightarrow> 64 word \<Rightarrow> 64 word \<Rightarrow> 64 word \<Rightarrow> mmst \<Rightarrow> ((int + file_ptr option \<times> 64 word) \<times> mmst) option" where
  "mmap_get_file E cur_files len map_flags fd s =
     (if map_flags AND MAP_ANONYMOUS = 0 then do {
        (f, h) \<leftarrow> fget cur_files (st_heap s) (unat (take_bit 32 fd));
        case f of
          None \<Rightarrow> Some (Inl (- EBADF), s\<lparr>st_heap := h\<rparr>)
        | Some g \<Rightarrow>
            let len = (if is_file_hugepages E g then (len + (huge_page_size E g - 1)) AND NOT (huge_page_size E g - 1) else len)
            in if map_flags AND MAP_HUGETLB \<noteq> 0 \<and> \<not> is_file_hugepages E g
               then Some (Inl (- EINVAL), s\<lparr>st_heap := fput (vfs E) g h\<rparr>)
               else Some (Inr (Some g, len), s\<lparr>st_heap := h\<rparr>)
      }
      else if map_flags AND MAP_HUGETLB \<noteq> 0 then
        case hstate_sizelog E (drop_bit 26 map_flags AND 0x3f) of
          None \<Rightarrow> Some (Inl (- EINVAL), s)
        | Some sz \<Rightarrow>
            let len = (len + (sz - 1)) AND NOT (sz - 1);
                (r, h) = hugetlb_file_setup E len (drop_bit 26 map_flags AND 0x3f) (st_heap s)
            in (case r of
                  Inl e \<Rightarrow> Some (Inl e, s\<lparr>st_heap := h\<rparr>)
                | Inr g \<Rightarrow> Some (Inr (Some g, len), s\<lparr>st_heap := h\<rparr>))
      else Some (Inr (None, len), s))"

definition do_mmap_remote ::
    "mm_env \<Rightarrow> files_struct \<Rightarrow> 64 word \<Rightarrow> 64 word \<Rightarrow> 64 word \<Rightarrow> 64 word \<Rightarrow> 64 word \<Rightarrow> 64 word \<Rightarrow> 64 word \<Rightarrow>
     mmst \<Rightarrow> (64 word \<times> populate \<times> mmst) option" where
  "do_mmap_remote E cur_files pers addr len prot map_flags fd offset s = do {
     (r, s) \<leftarrow> mmap_get_file E cur_files len map_flags fd s;
     case r of
       Inl e \<Rightarrow> Some (ulong e, Populate_nothing, s)
     | Inr (f, len) \<Rightarrow> do {
         (ret, pop, s) \<leftarrow> vm_mmap_remote E pers f addr len prot (map_flags AND NOT (MAP_EXECUTABLE OR MAP_DENYWRITE)) offset s;
         Some (ret, pop, case f of None \<Rightarrow> s | Some g \<Rightarrow> s\<lparr>st_heap := fput (vfs E) g (st_heap s)\<rparr>)
       }
   }"

definition sys_mmap_pgoff ::
    "mm_env \<Rightarrow> files_struct \<Rightarrow> 64 word \<Rightarrow> 64 word \<Rightarrow> 64 word \<Rightarrow> 64 word \<Rightarrow> 64 word \<Rightarrow> 64 word \<Rightarrow> 64 word \<Rightarrow>
     mmst \<Rightarrow> (64 word \<times> populate \<times> mmst) option" where
  "sys_mmap_pgoff E cur_files pers addr len prot map_flags fd pgoff s = do {
     (r, s) \<leftarrow> mmap_get_file E cur_files len map_flags fd s;
     case r of
       Inl e \<Rightarrow> Some (ulong e, Populate_nothing, s)
     | Inr (f, len) \<Rightarrow> do {
         (ret, pop, s) \<leftarrow> vm_mmap_pgoff E pers f addr len prot (map_flags AND NOT (MAP_EXECUTABLE OR MAP_DENYWRITE)) pgoff s;
         Some (ret, pop, case f of None \<Rightarrow> s | Some g \<Rightarrow> s\<lparr>st_heap := fput (vfs E) g (st_heap s)\<rparr>)
       }
   }"

section \<open>The heap\<close>

definition check_data_rlimit :: "64 word \<Rightarrow> 64 word \<Rightarrow> 64 word \<Rightarrow> 64 word \<Rightarrow> 64 word \<Rightarrow> bool" where
  "check_data_rlimit rlim new start data_end data_start \<longleftrightarrow>
     rlim < RLIM_INFINITY \<and> (new - start) + (data_end - data_start) > rlim"

definition do_brk :: "mm_env \<Rightarrow> 64 word \<Rightarrow> 64 word \<Rightarrow> mmst \<Rightarrow> (int \<times> mmst) option" where
  "do_brk E addr request s =
     (let len = PAGE_ALIGN request
      in if len < request then Some (- ENOMEM, s)
         else if len = 0 then Some (0, s)
         else
           let flags = VM_DATA_DEFAULT_FLAGS E OR VM_ACCOUNT OR def_flags (st_mm s);
               error = get_unmapped_area E None addr len 0 MAP_FIXED s
           in if offset_in_page error \<noteq> 0 then Some (sint (ucast error :: 32 word), s)
              else if mlock_future_check E (st_mm s) (def_flags (st_mm s)) len \<noteq> 0
              then Some (mlock_future_check E (st_mm s) (def_flags (st_mm s)) len, s)
              else do {
                (place, s) \<leftarrow> clear_old_maps E addr len s;
                case place of
                  None \<Rightarrow> Some (- ENOMEM, s)
                | Some ln \<Rightarrow>
                    if \<not> may_expand_vm E (st_mm s) flags (drop_bit 12 len) then Some (- ENOMEM, s)
                    else if map_count (st_mm s) > sysctl_max_map_count E then Some (- ENOMEM, s)
                    else let (error, s) = security_vm_enough_memory_mm E s (drop_bit 12 len)
                    in if error \<noteq> 0 then Some (- ENOMEM, s)
                       else do {
                         (vma, s) \<leftarrow> vma_merge E (ln_prev ln) addr (addr + len) flags None None (drop_bit 12 addr) 0 0 s;
                         let out = (\<lambda>p s.
                               let mm = st_mm s;
                                   mm = mm\<lparr>total_vm := total_vm mm + drop_bit 12 len, data_vm := data_vm mm + drop_bit 12 len\<rparr>;
                                   mm = (if flags AND VM_LOCKED \<noteq> 0 then mm\<lparr>locked_vm := locked_vm mm + drop_bit 12 len\<rparr> else mm)
                               in Some (0, s\<lparr>st_mm := upd_vma p (\<lambda>v. v\<lparr>vm_flags := vm_flags v OR VM_SOFTDIRTY\<rparr>) mm\<rparr>))
                         in case vma of
                              Some p \<Rightarrow> out p s
                            | None \<Rightarrow> (case kmem_cache_alloc E s of
                                None \<Rightarrow> Some (- ENOMEM, vm_unacct_memory (drop_bit 12 len) s)
                              | Some q \<Rightarrow> out q (vma_link E (blank_vma E q addr len flags (drop_bit 12 addr)) ln s))
                       }
              })"

definition vm_brk :: "mm_env \<Rightarrow> 64 word \<Rightarrow> 64 word \<Rightarrow> mmst \<Rightarrow> (int \<times> populate \<times> mmst) option" where
  "vm_brk E addr len s =
     (if mmap_sem_killed E then Some (- EINTR, Populate_nothing, s)
      else do {
        (ret, s) \<leftarrow> do_brk E addr len s;
        Some (ret, if def_flags (st_mm s) AND VM_LOCKED \<noteq> 0 \<and> ret = 0 then Populate_current addr len else Populate_nothing, s)
      })"

text \<open>Without \<open>CONFIG_COMPAT_BRK\<close>.\<close>

definition sys_brk :: "mm_env \<Rightarrow> 64 word \<Rightarrow> mmst \<Rightarrow> (64 word \<times> populate \<times> mmst) option" where
  "sys_brk E new s =
     (if mmap_sem_killed E then Some (ulong (- EINTR), Populate_nothing, s)
      else
        let mm = st_mm s;
            out = (\<lambda>s. Some (brk (st_mm s), Populate_nothing, s));
            newbrk = PAGE_ALIGN new;
            oldbrk = PAGE_ALIGN (brk mm);
            set_brk = (\<lambda>s.
              let s = s\<lparr>st_mm := (st_mm s)\<lparr>brk := new\<rparr>\<rparr>
              in Some (new, if newbrk > oldbrk \<and> def_flags (st_mm s) AND VM_LOCKED \<noteq> 0
                            then Populate_current oldbrk (newbrk - oldbrk) else Populate_nothing, s))
        in if new < start_brk mm then out s
           else if check_data_rlimit (rlimit_data E) new (start_brk mm) (end_data mm) (start_data mm) then out s
           else if oldbrk = newbrk then set_brk s
           else if new \<le> brk mm then do {
             (r, s) \<leftarrow> do_munmap E newbrk (oldbrk - newbrk) s;
             if r = 0 then set_brk s else out s
           }
           else if find_vma_intersection E mm oldbrk (newbrk + 0x1000) \<noteq> None then out s
           else do {
             (r, s) \<leftarrow> do_brk E oldbrk (newbrk - oldbrk) s;
             if r < 0 then out s else set_brk s
           })"


section \<open>Counting mapped pages\<close>

text \<open>The number of mapped pages is determined by which addresses are mapped.\<close>

definition view_pages :: "(64 word \<Rightarrow> 'a option) \<Rightarrow> 64 word" where
  "view_pages m = of_nat (card {k :: nat. k < 2 ^ 52 \<and> m (of_nat (k * 4096)) \<noteq> None})"

lemma unat_page: "k < 2 ^ 52 \<Longrightarrow> unat (of_nat (k * 4096) :: 64 word) = k * 4096"
  by (simp only: unsigned_of_nat of_nat_id) (rule take_bit_nat_eq_self, simp)

lemma page_in_range:
  assumes "aligned a" "aligned b" "k < 2 ^ 52"
  shows "a \<le> of_nat (k * 4096) \<and> of_nat (k * 4096) < b \<longleftrightarrow> unat a div 4096 \<le> k \<and> k < unat b div 4096"
proof -
  have "unat a = 4096 * (unat a div 4096)" "unat b = 4096 * (unat b div 4096)" using assms(1,2) by (auto simp: aligned_unat)
  then show ?thesis unfolding word_le_nat_alt word_less_nat_alt unat_page [OF assms(3)] by linarith
qed

lemma range_pages:
  assumes "aligned a" "aligned b" "a \<le> b"
  shows "of_nat (card {k :: nat. k < 2 ^ 52 \<and> a \<le> of_nat (k * 4096) \<and> of_nat (k * 4096) < b}) = drop_bit 12 (b - a)"
proof -
  have "unat b < 2 ^ LENGTH(64)" by (rule unsigned_less)
  then have lt: "unat b div 4096 < 2 ^ 52" by simp
  have "(k < 2 ^ 52 \<and> a \<le> of_nat (k * 4096) \<and> of_nat (k * 4096) < b) \<longleftrightarrow> unat a div 4096 \<le> k \<and> k < unat b div 4096" for k
  proof (cases "k < 2 ^ 52")
    case True
    then show ?thesis using page_in_range [OF assms(1,2) True] by blast
  next
    case False
    then show ?thesis using lt order.strict_trans by blast
  qed
  then have "{k :: nat. k < 2 ^ 52 \<and> a \<le> of_nat (k * 4096) \<and> of_nat (k * 4096) < b} = {unat a div 4096..<unat b div 4096}"
    by (simp only: atLeastLessThan_def atLeast_def lessThan_def Collect_conj_eq [symmetric])
  moreover have "unat b - unat a = 4096 * (unat b div 4096 - unat a div 4096)"
  proof -
    have "unat a = 4096 * (unat a div 4096)" "unat b = 4096 * (unat b div 4096)" using assms(1,2) by (auto simp: aligned_unat)
    then show ?thesis by linarith
  qed
  then have "unat (drop_bit 12 (b - a)) = unat b div 4096 - unat a div 4096"
    by (simp add: unat_drop12 unat_minus_le [OF assms(3)])
  ultimately show ?thesis by (metis card_atLeastLessThan of_nat_unat ucast_id)
qed

lemma view_pages_add:
  assumes "aligned a" "aligned b" "a \<le> b" "\<And>x. a \<le> x \<Longrightarrow> x < b \<Longrightarrow> m x = None"
  shows "view_pages (\<lambda>x. if a \<le> x \<and> x < b then Some (g x) else m x) = view_pages m + drop_bit 12 (b - a)"
proof -
  let ?R = "{k :: nat. k < 2 ^ 52 \<and> a \<le> of_nat (k * 4096) \<and> of_nat (k * 4096) < b}"
  let ?M = "{k :: nat. k < 2 ^ 52 \<and> m (of_nat (k * 4096)) \<noteq> None}"
  have "{k :: nat. k < 2 ^ 52 \<and> (if a \<le> of_nat (k * 4096) \<and> of_nat (k * 4096) < b then Some (g (of_nat (k * 4096))) else m (of_nat (k * 4096))) \<noteq> None}
      = ?R \<union> ?M" by auto
  moreover have "?R \<inter> ?M = {}" using assms(4) by auto
  moreover have "finite ?R" "finite ?M" by simp_all
  ultimately show ?thesis unfolding view_pages_def using range_pages [OF assms(1-3)] by (simp add: card_Un_disjoint)
qed

lemma view_pages_cong: "(\<And>x. (m x = None) = (m' x = None)) \<Longrightarrow> view_pages m = view_pages m'"
  by (simp add: view_pages_def)

lemma pages_of_view: "areas_ok vs \<Longrightarrow> pages_of vs = view_pages (view_of vs)"
proof (induction vs)
  case Nil
  then show ?case by (simp add: view_pages_def)
next
  case (Cons v vs)
  then have v: "aligned (vm_start v)" "aligned (vm_end v)" "vm_start v \<le> vm_end v" "areas_ok vs" "\<forall>w\<in>set vs. vm_end v \<le> vm_start w"
    by (auto simp: areas_ok_Cons area_ok_def)
  have "view_of vs x = None" if "x < vm_end v" for x using v(5) that by (force simp: view_of_None vma_covers_def)
  then have "view_pages (\<lambda>x. if vm_start v \<le> x \<and> x < vm_end v then Some (page_attr v x) else view_of vs x) = view_pages (view_of vs) + vma_pages v"
    unfolding vma_pages_def by (intro view_pages_add v) auto
  moreover have "view_of (v # vs) = (\<lambda>x. if vm_start v \<le> x \<and> x < vm_end v then Some (page_attr v x) else view_of vs x)"
    by (simp add: fun_eq_iff vma_covers_def)
  ultimately show ?case using Cons.IH [OF v(4)] by (simp add: add.commute)
qed

section \<open>Changing the flags of an area\<close>

lemma bal_retag:
  assumes "st_heap s' = st_heap s" "st_spaces s' = st_spaces s" "mmap (st_mm s) = pre @ v # post" "mmap (st_mm s') = pre @ v' # post"
    "vm_file v' = vm_file v" "vm_flags v' AND VM_SHARED = vm_flags v AND VM_SHARED" "vm_flags v' AND VM_DENYWRITE = vm_flags v AND VM_DENYWRITE"
  shows "bal E s' = bal E s"
  using assms(5-7) unfolding bal_def assms(1-4) by (auto simp: vma_tag_def shared_in_def denies_in_def fun_eq_iff)

lemma set_page_prot_fields [simp]:
  "vm_id (vma_set_page_prot E v) = vm_id v" "vm_start (vma_set_page_prot E v) = vm_start v" "vm_end (vma_set_page_prot E v) = vm_end v"
  "vm_flags (vma_set_page_prot E v) = vm_flags v" "vm_file (vma_set_page_prot E v) = vm_file v" "vm_pgoff (vma_set_page_prot E v) = vm_pgoff v"
  by (simp_all add: vma_set_page_prot_def Let_def)

lemma mm_ok_retag:
  assumes "mm_ok mm" "mmap mm = pre @ v # post" "mmap mm' = pre @ v' # post" "mm_rb mm' = mm_rb mm" "map_count mm' = map_count mm"
    "highest_vm_end mm' = highest_vm_end mm" "vm_id v' = vm_id v" "vm_start v' = vm_start v" "vm_end v' = vm_end v"
  shows "mm_ok mm'"
proof -
  have "area_ok v' = area_ok v" using assms by (simp add: area_ok_def)
  moreover have "highest_end (pre @ v' # post) = highest_end (pre @ v # post)" using assms(9) by (cases "post = []") (simp_all add: highest_end_def)
  ultimately show ?thesis using assms by (auto simp: mm_ok_def tree_ok_def areas_ok_append areas_ok_Cons)
qed

lemma view_retag:
  assumes "vm_start v' = vm_start v" "vm_end v' = vm_end v" "vm_pgoff v' = vm_pgoff v" "vm_file v' = vm_file v"
    "vm_flags v' AND NOT VM_SOFTDIRTY = vm_flags v AND NOT VM_SOFTDIRTY"
  shows "view_of (pre @ v' # post) = view_of (pre @ v # post)"
proof -
  have "vma_covers v' = vma_covers v" "page_attr v' = page_attr v" using assms by (auto simp: fun_eq_iff vma_covers_def page_attr_def)
  then show ?thesis by (simp add: fun_eq_iff view_of_append split: option.split)
qed


section \<open>Clearing old mappings\<close>

definition region_ok :: "mm_env \<Rightarrow> 64 word \<Rightarrow> 64 word \<Rightarrow> bool" where
  "region_ok E addr len \<longleftrightarrow> aligned addr \<and> aligned len \<and> len \<noteq> 0 \<and> len \<le> TASK_SIZE E \<and> addr \<le> TASK_SIZE E - len"

lemma PAGE_ALIGN_aligned: "aligned len \<Longrightarrow> len \<le> 0x8000000000000000 \<Longrightarrow> PAGE_ALIGN len = len"
proof -
  assume a: "aligned len" "len \<le> 0x8000000000000000"
  obtain q where q: "unat len = 4096 * q" using a(1) by (auto simp: aligned_unat)
  have "unat (PAGE_ALIGN len) = unat len" unfolding PAGE_ALIGN_unat [OF a(2)] by (simp add: q)
  then show ?thesis by (rule word_unat_eq_iff [THEN iffD2])
qed

lemma region_okD:
  assumes "mm_env_ok E" "region_ok E addr len"
  shows "aligned addr" "aligned len" "len \<noteq> 0" "PAGE_ALIGN len = len" "addr < addr + len" "addr + len \<le> TASK_SIZE E" "aligned (addr + len)"
    "\<not> IS_ERR_VALUE addr" "addr + len - addr = len"
proof -
  note ee = mm_env_okD [OF assms(1)]
  show r: "aligned addr" "aligned len" "len \<noteq> 0" using assms(2) by (auto simp: region_ok_def)
  have le: "len \<le> TASK_SIZE E" "addr \<le> TASK_SIZE E - len" using assms(2) by (auto simp: region_ok_def)
  have "len \<le> 0x8000000000000000" using le(1) ee(8) by simp
  then show p: "PAGE_ALIGN len = len" using r(2) by (rule PAGE_ALIGN_aligned [rotated])
  have a: "addr \<le> TASK_SIZE E" "len \<le> TASK_SIZE E - addr" using le by unat_arith+
  note b = PAGE_ALIGN_bounds [OF ee(7,8) r(1) a, unfolded p]
  show "addr < addr + len" "addr + len \<le> TASK_SIZE E" "aligned (addr + len)" using b r(3) by auto
  show "\<not> IS_ERR_VALUE addr"
  proof
    assume e: "IS_ERR_VALUE addr"
    have "(- 4095 :: 64 word) \<le> 0x8000000000000000"
      by (rule order.trans [OF e [unfolded IS_ERR_VALUE_def] order.trans [OF a(1) ee(8)]])
    then show False by simp
  qed
qed simp

lemma view_None_free:
  assumes "areas_ok vs" "a < e"
  shows "(\<forall>x. a \<le> x \<and> x < e \<longrightarrow> view_of vs x = None) \<longleftrightarrow> (\<forall>v\<in>set vs. vm_end v \<le> a \<or> e \<le> vm_start v)"
proof
  assume h: "\<forall>x. a \<le> x \<and> x < e \<longrightarrow> view_of vs x = None"
  show "\<forall>v\<in>set vs. vm_end v \<le> a \<or> e \<le> vm_start v"
  proof (rule ccontr)
    assume "\<not> ?thesis"
    then obtain v where v: "v \<in> set vs" "a < vm_end v" "vm_start v < e" by (auto simp: not_le)
    have "vm_start v < vm_end v" using assms(1) v(1) by (auto simp: areas_ok_def area_ok_def)
    then have "vma_covers v (max a (vm_start v))" using v(2) by (simp add: vma_covers_def)
    moreover have "view_of vs (max a (vm_start v)) = None" using h v(3) assms(2) by auto
    ultimately show False using v(1) by (auto simp: view_of_None)
  qed
next
  assume "\<forall>v\<in>set vs. vm_end v \<le> a \<or> e \<le> vm_start v"
  then show "\<forall>x. a \<le> x \<and> x < e \<longrightarrow> view_of vs x = None" by (force simp: view_of_None vma_covers_def)
qed

definition clear_view :: "(64 word \<Rightarrow> 'a option) \<Rightarrow> 64 word \<Rightarrow> 64 word \<Rightarrow> 64 word \<Rightarrow> 'a option" where
  "clear_view m lo hi = (\<lambda>x. if lo \<le> x \<and> x < hi then None else m x)"

definition set_view :: "(64 word \<Rightarrow> 'a option) \<Rightarrow> 64 word \<Rightarrow> 64 word \<Rightarrow> (64 word \<Rightarrow> 'a) \<Rightarrow> 64 word \<Rightarrow> 'a option" where
  "set_view m lo hi g = (\<lambda>x. if lo \<le> x \<and> x < hi then Some (g x) else m x)"

lemma set_clear_view [simp]: "set_view (clear_view m lo hi) lo hi g = set_view m lo hi g"
  by (simp add: set_view_def clear_view_def fun_eq_iff)

lemma find_links_iff:
  assumes "mm_ok mm" "a < e"
  shows "(\<exists>ln. find_vma_links mm a e = Some ln) \<longleftrightarrow> clear_view (mm_view mm) a e = mm_view mm"
proof -
  have ok: "areas_ok (mmap mm)" "tree_ok mm" using assms(1) by (auto simp: mm_ok_def tree_ok_def)
  have "(\<exists>ln. find_vma_links mm a e = Some ln) \<longleftrightarrow> (\<forall>v\<in>set (mmap mm). vm_end v \<le> a \<or> e \<le> vm_start v)"
  proof
    assume "\<exists>ln. find_vma_links mm a e = Some ln"
    then obtain ln where "find_vma_links mm a e = Some ln" by blast
    then show "\<forall>v\<in>set (mmap mm). vm_end v \<le> a \<or> e \<le> vm_start v"
      by (rule find_vma_links_Some [OF ok(2)]) auto
  next
    assume "\<forall>v\<in>set (mmap mm). vm_end v \<le> a \<or> e \<le> vm_start v"
    from find_vma_links_exists [OF ok(2) this] show "\<exists>ln. find_vma_links mm a e = Some ln" by blast
  qed
  also have "\<dots> \<longleftrightarrow> (\<forall>x. a \<le> x \<and> x < e \<longrightarrow> view_of (mmap mm) x = None)" using view_None_free [OF ok(1) assms(2)] by simp
  also have "\<dots> \<longleftrightarrow> clear_view (mm_view mm) a e = mm_view mm" by (auto simp: clear_view_def mm_view_def fun_eq_iff)
  finally show ?thesis .
qed

lemma clear_old_maps_result:
  assumes mm: "mm_ok (st_mm s)" and E: "mm_env_ok E" and r: "region_ok E addr len"
  shows "\<exists>place s'. clear_old_maps E addr len s = Some (place, s') \<and> mm_step E s s' \<and>
    (case place of
       Some ln \<Rightarrow> find_vma_links (st_mm s') addr (addr + len) = Some ln \<and> mm_view (st_mm s') = clear_view (mm_view (st_mm s)) addr (addr + len)
     | None \<Rightarrow> mm_view (st_mm s') = mm_view (st_mm s))"
proof -
  note rd = region_okD [OF E r]
  show ?thesis
  proof (cases "find_vma_links (st_mm s) addr (addr + len)")
    case (Some ln)
    then have "clear_view (mm_view (st_mm s)) addr (addr + len) = mm_view (st_mm s)" using find_links_iff [OF mm rd(5)] by blast
    then show ?thesis using Some mm_step_refl [OF mm, of E] by (simp add: clear_old_maps.simps)
  next
    case None
    obtain r s1 where m: "do_munmap E addr len s = Some (r, s1)" "mm_step E s s1"
      "mm_view (st_mm s1) = (\<lambda>a. if r = 0 \<and> addr \<le> a \<and> a < addr + len then None else mm_view (st_mm s) a)"
      using do_munmap_result [OF mm E, of addr len, unfolded rd(4)] by blast
    show ?thesis
    proof (cases "r = 0")
      case False
      then have "clear_old_maps E addr len s = Some (None, s1)" using None m(1) by (simp add: clear_old_maps.simps)
      then show ?thesis using False m by simp
    next
      case True
      have mm1: "mm_ok (st_mm s1)" using m(2) by (simp add: mm_step_def)
      have v: "mm_view (st_mm s1) = clear_view (mm_view (st_mm s)) addr (addr + len)" using m(3) True by (simp add: clear_view_def)
      have "clear_view (mm_view (st_mm s1)) addr (addr + len) = mm_view (st_mm s1)" unfolding v by (simp add: clear_view_def fun_eq_iff)
      then obtain ln where ln: "find_vma_links (st_mm s1) addr (addr + len) = Some ln" using find_links_iff [OF mm1 rd(5)] by blast
      have "clear_old_maps E addr len s1 = Some (Some ln, s1)" using ln by (simp add: clear_old_maps.simps)
      then have "clear_old_maps E addr len s = Some (Some ln, s1)" using None m(1) True by (subst clear_old_maps.simps) simp
      then show ?thesis using m(2) v ln by auto
    qed
  qed
qed

section \<open>Linking a new area\<close>

lemma bal_link:
  assumes "\<And>g. f_count (st_heap s' g) = f_count (st_heap s g) + (if vm_file v = Some g then 1 else 0)"
    "\<And>m. i_mmap_writable (st_spaces s' m) = i_mmap_writable (st_spaces s m) + (if shared_in E m (vma_tag v) then 1 else 0)"
    "\<And>m. i_writecount (st_spaces s' m) = i_writecount (st_spaces s m) - (if denies_in E m (vma_tag v) then 1 else 0)"
    and m: "mmap (st_mm s) = xs @ ys" "mmap (st_mm s') = xs @ v # ys"
  shows "bal E s' = bal E s"
  unfolding bal_def m Let_def by (auto simp: assms(1-3) vma_tag_def fun_eq_iff)

lemma bal_counts:
  assumes "\<And>g. f_count (st_heap s' g) = f_count (st_heap s g)"
    "\<And>m. i_mmap_writable (st_spaces s' m) = i_mmap_writable (st_spaces s m)"
    "\<And>m. i_writecount (st_spaces s' m) = i_writecount (st_spaces s m)"
    and m: "mmap (st_mm s') = mmap (st_mm s)"
  shows "bal E s' = bal E s"
  unfolding bal_def m Let_def by (simp add: assms(1-3))

lemma raw_vma_link_file_spaces:
  "i_mmap_writable (st_spaces (raw_vma_link_file E v s) m) = i_mmap_writable (st_spaces s m) + (if shared_in E m (vma_tag v) then 1 else 0)"
  "i_writecount (st_spaces (raw_vma_link_file E v s) m) = i_writecount (st_spaces s m) - (if denies_in E m (vma_tag v) then 1 else 0)"
  by (auto simp: raw_vma_link_file_def upd_space_def Let_def shared_in_def denies_in_def vma_tag_def split: option.split)

lemma vma_link_result:
  assumes mm: "mm_ok (st_mm s)" and E: "rb_ok E" and ln: "find_vma_links (st_mm s) (vm_start v) (vm_end v) = Some ln"
    and v: "area_ok v" "\<forall>u\<in>set (mmap (st_mm s)). vm_id u \<noteq> vm_id v"
  obtains xs ys t where "mmap (st_mm s) = xs @ ys" "areas_ok (xs @ v # ys)" "inorder t = map vm_id (xs @ v # ys)"
    "vma_link E v ln s = (raw_vma_link_file E v s)\<lparr>st_mm := (st_mm s)\<lparr>mmap := xs @ v # ys, mm_rb := t,
       highest_vm_end := highest_end (xs @ v # ys), map_count := map_count (st_mm s) + 1\<rparr>\<rparr>"
    "\<forall>u\<in>set xs. vm_end u \<le> vm_start v" "\<forall>w\<in>set ys. vm_end v \<le> vm_start w"
proof -
  have tr: "tree_ok (st_mm s)" and hi: "highest_vm_end (st_mm s) = highest_end (mmap (st_mm s))" using mm by (auto simp: mm_ok_def)
  obtain xs ys t where xy: "mmap (st_mm s) = xs @ ys" "\<forall>u\<in>set xs. vm_end u \<le> vm_start v" "\<forall>w\<in>set ys. vm_end v \<le> vm_start w"
    and "ln_prev ln = (if xs = [] then None else Some (vm_id (last xs)))"
    and r: "raw_vma_link E v ln (st_mm s) = (st_mm s)\<lparr>mmap := xs @ v # ys, mm_rb := t,
       highest_vm_end := if ys = [] then vm_end v else highest_vm_end (st_mm s)\<rparr>"
      "inorder t = map vm_id (xs @ v # ys)" "areas_ok (xs @ v # ys)"
    by (rule raw_vma_link_result [OF tr E ln v])
  have h: "(if ys = [] then vm_end v else highest_vm_end (st_mm s)) = highest_end (xs @ v # ys)" using hi xy(1) by (simp add: highest_end_def)
  have f: "raw_vma_link_file E v (s\<lparr>st_mm := mm'\<rparr>) = (raw_vma_link_file E v s)\<lparr>st_mm := mm'\<rparr>" for mm'
    by (simp add: raw_vma_link_file_def upd_space_def Let_def split: option.split)
  have "vma_link E v ln s = (raw_vma_link_file E v s)\<lparr>st_mm := (st_mm s)\<lparr>mmap := xs @ v # ys, mm_rb := t,
       highest_vm_end := highest_end (xs @ v # ys), map_count := map_count (st_mm s) + 1\<rparr>\<rparr>"
    unfolding vma_link_def Let_def f r(1) h by simp
  then show ?thesis by (rule that [OF xy(1) r(3,2) _ xy(2,3)])
qed

lemma view_of_insert:
  assumes "\<forall>u\<in>set xs. vm_end u \<le> vm_start v" "\<forall>w\<in>set ys. vm_end v \<le> vm_start w" "area_ok v"
  shows "view_of (xs @ v # ys) = set_view (view_of (xs @ ys)) (vm_start v) (vm_end v) (page_attr v)"
proof
  fix a
  have "view_of xs a = None" if "vm_start v \<le> a" using assms(1) that by (force simp: view_of_None vma_covers_def)
  then show "view_of (xs @ v # ys) a = set_view (view_of (xs @ ys)) (vm_start v) (vm_end v) (page_attr v) a"
    by (auto simp: view_of_append set_view_def vma_covers_def split: option.split)
qed

end
