(* ===== verification/Mmap_Correct.thy ===== *)
theory Mmap_Correct
  imports Mmap
begin

text \<open>
  What \<open>mmap_task_region\<close>, \<open>do_task_mmap\<close>, \<open>vm_mmap_remote\<close> and \<open>do_mmap_remote\<close> do: they return, the
  address space stays well formed, the references to files and the counters of their inodes stay
  balanced, and the pages of the region, and no others, are mapped as asked.
\<close>

section \<open>What is assumed of files and of the accounting of memory\<close>

abbreviation (input) is_errno :: "int \<Rightarrow> bool" where "is_errno e \<equiv> - 4095 \<le> e \<and> e < 0"

text \<open>The flags of a mapping that the method of a file leaves alone.\<close>

abbreviation (input) VM_KEPT :: "64 word" where
  "VM_KEPT \<equiv> VM_READ OR VM_WRITE OR VM_EXEC OR VM_SHARED OR VM_DENYWRITE"

definition enough_memory_ok :: "mm_env \<Rightarrow> bool" where
  "enough_memory_ok E \<longleftrightarrow> (\<forall>s n. \<exists>c. snd (security_vm_enough_memory_mm E s n) = s\<lparr>vm_committed_as := c\<rparr>)"

definition mmap_files_ok :: "mm_env \<Rightarrow> bool" where
  "mmap_files_ok E \<longleftrightarrow>
     (\<forall>a e b. deny_write_access E a = (e, b) \<longrightarrow> (if e = 0 then b = a\<lparr>i_writecount := i_writecount a - 1\<rparr> else is_errno e)) \<and>
     (\<forall>a e b. mapping_map_writable E a = (e, b) \<longrightarrow> (if e = 0 then b = a\<lparr>i_mmap_writable := i_mmap_writable a + 1\<rparr> else is_errno e)) \<and>
     (\<forall>f v e w. f_op_mmap E f v = (e, w) \<longrightarrow>
        (if e = 0 then vm_id w = vm_id v \<and> vm_start w = vm_start v \<and> vm_end w = vm_end v \<and> vm_pgoff w = vm_pgoff v \<and> vm_file w = vm_file v \<and>
                       vm_flags w AND VM_KEPT = vm_flags v AND VM_KEPT
         else is_errno e)) \<and>
     (\<forall>v s e w t. shmem_zero_setup E v s = (e, w, t) \<longrightarrow>
        (if e = 0 then vm_id w = vm_id v \<and> vm_start w = vm_start v \<and> vm_end w = vm_end v \<and> vm_pgoff w = vm_pgoff v \<and> vm_flags w = vm_flags v \<and>
                       st_mm t = st_mm s \<and> st_cur t = st_cur s \<and> st_spaces t = st_spaces s \<and>
                       (\<exists>h. vm_file w = Some h \<and> (\<forall>g. f_count (st_heap t g) = f_count (st_heap s g) + (if h = g then 1 else 0)))
         else t = s \<and> is_errno e))"

definition mmap_env_ok :: "mm_env \<Rightarrow> bool" where
  "mmap_env_ok E \<longleftrightarrow> mm_env_ok E \<and> enough_memory_ok E \<and> mmap_files_ok E"

lemma denyD: "mmap_files_ok E \<Longrightarrow> deny_write_access E a = (e, b) \<Longrightarrow> if e = 0 then b = a\<lparr>i_writecount := i_writecount a - 1\<rparr> else is_errno e"
  and map_writableD: "mmap_files_ok E \<Longrightarrow> mapping_map_writable E a = (e, b) \<Longrightarrow> if e = 0 then b = a\<lparr>i_mmap_writable := i_mmap_writable a + 1\<rparr> else is_errno e"
  by (simp_all add: mmap_files_ok_def)

lemma f_op_mmapD:
  "mmap_files_ok E \<Longrightarrow> f_op_mmap E f v = (e, w) \<Longrightarrow>
     if e = 0 then vm_id w = vm_id v \<and> vm_start w = vm_start v \<and> vm_end w = vm_end v \<and> vm_pgoff w = vm_pgoff v \<and> vm_file w = vm_file v \<and>
                   vm_flags w AND VM_KEPT = vm_flags v AND VM_KEPT
     else is_errno e"
  unfolding mmap_files_ok_def by blast

lemma shmemD:
  "mmap_files_ok E \<Longrightarrow> shmem_zero_setup E v s = (e, w, t) \<Longrightarrow>
     if e = 0 then vm_id w = vm_id v \<and> vm_start w = vm_start v \<and> vm_end w = vm_end v \<and> vm_pgoff w = vm_pgoff v \<and> vm_flags w = vm_flags v \<and>
                   st_mm t = st_mm s \<and> st_cur t = st_cur s \<and> st_spaces t = st_spaces s \<and>
                   (\<exists>h. vm_file w = Some h \<and> (\<forall>g. f_count (st_heap t g) = f_count (st_heap s g) + (if h = g then 1 else 0)))
     else t = s \<and> is_errno e"
  unfolding mmap_files_ok_def by blast

section \<open>The end of mapping a region\<close>

lemma flags_kept: "(fl :: 64 word) AND VM_KEPT = fl' AND VM_KEPT \<Longrightarrow> fl AND VM_SHARED = fl' AND VM_SHARED \<and> fl AND VM_DENYWRITE = fl' AND VM_DENYWRITE"
proof -
  assume h: "fl AND VM_KEPT = fl' AND VM_KEPT"
  have "(fl AND VM_KEPT) AND VM_SHARED = (fl' AND VM_KEPT) AND VM_SHARED" "(fl AND VM_KEPT) AND VM_DENYWRITE = (fl' AND VM_KEPT) AND VM_DENYWRITE" using h by simp_all
  then show ?thesis by (simp add: and.assoc)
qed

lemma mmap_region_out_result:
  assumes mm: "mm_ok (st_mm s)" and sp: "mmap (st_mm s) = pre @ v # post"
    and clr: "clr = (flags AND VM_LOCKED \<noteq> 0 \<and> (flags AND VM_SPECIAL \<noteq> 0 \<or> vm_flags v AND VM_HUGETLB \<noteq> 0))"
  shows "\<exists>v'. mmap (st_mm (mmap_region_out E (vm_id v) flags len s)) = pre @ v' # post \<and>
      vm_id v' = vm_id v \<and> vm_start v' = vm_start v \<and> vm_end v' = vm_end v \<and> vm_pgoff v' = vm_pgoff v \<and> vm_file v' = vm_file v \<and>
      vm_flags v' = (if clr then vm_flags v AND NOT (VM_LOCKED OR VM_LOCKONFAULT) else vm_flags v) OR VM_SOFTDIRTY \<and>
      mm_ok (st_mm (mmap_region_out E (vm_id v) flags len s)) \<and> bal E (mmap_region_out E (vm_id v) flags len s) = bal E s \<and>
      st_cur (mmap_region_out E (vm_id v) flags len s) = st_cur s \<and>
      total_vm (st_mm (mmap_region_out E (vm_id v) flags len s)) = total_vm (st_mm s) + drop_bit 12 len"
proof -
  define mm1 where "mm1 = vm_stat_account flags (drop_bit 12 len) (st_mm s)"
  have mm1: "mm_ok mm1" "mmap mm1 = pre @ v # post" "mm_rb mm1 = mm_rb (st_mm s)" "total_vm mm1 = total_vm (st_mm s) + drop_bit 12 len"
    using mm sp by (simp_all add: mm1_def mm_ok_def tree_ok_def)
  note p1 = vma_positionI [OF _ mm1(2)]
  have ao: "areas_ok (mmap mm1)" using mm1(1) by (simp add: mm_ok_def tree_ok_def)
  have at: "vma_at mm1 (vm_id v) = v" by (rule vma_position_at(2) [OF p1 [OF ao]])
  define v1 where "v1 = (if clr then v\<lparr>vm_flags := vm_flags v AND NOT (VM_LOCKED OR VM_LOCKONFAULT)\<rparr> else v)"
  define mm2 where "mm2 = (if flags AND VM_LOCKED \<noteq> 0 then
                  if \<not> (flags AND VM_SPECIAL \<noteq> 0 \<or> vm_flags (vma_at mm1 (vm_id v)) AND VM_HUGETLB \<noteq> 0 \<or> get_gate_vma mm1 = Some (vm_id v))
                  then mm1\<lparr>locked_vm := locked_vm mm1 + drop_bit 12 len\<rparr>
                  else upd_vma (vm_id v) (\<lambda>v. v\<lparr>vm_flags := vm_flags v AND NOT (VM_LOCKED OR VM_LOCKONFAULT)\<rparr>) mm1
                else mm1)"
  have mm2: "mmap mm2 = pre @ v1 # post" "mm_rb mm2 = mm_rb mm1" "map_count mm2 = map_count mm1" "highest_vm_end mm2 = highest_vm_end mm1"
    "total_vm mm2 = total_vm mm1"
    by (auto simp: mm2_def v1_def clr at get_gate_vma_def mm1(2) vma_position_upd [OF p1 [OF ao]])
  have v1: "vm_id v1 = vm_id v" "vm_start v1 = vm_start v" "vm_end v1 = vm_end v" "vm_pgoff v1 = vm_pgoff v" "vm_file v1 = vm_file v"
    "vm_flags v1 = (if clr then vm_flags v AND NOT (VM_LOCKED OR VM_LOCKONFAULT) else vm_flags v)" by (simp_all add: v1_def)
  have ok2: "mm_ok mm2" by (rule mm_ok_retag [OF mm1(1,2) mm2(1-4)]) (simp_all add: v1)
  define v2 where "v2 = vma_set_page_prot E (v1\<lparr>vm_flags := vm_flags v1 OR VM_SOFTDIRTY\<rparr>)"
  define mm3 where "mm3 = upd_vma (vm_id v) (\<lambda>v. vma_set_page_prot E (v\<lparr>vm_flags := vm_flags v OR VM_SOFTDIRTY\<rparr>)) mm2"
  have pos2: "vma_position mm2 pre v1 post" by (rule vma_positionI [OF _ mm2(1)]) (use ok2 in \<open>simp add: mm_ok_def tree_ok_def\<close>)
  have mm3: "mmap mm3 = pre @ v2 # post"
    using vma_position_upd [OF pos2, of "\<lambda>v. vma_set_page_prot E (v\<lparr>vm_flags := vm_flags v OR VM_SOFTDIRTY\<rparr>)"] by (simp add: mm3_def v2_def v1)
  have ok3: "mm_ok mm3" by (rule mm_ok_retag [OF ok2 mm2(1) mm3]) (simp_all add: mm3_def v2_def)
  have run: "mmap_region_out E (vm_id v) flags len s = s\<lparr>st_mm := mm3\<rparr>"
    by (simp add: mmap_region_out_def Let_def mm1_def [symmetric] mm2_def [symmetric] mm3_def [symmetric])
  have fl: "vm_flags v2 AND VM_SHARED = vm_flags v AND VM_SHARED" "vm_flags v2 AND VM_DENYWRITE = vm_flags v AND VM_DENYWRITE"
    by (auto simp: v2_def v1 and.assoc bit.conj_disj_distrib2)
  have "bal E (s\<lparr>st_mm := mm3\<rparr>) = bal E s"
    by (rule bal_retag [where pre = pre and v = v and post = post and v' = v2]) (use sp mm3 fl in \<open>simp_all add: v2_def v1\<close>)
  then show ?thesis unfolding run using mm3 ok3 mm1(4) mm2(5) by (intro exI [of _ v2]) (simp add: v2_def v1 mm3_def)
qed


lemma mmap_region_out_fixed [simp]: "mm_fixed (st_mm (mmap_region_out E p flags len s)) = mm_fixed (st_mm s)"
  by (simp add: mmap_region_out_def Let_def)

lemma page_attr_range: "page_attr v = range_attr (vm_start v) (vm_flags v) (vm_file v) (vm_pgoff v)"
  by (simp add: fun_eq_iff page_attr_def range_attr_def)

lemma range_attr_flags: "fl AND NOT VM_SOFTDIRTY = fl' AND NOT VM_SOFTDIRTY \<Longrightarrow> range_attr a fl f pg = range_attr a fl' f pg"
  by (simp add: fun_eq_iff range_attr_def)

text \<open>
  A new area linked in, in a state whose counters are those of \<open>s0\<close> with the references of the area
  added, and everything after that.
\<close>

lemma link_out_result:
  assumes mm: "mm_ok (st_mm s0)" and E: "rb_ok E" and ln: "find_vma_links (st_mm s0) (vm_start v) (vm_end v) = Some ln"
    and v: "area_ok v" "\<forall>u\<in>set (mmap (st_mm s0)). vm_id u \<noteq> vm_id v" "vm_end v - vm_start v = len"
    and s: "st_mm s = st_mm s0" "st_mm s2 = st_mm (vma_link E v ln s)" "st_cur s2 = st_cur s0"
    and cnt: "\<And>g. f_count (st_heap s2 g) = f_count (st_heap s0 g) + (if vm_file v = Some g then 1 else 0)"
      "\<And>m. i_mmap_writable (st_spaces s2 m) = i_mmap_writable (st_spaces s0 m) + (if shared_in E m (vma_tag v) then 1 else 0)"
      "\<And>m. i_writecount (st_spaces s2 m) = i_writecount (st_spaces s0 m) - (if denies_in E m (vma_tag v) then 1 else 0)"
  shows "\<exists>fl. mm_step E s0 (mmap_region_out E (vm_id v) flags len s2) \<and> fl AND VM_KEPT = vm_flags v AND VM_KEPT \<and>
    mm_view (st_mm (mmap_region_out E (vm_id v) flags len s2)) =
      set_view (mm_view (st_mm s0)) (vm_start v) (vm_end v) (range_attr (vm_start v) fl (vm_file v) (vm_pgoff v))"
proof -
  have mms: "mm_ok (st_mm s)" "find_vma_links (st_mm s) (vm_start v) (vm_end v) = Some ln" "\<forall>u\<in>set (mmap (st_mm s)). vm_id u \<noteq> vm_id v"
    using mm ln v s(1) by simp_all
  obtain xs ys t where xy: "mmap (st_mm s) = xs @ ys" and ok: "areas_ok (xs @ v # ys)" and t: "inorder t = map vm_id (xs @ v # ys)"
    and link: "vma_link E v ln s = (raw_vma_link_file E v s)\<lparr>st_mm := (st_mm s)\<lparr>mmap := xs @ v # ys, mm_rb := t,
       highest_vm_end := highest_end (xs @ v # ys), map_count := map_count (st_mm s) + 1\<rparr>\<rparr>"
    and ord: "\<forall>u\<in>set xs. vm_end u \<le> vm_start v" "\<forall>w\<in>set ys. vm_end v \<le> vm_start w"
    by (rule vma_link_result [OF mms(1) E mms(2) v(1) mms(3)])
  have mm2: "mmap (st_mm s2) = xs @ v # ys" "mm_ok (st_mm s2)" "total_vm (st_mm s2) = total_vm (st_mm s0)" "mm_fixed (st_mm s2) = mm_fixed (st_mm s0)"
    using s ok t mms(1) xy unfolding link by (auto simp: mm_ok_def tree_ok_def)
  have b2: "bal E s2 = bal E s0" by (rule bal_link [OF cnt _ mm2(1)]) (use xy s(1) in simp_all)
  let ?s3 = "mmap_region_out E (vm_id v) flags len s2"
  obtain v' where v': "mmap (st_mm ?s3) = xs @ v' # ys" "vm_id v' = vm_id v" "vm_start v' = vm_start v" "vm_end v' = vm_end v"
    "vm_pgoff v' = vm_pgoff v" "vm_file v' = vm_file v" "mm_ok (st_mm ?s3)" "bal E ?s3 = bal E s2" "st_cur ?s3 = st_cur s2"
    "total_vm (st_mm ?s3) = total_vm (st_mm s2) + drop_bit 12 len"
    and fl: "\<exists>c. vm_flags v' = (if c then vm_flags v AND NOT (VM_LOCKED OR VM_LOCKONFAULT) else vm_flags v) OR VM_SOFTDIRTY"
    using mmap_region_out_result [OF mm2(2,1) refl, of E flags len] by blast
  have "vma_pages v' = drop_bit 12 len" using v'(3,4) v(3) by (simp add: vma_pages_def)
  then have tot: "total_vm (st_mm ?s3) - pages_of (mmap (st_mm ?s3)) = total_vm (st_mm s0) - pages_of (mmap (st_mm s0))"
    using mm2(3) v'(10) xy s(1) by (simp add: v'(1))
  have "vm_flags v' AND VM_KEPT = vm_flags v AND VM_KEPT" using fl by (auto simp: and.assoc bit.conj_disj_distrib2)
  moreover have "area_ok v'" using v(1) v' by (simp add: area_ok_def)
  then have "mm_view (st_mm ?s3) = set_view (mm_view (st_mm s0)) (vm_start v) (vm_end v) (range_attr (vm_start v) (vm_flags v') (vm_file v) (vm_pgoff v))"
    using view_of_insert [of xs v' ys] ord xy s(1) v' by (simp add: mm_view_def page_attr_range)
  ultimately show ?thesis using v' b2 s(3) tot mm2(4) by (intro exI [of _ "vm_flags v'"]) (simp add: mm_step_def)
qed

definition mapped_new :: "file_ptr option \<Rightarrow> 64 word \<Rightarrow> 64 word \<Rightarrow> 64 word \<Rightarrow> 64 word \<Rightarrow> mmst \<Rightarrow> mmst \<Rightarrow> bool" where
  "mapped_new f addr len flags pgoff s s' \<longleftrightarrow>
     (\<exists>fl g. mm_view (st_mm s') = set_view (mm_view (st_mm s)) addr (addr + len) (range_attr addr fl g pgoff) \<and>
        fl AND VM_KEPT = flags AND VM_KEPT \<and> (case f of Some h \<Rightarrow> g = Some h | None \<Rightarrow> flags AND VM_SHARED = 0 \<longrightarrow> g = None))"

lemma unacct_error_result:
  assumes "is_errno e" "mm_ok (st_mm s)" "st_mm t = (st_mm s)\<lparr>pgd := p\<rparr>" "st_cur t = st_cur s" "bal E t = bal E s"
  shows "\<exists>s'. unacct_error charged e t = (ulong e, s') \<and> mm_step E s s' \<and> IS_ERR_VALUE (ulong e) \<and> mm_view (st_mm s') = mm_view (st_mm s)"
proof -
  have "bal E (vm_unacct_memory n u) = bal E u" for n u by (rule bal_same) simp_all
  moreover have "mm_ok (st_mm t)" "mm_view (st_mm t) = mm_view (st_mm s)" using assms(2) unfolding assms(3) by (simp_all add: mm_ok_def tree_ok_def mm_view_def)
  ultimately show ?thesis using assms ulong_err(1) [of e] by (auto simp: unacct_error_def mm_step_def)
qed

lemma anon_area_result:
  assumes mm: "mm_ok (st_mm s)" and E: "mmap_env_ok E" and r: "region_ok E addr len" and ln: "find_vma_links (st_mm s) addr (addr + len) = Some ln"
    and q: "\<forall>u\<in>set (mmap (st_mm s)). vm_id u \<noteq> q"
  shows "\<exists>r s'. mmap_anon_area E len flags (blank_vma E q addr len flags pgoff) ln charged s = (r, s') \<and> mm_step E s s' \<and>
    (if IS_ERR_VALUE r then mm_view (st_mm s') = mm_view (st_mm s) else r = addr \<and> mapped_new None addr len flags pgoff s s')"
proof -
  have me: "mm_env_ok E" and mf: "mmap_files_ok E" using E by (auto simp: mmap_env_ok_def)
  note ee = mm_env_okD [OF me] and rd = region_okD [OF me r]
  let ?v = "blank_vma E q addr len flags pgoff"
  have v: "vm_start ?v = addr" "vm_end ?v = addr + len" "vm_id ?v = q" "vm_flags ?v = flags" "vm_pgoff ?v = pgoff" "vm_file ?v = None"
    by (simp_all add: blank_vma_def)
  obtain e w t where sh: "(if flags AND VM_SHARED \<noteq> 0 then shmem_zero_setup E ?v s else (0, ?v, s)) = (e, w, t)" by (metis prod_cases3)
  show ?thesis
  proof (cases "e = 0")
    case False
    then have "flags AND VM_SHARED \<noteq> 0" using sh by (auto split: if_splits)
    then have "t = s" "is_errno e" using sh shmemD [OF mf, of ?v s e w t] False by (auto split: if_splits)
    then show ?thesis
      using unacct_error_result [of e s t "pgd (st_mm s)" E charged] mm sh False by (auto simp: mmap_anon_area_def)
  next
    case True
    have w: "vm_id w = q" "vm_start w = addr" "vm_end w = addr + len" "vm_pgoff w = pgoff" "vm_flags w = flags"
      "st_mm t = st_mm s" "st_cur t = st_cur s" "st_spaces t = st_spaces s" "(vm_file w = None) = (flags AND VM_SHARED = 0)"
      "\<And>g. f_count (st_heap t g) = f_count (st_heap s g) + (if vm_file w = Some g then 1 else 0)"
      using sh True shmemD [OF mf, of ?v s e w t] v by (auto split: if_splits)
    have ao: "area_ok w" using w rd by (simp add: area_ok_def)
    have lw: "find_vma_links (st_mm s) (vm_start w) (vm_end w) = Some ln" using ln w by simp
    obtain fl where fl: "mm_step E s (mmap_region_out E (vm_id w) flags len (vma_link E w ln t))" "fl AND VM_KEPT = vm_flags w AND VM_KEPT"
      "mm_view (st_mm (mmap_region_out E (vm_id w) flags len (vma_link E w ln t))) =
        set_view (mm_view (st_mm s)) (vm_start w) (vm_end w) (range_attr (vm_start w) fl (vm_file w) (vm_pgoff w))"
      using link_out_result [OF mm ee(2) lw ao _ _ w(6) refl, of len flags] q w rd(9)
      by (auto simp: vma_link_def Let_def raw_vma_link_file_spaces)
    have "mmap_anon_area E len flags ?v ln charged s = (addr, mmap_region_out E (vm_id w) flags len (vma_link E w ln t))"
      using sh True w by (simp add: mmap_anon_area_def)
    moreover have "mapped_new None addr len flags pgoff s (mmap_region_out E (vm_id w) flags len (vma_link E w ln t))"
      unfolding mapped_new_def by (rule exI [of _ fl], rule exI [of _ "vm_file w"]) (use fl w in simp)
    ultimately show ?thesis using fl(1) rd(8) by simp
  qed
qed

lemma upd_space_simps [simp]:
  "st_mm (upd_space m f s) = st_mm s" "st_cur (upd_space m f s) = st_cur s" "st_heap (upd_space m f s) = st_heap s"
  "st_spaces (upd_space m f s) = (st_spaces s)(m := f (st_spaces s m))"
  by (simp_all add: upd_space_def)

lemma unmap_region_blank: "pgtables_ok E \<Longrightarrow> \<exists>t. unmap_region E [v\<lparr>vm_file := None\<rparr>] a e s = set_pgd t s"
  using unmap_region_pgd [of E "[v\<lparr>vm_file := None\<rparr>]" a e s] by (simp add: unlink_file_vma_def)

text \<open>While the method of a file runs, its inode is announced: denied to writers, and mapped writably.\<close>

definition announced :: "mm_env \<Rightarrow> file_ptr \<Rightarrow> 64 word \<Rightarrow> mmst \<Rightarrow> mmst \<Rightarrow> bool" where
  "announced E f flags s t \<longleftrightarrow> st_mm t = st_mm s \<and> st_cur t = st_cur s \<and> st_heap t = st_heap s \<and>
     (\<forall>m. st_spaces t m = (if m = f_mapping E f then
        \<lparr>i_writecount = i_writecount (st_spaces s m) - (if flags AND VM_DENYWRITE \<noteq> 0 then 1 else 0),
         i_mmap_writable = i_mmap_writable (st_spaces s m) + (if flags AND VM_SHARED \<noteq> 0 then 1 else 0)\<rparr> else st_spaces s m))"

lemma mmap_file_area_cases:
  assumes mm: "mm_ok (st_mm s)" and E: "mmap_env_ok E"
  shows "(\<exists>e s'. mmap_file_area E f len flags vma ln charged s = (ulong e, s') \<and> mm_step E s s' \<and> IS_ERR_VALUE (ulong e) \<and>
      mm_view (st_mm s') = mm_view (st_mm s)) \<or>
    (\<exists>t. announced E f flags s t \<and> mmap_file_area E f len flags vma ln charged s = mmap_file_call E f len flags vma ln t)"
proof -
  have mf: "mmap_files_ok E" using E by (simp add: mmap_env_ok_def)
  let ?m = "f_mapping E f"
  obtain e sp where d: "(if flags AND VM_DENYWRITE \<noteq> 0 then deny_write_access E (st_spaces s ?m) else (0, st_spaces s ?m)) = (e, sp)" by (meson surj_pair)
  define s1 where "s1 = upd_space ?m (\<lambda>_. sp) s"
  obtain e2 sp2 where w: "(if flags AND VM_SHARED \<noteq> 0 then mapping_map_writable E (st_spaces s1 ?m) else (0, st_spaces s1 ?m)) = (e2, sp2)" by (meson surj_pair)
  have run: "mmap_file_area E f len flags vma ln charged s =
      (if e \<noteq> 0 then unacct_error charged e s
       else if e2 \<noteq> 0 then allow_write_and_free_vma ?m flags charged e2 s1
       else mmap_file_call E f len flags vma ln (upd_space ?m (\<lambda>_. sp2) s1))"
    unfolding mmap_file_area_def Let_def d prod.case s1_def [symmetric] w by (rule refl)
  show ?thesis
  proof (cases "e = 0")
    case False
    then have "is_errno e" using d denyD [OF mf] by (auto split: if_splits)
    then show ?thesis using unacct_error_result [of e s s "pgd (st_mm s)" E charged] mm False run by auto
  next
    case e0: True
    have sp: "sp = (st_spaces s ?m)\<lparr>i_writecount := i_writecount (st_spaces s ?m) - (if flags AND VM_DENYWRITE \<noteq> 0 then 1 else 0)\<rparr>"
      using d e0 denyD [OF mf] by (auto split: if_splits)
    show ?thesis
    proof (cases "e2 = 0")
      case False
      then have er: "is_errno e2" using w map_writableD [OF mf] by (auto split: if_splits)
      let ?t = "if flags AND VM_DENYWRITE \<noteq> 0 then allow_write_access ?m s1 else s1"
      have "bal E ?t = bal E s" by (rule bal_counts) (auto simp: s1_def sp allow_write_access_def)
      then show ?thesis
        using unacct_error_result [OF er mm, of ?t "pgd (st_mm s)" E charged] e0 False unfolding run
        by (auto simp: allow_write_and_free_vma_def s1_def allow_write_access_def)
    next
      case True
      then have "sp2 = sp\<lparr>i_mmap_writable := i_mmap_writable sp + (if flags AND VM_SHARED \<noteq> 0 then 1 else 0)\<rparr>"
        using w map_writableD [OF mf] by (auto simp: s1_def split: if_splits)
      then have "announced E f flags s (upd_space ?m (\<lambda>_. sp2) s1)" by (auto simp: announced_def s1_def sp)
      then show ?thesis using e0 True run by auto
    qed
  qed
qed


lemma announced_bal_undo:
  assumes "announced E f flags s t" "mmap (st_mm u) = mmap (st_mm s)" "\<And>g. f_count (st_heap u g) = f_count (st_heap s g)" "st_spaces u = st_spaces t"
  defines "u1 \<equiv> (if flags AND VM_SHARED \<noteq> 0 then mapping_unmap_writable (f_mapping E f) u else u)"
  shows "bal E (if flags AND VM_DENYWRITE \<noteq> 0 then allow_write_access (f_mapping E f) u1 else u1) = bal E s"
  by (rule bal_counts) (use assms(1-4) in \<open>auto simp: u1_def announced_def mapping_unmap_writable_def allow_write_access_def\<close>)

lemma file_call_result:
  assumes mm: "mm_ok (st_mm s)" and E: "mmap_env_ok E" and r: "region_ok E addr len" and ln: "find_vma_links (st_mm s) addr (addr + len) = Some ln"
    and q: "\<forall>u\<in>set (mmap (st_mm s)). vm_id u \<noteq> q" and t: "announced E f flags s t"
  shows "\<exists>r s'. mmap_file_call E f len flags (blank_vma E q addr len flags pgoff) ln t = (r, s') \<and> mm_step E s s' \<and>
    (if IS_ERR_VALUE r then mm_view (st_mm s') = mm_view (st_mm s) else r = addr \<and> mapped_new (Some f) addr len flags pgoff s s')"
proof -
  have me: "mm_env_ok E" and mf: "mmap_files_ok E" using E by (auto simp: mmap_env_ok_def)
  note ee = mm_env_okD [OF me] and rd = region_okD [OF me r]
  let ?m = "f_mapping E f" and ?v = "(blank_vma E q addr len flags pgoff)\<lparr>vm_file := Some f\<rparr>" and ?t = "t\<lparr>st_heap := get_file f (st_heap t)\<rparr>"
  have v: "vm_start ?v = addr" "vm_end ?v = addr + len" "vm_id ?v = q" "vm_flags ?v = flags" "vm_pgoff ?v = pgoff" "vm_file ?v = Some f"
    by (simp_all add: blank_vma_def)
  have ts: "st_mm t = st_mm s" "st_cur t = st_cur s" "st_heap t = st_heap s" using t by (simp_all add: announced_def)
  obtain e w where op: "f_op_mmap E f ?v = (e, w)" by (meson surj_pair)
  show ?thesis
  proof (cases "e = 0")
    case False
    then have er: "is_errno e" using f_op_mmapD [OF mf op] by simp
    obtain p where p: "unmap_region E [w\<lparr>vm_file := None\<rparr>] (vm_start w) (vm_end w) (?t\<lparr>st_heap := fput (vfs E) f (st_heap ?t)\<rparr>) =
        set_pgd p (?t\<lparr>st_heap := fput (vfs E) f (st_heap ?t)\<rparr>)" using unmap_region_blank [OF ee(6)] by blast
    define u where "u = set_pgd p (?t\<lparr>st_heap := fput (vfs E) f (st_heap ?t)\<rparr>)"
    define u1 where "u1 = (if flags AND VM_SHARED \<noteq> 0 then mapping_unmap_writable ?m u else u)"
    define u2 where "u2 = (if flags AND VM_DENYWRITE \<noteq> 0 then allow_write_access ?m u1 else u1)"
    have cnt: "f_count (st_heap u g) = f_count (st_heap s g)" for g
      using vfs_okD(1) [OF ee(3)] ts by (simp add: u_def get_file_def)
    have "bal E u2 = bal E s" unfolding u2_def u1_def by (rule announced_bal_undo [OF t _ cnt]) (simp_all add: u_def ts)
    moreover have "st_mm u2 = (st_mm s)\<lparr>pgd := p\<rparr>" "st_cur u2 = st_cur s"
      by (simp_all add: u2_def u1_def u_def ts mapping_unmap_writable_def allow_write_access_def)
    ultimately obtain s' where "unacct_error 0 e u2 = (ulong e, s')" "mm_step E s s'" "IS_ERR_VALUE (ulong e)" "mm_view (st_mm s') = mm_view (st_mm s)"
      using unacct_error_result [OF er mm, of u2 p E 0] by blast
    moreover have "mmap_file_call E f len flags (blank_vma E q addr len flags pgoff) ln t = unacct_error 0 e u2"
      using False by (simp add: mmap_file_call_def Let_def op allow_write_and_free_vma_def p [simplified] u_def u1_def u2_def)
    ultimately show ?thesis by simp
  next
    case True
    have w: "vm_id w = q" "vm_start w = addr" "vm_end w = addr + len" "vm_pgoff w = pgoff" "vm_file w = Some f" "vm_flags w AND VM_KEPT = flags AND VM_KEPT"
      using f_op_mmapD [OF mf op] True v by simp_all
    have fl: "vm_flags w AND VM_SHARED = flags AND VM_SHARED" "vm_flags w AND VM_DENYWRITE = flags AND VM_DENYWRITE"
      using flags_kept [OF w(6)] by auto
    define u where "u = vma_link E w ln ?t"
    define u1 where "u1 = (if vm_flags w AND VM_SHARED \<noteq> 0 then mapping_unmap_writable ?m u else u)"
    define u2 where "u2 = (if vm_flags w AND VM_DENYWRITE \<noteq> 0 then allow_write_access ?m u1 else u1)"
    have u2: "st_mm u2 = st_mm u" "st_cur u2 = st_cur u" "st_heap u2 = st_heap u"
      by (simp_all add: u2_def u1_def mapping_unmap_writable_def allow_write_access_def)
    have us: "st_cur u = st_cur s" "st_heap u = get_file f (st_heap s)" "st_spaces u = st_spaces (raw_vma_link_file E w t)"
      by (simp_all add: u_def vma_link_def Let_def ts raw_vma_link_file_def upd_space_def w(5))
    have sp: "i_mmap_writable (st_spaces u2 m) = i_mmap_writable (st_spaces s m) + (if shared_in E m (vma_tag w) then 1 else 0)"
      "i_writecount (st_spaces u2 m) = i_writecount (st_spaces s m) - (if denies_in E m (vma_tag w) then 1 else 0)" for m
      using t fl w(5) unfolding u2_def u1_def
      by (auto simp: mapping_unmap_writable_def allow_write_access_def us raw_vma_link_file_spaces announced_def shared_in_def denies_in_def vma_tag_def)
    have ao: "area_ok w" using w rd by (simp add: area_ok_def)
    have lw: "find_vma_links (st_mm s) (vm_start w) (vm_end w) = Some ln" using ln w by simp
    have st: "st_mm ?t = st_mm s" "st_mm u2 = st_mm (vma_link E w ln ?t)" "st_cur u2 = st_cur s" using ts u2 us by (simp_all add: u_def)
    have cnt: "f_count (st_heap u2 g) = f_count (st_heap s g) + (if vm_file w = Some g then 1 else 0)" for g
      using u2 us w(5) by (simp add: get_file_def)
    have fr: "\<forall>u\<in>set (mmap (st_mm s)). vm_id u \<noteq> vm_id w" "vm_end w - vm_start w = len" using q w rd(9) by simp_all
    let ?s' = "mmap_region_out E (vm_id w) (vm_flags w) len u2"
    obtain k where k: "mm_step E s ?s'" "k AND VM_KEPT = vm_flags w AND VM_KEPT"
      "mm_view (st_mm ?s') = set_view (mm_view (st_mm s)) (vm_start w) (vm_end w) (range_attr (vm_start w) k (vm_file w) (vm_pgoff w))"
      using link_out_result [OF mm ee(2) lw ao fr st cnt sp, of "vm_flags w"] by blast
    have "mapped_new (Some f) addr len flags pgoff s ?s'"
      unfolding mapped_new_def by (rule exI [of _ k], rule exI [of _ "Some f"]) (use k w in simp)
    moreover have "mmap_file_call E f len flags (blank_vma E q addr len flags pgoff) ln t = (addr, ?s')"
      using True w(2) by (simp add: mmap_file_call_def Let_def op u_def u1_def u2_def)
    ultimately show ?thesis using k(1) rd(8) by simp
  qed
qed

lemma mmap_new_area_result:
  assumes mm: "mm_ok (st_mm s)" and E: "mmap_env_ok E" and r: "region_ok E addr len" and ln: "find_vma_links (st_mm s) addr (addr + len) = Some ln"
  shows "\<exists>r s'. mmap_new_area E f addr len flags pgoff ln charged s = (r, s') \<and> mm_step E s s' \<and>
    (if IS_ERR_VALUE r then mm_view (st_mm s') = mm_view (st_mm s) else r = addr \<and> mapped_new f addr len flags pgoff s s')"
proof (cases "kmem_cache_alloc E s")
  case None
  then show ?thesis using unacct_error_result [of "- ENOMEM" s s "pgd (st_mm s)" E charged] mm by (auto simp: mmap_new_area_def)
next
  case (Some q)
  then have q: "\<forall>u\<in>set (mmap (st_mm s)). vm_id u \<noteq> q" using E by (simp add: mmap_env_ok_def mm_env_ok_def alloc_ok_def)
  show ?thesis
  proof (cases f)
    case None
    then have "mmap_new_area E f addr len flags pgoff ln charged s = mmap_anon_area E len flags (blank_vma E q addr len flags pgoff) ln charged s"
      using Some by (simp add: mmap_new_area_def)
    then show ?thesis unfolding None by (simp only:) (rule anon_area_result [OF mm E r ln q])
  next
    case f: (Some g)
    have run: "mmap_new_area E (Some g) addr len flags pgoff ln charged s = mmap_file_area E g len flags (blank_vma E q addr len flags pgoff) ln charged s"
      using Some by (simp add: mmap_new_area_def)
    from mmap_file_area_cases [OF mm E, of g len flags "blank_vma E q addr len flags pgoff" ln charged]
    show ?thesis
    proof
      assume "\<exists>t. announced E g flags s t \<and> mmap_file_area E g len flags (blank_vma E q addr len flags pgoff) ln charged s =
        mmap_file_call E g len flags (blank_vma E q addr len flags pgoff) ln t"
      then obtain t where t: "announced E g flags s t" "mmap_file_area E g len flags (blank_vma E q addr len flags pgoff) ln charged s =
        mmap_file_call E g len flags (blank_vma E q addr len flags pgoff) ln t" by blast
      show ?thesis unfolding f run t(2) by (rule file_call_result [OF mm E r ln q t(1)])
    qed (auto simp: f run)
  qed
qed

lemma vma_merge_not_special: "vma_merge E prev addr e flags anon f pgoff pol u s = Some (Some p, s') \<Longrightarrow> flags AND VM_SPECIAL = 0"
  by (auto simp: vma_merge_def Let_def split: if_splits)

lemma merge_at_links:
  assumes mm: "mm_ok (st_mm s)" and E: "mm_env_ok E" and r: "region_ok E addr len" and ln: "find_vma_links (st_mm s) addr (addr + len) = Some ln"
  shows "merge_outcome E s addr (addr + len) flags f pgoff (vma_merge E (ln_prev ln) addr (addr + len) flags anon f pgoff pol u s)"
proof -
  note ee = mm_env_okD [OF E] and rd = region_okD [OF E r]
  have tr: "tree_ok (st_mm s)" using mm by simp
  from ln show ?thesis
  proof (rule find_vma_links_Some [OF tr])
    fix xs ys
    assume xy: "mmap (st_mm s) = xs @ ys" "\<forall>v\<in>set xs. vm_end v \<le> addr" "\<forall>v\<in>set ys. addr < vm_end v \<and> addr + len \<le> vm_start v"
      "ln_prev ln = (if xs = [] then None else Some (vm_id (last xs)))"
    show ?thesis
      by (rule vma_merge_free [OF mm ee(1,2,3) xy(1) rd(1,7,5) _ _ xy(4)]) (use xy in auto)
  qed
qed

text \<open>Growing an old mapping over the region.\<close>

lemma merged_region_result:
  assumes mm: "mm_ok (st_mm s)" and E: "mm_env_ok E" and r: "region_ok E addr len" and ln: "find_vma_links (st_mm s) addr (addr + len) = Some ln"
    and fl: "flags AND VM_HUGETLB = 0"
    and m: "vma_merge E (ln_prev ln) addr (addr + len) flags None f pgoff 0 0 s = Some (Some p, s1)"
  shows "mm_step E s (mmap_region_out E p flags len s1) \<and>
    mm_view (st_mm (mmap_region_out E p flags len s1)) = set_view (mm_view (st_mm s)) addr (addr + len) (range_attr addr flags f pgoff)"
proof -
  note ee = mm_env_okD [OF E] and rd = region_okD [OF E r]
  have tr: "tree_ok (st_mm s)" and ao: "areas_ok (mmap (st_mm s))" using mm by (auto simp: mm_ok_def tree_ok_def)
  from merge_at_links [OF mm E r ln, of flags f pgoff None 0 0] have "merge_outcome E s addr (addr + len) flags f pgoff (Some (Some p, s1))"
    unfolding m .
  then obtain vs v where vs: "now_maps E s s1 vs" "areas_ok vs" "v \<in> set vs" "vm_id v = p" "vm_id ` set vs \<subseteq> vm_id ` set (mmap (st_mm s))"
      "vm_flags v AND NOT VM_SOFTDIRTY = flags AND NOT VM_SOFTDIRTY"
    and view: "\<And>a. view_of vs a = (if addr \<le> a \<and> a < addr + len then Some (range_attr addr flags f pgoff a) else view_of (mmap (st_mm s)) a)"
    by (auto simp: merge_outcome_def)
  note n = now_mapsD [OF vs(1)]
  obtain pre post where "vs = pre @ v # post" using vs(3) by (meson split_list)
  then obtain pre' v' post' where v': "mmap (st_mm s1) = pre' @ v' # post'" "anon_only v v'"
    using n(1) by (auto simp: list_all2_append1 list_all2_Cons1)
  note vd = anon_onlyD [OF v'(2)]
  let ?s2 = "mmap_region_out E p flags len s1"
  have id: "vm_id v' = p" using vd vs(4) by simp
  have h: "vm_flags v' AND VM_HUGETLB = 0"
  proof -
    have "vm_flags v' AND VM_HUGETLB = (vm_flags v AND NOT VM_SOFTDIRTY) AND VM_HUGETLB" using vd by (simp add: and.assoc)
    also have "\<dots> = flags AND VM_HUGETLB" unfolding vs(6) by (simp add: and.assoc)
    finally show ?thesis using fl by simp
  qed
  have sp: "flags AND VM_SPECIAL = 0" by (rule vma_merge_not_special [OF m])
  have ok1: "mm_ok (st_mm s1)" by (rule n(9) [OF vs(2)])
  obtain v2 where v2: "mmap (st_mm ?s2) = pre' @ v2 # post'" "vm_id v2 = vm_id v'" "vm_start v2 = vm_start v'" "vm_end v2 = vm_end v'"
      "vm_pgoff v2 = vm_pgoff v'" "vm_file v2 = vm_file v'" "vm_flags v2 = vm_flags v' OR VM_SOFTDIRTY"
      "mm_ok (st_mm ?s2)" "bal E ?s2 = bal E s1" "st_cur ?s2 = st_cur s1" "total_vm (st_mm ?s2) = total_vm (st_mm s1) + drop_bit 12 len"
    using mmap_region_out_result [OF ok1 v'(1) refl, of E flags len] id h sp by auto
  have "view_of (pre' @ v2 # post') = view_of (pre' @ v' # post')"
    by (rule view_retag) (simp_all add: v2 bit.conj_disj_distrib2)
  then have "mm_view (st_mm ?s2) = view_of vs" using n(2) by (simp add: mm_view_def v2(1) v'(1))
  then have vw: "mm_view (st_mm ?s2) = set_view (mm_view (st_mm s)) addr (addr + len) (range_attr addr flags f pgoff)"
    by (simp add: fun_eq_iff view set_view_def mm_view_def)
  have "pages_of (mmap (st_mm ?s2)) = view_pages (mm_view (st_mm ?s2))"
    unfolding mm_view_def by (rule pages_of_view) (use v2(8) in \<open>simp add: mm_ok_def tree_ok_def\<close>)
  also have "\<dots> = view_pages (mm_view (st_mm s)) + drop_bit 12 (addr + len - addr)"
  proof -
    have "clear_view (mm_view (st_mm s)) addr (addr + len) = mm_view (st_mm s)" using find_links_iff [OF mm rd(5)] ln by blast
    then have "mm_view (st_mm s) x = None" if "addr \<le> x" "x < addr + len" for x using that by (metis clear_view_def)
    then show ?thesis unfolding vw set_view_def by (intro view_pages_add) (use rd in auto)
  qed
  also have "view_pages (mm_view (st_mm s)) = pages_of (mmap (st_mm s))" unfolding mm_view_def by (rule pages_of_view [symmetric, OF ao])
  finally show ?thesis using v2 vw n by (simp add: mm_step_def)
qed

section \<open>Mapping a region\<close>

lemma bal_committed: "bal E (s\<lparr>vm_committed_as := c\<rparr>) = bal E s"
  by (rule bal_same) simp_all

lemma mm_step_committed: "mm_ok (st_mm s) \<Longrightarrow> mm_step E s (s\<lparr>vm_committed_as := c\<rparr>)"
  by (simp add: mm_step_def bal_committed)

definition region_outcome :: "mm_env \<Rightarrow> file_ptr option \<Rightarrow> 64 word \<Rightarrow> 64 word \<Rightarrow> 64 word \<Rightarrow> 64 word \<Rightarrow> mmst \<Rightarrow> 64 word \<Rightarrow> mmst \<Rightarrow> bool" where
  "region_outcome E f addr len flags pgoff s r s' \<longleftrightarrow> mm_step E s s' \<and>
     (if IS_ERR_VALUE r
      then mm_view (st_mm s') = mm_view (st_mm s) \<or> mm_view (st_mm s') = clear_view (mm_view (st_mm s)) addr (addr + len)
      else r = addr \<and> mapped_new f addr len flags pgoff s s')"

lemma region_error:
  "mm_step E s s' \<Longrightarrow> IS_ERR_VALUE r \<Longrightarrow>
   mm_view (st_mm s') = mm_view (st_mm s) \<or> mm_view (st_mm s') = clear_view (mm_view (st_mm s)) addr (addr + len) \<Longrightarrow>
   region_outcome E f addr len flags pgoff s r s'"
  by (simp add: region_outcome_def)

text \<open>When merging fails, the place found for the new area is still right.\<close>

lemma raw_vma_adjust_fail:
  "raw_vma_adjust E p a b pg ins ex s = Some (err, s') \<Longrightarrow> err \<noteq> 0 \<Longrightarrow> mm_rb (st_mm s') = mm_rb (st_mm s)"
  by (auto simp: raw_vma_adjust_def Let_def vma_adjust_import_def case_prod_unfold split: option.splits if_splits bind_splits)

lemma vma_merge_fail:
  "vma_merge E prev addr e flags anon f pgoff pol u s = Some (None, s') \<Longrightarrow> mm_rb (st_mm s') = mm_rb (st_mm s)"
  by (auto simp: vma_merge_def Let_def dest: raw_vma_adjust_fail split: option.splits if_splits bind_splits)

lemma find_vma_links_rb_cong:
  "(\<And>p. p \<in> set (inorder t) \<Longrightarrow> vm_start (vma_at mm' p) = vm_start (vma_at mm p) \<and> vm_end (vma_at mm' p) = vm_end (vma_at mm p)) \<Longrightarrow>
   find_vma_links_rb mm' a e t pv lk par = find_vma_links_rb mm a e t pv lk par"
  by (induction mm' a e t pv lk par rule: find_vma_links_rb.induct) auto

lemma anons_at:
  assumes "anons vs ws" "areas_ok vs" "v \<in> set vs" "mmap mm = vs" "mmap mm' = ws"
  shows "vm_start (vma_at mm' (vm_id v)) = vm_start (vma_at mm (vm_id v)) \<and> vm_end (vma_at mm' (vm_id v)) = vm_end (vma_at mm (vm_id v))"
proof -
  obtain pre post where sp: "vs = pre @ v # post" using assms(3) by (meson split_list)
  then obtain pre' w post' where w: "ws = pre' @ w # post'" "anon_only v w" using assms(1) by (auto simp: list_all2_append1 list_all2_Cons1)
  have "areas_ok ws" using anons_areas [OF assms(1)] assms(2) by simp
  then have "vma_at mm' (vm_id w) = w" using assms(5) w(1) by (intro vma_at_in) simp_all
  moreover have "vma_at mm (vm_id v) = v" using assms by (intro vma_at_in) simp_all
  ultimately show ?thesis using anon_onlyD [OF w(2)] by simp
qed

lemma find_vma_links_anons:
  assumes mm: "mm_ok mm" and a: "anons (mmap mm) (mmap mm')" and t: "mm_rb mm' = mm_rb mm"
  shows "find_vma_links mm' a e = find_vma_links mm a e"
  unfolding find_vma_links_def t
proof (rule find_vma_links_rb_cong)
  fix p assume "p \<in> set (inorder (mm_rb mm))"
  then obtain v where "v \<in> set (mmap mm)" "p = vm_id v" using mm by (auto simp: mm_ok_def tree_ok_def)
  then show "vm_start (vma_at mm' p) = vm_start (vma_at mm p) \<and> vm_end (vma_at mm' p) = vm_end (vma_at mm p)"
    using anons_at [OF a _ _ refl refl] mm by (auto simp: mm_ok_def tree_ok_def)
qed

lemma mapped_new_clear:
  "mapped_new f addr len flags pgoff s1 s' \<Longrightarrow> mm_view (st_mm s1) = clear_view (mm_view (st_mm s)) addr (addr + len) \<Longrightarrow>
   mapped_new f addr len flags pgoff s s'"
  by (simp add: mapped_new_def)

lemma account_kept: "(flags OR VM_ACCOUNT) AND VM_KEPT = flags AND VM_KEPT" "(flags OR VM_ACCOUNT) AND VM_SHARED = flags AND VM_SHARED"
  "(flags OR VM_ACCOUNT) AND VM_HUGETLB = flags AND VM_HUGETLB"
  by (simp_all add: bit.conj_disj_distrib2)

lemma mapped_new_flags:
  "fl AND VM_KEPT = flags AND VM_KEPT \<Longrightarrow> mapped_new f addr len fl pgoff s s' = mapped_new f addr len flags pgoff s s'"
  using flags_kept [of fl flags] by (simp add: mapped_new_def split: option.split)

lemma mmap_task_region_result:
  assumes mm: "mm_ok (st_mm s)" and E: "mmap_env_ok E" and r: "region_ok E addr len" and fl: "flags AND VM_HUGETLB = 0"
  shows "\<exists>r s'. mmap_task_region E f addr len flags pgoff s = Some (r, s') \<and> region_outcome E f addr len flags pgoff s r s'"
proof -
  have me: "mm_env_ok E" and en: "enough_memory_ok E" using E by (auto simp: mmap_env_ok_def)
  note ee = mm_env_okD [OF me]
  let ?c = "clear_view (mm_view (st_mm s)) addr (addr + len)" and ?a = "accountable_mapping E f flags"
  have err: "IS_ERR_VALUE (ulong (- ENOMEM))" by (rule ulong_err) simp_all
  define exp where "exp \<longleftrightarrow> \<not> may_expand_vm E (st_mm s) flags (drop_bit 12 len) \<and>
         \<not> may_expand_vm E (st_mm s) flags (drop_bit 12 len - count_vma_pages_range E (st_mm s) addr (addr + len))"
  obtain place s1 where c: "clear_old_maps E addr len s = Some (place, s1)" "mm_step E s s1"
    "case place of Some ln \<Rightarrow> find_vma_links (st_mm s1) addr (addr + len) = Some ln \<and> mm_view (st_mm s1) = ?c | None \<Rightarrow> mm_view (st_mm s1) = mm_view (st_mm s)"
    using clear_old_maps_result [OF mm me r] by blast
  show ?thesis
  proof (cases "exp \<or> place = None")
    case True
    then consider "exp" | "\<not> exp" "place = None" by blast
    then show ?thesis
    proof cases
      case 1
      then have "mmap_task_region E f addr len flags pgoff s = Some (ulong (- ENOMEM), s)" by (simp add: mmap_task_region_def exp_def)
      then show ?thesis using region_error [OF mm_step_refl [OF mm] err] by blast
    next
      case 2
      then have "mmap_task_region E f addr len flags pgoff s = Some (ulong (- ENOMEM), s1)"
        unfolding mmap_task_region_def exp_def [symmetric] c(1) by simp
      then show ?thesis using region_error [OF c(2) err] c(3) 2(2) by auto
    qed
  next
    case False
    then obtain ln where ln: "place = Some ln" and ne: "\<not> exp" by auto
    define charged where "charged = (if ?a then drop_bit 12 len else 0)"
    obtain e s2 where e: "(if ?a then security_vm_enough_memory_mm E s1 charged else (0, s1)) = (e, s2)" by (meson surj_pair)
    define fl1 where "fl1 = (if ?a then flags OR VM_ACCOUNT else flags)"
    have mm1: "mm_ok (st_mm s1)" using c(2) by (simp add: mm_step_def)
    obtain k where k: "s2 = s1 \<or> s2 = s1\<lparr>vm_committed_as := k\<rparr>"
      using e en unfolding enough_memory_ok_def by (metis prod.sel(2))
    have s2: "st_mm s2 = st_mm s1" "mm_step E s1 s2" using k mm_step_committed [OF mm1] mm_step_refl [OF mm1] by auto
    note step2 = mm_step_trans [OF c(2) s2(2)]
    have v2: "mm_view (st_mm s2) = ?c" "find_vma_links (st_mm s2) addr (addr + len) = Some ln" "mm_ok (st_mm s2)" using c(3) ln s2 mm1 by auto
    have kept: "fl1 AND VM_KEPT = flags AND VM_KEPT" "fl1 AND VM_HUGETLB = 0" using account_kept [of flags] fl by (auto simp: fl1_def)
    have run: "mmap_task_region E f addr len flags pgoff s = (if e \<noteq> 0 then Some (ulong (- ENOMEM), s2)
         else do {
           (vma, s) \<leftarrow> vma_merge E (ln_prev ln) addr (addr + len) fl1 None f pgoff 0 0 s2;
           case vma of
             Some p \<Rightarrow> Some (addr, mmap_region_out E p fl1 len s)
           | None \<Rightarrow> Some (mmap_new_area E f addr len fl1 pgoff ln charged s)
         })"
      unfolding mmap_task_region_def exp_def [symmetric] c(1) ln Let_def charged_def [symmetric] fl1_def [symmetric] bind.bind_lunit prod.case option.case e
      using ne by simp
    show ?thesis
    proof (cases "e = 0")
      case False
      then show ?thesis using run region_error [OF step2 err] v2(1) by auto
    next
      case e0: True
      have mo: "merge_outcome E s2 addr (addr + len) fl1 f pgoff (vma_merge E (ln_prev ln) addr (addr + len) fl1 None f pgoff 0 0 s2)"
        by (rule merge_at_links [OF v2(3) me r v2(2)])
      then obtain vma s3 where m: "vma_merge E (ln_prev ln) addr (addr + len) fl1 None f pgoff 0 0 s2 = Some (vma, s3)"
        by (auto simp: merge_outcome_def split: option.splits)
      show ?thesis
      proof (cases vma)
        case (Some p)
        let ?s4 = "mmap_region_out E p fl1 len s3"
        have r4: "mm_step E s2 ?s4" "mm_view (st_mm ?s4) = set_view (mm_view (st_mm s2)) addr (addr + len) (range_attr addr fl1 f pgoff)"
          using merged_region_result [OF v2(3) me r v2(2) kept(2) m [unfolded Some]] by auto
        have "mapped_new f addr len flags pgoff s ?s4"
          unfolding mapped_new_def by (rule exI [of _ fl1], rule exI [of _ f]) (use r4 v2 kept in \<open>simp split: option.split\<close>)
        moreover have "mmap_task_region E f addr len flags pgoff s = Some (addr, ?s4)" unfolding run m Some using e0 by simp
        ultimately show ?thesis using mm_step_trans [OF step2 r4(1)] region_okD(8) [OF me r] by (simp add: region_outcome_def)
      next
        case None
        have "now_maps E s2 s3 (mmap (st_mm s2))" using mo unfolding m None by (simp add: merge_outcome_def)
        note n = now_mapsD [OF this]
        have ao: "areas_ok (mmap (st_mm s2))" using v2(3) by (simp add: mm_ok_def tree_ok_def)
        have v3: "mm_view (st_mm s3) = ?c" "mm_ok (st_mm s3)" "mm_step E s2 s3"
          using n v2(1) ao now_maps_step [OF \<open>now_maps E s2 s3 (mmap (st_mm s2))\<close> ao refl] by (simp_all add: mm_view_def)
        have ln3: "find_vma_links (st_mm s3) addr (addr + len) = Some ln"
          using find_vma_links_anons [OF v2(3) n(1) vma_merge_fail [OF m [unfolded None]]] v2(2) by simp
        obtain r s4 where r4: "mmap_new_area E f addr len fl1 pgoff ln charged s3 = (r, s4)" "mm_step E s3 s4"
          "if IS_ERR_VALUE r then mm_view (st_mm s4) = mm_view (st_mm s3) else r = addr \<and> mapped_new f addr len fl1 pgoff s3 s4"
          using mmap_new_area_result [OF v3(2) E r ln3] by blast
        have "mmap_task_region E f addr len flags pgoff s = Some (r, s4)" unfolding run m None using e0 r4(1) by simp
        moreover have "mm_step E s s4" by (rule mm_step_trans [OF mm_step_trans [OF step2 v3(3)] r4(2)])
        ultimately show ?thesis
          using r4(3) v3(1) mapped_new_clear [of f addr len fl1 pgoff s3 s4 s] mapped_new_flags [OF kept(1), of f addr len pgoff s s4]
          by (auto simp: region_outcome_def)
      qed
    qed
  qed
qed


section \<open>The system call and its remote variant\<close>

lemma PAGE_ALIGN_is_aligned: "aligned (PAGE_ALIGN a)"
  by (simp add: aligned_def offset_in_page_def PAGE_ALIGN_def and.assoc)

text \<open>
  No flag that these functions compute asks for huge pages: only the method of a file sets that one.
  The permissions come from the protection alone.
\<close>

definition no_hugetlb :: "mm_env \<Rightarrow> mm_struct \<Rightarrow> bool" where
  "no_hugetlb E mm \<longleftrightarrow> def_flags mm AND VM_HUGETLB = 0 \<and> def_flags mm AND 7 = 0 \<and>
     (\<forall>prot pkey. calc_vm_prot_bits E prot pkey AND VM_HUGETLB = 0 \<and> calc_vm_prot_bits E prot pkey AND 7 = prot AND 7) \<and>
     (\<forall>fl. calc_vm_flag_bits E fl AND VM_HUGETLB = 0 \<and> calc_vm_flag_bits E fl AND 7 = 0)"

lemma no_hugetlb_or: "a AND VM_HUGETLB = 0 \<Longrightarrow> b AND VM_HUGETLB = 0 \<Longrightarrow> (a OR b) AND VM_HUGETLB = (0 :: 64 word)"
  "a AND VM_HUGETLB = 0 \<Longrightarrow> (a AND b) AND VM_HUGETLB = 0"
  by (simp_all add: bit.conj_disj_distrib2 and.assoc and.left_commute [of _ b])

lemma mmap_file_flags_hugetlb:
  "mmap_file_flags E f prot mf flags s = Inr fl \<Longrightarrow> flags AND VM_HUGETLB = 0 \<Longrightarrow> fl AND VM_HUGETLB = 0"
  by (auto simp: mmap_file_flags_def mmap_private_file_flags_def Let_def intro!: no_hugetlb_or split: if_splits)

lemma mmap_anon_flags_hugetlb:
  "mmap_anon_flags addr mf flags = Inr (fl, pg) \<Longrightarrow> flags AND VM_HUGETLB = 0 \<Longrightarrow> fl AND VM_HUGETLB = 0"
  by (auto simp: mmap_anon_flags_def intro!: no_hugetlb_or split: if_splits)

lemma mmap_flags_kept:
  "mmap_file_flags E f prot mf flags s = Inr fl \<Longrightarrow> fl AND 7 = flags AND 7" "mmap_anon_flags addr mf flags = Inr (fl, pg) \<Longrightarrow> fl AND 7 = flags AND 7"
  by (auto simp: mmap_file_flags_def mmap_private_file_flags_def mmap_anon_flags_def Let_def and.assoc bit.conj_disj_distrib2 split: if_splits)

text \<open>The protection asked for, with \<open>READ_IMPLIES_EXEC\<close> taken into account.\<close>

definition mmap_prot_of :: "mm_env \<Rightarrow> 64 word \<Rightarrow> file_ptr option \<Rightarrow> 64 word \<Rightarrow> 64 word" where
  "mmap_prot_of E pers f prot =
     (if prot AND PROT_READ \<noteq> 0 \<and> pers AND READ_IMPLIES_EXEC \<noteq> 0 \<and> \<not> (case f of None \<Rightarrow> False | Some g \<Rightarrow> path_noexec E g)
      then prot OR PROT_EXEC else prot)"

lemma mmap_flags_errno:
  "mmap_file_flags E f prot mf flags s = Inl e \<Longrightarrow> is_errno e" "mmap_anon_flags addr mf flags = Inl e \<Longrightarrow> is_errno e"
  by (auto simp: mmap_file_flags_def mmap_private_file_flags_def mmap_anon_flags_def Let_def split: if_splits)

text \<open>The outcome of a request to map: an error, or a new mapping of the rounded length at the address returned.\<close>

definition mmap_outcome ::
    "mm_env \<Rightarrow> 64 word \<Rightarrow> file_ptr option \<Rightarrow> 64 word \<Rightarrow> 64 word \<Rightarrow> 64 word \<Rightarrow> 64 word \<Rightarrow> mmst \<Rightarrow> 64 word \<Rightarrow> mmst \<Rightarrow> bool" where
  "mmap_outcome E pers f len prot map_flags pgoff s r s' \<longleftrightarrow> mm_step E s s' \<and>
     (if offset_in_page r \<noteq> 0
      then IS_ERR_VALUE r \<and> (mm_view (st_mm s') = mm_view (st_mm s) \<or> (\<exists>a. mm_view (st_mm s') = clear_view (mm_view (st_mm s)) a (a + PAGE_ALIGN len)))
      else r \<le> TASK_SIZE E - PAGE_ALIGN len \<and> (\<exists>fl pg. fl AND 7 = mmap_prot_of E pers f prot AND 7 \<and> (f \<noteq> None \<longrightarrow> pg = pgoff) \<and> mapped_new f r (PAGE_ALIGN len) fl pg s s') \<and>
           (map_flags AND MAP_FIXED = 0 \<longrightarrow> range_free (cur_mm s) r (PAGE_ALIGN len)))"

lemma mmap_error:
  "mm_ok (st_mm s) \<Longrightarrow> is_errno e \<Longrightarrow> mmap_outcome E pers f len prot mf pgoff s (ulong e) s"
  using ulong_err [of e] by (simp add: mmap_outcome_def mm_step_refl)

lemma do_task_mmap_at_result:
  assumes mm: "mm_ok (st_mm s)" and E: "mmap_env_ok E" and ro: "region_ok E a len"
    and fl: "no_hugetlb E (st_mm s)"
  shows "\<exists>r pop s'. do_task_mmap_at E f a len prot map_flags 0 pgoff s = Some (r, pop, s') \<and>
    (\<exists>fl pg. fl AND 7 = prot AND 7 \<and> (f \<noteq> None \<longrightarrow> pg = pgoff) \<and> region_outcome E f a len fl pg s r s')"
proof -
  define pkey where "pkey = (if prot = PROT_EXEC then if execute_only_pkey E (st_mm s) < 0 then 0 else execute_only_pkey E (st_mm s) else 0)"
  define fl1 where "fl1 = 0 OR calc_vm_prot_bits E prot pkey OR calc_vm_flag_bits E map_flags OR def_flags (st_mm s) OR
                            VM_MAYREAD OR VM_MAYWRITE OR VM_MAYEXEC"
  define fp where "fp = (case f of
                                Some g \<Rightarrow> map_sum id (\<lambda>fl. (fl, pgoff)) (mmap_file_flags E g prot map_flags fl1 s)
                              | None \<Rightarrow> mmap_anon_flags a map_flags fl1)"
  define nr where "nr \<longleftrightarrow> map_flags AND MAP_NORESERVE \<noteq> 0 \<and>
              (\<not> overcommit_never E \<or> (case f of None \<Rightarrow> False | Some g \<Rightarrow> is_file_hugepages E g))"
  have h1: "fl1 AND VM_HUGETLB = 0" using fl by (auto simp: fl1_def no_hugetlb_def intro!: no_hugetlb_or)
  have p1: "fl1 AND 7 = prot AND 7" using fl by (simp add: fl1_def no_hugetlb_def bit.conj_disj_distrib2)
  have run: "do_task_mmap_at E f a len prot map_flags 0 pgoff s =
       (if map_flags AND MAP_LOCKED \<noteq> 0 \<and> \<not> can_do_mlock E then Some (ulong (- EPERM), 0, s)
        else if mlock_future_check E (st_mm s) fl1 len \<noteq> 0 then Some (ulong (- EAGAIN), 0, s)
        else case fp of
               Inl error \<Rightarrow> Some (ulong error, 0, s)
             | Inr (fl, pg) \<Rightarrow> do {
                   (addr, s) \<leftarrow> mmap_task_region E f a len (if nr then fl OR VM_NORESERVE else fl) pg s;
                   Some (addr,
                         if \<not> IS_ERR_VALUE addr \<and>
                            ((if nr then fl OR VM_NORESERVE else fl) AND VM_LOCKED \<noteq> 0 \<or> map_flags AND (MAP_POPULATE OR MAP_NONBLOCK) = MAP_POPULATE)
                         then len else 0,
                         s)
                 })"
    unfolding do_task_mmap_at_def Let_def pkey_def [symmetric] fl1_def [symmetric] fp_def [symmetric] nr_def [symmetric] by (rule refl)
  have err: "\<exists>r pop s'. Some (ulong e, 0, s) = Some (r, pop, s') \<and> (\<exists>fl pg. fl AND 7 = prot AND 7 \<and> (f \<noteq> None \<longrightarrow> pg = pgoff) \<and> region_outcome E f a len fl pg s r s')"
    if "is_errno e" for e
  proof -
    have "region_outcome E f a len prot pgoff s (ulong e) s"
      using region_error [OF mm_step_refl [OF mm, of E], of "ulong e"] ulong_err(1) [of e] that by blast
    then show ?thesis by blast
  qed
  show ?thesis
  proof (cases "map_flags AND MAP_LOCKED \<noteq> 0 \<and> \<not> can_do_mlock E \<or> mlock_future_check E (st_mm s) fl1 len \<noteq> 0")
    case True
    then show ?thesis unfolding run using err [of "- EPERM"] err [of "- EAGAIN"] by auto
  next
    case ck: False
    have fpc: "(\<exists>e. fp = Inl e \<and> is_errno e) \<or> (\<exists>fl2 pg. fp = Inr (fl2, pg) \<and> fl2 AND VM_HUGETLB = 0 \<and> fl2 AND 7 = prot AND 7 \<and> (f \<noteq> None \<longrightarrow> pg = pgoff))"
    proof (cases f)
      case None
      then show ?thesis using p1 mmap_flags_errno(2) mmap_flags_kept(2) mmap_anon_flags_hugetlb [OF _ h1] by (cases "mmap_anon_flags a map_flags fl1") (auto simp: fp_def)
    next
      case (Some g)
      then show ?thesis using p1 mmap_flags_errno(1) mmap_flags_kept(1) mmap_file_flags_hugetlb [OF _ h1]
        by (cases "mmap_file_flags E g prot map_flags fl1 s") (auto simp: fp_def)
    qed
    then show ?thesis
    proof
      assume "\<exists>e. fp = Inl e \<and> is_errno e"
      then show ?thesis unfolding run using ck err by auto
    next
      assume "\<exists>fl2 pg. fp = Inr (fl2, pg) \<and> fl2 AND VM_HUGETLB = 0 \<and> fl2 AND 7 = prot AND 7 \<and> (f \<noteq> None \<longrightarrow> pg = pgoff)"
      then obtain fl2 pg where q: "fp = Inr (fl2, pg)" "fl2 AND VM_HUGETLB = 0" "fl2 AND 7 = prot AND 7" "f \<noteq> None \<longrightarrow> pg = pgoff" by blast
      define fl3 where "fl3 = (if nr then fl2 OR VM_NORESERVE else fl2)"
      have h3: "fl3 AND VM_HUGETLB = 0" using q(2) by (auto simp: fl3_def intro!: no_hugetlb_or)
      obtain r s' where r: "mmap_task_region E f a len fl3 pg s = Some (r, s')" "region_outcome E f a len fl3 pg s r s'"
        using mmap_task_region_result [OF mm E ro h3] by blast
      have "\<exists>pop. do_task_mmap_at E f a len prot map_flags 0 pgoff s = Some (r, pop, s')"
        unfolding run q(1) using ck r(1) unfolding fl3_def by auto
      moreover have "fl3 AND 7 = prot AND 7" using q(3) by (simp add: fl3_def bit.conj_disj_distrib2)
      ultimately show ?thesis using r(2) q(4) by blast
    qed
  qed
qed

lemma do_task_mmap_result:
  assumes mm: "mm_ok (st_mm s)" "mm_ok (cur_mm s)" and E: "mmap_env_ok E" "area_methods_ok E"
    and fl: "no_hugetlb E (st_mm s)"
  shows "\<exists>r pop s'. do_task_mmap E pers f addr len prot map_flags 0 pgoff s = Some (r, pop, s') \<and> mmap_outcome E pers f len prot map_flags pgoff s r s'"
proof -
  have me: "mm_env_ok E" using E(1) by (simp add: mmap_env_ok_def)
  note ee = mm_env_okD [OF me]
  let ?len = "PAGE_ALIGN len"
  have err: "\<exists>r pop s'. Some (ulong e, 0, s) = Some (r, pop, s') \<and> mmap_outcome E pers f len prot map_flags pgoff s r s'" if "is_errno e" for e
    using mmap_error [OF mm(1) that] by blast
  consider "len = 0" | "len \<noteq> 0" "?len = 0" | "len \<noteq> 0" "?len \<noteq> 0" "pgoff + drop_bit 12 ?len < pgoff"
    | "len \<noteq> 0" "?len \<noteq> 0" "\<not> pgoff + drop_bit 12 ?len < pgoff" "map_count (st_mm s) > sysctl_max_map_count E"
    | (go) "len \<noteq> 0" "?len \<noteq> 0" "\<not> pgoff + drop_bit 12 ?len < pgoff" "\<not> map_count (st_mm s) > sysctl_max_map_count E" by blast
  then show ?thesis
  proof cases
    case go
    define addr1 where "addr1 = (if map_flags AND MAP_FIXED = 0 then round_hint_to_min E addr else addr)"
    define prot1 where "prot1 = mmap_prot_of E pers f prot"
    define a where "a = get_task_unmapped_area E f addr1 ?len pgoff map_flags s"
    have run: "do_task_mmap E pers f addr len prot map_flags 0 pgoff s =
        (if offset_in_page a \<noteq> 0 then Some (a, 0, s) else do_task_mmap_at E f a ?len prot1 map_flags 0 pgoff s)"
      using go unfolding do_task_mmap_def Let_def prot1_def mmap_prot_of_def [symmetric] addr1_def [symmetric] a_def [symmetric] by simp
    show ?thesis
    proof (cases "offset_in_page a = 0")
      case False
      then show ?thesis using run mm_step_refl [OF mm(1), of E] get_task_unmapped_area_err [OF E(2) a_def [symmetric] False] by (auto simp: mmap_outcome_def)
    next
      case off: True
      note ga = get_task_unmapped_area_result [OF mm(2) ee(4) E(2) a_def [symmetric] off]
      have ro: "region_ok E a ?len" using ga off go PAGE_ALIGN_is_aligned by (auto simp: region_ok_def aligned_def)
      obtain r pop s' fl' pg' where r: "do_task_mmap_at E f a ?len prot1 map_flags 0 pgoff s = Some (r, pop, s')" "region_outcome E f a ?len fl' pg' s r s'"
        "fl' AND 7 = prot1 AND 7" "f \<noteq> None \<longrightarrow> pg' = pgoff"
        using do_task_mmap_at_result [OF mm(1) E(1) ro fl, of f prot1 map_flags pgoff] by (elim exE conjE)
      have "mmap_outcome E pers f len prot map_flags pgoff s r s'"
      proof (cases "IS_ERR_VALUE r")
        case True
        then show ?thesis using r(2) err_value_offset [of r] by (auto simp: mmap_outcome_def region_outcome_def)
      next
        case False
        then have o: "r = a" "mm_step E s s'" "mapped_new f a ?len fl' pg' s s'" using r(2) by (auto simp: region_outcome_def)
        then have "\<exists>fl pg. fl AND 7 = mmap_prot_of E pers f prot AND 7 \<and> (f \<noteq> None \<longrightarrow> pg = pgoff) \<and> mapped_new f r ?len fl pg s s'"
          using r(3,4) unfolding prot1_def by blast
        then show ?thesis using o(1,2) ga off unfolding mmap_outcome_def by simp
      qed
      then show ?thesis using run off r(1) by auto
    qed
  qed (use err [of "- EINVAL"] err [of "- ENOMEM"] err [of "- EOVERFLOW"] in \<open>simp_all add: do_task_mmap_def Let_def\<close>)
qed

lemma vm_mmap_remote_result:
  assumes mm: "mm_ok (st_mm s)" "mm_ok (cur_mm s)" and E: "mmap_env_ok E" "area_methods_ok E" and fl: "no_hugetlb E (st_mm s)"
    and sec: "\<And>f prot fl. - 4095 \<le> security_mmap_file E f prot fl \<and> security_mmap_file E f prot fl \<le> 0"
  shows "\<exists>r pop s'. vm_mmap_remote E pers f addr len prot map_flags offset s = Some (r, pop, s') \<and> mmap_outcome E pers f len prot map_flags (drop_bit 12 offset) s r s'"
proof -
  have err: "\<exists>r pop s'. Some (ulong e, Populate_nothing, s) = Some (r, pop, s') \<and> mmap_outcome E pers f len prot map_flags (drop_bit 12 offset) s r s'" if "is_errno e" for e
    using mmap_error [OF mm(1) that] by blast
  let ?ret = "security_mmap_file E f prot map_flags"
  consider "offset + PAGE_ALIGN len < offset \<or> offset_in_page offset \<noteq> 0" | (sec) "\<not> (offset + PAGE_ALIGN len < offset \<or> offset_in_page offset \<noteq> 0)" "?ret \<noteq> 0"
    | "\<not> (offset + PAGE_ALIGN len < offset \<or> offset_in_page offset \<noteq> 0)" "?ret = 0" "mmap_sem_killed E"
    | (go) "\<not> (offset + PAGE_ALIGN len < offset \<or> offset_in_page offset \<noteq> 0)" "?ret = 0" "\<not> mmap_sem_killed E" by blast
  then show ?thesis
  proof cases
    case 1
    then show ?thesis using err [of "- EINVAL"] by (auto simp: vm_mmap_remote_def)
  next
    case sec
    have "is_errno ?ret" using sec(2) assms(6) [of f prot map_flags] by simp
    then show ?thesis using sec err [of ?ret] by (simp add: vm_mmap_remote_def Let_def)
  next
    case 3
    then show ?thesis using err [of "- EINTR"] by (simp add: vm_mmap_remote_def)
  next
    case go
    obtain r pop s' where r: "do_task_mmap E pers f addr len prot map_flags 0 (drop_bit 12 offset) s = Some (r, pop, s')" "mmap_outcome E pers f len prot map_flags (drop_bit 12 offset) s r s'"
      using do_task_mmap_result [OF mm E fl] by blast
    then show ?thesis using go by (simp add: vm_mmap_remote_def)
  qed
qed

text \<open>The reference to the file of the request.\<close>

definition hugetlb_ok :: "mm_env \<Rightarrow> bool" where
  "hugetlb_ok E \<longleftrightarrow> (\<forall>len k h. case hugetlb_file_setup E len k h of
       (Inl e, h') \<Rightarrow> is_errno e \<and> (\<forall>x. f_count (h' x) = f_count (h x))
     | (Inr g, h') \<Rightarrow> \<forall>x. f_count (h' x) = f_count (h x) + (if g = x then 1 else 0))"

definition request_file :: "files_struct \<Rightarrow> 64 word \<Rightarrow> 64 word \<Rightarrow> file_ptr option \<Rightarrow> bool" where
  "request_file cur_files map_flags fd f \<longleftrightarrow>
     (map_flags AND MAP_ANONYMOUS = 0 \<longrightarrow> f \<noteq> None \<and> f = raw_fcheck_files cur_files (unat (take_bit 32 fd))) \<and>
     (map_flags AND MAP_ANONYMOUS \<noteq> 0 \<longrightarrow> map_flags AND MAP_HUGETLB = 0 \<longrightarrow> f = None)"

text \<open>The length is that of the request unless it is rounded to huge pages.\<close>

definition request_len :: "mm_env \<Rightarrow> 64 word \<Rightarrow> file_ptr option \<Rightarrow> 64 word \<Rightarrow> 64 word \<Rightarrow> bool" where
  "request_len E map_flags f len len' \<longleftrightarrow>
     (case f of None \<Rightarrow> True | Some g \<Rightarrow> \<not> is_file_hugepages E g \<and> map_flags AND MAP_ANONYMOUS = 0) \<longrightarrow> len' = len"

lemma mmap_get_file_result:
  assumes files: "files_ok cf" "refs_ok cf (st_heap s)" and E: "vfs_ok (vfs E)" "hugetlb_ok E"
  shows "\<exists>r h. mmap_get_file E cf len mf fd s = Some (r, s\<lparr>st_heap := h\<rparr>) \<and>
    (case r of
       Inl e \<Rightarrow> is_errno e \<and> (\<forall>x. f_count (h x) = f_count (st_heap s x))
     | Inr (f, len') \<Rightarrow> request_file cf mf fd f \<and> request_len E mf f len len' \<and> (\<forall>x. f_count (h x) = f_count (st_heap s x) + (if f = Some x then 1 else 0)))"
proof (cases "mf AND MAP_ANONYMOUS = 0")
  case True
  let ?fd = "unat (take_bit 32 fd)"
  note g = raw_fget_files_result [OF files, of ?fd FMODE_PATH]
  show ?thesis
  proof (cases "raw_fcheck_files cf ?fd")
    case None
    then show ?thesis using True g
      by (intro exI [of _ "Inl (- EBADF)"] exI [of _ "st_heap s"]) (simp add: mmap_get_file_def fget_def raw_fget_def)
  next
    case (Some f)
    show ?thesis
    proof (cases "f_mode (st_heap s f) AND FMODE_PATH \<noteq> 0")
      case m: True
      then show ?thesis using True Some g
        by (intro exI [of _ "Inl (- EBADF)"] exI [of _ "st_heap s"]) (simp add: mmap_get_file_def fget_def raw_fget_def)
    next
      case m: False
      then have fg: "fget cf (st_heap s) ?fd = Some (Some f, get_file f (st_heap s))" using Some g by (simp add: fget_def raw_fget_def)
      show ?thesis
      proof (cases "mf AND MAP_HUGETLB \<noteq> 0 \<and> \<not> is_file_hugepages E f")
        case hg: True
        then have "mmap_get_file E cf len mf fd s = Some (Inl (- EINVAL), s\<lparr>st_heap := fput (vfs E) f (get_file f (st_heap s))\<rparr>)"
          using True fg by (simp add: mmap_get_file_def)
        then show ?thesis using vfs_okD(1) [OF E(1)]
          by (intro exI [of _ "Inl (- EINVAL)"] exI [of _ "fput (vfs E) f (get_file f (st_heap s))"]) (simp add: get_file_def)
      next
        case hg: False
        then obtain len' where "mmap_get_file E cf len mf fd s = Some (Inr (Some f, len'), s\<lparr>st_heap := get_file f (st_heap s)\<rparr>)"
          "\<not> is_file_hugepages E f \<Longrightarrow> len' = len"
          using True fg by (auto simp: mmap_get_file_def)
        then show ?thesis using True Some
          by (intro exI [of _ "Inr (Some f, len')"] exI [of _ "get_file f (st_heap s)"]) (simp add: get_file_def request_file_def request_len_def)
      qed
    qed
  qed
next
  case False
  show ?thesis
  proof (cases "mf AND MAP_HUGETLB \<noteq> 0")
    case hg: True
    show ?thesis
    proof (cases "hstate_sizelog E (drop_bit 26 mf AND 0x3f)")
      case None
      then show ?thesis using False hg by (auto simp: mmap_get_file_def intro!: exI [of _ "st_heap s"])
    next
      case (Some sz)
      define len' where "len' = (len + (sz - 1)) AND NOT (sz - 1)"
      obtain r h where h: "hugetlb_file_setup E len' (drop_bit 26 mf AND 0x3f) (st_heap s) = (r, h)" by (meson surj_pair)
      have "case r of Inl e \<Rightarrow> is_errno e \<and> (\<forall>x. f_count (h x) = f_count (st_heap s x))
          | Inr g \<Rightarrow> \<forall>x. f_count (h x) = f_count (st_heap s x) + (if g = x then 1 else 0)"
      proof -
        have "case hugetlb_file_setup E len' (drop_bit 26 mf AND 0x3f) (st_heap s) of
            (Inl e, h') \<Rightarrow> is_errno e \<and> (\<forall>x. f_count (h' x) = f_count (st_heap s x))
          | (Inr g, h') \<Rightarrow> \<forall>x. f_count (h' x) = f_count (st_heap s x) + (if g = x then 1 else 0)"
          by (rule E(2) [unfolded hugetlb_ok_def, THEN spec, THEN spec, THEN spec])
        then show ?thesis unfolding h by (simp split: sum.splits)
      qed
      moreover have "mmap_get_file E cf len mf fd s = (case r of Inl e \<Rightarrow> Some (Inl e, s\<lparr>st_heap := h\<rparr>) | Inr g \<Rightarrow> Some (Inr (Some g, len'), s\<lparr>st_heap := h\<rparr>))"
        using False hg Some by (simp add: mmap_get_file_def Let_def len'_def [symmetric] h)
      ultimately show ?thesis using False hg by (cases r) (auto simp: request_file_def request_len_def)
    qed
  next
    case hg: False
    then have "mmap_get_file E cf len mf fd s = Some (Inr (None, len), s\<lparr>st_heap := st_heap s\<rparr>)" using False by (simp add: mmap_get_file_def)
    then show ?thesis using False hg by (intro exI [of _ "Inr (None, len)"] exI [of _ "st_heap s"]) (simp add: request_file_def request_len_def)
  qed
qed

text \<open>A mapping in another task for a descriptor of the current one.\<close>

definition remote_mmap_outcome ::
    "mm_env \<Rightarrow> files_struct \<Rightarrow> 64 word \<Rightarrow> 64 word \<Rightarrow> 64 word \<Rightarrow> 64 word \<Rightarrow> 64 word \<Rightarrow> 64 word \<Rightarrow> mmst \<Rightarrow> 64 word \<Rightarrow> mmst \<Rightarrow> bool" where
  "remote_mmap_outcome E cf pers len prot map_flags fd offset s r s' \<longleftrightarrow> mm_step E s s' \<and>
     (if offset_in_page r \<noteq> 0
      then IS_ERR_VALUE r \<and> (mm_view (st_mm s') = mm_view (st_mm s) \<or> (\<exists>a b. mm_view (st_mm s') = clear_view (mm_view (st_mm s)) a b))
      else \<exists>f l fl pg. request_file cf map_flags fd f \<and> request_len E map_flags f len l \<and> r \<le> TASK_SIZE E - PAGE_ALIGN l \<and>
        fl AND 7 = mmap_prot_of E pers f prot AND 7 \<and> (f \<noteq> None \<longrightarrow> pg = drop_bit 12 offset) \<and>
        mapped_new f r (PAGE_ALIGN l) fl pg s s' \<and> (map_flags AND MAP_FIXED = 0 \<longrightarrow> range_free (cur_mm s) r (PAGE_ALIGN l)))"

lemma bal_fput:
  assumes "vfs_ok (vfs E)" "bal E s' = bal E s1" "st_mm s1 = st_mm s" "st_spaces s1 = st_spaces s"
    "\<And>x. f_count (st_heap s1 x) = f_count (st_heap s x) + (if f = Some x then 1 else 0)"
  shows "bal E (case f of None \<Rightarrow> s' | Some g \<Rightarrow> s'\<lparr>st_heap := fput (vfs E) g (st_heap s')\<rparr>) = bal E s"
proof (cases f)
  case None
  have "bal E s1 = bal E s" by (rule bal_counts) (use assms None in simp_all)
  then show ?thesis using assms(2) None by simp
next
  case (Some g)
  have "fst (bal E s1) x = fst (bal E s) x + (if g = x then 1 else 0)" for x
    unfolding bal_def Let_def using assms(3,5) Some by simp
  then have a: "fst (bal E s') x = fst (bal E s) x + (if g = x then 1 else 0)" for x by (simp only: assms(2))
  have "snd (bal E s1) = snd (bal E s)" unfolding bal_def Let_def using assms(3,4) by simp
  then have b: "snd (bal E s') = snd (bal E s)" by (simp only: assms(2))
  have c: "fst (bal E (s'\<lparr>st_heap := fput (vfs E) g (st_heap s')\<rparr>)) x = fst (bal E s') x - (if g = x then 1 else 0)" for x
    unfolding bal_def Let_def by (simp add: vfs_okD(1) [OF assms(1)])
  have d: "snd (bal E (s'\<lparr>st_heap := fput (vfs E) g (st_heap s')\<rparr>)) = snd (bal E s')" unfolding bal_def Let_def by simp
  show ?thesis unfolding Some option.case by (rule prod_eqI) (use a b c d in \<open>simp_all add: fun_eq_iff\<close>)
qed

lemma do_mmap_remote_result:
  assumes mm: "mm_ok (st_mm s)" "mm_ok (cur_mm s)" and E: "mmap_env_ok E" "area_methods_ok E" "hugetlb_ok E" and fl: "no_hugetlb E (st_mm s)"
    and sec: "\<And>f prot fl. - 4095 \<le> security_mmap_file E f prot fl \<and> security_mmap_file E f prot fl \<le> 0"
    and files: "files_ok cf" "refs_ok cf (st_heap s)"
  shows "\<exists>r pop s'. do_mmap_remote E cf pers addr len prot map_flags fd offset s = Some (r, pop, s') \<and> remote_mmap_outcome E cf pers len prot map_flags fd offset s r s'"
proof -
  have vf: "vfs_ok (vfs E)" using E(1) by (simp add: mmap_env_ok_def mm_env_ok_def)
  obtain g h where g: "mmap_get_file E cf len map_flags fd s = Some (g, s\<lparr>st_heap := h\<rparr>)"
    "case g of
       Inl e \<Rightarrow> is_errno e \<and> (\<forall>x. f_count (h x) = f_count (st_heap s x))
     | Inr (f, len') \<Rightarrow> request_file cf map_flags fd f \<and> request_len E map_flags f len len' \<and> (\<forall>x. f_count (h x) = f_count (st_heap s x) + (if f = Some x then 1 else 0))"
    using mmap_get_file_result [OF files vf E(3)] by blast
  let ?s1 = "s\<lparr>st_heap := h\<rparr>"
  show ?thesis
  proof (cases g)
    case (Inl e)
    have "bal E ?s1 = bal E s" by (rule bal_counts) (use g(2) Inl in simp_all)
    then have "mm_step E s ?s1" using mm(1) by (simp add: mm_step_def)
    moreover have "offset_in_page (ulong e) \<noteq> 0" "IS_ERR_VALUE (ulong e)" using ulong_err g(2) Inl by simp_all
    ultimately have "remote_mmap_outcome E cf pers len prot map_flags fd offset s (ulong e) ?s1" by (simp add: remote_mmap_outcome_def)
    moreover have "do_mmap_remote E cf pers addr len prot map_flags fd offset s = Some (ulong e, Populate_nothing, ?s1)"
      using g(1) Inl by (simp add: do_mmap_remote_def)
    ultimately show ?thesis by blast
  next
    case (Inr q)
    obtain f len' where q: "q = (f, len')" by (meson surj_pair)
    have f: "request_file cf map_flags fd f" "request_len E map_flags f len len'" "\<And>x. f_count (h x) = f_count (st_heap s x) + (if f = Some x then 1 else 0)" using g(2) Inr q by auto
    let ?mf = "map_flags AND NOT (MAP_EXECUTABLE OR MAP_DENYWRITE)"
    have mm1: "mm_ok (st_mm ?s1)" "mm_ok (cur_mm ?s1)" "no_hugetlb E (st_mm ?s1)" using mm fl by (simp_all add: cur_mm_def split: option.splits)
    obtain r pop s2 where r: "vm_mmap_remote E pers f addr len' prot ?mf offset ?s1 = Some (r, pop, s2)" "mmap_outcome E pers f len' prot ?mf (drop_bit 12 offset) ?s1 r s2"
      using vm_mmap_remote_result [OF mm1(1,2) E(1,2) mm1(3) sec] by blast
    let ?s3 = "case f of None \<Rightarrow> s2 | Some g \<Rightarrow> s2\<lparr>st_heap := fput (vfs E) g (st_heap s2)\<rparr>"
    have step: "mm_step E ?s1 s2" using r(2) by (simp add: mmap_outcome_def)
    have b: "bal E ?s3 = bal E s"
      by (rule bal_fput [OF vf, of s2 ?s1]) (use step f(3) in \<open>simp_all add: mm_step_def\<close>)
    have s3: "st_mm ?s3 = st_mm s2" "st_cur ?s3 = st_cur s2" by (simp_all split: option.split)
    have st: "mm_step E s ?s3" using step b by (simp add: mm_step_def s3)
    have "remote_mmap_outcome E cf pers len prot map_flags fd offset s r ?s3"
    proof (cases "offset_in_page r = 0")
      case True
      have cm: "cur_mm ?s1 = cur_mm s" by (simp add: cur_mm_def split: option.split)
      obtain fl pg where n: "mapped_new f r (PAGE_ALIGN len') fl pg ?s1 s2" "fl AND 7 = mmap_prot_of E pers f prot AND 7"
        "f \<noteq> None \<longrightarrow> pg = drop_bit 12 offset" "r \<le> TASK_SIZE E - PAGE_ALIGN len'"
        "map_flags AND MAP_FIXED = 0 \<longrightarrow> range_free (cur_mm s) r (PAGE_ALIGN len')"
        using r(2) True unfolding mmap_outcome_def cm by (auto simp: and.assoc)
      have "mapped_new f r (PAGE_ALIGN len') fl pg s ?s3" using n(1) by (simp add: mapped_new_def s3)
      then have "\<exists>f l fl pg. request_file cf map_flags fd f \<and> request_len E map_flags f len l \<and> r \<le> TASK_SIZE E - PAGE_ALIGN l \<and>
          fl AND 7 = mmap_prot_of E pers f prot AND 7 \<and> (f \<noteq> None \<longrightarrow> pg = drop_bit 12 offset) \<and>
          mapped_new f r (PAGE_ALIGN l) fl pg s ?s3 \<and> (map_flags AND MAP_FIXED = 0 \<longrightarrow> range_free (cur_mm s) r (PAGE_ALIGN l))"
        using f(1,2) n(2-5) by blast
      then show ?thesis using True st by (simp add: remote_mmap_outcome_def)
    next
      case False
      then show ?thesis using r(2) st by (auto simp: remote_mmap_outcome_def mmap_outcome_def s3)
    qed
    moreover have "do_mmap_remote E cf pers addr len prot map_flags fd offset s = Some (r, pop, ?s3)"
      using g(1) Inr q r(1) by (simp add: do_mmap_remote_def)
    ultimately show ?thesis by blast
  qed
qed

end
