(* ===== verification/Page_Table_Walks.thy ===== *)
theory Page_Table_Walks
  imports Mm_View
begin

text \<open>
  What the walks over page tables do.  \<open>change_protection_range\<close> comes back and changes exactly the
  entries of its range, each as \<open>change_pte\<close> says, and counts them; the three nested loops are instances
  of one locale.  \<open>move_page_tables\<close> comes back and has moved the entries of a leading part of its
  range, all of it if no table is lacking; moving them back restores every entry if the tables of the
  old place are there.  Huge pages are left out: the lemmas assume tables without them.
\<close>


section \<open>Pages of a range\<close>

definition page_list :: "64 word \<Rightarrow> 64 word \<Rightarrow> 64 word list" where
  "page_list lo hi = map (\<lambda>i. lo + of_nat (4096 * i)) [0..<unat (hi - lo) div 4096]"

lemma aligned_step:
  assumes "aligned a" "aligned b" "a < b"
  shows "a < a + 0x1000" "a + 0x1000 \<le> b" "aligned (a + 0x1000)" "unat (a + 0x1000) = unat a + 4096"
proof -
  have u: "unat a mod 4096 = 0" "unat b mod 4096 = 0" "unat a < unat b" using assms by (simp_all add: aligned_unat word_less_nat_alt)
  then have le: "unat a + 4096 \<le> unat b"
    by (metis add.commute add_le_cancel_left dvd_imp_le dvd_minus_mod linorder_not_le mod_0_imp_dvd nat_dvd_not_less
        le_add_diff_inverse less_imp_le_nat dvd_diff_nat zero_less_diff)
  have "unat b < 2 ^ LENGTH(64)" by (rule unsigned_less)
  then have s: "unat (a + 0x1000) = unat a + 4096" using le by (subst unat_add_lem [THEN iffD1]) simp_all
  then show "a < a + 0x1000" "a + 0x1000 \<le> b" "aligned (a + 0x1000)" "unat (a + 0x1000) = unat a + 4096"
    using le u by (simp_all add: word_less_nat_alt word_le_nat_alt aligned_unat mod_add_eq)
qed

lemma page_list_append:
  assumes "lo \<le> m" "m \<le> hi" "aligned lo" "aligned m"
  shows "page_list lo hi = page_list lo m @ page_list m hi"
proof -
  have u: "unat (hi - lo) = unat hi - unat lo" "unat (hi - m) = unat hi - unat m" "unat (m - lo) = unat m - unat lo"
    using assms by (simp_all add: unat_minus_le)
  have le: "unat lo \<le> unat m" "unat m \<le> unat hi" using assms by (simp_all add: word_le_nat_alt)
  obtain k where k: "unat m - unat lo = 4096 * k"
    using aligned_diff [OF assms(4,3,1)] by (auto simp: aligned_unat u dvd_def simp flip: dvd_eq_mod_eq_0)
  then have d: "(unat hi - unat lo) div 4096 = k + (unat hi - unat m) div 4096"
  proof -
    have "unat hi - unat lo = 4096 * k + (unat hi - unat m)" using k le by simp
    then show ?thesis by simp
  qed
  have "of_nat (unat (m - lo)) = m - lo" by simp
  then have mk: "of_nat (4096 * k) = m - lo" unfolding u k .
  have m: "m = lo + of_nat (4096 * k)" unfolding mk by simp
  have sh: "map (\<lambda>i. lo + of_nat (4096 * i)) [k..<k + n] = map (\<lambda>i. m + of_nat (4096 * i)) [0..<n]" for n
    by (rule nth_equalityI) (simp_all add: m algebra_simps)
  have kk: "4096 * k div 4096 = k" by simp
  show ?thesis
    unfolding page_list_def u d k kk sh [symmetric] upt_add_eq_append [OF le0] map_append by (rule refl)
qed

lemma page_list_Cons:
  assumes "lo < hi" "aligned lo" "aligned hi"
  shows "page_list lo hi = lo # page_list (lo + 0x1000) hi"
proof -
  note s = aligned_step [OF assms(2,3,1)]
  have "page_list lo (lo + 0x1000) = [lo]" by (simp add: page_list_def)
  then show ?thesis using page_list_append [of lo "lo + 0x1000" hi] s assms by simp
qed

lemma page_list_Nil [simp]: "page_list a a = []"
  by (simp add: page_list_def)

lemma page_induct [consumes 3, case_names nil cons]:
  assumes "aligned lo" "aligned hi" "lo \<le> hi"
    and "P hi" and "\<And>a. aligned a \<Longrightarrow> a < hi \<Longrightarrow> P (a + 0x1000) \<Longrightarrow> P a"
  shows "P lo"
  using assms(1,3)
proof (induction "unat hi - unat lo" arbitrary: lo rule: less_induct)
  case less
  show ?case
  proof (cases "lo = hi")
    case False
    then have lt: "lo < hi" using less by simp
    note s = aligned_step [OF less(2) assms(2) lt]
    have "unat lo < unat hi" "unat (lo + 0x1000) \<le> unat hi" using lt s by (simp_all add: word_less_nat_alt word_le_nat_alt)
    then have "P (lo + 0x1000)" using less(1) [of "lo + 0x1000"] s by simp
    then show ?thesis using assms(5) less(2) lt by blast
  qed (use assms(4) in simp)
qed

lemma page_list_set:
  assumes "aligned lo" "aligned hi" "lo \<le> hi"
  shows "set (page_list lo hi) = {a. aligned a \<and> lo \<le> a \<and> a < hi}"
  using assms
proof (induction lo rule: page_induct)
  case (cons a)
  note s = aligned_step [OF cons(1) assms(2) cons(2)]
  have "b = a" if "aligned b" "a \<le> b" "\<not> a + 0x1000 \<le> b" for b
  proof (rule ccontr)
    assume "b \<noteq> a"
    then have "a < b" using that by simp
    then show False using aligned_step(2) [OF cons(1) that(1)] that(3) by simp
  qed
  then show ?case using cons s page_list_Cons [OF cons(2,1) assms(2)] by (auto intro: order.trans less_imp_le)
qed auto

section \<open>Entries\<close>

lemma page_index: "aligned a \<Longrightarrow> aligned b \<Longrightarrow> drop_bit 12 a = drop_bit 12 b \<longleftrightarrow> a = b"
  by (metis push_drop12)

lemma pte_slot_set: "aligned a \<Longrightarrow> aligned b \<Longrightarrow> pte_slot (set_pte_at a v pt) b = (if b = a then v else pte_slot pt b)"
  by (simp add: pte_slot_def set_pte_at_def page_index)

lemma set_pte_at_simps [simp]:
  "pt_pgd (set_pte_at a v pt) = pt_pgd pt" "pt_pud (set_pte_at a v pt) = pt_pud pt" "pt_pmd (set_pte_at a v pt) = pt_pmd pt"
  "pgd_at (set_pte_at a v pt) = pgd_at pt" "pud_at (set_pte_at a v pt) = pud_at pt" "pmd_at (set_pte_at a v pt) = pmd_at pt"
  by (simp_all add: set_pte_at_def pgd_at_def pud_at_def pmd_at_def fun_eq_iff)

text \<open>The entry of an address as seen from a \<open>pmd\<close>, from a \<open>pud\<close> and from the top.\<close>

definition pmd_view :: "pgtables \<Rightarrow> 64 word \<Rightarrow> 64 word option" where
  "pmd_view pt a = (if pmd_at pt a = Pmd_table then Some (pte_slot pt a) else None)"

definition pud_view :: "pgtables \<Rightarrow> 64 word \<Rightarrow> 64 word option" where
  "pud_view pt a = (if pud_at pt a = Dir_table then pmd_view pt a else None)"

definition pte_at :: "pgtables \<Rightarrow> 64 word \<Rightarrow> 64 word option" where
  "pte_at pt a = (if pgd_at pt a = Dir_table then pud_view pt a else None)"

definition no_huge :: "pgtables \<Rightarrow> bool" where
  "no_huge pt \<longleftrightarrow> (\<forall>i. \<not> pmd_trans_huge (pt_pmd pt i) \<and> \<not> pmd_devmap (pt_pmd pt i))"

section \<open>Walks that change entries\<close>

definition changed :: "(64 word \<Rightarrow> 64 word option) \<Rightarrow> 64 word \<Rightarrow> 64 word" where
  "changed f v = (case f v of None \<Rightarrow> v | Some w \<Rightarrow> w)"

definition changes :: "(64 word \<Rightarrow> 64 word \<Rightarrow> 64 word option) \<Rightarrow> (64 word \<Rightarrow> 64 word option) \<Rightarrow> 64 word \<Rightarrow> bool" where
  "changes change view a \<longleftrightarrow> (case view a of None \<Rightarrow> False | Some v \<Rightarrow> change a v \<noteq> None)"

definition walked ::
    "(pgtables \<Rightarrow> 64 word \<Rightarrow> 64 word option) \<Rightarrow> (pgtables \<Rightarrow> 'k) \<Rightarrow> (64 word \<Rightarrow> 64 word \<Rightarrow> 64 word option) \<Rightarrow>
      64 word \<Rightarrow> 64 word \<Rightarrow> pgtables \<Rightarrow> (64 word \<times> pgtables) option \<Rightarrow> bool" where
  "walked view keep change lo hi pt res \<longleftrightarrow>
     (\<exists>n pt'. res = Some (n, pt') \<and> no_huge pt' \<and> keep pt' = keep pt \<and>
        (\<forall>a. aligned a \<longrightarrow> view pt' a = (if lo \<le> a \<and> a < hi then map_option (changed (change a)) (view pt a) else view pt a)) \<and>
        n = of_nat (length (filter (changes change (view pt)) (page_list lo hi))))"

lemma walked_append:
  assumes "walked view keep change lo m pt (Some (n, pt1))" "walked view keep change m hi pt1 (Some (k, pt2))"
    and "lo \<le> m" "m \<le> hi" "aligned lo" "aligned m" "aligned hi"
  shows "walked view keep change lo hi pt (Some (n + k, pt2))"
proof -
  have v1: "aligned a \<Longrightarrow> view pt1 a = (if lo \<le> a \<and> a < m then map_option (changed (change a)) (view pt a) else view pt a)" for a
    using assms(1) by (simp add: walked_def)
  have v2: "aligned a \<Longrightarrow> view pt2 a = (if m \<le> a \<and> a < hi then map_option (changed (change a)) (view pt1 a) else view pt1 a)" for a
    using assms(2) by (simp add: walked_def)
  have "view pt2 a = (if lo \<le> a \<and> a < hi then map_option (changed (change a)) (view pt a) else view pt a)" if "aligned a" for a
    using v1 [OF that] v2 [OF that] assms(3,4) by auto
  moreover have "filter (changes change (view pt1)) (page_list m hi) = filter (changes change (view pt)) (page_list m hi)"
  proof (rule filter_cong [OF refl])
    fix a
    assume "a \<in> set (page_list m hi)"
    then have "aligned a" "m \<le> a" using page_list_set [OF assms(6,7,4)] by auto
    then show "changes change (view pt1) a = changes change (view pt) a" using v1 [of a] by (auto simp: changes_def not_less)
  qed
  ultimately show ?thesis
    using assms(1,2) page_list_append [OF assms(3,4,5,6)] by (simp add: walked_def)
qed

text \<open>
  The loops over the entries of a level have one shape: a step for the part of the range that an
  entry covers, and the rest of the range.  Such a loop comes back, and it does to the whole range
  what its steps do to their parts.
\<close>

locale range_loop =
  fixes ok :: "'e \<Rightarrow> bool"
    and nxt :: "'e \<Rightarrow> 64 word \<Rightarrow> 64 word \<Rightarrow> 64 word"
    and step :: "'e \<Rightarrow> 64 word \<Rightarrow> 64 word \<Rightarrow> pgtables \<Rightarrow> (64 word \<times> pgtables) option"
    and walk :: "'e \<Rightarrow> 64 word \<Rightarrow> 64 word \<Rightarrow> pgtables \<Rightarrow> (64 word \<times> pgtables) option"
  assumes walk_eq: "walk e a b pt = do {
        (n, pt) \<leftarrow> step e a (nxt e a b) pt;
        (m, pt) \<leftarrow> (if nxt e a b \<noteq> b then walk e (nxt e a b) b pt else Some (0, pt));
        Some (n + m, pt)
      }"
    and nxt_ok: "ok e \<Longrightarrow> aligned a \<Longrightarrow> aligned b \<Longrightarrow> a < b \<Longrightarrow> a < nxt e a b \<and> nxt e a b \<le> b \<and> aligned (nxt e a b)"
    and step_returns: "ok e \<Longrightarrow> aligned a \<Longrightarrow> aligned b \<Longrightarrow> a < b \<Longrightarrow> step e a (nxt e a b) pt \<noteq> None"
begin

lemma walk_returns:
  assumes "ok e" "aligned b"
  shows "aligned a \<Longrightarrow> a < b \<Longrightarrow> walk e a b pt \<noteq> None"
proof (induction "unat b - unat a" arbitrary: a pt rule: less_induct)
  case less
  let ?n = "nxt e a b"
  note n = nxt_ok [OF assms(1) less(2) assms(2) less(3)]
  obtain i pt1 where st: "step e a ?n pt = Some (i, pt1)" using step_returns [OF assms(1) less(2) assms(2) less(3)] by (metis not_Some_eq surj_pair)
  show ?case
  proof (cases "?n = b")
    case True
    then show ?thesis using st by (subst walk_eq) simp
  next
    case False
    then have lt: "?n < b" using n by (auto simp: order.order_iff_strict)
    have "unat b - unat ?n < unat b - unat a" using n lt by (simp add: word_less_nat_alt diff_less_mono2)
    then obtain j pt2 where "walk e ?n b pt1 = Some (j, pt2)" using less(1) n lt by (metis not_Some_eq surj_pair)
    then show ?thesis using st False by (subst walk_eq) simp
  qed
qed

end

locale range_walk = range_loop ok nxt step walk
  for ok :: "'e \<Rightarrow> bool"
    and nxt :: "'e \<Rightarrow> 64 word \<Rightarrow> 64 word \<Rightarrow> 64 word"
    and step :: "'e \<Rightarrow> 64 word \<Rightarrow> 64 word \<Rightarrow> pgtables \<Rightarrow> (64 word \<times> pgtables) option"
    and walk :: "'e \<Rightarrow> 64 word \<Rightarrow> 64 word \<Rightarrow> pgtables \<Rightarrow> (64 word \<times> pgtables) option" +
  fixes view :: "pgtables \<Rightarrow> 64 word \<Rightarrow> 64 word option"
    and keep :: "pgtables \<Rightarrow> 'k"
    and change :: "'e \<Rightarrow> 64 word \<Rightarrow> 64 word \<Rightarrow> 64 word option"
  assumes step_ok: "ok e \<Longrightarrow> aligned a \<Longrightarrow> aligned b \<Longrightarrow> a < b \<Longrightarrow> no_huge pt \<Longrightarrow> walked view keep (change e) a (nxt e a b) pt (step e a (nxt e a b) pt)"
begin

lemma walk_result:
  assumes "ok e" "aligned b"
  shows "aligned a \<Longrightarrow> a < b \<Longrightarrow> no_huge pt \<Longrightarrow> walked view keep (change e) a b pt (walk e a b pt)"
proof (induction "unat b - unat a" arbitrary: a pt rule: less_induct)
  case less
  let ?n = "nxt e a b"
  note n = nxt_ok [OF assms(1) less(2) assms(2) less(3)]
  have s: "walked view keep (change e) a ?n pt (step e a ?n pt)" by (rule step_ok [OF assms(1) less(2) assms(2) less(3,4)])
  then obtain i pt1 where st: "step e a ?n pt = Some (i, pt1)" and nh: "no_huge pt1" by (auto simp: walked_def)
  note s = s [unfolded st]
  show ?case
  proof (cases "?n = b")
    case True
    then have "walk e a b pt = Some (i, pt1)" using st by (subst walk_eq) simp
    then show ?thesis using s True by simp
  next
    case False
    then have lt: "?n < b" using n by (auto simp: order.order_iff_strict)
    have "unat b - unat ?n < unat b - unat a" using n lt by (simp add: word_less_nat_alt diff_less_mono2)
    then have w: "walked view keep (change e) ?n b pt1 (walk e ?n b pt1)" using less(1) n lt nh by blast
    then obtain j pt2 where wk: "walk e ?n b pt1 = Some (j, pt2)" by (auto simp: walked_def)
    have "walk e a b pt = Some (i + j, pt2)" using st wk False by (subst walk_eq) simp
    then show ?thesis using walked_append [OF s w [unfolded wk]] n less(2) assms(2) by (simp add: less_imp_le)
  qed
qed

end


section \<open>Changing protections\<close>

text \<open>The arguments that the walk hands down: the environment, the area, the protection and the two switches.\<close>

type_synonym prot_change = "pt_env \<times> vm_area_struct \<times> 64 word \<times> bool \<times> bool"

definition pc_change :: "prot_change \<Rightarrow> 64 word \<Rightarrow> 64 word \<Rightarrow> 64 word option" where
  "pc_change e a v = (case e of (E, vma, newprot, da, pn) \<Rightarrow> change_pte E vma newprot a da pn v)"

text \<open>
  What the macros \<open>pgd_addr_end\<close>, \<open>pud_addr_end\<close> and \<open>pmd_addr_end\<close> give: the end of what the entry of
  an address covers, or the end of the range if that comes first.
\<close>

definition addr_end_ok :: "nat \<Rightarrow> (64 word \<Rightarrow> 64 word \<Rightarrow> 64 word) \<Rightarrow> bool" where
  "addr_end_ok k f \<longleftrightarrow> (\<forall>a b. aligned a \<longrightarrow> aligned b \<longrightarrow> a < b \<longrightarrow>
     a < f a b \<and> f a b \<le> b \<and> aligned (f a b) \<and> (\<forall>x. a \<le> x \<and> x < f a b \<longrightarrow> drop_bit k x = drop_bit k a))"

text \<open>
  What \<open>pgd_none_or_clear_bad\<close>, \<open>pud_none_or_clear_bad\<close> and \<open>pmd_none_or_clear_bad\<close> do: the answer is
  whether there is no table under the entry, and a bad entry is cleared.
\<close>

definition table_tests_ok :: "pt_env \<Rightarrow> bool" where
  "table_tests_ok E \<longleftrightarrow>
     (\<forall>a pt. pgd_none_or_clear_bad E a pt =
        (pgd_at pt a \<noteq> Dir_table, if pgd_at pt a = Dir_bad then pt\<lparr>pt_pgd := (pt_pgd pt)(drop_bit 39 a := Dir_none)\<rparr> else pt)) \<and>
     (\<forall>a pt. pud_none_or_clear_bad E a pt =
        (pud_at pt a \<noteq> Dir_table, if pud_at pt a = Dir_bad then pt\<lparr>pt_pud := (pt_pud pt)(drop_bit 30 a := Dir_none)\<rparr> else pt)) \<and>
     (\<forall>a pt. pmd_none_or_clear_bad E a pt =
        (pmd_at pt a \<noteq> Pmd_table, if pmd_at pt a \<noteq> Pmd_table \<and> pmd_at pt a \<noteq> Pmd_none then set_pmd_at a Pmd_none pt else pt))"

lemma table_testsD:
  assumes "table_tests_ok E"
  shows "pgd_none_or_clear_bad E a pt =
      (pgd_at pt a \<noteq> Dir_table, if pgd_at pt a = Dir_bad then pt\<lparr>pt_pgd := (pt_pgd pt)(drop_bit 39 a := Dir_none)\<rparr> else pt)"
    "pud_none_or_clear_bad E a pt =
      (pud_at pt a \<noteq> Dir_table, if pud_at pt a = Dir_bad then pt\<lparr>pt_pud := (pt_pud pt)(drop_bit 30 a := Dir_none)\<rparr> else pt)"
    "pmd_none_or_clear_bad E a pt =
      (pmd_at pt a \<noteq> Pmd_table, if pmd_at pt a \<noteq> Pmd_table \<and> pmd_at pt a \<noteq> Pmd_none then set_pmd_at a Pmd_none pt else pt)"
  using assms unfolding table_tests_ok_def by blast+

definition pt_env_ok :: "pt_env \<Rightarrow> bool" where
  "pt_env_ok E \<longleftrightarrow> table_tests_ok E \<and> addr_end_ok 39 (pgd_addr_end E) \<and> addr_end_ok 30 (pud_addr_end E) \<and> addr_end_ok 21 (pmd_addr_end E)"

lemma addr_end_okD:
  assumes "addr_end_ok k f" "aligned a" "aligned b" "a < b"
  shows "a < f a b" "f a b \<le> b" "aligned (f a b)" "\<And>x. a \<le> x \<Longrightarrow> x < f a b \<Longrightarrow> drop_bit k x = drop_bit k a"
  using assms unfolding addr_end_ok_def by blast+

abbreviation slot_view :: "pgtables \<Rightarrow> 64 word \<Rightarrow> 64 word option" where
  "slot_view pt a \<equiv> Some (pte_slot pt a)"

abbreviation dirs :: "pgtables \<Rightarrow> (64 word \<Rightarrow> dir_entry) \<times> (64 word \<Rightarrow> dir_entry) \<times> (64 word \<Rightarrow> pmd_entry)" where
  "dirs pt \<equiv> (pt_pgd pt, pt_pud pt, pt_pmd pt)"

lemma no_huge_pte [simp]: "no_huge (set_pte_at a v pt) = no_huge pt"
  by (simp add: no_huge_def)

lemma changed_one:
  assumes "no_huge pt" "aligned a" "aligned b" "a < b"
  shows "walked slot_view dirs change a (a + 0x1000) pt
    (Some (case change a (pte_slot pt a) of None \<Rightarrow> (0, pt) | Some v \<Rightarrow> (1, set_pte_at a v pt)))"
proof -
  note s = aligned_step [OF assms(2-4)]
  have pl: "page_list a (a + 0x1000) = [a]" by (simp add: page_list_def)
  have one: "x = a" if "aligned x" "a \<le> x" "x < a + 0x1000" for x
  proof -
    have "x \<in> set (page_list a (a + 0x1000))" using page_list_set [OF assms(2) s(3) less_imp_le [OF s(1)]] that by simp
    then show ?thesis by (simp add: pl)
  qed
  show ?thesis
    unfolding walked_def pl
    using assms(1,2) s(1) by (auto simp: changes_def changed_def pte_slot_set split: option.split dest: one)
qed

lemma change_pte_loop_walked:
  assumes "aligned addr" "aligned b" "addr < b" "no_huge pt"
  shows "\<exists>n pt'. change_pte_loop E vma newprot da pn b addr pages pt = Some (pages + n, pt') \<and>
    walked slot_view dirs (pc_change (E, vma, newprot, da, pn)) addr b pt (Some (n, pt'))"
  using assms(1,3,4)
proof (induction "unat b - unat addr" arbitrary: addr pages pt rule: less_induct)
  case less
  let ?ch = "pc_change (E, vma, newprot, da, pn)"
  note s = aligned_step [OF less(2) assms(2) less(3)]
  obtain i :: "64 word" and pt1 where st: "(case ?ch addr (pte_slot pt addr) of None \<Rightarrow> (0, pt) | Some v \<Rightarrow> (1, set_pte_at addr v pt)) = (i, pt1)" by (meson surj_pair)
  have w: "walked slot_view dirs ?ch addr (addr + 0x1000) pt (Some (i, pt1))"
    using changed_one [OF less(4,2) assms(2) less(3), of ?ch] by (simp only: st)
  have st': "(case change_pte E vma newprot addr da pn (pte_slot pt addr) of None \<Rightarrow> (pages, pt) | Some v \<Rightarrow> (pages + 1, set_pte_at addr v pt)) = (pages + i, pt1)"
    using st by (auto simp: pc_change_def split: option.splits)
  have run: "change_pte_loop E vma newprot da pn b addr pages pt =
      (if addr + 0x1000 \<noteq> b then change_pte_loop E vma newprot da pn b (addr + 0x1000) (pages + i) pt1 else Some (pages + i, pt1))"
    by (subst change_pte_loop.simps) (simp only: Let_def st' prod.case)
  show ?case
  proof (cases "addr + 0x1000 = b")
    case True
    then show ?thesis using run w by auto
  next
    case False
    then have lt: "addr + 0x1000 < b" using s by simp
    have "unat b - unat (addr + 0x1000) < unat b - unat addr" using s lt by (simp add: word_less_nat_alt diff_less_mono2)
    moreover have "no_huge pt1" using w by (simp add: walked_def)
    ultimately obtain n pt2 where r: "change_pte_loop E vma newprot da pn b (addr + 0x1000) (pages + i) pt1 = Some (pages + i + n, pt2)"
      "walked slot_view dirs ?ch (addr + 0x1000) b pt1 (Some (n, pt2))"
      using less(1) [OF _ s(3) lt, of pt1 "pages + i"] by blast
    have eq: "change_pte_loop E vma newprot da pn b addr pages pt = Some (pages + (i + n), pt2)"
      unfolding run r(1) using False by (simp add: add.assoc)
    have "walked slot_view dirs ?ch addr b pt (Some (i + n, pt2))"
      using walked_append [OF w r(2)] s less(2) assms(2) by (simp add: less_imp_le)
    with eq show ?thesis by blast
  qed
qed

lemma change_pte_loop_returns:
  assumes "aligned b"
  shows "aligned a \<Longrightarrow> a < b \<Longrightarrow> change_pte_loop E vma newprot da pn b a pages pt \<noteq> None"
proof (induction "unat b - unat a" arbitrary: a pages pt rule: less_induct)
  case less
  note s = aligned_step [OF less(2) assms less(3)]
  show ?case
  proof (cases "a + 0x1000 = b")
    case True
    then show ?thesis by (subst change_pte_loop.simps) (simp add: case_prod_unfold Let_def)
  next
    case False
    then have lt: "a + 0x1000 < b" using s by simp
    have "unat b - unat (a + 0x1000) < unat b - unat a" using s lt by (simp add: word_less_nat_alt diff_less_mono2)
    then have "change_pte_loop E vma newprot da pn b (a + 0x1000) pages pt \<noteq> None" for pages pt using less(1) s(3) lt by blast
    then show ?thesis by (subst change_pte_loop.simps) (simp add: case_prod_unfold Let_def)
  qed
qed

text \<open>A walk seen one level further up.\<close>

lemma walked_cong:
  assumes "walked view keep change lo hi pt (Some (n, pt'))"
    and "\<And>a. lo \<le> a \<Longrightarrow> a < hi \<Longrightarrow> view' pt a = view pt a" "\<And>a. lo \<le> a \<Longrightarrow> a < hi \<Longrightarrow> view' pt' a = view pt' a"
    and "\<And>a. \<not> (lo \<le> a \<and> a < hi) \<Longrightarrow> view pt' a = view pt a \<Longrightarrow> view' pt' a = view' pt a"
    and "keep' pt' = keep' pt" "aligned lo" "aligned hi" "lo \<le> hi"
  shows "walked view' keep' change lo hi pt (Some (n, pt'))"
proof -
  have "view' pt' a = (if lo \<le> a \<and> a < hi then map_option (changed (change a)) (view' pt a) else view' pt a)" if "aligned a" for a
    using assms(1) that assms(2-4) [of a] unfolding walked_def by (metis (full_types) prod.inject option.inject)
  moreover have "filter (changes change (view' pt)) (page_list lo hi) = filter (changes change (view pt)) (page_list lo hi)"
    by (rule filter_cong [OF refl]) (use page_list_set [OF assms(6-8)] assms(2) in \<open>auto simp: changes_def\<close>)
  ultimately show ?thesis using assms(1,5) by (simp add: walked_def)
qed

lemma walked_nothing:
  assumes "no_huge pt" "no_huge pt'" "keep pt' = keep pt" "\<And>a. view pt' a = view pt a" "\<And>a. lo \<le> a \<Longrightarrow> a < hi \<Longrightarrow> view pt a = None"
    "aligned lo" "aligned hi" "lo \<le> hi"
  shows "walked view keep change lo hi pt (Some (0, pt'))"
proof -
  have "filter (changes change (view pt)) (page_list lo hi) = []"
    unfolding filter_empty_conv using page_list_set [OF assms(6-8)] assms(5) by (auto simp: changes_def)
  then show ?thesis using assms by (simp add: walked_def)
qed


abbreviation pc_ok :: "prot_change \<Rightarrow> bool" where
  "pc_ok e \<equiv> pt_env_ok (fst e)"

fun pc_pmd_end :: "prot_change \<Rightarrow> 64 word \<Rightarrow> 64 word \<Rightarrow> 64 word" where
  "pc_pmd_end (E, _) = pmd_addr_end E"

fun pc_pud_end :: "prot_change \<Rightarrow> 64 word \<Rightarrow> 64 word \<Rightarrow> 64 word" where
  "pc_pud_end (E, _) = pud_addr_end E"

fun pc_pgd_end :: "prot_change \<Rightarrow> 64 word \<Rightarrow> 64 word \<Rightarrow> 64 word" where
  "pc_pgd_end (E, _) = pgd_addr_end E"

fun pc_pmd :: "prot_change \<Rightarrow> 64 word \<Rightarrow> 64 word \<Rightarrow> pgtables \<Rightarrow> (64 word \<times> pgtables) option" where
  "pc_pmd (E, vma, newprot, da, pn) = change_pmd E vma newprot da pn"

fun pc_pmds :: "prot_change \<Rightarrow> 64 word \<Rightarrow> 64 word \<Rightarrow> pgtables \<Rightarrow> (64 word \<times> pgtables) option" where
  "pc_pmds (E, vma, newprot, da, pn) = change_pmd_range E vma newprot da pn"

fun pc_pud :: "prot_change \<Rightarrow> 64 word \<Rightarrow> 64 word \<Rightarrow> pgtables \<Rightarrow> (64 word \<times> pgtables) option" where
  "pc_pud e addr nxt pt = (let (none, pt) = pud_none_or_clear_bad (fst e) addr pt in if none then Some (0, pt) else pc_pmds e addr nxt pt)"

fun pc_puds :: "prot_change \<Rightarrow> 64 word \<Rightarrow> 64 word \<Rightarrow> pgtables \<Rightarrow> (64 word \<times> pgtables) option" where
  "pc_puds (E, vma, newprot, da, pn) = change_pud_range E vma newprot da pn"

fun pc_pgd :: "prot_change \<Rightarrow> 64 word \<Rightarrow> 64 word \<Rightarrow> pgtables \<Rightarrow> (64 word \<times> pgtables) option" where
  "pc_pgd e addr nxt pt = (let (none, pt) = pgd_none_or_clear_bad (fst e) addr pt in if none then Some (0, pt) else pc_puds e addr nxt pt)"

fun pc_pgds :: "prot_change \<Rightarrow> 64 word \<Rightarrow> 64 word \<Rightarrow> pgtables \<Rightarrow> (64 word \<times> pgtables) option" where
  "pc_pgds (E, vma, newprot, da, pn) = change_pgd_range E vma newprot da pn"

lemma pc_ends:
  assumes "pc_ok e" "aligned a" "aligned b" "a < b"
  shows "a < pc_pmd_end e a b \<and> pc_pmd_end e a b \<le> b \<and> aligned (pc_pmd_end e a b)"
    "a < pc_pud_end e a b \<and> pc_pud_end e a b \<le> b \<and> aligned (pc_pud_end e a b)"
    "a < pc_pgd_end e a b \<and> pc_pgd_end e a b \<le> b \<and> aligned (pc_pgd_end e a b)"
    "\<And>x. a \<le> x \<Longrightarrow> x < pc_pmd_end e a b \<Longrightarrow> pmd_at pt x = pmd_at pt a"
    "\<And>x. a \<le> x \<Longrightarrow> x < pc_pud_end e a b \<Longrightarrow> pud_at pt x = pud_at pt a"
    "\<And>x. a \<le> x \<Longrightarrow> x < pc_pgd_end e a b \<Longrightarrow> pgd_at pt x = pgd_at pt a"
proof -
  obtain E vma np da pn where e: "e = (E, vma, np, da, pn)" by (cases e)
  have k: "addr_end_ok 39 (pgd_addr_end E)" "addr_end_ok 30 (pud_addr_end E)" "addr_end_ok 21 (pmd_addr_end E)"
    using assms(1) by (simp_all add: e pt_env_ok_def)
  note d1 = addr_end_okD [OF k(1) assms(2-4)] and d2 = addr_end_okD [OF k(2) assms(2-4)] and d3 = addr_end_okD [OF k(3) assms(2-4)]
  show "a < pc_pmd_end e a b \<and> pc_pmd_end e a b \<le> b \<and> aligned (pc_pmd_end e a b)" unfolding e pc_pmd_end.simps using d3(1-3) by blast
  show "a < pc_pud_end e a b \<and> pc_pud_end e a b \<le> b \<and> aligned (pc_pud_end e a b)" unfolding e pc_pud_end.simps using d2(1-3) by blast
  show "a < pc_pgd_end e a b \<and> pc_pgd_end e a b \<le> b \<and> aligned (pc_pgd_end e a b)" unfolding e pc_pgd_end.simps using d1(1-3) by blast
  show "\<And>x. a \<le> x \<Longrightarrow> x < pc_pmd_end e a b \<Longrightarrow> pmd_at pt x = pmd_at pt a" unfolding e pc_pmd_end.simps pmd_at_def by (rule arg_cong [OF d3(4)])
  show "\<And>x. a \<le> x \<Longrightarrow> x < pc_pud_end e a b \<Longrightarrow> pud_at pt x = pud_at pt a" unfolding e pc_pud_end.simps pud_at_def by (rule arg_cong [OF d2(4)])
  show "\<And>x. a \<le> x \<Longrightarrow> x < pc_pgd_end e a b \<Longrightarrow> pgd_at pt x = pgd_at pt a" unfolding e pc_pgd_end.simps pgd_at_def by (rule arg_cong [OF d1(4)])
qed

lemma pmd_step_returns:
  assumes ok: "pc_ok e" and al: "aligned a" "aligned b" "a < b"
  shows "pc_pmd e a (pc_pmd_end e a b) pt \<noteq> None"
proof -
  obtain E vma np da pn where e: "e = (E, vma, np, da, pn)" by (cases e)
  have n: "a < pc_pmd_end e a b" "aligned (pc_pmd_end e a b)" using pc_ends(1) [OF ok al] by auto
  have "change_pte_range E vma np da pn a (pc_pmd_end e a b) pt \<noteq> None" for pt
    using change_pte_loop_returns [OF n(2) al(1) n(1)] by (simp add: change_pte_range_def)
  then show ?thesis by (simp add: e change_pmd_def case_prod_unfold Let_def)
qed

lemma pmd_step_walked:
  assumes ok: "pc_ok e" and al: "aligned a" "aligned b" "a < b" and nh: "no_huge pt"
  shows "walked pmd_view (\<lambda>pt. (pt_pgd pt, pt_pud pt)) (pc_change e) a (pc_pmd_end e a b) pt (pc_pmd e a (pc_pmd_end e a b) pt)"
proof -
  obtain E vma np da pn where e: "e = (E, vma, np, da, pn)" by (cases e)
  let ?n = "pc_pmd_end e a b"
  have tt: "table_tests_ok E" using ok by (simp add: e pt_env_ok_def)
  note tt = table_testsD [OF tt] and n = pc_ends(1) [OF ok al] and same = pc_ends(4) [OF ok al]
  have nhe: "\<not> pmd_trans_huge (pmd_at pt a)" "\<not> pmd_devmap (pmd_at pt a)" using nh by (simp_all add: no_huge_def pmd_at_def)
  have un: "pc_pmd e a ?n pt = (let (none, pt) = pmd_none_or_clear_bad E a pt in if none then Some (0, pt) else change_pte_range E vma np da pn a ?n pt)"
    unfolding e pc_pmd.simps change_pmd_def using nhe by simp
  show ?thesis
  proof (cases "pmd_at pt a = Pmd_table")
    case True
    have sm: "\<And>x. a \<le> x \<Longrightarrow> x < ?n \<Longrightarrow> pmd_at pt x = Pmd_table" using same [of _ pt] True by (rule trans)
    have an: "a < ?n" "aligned ?n" using n by auto
    obtain i pt' where r: "change_pte_loop E vma np da pn ?n a 0 pt = Some (i, pt')" "walked slot_view dirs (pc_change e) a ?n pt (Some (i, pt'))"
      using change_pte_loop_walked [OF al(1) an(2,1) nh, of E vma np da pn 0] by (auto simp: e)
    have eq: "pc_pmd e a ?n pt = Some (i, pt')"
      unfolding un using True r(1) by (simp add: tt change_pte_range_def lock_pte_protection_def)
    have d: "pmd_at pt' = pmd_at pt" "pt_pgd pt' = pt_pgd pt" "pt_pud pt' = pt_pud pt" using r(2) by (simp_all add: walked_def pmd_at_def fun_eq_iff)
    show ?thesis
      unfolding eq by (rule walked_cong [OF r(2)]) (use sm d al n in \<open>auto simp: pmd_view_def less_imp_le\<close>)
  next
    case False
    have sm: "\<And>x. a \<le> x \<Longrightarrow> x < ?n \<Longrightarrow> pmd_at pt x \<noteq> Pmd_table" using same [of _ pt] False by metis
    obtain pt' where pt': "pmd_none_or_clear_bad E a pt = (True, pt')" "no_huge pt'" "pt_pgd pt' = pt_pgd pt" "pt_pud pt' = pt_pud pt"
      "\<And>x. pmd_view pt' x = pmd_view pt x"
    proof -
      have "pmd_none_or_clear_bad E a pt = (True, snd (pmd_none_or_clear_bad E a pt))" "no_huge (snd (pmd_none_or_clear_bad E a pt))"
        "pt_pgd (snd (pmd_none_or_clear_bad E a pt)) = pt_pgd pt" "pt_pud (snd (pmd_none_or_clear_bad E a pt)) = pt_pud pt"
        using False nh by (auto simp: tt set_pmd_at_def no_huge_def split: pmd_entry.splits)
      moreover have "pmd_view (snd (pmd_none_or_clear_bad E a pt)) x = pmd_view pt x" for x
        using False by (auto simp: tt set_pmd_at_def pmd_view_def pmd_at_def pte_slot_def split: pmd_entry.splits)
      ultimately show ?thesis using that by blast
    qed
    have eq: "pc_pmd e a ?n pt = Some (0, pt')" unfolding un using pt'(1) by simp
    show ?thesis
      unfolding eq by (rule walked_nothing [OF nh pt'(2)]) (use pt' sm al n in \<open>auto simp: pmd_view_def less_imp_le\<close>)
  qed
qed

interpretation pmds: range_walk pc_ok pc_pmd_end pc_pmd pc_pmds pmd_view "\<lambda>pt. (pt_pgd pt, pt_pud pt)" pc_change
proof unfold_locales
  fix e :: prot_change and a b pt
  obtain E vma np da pn where e: "e = (E, vma, np, da, pn)" by (cases e)
  show "pc_pmds e a b pt = do { (n, pt) \<leftarrow> pc_pmd e a (pc_pmd_end e a b) pt;
      (m, pt) \<leftarrow> (if pc_pmd_end e a b \<noteq> b then pc_pmds e (pc_pmd_end e a b) b pt else Some (0, pt)); Some (n + m, pt) }"
    unfolding e pc_pmds.simps pc_pmd.simps pc_pmd_end.simps 
    by (subst change_pmd_range.simps) (simp only: Let_def)
qed (use pc_ends(1) pmd_step_returns pmd_step_walked in auto)

lemma pud_step_returns:
  assumes ok: "pc_ok e" and al: "aligned a" "aligned b" "a < b"
  shows "pc_pud e a (pc_pud_end e a b) pt \<noteq> None"
  using pmds.walk_returns [OF ok _ al(1), of "pc_pud_end e a b"] pc_ends(2) [OF ok al] by (simp add: case_prod_unfold Let_def)

lemma pud_step_walked:
  assumes ok: "pc_ok e" and al: "aligned a" "aligned b" "a < b" and nh: "no_huge pt"
  shows "walked pud_view pt_pgd (pc_change e) a (pc_pud_end e a b) pt (pc_pud e a (pc_pud_end e a b) pt)"
proof -
  let ?n = "pc_pud_end e a b"
  have tt: "table_tests_ok (fst e)" using ok by (simp add: pt_env_ok_def)
  note tt = table_testsD [OF tt] and n = pc_ends(2) [OF ok al] and same = pc_ends(5) [OF ok al]
  show ?thesis
  proof (cases "pud_at pt a = Dir_table")
    case True
    have sm: "\<And>x. a \<le> x \<Longrightarrow> x < ?n \<Longrightarrow> pud_at pt x = Dir_table" using same [of _ pt] True by (rule trans)
    have an: "a < ?n" "aligned ?n" using n by auto
    obtain i pt' where r: "pc_pmds e a ?n pt = Some (i, pt')" "walked pmd_view (\<lambda>pt. (pt_pgd pt, pt_pud pt)) (pc_change e) a ?n pt (Some (i, pt'))"
      using pmds.walk_result [OF ok an(2) al(1) an(1) nh] by (auto simp: walked_def)
    have eq: "pc_pud e a ?n pt = Some (i, pt')" using True r(1) by (simp add: tt)
    have d: "pud_at pt' = pud_at pt" "pt_pgd pt' = pt_pgd pt" using r(2) by (simp_all add: walked_def pud_at_def fun_eq_iff)
    show ?thesis
      unfolding eq by (rule walked_cong [OF r(2)]) (use sm d al n in \<open>auto simp: pud_view_def less_imp_le\<close>)
  next
    case False
    have sm: "\<And>x. a \<le> x \<Longrightarrow> x < ?n \<Longrightarrow> pud_at pt x \<noteq> Dir_table" using same [of _ pt] False by metis
    let ?t = "snd (pud_none_or_clear_bad (fst e) a pt)"
    have t: "pud_none_or_clear_bad (fst e) a pt = (True, ?t)" "no_huge ?t" "pt_pgd ?t = pt_pgd pt"
      using False nh by (auto simp: tt no_huge_def split: dir_entry.splits)
    have v: "pud_view ?t x = pud_view pt x" for x
      using False by (auto simp: tt pud_view_def pmd_view_def pmd_at_def pud_at_def pte_slot_def split: dir_entry.splits)
    have eq: "pc_pud e a ?n pt = Some (0, ?t)" unfolding pc_pud.simps by (subst t(1)) simp
    show ?thesis
      unfolding eq by (rule walked_nothing [OF nh t(2,3) v]) (use sm al n in \<open>auto simp: pud_view_def less_imp_le\<close>)
  qed
qed

interpretation puds: range_walk pc_ok pc_pud_end pc_pud pc_puds pud_view pt_pgd pc_change
proof unfold_locales
  fix e :: prot_change and a b pt
  obtain E vma np da pn where e: "e = (E, vma, np, da, pn)" by (cases e)
  show "pc_puds e a b pt = do { (n, pt) \<leftarrow> pc_pud e a (pc_pud_end e a b) pt;
      (m, pt) \<leftarrow> (if pc_pud_end e a b \<noteq> b then pc_puds e (pc_pud_end e a b) b pt else Some (0, pt)); Some (n + m, pt) }"
    unfolding e pc_puds.simps pc_pud.simps pc_pud_end.simps pc_pmds.simps fst_conv
    by (subst change_pud_range.simps) (simp only: Let_def)
qed (use pc_ends(2) pud_step_returns pud_step_walked in auto)

lemma pgd_step_returns:
  assumes ok: "pc_ok e" and al: "aligned a" "aligned b" "a < b"
  shows "pc_pgd e a (pc_pgd_end e a b) pt \<noteq> None"
  using puds.walk_returns [OF ok _ al(1), of "pc_pgd_end e a b"] pc_ends(3) [OF ok al] by (simp add: case_prod_unfold Let_def)

lemma pgd_step_walked:
  assumes ok: "pc_ok e" and al: "aligned a" "aligned b" "a < b" and nh: "no_huge pt"
  shows "walked pte_at (\<lambda>pt. ()) (pc_change e) a (pc_pgd_end e a b) pt (pc_pgd e a (pc_pgd_end e a b) pt)"
proof -
  let ?n = "pc_pgd_end e a b"
  have tt: "table_tests_ok (fst e)" using ok by (simp add: pt_env_ok_def)
  note tt = table_testsD [OF tt] and n = pc_ends(3) [OF ok al] and same = pc_ends(6) [OF ok al]
  show ?thesis
  proof (cases "pgd_at pt a = Dir_table")
    case True
    have sm: "\<And>x. a \<le> x \<Longrightarrow> x < ?n \<Longrightarrow> pgd_at pt x = Dir_table" using same [of _ pt] True by (rule trans)
    have an: "a < ?n" "aligned ?n" using n by auto
    obtain i pt' where r: "pc_puds e a ?n pt = Some (i, pt')" "walked pud_view pt_pgd (pc_change e) a ?n pt (Some (i, pt'))"
      using puds.walk_result [OF ok an(2) al(1) an(1) nh] by (auto simp: walked_def)
    have eq: "pc_pgd e a ?n pt = Some (i, pt')" using True r(1) by (simp add: tt)
    have d: "pgd_at pt' = pgd_at pt" using r(2) by (simp_all add: walked_def pgd_at_def fun_eq_iff)
    show ?thesis
      unfolding eq by (rule walked_cong [OF r(2)]) (use sm d al n in \<open>auto simp: pte_at_def less_imp_le\<close>)
  next
    case False
    have sm: "\<And>x. a \<le> x \<Longrightarrow> x < ?n \<Longrightarrow> pgd_at pt x \<noteq> Dir_table" using same [of _ pt] False by metis
    let ?t = "snd (pgd_none_or_clear_bad (fst e) a pt)"
    have t: "pgd_none_or_clear_bad (fst e) a pt = (True, ?t)" "no_huge ?t"
      using False nh by (auto simp: tt no_huge_def split: dir_entry.splits)
    have v: "pte_at ?t x = pte_at pt x" for x
      using False by (auto simp: tt pte_at_def pgd_at_def pud_view_def pmd_view_def pmd_at_def pud_at_def pte_slot_def split: dir_entry.splits)
    have eq: "pc_pgd e a ?n pt = Some (0, ?t)" unfolding pc_pgd.simps by (subst t(1)) simp
    show ?thesis
      unfolding eq by (rule walked_nothing [OF nh t(2) refl v]) (use sm al n in \<open>auto simp: pte_at_def less_imp_le\<close>)
  qed
qed

interpretation pgds: range_walk pc_ok pc_pgd_end pc_pgd pc_pgds pte_at "\<lambda>pt. ()" pc_change
proof unfold_locales
  fix e :: prot_change and a b pt
  obtain E vma np da pn where e: "e = (E, vma, np, da, pn)" by (cases e)
  show "pc_pgds e a b pt = do { (n, pt) \<leftarrow> pc_pgd e a (pc_pgd_end e a b) pt;
      (m, pt) \<leftarrow> (if pc_pgd_end e a b \<noteq> b then pc_pgds e (pc_pgd_end e a b) b pt else Some (0, pt)); Some (n + m, pt) }"
    unfolding e pc_pgds.simps pc_pgd.simps pc_pgd_end.simps pc_puds.simps fst_conv
    by (subst change_pgd_range.simps) (simp only: Let_def)
qed (use pc_ends(3) pgd_step_returns pgd_step_walked in auto)

lemma change_protection_returns:
  assumes "pt_env_ok E" "aligned addr" "aligned e" "addr < e"
  shows "change_protection E vma addr e newprot da pn pt \<noteq> None"
proof -
  have "\<not> e \<le> addr" using assms(4) by (simp only: not_le)
  then show ?thesis using pgds.walk_returns [of "(E, vma, newprot, da, pn)" e addr pt] assms by (simp add: change_protection_def change_protection_range_def)
qed

lemma change_protection_range_result:
  assumes "pt_env_ok E" "aligned addr" "aligned e" "addr < e" "no_huge pt"
  shows "walked pte_at (\<lambda>pt. ()) (pc_change (E, vma, newprot, da, pn)) addr e pt (change_protection_range E vma addr e newprot da pn pt)"
proof -
  have "\<not> e \<le> addr" using assms(4) by (simp only: not_le)
  then show ?thesis using pgds.walk_result [of "(E, vma, newprot, da, pn)" e addr pt] assms by (simp add: change_protection_range_def)
qed


section \<open>Moving entries\<close>

text \<open>How far the walk from the top gets: to the \<open>pgd\<close>, the \<open>pud\<close>, the \<open>pmd\<close> or the entry of an address.\<close>

definition walk_depth :: "pgtables \<Rightarrow> 64 word \<Rightarrow> nat" where
  "walk_depth pt a = (if pgd_at pt a \<noteq> Dir_table then 0 else if pud_at pt a \<noteq> Dir_table then 1 else if pmd_at pt a \<noteq> Pmd_table then 2 else 3)"

definition pte_val :: "pgtables \<Rightarrow> 64 word \<Rightarrow> 64 word" where
  "pte_val pt a = (if walk_depth pt a = 3 then pte_slot pt a else 0)"

definition sound_tables :: "pgtables \<Rightarrow> bool" where
  "sound_tables pt \<longleftrightarrow> (\<forall>i. pt_pgd pt i \<noteq> Dir_bad) \<and> (\<forall>i. pt_pud pt i \<noteq> Dir_bad) \<and> (\<forall>i. pt_pmd pt i = Pmd_none \<or> pt_pmd pt i = Pmd_table)"

text \<open>Allocating tables adds empty ones: no entry changes.\<close>

definition grown :: "pgtables \<Rightarrow> pgtables \<Rightarrow> bool" where
  "grown pt pt' \<longleftrightarrow> sound_tables pt' \<and> (\<forall>a. pte_val pt' a = pte_val pt a) \<and> (\<forall>a. walk_depth pt a \<le> walk_depth pt' a)"

lemma grown_refl: "sound_tables pt \<Longrightarrow> grown pt pt"
  by (simp add: grown_def)

lemma grown_trans: "grown pt pt' \<Longrightarrow> grown pt' pt'' \<Longrightarrow> grown pt pt''"
  by (auto simp: grown_def intro: order.trans)

text \<open>
  What is assumed of \<open>__pud_alloc\<close>, \<open>__pmd_alloc\<close> and \<open>__pte_alloc\<close> for an address whose walk ends at the
  level in question, and of the tests of entries.
\<close>

definition table_alloc_ok :: "pt_env \<Rightarrow> bool" where
  "table_alloc_ok E \<longleftrightarrow>
     (\<forall>a pt e pt'. raw_pud_alloc E a pt = (e, pt') \<longrightarrow> sound_tables pt \<longrightarrow> walk_depth pt a = 0 \<longrightarrow> grown pt pt' \<and> (e = 0 \<longrightarrow> 1 \<le> walk_depth pt' a)) \<and>
     (\<forall>a pt e pt'. raw_pmd_alloc E a pt = (e, pt') \<longrightarrow> sound_tables pt \<longrightarrow> walk_depth pt a = 1 \<longrightarrow> grown pt pt' \<and> (e = 0 \<longrightarrow> 2 \<le> walk_depth pt' a)) \<and>
     (\<forall>a pt e pt'. raw_pte_alloc E a pt = (e, pt') \<longrightarrow> sound_tables pt \<longrightarrow> walk_depth pt a = 2 \<longrightarrow> grown pt pt' \<and> (e = 0 \<longrightarrow> walk_depth pt' a = 3)) \<and>
     (\<forall>v. pte_none E v \<longleftrightarrow> v = 0) \<and> table_tests_ok E"

lemma sound_entries:
  assumes "sound_tables pt"
  shows "pgd_at pt a = Dir_none \<longleftrightarrow> walk_depth pt a = 0"
    "1 \<le> walk_depth pt a \<Longrightarrow> pud_at pt a = Dir_none \<longleftrightarrow> walk_depth pt a = 1"
    "2 \<le> walk_depth pt a \<Longrightarrow> pmd_at pt a = Pmd_none \<longleftrightarrow> walk_depth pt a = 2"
    "walk_depth pt a \<le> 3" "\<not> pmd_trans_huge (pmd_at pt a)"
proof -
  have p: "pgd_at pt a = Dir_none \<or> pgd_at pt a = Dir_table" "pud_at pt a = Dir_none \<or> pud_at pt a = Dir_table"
    "pmd_at pt a = Pmd_none \<or> pmd_at pt a = Pmd_table"
    using assms dir_entry.exhaust unfolding sound_tables_def pgd_at_def pud_at_def pmd_at_def by metis+
  show "pgd_at pt a = Dir_none \<longleftrightarrow> walk_depth pt a = 0"
    "1 \<le> walk_depth pt a \<Longrightarrow> pud_at pt a = Dir_none \<longleftrightarrow> walk_depth pt a = 1"
    "2 \<le> walk_depth pt a \<Longrightarrow> pmd_at pt a = Pmd_none \<longleftrightarrow> walk_depth pt a = 2"
    "walk_depth pt a \<le> 3" "\<not> pmd_trans_huge (pmd_at pt a)"
    using p by (auto simp: walk_depth_def split: if_splits)
qed

lemma get_old_pmd_sound:
  assumes "table_alloc_ok E" "sound_tables pt"
  shows "get_old_pmd E a pt = (walk_depth pt a = 3, pt)"
proof -
  have "table_tests_ok E" using assms(1) by (simp add: table_alloc_ok_def)
  note tt = table_testsD [OF this]
  have "pgd_at pt a \<noteq> Dir_bad" "pud_at pt a \<noteq> Dir_bad" using assms(2) by (simp_all add: sound_tables_def pgd_at_def pud_at_def)
  then show ?thesis using sound_entries(3) [OF assms(2), of a] by (auto simp: get_old_pmd_def tt walk_depth_def)
qed

lemma alloc_new_pmd_result:
  assumes "table_alloc_ok E" "sound_tables pt"
  shows "\<exists>b pt'. alloc_new_pmd E a pt = (b, pt') \<and> grown pt pt' \<and> (b \<longrightarrow> 2 \<le> walk_depth pt' a)"
proof -
  have "\<exists>b pt1. pud_alloc E a pt = (b, pt1) \<and> grown pt pt1 \<and> (b \<longrightarrow> 1 \<le> walk_depth pt1 a)"
  proof (cases "walk_depth pt a = 0")
    case True
    obtain e pt1 where r: "raw_pud_alloc E a pt = (e, pt1)" by (meson surj_pair)
    then have "grown pt pt1 \<and> (e = 0 \<longrightarrow> 1 \<le> walk_depth pt1 a)" using assms True unfolding table_alloc_ok_def by blast
    then show ?thesis using sound_entries(1) [OF assms(2)] True r by (simp add: pud_alloc_def)
  next
    case False
    then have "pud_alloc E a pt = (True, pt)" "1 \<le> walk_depth pt a" using sound_entries(1) [OF assms(2)] by (simp_all add: pud_alloc_def)
    then show ?thesis using grown_refl [OF assms(2)] by blast
  qed
  then obtain b pt1 where u: "pud_alloc E a pt = (b, pt1)" "grown pt pt1" "b \<longrightarrow> 1 \<le> walk_depth pt1 a" by blast
  have s1: "sound_tables pt1" using u(2) by (simp add: grown_def)
  show ?thesis
  proof (cases b)
    case False
    then have "alloc_new_pmd E a pt = (False, pt1)" using u by (simp add: alloc_new_pmd_def)
    then show ?thesis using u(2) by blast
  next
    case b: True
    then have d: "1 \<le> walk_depth pt1 a" using u by simp
    show ?thesis
    proof (cases "walk_depth pt1 a = 1")
      case True
      obtain e pt2 where r: "raw_pmd_alloc E a pt1 = (e, pt2)" by (meson surj_pair)
      then have "grown pt1 pt2 \<and> (e = 0 \<longrightarrow> 2 \<le> walk_depth pt2 a)" using assms(1) s1 True unfolding table_alloc_ok_def by blast
      then show ?thesis using sound_entries(2) [OF s1 d] True b u r grown_trans by (auto simp: alloc_new_pmd_def pmd_alloc_def)
    next
      case False
      then have "alloc_new_pmd E a pt = (True, pt1)" "2 \<le> walk_depth pt1 a" using sound_entries(2) [OF s1 d] b u d
        by (simp_all add: alloc_new_pmd_def pmd_alloc_def)
      then show ?thesis using u(2) by blast
    qed
  qed
qed

lemma pte_alloc_result:
  assumes "table_alloc_ok E" "sound_tables pt" "2 \<le> walk_depth pt a"
  shows "\<exists>f pt'. pte_alloc E a pt = (f, pt') \<and> grown pt pt' \<and> (\<not> f \<longrightarrow> walk_depth pt' a = 3)"
proof (cases "walk_depth pt a = 2")
  case True
  obtain e pt2 where r: "raw_pte_alloc E a pt = (e, pt2)" by (meson surj_pair)
  then have "grown pt pt2 \<and> (e = 0 \<longrightarrow> walk_depth pt2 a = 3)" using assms(1,2) True unfolding table_alloc_ok_def by blast
  then show ?thesis using sound_entries(3) [OF assms(2,3)] True r by (simp add: pte_alloc_def)
next
  case False
  then have "walk_depth pt a = 3" using sound_entries(4) [OF assms(2), of a] assms(3) by linarith
  moreover from this have "pte_alloc E a pt = (False, pt)" using sound_entries(3) [OF assms(2,3)] by (simp add: pte_alloc_def)
  ultimately show ?thesis using grown_refl [OF assms(2)] by blast
qed

definition alloc_never_fails :: "pt_env \<Rightarrow> bool" where
  "alloc_never_fails E \<longleftrightarrow> (\<forall>a pt. fst (raw_pud_alloc E a pt) = 0 \<and> fst (raw_pmd_alloc E a pt) = 0 \<and> fst (raw_pte_alloc E a pt) = 0)"

lemma alloc_success:
  assumes "sound_tables pt" "walk_depth pt a = 3 \<or> alloc_never_fails E"
  shows "fst (alloc_new_pmd E a pt)" "\<not> fst (pte_alloc E a pt)"
  using assms sound_entries(1) [of pt a] sound_entries(2) [of pt a] sound_entries(3) [of pt a]
  by (auto simp: alloc_new_pmd_def pud_alloc_def pmd_alloc_def pte_alloc_def alloc_never_fails_def case_prod_unfold Let_def)

text \<open>The rest of what one \<open>pmd\<close> covers.\<close>

lemma pmd_extent:
  assumes "aligned a"
  defines "e \<equiv> ((a + 0x200000) AND NOT 0x1fffff) - a"
  shows "unat e = 0x200000 - unat a mod 0x200000" "0 < e" "aligned e"
proof -
  have m: "x AND NOT 0x1fffff = x - take_bit 21 x" for x :: "64 word"
  proof -
    have "x AND NOT 0x1fffff = push_bit 21 (drop_bit 21 x)"
    proof -
      have "(0x1fffff :: 64 word) = mask 21" by (simp add: mask_eq_exp_minus_1)
      then show ?thesis by (auto simp only: bit_eq_iff bit_simps) auto
    qed
    then show ?thesis using bits_ident [of 21 x] by (simp add: algebra_simps)
  qed
  have t: "unat (take_bit 21 x) = unat x mod 0x200000" for x :: "64 word" unfolding unsigned_take_bit_eq by (simp add: take_bit_eq_mod)
  have "unat (a + 0x200000) mod 0x200000 = unat a mod 0x200000" unfolding unat_word_ariths by (simp add: mod_mod_cancel)
  then have "take_bit 21 (a + 0x200000) = take_bit 21 a" by (simp add: word_unat_eq_iff t)
  then have e: "e = 0x200000 - take_bit 21 a" unfolding e_def m by simp
  have le: "take_bit 21 a \<le> 0x200000" unfolding word_le_nat_alt t by simp
  show u: "unat e = 0x200000 - unat a mod 0x200000" unfolding e unat_sub [OF le] t by simp
  then have "0 < unat e" by simp
  then show "0 < e" by (simp add: word_less_nat_alt)
  have "unat a mod 0x200000 mod 4096 = 0" using assms(1) by (simp add: aligned_unat mod_mod_cancel)
  then have "(0x200000 - unat a mod 0x200000) mod 4096 = 0" by (simp add: mod_eq_0_iff_dvd dvd_diff_nat)
  then show "aligned e" unfolding aligned_unat u .
qed


text \<open>All addresses of that rest have the same walk.\<close>

lemma same_pmd:
  assumes "unat b - unat a < 0x200000 - unat a mod 0x200000" "a \<le> b"
  shows "walk_depth pt b = walk_depth pt a"
proof -
  have le: "unat a \<le> unat b" using assms(2) by (simp add: word_le_nat_alt)
  have "unat b div 0x200000 = unat a div 0x200000"
  proof -
    have "unat a = unat a div 0x200000 * 0x200000 + unat a mod 0x200000" by simp
    then have "unat a div 0x200000 * 0x200000 \<le> unat b" "unat b < unat a div 0x200000 * 0x200000 + 0x200000" using assms(1) le by linarith+
    then show ?thesis by (intro div_nat_eqI) (simp_all add: algebra_simps)
  qed
  moreover have "unat (drop_bit 21 x) = unat x div 0x200000" for x :: "64 word" unfolding unat_drop_bit_eq by (simp add: drop_bit_eq_div)
  ultimately have d: "drop_bit 21 b = drop_bit 21 a" by (simp add: word_unat_eq_iff)
  moreover have "drop_bit 30 x = drop_bit 9 (drop_bit 21 x)" "drop_bit 39 x = drop_bit 18 (drop_bit 21 x)" for x :: "64 word" by simp_all
  ultimately have "drop_bit 30 b = drop_bit 30 a" "drop_bit 39 b = drop_bit 39 a" by metis+
  with d show ?thesis by (simp add: walk_depth_def pgd_at_def pud_at_def pmd_at_def)
qed

definition moved_pte :: "pt_env \<Rightarrow> 64 word \<Rightarrow> 64 word \<Rightarrow> 64 word \<Rightarrow> 64 word \<Rightarrow> 64 word" where
  "moved_pte E prot old new v = (if v = 0 then 0 else move_soft_dirty_pte E (move_pte E v prot old new))"

text \<open>The entries after \<open>n\<close> bytes from \<open>old\<close> on have moved to \<open>new\<close>.\<close>

definition moved :: "pt_env \<Rightarrow> 64 word \<Rightarrow> 64 word \<Rightarrow> 64 word \<Rightarrow> 64 word \<Rightarrow> (64 word \<Rightarrow> 64 word) \<Rightarrow> (64 word \<Rightarrow> 64 word) \<Rightarrow> bool" where
  "moved E prot old new n f f' \<longleftrightarrow> (\<forall>a. aligned a \<longrightarrow> f' a =
     (if new \<le> a \<and> a < new + n then moved_pte E prot (old + (a - new)) a (f (old + (a - new)))
      else if old \<le> a \<and> a < old + n then 0 else f a))"

lemma unat_add_small: "unat a + unat b < 2 ^ 64 \<Longrightarrow> unat (a + b :: 64 word) = unat a + unat b"
  by (simp add: unat_word_ariths)

lemma in_range:
  assumes "unat x + unat n < 2 ^ 64"
  shows "x \<le> a \<and> a < x + (n :: 64 word) \<longleftrightarrow> unat x \<le> unat a \<and> unat a < unat x + unat n"
  unfolding word_le_nat_alt word_less_nat_alt unat_add_small [OF assms] by (rule refl)

text \<open>Two ranges that do not wrap and do not meet.\<close>

definition apart :: "64 word \<Rightarrow> 64 word \<Rightarrow> 64 word \<Rightarrow> bool" where
  "apart old new n \<longleftrightarrow> aligned old \<and> aligned new \<and> aligned n \<and> unat old + unat n < 2 ^ 64 \<and> unat new + unat n < 2 ^ 64 \<and>
     (unat old + unat n \<le> unat new \<or> unat new + unat n \<le> unat old)"

definition empty_range :: "(64 word \<Rightarrow> 64 word) \<Rightarrow> 64 word \<Rightarrow> 64 word \<Rightarrow> bool" where
  "empty_range f new n \<longleftrightarrow> (\<forall>a. aligned a \<longrightarrow> new \<le> a \<longrightarrow> a < new + n \<longrightarrow> f a = 0)"

lemma aligned_add: "aligned a \<Longrightarrow> aligned b \<Longrightarrow> unat a + unat b < 2 ^ 64 \<Longrightarrow> aligned (a + b)"
  by (simp add: aligned_unat unat_add_small) (simp add: mod_add_eq [symmetric])

lemma apart_split:
  assumes "apart old new n" "m \<le> n" "aligned m"
  shows "apart old new m" "apart (old + m) (new + m) (n - m)"
    "unat (old + m) = unat old + unat m" "unat (new + m) = unat new + unat m" "unat (n - m) = unat n - unat m" "unat m \<le> unat n"
proof -
  have mn: "unat m \<le> unat n" using assms(2) by (simp add: word_le_nat_alt)
  have b: "unat old + unat m < 2 ^ 64" "unat new + unat m < 2 ^ 64" using assms(1) mn by (auto simp: apart_def)
  note u = unat_add_small [OF b(1)] unat_add_small [OF b(2)]
  show un: "unat (old + m) = unat old + unat m" "unat (new + m) = unat new + unat m" "unat (n - m) = unat n - unat m" "unat m \<le> unat n"
    using u mn unat_sub [OF assms(2)] by simp_all
  show "apart old new m" using assms b mn by (auto simp: apart_def)
  have al: "aligned (old + m)" "aligned (new + m)" "aligned (n - m)"
    using assms b aligned_diff [of n m] aligned_add by (auto simp: apart_def)
  show "apart (old + m) (new + m) (n - m)" unfolding apart_def un using assms(1) mn al by (auto simp: apart_def)
qed

lemma moved_empty:
  assumes a: "apart old new n" "m \<le> n" "aligned m" and v: "empty_range f new n" and mv: "moved E prot old new m f g"
  shows "empty_range g (new + m) (n - m)"
proof -
  note s = apart_split [OF a]
  have w: "unat old + unat n < 2 ^ 64" "unat new + unat n < 2 ^ 64" "unat old + unat m < 2 ^ 64" "unat new + unat m < 2 ^ 64"
    "unat old + unat n \<le> unat new \<or> unat new + unat n \<le> unat old"
    using a(1) s by (auto simp: apart_def)
  note r = in_range [OF w(1)] in_range [OF w(2)] in_range [OF w(3)] in_range [OF w(4)]
  have e: "new + m + (n - m) = new + n" by simp
  have g: "g y = (if unat new \<le> unat y \<and> unat y < unat new + unat m then moved_pte E prot (old + (y - new)) y (f (old + (y - new)))
      else if unat old \<le> unat y \<and> unat y < unat old + unat m then 0 else f y)" if "aligned y" for y
    using mv that unfolding moved_def r by blast
  have fe: "f y = 0" if "aligned y" "unat new \<le> unat y" "unat y < unat new + unat n" for y
  proof -
    have "new \<le> y \<and> y < new + n" unfolding r using that by simp
    then show ?thesis using v that(1) unfolding empty_range_def by blast
  qed
  show ?thesis
    unfolding empty_range_def e
  proof (intro allI impI)
    fix y
    assume y: "aligned y" "new + m \<le> y" "y < new + n"
    then have k: "unat new + unat m \<le> unat y" "unat y < unat new + unat n"
      using s(4) unat_add_small [OF w(2)] by (simp_all add: word_le_nat_alt word_less_nat_alt)
    then show "g y = 0" unfolding g [OF y(1)] using fe [OF y(1)] by simp
  qed
qed

lemma moved_append:
  assumes a: "apart old new n" "m \<le> n" "aligned m"
    and mv: "moved E prot old new m f g" "moved E prot (old + m) (new + m) (n - m) g h"
  shows "moved E prot old new n f h"
proof -
  note s = apart_split [OF a]
  have w: "unat old + unat n < 2 ^ 64" "unat new + unat n < 2 ^ 64" "unat old + unat m < 2 ^ 64" "unat new + unat m < 2 ^ 64"
    "unat (old + m) + unat (n - m) < 2 ^ 64" "unat (new + m) + unat (n - m) < 2 ^ 64"
    "unat old + unat n \<le> unat new \<or> unat new + unat n \<le> unat old"
    using a(1) s by (auto simp: apart_def)
  note r = in_range [OF w(1)] in_range [OF w(2)] in_range [OF w(3)] in_range [OF w(4)] in_range [OF w(5)] in_range [OF w(6)]
  have g: "g y = (if unat new \<le> unat y \<and> unat y < unat new + unat m then moved_pte E prot (old + (y - new)) y (f (old + (y - new)))
      else if unat old \<le> unat y \<and> unat y < unat old + unat m then 0 else f y)" if "aligned y" for y
    using mv(1) that unfolding moved_def r by blast
  have h: "h y = (if unat (new + m) \<le> unat y \<and> unat y < unat (new + m) + unat (n - m)
      then moved_pte E prot (old + (y - new)) y (g (old + (y - new)))
      else if unat (old + m) \<le> unat y \<and> unat y < unat (old + m) + unat (n - m) then 0 else g y)" if "aligned y" for y
  proof -
    have "old + m + (y - (new + m)) = old + (y - new)" by simp
    then show ?thesis using mv(2) that unfolding moved_def r by metis
  qed
  have al: "aligned old" "aligned new" using a(1) by (simp_all add: apart_def)
  have y: "aligned (old + (x - new))" "unat (old + (x - new)) = unat old + (unat x - unat new)"
    if "aligned x" "unat new \<le> unat x" "unat x < unat new + unat n" for x
  proof -
    have le: "new \<le> x" using that(2) by (simp add: word_le_nat_alt)
    have sm: "unat old + unat (x - new) < 2 ^ 64" using w(1) that unat_sub [OF le] by simp
    show "unat (old + (x - new)) = unat old + (unat x - unat new)" using unat_add_small [OF sm] unat_sub [OF le] by simp
    show "aligned (old + (x - new))" by (rule aligned_add [OF al(1) aligned_diff [OF that(1) al(2) le] sm])
  qed
  have u: "unat (new + m) + unat (n - m) = unat new + unat n" "unat (old + m) + unat (n - m) = unat old + unat n" using s by simp_all
  show "moved E prot old new n f h"
    unfolding moved_def r
  proof (intro allI impI)
    fix x
    assume x: "aligned x"
    show "h x = (if unat new \<le> unat x \<and> unat x < unat new + unat n then moved_pte E prot (old + (x - new)) x (f (old + (x - new)))
      else if unat old \<le> unat x \<and> unat x < unat old + unat n then 0 else f x)"
    proof (cases "unat new + unat m \<le> unat x \<and> unat x < unat new + unat n")
      case True
      then have "g (old + (x - new)) = f (old + (x - new))" using g [OF y(1)] y(2) x w(7) s(6) by auto
      then show ?thesis unfolding h [OF x] u unfolding s(3,4) using True by simp
    next
      case False
      have "h x = (if unat old + unat m \<le> unat x \<and> unat x < unat old + unat n then 0 else g x)"
        unfolding h [OF x] u unfolding s(3,4) by (rule if_not_P [OF False])
      then show ?thesis unfolding g [OF x] using False w(7) s(6) by auto
    qed
  qed
qed


lemma aligned_in_page:
  assumes "aligned a" "aligned x" "unat a \<le> unat x" "unat x < unat a + 4096"
  shows "x = a"
proof -
  obtain i j where ij: "unat a = 4096 * i" "unat x = 4096 * j" using assms(1,2) by (auto simp: aligned_unat mod_eq_0_iff_dvd elim!: dvdE)
  then have "i = j" using assms(3,4) by simp
  then show ?thesis using ij by (simp add: word_unat_eq_iff)
qed

lemma aligned_nonzero:
  assumes "aligned n" "n \<noteq> 0"
  shows "0x1000 \<le> n"
proof -
  obtain i where "unat n = 4096 * i" using assms(1) by (auto simp: aligned_unat mod_eq_0_iff_dvd elim!: dvdE)
  moreover have "unat n \<noteq> 0" using assms(2) by (simp add: unat_eq_zero)
  ultimately show ?thesis by (simp add: word_le_nat_alt)
qed

lemma moved_page:
  assumes "apart old new 0x1000" "pte_slot pt new = 0"
  shows "moved E prot old new 0x1000 (pte_slot pt) (pte_slot
    (if pte_slot pt old = 0 then pt else set_pte_at new (move_soft_dirty_pte E (move_pte E (pte_slot pt old) prot old new)) (set_pte_at old 0 pt)))"
proof -
  have al: "aligned old" "aligned new" and w: "unat old + unat (0x1000 :: 64 word) < 2 ^ 64" "unat new + unat (0x1000 :: 64 word) < 2 ^ 64"
    and ne: "unat old \<noteq> unat new" using assms(1) by (auto simp: apart_def)
  have one: "unat y \<le> unat x \<and> unat x < unat y + unat (0x1000 :: 64 word) \<longleftrightarrow> x = y" if "aligned x" "aligned y" for x y
    using aligned_in_page [OF that(2,1)] by auto
  show ?thesis
    unfolding moved_def in_range [OF w(1)] in_range [OF w(2)]
  proof (intro allI impI)
    fix a
    assume a: "aligned a"
    show "pte_slot (if pte_slot pt old = 0 then pt
        else set_pte_at new (move_soft_dirty_pte E (move_pte E (pte_slot pt old) prot old new)) (set_pte_at old 0 pt)) a =
      (if unat new \<le> unat a \<and> unat a < unat new + unat (0x1000 :: 64 word) then moved_pte E prot (old + (a - new)) a (pte_slot pt (old + (a - new)))
       else if unat old \<le> unat a \<and> unat a < unat old + unat (0x1000 :: 64 word) then 0 else pte_slot pt a)"
      unfolding one [OF a al(1)] one [OF a al(2)] using assms(2) ne by (auto simp: moved_pte_def pte_slot_set al a)
  qed
qed

lemma move_ptes_result:
  assumes E: "\<And>v. pte_none E v \<longleftrightarrow> v = 0"
  shows "apart old new n \<Longrightarrow> empty_range (pte_slot pt) new n \<Longrightarrow>
    \<exists>pt'. move_ptes E prot (old + n) old new pt = Some pt' \<and> dirs pt' = dirs pt \<and> moved E prot old new n (pte_slot pt) (pte_slot pt')"
proof (induction "unat n" arbitrary: old new n pt rule: less_induct)
  case less
  show ?case
  proof (cases "n = 0")
    case True
    then have "move_ptes E prot (old + n) old new pt = Some pt" by (subst move_ptes.simps) simp
    moreover have "moved E prot old new n (pte_slot pt) (pte_slot pt)" using True by (auto simp: moved_def dest: leD)
    ultimately show ?thesis by blast
  next
    case False
    have an: "aligned n" "unat old + unat n < 2 ^ 64" "aligned new" using less(2) by (simp_all add: apart_def)
    have n: "0x1000 \<le> n" by (rule aligned_nonzero [OF an(1) False])
    have al: "aligned 0x1000" by (simp add: aligned_unat)
    note s = apart_split [OF less(2) n al]
    let ?pt = "if pte_slot pt old = 0 then pt else set_pte_at new (move_soft_dirty_pte E (move_pte E (pte_slot pt old) prot old new)) (set_pte_at old 0 pt)"
    have lt: "old < old + n"
      using False unat_add_small [OF an(2)] by (simp add: word_less_nat_alt) (metis unat_gt_0)
    have run: "move_ptes E prot (old + n) old new pt = move_ptes E prot (old + 0x1000 + (n - 0x1000)) (old + 0x1000) (new + 0x1000) ?pt"
      using lt by (subst move_ptes.simps) (simp add: E Let_def)
    have e0: "pte_slot pt new = 0"
    proof -
      have "new < new + n" using less(2) False unat_add_small [of new n] by (auto simp: apart_def word_less_nat_alt unat_gt_0)
      then show ?thesis using less(3) an(3) by (simp add: empty_range_def)
    qed
    have mv: "moved E prot old new 0x1000 (pte_slot pt) (pte_slot ?pt)" by (rule moved_page [OF s(1) e0])
    have em: "empty_range (pte_slot ?pt) (new + 0x1000) (n - 0x1000)" by (rule moved_empty [OF less(2) n al less(3) mv])
    have "unat (n - 0x1000) < unat n" using s(5) n by (simp add: word_le_nat_alt)
    from less(1) [OF this s(2) em] obtain pt' where
      r: "move_ptes E prot (old + 0x1000 + (n - 0x1000)) (old + 0x1000) (new + 0x1000) ?pt = Some pt'" "dirs pt' = dirs ?pt"
        "moved E prot (old + 0x1000) (new + 0x1000) (n - 0x1000) (pte_slot ?pt) (pte_slot pt')" by blast
    have "moved E prot old new n (pte_slot pt) (pte_slot pt')" by (rule moved_append [OF less(2) n al mv r(3)])
    moreover have "dirs ?pt = dirs pt" by simp
    ultimately show ?thesis using run r(1,2) by metis
  qed
qed


lemma same_pmd_range:
  assumes "aligned a" "m \<le> ((a + 0x200000) AND NOT 0x1fffff) - a" "unat a + unat m < 2 ^ 64" "a \<le> x" "x < a + m"
  shows "walk_depth pt x = walk_depth pt a"
proof (rule same_pmd [OF _ assms(4)])
  have "unat m \<le> 0x200000 - unat a mod 0x200000" using assms(2) pmd_extent(1) [OF assms(1)] by (simp add: word_le_nat_alt)
  moreover have "unat x < unat a + unat m" using assms(5) unat_add_small [OF assms(3)] by (simp add: word_less_nat_alt)
  ultimately show "unat x - unat a < 0x200000 - unat a mod 0x200000" using assms(4) by (simp add: word_le_nat_alt)
qed

lemma shift_range:
  assumes "apart old new m" "new \<le> a" "a < new + m"
  shows "old \<le> old + (a - new)" "old + (a - new) < old + m" "aligned a \<Longrightarrow> aligned (old + (a - new))"
proof -
  have w: "unat old + unat m < 2 ^ 64" "unat new + unat m < 2 ^ 64" and al: "aligned old" "aligned new" using assms(1) by (auto simp: apart_def)
  have u: "unat new \<le> unat a" "unat a < unat new + unat m" using in_range [OF w(2), of a] assms(2,3) by auto
  have sm: "unat old + unat (a - new) < 2 ^ 64" using w u unat_sub [OF assms(2)] by simp
  have e: "unat (old + (a - new)) = unat old + (unat a - unat new)" unfolding unat_add_small [OF sm] unat_sub [OF assms(2)] ..
  have "unat old \<le> unat (old + (a - new)) \<and> unat (old + (a - new)) < unat old + unat m" unfolding e using u by linarith
  then show "old \<le> old + (a - new)" "old + (a - new) < old + m" using in_range [OF w(1)] by blast+
  show "aligned (old + (a - new))" if "aligned a" by (rule aligned_add [OF al(1) aligned_diff [OF that al(2) assms(2)] sm])
qed

lemma moved_nothing:
  assumes "apart old new m" "empty_range f new m" "empty_range f old m"
  shows "moved E prot old new m f f"
proof -
  have "f (old + (a - new)) = 0" if "aligned a" "new \<le> a" "a < new + m" for a
    using shift_range [OF assms(1) that(2,3)] that(1) assms(3) by (simp add: empty_range_def)
  then show ?thesis using assms(2,3) by (auto simp: moved_def moved_pte_def empty_range_def)
qed

lemma empty_range_less: "empty_range f new n \<Longrightarrow> m \<le> n \<Longrightarrow> unat new + unat n < 2 ^ 64 \<Longrightarrow> empty_range f new m"
  unfolding empty_range_def
proof (intro allI impI)
  fix a
  assume e: "\<forall>a. aligned a \<longrightarrow> new \<le> a \<longrightarrow> a < new + n \<longrightarrow> f a = 0" and m: "m \<le> n" "unat new + unat n < 2 ^ 64" and a: "aligned a" "new \<le> a" "a < new + m"
  have "unat new + unat m < 2 ^ 64" using m by (simp add: word_le_nat_alt)
  then have "a < new + n" using a(3) m unat_add_small [of new m] unat_add_small [OF m(2)] by (simp add: word_le_nat_alt word_less_nat_alt)
  then show "f a = 0" using e a by blast
qed

lemma moved_vals:
  assumes ap: "apart old new m" and mv: "moved E prot old new m (pte_slot pt) (pte_slot pt')" and d: "dirs pt' = dirs pt"
    and o3: "\<And>x. old \<le> x \<Longrightarrow> x < old + m \<Longrightarrow> walk_depth pt x = 3" and n3: "\<And>x. new \<le> x \<Longrightarrow> x < new + m \<Longrightarrow> walk_depth pt x = 3"
  shows "moved E prot old new m (pte_val pt) (pte_val pt')" "walk_depth pt' = walk_depth pt"
proof -
  show dp: "walk_depth pt' = walk_depth pt" using d by (simp add: walk_depth_def pgd_at_def pud_at_def pmd_at_def fun_eq_iff)
  have z: "walk_depth pt (old + (a - new)) = 3" if "new \<le> a" "a < new + m" for a
    using shift_range(1,2) [OF ap that] o3 by blast
  show "moved E prot old new m (pte_val pt) (pte_val pt')"
    using mv unfolding moved_def pte_val_def dp by (auto simp: n3 o3 z)
qed

lemma move_extent_result:
  assumes E: "table_alloc_ok E" and so: "sound_tables pt" and ap: "apart old new n" and n0: "n \<noteq> 0" and em: "empty_range (pte_val pt) new n"
  shows "\<exists>r pt'. move_extent E nv (old + n) old new pt = Some (r, pt') \<and> sound_tables pt' \<and> (\<forall>a. walk_depth pt a \<le> walk_depth pt' a) \<and>
    (case r of None \<Rightarrow> grown pt pt' | Some m \<Rightarrow> m \<noteq> 0 \<and> m \<le> n \<and> aligned m \<and> moved E (vm_page_prot nv) old new m (pte_val pt) (pte_val pt')) \<and>
    (r = None \<longrightarrow> walk_depth pt new \<noteq> 3 \<and> \<not> alloc_never_fails E)"
proof -
  have al: "aligned old" "aligned new" "aligned n" and w: "unat old + unat n < 2 ^ 64" "unat new + unat n < 2 ^ 64" using ap by (auto simp: apart_def)
  let ?x = "((old + 0x200000) AND NOT 0x1fffff) - old" and ?y = "((new + 0x200000) AND NOT 0x1fffff) - new"
  define x where "x = (if ?x > n then n else ?x)"
  have x: "x \<noteq> 0" "x \<le> n" "aligned x" "x \<le> ?x" using pmd_extent [OF al(1)] n0 al(3) by (auto simp: x_def)
  define y where "y = (if (if x > ?y then ?y else x) > 0x40000 then 0x40000 else if x > ?y then ?y else x)"
  have y: "y \<noteq> 0" "y \<le> x" "aligned y" "y \<le> ?y"
    using pmd_extent [OF al(2)] x by (auto simp: y_def aligned_unat)
  obtain b pt1 where a1: "alloc_new_pmd E new pt = (b, pt1)" "grown pt pt1" "b \<longrightarrow> 2 \<le> walk_depth pt1 new"
    using alloc_new_pmd_result [OF E so] by blast
  have s1: "sound_tables pt1" using a1(2) by (simp add: grown_def)
  have on: "old + n - old = n" by simp
  have run: "move_extent E nv (old + n) old new pt =
      (if walk_depth pt old \<noteq> 3 then Some (Some x, pt)
       else if \<not> b then Some (None, pt1)
       else let (failed, pt2) = pte_alloc E new pt1
            in if failed then Some (None, pt2)
               else do { pt \<leftarrow> move_ptes E (vm_page_prot nv) (old + y) old new pt2; Some (Some y, pt) })"
    unfolding move_extent_def get_old_pmd_sound [OF E so] Let_def prod.case a1(1) on x_def [symmetric] y_def [symmetric]
    by (simp only: sound_entries(5) [OF s1] if_False prod.case)
  show ?thesis
  proof (cases "walk_depth pt old = 3")
    case False
    note ax = apart_split [OF ap x(2,3)]
    have "walk_depth pt a \<noteq> 3" if "old \<le> a" "a < old + x" for a
      using same_pmd_range [OF al(1) x(4) _ that] False ax(6) w(1) by simp
    then have "empty_range (pte_val pt) old x" by (simp add: empty_range_def pte_val_def)
    then have "moved E (vm_page_prot nv) old new x (pte_val pt) (pte_val pt)"
      by (rule moved_nothing [OF ax(1) empty_range_less [OF em x(2) w(2)]])
    then show ?thesis using run False so x by simp
  next
    case d3: True
    show ?thesis
    proof (cases b)
      case False
      then show ?thesis using run d3 a1(2) alloc_success(1) [OF so, of new E] a1(1) by (auto simp: grown_def)
    next
      case b: True
      obtain f pt2 where a2: "pte_alloc E new pt1 = (f, pt2)" "grown pt1 pt2" "\<not> f \<longrightarrow> walk_depth pt2 new = 3"
        using pte_alloc_result [OF E s1] a1(3) b by blast
      have g2: "grown pt pt2" by (rule grown_trans [OF a1(2) a2(2)])
      show ?thesis
      proof (cases f)
        case True
        moreover have "walk_depth pt1 new \<noteq> 3" "\<not> alloc_never_fails E" using alloc_success(2) [OF s1, of new E] a2(1) True by auto
        moreover have "walk_depth pt new \<noteq> 3" using calculation(2) a1(2) sound_entries(4) [OF s1, of new] unfolding grown_def by (metis le_antisym)
        ultimately show ?thesis using run d3 b a2(1) g2 by (simp add: grown_def)
      next
        case False
        have yn: "y \<le> n" using x(2) y(2) by simp
        note ay = apart_split [OF ap yn y(3)]
        have yx: "y \<le> ?x" using x(4) y(2) by simp
        have dn: "walk_depth pt2 a = 3" if "new \<le> a" "a < new + y" for a
          using same_pmd_range [OF al(2) y(4) _ that] a2(3) False ay(6) w(2) by simp
        have "walk_depth pt2 old = 3"
          using g2 d3 sound_entries(4) [of pt2 old] unfolding grown_def by (metis le_antisym)
        then have do: "walk_depth pt2 a = 3" if "old \<le> a" "a < old + y" for a
          using same_pmd_range [OF al(1) yx _ that] ay(6) w(1) by simp
        have v2: "pte_val pt2 = pte_val pt" using g2 by (simp add: grown_def fun_eq_iff)
        have ey: "empty_range (pte_slot pt2) new y"
          using empty_range_less [OF em yn w(2)] dn unfolding empty_range_def v2 [symmetric] by (simp add: pte_val_def)
        have nn: "\<And>v. pte_none E v \<longleftrightarrow> v = 0" using E by (simp add: table_alloc_ok_def)
        obtain pt3 where m: "move_ptes E (vm_page_prot nv) (old + y) old new pt2 = Some pt3" "dirs pt3 = dirs pt2"
          "moved E (vm_page_prot nv) old new y (pte_slot pt2) (pte_slot pt3)"
          using move_ptes_result [OF nn ay(1) ey] by blast
        note mv = moved_vals [OF ay(1) m(3,2) do dn]
        have "sound_tables pt3" "\<forall>a. walk_depth pt a \<le> walk_depth pt3 a" using g2 m(2) mv(2) by (simp_all add: grown_def sound_tables_def)
        then show ?thesis using run d3 b a2(1) False m(1) y yn mv(1) v2 by simp
      qed
    qed
  qed
qed


lemma moved_zero: "moved E prot old new 0 f f' \<longleftrightarrow> (\<forall>a. aligned a \<longrightarrow> f' a = f a)"
proof -
  have "\<not> (x \<le> a \<and> a < x + 0)" for x a :: "64 word" by (metis add_0_right leD)
  then show ?thesis unfolding moved_def by (simp only: if_False)
qed

lemma move_extents_result:
  assumes E: "table_alloc_ok E"
  shows "sound_tables pt \<Longrightarrow> apart old new n \<Longrightarrow> empty_range (pte_val pt) new n \<Longrightarrow>
    \<exists>d pt'. move_extents E nv (old + n) old new pt = Some (old + d, pt') \<and> d \<le> n \<and> aligned d \<and> sound_tables pt' \<and>
      (\<forall>a. walk_depth pt a \<le> walk_depth pt' a) \<and> moved E (vm_page_prot nv) old new d (pte_val pt) (pte_val pt') \<and>
      ((\<forall>a. new \<le> a \<longrightarrow> a < new + n \<longrightarrow> walk_depth pt a = 3) \<or> alloc_never_fails E \<longrightarrow> d = n)"
proof (induction "unat n" arbitrary: old new n pt rule: less_induct)
  case less
  show ?case
  proof (cases "n = 0")
    case True
    then have "move_extents E nv (old + n) old new pt = Some (old + 0, pt)" by (subst move_extents.simps) simp
    moreover have "moved E (vm_page_prot nv) old new 0 (pte_val pt) (pte_val pt)" by (simp add: moved_zero)
    ultimately show ?thesis using True less(2) by (intro exI [of _ 0] exI [of _ pt]) (simp add: aligned_unat)
  next
    case False
    have w: "unat old + unat n < 2 ^ 64" "unat new + unat n < 2 ^ 64" "aligned new" "aligned n" using less(3) by (auto simp: apart_def)
    have lt: "old < old + n" "new < new + n"
      using False unat_add_small [OF w(1)] unat_add_small [OF w(2)] by (simp_all add: word_less_nat_alt unat_gt_0)
    obtain r pt1 where m: "move_extent E nv (old + n) old new pt = Some (r, pt1)" "sound_tables pt1" "\<forall>a. walk_depth pt a \<le> walk_depth pt1 a"
      "case r of None \<Rightarrow> grown pt pt1 | Some m \<Rightarrow> m \<noteq> 0 \<and> m \<le> n \<and> aligned m \<and> moved E (vm_page_prot nv) old new m (pte_val pt) (pte_val pt1)"
      "r = None \<longrightarrow> walk_depth pt new \<noteq> 3 \<and> \<not> alloc_never_fails E"
      using move_extent_result [OF E less(2,3) False less(4), of nv] by blast
    show ?thesis
    proof (cases r)
      case None
      have "move_extents E nv (old + n) old new pt = Some (old + 0, pt1)" using m(1) lt None by (subst move_extents.simps) simp
      moreover have "moved E (vm_page_prot nv) old new 0 (pte_val pt) (pte_val pt1)" using m(4) None by (simp add: moved_zero grown_def)
      moreover have "\<not> ((\<forall>a. new \<le> a \<longrightarrow> a < new + n \<longrightarrow> walk_depth pt a = 3) \<or> alloc_never_fails E)" using m(5) None lt(2) by auto
      ultimately show ?thesis using m(2,3) by (intro exI [of _ 0] exI [of _ pt1]) (auto simp: aligned_unat)
    next
      case (Some k)
      have k: "k \<noteq> 0" "k \<le> n" "aligned k" "moved E (vm_page_prot nv) old new k (pte_val pt) (pte_val pt1)" using m(4) Some by simp_all
      note s = apart_split [OF less(3) k(2,3)]
      have "unat k \<noteq> 0" using k(1) by (simp add: unat_eq_zero)
      then have dec: "unat (n - k) < unat n" using s(5,6) by simp
      have em: "empty_range (pte_val pt1) (new + k) (n - k)" by (rule moved_empty [OF less(3) k(2,3) less(4) k(4)])
      from less(1) [OF dec m(2) s(2) em] obtain d pt2 where
        r: "move_extents E nv (old + k + (n - k)) (old + k) (new + k) pt1 = Some (old + k + d, pt2)" "d \<le> n - k" "aligned d" "sound_tables pt2"
          "\<forall>a. walk_depth pt1 a \<le> walk_depth pt2 a" "moved E (vm_page_prot nv) (old + k) (new + k) d (pte_val pt1) (pte_val pt2)"
          "(\<forall>a. new + k \<le> a \<longrightarrow> a < new + k + (n - k) \<longrightarrow> walk_depth pt1 a = 3) \<or> alloc_never_fails E \<longrightarrow> d = n - k"
        by blast
      have eq: "move_extents E nv (old + n) old new pt = Some (old + (k + d), pt2)"
        using m(1) lt(1) Some r(1) by (subst move_extents.simps) (simp add: add.assoc)
      have ud: "unat k + unat d \<le> unat n" using r(2) s(5,6) by (simp add: word_le_nat_alt)
      have lim: "unat n < 2 ^ 64" using w(1) by simp
      have uk: "unat (k + d) = unat k + unat d" by (rule unat_add_small) (use ud lim in linarith)
      have kd: "k + d \<le> n" "k \<le> k + d" using ud uk by (simp_all add: word_le_nat_alt)
      have al: "aligned (k + d)" by (rule aligned_add [OF k(3) r(3)]) (use ud lim in linarith)
      note t = apart_split [OF less(3) kd(1) al]
      have "moved E (vm_page_prot nv) old new (k + d) (pte_val pt) (pte_val pt2)"
        by (rule moved_append [OF t(1) kd(2) k(3,4)]) (use r(6) in simp)
      moreover have "\<forall>a. walk_depth pt a \<le> walk_depth pt2 a" using m(3) r(5) order.trans by blast
      moreover have "k + d = n" if there: "(\<forall>a. new \<le> a \<longrightarrow> a < new + n \<longrightarrow> walk_depth pt a = 3) \<or> alloc_never_fails E"
      proof -
        have "walk_depth pt1 a = 3" if "new + k \<le> a" "a < new + k + (n - k)" "\<not> alloc_never_fails E" for a
        proof -
          have "new \<le> new + k" using s(4) by (simp add: word_le_nat_alt)
          then have "walk_depth pt a = 3" using that there by (auto intro: order.trans)
          then show ?thesis using m(3) sound_entries(4) [OF m(2), of a] by (metis le_antisym)
        qed
        then have "d = n - k" using r(7) by blast
        then show ?thesis by simp
      qed
      ultimately show ?thesis using eq kd(1) al r(4) by blast
    qed
  qed
qed

lemma move_page_tables_result:
  assumes "table_alloc_ok E" "sound_tables pt" "apart old new n" "empty_range (pte_val pt) new n"
  shows "\<exists>d pt'. move_page_tables E old nv new n pt = Some (d, pt') \<and> d \<le> n \<and> aligned d \<and> sound_tables pt' \<and>
      (\<forall>a. walk_depth pt a \<le> walk_depth pt' a) \<and> moved E (vm_page_prot nv) old new d (pte_val pt) (pte_val pt') \<and>
      ((\<forall>a. new \<le> a \<longrightarrow> a < new + n \<longrightarrow> walk_depth pt a = 3) \<or> alloc_never_fails E \<longrightarrow> d = n)"
  using move_extents_result [OF assms, of nv] by (auto simp: move_page_tables_def Let_def)


text \<open>
  Moving the entries back: they end where they were if the tables of the old place are all there.
\<close>

lemma move_back_result:
  assumes E: "table_alloc_ok E" "\<And>v p a b. move_pte E v p a b = v" "\<not> mem_soft_dirty_config E"
    and pt: "sound_tables pt" "apart old new n" "empty_range (pte_val pt) new n"
    and there: "\<And>a. old \<le> a \<Longrightarrow> a < old + n \<Longrightarrow> walk_depth pt a = 3"
    and mv: "move_page_tables E old nv new n pt = Some (d, pt1)"
  shows "\<exists>pt2. move_page_tables E new ov old d pt1 = Some (d, pt2) \<and> (\<forall>a. aligned a \<longrightarrow> pte_val pt2 a = pte_val pt a)"
proof -
  have d: "d \<le> n" "aligned d" and s1: "sound_tables pt1" and dp: "\<And>a. walk_depth pt a \<le> walk_depth pt1 a"
    and m: "moved E (vm_page_prot nv) old new d (pte_val pt) (pte_val pt1)"
    using move_page_tables_result [OF E(1) pt, of nv] mv by auto
  note a = apart_split(1,6) [OF pt(2) d]
  have ap: "apart new old d" using a(1) by (auto simp: apart_def)
  have w: "unat old + unat d < 2 ^ 64" "unat new + unat d < 2 ^ 64" "unat old + unat n < 2 ^ 64" "unat new + unat n < 2 ^ 64"
    using a(1) pt(2) by (auto simp: apart_def)
  have dis: "\<not> (new \<le> x \<and> x < new + d)" if "old \<le> x \<and> x < old + d" for x
    using that a(1) unfolding in_range [OF w(1)] in_range [OF w(2)] by (auto simp: apart_def)
  have em: "empty_range (pte_val pt1) old d"
    using m dis unfolding moved_def empty_range_def by (metis (full_types))
  have up: "a < old + n" if "a < old + d" for a
    using that a(2) unat_add_small [OF w(1)] unat_add_small [OF w(3)] by (simp add: word_less_nat_alt)
  have "walk_depth pt1 a = 3" if "old \<le> a" "a < old + d" for a
    using there [OF that(1) up [OF that(2)]] dp [of a] sound_entries(4) [OF s1, of a] by simp
  then obtain pt2 where b: "move_page_tables E new ov old d pt1 = Some (d, pt2)" "moved E (vm_page_prot ov) new old d (pte_val pt1) (pte_val pt2)"
    using move_page_tables_result [OF E(1) s1 ap em, of ov] by blast
  have id: "moved_pte E p x y v = v" for p x y v using E(2,3) by (simp add: moved_pte_def move_soft_dirty_pte_def)
  have "pte_val pt2 x = pte_val pt x" if "aligned x" for x
  proof (cases "old \<le> x \<and> x < old + d")
    case True
    note sh = shift_range [OF ap conjunct1 [OF True] conjunct2 [OF True]]
    have "pte_val pt2 x = pte_val pt1 (new + (x - old))" using b(2) True that unfolding moved_def id by simp
    also have "\<dots> = pte_val pt (old + (new + (x - old) - new))" using m sh that unfolding moved_def id by simp
    finally show ?thesis by simp
  next
    case False
    then have p2: "pte_val pt2 x = (if new \<le> x \<and> x < new + d then 0 else pte_val pt1 x)" using b(2) that unfolding moved_def by (metis (full_types))
    show ?thesis
    proof (cases "new \<le> x \<and> x < new + d")
      case True
      then have "x < new + n" using a(2) unat_add_small [OF w(2)] unat_add_small [OF w(4)] by (simp add: word_less_nat_alt)
      then show ?thesis using p2 True pt(3) that by (simp add: empty_range_def)
    next
      case nn: False
      then show ?thesis using p2 False m that unfolding moved_def by (metis (full_types))
    qed
  qed
  then show ?thesis using b(1) by blast
qed

end
