(* ===== verification/Mprotect.thy ===== *)
theory Mprotect
  imports Mmap_Correct Page_Table_Walks
begin

text \<open>
  Changing protections (\<open>mm/mprotect.c\<close>): \<open>mprotect_fixup\<close> for one area, the loop of
  \<open>do_mprotect_pkey_task\<close>, which also serves the remote variant \<open>mprotect_task\<close>, and the system calls
  for protection keys.  The ranges that \<open>populate_vma_page_range\<close> is asked to fault in are part of the
  result.  The personality of the task is an argument.
\<close>

abbreviation (input) PROT_GROWSDOWN :: "64 word" where "PROT_GROWSDOWN \<equiv> 0x1000000"
abbreviation (input) PROT_GROWSUP :: "64 word" where "PROT_GROWSUP \<equiv> 0x2000000"
abbreviation (input) PKEY_ACCESS_MASK :: "64 word" where "PKEY_ACCESS_MASK \<equiv> 0x3"
abbreviation (input) ENOSPC :: int where "ENOSPC \<equiv> 28"

section \<open>Operations\<close>

text \<open>
  The checks and the charge for an area that becomes writable: the error, the pages charged and the
  new flags.
\<close>

definition mprotect_charge :: "mm_env \<Rightarrow> 64 word \<Rightarrow> 64 word \<Rightarrow> 64 word \<Rightarrow> mmst \<Rightarrow> int \<times> 64 word \<times> 64 word \<times> mmst" where
  "mprotect_charge E oldflags newflags nrpages s =
     (if newflags AND VM_WRITE \<noteq> 0 then
        if \<not> may_expand_vm E (st_mm s) newflags nrpages \<and> may_expand_vm E (st_mm s) oldflags nrpages then (- ENOMEM, 0, newflags, s)
        else if oldflags AND (VM_ACCOUNT OR VM_WRITE OR VM_HUGETLB OR VM_SHARED OR VM_NORESERVE) = 0 then
          let (err, s) = security_vm_enough_memory_mm E s nrpages
          in if err \<noteq> 0 then (- ENOMEM, nrpages, newflags, s) else (0, nrpages, newflags OR VM_ACCOUNT, s)
        else (0, 0, newflags, s)
      else (0, 0, newflags, s))"

text \<open>The label \<open>success\<close>.\<close>

definition mprotect_success ::
    "mm_env \<Rightarrow> vma_ptr \<Rightarrow> 64 word \<Rightarrow> 64 word \<Rightarrow> 64 word \<Rightarrow> 64 word \<Rightarrow> mmst \<Rightarrow> (int \<times> vma_ptr option \<times> (64 word \<times> 64 word) list \<times> mmst) option" where
  "mprotect_success E p start end oldflags newflags s =
     (let nrpages = drop_bit 12 (end - start);
          mm = upd_vma p (\<lambda>v. v\<lparr>vm_flags := newflags\<rparr>) (st_mm s);
          dirty_accountable = vma_wants_writenotify E (vma_at mm p) (vm_page_prot (vma_at mm p));
          mm = upd_vma p (vma_set_page_prot E) mm;
          vma = vma_at mm p;
          pops = (if oldflags AND (VM_WRITE OR VM_SHARED OR VM_LOCKED) = VM_LOCKED \<and> newflags AND VM_WRITE \<noteq> 0 then [(start, end)] else [])
      in do {
        (pages, tables) \<leftarrow> change_protection (pgt E) vma start end (vm_page_prot vma) dirty_accountable False (pgd mm);
        let mm = mm\<lparr>pgd := tables\<rparr>;
            mm = vm_stat_account oldflags (- nrpages) mm;
            mm = vm_stat_account newflags nrpages mm
        in Some (0, Some p, pops, s\<lparr>st_mm := mm\<rparr>)
      })"

text \<open>The part of \<open>mprotect_fixup\<close> for an area that could not be merged.\<close>

definition mprotect_split ::
    "mm_env \<Rightarrow> vma_ptr \<Rightarrow> 64 word \<Rightarrow> 64 word \<Rightarrow> 64 word \<Rightarrow> 64 word \<Rightarrow> 64 word \<Rightarrow> 64 word \<Rightarrow> mmst \<Rightarrow>
      (int \<times> vma_ptr option \<times> (64 word \<times> 64 word) list \<times> mmst) option" where
  "mprotect_split E p vs start end oldflags newflags charged s = do {
     (error, s) \<leftarrow> (if start \<noteq> vs then split_vma E p start True s else Some (0, s));
     if error \<noteq> 0 then Some (error, Some p, [], vm_unacct_memory charged s)
     else do {
       (error, s) \<leftarrow> (if end \<noteq> vm_end (vma_at (st_mm s) p) then split_vma E p end False s else Some (0, s));
       if error \<noteq> 0 then Some (error, Some p, [], vm_unacct_memory charged s)
       else mprotect_success E p start end oldflags newflags s
     }
   }"

text \<open>The result is the error and \<open>*pprev\<close>.\<close>

definition mprotect_fixup ::
    "mm_env \<Rightarrow> vma_ptr \<Rightarrow> vma_ptr option \<Rightarrow> 64 word \<Rightarrow> 64 word \<Rightarrow> 64 word \<Rightarrow> mmst \<Rightarrow>
      (int \<times> vma_ptr option \<times> (64 word \<times> 64 word) list \<times> mmst) option" where
  "mprotect_fixup E p pprev start end newflags s =
     (let vma = vma_at (st_mm s) p;
          oldflags = vm_flags vma;
          nrpages = drop_bit 12 (end - start)
      in if newflags = oldflags then Some (0, Some p, [], s)
         else
           let (error, charged, newflags, s) = mprotect_charge E oldflags newflags nrpages s
           in if error \<noteq> 0 then Some (error, pprev, [], s)
              else
                let pgoff = vm_pgoff vma + drop_bit 12 (start - vm_start vma)
                in do {
                  (merged, s) \<leftarrow> vma_merge E pprev start end newflags (anon_vma vma) (vm_file vma) pgoff (vm_policy vma) (vm_userfaultfd_ctx vma) s;
                  (case merged of
                     Some q \<Rightarrow> mprotect_success E q start end oldflags newflags s
                   | None \<Rightarrow> mprotect_split E p (vm_start vma) start end oldflags newflags charged s)
                })"

text \<open>The flags of an area after \<open>mprotect\<close> with a given protection.\<close>

definition mprotect_vma_prot :: "bool \<Rightarrow> 64 word \<Rightarrow> 64 word \<Rightarrow> 64 word" where
  "mprotect_vma_prot rier reqprot flags = (if rier \<and> flags AND VM_MAYEXEC \<noteq> 0 then reqprot OR PROT_EXEC else reqprot)"

definition mprotect_newflags :: "mm_env \<Rightarrow> vm_area_struct \<Rightarrow> 64 word \<Rightarrow> int \<Rightarrow> 64 word" where
  "mprotect_newflags E vma prot pkey =
     (let mask_off_old_flags = VM_READ OR VM_WRITE OR VM_EXEC OR arch_vm_pkey_flags E;
          new_vma_pkey = arch_override_mprotect_pkey E vma prot pkey
      in calc_vm_prot_bits E prot new_vma_pkey OR (vm_flags vma AND NOT mask_off_old_flags))"

text \<open>\<open>None\<close> is a loop that does not end, or a null pointer.\<close>

partial_function (option) mprotect_loop ::
    "mm_env \<Rightarrow> bool \<Rightarrow> 64 word \<Rightarrow> int \<Rightarrow> 64 word \<Rightarrow> vma_ptr \<Rightarrow> vma_ptr option \<Rightarrow> 64 word \<Rightarrow> (64 word \<times> 64 word) list \<Rightarrow> mmst \<Rightarrow>
      (int \<times> (64 word \<times> 64 word) list \<times> mmst) option" where
  "mprotect_loop E rier reqprot pkey end p prev nstart pops s =
     (let vma = vma_at (st_mm s) p;
          prot = mprotect_vma_prot rier reqprot (vm_flags vma);
          newflags = mprotect_newflags E vma prot pkey
      in if (newflags AND NOT (drop_bit 4 newflags)) AND (VM_READ OR VM_WRITE OR VM_EXEC) \<noteq> 0 then Some (- EACCES, pops, s)
         else
           let error = security_file_mprotect E vma reqprot prot
           in if error \<noteq> 0 then Some (error, pops, s)
              else
                let tmp = (if vm_end vma > end then end else vm_end vma)
                in do {
                  (error, prev, pop, s) \<leftarrow> mprotect_fixup E p prev nstart tmp newflags s;
                  if error \<noteq> 0 then Some (error, pops @ pop, s)
                  else do {
                    q \<leftarrow> prev;
                    let nstart = (if tmp < vm_end (vma_at (st_mm s) q) then vm_end (vma_at (st_mm s) q) else tmp)
                    in if nstart \<ge> end then Some (0, pops @ pop, s)
                       else case vm_next (st_mm s) q of
                         None \<Rightarrow> Some (- ENOMEM, pops @ pop, s)
                       | Some n \<Rightarrow>
                           if vm_start (vma_at (st_mm s) n) \<noteq> nstart then Some (- ENOMEM, pops @ pop, s)
                           else mprotect_loop E rier reqprot pkey end n (Some q) nstart (pops @ pop) s
                  }
                })"

declare mprotect_loop.simps [code]

definition do_mprotect_pkey_task ::
    "mm_env \<Rightarrow> 64 word \<Rightarrow> 64 word \<Rightarrow> 64 word \<Rightarrow> 64 word \<Rightarrow> int \<Rightarrow> mmst \<Rightarrow> (int \<times> (64 word \<times> 64 word) list \<times> mmst) option" where
  "do_mprotect_pkey_task E pers start len prot pkey s =
     (let grows = prot AND (PROT_GROWSDOWN OR PROT_GROWSUP);
          rier = (pers AND READ_IMPLIES_EXEC \<noteq> 0 \<and> prot AND PROT_READ \<noteq> 0);
          prot = prot AND NOT (PROT_GROWSDOWN OR PROT_GROWSUP)
      in if grows = PROT_GROWSDOWN OR PROT_GROWSUP then Some (- EINVAL, [], s)
         else if start AND 0xfff \<noteq> 0 then Some (- EINVAL, [], s)
         else if len = 0 then Some (0, [], s)
         else
           let end = start + PAGE_ALIGN len
           in if end \<le> start then Some (- ENOMEM, [], s)
              else if \<not> arch_validate_prot E prot then Some (- EINVAL, [], s)
              else if mmap_sem_killed E then Some (- EINTR, [], s)
              else if pkey \<noteq> - 1 \<and> \<not> mm_pkey_is_allocated E (st_mm s) pkey then Some (- EINVAL, [], s)
              else case find_vma E (st_mm s) start of
                None \<Rightarrow> Some (- ENOMEM, [], s)
              | Some p \<Rightarrow>
                  let vma = vma_at (st_mm s) p; prev = vm_prev (st_mm s) p
                  in if grows AND PROT_GROWSDOWN \<noteq> 0 then
                       if vm_start vma \<ge> end then Some (- ENOMEM, [], s)
                       else if vm_flags vma AND VM_GROWSDOWN = 0 then Some (- EINVAL, [], s)
                       else mprotect_loop E rier prot pkey end p prev (vm_start vma) [] s
                     else if vm_start vma > start then Some (- ENOMEM, [], s)
                     else
                       let end' = (if grows AND PROT_GROWSUP \<noteq> 0 then vm_end vma else end)
                       in if grows AND PROT_GROWSUP \<noteq> 0 \<and> vm_flags vma AND VM_GROWSUP = 0 then Some (- EINVAL, [], s)
                          else mprotect_loop E rier prot pkey end' p (if start > vm_start vma then Some p else prev) start [] s)"

definition do_mprotect_pkey ::
    "mm_env \<Rightarrow> 64 word \<Rightarrow> 64 word \<Rightarrow> 64 word \<Rightarrow> 64 word \<Rightarrow> int \<Rightarrow> mmst \<Rightarrow> (int \<times> (64 word \<times> 64 word) list \<times> mmst) option" where
  "do_mprotect_pkey E pers start len prot pkey s = do_mprotect_pkey_task E pers start len prot pkey s"

definition mprotect_task ::
    "mm_env \<Rightarrow> 64 word \<Rightarrow> 64 word \<Rightarrow> 64 word \<Rightarrow> 64 word \<Rightarrow> mmst \<Rightarrow> (int \<times> (64 word \<times> 64 word) list \<times> mmst) option" where
  "mprotect_task E pers start len prot s = do_mprotect_pkey_task E pers start len prot (- 1) s"

definition sys_mprotect ::
    "mm_env \<Rightarrow> 64 word \<Rightarrow> 64 word \<Rightarrow> 64 word \<Rightarrow> 64 word \<Rightarrow> mmst \<Rightarrow> (int \<times> (64 word \<times> 64 word) list \<times> mmst) option" where
  "sys_mprotect E pers start len prot s = do_mprotect_pkey E pers start len prot (- 1) s"

definition sys_pkey_mprotect ::
    "mm_env \<Rightarrow> 64 word \<Rightarrow> 64 word \<Rightarrow> 64 word \<Rightarrow> 64 word \<Rightarrow> int \<Rightarrow> mmst \<Rightarrow> (int \<times> (64 word \<times> 64 word) list \<times> mmst) option" where
  "sys_pkey_mprotect E pers start len prot pkey s = do_mprotect_pkey E pers start len prot pkey s"

definition sys_pkey_alloc :: "mm_env \<Rightarrow> 64 word \<Rightarrow> 64 word \<Rightarrow> mm_struct \<Rightarrow> int \<times> mm_struct" where
  "sys_pkey_alloc E flags init_val mm =
     (if flags \<noteq> 0 then (- EINVAL, mm)
      else if init_val AND NOT PKEY_ACCESS_MASK \<noteq> 0 then (- EINVAL, mm)
      else
        let (pkey, mm) = mm_pkey_alloc E mm
        in if pkey = - 1 then (- ENOSPC, mm)
           else
             let ret = arch_set_user_pkey_access E pkey init_val
             in if ret \<noteq> 0 then (ret, snd (mm_pkey_free E mm pkey)) else (pkey, mm))"

definition sys_pkey_free :: "mm_env \<Rightarrow> int \<Rightarrow> mm_struct \<Rightarrow> int \<times> mm_struct" where
  "sys_pkey_free E pkey mm = mm_pkey_free E mm pkey"


section \<open>One area\<close>

text \<open>The area at the position of another one after its anonymous mappings have changed.\<close>

lemma anons_split:
  assumes "anons (pre @ v # post) ws"
  obtains pre' v' post' where "ws = pre' @ v' # post'" "anons pre pre'" "anon_only v v'" "anons post post'"
  using assms by (auto simp: list_all2_append1 list_all2_Cons1)

lemma anon_only_fields:
  "anon_only v w \<Longrightarrow> vm_id w = vm_id v \<and> vm_start w = vm_start v \<and> vm_end w = vm_end v \<and> vm_flags w = vm_flags v \<and> vm_file w = vm_file v \<and> vm_pgoff w = vm_pgoff v"
  unfolding anon_only_def by (metis vm_area_struct.select_convs vm_area_struct.surjective vm_area_struct.update_convs(8,9))

lemma view_retag_range:
  assumes "areas_ok (pre @ v # post)" "vm_start v' = vm_start v" "vm_end v' = vm_end v"
  shows "view_of (pre @ v' # post) = set_view (view_of (pre @ v # post)) (vm_start v) (vm_end v) (page_attr v')"
proof
  fix a
  have "view_of [v'] x = (if vm_start v \<le> x \<and> x < vm_end v then Some (page_attr v' x) else view_of [v] x)" for x
    using assms(2,3) by (simp add: vma_covers_def)
  moreover have "\<And>u. u \<in> set pre \<Longrightarrow> vm_end u \<le> vm_start v" using assms(1) by (auto simp: areas_ok_append)
  ultimately show "view_of (pre @ v' # post) a = set_view (view_of (pre @ v # post)) (vm_start v) (vm_end v) (page_attr v') a"
    using view_of_range [of "[v']" "vm_start v" "vm_end v" "page_attr v'" "[v]" pre post a] by (simp add: set_view_def)
qed

lemma view_at:
  assumes "areas_ok (pre @ v # post)" "vm_start v \<le> a" "a < vm_end v"
  shows "view_of (pre @ v # post) a = Some (page_attr v a)"
proof -
  have "view_of pre a = None" using assms by (force simp: view_of_None vma_covers_def areas_ok_append)
  then show ?thesis using assms(2,3) by (simp add: view_of_append vma_covers_def)
qed

lemma mm_ok_areas: "mm_ok mm \<Longrightarrow> areas_ok (mmap mm)"
  by (simp add: mm_ok_def tree_ok_def)

lemma now_maps_same_pages:
  assumes "now_maps E s s' vs" "areas_ok vs" "mm_ok (st_mm s)" "\<And>a. (view_of vs a = None) = (mm_view (st_mm s) a = None)"
  shows "mm_step E s s'"
proof (rule now_maps_step [OF assms(1,2)])
  show "pages_of vs = pages_of (mmap (st_mm s))"
    unfolding pages_of_view [OF assms(2)] pages_of_view [OF mm_ok_areas [OF assms(3)]] using assms(4) by (intro view_pages_cong) (simp add: mm_view_def)
qed

lemma split_vma_result:
  assumes mm: "mm_ok (st_mm s)" and E: "mm_env_ok E" and sp: "mmap (st_mm s) = pre @ v # post"
    and a: "vm_start v < a" "a < vm_end v" "aligned a"
  shows "\<exists>r s'. split_vma E (vm_id v) a below s = Some (r, s') \<and> mm_step E s s' \<and> mm_view (st_mm s') = mm_view (st_mm s) \<and>
    (r = 0 \<longrightarrow> (\<exists>pre' v' post'. mmap (st_mm s') = pre' @ v' # post' \<and> vm_id v' = vm_id v \<and> vm_flags v' = vm_flags v \<and> vm_file v' = vm_file v \<and>
       (if below then vm_start v' = a \<and> vm_end v' = vm_end v \<and> vm_pgoff v' = vm_pgoff v + drop_bit 12 (a - vm_start v)
        else vm_start v' = vm_start v \<and> vm_end v' = a \<and> vm_pgoff v' = vm_pgoff v)))"
proof (cases "map_count (st_mm s) \<ge> sysctl_max_map_count E")
  case True
  then show ?thesis using mm_step_refl [OF mm] by (simp add: split_vma_def)
next
  case False
  obtain r s' where r: "raw_split_vma E (vm_id v) a below s = Some (r, s')"
    "if r = 0 then \<exists>l h. halves v a l h \<and> vm_id (if below then h else l) = vm_id v \<and> areas_ok (pre @ l # h # post) \<and> now_maps E s s' (pre @ l # h # post) else s' = s"
    using raw_split_vma_result [OF mm E sp a] by blast
  have run: "split_vma E (vm_id v) a below s = Some (r, s')" using r(1) False by (simp add: split_vma_def)
  show ?thesis
  proof (cases "r = 0")
    case False
    then show ?thesis using run r(2) mm_step_refl [OF mm] by simp
  next
    case True
    then obtain l h where lh: "halves v a l h" "vm_id (if below then h else l) = vm_id v" "areas_ok (pre @ l # h # post)" "now_maps E s s' (pre @ l # h # post)"
      using r(2) by auto
    have al: "aligned (vm_start v)" using mm_ok_areas [OF mm] by (simp add: sp areas_ok_append areas_ok_Cons area_ok_def)
    have vw: "view_of (pre @ l # h # post) = mm_view (st_mm s)" unfolding mm_view_def sp by (rule halves_view [OF lh(1) a al])
    have st: "mm_step E s s'" by (rule now_maps_same_pages [OF lh(4,3) mm]) (simp add: vw)
    have view: "mm_view (st_mm s') = mm_view (st_mm s)" using now_mapsD(2) [OF lh(4)] vw by simp
    let ?w = "if below then h else l" and ?p = "if below then pre @ [l] else pre" and ?q = "if below then post else h # post"
    have "pre @ l # h # post = ?p @ ?w # ?q" by simp
    then obtain pre' v' post' where v': "mmap (st_mm s') = pre' @ v' # post'" "anon_only ?w v'"
      using anons_split now_mapsD(1) [OF lh(4)] by metis
    have "vm_id v' = vm_id v \<and> vm_flags v' = vm_flags v \<and> vm_file v' = vm_file v \<and>
       (if below then vm_start v' = a \<and> vm_end v' = vm_end v \<and> vm_pgoff v' = vm_pgoff v + drop_bit 12 (a - vm_start v)
        else vm_start v' = vm_start v \<and> vm_end v' = a \<and> vm_pgoff v' = vm_pgoff v)"
      using anon_only_fields [OF v'(2)] lh(1,2) by (auto simp: halves_def split: if_splits)
    then show ?thesis using run st view v'(1) by blast
  qed
qed

lemma mprotect_success_result:
  assumes mm: "mm_ok (st_mm s)" and pt: "pt_env_ok (pgt E)" and sp: "mmap (st_mm s) = pre @ v # post"
    and a: "aligned start" "aligned e" "start < e"
    and fl: "newflags AND VM_SHARED = vm_flags v AND VM_SHARED" "newflags AND VM_DENYWRITE = vm_flags v AND VM_DENYWRITE"
  shows "\<exists>pops s' v'. mprotect_success E (vm_id v) start e oldflags newflags s = Some (0, Some (vm_id v), pops, s') \<and> mm_step E s s' \<and>
    mmap (st_mm s') = pre @ v' # post \<and> vm_id v' = vm_id v \<and> vm_start v' = vm_start v \<and> vm_end v' = vm_end v \<and> vm_flags v' = newflags \<and>
    vm_file v' = vm_file v \<and> vm_pgoff v' = vm_pgoff v"
proof -
  define m1 where "m1 = upd_vma (vm_id v) (\<lambda>v. v\<lparr>vm_flags := newflags\<rparr>) (st_mm s)"
  let ?v1 = "v\<lparr>vm_flags := newflags\<rparr>"
  have pos: "vma_position (st_mm s) pre v post" by (rule vma_positionI [OF mm_ok_areas [OF mm] sp])
  have m1: "mmap m1 = pre @ ?v1 # post" unfolding m1_def by (rule vma_position_upd [OF pos])
  have ok1: "mm_ok m1" by (rule mm_ok_retag [OF mm sp m1]) (simp_all add: m1_def)
  have pos1: "vma_position m1 pre ?v1 post" by (rule vma_positionI [OF mm_ok_areas [OF ok1] m1])
  define m2 where "m2 = upd_vma (vm_id v) (vma_set_page_prot E) m1"
  define v2 where "v2 = vma_set_page_prot E ?v1"
  have m2: "mmap m2 = pre @ v2 # post" using vma_position_upd [OF pos1, of "vma_set_page_prot E"] by (simp add: m2_def v2_def)
  have v2: "vm_id v2 = vm_id v" "vm_start v2 = vm_start v" "vm_end v2 = vm_end v" "vm_flags v2 = newflags" "vm_file v2 = vm_file v" "vm_pgoff v2 = vm_pgoff v"
    by (simp_all add: v2_def)
  obtain n t where t: "change_protection (pgt E) (vma_at m2 (vm_id v)) start e (vm_page_prot (vma_at m2 (vm_id v)))
      (vma_wants_writenotify E (vma_at m1 (vm_id v)) (vm_page_prot (vma_at m1 (vm_id v)))) False (pgd m2) = Some (n, t)"
    using change_protection_returns [OF pt a] by (metis not_Some_eq surj_pair)
  let ?n = "drop_bit 12 (e - start)"
  define m3 where "m3 = vm_stat_account newflags ?n (vm_stat_account oldflags (- ?n) (m2\<lparr>pgd := t\<rparr>))"
  have m3: "mmap m3 = pre @ v2 # post" "mm_rb m3 = mm_rb (st_mm s)" "map_count m3 = map_count (st_mm s)"
    "highest_vm_end m3 = highest_vm_end (st_mm s)" "total_vm m3 = total_vm (st_mm s)" "mm_fixed m3 = mm_fixed (st_mm s)"
    using m2 by (simp_all add: m3_def) (simp_all add: m2_def m1_def)
  have run: "\<exists>pops. mprotect_success E (vm_id v) start e oldflags newflags s = Some (0, Some (vm_id v), pops, s\<lparr>st_mm := m3\<rparr>)"
    unfolding mprotect_success_def Let_def m1_def [symmetric] m2_def [symmetric] t by (simp add: m3_def)
  have "mm_ok m3" by (rule mm_ok_retag [OF mm sp m3(1)]) (simp_all add: m3 v2)
  moreover have "bal E (s\<lparr>st_mm := m3\<rparr>) = bal E s" by (rule bal_retag [where v = v and v' = v2]) (simp_all add: sp m3 v2 fl)
  moreover have "pages_of (pre @ v2 # post) = pages_of (pre @ v # post)" by (simp add: pages_of_def vma_pages_def v2)
  ultimately have "mm_step E s (s\<lparr>st_mm := m3\<rparr>)" by (simp add: mm_step_def m3 sp)
  then show ?thesis using run m3(1) v2 by auto
qed


lemma range_attr_shift:
  assumes "aligned (vm_start v)" "aligned start" "vm_start v \<le> start" "start \<le> a"
  shows "range_attr start (vm_flags v) (vm_file v) (vm_pgoff v + drop_bit 12 (start - vm_start v)) a = page_attr v a"
  using drop12_diff [OF assms(3,4,1,2)] by (simp add: range_attr_def page_attr_def algebra_simps)

lemma account_flags:
  "((fl :: 64 word) OR VM_ACCOUNT) AND NOT VM_ACCOUNT = fl AND NOT VM_ACCOUNT"
  by (simp add: bit_eq_iff bit_simps) blast

lemma account_bits:
  assumes "fl AND NOT VM_ACCOUNT = (fl' :: 64 word) AND NOT VM_ACCOUNT"
  shows "fl AND VM_SHARED = fl' AND VM_SHARED" "fl AND VM_DENYWRITE = fl' AND VM_DENYWRITE"
proof -
  have "x AND VM_SHARED = (x AND NOT VM_ACCOUNT) AND VM_SHARED" "x AND VM_DENYWRITE = (x AND NOT VM_ACCOUNT) AND VM_DENYWRITE" for x :: "64 word"
    by (simp_all add: and.assoc)
  then show "fl AND VM_SHARED = fl' AND VM_SHARED" "fl AND VM_DENYWRITE = fl' AND VM_DENYWRITE" using assms by metis+
qed

lemma softdirty_bits:
  assumes "fl AND NOT VM_SOFTDIRTY = (fl' :: 64 word) AND NOT VM_SOFTDIRTY"
  shows "fl AND VM_SHARED = fl' AND VM_SHARED" "fl AND VM_DENYWRITE = fl' AND VM_DENYWRITE"
proof -
  have "x AND VM_SHARED = (x AND NOT VM_SOFTDIRTY) AND VM_SHARED" "x AND VM_DENYWRITE = (x AND NOT VM_SOFTDIRTY) AND VM_DENYWRITE" for x :: "64 word"
    by (simp_all add: and.assoc)
  then show "fl AND VM_SHARED = fl' AND VM_SHARED" "fl AND VM_DENYWRITE = fl' AND VM_DENYWRITE" using assms by metis+
qed

lemma mprotect_charge_result:
  assumes "enough_memory_ok E"
  shows "\<exists>err charged fl c. mprotect_charge E old new n s = (err, charged, fl, s\<lparr>vm_committed_as := c\<rparr>) \<and> fl AND NOT VM_ACCOUNT = new AND NOT VM_ACCOUNT"
proof -
  obtain e c where k: "security_vm_enough_memory_mm E s n = (e, s\<lparr>vm_committed_as := c\<rparr>)"
    using assms unfolding enough_memory_ok_def by (metis prod.collapse)
  define P where "P t \<longleftrightarrow> (\<exists>err charged fl c. t = (err :: int, charged :: 64 word, fl, s\<lparr>vm_committed_as := c\<rparr>) \<and> fl AND NOT VM_ACCOUNT = new AND NOT VM_ACCOUNT)" for t
  have "P (x, y, new, s)" for x y unfolding P_def by (intro exI [of _ x] exI [of _ y] exI [of _ new] exI [of _ "vm_committed_as s"]) simp
  moreover have "P (x, y, new, s\<lparr>vm_committed_as := c\<rparr>)" for x y unfolding P_def by blast
  moreover have "P (x, y, new OR VM_ACCOUNT, s\<lparr>vm_committed_as := c\<rparr>)" for x y unfolding P_def using account_flags by blast
  ultimately have "P (mprotect_charge E old new n s)" unfolding mprotect_charge_def k Let_def prod.case by simp
  then show ?thesis unfolding P_def .
qed

definition fixup_done :: "mmst \<Rightarrow> vm_area_struct \<Rightarrow> 64 word \<Rightarrow> 64 word \<Rightarrow> 64 word \<Rightarrow> vma_ptr option \<Rightarrow> mmst \<Rightarrow> bool" where
  "fixup_done s v start e newflags q s' \<longleftrightarrow>
     (\<exists>pre w post fl. mmap (st_mm s') = pre @ w # post \<and> q = Some (vm_id w) \<and> vm_start w \<le> start \<and> e \<le> vm_end w \<and>
        vm_flags w AND NOT VM_SOFTDIRTY = fl AND NOT VM_SOFTDIRTY \<and> fl AND NOT VM_ACCOUNT = newflags AND NOT VM_ACCOUNT \<and>
        mm_view (st_mm s') = set_view (mm_view (st_mm s)) start e
          (range_attr start fl (vm_file v) (vm_pgoff v + drop_bit 12 (start - vm_start v))))"

lemma bal_unacct [simp]: "bal E (vm_unacct_memory n s) = bal E s"
  by (rule bal_same) simp_all

lemma mm_step_unacct: "mm_step E s s' \<Longrightarrow> mm_step E s (vm_unacct_memory n s')"
  by (simp add: mm_step_def)

lemma mprotect_split_result:
  assumes mm: "mm_ok (st_mm s)" and E: "mm_env_ok E" and pt: "pt_env_ok (pgt E)" and sp: "mmap (st_mm s) = pre @ v # post"
    and a: "aligned start" "aligned e" "start < e" "vm_start v \<le> start" "e \<le> vm_end v"
    and fl: "newflags AND VM_SHARED = vm_flags v AND VM_SHARED" "newflags AND VM_DENYWRITE = vm_flags v AND VM_DENYWRITE"
  shows "\<exists>r q pops s'. mprotect_split E (vm_id v) (vm_start v) start e oldflags newflags charged s = Some (r, q, pops, s') \<and> mm_step E s s' \<and>
    (if r = 0 then fixup_done s v start e newflags q s' else mm_view (st_mm s') = mm_view (st_mm s))"
proof -
  let ?cut1 = "if start \<noteq> vm_start v then split_vma E (vm_id v) start True s else Some (0, s)"
  let ?pg = "vm_pgoff v + drop_bit 12 (start - vm_start v)"
  obtain r1 s1 where c1: "?cut1 = Some (r1, s1)" "mm_step E s s1" "mm_view (st_mm s1) = mm_view (st_mm s)"
    "r1 = 0 \<longrightarrow> (\<exists>pre' v' post'. mmap (st_mm s1) = pre' @ v' # post' \<and> vm_id v' = vm_id v \<and> vm_flags v' = vm_flags v \<and> vm_file v' = vm_file v \<and>
       vm_start v' = start \<and> vm_end v' = vm_end v \<and> vm_pgoff v' = ?pg)"
  proof (cases "start = vm_start v")
    case True
    then show ?thesis using that [of 0 s] mm_step_refl [OF mm] sp by auto
  next
    case False
    have b: "vm_start v < start" "start < vm_end v" using False a by auto
    obtain r s' where "split_vma E (vm_id v) start True s = Some (r, s')" "mm_step E s s'" "mm_view (st_mm s') = mm_view (st_mm s)"
      "r = 0 \<longrightarrow> (\<exists>pre' v' post'. mmap (st_mm s') = pre' @ v' # post' \<and> vm_id v' = vm_id v \<and> vm_flags v' = vm_flags v \<and> vm_file v' = vm_file v \<and>
         vm_start v' = start \<and> vm_end v' = vm_end v \<and> vm_pgoff v' = ?pg)"
      using split_vma_result [OF mm E sp b a(1), of True] unfolding if_True by blast
    then show ?thesis by (intro that [of r s']) (use False in simp_all)
  qed
  show ?thesis
  proof (cases "r1 = 0")
    case False
    then have "mprotect_split E (vm_id v) (vm_start v) start e oldflags newflags charged s = Some (r1, Some (vm_id v), [], vm_unacct_memory charged s1)"
      unfolding mprotect_split_def c1(1) by simp
    then show ?thesis using mm_step_unacct [OF c1(2), of charged] c1(3) False by simp
  next
    case r1: True
    then obtain pre1 v1 post1 where v1: "mmap (st_mm s1) = pre1 @ v1 # post1" "vm_id v1 = vm_id v" "vm_flags v1 = vm_flags v" "vm_file v1 = vm_file v"
      "vm_start v1 = start" "vm_end v1 = vm_end v" "vm_pgoff v1 = ?pg" using c1(4) by blast
    have mm1: "mm_ok (st_mm s1)" using c1(2) by (simp add: mm_step_def)
    have at1: "vma_at (st_mm s1) (vm_id v) = v1" using mm_ok_position(1) [OF mm1 v1(1)] v1(2) by simp
    let ?cut2 = "if e \<noteq> vm_end v then split_vma E (vm_id v) e False s1 else Some (0, s1)"
    obtain r2 s2 where c2: "?cut2 = Some (r2, s2)" "mm_step E s1 s2" "mm_view (st_mm s2) = mm_view (st_mm s1)"
      "r2 = 0 \<longrightarrow> (\<exists>pre' v' post'. mmap (st_mm s2) = pre' @ v' # post' \<and> vm_id v' = vm_id v \<and> vm_flags v' = vm_flags v \<and> vm_file v' = vm_file v \<and>
         vm_start v' = start \<and> vm_end v' = e \<and> vm_pgoff v' = ?pg)"
    proof (cases "e = vm_end v")
      case True
      then show ?thesis using that [of 0 s1] mm_step_refl [OF mm1] v1 by auto
    next
      case False
      have b: "vm_start v1 < e" "e < vm_end v1" using False a v1 by auto
      obtain r s' where "split_vma E (vm_id v) e False s1 = Some (r, s')" "mm_step E s1 s'" "mm_view (st_mm s') = mm_view (st_mm s1)"
        "r = 0 \<longrightarrow> (\<exists>pre' v' post'. mmap (st_mm s') = pre' @ v' # post' \<and> vm_id v' = vm_id v \<and> vm_flags v' = vm_flags v \<and> vm_file v' = vm_file v \<and>
           vm_start v' = start \<and> vm_end v' = e \<and> vm_pgoff v' = ?pg)"
        using split_vma_result [OF mm1 E v1(1) b a(2), of False] unfolding if_False v1(2-7) by blast
      then show ?thesis by (intro that [of r s']) (use False in simp_all)
    qed
    have st: "mm_step E s s2" by (rule mm_step_trans [OF c1(2) c2(2)])
    have run: "mprotect_split E (vm_id v) (vm_start v) start e oldflags newflags charged s =
        (if r2 \<noteq> 0 then Some (r2, Some (vm_id v), [], vm_unacct_memory charged s2) else mprotect_success E (vm_id v) start e oldflags newflags s2)"
      unfolding mprotect_split_def c1(1) using r1 c2(1) by (simp add: at1 v1(6))
    show ?thesis
    proof (cases "r2 = 0")
      case False
      then show ?thesis using run mm_step_unacct [OF st, of charged] c1(3) c2(3) by simp
    next
      case True
      then obtain pre2 v2 post2 where v2: "mmap (st_mm s2) = pre2 @ v2 # post2" "vm_id v2 = vm_id v" "vm_flags v2 = vm_flags v" "vm_file v2 = vm_file v"
        "vm_start v2 = start" "vm_end v2 = e" "vm_pgoff v2 = ?pg" using c2(4) by blast
      have mm2: "mm_ok (st_mm s2)" using c2(2) by (simp add: mm_step_def)
      have fl2: "newflags AND VM_SHARED = vm_flags v2 AND VM_SHARED" "newflags AND VM_DENYWRITE = vm_flags v2 AND VM_DENYWRITE" using fl v2(3) by simp_all
      obtain pops s' v' where su: "mprotect_success E (vm_id v) start e oldflags newflags s2 = Some (0, Some (vm_id v), pops, s')" "mm_step E s2 s'"
        "mmap (st_mm s') = pre2 @ v' # post2" "vm_id v' = vm_id v" "vm_start v' = start" "vm_end v' = e" "vm_flags v' = newflags" "vm_file v' = vm_file v"
        "vm_pgoff v' = ?pg"
        using mprotect_success_result [OF mm2 pt v2(1) a(1-3) fl2, of oldflags] unfolding v2(2) by (auto simp: v2)
      have "mm_view (st_mm s') = set_view (mm_view (st_mm s2)) start e (page_attr v')"
        using view_retag_range [OF mm_ok_areas [OF mm2, unfolded v2(1)], of v'] su(3,5,6) v2 by (simp add: mm_view_def)
      then have "mm_view (st_mm s') = set_view (mm_view (st_mm s)) start e (range_attr start newflags (vm_file v) ?pg)"
        unfolding page_attr_range su(5,7,8,9) c2(3) c1(3) .
      then have "fixup_done s v start e newflags (Some (vm_id v)) s'"
        unfolding fixup_done_def using su by (intro exI [of _ pre2] exI [of _ v'] exI [of _ post2] exI [of _ newflags]) simp
      then show ?thesis using run True su(1) mm_step_trans [OF st su(2)] by simp
    qed
  qed
qed


lemma mprotect_fixup_result:
  assumes mm: "mm_ok (st_mm s)" and E: "mm_env_ok E" "enough_memory_ok E" and pt: "pt_env_ok (pgt E)" and sp: "mmap (st_mm s) = pre @ v # post"
    and a: "aligned start" "aligned e" "start < e" "vm_start v \<le> start" "e \<le> vm_end v"
    and prev: "prev = (if vm_start v < start then Some (vm_id v) else if pre = [] then None else Some (vm_id (last pre)))"
    and fl: "newflags AND VM_SHARED = vm_flags v AND VM_SHARED" "newflags AND VM_DENYWRITE = vm_flags v AND VM_DENYWRITE"
  shows "\<exists>r q pops s'. mprotect_fixup E (vm_id v) prev start e newflags s = Some (r, q, pops, s') \<and> mm_step E s s' \<and>
    (if r = 0 then fixup_done s v start e newflags q s' else mm_view (st_mm s') = mm_view (st_mm s))"
proof -
  note ee = mm_env_okD [OF E(1)]
  let ?pg = "vm_pgoff v + drop_bit 12 (start - vm_start v)"
  have at: "vma_at (st_mm s) (vm_id v) = v" by (rule mm_ok_position(1) [OF mm sp])
  have ok: "areas_ok (pre @ v # post)" using mm_ok_areas [OF mm] sp by simp
  have al: "aligned (vm_start v)" using ok by (simp add: areas_ok_append areas_ok_Cons area_ok_def)
  have mapped: "mm_view (st_mm s) x = Some (page_attr v x)" if "start \<le> x" "x < e" for x
    unfolding mm_view_def sp by (rule view_at [OF ok]) (use that a in auto)
  show ?thesis
  proof (cases "newflags = vm_flags v")
    case True
    have "set_view (mm_view (st_mm s)) start e (range_attr start newflags (vm_file v) ?pg) = mm_view (st_mm s)"
      using mapped range_attr_shift [OF al a(1,4)] True by (auto simp: set_view_def fun_eq_iff)
    then have "fixup_done s v start e newflags (Some (vm_id v)) s"
      unfolding fixup_done_def using sp a True by (intro exI [of _ pre] exI [of _ v] exI [of _ post] exI [of _ newflags]) simp
    then show ?thesis using at True mm_step_refl [OF mm] by (simp add: mprotect_fixup_def)
  next
    case ne: False
    obtain err charged f c where ch: "mprotect_charge E (vm_flags v) newflags (drop_bit 12 (e - start)) s = (err, charged, f, s\<lparr>vm_committed_as := c\<rparr>)"
      and f: "f AND NOT VM_ACCOUNT = newflags AND NOT VM_ACCOUNT" using mprotect_charge_result [OF E(2)] by blast
    define s1 where "s1 = s\<lparr>vm_committed_as := c\<rparr>"
    have s1: "st_mm s1 = st_mm s" "mm_step E s s1" using mm_step_committed [OF mm] by (simp_all add: s1_def)
    have mm1: "mm_ok (st_mm s1)" and sp1: "mmap (st_mm s1) = pre @ v # post" using mm sp s1 by simp_all
    let ?mg = "vma_merge E prev start e f (anon_vma v) (vm_file v) ?pg (vm_policy v) (vm_userfaultfd_ctx v) s1"
    have run: "mprotect_fixup E (vm_id v) prev start e newflags s =
        (if err \<noteq> 0 then Some (err, prev, [], s1)
         else do { (merged, s) \<leftarrow> ?mg;
                   (case merged of Some q \<Rightarrow> mprotect_success E q start e (vm_flags v) f s
                    | None \<Rightarrow> mprotect_split E (vm_id v) (vm_start v) start e (vm_flags v) f charged s) })"
      unfolding mprotect_fixup_def Let_def at ch s1_def [symmetric] prod.case using ne by simp
    show ?thesis
    proof (cases "err = 0")
      case False
      then show ?thesis using run s1 by simp
    next
      case e0: True
      have fs: "f AND VM_SHARED = vm_flags v AND VM_SHARED" "f AND VM_DENYWRITE = vm_flags v AND VM_DENYWRITE" using account_bits [OF f] fl by simp_all
      have out: "merge_outcome E s1 start e f (vm_file v) ?pg ?mg"
        by (rule vma_merge_within [OF mm1 ee(1,2,3) sp1 a prev refl])
      then obtain m s2 where m: "?mg = Some (m, s2)" by (auto simp: merge_outcome_def split: option.splits)
      show ?thesis
      proof (cases m)
        case None
        have now: "now_maps E s1 s2 (pre @ v # post)" using out m None sp1 by (simp add: merge_outcome_def)
        have st: "mm_step E s1 s2" by (rule now_maps_same_pages [OF now ok mm1]) (simp add: mm_view_def sp1)
        have vw: "mm_view (st_mm s2) = mm_view (st_mm s)" using now_mapsD(2) [OF now] sp by (simp add: mm_view_def)
        obtain pre2 v2 post2 where v2: "mmap (st_mm s2) = pre2 @ v2 # post2" "anon_only v v2"
          using anons_split [OF now_mapsD(1) [OF now]] by metis
        note v2f = anon_only_fields [OF v2(2)]
        have mm2: "mm_ok (st_mm s2)" using st by (simp add: mm_step_def)
        have a2: "vm_start v2 \<le> start" "e \<le> vm_end v2" and f2: "f AND VM_SHARED = vm_flags v2 AND VM_SHARED" "f AND VM_DENYWRITE = vm_flags v2 AND VM_DENYWRITE"
          using a fs v2f by simp_all
        obtain r q pops s' where sr: "mprotect_split E (vm_id v) (vm_start v) start e (vm_flags v) f charged s2 = Some (r, q, pops, s')" "mm_step E s2 s'"
          "if r = 0 then fixup_done s2 v2 start e f q s' else mm_view (st_mm s') = mm_view (st_mm s2)"
          using mprotect_split_result [OF mm2 E(1) pt v2(1) a(1-3) a2 f2, of "vm_flags v" charged] v2f by auto
        have "mprotect_fixup E (vm_id v) prev start e newflags s = Some (r, q, pops, s')" using run e0 m None sr(1) by simp
        moreover have "fixup_done s2 v2 start e f q s' \<Longrightarrow> fixup_done s v start e newflags q s'"
          unfolding fixup_done_def vw f using v2f by simp
        ultimately show ?thesis using mm_step_trans [OF s1(2) mm_step_trans [OF st sr(2)]] sr(3) vw by auto
      next
        case (Some q)
        obtain vs w where vs: "now_maps E s1 s2 vs" "areas_ok vs" "w \<in> set vs" "vm_id w = q" "vm_start w \<le> start" "e \<le> vm_end w"
          "vm_flags w AND NOT VM_SOFTDIRTY = f AND NOT VM_SOFTDIRTY"
          "\<forall>x. view_of vs x = (if start \<le> x \<and> x < e then Some (range_attr start f (vm_file v) ?pg x) else view_of (mmap (st_mm s1)) x)"
          using out m Some by (auto simp: merge_outcome_def)
        have vw: "view_of vs = set_view (mm_view (st_mm s)) start e (range_attr start f (vm_file v) ?pg)"
          using vs(8) s1(1) by (simp add: set_view_def mm_view_def fun_eq_iff)
        have st: "mm_step E s1 s2" by (rule now_maps_same_pages [OF vs(1,2) mm1]) (use mapped s1(1) in \<open>simp add: vw set_view_def\<close>)
        obtain p1 p2 where "vs = p1 @ w # p2" using vs(3) by (meson split_list)
        then obtain pre2 w2 post2 where w2: "mmap (st_mm s2) = pre2 @ w2 # post2" "anon_only w w2"
          using anons_split now_mapsD(1) [OF vs(1)] by metis
        note wf = anon_only_fields [OF w2(2)]
        have mm2: "mm_ok (st_mm s2)" using st by (simp add: mm_step_def)
        have fw: "f AND VM_SHARED = vm_flags w2 AND VM_SHARED" "f AND VM_DENYWRITE = vm_flags w2 AND VM_DENYWRITE"
          using softdirty_bits [OF vs(7)] wf by simp_all
        obtain pops s' w' where su: "mprotect_success E q start e (vm_flags v) f s2 = Some (0, Some q, pops, s')" "mm_step E s2 s'"
          "mmap (st_mm s') = pre2 @ w' # post2" "vm_id w' = q" "vm_start w' = vm_start w" "vm_end w' = vm_end w" "vm_flags w' = f" "vm_file w' = vm_file w2"
          "vm_pgoff w' = vm_pgoff w2"
          using mprotect_success_result [OF mm2 pt w2(1) a(1-3) fw, of "vm_flags v"] wf vs(4) by auto
        have "mm_view (st_mm s') = mm_view (st_mm s2)"
          unfolding mm_view_def su(3) w2(1) by (rule view_retag) (use su wf vs(7) in simp_all)
        then have v': "mm_view (st_mm s') = set_view (mm_view (st_mm s)) start e (range_attr start f (vm_file v) ?pg)"
          using now_mapsD(2) [OF vs(1)] vw by simp
        have "fixup_done s v start e newflags (Some q) s'"
          unfolding fixup_done_def using su vs(5,6) v' f by (intro exI [of _ pre2] exI [of _ w'] exI [of _ post2] exI [of _ f]) simp
        moreover have "mprotect_fixup E (vm_id v) prev start e newflags s = Some (0, Some q, pops, s')" using run e0 m Some su(1) by simp
        ultimately show ?thesis using mm_step_trans [OF s1(2) mm_step_trans [OF st su(2)]] by simp
      qed
    qed
  qed
qed


section \<open>Flags\<close>

lemma flag_bits:
  "bit (0x7 :: int) n \<longleftrightarrow> n < 3" "bit (0x100000 :: int) n \<longleftrightarrow> n = 20" "bit (0x8000000 :: int) n \<longleftrightarrow> n = 27"
  "bit (0x8 :: int) n \<longleftrightarrow> n = 3" "bit (0x800 :: int) n \<longleftrightarrow> n = 11" "bit (0x40 :: int) n \<longleftrightarrow> n = 6"
proof -
  have m: "(0x7 :: int) = mask 3" by (simp add: mask_eq_exp_minus_1)
  show "bit (0x7 :: int) n \<longleftrightarrow> n < 3" unfolding m bit_mask_iff by auto
  have e: "bit (2 ^ k :: int) n \<longleftrightarrow> n = k" for k by (auto simp: bit_exp_iff)
  have p: "(0x100000 :: int) = 2 ^ 20" "(0x8000000 :: int) = 2 ^ 27" "(0x8 :: int) = 2 ^ 3" "(0x800 :: int) = 2 ^ 11" "(0x40 :: int) = 2 ^ 6" by simp_all
  show "bit (0x100000 :: int) n \<longleftrightarrow> n = 20" "bit (0x8000000 :: int) n \<longleftrightarrow> n = 27"
    "bit (0x8 :: int) n \<longleftrightarrow> n = 3" "bit (0x800 :: int) n \<longleftrightarrow> n = 11" "bit (0x40 :: int) n \<longleftrightarrow> n = 6"
    unfolding p by (simp_all add: e del: power_numeral)
qed

lemma word_eqI64: "(\<And>n. n < 64 \<Longrightarrow> bit a n = bit b n) \<Longrightarrow> a = (b :: 64 word)"
  by (rule bit_word_eqI) simp

lemma flag_bits_not:
  "bit (- 8 :: int) n \<longleftrightarrow> \<not> n < 3" "bit (- 1048577 :: int) n \<longleftrightarrow> n \<noteq> 20" "bit (- 134217729 :: int) n \<longleftrightarrow> n \<noteq> 27"
proof -
  have m: "(- 8 :: int) = NOT 0x7" "(- 1048577 :: int) = NOT 0x100000" "(- 134217729 :: int) = NOT 0x8000000" by simp_all
  show "bit (- 8 :: int) n \<longleftrightarrow> \<not> n < 3" "bit (- 1048577 :: int) n \<longleftrightarrow> n \<noteq> 20" "bit (- 134217729 :: int) n \<longleftrightarrow> n \<noteq> 27"
    unfolding m bit_not_iff flag_bits by auto
qed

lemma bit_not64: "n < 64 \<Longrightarrow> bit (NOT a) n \<longleftrightarrow> \<not> bit (a :: 64 word) n"
  by (simp add: bit_not_iff)

lemmas flag_simps = flag_bits flag_bits_not bit_and_iff bit_or_iff bit_not64

lemma flag_eqD:
  assumes "a AND m = b AND (m :: 64 word)" "bit m n"
  shows "bit a n = bit b n"
  using assms by (metis bit_and_iff)

text \<open>
  What is assumed of the translation of protections to flags: the permissions are the protection, and
  apart from them only the bits of the protection key change, which lie in the upper half.
\<close>

definition prot_env_ok :: "mm_env \<Rightarrow> bool" where
  "prot_env_ok E \<longleftrightarrow> (\<forall>prot k. calc_vm_prot_bits E prot k AND 7 = prot AND 7 \<and> calc_vm_prot_bits E prot k AND NOT (7 OR arch_vm_pkey_flags E) = 0) \<and>
     arch_vm_pkey_flags E AND 0xffffffff = 0"

lemma prot_env_okD:
  assumes "prot_env_ok E"
  shows "n < 3 \<Longrightarrow> bit (calc_vm_prot_bits E prot k) n = bit prot n"
    "n < 64 \<Longrightarrow> \<not> n < 3 \<Longrightarrow> \<not> bit (arch_vm_pkey_flags E) n \<Longrightarrow> \<not> bit (calc_vm_prot_bits E prot k) n"
    "n < 32 \<Longrightarrow> \<not> bit (arch_vm_pkey_flags E) n"
proof -
  have c: "calc_vm_prot_bits E prot k AND 7 = prot AND 7" "calc_vm_prot_bits E prot k AND NOT (7 OR arch_vm_pkey_flags E) = 0"
    "arch_vm_pkey_flags E AND 0xffffffff = 0" using assms by (auto simp: prot_env_ok_def)
  show "n < 3 \<Longrightarrow> bit (calc_vm_prot_bits E prot k) n = bit prot n" by (rule flag_eqD [OF c(1)]) (simp add: flag_simps)
  show "\<not> bit (calc_vm_prot_bits E prot k) n" if "n < 64" "\<not> n < 3" "\<not> bit (arch_vm_pkey_flags E) n"
  proof
    assume "bit (calc_vm_prot_bits E prot k) n"
    then have "bit (calc_vm_prot_bits E prot k AND NOT (7 OR arch_vm_pkey_flags E)) n" using that by (simp add: flag_simps)
    then show False unfolding c(2) by simp
  qed
  show "\<not> bit (arch_vm_pkey_flags E) n" if "n < 32"
  proof
    assume b: "bit (arch_vm_pkey_flags E) n"
    have m: "(0xffffffff :: 64 word) = mask 32" by (simp add: mask_eq_exp_minus_1)
    have "bit (arch_vm_pkey_flags E AND 0xffffffff) n" unfolding m using b that by (simp add: bit_and_iff bit_mask_iff)
    then show False unfolding c(3) by simp
  qed
qed

lemma newflags_bits:
  assumes "prot_env_ok E" "n < 64"
  shows "bit (mprotect_newflags E v prot pkey) n =
    (if n < 3 then bit prot n else if bit (arch_vm_pkey_flags E) n then bit (mprotect_newflags E v prot pkey) n else bit (vm_flags v) n)"
proof -
  have m: "VM_READ OR VM_WRITE OR VM_EXEC = 7" by simp
  have "VM_READ OR VM_WRITE OR VM_EXEC OR arch_vm_pkey_flags E = 7 OR arch_vm_pkey_flags E" by (simp add: or.assoc [symmetric])
  then have nf: "mprotect_newflags E v prot pkey =
      calc_vm_prot_bits E prot (arch_override_mprotect_pkey E v prot pkey) OR (vm_flags v AND NOT (7 OR arch_vm_pkey_flags E))"
    unfolding mprotect_newflags_def Let_def by simp
  show ?thesis
    using prot_env_okD(1,2) [OF assms(1)] assms(2) unfolding nf by (auto simp: flag_simps)
qed

lemma newflags_kept:
  assumes "prot_env_ok E"
  shows "mprotect_newflags E v prot pkey AND VM_SHARED = vm_flags v AND VM_SHARED"
    "mprotect_newflags E v prot pkey AND VM_DENYWRITE = vm_flags v AND VM_DENYWRITE"
  using newflags_bits [OF assms, of 3] newflags_bits [OF assms, of 11] prot_env_okD(3) [OF assms, of 3] prot_env_okD(3) [OF assms, of 11]
  by (auto intro!: word_eqI64 simp: flag_simps)

text \<open>
  The attributes of a page before and after: the file, the offset and the other flags stay, the
  permissions are those asked for, and none of them exceeds what the area may have.
\<close>

definition reprotected :: "mm_env \<Rightarrow> bool \<Rightarrow> 64 word \<Rightarrow> page_attr \<Rightarrow> page_attr \<Rightarrow> bool" where
  "reprotected E rier prot x y \<longleftrightarrow> (case (x, y) of ((fl, f, pg), (fl', f', pg')) \<Rightarrow> f' = f \<and> pg' = pg \<and>
     fl' AND NOT (7 OR VM_ACCOUNT OR arch_vm_pkey_flags E) = fl AND NOT (7 OR VM_ACCOUNT OR arch_vm_pkey_flags E) \<and>
     fl' AND 7 = mprotect_vma_prot rier prot fl AND 7 \<and> (fl' AND NOT (drop_bit 4 fl')) AND 7 = 0)"

lemma mprotect_vma_prot_softdirty: "mprotect_vma_prot rier prot (fl AND NOT VM_SOFTDIRTY) = mprotect_vma_prot rier prot fl"
proof -
  have "(fl AND NOT VM_SOFTDIRTY) AND 0x40 = fl AND 0x40" by (rule word_eqI64) (auto simp: flag_simps)
  then show ?thesis unfolding mprotect_vma_prot_def by (simp only:)
qed

lemma reprotected_flags:
  assumes E: "prot_env_ok E" and nf: "newflags = mprotect_newflags E v (mprotect_vma_prot rier prot (vm_flags v)) pkey"
    and chk: "(newflags AND NOT (drop_bit 4 newflags)) AND 7 = 0" and fl: "fl AND NOT VM_ACCOUNT = newflags AND NOT VM_ACCOUNT"
  shows "reprotected E rier prot (vm_flags v AND NOT VM_SOFTDIRTY, f, pg) (fl AND NOT VM_SOFTDIRTY, f, pg)"
    "reprotected E rier prot (fl AND NOT VM_SOFTDIRTY, f, pg) (fl AND NOT VM_SOFTDIRTY, f, pg)"
proof -
  let ?p = "mprotect_vma_prot rier prot (vm_flags v)"
  have b: "bit fl n = bit newflags n" if "n < 64" "n \<noteq> 20" for n
    by (rule flag_eqD [OF fl]) (use that in \<open>simp add: flag_simps\<close>)
  have nb: "n < 64 \<Longrightarrow> bit newflags n = (if n < 3 then bit ?p n else if bit (arch_vm_pkey_flags E) n then bit newflags n else bit (vm_flags v) n)" for n
    unfolding nf by (rule newflags_bits [OF E])
  have p7: "(fl AND NOT VM_SOFTDIRTY) AND 7 = ?p AND 7"
  proof (rule word_eqI64)
    fix n :: nat assume "n < 64"
    then show "bit ((fl AND NOT VM_SOFTDIRTY) AND 7) n = bit (?p AND 7) n" using b [of n] nb [of n] by (auto simp: flag_simps)
  qed
  have c7: "((fl AND NOT VM_SOFTDIRTY) AND NOT (drop_bit 4 (fl AND NOT VM_SOFTDIRTY))) AND 7 = 0"
  proof -
    define g where "g = fl AND NOT VM_SOFTDIRTY"
    have "bit g n = bit newflags n" if "n < 7" for n using b [of n] that by (simp add: g_def flag_simps)
    then have "(g AND NOT (drop_bit 4 g)) AND 7 = (newflags AND NOT (drop_bit 4 newflags)) AND 7"
      by (intro word_eqI64) (auto simp: flag_simps bit_drop_bit_eq)
    then have "((fl AND NOT VM_SOFTDIRTY) AND NOT (drop_bit 4 (fl AND NOT VM_SOFTDIRTY))) AND 7 = (newflags AND NOT (drop_bit 4 newflags)) AND 7"
      unfolding g_def .
    then show ?thesis using chk by simp
  qed
  have "(fl AND NOT VM_SOFTDIRTY) AND NOT (7 OR VM_ACCOUNT OR arch_vm_pkey_flags E) = (vm_flags v AND NOT VM_SOFTDIRTY) AND NOT (7 OR VM_ACCOUNT OR arch_vm_pkey_flags E)"
  proof (rule word_eqI64)
    fix n :: nat assume "n < 64"
    then show "bit ((fl AND NOT VM_SOFTDIRTY) AND NOT (7 OR VM_ACCOUNT OR arch_vm_pkey_flags E)) n =
        bit ((vm_flags v AND NOT VM_SOFTDIRTY) AND NOT (7 OR VM_ACCOUNT OR arch_vm_pkey_flags E)) n"
      using b [of n] nb [of n] by (auto simp: flag_simps)
  qed
  then show "reprotected E rier prot (vm_flags v AND NOT VM_SOFTDIRTY, f, pg) (fl AND NOT VM_SOFTDIRTY, f, pg)"
    using p7 c7 by (simp only: reprotected_def prod.case mprotect_vma_prot_softdirty simp_thms)
  have "bit fl 6 = bit (vm_flags v) 6" using b [of 6] nb [of 6] prot_env_okD(3) [OF E, of 6] by simp
  then have "fl AND 0x40 = vm_flags v AND 0x40" by (intro word_eqI64) (auto simp: flag_simps)
  then have "mprotect_vma_prot rier prot fl = ?p" unfolding mprotect_vma_prot_def by (simp only:)
  then show "reprotected E rier prot (fl AND NOT VM_SOFTDIRTY, f, pg) (fl AND NOT VM_SOFTDIRTY, f, pg)"
    using p7 c7 by (simp only: reprotected_def prod.case mprotect_vma_prot_softdirty simp_thms)
qed


section \<open>The loop\<close>

definition protected :: "mm_env \<Rightarrow> bool \<Rightarrow> 64 word \<Rightarrow> (64 word \<Rightarrow> page_attr option) \<Rightarrow> (64 word \<Rightarrow> page_attr option) \<Rightarrow> 64 word \<Rightarrow> 64 word \<Rightarrow> bool" where
  "protected E rier prot V V' lo hi \<longleftrightarrow>
     (\<forall>a. if lo \<le> a \<and> a < hi then \<exists>x y. V a = Some x \<and> V' a = Some y \<and> reprotected E rier prot x y else V' a = V a)"

lemma protected_none: "protected E rier prot V V lo lo"
  by (auto simp: protected_def)

lemma protected_append:
  assumes "protected E rier prot V V1 lo m" "protected E rier prot V1 V2 m hi" "lo \<le> m" "m \<le> hi"
  shows "protected E rier prot V V2 lo hi"
  unfolding protected_def
proof
  fix a
  have 1: "if lo \<le> a \<and> a < m then \<exists>x y. V a = Some x \<and> V1 a = Some y \<and> reprotected E rier prot x y else V1 a = V a"
    and 2: "if m \<le> a \<and> a < hi then \<exists>x y. V1 a = Some x \<and> V2 a = Some y \<and> reprotected E rier prot x y else V2 a = V1 a"
    using assms(1,2) unfolding protected_def by blast+
  show "if lo \<le> a \<and> a < hi then \<exists>x y. V a = Some x \<and> V2 a = Some y \<and> reprotected E rier prot x y else V2 a = V a"
    using 1 2 assms(3,4) by (cases "a < m"; cases "lo \<le> a"; cases "a < hi") (auto simp: not_less)
qed

text \<open>One area: the whole of the area that results has the new protection.\<close>

lemma fixup_protected:
  assumes E: "prot_env_ok E" and ok: "areas_ok (pre @ v # post)" and sp: "mmap (st_mm s) = pre @ v # post" and mm: "mm_ok (st_mm s')"
    and a: "aligned start" "start < t" "vm_start v \<le> start" "t \<le> vm_end v"
    and nf: "newflags = mprotect_newflags E v (mprotect_vma_prot rier prot (vm_flags v)) pkey"
    and chk: "(newflags AND NOT (drop_bit 4 newflags)) AND 7 = 0"
    and w: "mmap (st_mm s') = pre' @ w # post'" "vm_start w \<le> start" "t \<le> vm_end w" "vm_flags w AND NOT VM_SOFTDIRTY = fl AND NOT VM_SOFTDIRTY"
      "fl AND NOT VM_ACCOUNT = newflags AND NOT VM_ACCOUNT"
      "mm_view (st_mm s') = set_view (mm_view (st_mm s)) start t (range_attr start fl (vm_file v) (vm_pgoff v + drop_bit 12 (start - vm_start v)))"
    and e: "t \<le> e" "e \<le> vm_end w"
  shows "protected E rier prot (mm_view (st_mm s)) (mm_view (st_mm s')) start e"
  unfolding protected_def
proof
  fix x
  let ?V = "mm_view (st_mm s)" and ?V' = "mm_view (st_mm s')"
  note rp = reprotected_flags [OF E nf chk w(5)]
  have al: "aligned (vm_start v)" using ok by (simp add: areas_ok_append areas_ok_Cons area_ok_def)
  show "if start \<le> x \<and> x < e then \<exists>y z. ?V x = Some y \<and> ?V' x = Some z \<and> reprotected E rier prot y z else ?V' x = ?V x"
  proof (cases "start \<le> x \<and> x < t")
    case True
    have old: "?V x = Some (page_attr v x)"
      unfolding mm_view_def sp by (rule view_at [OF ok]) (use True a in auto)
    have "?V' x = Some (range_attr start fl (vm_file v) (vm_pgoff v + drop_bit 12 (start - vm_start v)) x)"
      using True w(6) by (simp add: set_view_def)
    also have "\<dots> = Some (fl AND NOT VM_SOFTDIRTY, snd (page_attr v x))"
      using range_attr_shift [OF al a(1,3)] True by (simp add: page_attr_def range_attr_def)
    finally have "?V' x = Some (fl AND NOT VM_SOFTDIRTY, snd (page_attr v x))" .
    moreover have "x < e" using True e(1) by (blast intro: less_le_trans)
    ultimately show ?thesis using old rp(1) True by (simp add: page_attr_def)
  next
    case out: False
    have keep: "?V' x = ?V x" using out w(6) by (auto simp: set_view_def)
    show ?thesis
    proof (cases "start \<le> x \<and> x < e")
      case True
      have ok': "areas_ok (pre' @ w # post')" using mm_ok_areas [OF mm] w(1) by simp
      have "?V' x = Some (page_attr w x)"
        unfolding mm_view_def w(1) by (rule view_at [OF ok']) (use True w(2) e(2) in auto)
      then show ?thesis using keep True w(4) rp(2) by (simp add: page_attr_def)
    next
      case False
      then show ?thesis using keep by (simp only: if_not_P if_False)
    qed
  qed
qed

lemma mprotect_loop_result:
  assumes E: "mm_env_ok E" "enough_memory_ok E" "pt_env_ok (pgt E)" "prot_env_ok E" and ae: "aligned e"
  shows "mm_ok (st_mm s) \<Longrightarrow> mmap (st_mm s) = pre @ v # post \<Longrightarrow> aligned nstart \<Longrightarrow> vm_start v \<le> nstart \<Longrightarrow> nstart < vm_end v \<Longrightarrow> nstart < e \<Longrightarrow>
    prev = (if vm_start v < nstart then Some (vm_id v) else if pre = [] then None else Some (vm_id (last pre))) \<Longrightarrow>
    \<exists>r pops' s' m. mprotect_loop E rier prot pkey e (vm_id v) prev nstart pops s = Some (r, pops', s') \<and> mm_step E s s' \<and>
      nstart \<le> m \<and> m \<le> e \<and> (r = 0 \<longrightarrow> m = e) \<and> protected E rier prot (mm_view (st_mm s)) (mm_view (st_mm s')) nstart m"
proof (induction "unat e - unat nstart" arbitrary: nstart s pre v post prev pops rule: less_induct)
  case less
  note mm = less.prems(1) and sp = less.prems(2)
  let ?loop = "mprotect_loop E rier prot pkey e (vm_id v) prev nstart pops s"
  let ?goal = "\<exists>r pops' s' m. ?loop = Some (r, pops', s') \<and> mm_step E s s' \<and> nstart \<le> m \<and> m \<le> e \<and> (r = 0 \<longrightarrow> m = e) \<and>
    protected E rier prot (mm_view (st_mm s)) (mm_view (st_mm s')) nstart m"
  have at: "vma_at (st_mm s) (vm_id v) = v" by (rule mm_ok_position(1) [OF mm sp])
  have ok: "areas_ok (pre @ v # post)" using mm_ok_areas [OF mm] sp by simp
  have ale: "aligned (vm_end v)" using ok by (simp add: areas_ok_append areas_ok_Cons area_ok_def)
  define p' where "p' = mprotect_vma_prot rier prot (vm_flags v)"
  define nf where "nf = mprotect_newflags E v p' pkey"
  define t where "t = (if vm_end v > e then e else vm_end v)"
  have t: "aligned t" "nstart < t" "t \<le> vm_end v" "t \<le> e" using ae ale less.prems(5,6) by (auto simp: t_def)
  have stop: ?goal if "?loop = Some (r, pops', s')" "mm_step E s s'" "mm_view (st_mm s') = mm_view (st_mm s)" "r \<noteq> 0" for r pops' s'
    using that less.prems(6) protected_none by (intro exI [of _ r] exI [of _ pops'] exI [of _ s'] exI [of _ nstart]) simp
  show ?case
  proof (cases "(nf AND NOT (drop_bit 4 nf)) AND 7 \<noteq> 0 \<or> security_file_mprotect E v prot p' \<noteq> 0")
    case True
    let ?r = "if (nf AND NOT (drop_bit 4 nf)) AND 7 \<noteq> 0 then - EACCES else security_file_mprotect E v prot p'"
    have "?loop = Some (?r, pops, s)"
      by (subst mprotect_loop.simps) (use True in \<open>simp add: at Let_def nf_def p'_def\<close>)
    moreover have "?r \<noteq> 0" using True by auto
    ultimately show ?thesis using stop mm_step_refl [OF mm] by blast
  next
    case False
    then have chk: "(nf AND NOT (drop_bit 4 nf)) AND 7 = 0" and sec: "security_file_mprotect E v prot p' = 0" by simp_all
    obtain r q pop s1 where fx: "mprotect_fixup E (vm_id v) prev nstart t nf s = Some (r, q, pop, s1)" "mm_step E s s1"
      "if r = 0 then fixup_done s v nstart t nf q s1 else mm_view (st_mm s1) = mm_view (st_mm s)"
      using mprotect_fixup_result [OF mm E(1-3) sp less.prems(3) t(1,2) less.prems(4) t(3) less.prems(7) newflags_kept [OF E(4)], of p' pkey]
      unfolding nf_def by blast
    show ?thesis
    proof (cases "r = 0")
      case False
      then have "?loop = Some (r, pops @ pop, s1)"
        by (subst mprotect_loop.simps) (use at chk sec fx(1) in \<open>simp add: Let_def nf_def p'_def t_def\<close>)
      then show ?thesis using stop fx False by simp
    next
      case True
      then have fd: "fixup_done s v nstart t nf q s1" using fx(3) by simp
      obtain pre1 w post1 fl where w: "mmap (st_mm s1) = pre1 @ w # post1" "q = Some (vm_id w)" "vm_start w \<le> nstart" "t \<le> vm_end w"
        "vm_flags w AND NOT VM_SOFTDIRTY = fl AND NOT VM_SOFTDIRTY" "fl AND NOT VM_ACCOUNT = nf AND NOT VM_ACCOUNT"
        "mm_view (st_mm s1) = set_view (mm_view (st_mm s)) nstart t (range_attr nstart fl (vm_file v) (vm_pgoff v + drop_bit 12 (nstart - vm_start v)))"
        using fd unfolding fixup_done_def by blast
      let ?n = "vm_end w"
      have mm1: "mm_ok (st_mm s1)" using fx(2) by (simp add: mm_step_def)
      have ok1: "areas_ok (pre1 @ w # post1)" using mm_ok_areas [OF mm1] w(1) by simp
      have aw: "aligned ?n" "nstart < ?n" using ok1 t(2) w(4) by (auto simp: areas_ok_append areas_ok_Cons area_ok_def)
      have run: "?loop = (if ?n \<ge> e then Some (0, pops @ pop, s1)
          else case vm_next (st_mm s1) (vm_id w) of None \<Rightarrow> Some (- ENOMEM, pops @ pop, s1)
          | Some n \<Rightarrow> if vm_start (vma_at (st_mm s1) n) \<noteq> ?n then Some (- ENOMEM, pops @ pop, s1)
              else mprotect_loop E rier prot pkey e n (Some (vm_id w)) ?n (pops @ pop) s1)"
      proof -
        have n: "t < ?n \<or> ?n = t" using w(4) by auto
        show ?thesis
          by (subst mprotect_loop.simps, rule disjE [OF n])
            (simp_all add: Let_def at p'_def [symmetric] nf_def [symmetric] t_def [symmetric] chk sec fx(1) True w(2) mm_ok_position(1) [OF mm1 w(1)] cong: option.case_cong if_cong)
      qed
      have part: "protected E rier prot (mm_view (st_mm s)) (mm_view (st_mm s1)) nstart m" if "t \<le> m" "m \<le> ?n" for m
        by (rule fixup_protected [OF E(4) ok sp mm1 less.prems(3) t(2) less.prems(4) t(3) nf_def [unfolded p'_def] chk w(1,3-7) that])
      show ?thesis
      proof (cases "?n \<ge> e")
        case True
        then show ?thesis using run part [OF t(4) True] fx(2) less.prems(6) by (intro exI [of _ 0] exI [of _ "pops @ pop"] exI [of _ s1] exI [of _ e]) simp
      next
        case lt: False
        show ?thesis
        proof (cases post1)
          case Nil
          have "?loop = Some (- ENOMEM, pops @ pop, s1)" unfolding run using lt mm_ok_position(2) [OF mm1 w(1)] Nil by simp
          then show ?thesis using part [OF w(4) order_refl] fx(2) lt aw(2) by (intro exI [of _ "- ENOMEM"] exI [of _ "pops @ pop"] exI [of _ s1] exI [of _ ?n]) auto
        next
          case (Cons x post2)
          have sp2: "mmap (st_mm s1) = (pre1 @ [w]) @ x # post2" using w(1) Cons by simp
          note atx = mm_ok_position(1) [OF mm1 sp2]
          show ?thesis
          proof (cases "vm_start x = ?n")
            case False
            have "?loop = Some (- ENOMEM, pops @ pop, s1)" unfolding run using lt mm_ok_position(2) [OF mm1 w(1)] Cons atx False by simp
            then show ?thesis using part [OF w(4) order_refl] fx(2) lt aw(2) by (intro exI [of _ "- ENOMEM"] exI [of _ "pops @ pop"] exI [of _ s1] exI [of _ ?n]) auto
          next
            case True
            have "vm_start x < vm_end x" using ok1 Cons by (simp add: areas_ok_append areas_ok_Cons area_ok_def)
            then have x: "vm_start x \<le> ?n" "?n < vm_end x" "?n < e" using True lt by auto
            have "unat e - unat ?n < unat e - unat nstart" using x(3) aw(2) by (simp add: word_less_nat_alt)
            from less.hyps [OF this mm1 sp2 aw(1) x, of "Some (vm_id w)" "pops @ pop"]
            obtain r pops' s' m where ih: "mprotect_loop E rier prot pkey e (vm_id x) (Some (vm_id w)) ?n (pops @ pop) s1 = Some (r, pops', s')"
              "mm_step E s1 s'" "?n \<le> m" "m \<le> e" "r = 0 \<longrightarrow> m = e" "protected E rier prot (mm_view (st_mm s1)) (mm_view (st_mm s')) ?n m"
              using True by auto
            have "?loop = Some (r, pops', s')" unfolding run using lt mm_ok_position(2) [OF mm1 w(1)] Cons atx True ih(1) by simp
            moreover have "protected E rier prot (mm_view (st_mm s)) (mm_view (st_mm s')) nstart m"
              by (rule protected_append [OF part [OF w(4) order_refl] ih(6) _ ih(3)]) (use aw(2) in simp)
            moreover have "nstart \<le> m" using aw(2) ih(3) by simp
            ultimately show ?thesis using mm_step_trans [OF fx(2) ih(2)] ih(4,5) by blast
          qed
        qed
      qed
    qed
  qed
qed


text \<open>
  The whole operation always returns.  It changes the protection of a range of mapped pages and of
  nothing else, and on success the range is the one asked for (unless it is to follow a growing area).
\<close>

definition protect_outcome ::
    "mm_env \<Rightarrow> 64 word \<Rightarrow> 64 word \<Rightarrow> 64 word \<Rightarrow> 64 word \<Rightarrow> int \<Rightarrow> mmst \<Rightarrow> mmst \<Rightarrow> bool" where
  "protect_outcome E pers start len prot r s s' \<longleftrightarrow>
     (\<exists>lo m. lo \<le> m \<and>
        protected E (pers AND READ_IMPLIES_EXEC \<noteq> 0 \<and> prot AND PROT_READ \<noteq> 0) (prot AND NOT (PROT_GROWSDOWN OR PROT_GROWSUP))
          (mm_view (st_mm s)) (mm_view (st_mm s')) lo m \<and>
        (prot AND (PROT_GROWSDOWN OR PROT_GROWSUP) = 0 \<longrightarrow>
           lo = start \<and> (m = start \<or> m \<le> start + PAGE_ALIGN len) \<and> (r = 0 \<longrightarrow> m = start + PAGE_ALIGN len)))"

lemma protect_outcome_same:
  assumes "mm_view (st_mm s') = mm_view (st_mm s)" "r = 0 \<Longrightarrow> PAGE_ALIGN len = 0"
  shows "protect_outcome E pers start len prot r s s'"
  unfolding protect_outcome_def using assms protected_none by (intro exI [of _ start]) auto

lemma aligned_add_wrap: "aligned a \<Longrightarrow> aligned b \<Longrightarrow> aligned (a + b)"
proof -
  assume a: "aligned a" "aligned b"
  have "unat (a + b) mod 4096 = (unat a + unat b) mod 2 ^ 64 mod 4096" by (simp add: unat_word_ariths)
  also have "\<dots> = (unat a + unat b) mod 4096" by (rule mod_mod_cancel) simp
  also have "\<dots> = 0" using a by (simp add: aligned_unat mod_add_eq [symmetric])
  finally show ?thesis by (simp add: aligned_unat)
qed

lemma do_mprotect_pkey_task_result:
  assumes mm: "mm_ok (st_mm s)" and E: "mm_env_ok E" "enough_memory_ok E" "pt_env_ok (pgt E)" "prot_env_ok E"
  shows "\<exists>r pops s'. do_mprotect_pkey_task E pers start len prot pkey s = Some (r, pops, s') \<and> mm_step E s s' \<and>
    protect_outcome E pers start len prot r s s'"
proof -
  let ?op = "do_mprotect_pkey_task E pers start len prot pkey s"
  let ?goal = "\<exists>r pops s'. ?op = Some (r, pops, s') \<and> mm_step E s s' \<and> protect_outcome E pers start len prot r s s'"
  let ?e = "start + PAGE_ALIGN len" and ?g = "prot AND (PROT_GROWSDOWN OR PROT_GROWSUP)"
  let ?rier = "pers AND READ_IMPLIES_EXEC \<noteq> 0 \<and> prot AND PROT_READ \<noteq> 0"
  let ?prot = "prot AND NOT (PROT_GROWSDOWN OR PROT_GROWSUP)"
  have stop: ?goal if "?op = Some (r, [], s)" "r = 0 \<Longrightarrow> PAGE_ALIGN len = 0" for r
    using that mm_step_refl [OF mm] protect_outcome_same [of s s r len] by blast
  have loop: ?goal if "?op = mprotect_loop E ?rier ?prot pkey e (vm_id v) prev n [] s" "mmap (st_mm s) = pre @ v # post" "aligned e" "aligned n"
      "vm_start v \<le> n" "n < vm_end v" "n < e" "prev = (if vm_start v < n then Some (vm_id v) else if pre = [] then None else Some (vm_id (last pre)))"
      "?g = 0 \<Longrightarrow> n = start \<and> e = ?e" for e v prev n pre post
  proof -
    from mprotect_loop_result [OF E that(3) mm that(2,4-8), of ?rier ?prot pkey "[]"]
    obtain r pops s' m where r: "mprotect_loop E ?rier ?prot pkey e (vm_id v) prev n [] s = Some (r, pops, s')" "mm_step E s s'" "n \<le> m" "m \<le> e"
      "r = 0 \<longrightarrow> m = e" "protected E ?rier ?prot (mm_view (st_mm s)) (mm_view (st_mm s')) n m" by blast
    have "protect_outcome E pers start len prot r s s'"
      unfolding protect_outcome_def using r(3-6) that(9) by (intro exI [of _ n] exI [of _ m]) auto
    then show ?thesis unfolding that(1) using r(1,2) by blast
  qed
  consider (inval) "?g = PROT_GROWSDOWN OR PROT_GROWSUP \<or> start AND 0xfff \<noteq> 0" | (no_len) "?g \<noteq> PROT_GROWSDOWN OR PROT_GROWSUP" "start AND 0xfff = 0" "len = 0"
    | (wrap) "?g \<noteq> PROT_GROWSDOWN OR PROT_GROWSUP" "start AND 0xfff = 0" "len \<noteq> 0" "?e \<le> start \<or> \<not> arch_validate_prot E ?prot \<or> mmap_sem_killed E \<or> (pkey \<noteq> - 1 \<and> \<not> mm_pkey_is_allocated E (st_mm s) pkey)"
    | (run) "?g \<noteq> PROT_GROWSDOWN OR PROT_GROWSUP" "start AND 0xfff = 0" "len \<noteq> 0" "\<not> ?e \<le> start" "arch_validate_prot E ?prot" "\<not> mmap_sem_killed E" "\<not> (pkey \<noteq> - 1 \<and> \<not> mm_pkey_is_allocated E (st_mm s) pkey)"
    by blast
  then show ?thesis
  proof cases
    case inval
    then have "?op = Some (- EINVAL, [], s)" unfolding do_mprotect_pkey_task_def Let_def by (simp only: if_True split: if_split) auto
    then show ?thesis by (rule stop) simp
  next
    case no_len
    then have "?op = Some (0, [], s)" unfolding do_mprotect_pkey_task_def Let_def by (simp only: if_True if_False simp_thms not_True_eq_False)
    then show ?thesis by (rule stop) (use no_len(3) in \<open>simp add: PAGE_ALIGN_def\<close>)
  next
    case wrap
    let ?r = "if ?e \<le> start then - ENOMEM else if \<not> arch_validate_prot E ?prot then - EINVAL else if mmap_sem_killed E then - EINTR else - EINVAL"
    have "?op = Some (?r, [], s)" unfolding do_mprotect_pkey_task_def Let_def using wrap by (simp only: if_True if_False simp_thms not_True_eq_False split: if_split) auto
    then show ?thesis by (rule stop) (simp split: if_splits)
  next
    case run
    have al: "aligned start" "aligned ?e" using run(2) aligned_add_wrap PAGE_ALIGN_is_aligned by (auto simp: aligned_def offset_in_page_def)
    let ?tail = "case find_vma E (st_mm s) start of None \<Rightarrow> Some (- ENOMEM, [], s)
      | Some p \<Rightarrow> if ?g AND PROT_GROWSDOWN \<noteq> 0 then
            if vm_start (vma_at (st_mm s) p) \<ge> ?e then Some (- ENOMEM, [], s)
            else if vm_flags (vma_at (st_mm s) p) AND VM_GROWSDOWN = 0 then Some (- EINVAL, [], s)
            else mprotect_loop E ?rier ?prot pkey ?e p (vm_prev (st_mm s) p) (vm_start (vma_at (st_mm s) p)) [] s
          else if vm_start (vma_at (st_mm s) p) > start then Some (- ENOMEM, [], s)
          else if ?g AND PROT_GROWSUP \<noteq> 0 \<and> vm_flags (vma_at (st_mm s) p) AND VM_GROWSUP = 0 then Some (- EINVAL, [], s)
          else mprotect_loop E ?rier ?prot pkey (if ?g AND PROT_GROWSUP \<noteq> 0 then vm_end (vma_at (st_mm s) p) else ?e) p
            (if start > vm_start (vma_at (st_mm s) p) then Some p else vm_prev (st_mm s) p) start [] s"
    have op: "?op = ?tail"
      unfolding do_mprotect_pkey_task_def Let_def using run by (simp only: if_True if_False simp_thms not_True_eq_False not_False_eq_True)
    from mm mm_env_okD(4) [OF E(1)] show ?thesis
    proof (cases rule: find_vma_cases [where a = start])
      case none
      then have "?op = Some (- ENOMEM, [], s)" using op by simp
      then show ?thesis by (rule stop) simp
    next
      case (found pre v post)
      note pos = mm_ok_position [OF mm found(2)]
      have ok: "vm_start v < vm_end v" "aligned (vm_start v)" "aligned (vm_end v)"
        using mm_ok_areas [OF mm] found(2) by (simp_all add: areas_ok_append areas_ok_Cons area_ok_def)
      show ?thesis
      proof (cases "?g AND PROT_GROWSDOWN \<noteq> 0")
        case True
        show ?thesis
        proof (cases "vm_start v \<ge> ?e \<or> vm_flags v AND VM_GROWSDOWN = 0")
          case bad: True
          have "?op = Some (if vm_start v \<ge> ?e then - ENOMEM else - EINVAL, [], s)"
            unfolding op using True bad found(1) pos(1) by (simp only: option.case if_True if_False split: if_split) auto
          then show ?thesis by (rule stop) (simp split: if_splits)
        next
          case False
          have "?op = mprotect_loop E ?rier ?prot pkey ?e (vm_id v) (vm_prev (st_mm s) (vm_id v)) (vm_start v) [] s"
            unfolding op using True False found(1) pos(1) by (simp only: option.case if_True if_False simp_thms de_Morgan_disj)
          then show ?thesis
            by (rule loop [OF _ found(2) al(2) ok(2) order_refl ok(1)]) (use False pos(3) True in auto)
        qed
      next
        case down: False
        let ?e' = "if ?g AND PROT_GROWSUP \<noteq> 0 then vm_end v else ?e"
        show ?thesis
        proof (cases "vm_start v > start \<or> (?g AND PROT_GROWSUP \<noteq> 0 \<and> vm_flags v AND VM_GROWSUP = 0)")
          case bad: True
          have "?op = Some (if vm_start v > start then - ENOMEM else - EINVAL, [], s)"
            unfolding op using down bad found(1) pos(1) by (simp only: option.case if_True if_False simp_thms split: if_split) auto
          then show ?thesis by (rule stop) (simp split: if_splits)
        next
          case False
          have "?op = mprotect_loop E ?rier ?prot pkey ?e' (vm_id v) (if start > vm_start v then Some (vm_id v) else vm_prev (st_mm s) (vm_id v)) start [] s"
            unfolding op using down False found(1) pos(1) by (simp only: option.case if_True if_False simp_thms de_Morgan_disj)
          then show ?thesis
            by (rule loop [OF _ found(2) _ al(1) _ found(4)]) (use False pos(3) run(4) al(2) ok(3) found(4) in auto)
        qed
      qed
    qed
  qed
qed

end
