(* ===== verification/Mremap.thy ===== *)
theory Mremap
  imports Mprotect
begin

text \<open>
  Moving and resizing mappings: \<open>copy_vma\<close> (\<open>mm/mmap.c\<close>) and \<open>mm/mremap.c\<close> with its remote variant
  \<open>mremap_task\<close>.  The high-water mark of \<open>total_vm\<close>, the locks of the reverse mapping, \<open>arch_remap\<close>
  and \<open>untrack_pfn_moved\<close> are not visible in the model.  An area without the method \<open>mremap\<close> is one for
  which \<open>vm_ops_mremap\<close> gives 0.
\<close>

abbreviation (input) MREMAP_MAYMOVE :: "64 word" where "MREMAP_MAYMOVE \<equiv> 0x1"
abbreviation (input) MREMAP_FIXED :: "64 word" where "MREMAP_FIXED \<equiv> 0x2"

section \<open>Copying an area\<close>

text \<open>A new area for the copy; the result is \<open>None\<close> if memory is short.\<close>

definition copy_vma_alloc ::
    "mm_env \<Rightarrow> vma_ptr \<Rightarrow> 64 word \<Rightarrow> 64 word \<Rightarrow> 64 word \<Rightarrow> vma_links \<Rightarrow> mmst \<Rightarrow> vma_ptr option \<times> mmst" where
  "copy_vma_alloc E p addr len pgoff ln s =
     (case kmem_cache_alloc E s of
        None \<Rightarrow> (None, s)
      | Some q \<Rightarrow>
          let vma = vma_at (st_mm s) p;
              new_vma = vma\<lparr>vm_id := q, vm_start := addr, vm_end := addr + len, vm_pgoff := pgoff\<rparr>;
              (err, pol) = vma_dup_policy E vma
          in if err \<noteq> 0 then (None, s)
             else
               let new_vma = new_vma\<lparr>vm_policy := pol, anon_vma_chain := []\<rparr>;
                   (err, new_vma) = anon_vma_clone E new_vma vma
               in if err \<noteq> 0 then (None, s)
                  else
                    let s = (case vm_file new_vma of None \<Rightarrow> s | Some f \<Rightarrow> s\<lparr>st_heap := get_file f (st_heap s)\<rparr>)
                    in (Some q, vma_link E new_vma ln s))"

text \<open>The result is the new area and \<open>*vmap\<close>.\<close>

definition copy_vma ::
    "mm_env \<Rightarrow> vma_ptr \<Rightarrow> 64 word \<Rightarrow> 64 word \<Rightarrow> 64 word \<Rightarrow> mmst \<Rightarrow> (vma_ptr option \<times> vma_ptr \<times> mmst) option" where
  "copy_vma E p addr len pgoff s =
     (let vma = vma_at (st_mm s) p;
          pgoff = (if vma_is_anonymous vma \<and> anon_vma vma = None then drop_bit 12 addr else pgoff)
      in case find_vma_links (st_mm s) addr (addr + len) of
           None \<Rightarrow> Some (None, p, s)
         | Some ln \<Rightarrow> do {
             (merged, s) \<leftarrow> vma_merge E (ln_prev ln) addr (addr + len) (vm_flags vma) (anon_vma vma) (vm_file vma) pgoff
                              (vm_policy vma) (vm_userfaultfd_ctx vma) s;
             (case merged of
                Some q \<Rightarrow>
                  let new_vma = vma_at (st_mm s) q
                  in Some (Some q, if vm_start vma \<ge> vm_start new_vma \<and> vm_start vma < vm_end new_vma then q else p, s)
              | None \<Rightarrow> let (new_vma, s) = copy_vma_alloc E p addr len pgoff ln s in Some (new_vma, p, s))
           })"

section \<open>Moving an area\<close>

text \<open>Writing to an area that is gone is \<open>None\<close>.\<close>

definition set_account :: "vma_ptr option \<Rightarrow> mmst \<Rightarrow> mmst option" where
  "set_account p s =
     (case p of
        None \<Rightarrow> None
      | Some q \<Rightarrow> if vma_of (st_mm s) q = None then None
                  else Some (s\<lparr>st_mm := upd_vma q (\<lambda>v. v\<lparr>vm_flags := vm_flags v OR VM_ACCOUNT\<rparr>) (st_mm s)\<rparr>))"

text \<open>The second half of \<open>move_vma\<close>, which unmaps the old area, or the new one after an error.\<close>

definition move_vma_unmap ::
    "mm_env \<Rightarrow> 64 word \<Rightarrow> vma_ptr \<Rightarrow> 64 word \<Rightarrow> 64 word \<Rightarrow> 64 word \<Rightarrow> 64 word \<Rightarrow> mmst \<Rightarrow> (64 word \<times> bool \<times> mmst) option" where
  "move_vma_unmap E flags p old_addr old_len new_len ret s =
     (let vma = vma_at (st_mm s) p;
          account = (flags AND VM_ACCOUNT \<noteq> 0);
          mm = (if account then upd_vma p (\<lambda>v. v\<lparr>vm_flags := vm_flags v AND NOT VM_ACCOUNT\<rparr>) (st_mm s) else st_mm s);
          excess = (if account then vm_end vma - vm_start vma - old_len else 0);
          split = (account \<and> old_addr > vm_start vma \<and> old_addr + old_len < vm_end vma);
          mm = vm_stat_account (vm_flags (vma_at mm p)) (drop_bit 12 new_len) mm
      in do {
        (r, s) \<leftarrow> do_munmap E old_addr old_len (s\<lparr>st_mm := mm\<rparr>);
        let (excess, s) = (if r < 0 then (0, vm_unacct_memory (drop_bit 12 excess) s) else (excess, s))
        in do {
          s \<leftarrow> (if excess \<noteq> 0 then do {
                  s \<leftarrow> set_account (Some p) s;
                  if split then set_account (vm_next (st_mm s) p) s else Some s
                }
                else Some s);
          let s = (if flags AND VM_LOCKED \<noteq> 0 then s\<lparr>st_mm := (st_mm s)\<lparr>locked_vm := locked_vm (st_mm s) + drop_bit 12 new_len\<rparr>\<rparr> else s)
          in Some (ret, flags AND VM_LOCKED \<noteq> 0, s)
        }
      })"

text \<open>The result is the new address or an error, and whether the pages are locked.\<close>

definition move_vma ::
    "mm_env \<Rightarrow> vma_ptr \<Rightarrow> 64 word \<Rightarrow> 64 word \<Rightarrow> 64 word \<Rightarrow> 64 word \<Rightarrow> mmst \<Rightarrow> (64 word \<times> bool \<times> mmst) option" where
  "move_vma E p old_addr old_len new_len new_addr s =
     (let vma = vma_at (st_mm s) p
      in if map_count (st_mm s) \<ge> sysctl_max_map_count E - 3 then Some (ulong (- ENOMEM), False, s)
         else
           let (err, flags, t) = ksm_madvise E vma old_addr (old_addr + old_len) (vm_flags vma) (pgd (st_mm s));
               s = set_pgd t s
           in if err \<noteq> 0 then Some (ulong err, False, s)
              else do {
                (new, p, s) \<leftarrow> copy_vma E p new_addr new_len (vm_pgoff vma + drop_bit 12 (old_addr - vm_start vma)) s;
                (case new of
                   None \<Rightarrow> Some (ulong (- ENOMEM), False, s)
                 | Some q \<Rightarrow> do {
                     (moved_len, t) \<leftarrow> move_page_tables (pgt E) old_addr (vma_at (st_mm s) q) new_addr old_len (pgd (st_mm s));
                     let s = set_pgd t s;
                         err = (if moved_len < old_len then - ENOMEM
                                else if vm_ops (vma_at (st_mm s) p) \<noteq> None then vm_ops_mremap E (vma_at (st_mm s) q) else 0)
                     in if err \<noteq> 0 then do {
                          (_, t) \<leftarrow> move_page_tables (pgt E) new_addr (vma_at (st_mm s) p) old_addr moved_len (pgd (st_mm s));
                          move_vma_unmap E flags q new_addr new_len new_len (ulong err) (set_pgd t s)
                        }
                        else move_vma_unmap E flags p old_addr old_len new_len new_addr s
                   })
              })"

section \<open>Resizing\<close>

text \<open>The error or the area, and the pages charged.\<close>

definition vma_to_resize_task ::
    "mm_env \<Rightarrow> 64 word \<Rightarrow> 64 word \<Rightarrow> 64 word \<Rightarrow> mmst \<Rightarrow> (int + vma_ptr) \<times> 64 word \<times> mmst" where
  "vma_to_resize_task E addr old_len new_len s =
     (case find_vma E (st_mm s) addr of
        None \<Rightarrow> (Inl (- EFAULT), 0, s)
      | Some p \<Rightarrow>
          let vma = vma_at (st_mm s) p
          in if vm_start vma > addr then (Inl (- EFAULT), 0, s)
             else if vm_flags vma AND VM_HUGETLB \<noteq> 0 then (Inl (- EINVAL), 0, s)
             else if old_len > vm_end vma - addr then (Inl (- EFAULT), 0, s)
             else if new_len = old_len then (Inr p, 0, s)
             else
               let pgoff = drop_bit 12 (addr - vm_start vma) + vm_pgoff vma
               in if pgoff + drop_bit 12 new_len < pgoff then (Inl (- EINVAL), 0, s)
                  else if vm_flags vma AND (VM_DONTEXPAND OR VM_PFNMAP) \<noteq> 0 then (Inl (- EFAULT), 0, s)
                  else if vm_flags vma AND VM_LOCKED \<noteq> 0 \<and> push_bit 12 (locked_vm (st_mm s)) + (new_len - old_len) > rlimit_memlock E \<and> \<not> capable_ipc_lock E
                  then (Inl (- EAGAIN), 0, s)
                  else if \<not> may_expand_vm E (st_mm s) (vm_flags vma) (drop_bit 12 (new_len - old_len)) then (Inl (- ENOMEM), 0, s)
                  else if vm_flags vma AND VM_ACCOUNT \<noteq> 0 then
                    let charged = drop_bit 12 (new_len - old_len);
                        (err, s) = security_vm_enough_memory_mm E s charged
                    in if err \<noteq> 0 then (Inl (- ENOMEM), 0, s) else (Inr p, charged, s)
                  else (Inr p, 0, s))"

definition vma_to_resize ::
    "mm_env \<Rightarrow> 64 word \<Rightarrow> 64 word \<Rightarrow> 64 word \<Rightarrow> mmst \<Rightarrow> (int + vma_ptr) \<times> 64 word \<times> mmst" where
  "vma_to_resize E addr old_len new_len s = vma_to_resize_task E addr old_len new_len s"

definition mremap_to_task ::
    "mm_env \<Rightarrow> 64 word \<Rightarrow> 64 word \<Rightarrow> 64 word \<Rightarrow> 64 word \<Rightarrow> mmst \<Rightarrow> (64 word \<times> bool \<times> mmst) option" where
  "mremap_to_task E addr old_len new_addr new_len s =
     (if offset_in_page new_addr \<noteq> 0 then Some (ulong (- EINVAL), False, s)
      else if new_len > TASK_SIZE E \<or> new_addr > TASK_SIZE E - new_len then Some (ulong (- EINVAL), False, s)
      else if addr + old_len > new_addr \<and> new_addr + new_len > addr then Some (ulong (- EINVAL), False, s)
      else do {
        (ret, s) \<leftarrow> do_munmap E new_addr new_len s;
        if ret \<noteq> 0 then Some (ulong ret, False, s)
        else do {
          (ret, s) \<leftarrow> (if old_len \<ge> new_len then do_munmap E (addr + new_len) (old_len - new_len) s else Some (0, s));
          if old_len \<ge> new_len \<and> ret \<noteq> 0 \<and> old_len \<noteq> new_len then Some (ulong ret, False, s)
          else
            let old_len = (if old_len \<ge> new_len then new_len else old_len);
                (vma, charged, s) = vma_to_resize_task E addr old_len new_len s
            in case vma of
                 Inl err \<Rightarrow> Some (ulong err, False, s)
               | Inr p \<Rightarrow>
                   let vma = vma_at (st_mm s) p;
                       map_flags = (if vm_flags vma AND VM_MAYSHARE \<noteq> 0 then MAP_FIXED OR MAP_SHARED else MAP_FIXED);
                       ret = get_unmapped_area E (vm_file vma) new_addr new_len (vm_pgoff vma + drop_bit 12 (addr - vm_start vma)) map_flags s
                   in if offset_in_page ret \<noteq> 0 then Some (ret, False, vm_unacct_memory charged s)
                      else do {
                        (ret, locked, s) \<leftarrow> move_vma E p addr old_len new_len new_addr s;
                        Some (ret, locked, if offset_in_page ret = 0 then s else vm_unacct_memory charged s)
                      }
        }
      })"

definition mremap_to ::
    "mm_env \<Rightarrow> 64 word \<Rightarrow> 64 word \<Rightarrow> 64 word \<Rightarrow> 64 word \<Rightarrow> mmst \<Rightarrow> (64 word \<times> bool \<times> mmst) option" where
  "mremap_to E addr old_len new_addr new_len s = mremap_to_task E addr old_len new_addr new_len s"

definition vma_expandable :: "mm_env \<Rightarrow> vma_ptr \<Rightarrow> 64 word \<Rightarrow> mmst \<Rightarrow> bool" where
  "vma_expandable E p delta s =
     (let vma = vma_at (st_mm s) p; end = vm_end vma + delta
      in if end < vm_end vma then False
         else if (case vm_next (st_mm s) p of None \<Rightarrow> False | Some n \<Rightarrow> vm_start (vma_at (st_mm s) n) < end) then False
         else get_unmapped_area E None (vm_start vma) (end - vm_start vma) 0 MAP_FIXED s AND 0xfff = 0)"

text \<open>Growing in place; the number of pages is kept in an \<open>int\<close>.\<close>

definition mremap_expand ::
    "mm_env \<Rightarrow> vma_ptr \<Rightarrow> 64 word \<Rightarrow> 64 word \<Rightarrow> 64 word \<Rightarrow> mmst \<Rightarrow> (64 word \<times> bool \<times> mmst) option" where
  "mremap_expand E p addr old_len new_len s = do {
     let vma = vma_at (st_mm s) p;
     let pages = (ucast (drop_bit 12 (new_len - old_len)) :: 32 word);
     (err, s) \<leftarrow> vma_adjust E p (vm_start vma) (addr + new_len) (vm_pgoff vma) None s;
     if err \<noteq> 0 then Some (ulong (- ENOMEM), False, s)
     else
       let vma = vma_at (st_mm s) p;
           mm = vm_stat_account (vm_flags vma) (scast pages) (st_mm s);
           locked = (vm_flags vma AND VM_LOCKED \<noteq> 0);
           mm = (if locked then mm\<lparr>locked_vm := locked_vm mm + scast pages\<rparr> else mm)
       in Some (addr, locked, s\<lparr>st_mm := mm\<rparr>)
   }"

text \<open>From \<open>vma_to_resize_task\<close> on: the result, whether to populate, the new address, and the pages charged.\<close>

definition mremap_grow ::
    "mm_env \<Rightarrow> 64 word \<Rightarrow> 64 word \<Rightarrow> 64 word \<Rightarrow> 64 word \<Rightarrow> 64 word \<Rightarrow> mmst \<Rightarrow> (64 word \<times> bool \<times> 64 word \<times> 64 word \<times> mmst) option" where
  "mremap_grow E addr old_len new_len flags new_addr s =
     (let (vma, charged, s) = vma_to_resize_task E addr old_len new_len s
      in case vma of
           Inl err \<Rightarrow> Some (ulong err, False, new_addr, charged, s)
         | Inr p \<Rightarrow>
             let vma = vma_at (st_mm s) p
             in if old_len = vm_end vma - addr \<and> vma_expandable E p (new_len - old_len) s then do {
                  (ret, locked, s) \<leftarrow> mremap_expand E p addr old_len new_len s;
                  Some (ret, locked, if locked then addr else new_addr, charged, s)
                }
                else if flags AND MREMAP_MAYMOVE \<noteq> 0 then
                  let map_flags = (if vm_flags vma AND VM_MAYSHARE \<noteq> 0 then MAP_SHARED else 0);
                      new_addr = get_task_unmapped_area E (vm_file vma) 0 new_len (vm_pgoff vma + drop_bit 12 (addr - vm_start vma)) map_flags s
                  in if offset_in_page new_addr \<noteq> 0 then Some (new_addr, False, new_addr, charged, s)
                     else do {
                       (ret, locked, s) \<leftarrow> move_vma E p addr old_len new_len new_addr s;
                       Some (ret, locked, new_addr, charged, s)
                     }
                else Some (ulong (- ENOMEM), False, new_addr, charged, s))"

definition mremap_task ::
    "mm_env \<Rightarrow> 64 word \<Rightarrow> 64 word \<Rightarrow> 64 word \<Rightarrow> 64 word \<Rightarrow> 64 word \<Rightarrow> mmst \<Rightarrow> (64 word \<times> populate \<times> mmst) option" where
  "mremap_task E addr old_len new_len flags new_addr s =
     (if flags AND NOT (MREMAP_FIXED OR MREMAP_MAYMOVE) \<noteq> 0 then Some (ulong (- EINVAL), Populate_nothing, s)
      else if flags AND MREMAP_FIXED \<noteq> 0 \<and> flags AND MREMAP_MAYMOVE = 0 then Some (ulong (- EINVAL), Populate_nothing, s)
      else if offset_in_page addr \<noteq> 0 then Some (ulong (- EINVAL), Populate_nothing, s)
      else
        let old_len = PAGE_ALIGN old_len; new_len = PAGE_ALIGN new_len
        in if new_len = 0 then Some (ulong (- EINVAL), Populate_nothing, s)
           else if mmap_sem_killed E then Some (ulong (- EINTR), Populate_nothing, s)
           else do {
             (ret, locked, new_addr, charged, s) \<leftarrow>
               (if flags AND MREMAP_FIXED \<noteq> 0 then do {
                  (ret, locked, s) \<leftarrow> mremap_to_task E addr old_len new_addr new_len s;
                  Some (ret, locked, new_addr, 0, s)
                }
                else if old_len \<ge> new_len then do {
                  (ret, s) \<leftarrow> do_munmap E (addr + new_len) (old_len - new_len) s;
                  Some (if ret \<noteq> 0 \<and> old_len \<noteq> new_len then ulong ret else addr, False, new_addr, 0, s)
                }
                else mremap_grow E addr old_len new_len flags new_addr s);
             let err = (offset_in_page ret \<noteq> 0);
                 s = (if err then vm_unacct_memory charged s else s);
                 locked = (if err then False else locked)
             in Some (ret, if locked \<and> new_len > old_len then Populate_task (new_addr + old_len) (new_len - old_len) else Populate_nothing, s)
           })"

definition sys_mremap ::
    "mm_env \<Rightarrow> 64 word \<Rightarrow> 64 word \<Rightarrow> 64 word \<Rightarrow> 64 word \<Rightarrow> 64 word \<Rightarrow> mmst \<Rightarrow> (64 word \<times> populate \<times> mmst) option" where
  "sys_mremap E addr old_len new_len flags new_addr s = mremap_task E addr old_len new_len flags new_addr s"

end
