(* ===== verification/Ptrace_Remote.thy ===== *)
theory Ptrace_Remote
  imports Ptrace Mremap
begin

text \<open>
  The remote requests of \<open>kernel/ptrace.c\<close> and the system call that leads to them:
  \<open>ptrace_remote_mmap\<close> to \<open>ptrace_remote_close\<close>, the dispatcher \<open>ptrace_request\<close>, the system call
  \<open>ptrace\<close>, and its variants for 32-bit callers.

  The memory management works on one address space at a time, with that of the current task at hand:
  \<open>mm_enter\<close> and \<open>mm_leave\<close> pass between that state and the state of the kernel.  \<open>None\<close> is a null
  pointer dereference or a \<open>BUG\<close>, such as a request on a task whose address space is gone.
\<close>

unbundle bit_operations_syntax

abbreviation (input) PTRACE_REMOTE_MMAP :: int where "PTRACE_REMOTE_MMAP \<equiv> 50"
abbreviation (input) PTRACE_REMOTE_MUNMAP :: int where "PTRACE_REMOTE_MUNMAP \<equiv> 51"
abbreviation (input) PTRACE_REMOTE_MREMAP :: int where "PTRACE_REMOTE_MREMAP \<equiv> 52"
abbreviation (input) PTRACE_REMOTE_MPROTECT :: int where "PTRACE_REMOTE_MPROTECT \<equiv> 53"
abbreviation (input) PTRACE_DUP_TO_REMOTE :: int where "PTRACE_DUP_TO_REMOTE \<equiv> 54"
abbreviation (input) PTRACE_DUP2_TO_REMOTE :: int where "PTRACE_DUP2_TO_REMOTE \<equiv> 55"
abbreviation (input) PTRACE_DUP_FROM_REMOTE :: int where "PTRACE_DUP_FROM_REMOTE \<equiv> 56"
abbreviation (input) PTRACE_REMOTE_CLOSE :: int where "PTRACE_REMOTE_CLOSE \<equiv> 57"

text \<open>
  What the requests rely on: the environments of tracing and of memory management,
  \<open>rlimit(RLIMIT_NOFILE)\<close> of the current task, what an uninitialised \<open>siginfo_t\<close> holds, the end of a
  task's life, and what only 32-bit callers need.
\<close>

record request_env =
  tracing :: ptrace_env
  mmenv :: mm_env
  rlimit_nofile :: nat
  stale_siginfo :: "nat \<Rightarrow> siginfo"
  raw_put_task_struct :: "tid \<Rightarrow> kstate \<Rightarrow> kstate"
  compat_arch_request :: "tid \<Rightarrow> int \<Rightarrow> 32 word \<Rightarrow> 32 word \<Rightarrow> kstate \<Rightarrow> (int \<times> kstate) option"
  copy_siginfo_to_user32 :: "64 word \<Rightarrow> siginfo \<Rightarrow> user_mem \<Rightarrow> int \<times> user_mem"
  copy_siginfo_from_user32 :: "64 word \<Rightarrow> siginfo \<Rightarrow> user_mem \<Rightarrow> int \<times> siginfo"

section \<open>Between the kernel and one address space\<close>

definition mm_enter :: "mm_ptr \<Rightarrow> mm_ptr \<Rightarrow> kstate \<Rightarrow> mmst" where
  "mm_enter m c k = \<lparr>st_mm = mms k m, st_cur = (if c = m then None else Some (mms k c)), st_heap = fheap k,
     st_spaces = spaces k, vm_committed_as = committed_as k\<rparr>"

definition mm_leave :: "mm_ptr \<Rightarrow> mm_ptr \<Rightarrow> mmst \<Rightarrow> kstate \<Rightarrow> kstate" where
  "mm_leave m c s k = k\<lparr>mms := (case st_cur s of None \<Rightarrow> mms k | Some mm \<Rightarrow> (mms k)(c := mm))(m := st_mm s),
     fheap := st_heap s, spaces := st_spaces s, committed_as := vm_committed_as s\<rparr>"

definition log_populate :: "mm_ptr \<Rightarrow> mm_ptr \<Rightarrow> populate \<Rightarrow> kstate \<Rightarrow> kstate" where
  "log_populate m c pop k =
     (case pop of
        Populate_nothing \<Rightarrow> k
      | Populate_current a len \<Rightarrow> k\<lparr>populated := populated k @ [(c, a, len)]\<rparr>
      | Populate_task a len \<Rightarrow> k\<lparr>populated := populated k @ [(m, a, len)]\<rparr>)"

text \<open>An \<open>unsigned long\<close> returned from a function of type \<open>int\<close>.\<close>

definition int_of_ulong :: "64 word \<Rightarrow> int" where
  "int_of_ulong w = sint (ucast w :: 32 word)"

section \<open>Mappings\<close>

definition ptrace_remote_mmap :: "request_env \<Rightarrow> tid \<Rightarrow> 64 word \<Rightarrow> kstate \<Rightarrow> (int \<times> kstate) option" where
  "ptrace_remote_mmap R child data k =
     (case copy_struct 40 get_mmap (umem k) data of
        None \<Rightarrow> Some (- EFAULT, k)
      | Some args \<Rightarrow> do {
          m \<leftarrow> t_mm (tasks k child);
          c \<leftarrow> t_mm (tasks k (cur k));
          cur_files \<leftarrow> files_tab k (t_files (tasks k (cur k)));
          (addr, pop, s) \<leftarrow> do_mmap_remote (mmenv R) cur_files (personality (tasks k child)) (mmap_addr args) (mmap_length args)
             (ucast (mmap_prot args)) (ucast (mmap_flags args)) (ucast (mmap_fd args)) (mmap_offset args) (mm_enter m c k);
          let k = log_populate m c pop (mm_leave m c s k);
          if IS_ERR_VALUE addr then Some (int_of_ulong addr, k)
          else let (ok, um) = copy_to_user (umem k) data (put_u64 addr)
               in Some (if ok then 0 else - EFAULT, k\<lparr>umem := um\<rparr>)
        })"

definition ptrace_remote_munmap :: "request_env \<Rightarrow> tid \<Rightarrow> 64 word \<Rightarrow> kstate \<Rightarrow> (int \<times> kstate) option" where
  "ptrace_remote_munmap R child data k =
     (case copy_struct 16 get_munmap (umem k) data of
        None \<Rightarrow> Some (- EFAULT, k)
      | Some args \<Rightarrow> do {
          m \<leftarrow> t_mm (tasks k child);
          c \<leftarrow> t_mm (tasks k (cur k));
          if mmap_sem_killed (mmenv R) then Some (- EINTR, k)
          else do {
            (retval, s) \<leftarrow> do_munmap (mmenv R) (munmap_addr args) (munmap_length args) (mm_enter m c k);
            Some (retval, mm_leave m c s k)
          }
        })"

definition ptrace_remote_mremap :: "request_env \<Rightarrow> tid \<Rightarrow> 64 word \<Rightarrow> kstate \<Rightarrow> (int \<times> kstate) option" where
  "ptrace_remote_mremap R child data k =
     (case copy_struct 40 get_mremap (umem k) data of
        None \<Rightarrow> Some (- EFAULT, k)
      | Some args \<Rightarrow> do {
          m \<leftarrow> t_mm (tasks k child);
          c \<leftarrow> t_mm (tasks k (cur k));
          (addr, pop, s) \<leftarrow> mremap_task (mmenv R) (mremap_old_addr args) (mremap_old_size args) (mremap_new_size args)
             (ucast (mremap_flags args)) (mremap_new_addr args) (mm_enter m c k);
          let k = log_populate m c pop (mm_leave m c s k);
          if IS_ERR_VALUE addr then Some (int_of_ulong addr, k)
          else let (ok, um) = copy_to_user (umem k) (data + 16) (put_u64 addr)
               in Some (if ok then 0 else - EFAULT, k\<lparr>umem := um\<rparr>)
        })"

text \<open>The ranges that \<open>mprotect_fixup\<close> has faulted in are ranges of the child.\<close>

definition ptrace_remote_mprotect :: "request_env \<Rightarrow> tid \<Rightarrow> 64 word \<Rightarrow> kstate \<Rightarrow> (int \<times> kstate) option" where
  "ptrace_remote_mprotect R child data k =
     (case copy_struct 24 get_mprotect (umem k) data of
        None \<Rightarrow> Some (- EFAULT, k)
      | Some args \<Rightarrow> do {
          m \<leftarrow> t_mm (tasks k child);
          c \<leftarrow> t_mm (tasks k (cur k));
          (ret, pops, s) \<leftarrow> mprotect_task (mmenv R) (personality (tasks k child)) (mprotect_addr args) (mprotect_length args)
             (ucast (mprotect_prot args)) (mm_enter m c k);
          Some (ret, (mm_leave m c s k)\<lparr>populated := populated k @ map (\<lambda>(a, b). (m, a, b - a)) pops\<rparr>)
        })"

section \<open>Descriptors\<close>

definition ptrace_dup_to_remote :: "request_env \<Rightarrow> tid \<Rightarrow> 64 word \<Rightarrow> kstate \<Rightarrow> (int \<times> kstate) option" where
  "ptrace_dup_to_remote R child data k =
     (case copy_struct 8 get_dup_to (umem k) data of
        None \<Rightarrow> Some (- EFAULT, k)
      | Some args \<Rightarrow>
          if dup_to_flags args AND NOT O_CLOEXEC \<noteq> 0 then Some (- EINVAL, k)
          else do {
            cur_files \<leftarrow> files_tab k (t_files (tasks k (cur k)));
            (f, h) \<leftarrow> fget_raw cur_files (fheap k) (unat (dup_to_local_fd args));
            case f of
              None \<Rightarrow> Some (- EBADF, k\<lparr>fheap := h\<rparr>)
            | Some f \<Rightarrow> do {
                files \<leftarrow> files_tab k (t_files (tasks k child));
                (ret, files) \<leftarrow> raw_alloc_fd (vfs (mmenv R)) files 0 (u32 (rlimit_nofile R)) (dup_to_flags args);
                if ret \<ge> 0 then do {
                  files \<leftarrow> raw_fd_install (vfs (mmenv R)) files (nat ret) f;
                  Some (ret, k\<lparr>files_tab := (files_tab k)(t_files (tasks k child) \<mapsto> files), fheap := h\<rparr>)
                }
                else Some (ret, k\<lparr>files_tab := (files_tab k)(t_files (tasks k child) \<mapsto> files), fheap := fput (vfs (mmenv R)) f h\<rparr>)
              }
          })"

definition ptrace_dup2_to_remote :: "request_env \<Rightarrow> tid \<Rightarrow> 64 word \<Rightarrow> kstate \<Rightarrow> (int \<times> kstate) option" where
  "ptrace_dup2_to_remote R child data k =
     (case copy_struct 12 get_dup2 (umem k) data of
        None \<Rightarrow> Some (- EFAULT, k)
      | Some args \<Rightarrow> do {
          (ret, fs, h) \<leftarrow> do_dup2_to_remote (vfs (mmenv R)) (rlimit_nofile R) (t_files (tasks k (cur k))) (t_files (tasks k child))
             (files_tab k) (fheap k) (unat (dup2_local_fd args)) (unat (dup2_remote_fd args)) (dup2_flags args);
          Some (ret, k\<lparr>files_tab := fs, fheap := h\<rparr>)
        })"

definition ptrace_dup_from_remote :: "request_env \<Rightarrow> tid \<Rightarrow> 64 word \<Rightarrow> kstate \<Rightarrow> (int \<times> kstate) option" where
  "ptrace_dup_from_remote R child data k =
     (case copy_struct 8 get_dup_from (umem k) data of
        None \<Rightarrow> Some (- EFAULT, k)
      | Some args \<Rightarrow>
          if dup_from_flags args AND NOT O_CLOEXEC \<noteq> 0 then Some (- EINVAL, k)
          else do {
            files \<leftarrow> files_tab k (t_files (tasks k child));
            (f, h) \<leftarrow> fget_files files (fheap k) (unat (dup_from_remote_fd args));
            case f of
              None \<Rightarrow> Some (- EBADF, k\<lparr>fheap := h\<rparr>)
            | Some f \<Rightarrow> do {
                cur_files \<leftarrow> files_tab k (t_files (tasks k (cur k)));
                (ret, cur_files) \<leftarrow> get_unused_fd_flags (vfs (mmenv R)) (rlimit_nofile R) cur_files (dup_from_flags args);
                if ret \<ge> 0 then do {
                  cur_files \<leftarrow> fd_install (vfs (mmenv R)) cur_files (nat ret) f;
                  Some (ret, k\<lparr>files_tab := (files_tab k)(t_files (tasks k (cur k)) \<mapsto> cur_files), fheap := h\<rparr>)
                }
                else Some (ret, k\<lparr>files_tab := (files_tab k)(t_files (tasks k (cur k)) \<mapsto> cur_files), fheap := fput (vfs (mmenv R)) f h\<rparr>)
              }
          })"

definition ptrace_remote_close :: "request_env \<Rightarrow> tid \<Rightarrow> 64 word \<Rightarrow> kstate \<Rightarrow> (int \<times> kstate) option" where
  "ptrace_remote_close R child data k =
     (case copy_struct 4 get_close (umem k) data of
        None \<Rightarrow> Some (- EFAULT, k)
      | Some args \<Rightarrow> do {
          files \<leftarrow> files_tab k (t_files (tasks k child));
          let (ret, files, h) = raw_close_fd (vfs (mmenv R)) files (fheap k) (unat (close_remote_fd args))
          in Some (ret, k\<lparr>files_tab := (files_tab k)(t_files (tasks k child) \<mapsto> files), fheap := h\<rparr>)
        })"

section \<open>Dispatch\<close>

abbreviation (input) SIZEOF_SIGSET :: "64 word" where "SIZEOF_SIGSET \<equiv> 8"
abbreviation (input) sigmask_kill_stop :: "64 word" where "sigmask_kill_stop \<equiv> 0x40100"

definition get_sigset :: "8 word list \<Rightarrow> 64 word" where
  "get_sigset bs = get_u64 0 bs"

text \<open>
  \<open>access_ok\<close> and the two \<open>__get_user\<close> of the register sets fail together with \<open>EFAULT\<close> when the
  \<open>struct iovec\<close> cannot be read.
\<close>

definition ptrace_request_regset :: "request_env \<Rightarrow> tid \<Rightarrow> int \<Rightarrow> 64 word \<Rightarrow> 64 word \<Rightarrow> kstate \<Rightarrow> int \<times> kstate" where
  "ptrace_request_regset R child request addr data k =
     (case copy_from_user (umem k) data 16 of
        None \<Rightarrow> (- EFAULT, k)
      | Some iov \<Rightarrow>
          let (ret, len, k) = ptrace_regset (tracing R) child request (unat (take_bit 32 addr)) (get_u64 0 iov) (get_u64 8 iov) k
          in if ret \<noteq> 0 then (ret, k)
             else let (ret, um) = put_user (umem k) (data + 8) len in (ret, k\<lparr>umem := um\<rparr>))"

definition ptrace_request_interrupt :: "request_env \<Rightarrow> tid \<Rightarrow> kstate \<Rightarrow> int \<times> kstate" where
  "ptrace_request_interrupt R child k =
     (if t_ptrace (tasks k child) AND PT_SEIZED = 0 \<or> t_sighand (tasks k child) = None then (- EIO, k)
      else
        let (set, k) = task_set_jobctl_pending (tracing R) child JOBCTL_TRAP_STOP k
        in (0, if set then ptrace_signal_wake_up (tracing R) child (t_jobctl (tasks k child) AND JOBCTL_LISTENING \<noteq> 0) k else k))"

definition ptrace_request_listen :: "request_env \<Rightarrow> tid \<Rightarrow> kstate \<Rightarrow> int \<times> kstate" where
  "ptrace_request_listen R child k =
     (if t_ptrace (tasks k child) AND PT_SEIZED = 0 \<or> t_sighand (tasks k child) = None then (- EIO, k)
      else case last_siginfo (tasks k child) of
             None \<Rightarrow> (- EIO, k)
           | Some si \<Rightarrow>
               if sint (siginfo_si_code si) div 256 = PTRACE_EVENT_STOP then
                 let k = upd_task child (\<lambda>t. t\<lparr>t_jobctl := t_jobctl t OR JOBCTL_LISTENING\<rparr>) k
                 in (0, if t_jobctl (tasks k child) AND JOBCTL_TRAP_NOTIFY \<noteq> 0 then ptrace_signal_wake_up (tracing R) child True k else k)
               else (- EIO, k))"

definition ptrace_request_siginfo :: "request_env \<Rightarrow> tid \<Rightarrow> int \<Rightarrow> 64 word \<Rightarrow> kstate \<Rightarrow> int \<times> kstate" where
  "ptrace_request_siginfo R child request data k =
     (if request = PTRACE_GETSIGINFO then
        case ptrace_getsiginfo child k of
          (ret, Some info) \<Rightarrow> let (ret, um) = copy_siginfo_to_user (tracing R) data info (umem k) in (ret, k\<lparr>umem := um\<rparr>)
        | (ret, None) \<Rightarrow> (ret, k)
      else case copy_from_user (umem k) data SIZEOF_SIGINFO of
             None \<Rightarrow> (- EFAULT, k)
           | Some info \<Rightarrow> ptrace_setsiginfo child info k)"

definition ptrace_request_sigmask :: "tid \<Rightarrow> int \<Rightarrow> 64 word \<Rightarrow> 64 word \<Rightarrow> kstate \<Rightarrow> (int \<times> kstate) option" where
  "ptrace_request_sigmask child request addr data k =
     (if addr \<noteq> SIZEOF_SIGSET then Some (- EINVAL, k)
      else if request = PTRACE_GETSIGMASK then
        let (ok, um) = copy_to_user (umem k) data (put_u64 (t_blocked (tasks k child)))
        in Some (if ok then 0 else - EFAULT, k\<lparr>umem := um\<rparr>)
      else case copy_from_user (umem k) data 8 of
             None \<Rightarrow> Some (- EFAULT, k)
           | Some bs \<Rightarrow>
               if t_sighand (tasks k child) = None then None
               else Some (0, upd_task child (\<lambda>t. t\<lparr>t_blocked := get_sigset bs AND NOT sigmask_kill_stop\<rparr>) k))"

text \<open>The requests that do not concern the address space or the descriptors of the tracee.\<close>

definition ptrace_request_local :: "request_env \<Rightarrow> tid \<Rightarrow> int \<Rightarrow> 64 word \<Rightarrow> 64 word \<Rightarrow> kstate \<Rightarrow> (int \<times> kstate) option" where
  "ptrace_request_local R child request addr data k =
     (if request = PTRACE_PEEKTEXT \<or> request = PTRACE_PEEKDATA then Some (generic_ptrace_peekdata (tracing R) child addr data k)
      else if request = PTRACE_POKETEXT \<or> request = PTRACE_POKEDATA then Some (generic_ptrace_pokedata (tracing R) child addr data k)
      else if request = PTRACE_OLDSETOPTIONS \<or> request = PTRACE_SETOPTIONS then Some (ptrace_setoptions (tracing R) child data k)
      else if request = PTRACE_GETEVENTMSG then
        let (ret, um) = put_user (umem k) data (ptrace_message (tasks k child)) in Some (ret, k\<lparr>umem := um\<rparr>)
      else if request = PTRACE_PEEKSIGINFO then Some (ptrace_peek_siginfo (tracing R) (stale_siginfo R) child addr data k)
      else if request = PTRACE_GETSIGINFO \<or> request = PTRACE_SETSIGINFO then Some (ptrace_request_siginfo R child request data k)
      else if request = PTRACE_GETSIGMASK \<or> request = PTRACE_SETSIGMASK then ptrace_request_sigmask child request addr data k
      else if request = PTRACE_INTERRUPT then Some (ptrace_request_interrupt R child k)
      else if request = PTRACE_LISTEN then Some (ptrace_request_listen R child k)
      else if request = PTRACE_DETACH then ptrace_detach (tracing R) child data k
      else if request \<in> {PTRACE_SINGLESTEP, PTRACE_SINGLEBLOCK, PTRACE_SYSEMU, PTRACE_SYSEMU_SINGLESTEP, PTRACE_SYSCALL, PTRACE_CONT}
      then Some (ptrace_resume (tracing R) child request data k)
      else if request = PTRACE_KILL then
        if t_exit_state (tasks k child) \<noteq> 0 then Some (0, k) else Some (ptrace_resume (tracing R) child request (of_nat SIGKILL) k)
      else if request = PTRACE_GETREGSET \<or> request = PTRACE_SETREGSET then Some (ptrace_request_regset R child request addr data k)
      else if request = PTRACE_SECCOMP_GET_FILTER then Some (seccomp_get_filter (tracing R) child addr data k)
      else Some (- EIO, k))"

definition ptrace_request :: "request_env \<Rightarrow> tid \<Rightarrow> int \<Rightarrow> 64 word \<Rightarrow> 64 word \<Rightarrow> kstate \<Rightarrow> (int \<times> kstate) option" where
  "ptrace_request R child request addr data k =
     (if request = PTRACE_REMOTE_MMAP then ptrace_remote_mmap R child data k
      else if request = PTRACE_REMOTE_MUNMAP then ptrace_remote_munmap R child data k
      else if request = PTRACE_REMOTE_MREMAP then ptrace_remote_mremap R child data k
      else if request = PTRACE_REMOTE_MPROTECT then ptrace_remote_mprotect R child data k
      else if request = PTRACE_DUP_TO_REMOTE then ptrace_dup_to_remote R child data k
      else if request = PTRACE_DUP2_TO_REMOTE then ptrace_dup2_to_remote R child data k
      else if request = PTRACE_DUP_FROM_REMOTE then ptrace_dup_from_remote R child data k
      else if request = PTRACE_REMOTE_CLOSE then ptrace_remote_close R child data k
      else ptrace_request_local R child request addr data k)"

section \<open>The system call\<close>

definition get_task_struct :: "tid \<Rightarrow> kstate \<Rightarrow> kstate" where
  "get_task_struct t k = upd_task t (\<lambda>s. s\<lparr>t_usage := t_usage s + 1\<rparr>) k"

definition put_task_struct :: "request_env \<Rightarrow> tid \<Rightarrow> kstate \<Rightarrow> kstate" where
  "put_task_struct R t k =
     (let k = upd_task t (\<lambda>s. s\<lparr>t_usage := t_usage s - 1\<rparr>) k
      in if t_usage (tasks k t) = 0 then raw_put_task_struct R t k else k)"

text \<open>The number of the task is a \<open>pid_t\<close>.\<close>

definition ptrace_get_task_struct :: "request_env \<Rightarrow> int \<Rightarrow> kstate \<Rightarrow> (int + tid) \<times> kstate" where
  "ptrace_get_task_struct R pid k =
     (case find_task_by_vpid (tracing R) (signed_take_bit 31 pid) k of
        None \<Rightarrow> (Inl (- ESRCH), k)
      | Some child \<Rightarrow> (Inr child, get_task_struct child k))"

definition arch_ptrace :: "request_env \<Rightarrow> tid \<Rightarrow> int \<Rightarrow> 64 word \<Rightarrow> 64 word \<Rightarrow> kstate \<Rightarrow> (int \<times> kstate) option" where
  "arch_ptrace R child request addr data k =
     (case arch_request (tracing R) child request addr data k of
        Some r \<Rightarrow> Some r
      | None \<Rightarrow> ptrace_request R child request addr data k)"

definition sys_ptrace :: "request_env \<Rightarrow> int \<Rightarrow> int \<Rightarrow> 64 word \<Rightarrow> 64 word \<Rightarrow> kstate \<Rightarrow> (int \<times> kstate) option" where
  "sys_ptrace R request pid addr data k =
     (if request = PTRACE_TRACEME then do {
        (ret, k) \<leftarrow> ptrace_traceme (tracing R) k;
        Some (ret, if ret = 0 then arch_ptrace_attach (tracing R) (cur k) k else k)
      }
      else case ptrace_get_task_struct R pid k of
        (Inl e, k) \<Rightarrow> Some (e, k)
      | (Inr child, k) \<Rightarrow>
          if request = PTRACE_ATTACH \<or> request = PTRACE_SEIZE then do {
            (ret, k) \<leftarrow> ptrace_attach (tracing R) child request addr data k;
            let k = (if ret = 0 then arch_ptrace_attach (tracing R) child k else k);
            Some (ret, put_task_struct R child k)
          }
          else
            let (ret, k) = ptrace_check_attach (tracing R) child (request = PTRACE_KILL \<or> request = PTRACE_INTERRUPT) k
            in if ret < 0 then Some (ret, put_task_struct R child k)
               else do {
                 (ret, k) \<leftarrow> arch_ptrace R child request addr data k;
                 let k = (if ret \<noteq> 0 \<or> request \<noteq> PTRACE_DETACH then ptrace_unfreeze_traced (tracing R) child k else k);
                 Some (ret, put_task_struct R child k)
               })"

section \<open>32-bit callers\<close>

definition put_user32 :: "user_mem \<Rightarrow> 64 word \<Rightarrow> 32 word \<Rightarrow> int \<times> user_mem" where
  "put_user32 um a v = (let (ok, um) = copy_to_user um a (put_u32 v) in (if ok then 0 else - EFAULT, um))"

definition compat_ptr :: "32 word \<Rightarrow> 64 word" where
  "compat_ptr p = ucast p"

definition compat_ptrace_regset :: "request_env \<Rightarrow> tid \<Rightarrow> int \<Rightarrow> 32 word \<Rightarrow> 64 word \<Rightarrow> kstate \<Rightarrow> int \<times> kstate" where
  "compat_ptrace_regset R child request addr datap k =
     (case copy_from_user (umem k) datap 8 of
        None \<Rightarrow> (- EFAULT, k)
      | Some iov \<Rightarrow>
          let (ret, len, k) = ptrace_regset (tracing R) child request (unat addr) (compat_ptr (get_u32 0 iov)) (ucast (get_u32 4 iov)) k
          in if ret \<noteq> 0 then (ret, k)
             else let (ret, um) = put_user32 (umem k) (datap + 4) (ucast len) in (ret, k\<lparr>umem := um\<rparr>))"

definition compat_ptrace_request :: "request_env \<Rightarrow> tid \<Rightarrow> int \<Rightarrow> 32 word \<Rightarrow> 32 word \<Rightarrow> kstate \<Rightarrow> (int \<times> kstate) option" where
  "compat_ptrace_request R child request addr data k =
     (let datap = compat_ptr data
      in if request = PTRACE_PEEKTEXT \<or> request = PTRACE_PEEKDATA then
           let (ret, buf, k) = ptrace_access_vm (tracing R) child (ucast addr) (replicate 4 0) FOLL_FORCE k
           in if ret \<noteq> 4 then Some (- EIO, k)
              else let (ret, um) = put_user32 (umem k) datap (get_u32 0 buf) in Some (ret, k\<lparr>umem := um\<rparr>)
         else if request = PTRACE_POKETEXT \<or> request = PTRACE_POKEDATA then
           let (ret, buf, k) = ptrace_access_vm (tracing R) child (ucast addr) (put_u32 data) (FOLL_FORCE OR FOLL_WRITE) k
           in Some (if ret \<noteq> 4 then - EIO else 0, k)
         else if request = PTRACE_GETEVENTMSG then
           let (ret, um) = put_user32 (umem k) datap (ucast (ptrace_message (tasks k child))) in Some (ret, k\<lparr>umem := um\<rparr>)
         else if request = PTRACE_GETSIGINFO then
           case ptrace_getsiginfo child k of
             (ret, Some info) \<Rightarrow> let (ret, um) = copy_siginfo_to_user32 R datap info (umem k) in Some (ret, k\<lparr>umem := um\<rparr>)
           | (ret, None) \<Rightarrow> Some (ret, k)
         else if request = PTRACE_SETSIGINFO then
           let (err, info) = copy_siginfo_from_user32 R datap (replicate SIZEOF_SIGINFO 0) (umem k)
           in if err \<noteq> 0 then Some (- EFAULT, k) else Some (ptrace_setsiginfo child info k)
         else if request = PTRACE_GETREGSET \<or> request = PTRACE_SETREGSET then Some (compat_ptrace_regset R child request addr datap k)
         else ptrace_request R child request (ucast addr) (ucast data) k)"

definition compat_arch_ptrace :: "request_env \<Rightarrow> tid \<Rightarrow> int \<Rightarrow> 32 word \<Rightarrow> 32 word \<Rightarrow> kstate \<Rightarrow> (int \<times> kstate) option" where
  "compat_arch_ptrace R child request addr data k =
     (case compat_arch_request R child request addr data k of
        Some r \<Rightarrow> Some r
      | None \<Rightarrow> compat_ptrace_request R child request addr data k)"

text \<open>The arguments are signed; \<open>ptrace_attach\<close> gets them extended to 64 bits.\<close>

definition compat_sys_ptrace :: "request_env \<Rightarrow> int \<Rightarrow> int \<Rightarrow> 32 word \<Rightarrow> 32 word \<Rightarrow> kstate \<Rightarrow> (int \<times> kstate) option" where
  "compat_sys_ptrace R request pid addr data k =
     (if request = PTRACE_TRACEME then ptrace_traceme (tracing R) k
      else case ptrace_get_task_struct R pid k of
        (Inl e, k) \<Rightarrow> Some (e, k)
      | (Inr child, k) \<Rightarrow>
          if request = PTRACE_ATTACH \<or> request = PTRACE_SEIZE then do {
            (ret, k) \<leftarrow> ptrace_attach (tracing R) child request (scast addr) (scast data) k;
            let k = (if ret = 0 then arch_ptrace_attach (tracing R) child k else k);
            Some (ret, put_task_struct R child k)
          }
          else
            let (ret, k) = ptrace_check_attach (tracing R) child (request = PTRACE_KILL \<or> request = PTRACE_INTERRUPT) k
            in if ret \<noteq> 0 then Some (ret, put_task_struct R child k)
               else do {
                 (ret, k) \<leftarrow> compat_arch_ptrace R child request addr data k;
                 let k = (if ret \<noteq> 0 \<or> request \<noteq> PTRACE_DETACH then ptrace_unfreeze_traced (tracing R) child k else k);
                 Some (ret, put_task_struct R child k)
               })"

end
