(* ===== verification/Mremap_Correct.thy ===== *)
theory Mremap_Correct
  imports Mremap
begin

text \<open>
  What \<open>mm/mremap.c\<close> does: moving page tables returns, \<open>copy_vma\<close> maps the new range beside the old one,
  \<open>move_vma\<close> then removes the old range (or the new one after an error), and \<open>mremap_task\<close> always
  returns with the address space well formed and all counters balanced.  Mappings are compared up to
  \<open>VM_ACCOUNT\<close>, which \<open>move_vma\<close> hides while it unmaps.
\<close>

section \<open>Moving page tables returns\<close>

lemma move_ptes_returns:
  "aligned n \<Longrightarrow> unat old + unat n < 2 ^ 64 \<Longrightarrow> \<exists>pt'. move_ptes E prot (old + n) old new pt = Some pt'"
proof (induction "unat n" arbitrary: old new n pt rule: less_induct)
  case less
  show ?case
  proof (cases "n = 0")
    case True
    then show ?thesis by (subst move_ptes.simps) simp
  next
    case False
    have n: "0x1000 \<le> n" by (rule aligned_nonzero [OF less(2) False])
    then have u: "unat (n - 0x1000) = unat n - 4096" "4096 \<le> unat n" by (simp_all add: unat_minus_le word_le_nat_alt)
    have a: "aligned (n - 0x1000)" by (rule aligned_diff [OF less(2) _ n]) (simp add: aligned_unat)
    have uo: "unat (old + 0x1000) = unat old + 4096" using unat_add_small [of old "0x1000"] less(3) u(2) by simp
    have lt: "old < old + n" using unat_add_small [OF less(3)] u(2) by (simp add: word_less_nat_alt)
    have h: "unat (n - 0x1000) < unat n" "unat (old + 0x1000) + unat (n - 0x1000) < 2 ^ 64" using u uo less(3) by linarith+
    obtain f where f: "move_ptes E prot (old + 0x1000 + (n - 0x1000)) (old + 0x1000) (new + 0x1000) q = Some (f q)" for q
      using less(1) [OF h(1) a h(2)] by metis
    have eq: "old + 0x1000 + (n - 0x1000) = old + n" by simp
    show ?thesis using lt f unfolding eq by (subst move_ptes.simps) (simp add: Let_def)
  qed
qed

lemma move_extent_returns:
  assumes al: "aligned old" "aligned new" "aligned n" and n0: "n \<noteq> 0" and w: "unat old + unat n < 2 ^ 64"
  shows "\<exists>r pt'. move_extent E nv (old + n) old new pt = Some (r, pt') \<and> (\<forall>m. r = Some m \<longrightarrow> m \<noteq> 0 \<and> m \<le> n \<and> aligned m)"
proof -
  let ?x = "((old + 0x200000) AND NOT 0x1fffff) - old" and ?y = "((new + 0x200000) AND NOT 0x1fffff) - new"
  define x where "x = (if ?x > n then n else ?x)"
  have x: "x \<noteq> 0" "x \<le> n" "aligned x" using pmd_extent [OF al(1)] n0 al(3) by (auto simp: x_def)
  define y where "y = (if (if x > ?y then ?y else x) > 0x40000 then 0x40000 else if x > ?y then ?y else x)"
  have y: "y \<noteq> 0" "y \<le> x" "aligned y" using pmd_extent [OF al(2)] x by (auto simp: y_def aligned_unat)
  have yn: "y \<le> n" using x(2) y(2) by simp
  have "unat old + unat y < 2 ^ 64" using w yn by (simp add: word_le_nat_alt)
  then obtain f where f: "move_ptes E (vm_page_prot nv) (old + y) old new q = Some (f q)" for q
    using move_ptes_returns [OF y(3)] by metis
  have on: "old + n - old = n" by simp
  show ?thesis
    unfolding move_extent_def Let_def on x_def [symmetric] y_def [symmetric] f
    using x y yn by (auto split: prod.splits)
qed

lemma move_extents_returns:
  "aligned old \<Longrightarrow> aligned new \<Longrightarrow> aligned n \<Longrightarrow> unat old + unat n < 2 ^ 64 \<Longrightarrow>
   \<exists>d pt'. move_extents E nv (old + n) old new pt = Some (old + d, pt') \<and> d \<le> n \<and> aligned d"
proof (induction "unat n" arbitrary: old new n pt rule: less_induct)
  case less
  show ?case
  proof (cases "n = 0")
    case True
    then have "move_extents E nv (old + n) old new pt = Some (old + 0, pt)" by (subst move_extents.simps) simp
    then show ?thesis using True by (intro exI [of _ 0] exI [of _ pt]) (simp add: aligned_unat)
  next
    case False
    have lt: "old < old + n" using False unat_add_small [OF less(5)] by (simp add: word_less_nat_alt unat_gt_0)
    obtain r pt1 where m: "move_extent E nv (old + n) old new pt = Some (r, pt1)" "\<forall>m. r = Some m \<longrightarrow> m \<noteq> 0 \<and> m \<le> n \<and> aligned m"
      using move_extent_returns [OF less(2-4) False less(5)] by blast
    show ?thesis
    proof (cases r)
      case None
      have "move_extents E nv (old + n) old new pt = Some (old + 0, pt1)" using m(1) lt None by (subst move_extents.simps) simp
      then show ?thesis by (intro exI [of _ 0] exI [of _ pt1]) (simp add: aligned_unat)
    next
      case (Some k)
      have k: "k \<noteq> 0" "k \<le> n" "aligned k" using m(2) Some by simp_all
      have u: "unat (n - k) = unat n - unat k" "unat k \<le> unat n" using k(2) by (simp_all add: unat_minus_le word_le_nat_alt)
      have k0: "unat k \<noteq> 0" using k(1) by (simp add: unat_eq_zero)
      have uo: "unat (old + k) = unat old + unat k" by (rule unat_add_small) (use less(5) u in linarith)
      have dec: "unat (n - k) < unat n" using u k0 by simp
      from less(1) [OF dec aligned_add_wrap [OF less(2) k(3)] aligned_add_wrap [OF less(3) k(3)] aligned_diff [OF less(4) k(3,2)]]
      obtain d pt2 where d: "move_extents E nv (old + k + (n - k)) (old + k) (new + k) pt1 = Some (old + k + d, pt2)" "d \<le> n - k" "aligned d"
        using uo u less(5) by fastforce
      have "move_extents E nv (old + n) old new pt = Some (old + (k + d), pt2)"
        using m(1) lt Some d(1) by (subst move_extents.simps) (simp add: add.assoc)
      moreover have "k + d \<le> n" using d(2) k(2) u by unat_arith
      ultimately show ?thesis using aligned_add_wrap [OF k(3) d(3)] by blast
    qed
  qed
qed

lemma move_page_tables_returns:
  assumes "aligned old" "aligned new" "aligned n" "unat old + unat n < 2 ^ 64"
  shows "\<exists>d pt'. move_page_tables E old nv new n pt = Some (d, pt') \<and> d \<le> n \<and> aligned d"
  using move_extents_returns [OF assms, of E nv pt] by (auto simp: move_page_tables_def Let_def)


section \<open>Copying\<close>

definition area_in :: "mm_struct \<Rightarrow> vma_ptr \<Rightarrow> 64 word \<Rightarrow> 64 word \<Rightarrow> bool" where
  "area_in mm p lo hi \<longleftrightarrow> (\<exists>u\<in>set (mmap mm). vm_id u = p \<and> vm_start u \<le> lo \<and> hi \<le> vm_end u)"

definition copied :: "mm_env \<Rightarrow> vm_area_struct \<Rightarrow> 64 word \<Rightarrow> 64 word \<Rightarrow> 64 word \<Rightarrow> mmst \<Rightarrow> vma_ptr \<Rightarrow> vma_ptr \<Rightarrow> mmst \<Rightarrow> bool" where
  "copied E v addr len pg s q p s' \<longleftrightarrow>
     mm_ok (st_mm s') \<and> bal E s' = bal E s \<and> st_cur s' = st_cur s \<and> total_vm (st_mm s') = total_vm (st_mm s) \<and> mm_fixed (st_mm s') = mm_fixed (st_mm s) \<and>
     clear_view (mm_view (st_mm s)) addr (addr + len) = mm_view (st_mm s) \<and>
     mm_view (st_mm s') = set_view (mm_view (st_mm s)) addr (addr + len) (range_attr addr (vm_flags v) (vm_file v) pg) \<and>
     area_in (st_mm s') q addr (addr + len) \<and> area_in (st_mm s') p (vm_start v) (vm_end v)"

lemma copy_vma_alloc_result:
  assumes mm: "mm_ok (st_mm s)" and E: "mm_env_ok E" and r: "region_ok E addr len" and ln: "find_vma_links (st_mm s) addr (addr + len) = Some ln"
    and sp: "mmap (st_mm s) = pre @ v # post"
  shows "\<exists>new s'. copy_vma_alloc E (vm_id v) addr len pgoff ln s = (new, s') \<and>
    (case new of None \<Rightarrow> s' = s | Some q \<Rightarrow> copied E v addr len pgoff s q (vm_id v) s')"
proof -
  note ee = mm_env_okD [OF E] and rd = region_okD [OF E r]
  have at: "vma_at (st_mm s) (vm_id v) = v" by (rule mm_ok_position(1) [OF mm sp])
  have free: "clear_view (mm_view (st_mm s)) addr (addr + len) = mm_view (st_mm s)" using find_links_iff [OF mm rd(5)] ln by blast
  show ?thesis
  proof (cases "kmem_cache_alloc E s")
    case None
    then show ?thesis by (simp add: copy_vma_alloc_def)
  next
    case (Some q)
    then have fresh: "\<forall>u\<in>set (mmap (st_mm s)). vm_id u \<noteq> q" using ee(5) unfolding alloc_ok_def by blast
    obtain e1 pol where pol: "vma_dup_policy E v = (e1, pol)" by fastforce
    define n where "n = v\<lparr>vm_id := q, vm_start := addr, vm_end := addr + len, vm_pgoff := pgoff, vm_policy := pol, anon_vma_chain := []\<rparr>"
    obtain e2 i where cl: "anon_vma_clone E n v = (e2, i)" by fastforce
    have "anon_only n (snd (anon_vma_clone E n v))" using ee(1) by (simp add: clone_ok_def)
    then have "anon_only n i" by (simp add: cl)
    note i = anon_onlyD [OF this, unfolded n_def, simplified]
    show ?thesis
    proof (cases "e1 = 0 \<and> e2 = 0")
      case False
      then show ?thesis using Some pol cl at by (cases "e1 = 0") (simp_all add: copy_vma_alloc_def n_def Let_def)
    next
      case True
      define s0 where "s0 = (case vm_file i of None \<Rightarrow> s | Some f \<Rightarrow> s\<lparr>st_heap := get_file f (st_heap s)\<rparr>)"
      have s0: "st_mm s0 = st_mm s" "st_cur s0 = st_cur s" "st_spaces s0 = st_spaces s"
        "\<And>g. f_count (st_heap s0 g) = f_count (st_heap s g) + (if vm_file i = Some g then 1 else 0)"
        by (auto simp: s0_def get_file_def split: option.split)
      have run: "copy_vma_alloc E (vm_id v) addr len pgoff ln s = (Some q, vma_link E i ln s0)"
        using Some pol cl True at by (simp add: copy_vma_alloc_def n_def Let_def s0_def)
      have v: "area_ok i" "\<forall>u\<in>set (mmap (st_mm s0)). vm_id u \<noteq> vm_id i" "find_vma_links (st_mm s0) (vm_start i) (vm_end i) = Some ln" "mm_ok (st_mm s0)"
        using rd fresh ln mm by (simp_all add: area_ok_def i s0)
      obtain xs ys t where l: "mmap (st_mm s0) = xs @ ys" "areas_ok (xs @ i # ys)" "inorder t = map vm_id (xs @ i # ys)"
        "vma_link E i ln s0 = (raw_vma_link_file E i s0)\<lparr>st_mm := (st_mm s0)\<lparr>mmap := xs @ i # ys, mm_rb := t,
           highest_vm_end := highest_end (xs @ i # ys), map_count := map_count (st_mm s0) + 1\<rparr>\<rparr>"
        "\<forall>u\<in>set xs. vm_end u \<le> vm_start i" "\<forall>w\<in>set ys. vm_end i \<le> vm_start w"
        by (rule vma_link_result [OF v(4) ee(2) v(3,1,2)])
      let ?s' = "vma_link E i ln s0"
      have m': "mmap (st_mm ?s') = xs @ i # ys" "mm_ok (st_mm ?s')" "total_vm (st_mm ?s') = total_vm (st_mm s)" "st_cur ?s' = st_cur s"
        "mm_fixed (st_mm ?s') = mm_fixed (st_mm s)"
        using l(1-3) v(4) s0 unfolding l(4) by (auto simp: mm_ok_def tree_ok_def)
      have h: "st_heap ?s' = st_heap s0" "st_spaces ?s' = st_spaces (raw_vma_link_file E i s0)"
        unfolding l(4) by (simp_all add: raw_vma_link_file_def upd_space_def Let_def split: option.split)
      have b: "bal E ?s' = bal E s"
        by (rule bal_link [where v = i and xs = xs and ys = ys]) (use s0 l(1) m'(1) in \<open>simp_all add: h raw_vma_link_file_spaces\<close>)
      have "view_of (xs @ i # ys) = set_view (view_of (xs @ ys)) addr (addr + len) (range_attr addr (vm_flags v) (vm_file v) pgoff)"
        using view_of_insert [OF l(5,6) v(1)] by (simp add: page_attr_range i)
      then have vw: "mm_view (st_mm ?s') = set_view (mm_view (st_mm s)) addr (addr + len) (range_attr addr (vm_flags v) (vm_file v) pgoff)"
        using l(1) s0(1) by (simp add: mm_view_def m'(1))
      have "area_in (st_mm ?s') q addr (addr + len)" unfolding area_in_def m'(1) by (rule bexI [of _ i]) (simp_all add: i)
      moreover have "v \<in> set (xs @ ys)" using sp l(1) s0(1) by (metis in_set_conv_decomp)
      then have "area_in (st_mm ?s') (vm_id v) (vm_start v) (vm_end v)" unfolding area_in_def m'(1) by (intro bexI [of _ v]) auto
      ultimately have "copied E v addr len pgoff s q (vm_id v) ?s'" unfolding copied_def using m' b vw free by simp
      then show ?thesis using run by simp
    qed
  qed
qed

lemma areas_overlap:
  assumes "areas_ok vs" "x \<in> set vs" "v \<in> set vs" "vm_start x \<le> a" "a < vm_end x" "vm_start v \<le> a" "a < vm_end v"
  shows "v = x"
proof -
  obtain pre post where vs: "vs = pre @ x # post" using assms(2) by (meson split_list)
  have "v \<notin> set pre"
  proof
    assume "v \<in> set pre"
    then have "vm_end v \<le> vm_start x" using assms(1) by (simp add: vs areas_ok_append areas_ok_Cons)
    then show False using assms(4,7) by simp
  qed
  moreover have "v \<notin> set post"
  proof
    assume "v \<in> set post"
    then have "vm_end x \<le> vm_start v" using assms(1) by (simp add: vs areas_ok_append areas_ok_Cons)
    then show False using assms(5,6) by simp
  qed
  ultimately show ?thesis using assms(3) vs by simp
qed

lemma area_in_anons:
  assumes "anons vs (mmap mm)" "u \<in> set vs" "vm_start u \<le> lo" "hi \<le> vm_end u"
  shows "area_in mm (vm_id u) lo hi"
proof -
  obtain pre post where "vs = pre @ u # post" using assms(2) by (meson split_list)
  then obtain pre' w post' where "mmap mm = pre' @ w # post'" "anon_only u w" using assms(1) by (auto simp: list_all2_append1 list_all2_Cons1)
  then show ?thesis using assms(3,4) anon_onlyD [of u w] by (simp add: area_in_def)
qed

lemma copied_trans:
  assumes "copied E v addr len pg s1 q p s2" "mm_step E s s1" "mm_view (st_mm s1) = mm_view (st_mm s)" "total_vm (st_mm s1) = total_vm (st_mm s)"
  shows "copied E v addr len pg s q p s2"
  using assms by (simp add: copied_def mm_step_def)

lemma copied_same:
  assumes "copied E w addr len pg s q p s'" "vm_flags w = vm_flags v" "vm_file w = vm_file v" "vm_start w = vm_start v" "vm_end w = vm_end v"
  shows "copied E v addr len pg s q p s'"
  using assms by (simp add: copied_def)

lemma copy_vma_result:
  assumes mm: "mm_ok (st_mm s)" and E: "mm_env_ok E" and r: "region_ok E addr len" and sp: "mmap (st_mm s) = pre @ v # post"
  shows "\<exists>new p s'. copy_vma E (vm_id v) addr len pgoff s = Some (new, p, s') \<and>
    (case new of None \<Rightarrow> mm_step E s s' \<and> mm_view (st_mm s') = mm_view (st_mm s)
     | Some q \<Rightarrow> copied E v addr len (if vma_is_anonymous v \<and> anon_vma v = None then drop_bit 12 addr else pgoff) s q p s')"
proof -
  note ee = mm_env_okD [OF E] and rd = region_okD [OF E r]
  let ?pg = "if vma_is_anonymous v \<and> anon_vma v = None then drop_bit 12 addr else pgoff"
  have at: "vma_at (st_mm s) (vm_id v) = v" by (rule mm_ok_position(1) [OF mm sp])
  show ?thesis
  proof (cases "find_vma_links (st_mm s) addr (addr + len)")
    case None
    then show ?thesis using mm_step_refl [OF mm] by (simp add: copy_vma_def)
  next
    case (Some ln)
    have free: "clear_view (mm_view (st_mm s)) addr (addr + len) = mm_view (st_mm s)" using find_links_iff [OF mm rd(5)] Some by blast
    let ?mg = "vma_merge E (ln_prev ln) addr (addr + len) (vm_flags v) (anon_vma v) (vm_file v) ?pg (vm_policy v) (vm_userfaultfd_ctx v) s"
    have mo: "merge_outcome E s addr (addr + len) (vm_flags v) (vm_file v) ?pg ?mg" by (rule merge_at_links [OF mm E r Some])
    then obtain m s1 where m: "?mg = Some (m, s1)" by (auto simp: merge_outcome_def split: option.splits)
    show ?thesis
    proof (cases m)
      case None
      have now: "now_maps E s s1 (mmap (st_mm s))" using mo unfolding m None by (simp add: merge_outcome_def)
      note n = now_mapsD [OF now]
      have ao: "areas_ok (mmap (st_mm s))" by (rule mm_ok_areas [OF mm])
      have s1: "mm_view (st_mm s1) = mm_view (st_mm s)" "mm_ok (st_mm s1)" "mm_step E s s1" "total_vm (st_mm s1) = total_vm (st_mm s)"
        using n ao now_maps_step [OF now ao refl] by (simp_all add: mm_view_def)
      have ln1: "find_vma_links (st_mm s1) addr (addr + len) = Some ln"
        using find_vma_links_anons [OF mm n(1) vma_merge_fail [OF m [unfolded None]]] Some by simp
      obtain pre1 w post1 where w: "mmap (st_mm s1) = pre1 @ w # post1" "anon_only v w" using n(1) sp by (auto simp: list_all2_append1 list_all2_Cons1)
      note wd = anon_onlyD [OF w(2)]
      obtain new s2 where c: "copy_vma_alloc E (vm_id v) addr len ?pg ln s1 = (new, s2)"
        "case new of None \<Rightarrow> s2 = s1 | Some q \<Rightarrow> copied E w addr len ?pg s1 q (vm_id v) s2"
        using copy_vma_alloc_result [OF s1(2) E r ln1 w(1), of ?pg, unfolded wd(1)] by blast
      have run: "copy_vma E (vm_id v) addr len pgoff s = Some (new, vm_id v, s2)" using Some m None c(1) by (simp add: copy_vma_def at Let_def)
      show ?thesis
      proof (cases new)
        case None
        then show ?thesis using run c(2) s1 by simp
      next
        case (Some q)
        have "copied E v addr len ?pg s q (vm_id v) s2"
          by (rule copied_trans [OF copied_same [OF _ wd(4,6,2,3)] s1(3,1,4)]) (use c(2) Some in simp)
        then show ?thesis using run Some by auto
      qed
    next
      case (Some q)
      obtain vs x where vs: "now_maps E s s1 vs" "areas_ok vs" "x \<in> set vs" "vm_id x = q" "vm_start x \<le> addr" "addr + len \<le> vm_end x"
        and keep: "\<forall>u\<in>set (mmap (st_mm s)). u \<in> set vs \<or> vm_start x \<le> vm_start u \<and> vm_end u \<le> vm_end x \<or> vm_start u < addr + len \<and> addr < vm_end u"
        and view: "\<forall>a. view_of vs a = (if addr \<le> a \<and> a < addr + len then Some (range_attr addr (vm_flags v) (vm_file v) ?pg a) else view_of (mmap (st_mm s)) a)"
        using mo unfolding m Some merge_outcome_def option.case prod.case by blast
      note n = now_mapsD [OF vs(1)]
      have ao: "areas_ok (pre @ v # post)" using mm_ok_areas [OF mm] sp by simp
      have vw: "mm_view (st_mm s1) = set_view (mm_view (st_mm s)) addr (addr + len) (range_attr addr (vm_flags v) (vm_file v) ?pg)"
        using n(2) view by (simp add: set_view_def mm_view_def fun_eq_iff)
      have xat: "vm_start (vma_at (st_mm s1) q) = vm_start x" "vm_end (vma_at (st_mm s1) q) = vm_end x"
        using anons_at [OF n(1) vs(2,3), of "(st_mm s)\<lparr>mmap := vs\<rparr>" "st_mm s1"] vma_at_in [of "(st_mm s)\<lparr>mmap := vs\<rparr>" x] vs(2-4) by simp_all
      let ?p = "if vm_start v \<ge> vm_start x \<and> vm_start v < vm_end x then q else vm_id v"
      have run: "copy_vma E (vm_id v) addr len pgoff s = Some (Some q, ?p, s1)"
        using \<open>find_vma_links (st_mm s) addr (addr + len) = Some ln\<close> m Some by (simp add: copy_vma_def at Let_def xat)
      have vlt: "vm_start v < vm_end v" using ao by (simp add: areas_ok_append areas_ok_Cons area_ok_def)
      have "\<not> (vm_start v < addr + len \<and> addr < vm_end v)"
      proof -
        have "view_of (pre @ v # post) x = None" if "addr \<le> x" "x < addr + len" for x
          using fun_cong [OF free, of x] that sp by (simp add: clear_view_def mm_view_def)
        then have "\<forall>v\<in>set (pre @ v # post). vm_end v \<le> addr \<or> addr + len \<le> vm_start v" using view_None_free [OF ao rd(5)] by blast
        then show ?thesis by (simp add: not_less) (metis not_less)
      qed
      then have "v \<in> set vs \<or> vm_start x \<le> vm_start v \<and> vm_end v \<le> vm_end x" using keep sp by auto
      then have "\<exists>u\<in>set vs. vm_id u = ?p \<and> vm_start u \<le> vm_start v \<and> vm_end v \<le> vm_end u"
      proof
        assume v: "v \<in> set vs"
        show ?thesis
        proof (cases "vm_start v \<ge> vm_start x \<and> vm_start v < vm_end x")
          case True
          then have "v = x" using areas_overlap [OF vs(2,3) v, of "vm_start v"] vlt by simp
          then show ?thesis using v vs(4) by auto
        qed (use v in auto)
      next
        assume x: "vm_start x \<le> vm_start v \<and> vm_end v \<le> vm_end x"
        then have "vm_start v < vm_end x" using vlt by (blast intro: less_le_trans)
        with x have "?p = q" by (intro if_P conjI) blast+
        with vs(4) have "vm_id x = ?p" by (rule trans [OF _ sym])
        then show ?thesis using vs(3) x by blast
      qed
      then obtain u where u: "u \<in> set vs" "vm_id u = ?p" "vm_start u \<le> vm_start v" "vm_end v \<le> vm_end u" by blast
      have "area_in (st_mm s1) ?p (vm_start v) (vm_end v)" using area_in_anons [OF n(1) u(1,3,4)] unfolding u(2) .
      moreover have "area_in (st_mm s1) q addr (addr + len)" using area_in_anons [OF n(1) vs(3,5,6)] vs(4) by simp
      ultimately have "copied E v addr len ?pg s q ?p s1" unfolding copied_def using n vs(2) vw free by simp
      then show ?thesis using run by auto
    qed
  qed
qed


section \<open>Unmapping a part of an area\<close>

lemma find_vma_at:
  assumes mm: "mm_ok mm" and E: "vmacache_ok E" and sp: "mmap mm = pre @ v # post" and a: "vm_start v \<le> a" "a < vm_end v"
  shows "find_vma E mm a = Some (vm_id v)"
proof -
  have ok: "areas_ok (pre @ v # post)" using mm_ok_areas [OF mm] sp by simp
  have "find (\<lambda>v. a < vm_end v) pre = None"
    using ok a(1) by (fastforce simp: find_None_iff areas_ok_append areas_ok_Cons)
  then show ?thesis using find_vma_list [OF _ E, of mm a] mm a(2) by (simp add: sp find_append)
qed

lemma do_munmap_part:
  assumes mm: "mm_ok (st_mm s)" and E: "mm_env_ok E" and sp: "mmap (st_mm s) = pre @ v # post"
    and len: "aligned len" and v: "vm_start v \<le> start" "start < start + len" "start + len \<le> vm_end v"
    and ok: "do_munmap E start len s = Some (0, s')"
  shows "aligned start" "PAGE_ALIGN len = len"
    "do { (error, prev, s) \<leftarrow> cut_start E start (start + len) (vm_id v) s;
          if error \<noteq> 0 then Some (error, s)
          else do {
            (error, s) \<leftarrow> cut_end E (start + len) s;
            if error \<noteq> 0 then Some (error, s) else munmap_tail E prev start (start + len) s
          } } = Some (0, s')"
proof -
  note ee = mm_env_okD [OF E]
  have b: "\<not> (offset_in_page start \<noteq> 0 \<or> start > TASK_SIZE E \<or> len > TASK_SIZE E - start)" "PAGE_ALIGN len \<noteq> 0"
    using ok by (auto simp: do_munmap_cuts split: if_splits)
  then show al: "aligned start" by (simp add: aligned_def)
  have "len \<le> 0x8000000000000000"
    by (rule order.trans [OF _ order.trans [OF word_sub_le ee(8)]]) (use b in \<open>auto simp: not_less\<close>)
  then show pa: "PAGE_ALIGN len = len" by (rule PAGE_ALIGN_aligned [OF len])
  have fv: "find_vma E (st_mm s) start = Some (vm_id v)"
    by (rule find_vma_at [OF mm ee(4) sp v(1) less_le_trans [OF v(2,3)]])
  have at: "vma_at (st_mm s) (vm_id v) = v" by (rule mm_ok_position(1) [OF mm sp])
  have "\<not> start + len \<le> vm_start v" using v(1,2) by (auto simp: not_le)
  then show "do { (error, prev, s) \<leftarrow> cut_start E start (start + len) (vm_id v) s;
          if error \<noteq> 0 then Some (error, s)
          else do {
            (error, s) \<leftarrow> cut_end E (start + len) s;
            if error \<noteq> 0 then Some (error, s) else munmap_tail E prev start (start + len) s
          } } = Some (0, s')"
    using ok b unfolding do_munmap_cuts pa fv option.case at by (simp only: if_False)
qed

text \<open>What is left below the range is still the same area.\<close>

lemma do_munmap_above:
  assumes mm: "mm_ok (st_mm s)" and E: "mm_env_ok E" and sp: "mmap (st_mm s) = pre @ v # post"
    and len: "aligned len" and v: "vm_start v < start" "start < start + len" "start + len \<le> vm_end v"
    and ok: "do_munmap E start len s = Some (0, s')"
  shows "\<exists>front l rest. mmap (st_mm s') = front @ l # rest \<and> vm_id l = vm_id v \<and> (start + len < vm_end v \<longrightarrow> rest \<noteq> [])"
proof -
  note ee = mm_env_okD [OF E]
  let ?e = "start + len"
  note p = do_munmap_part [OF mm E sp len less_imp_le [OF v(1)] v(2,3) ok]
  have ao: "areas_ok (pre @ v # post)" using mm_ok_areas [OF mm] sp by simp
  have at: "vma_at (st_mm s) (vm_id v) = v" by (rule mm_ok_position(1) [OF mm sp])
  have ve: "aligned (vm_end v)" "\<forall>u\<in>set pre. vm_end u \<le> start"
    using ao v(1) by (fastforce simp: areas_ok_append areas_ok_Cons area_ok_def)+
  have lt: "start < vm_end v" "vm_start v < ?e" using v by auto
  obtain r prev s1 where c1: "cut_start E start ?e (vm_id v) s = Some (r, prev, s1)" "mm_step E s s1" "mm_view (st_mm s1) = mm_view (st_mm s)"
    "r = 0 \<longrightarrow> (\<exists>front w rest. mmap (st_mm s1) = front @ w # rest \<and> prev = (if front = [] then None else Some (vm_id (last front))) \<and>
       (\<forall>u\<in>set front. vm_end u \<le> start) \<and> start \<le> vm_start w \<and> vm_start w < ?e)"
    using cut_start_result [OF mm E sp p(1) ve(2) lt v(2)] by blast
  have r0: "r = 0" using p(3) c1(1) by (auto split: if_splits)
  have pv: "prev = Some (vm_id v)" using c1(1) v(1) r0 by (auto simp: cut_start_def at Let_def split: if_splits bind_splits)
  obtain front w rest where w: "mmap (st_mm s1) = front @ w # rest" "prev = (if front = [] then None else Some (vm_id (last front)))"
     "\<forall>u\<in>set front. vm_end u \<le> start" "start \<le> vm_start w" "vm_start w < ?e" using c1(4) r0 by blast
  have mm1: "mm_ok (st_mm s1)" using c1(2) by (simp add: mm_step_def)
  have fw: "\<forall>u\<in>set front. vm_end u \<le> vm_start w" using w(3,4) by force
  have ae: "aligned ?e" by (rule aligned_add_wrap [OF p(1) len])
  obtain r2 s2 where c2: "cut_end E ?e s1 = Some (r2, s2)" "mm_step E s1 s2" "mm_view (st_mm s2) = mm_view (st_mm s1)"
    "r2 = 0 \<longrightarrow> (\<exists>front' g gs rest'. mmap (st_mm s2) = front' @ g # gs @ rest' \<and> anons front front' \<and> vm_start g = vm_start w \<and>
      (\<forall>v\<in>set (g # gs). vm_end v \<le> ?e) \<and> (\<forall>v\<in>set rest'. ?e \<le> vm_start v))"
    using cut_end_result [OF mm1 E w(1,5) fw ae] by blast
  have r20: "r2 = 0" using p(3) c1(1) c2(1) r0 by (auto split: if_splits)
  obtain front' g gs rest' where g: "mmap (st_mm s2) = front' @ g # gs @ rest'" "anons front front'" "vm_start g = vm_start w"
    "\<forall>v\<in>set (g # gs). vm_end v \<le> ?e" "\<forall>v\<in>set rest'. ?e \<le> vm_start v" using c2(4) r20 by blast
  have mm2: "mm_ok (st_mm s2)" using c2(2) by (simp add: mm_step_def)
  have ao2: "areas_ok (front' @ g # gs @ rest')" using mm_ok_areas [OF mm2] g(1) by simp
  have gs: "\<forall>v\<in>set gs. vm_start v < ?e"
  proof
    fix u assume "u \<in> set gs"
    then have "vm_start u < vm_end u" "vm_end u \<le> ?e" using ao2 g(4) by (auto simp: areas_ok_def area_ok_def)
    then show "vm_start u < ?e" by simp
  qed
  have pf: "prev = (if front' = [] then None else Some (vm_id (last front')))" using w(2) anons_Nil [OF g(2)] anons_last [OF g(2)] by simp
  have nl: "\<forall>v\<in>set rest'. \<not> vm_start v < ?e" using g(5) by (simp add: not_less)
  obtain s3 where s3: "munmap_tail E prev start ?e s2 = Some (0, s3)" "mmap (st_mm s3) = front' @ rest'"
    using munmap_tail_result [OF mm2 E g(1) pf gs nl] by blast
  have s3': "s3 = s'" using p(3) c1(1) c2(1) r0 r20 s3(1) by simp
  have ne: "front' \<noteq> []" "vm_id (last front') = vm_id v" using pf pv by (auto split: if_splits)
  have "rest' \<noteq> []" if "?e < vm_end v"
  proof
    assume nil: "rest' = []"
    have "view_of (pre @ v # post) ?e = Some (page_attr v ?e)" by (rule view_at [OF ao]) (use that lt in auto)
    then have "view_of (front' @ g # gs) ?e \<noteq> None" using c1(3) c2(3) g(1) nil sp by (simp add: mm_view_def)
    then obtain u where u: "u \<in> set (front' @ g # gs)" "vm_start u \<le> ?e" "?e < vm_end u" by (auto simp: view_of_None vma_covers_def)
    have "\<forall>u\<in>set front'. vm_end u \<le> start" using anons_bounds [OF g(2), of "\<lambda>a b. b \<le> start"] w(3) by blast
    then show False using u g(4) v(2) by fastforce
  qed
  then show ?thesis using s3(2) s3' ne by (intro exI [of _ "butlast front'"] exI [of _ "last front'"] exI [of _ rest']) simp
qed

text \<open>What is left above a range at the start of an area is still the same area.\<close>

lemma do_munmap_below:
  assumes mm: "mm_ok (st_mm s)" and E: "mm_env_ok E" and sp: "mmap (st_mm s) = pre @ v # post"
    and len: "aligned len" and v: "start = vm_start v" "start < start + len" "start + len < vm_end v"
    and ok: "do_munmap E start len s = Some (0, s')"
  shows "\<exists>front l rest. mmap (st_mm s') = front @ l # rest \<and> vm_id l = vm_id v"
proof -
  note ee = mm_env_okD [OF E]
  let ?e = "start + len"
  note p = do_munmap_part [OF mm E sp len eq_refl [OF v(1) [symmetric]] v(2) less_imp_le [OF v(3)] ok]
  have ao: "areas_ok (pre @ v # post)" using mm_ok_areas [OF mm] sp by simp
  note at = mm_ok_position [OF mm sp]
  have ae: "aligned ?e" by (rule aligned_add_wrap [OF p(1) len])
  have c1: "cut_start E start ?e (vm_id v) s = Some (0, vm_prev (st_mm s) (vm_id v), s)" using v(1) by (simp add: cut_start_def at Let_def)
  have sv: "vm_start v < ?e" using v by simp
  have c2: "cut_end E ?e s = raw_split_vma E (vm_id v) ?e True s"
    using find_vma_at [OF mm ee(4) sp less_imp_le [OF sv] v(3)] sv by (simp add: cut_end_def at)
  obtain r s2 where r: "raw_split_vma E (vm_id v) ?e True s = Some (r, s2)"
    "if r = 0 then \<exists>l h. halves v ?e l h \<and> vm_id (if True then h else l) = vm_id v \<and> areas_ok (pre @ l # h # post) \<and>
       now_maps E s s2 (pre @ l # h # post) else s2 = s"
    using raw_split_vma_result [OF mm E sp sv v(3) ae, of True] by blast
  have r0: "r = 0" using p(3) c1 c2 r(1) by (auto split: if_splits)
  obtain l h where lh: "halves v ?e l h" "vm_id h = vm_id v" "areas_ok (pre @ l # h # post)" "now_maps E s s2 (pre @ l # h # post)"
    using r(2) r0 by auto
  obtain pre' l' h' post' where m: "mmap (st_mm s2) = pre' @ l' # h' # post'" "anons pre pre'" "anon_only h h'" "anons post post'"
    using now_mapsD(1) [OF lh(4)] by (auto simp: list_all2_append1 list_all2_Cons1)
  have mm2: "mm_ok (st_mm s2)" by (rule now_mapsD(9) [OF lh(4,3)])
  have g: "mmap (st_mm s2) = pre' @ l' # [] @ h' # post'" using m(1) by simp
  have pv: "vm_prev (st_mm s) (vm_id v) = (if pre' = [] then None else Some (vm_id (last pre')))"
    using at(3) anons_Nil [OF m(2)] anons_last [OF m(2)] by simp
  have hs: "vm_start h' = ?e" using lh(1) by (simp add: anon_onlyD [OF m(3)] halves_def)
  have "areas_ok (pre' @ l' # h' # post')" using mm_ok_areas [OF mm2] m(1) by simp
  then have "\<forall>u\<in>set post'. vm_end h' \<le> vm_start u" "vm_start h' < vm_end h'" by (auto simp: areas_ok_append areas_ok_Cons area_ok_def)
  then have nl: "\<forall>u\<in>set (h' # post'). \<not> vm_start u < ?e" using hs by fastforce
  obtain s3 where s3: "munmap_tail E (vm_prev (st_mm s) (vm_id v)) start ?e s2 = Some (0, s3)" "mmap (st_mm s3) = pre' @ h' # post'"
    using munmap_tail_result [OF mm2 E g pv _ nl, of start] by auto
  have "s3 = s'" using p(3) c1 c2 r(1) r0 s3(1) by simp
  then show ?thesis using s3(2) anon_onlyD(1) [OF m(3)] lh(2) by auto
qed


section \<open>Errors of unmapping\<close>

text \<open>The errors of copying a policy or the chains of anonymous memory are negative numbers.\<close>

definition split_errno_ok :: "mm_env \<Rightarrow> bool" where
  "split_errno_ok E \<longleftrightarrow> (\<forall>v. fst (vma_dup_policy E v) = 0 \<or> is_errno (fst (vma_dup_policy E v))) \<and>
     (\<forall>d v. fst (anon_vma_clone E d v) = 0 \<or> is_errno (fst (anon_vma_clone E d v)))"

lemma split_errnoD: "split_errno_ok E \<Longrightarrow> vma_dup_policy E v = (e, p) \<Longrightarrow> e = 0 \<or> is_errno e" "split_errno_ok E \<Longrightarrow> anon_vma_clone E d v = (e', w) \<Longrightarrow> e' = 0 \<or> is_errno e'"
  unfolding split_errno_ok_def by (metis fst_conv)+

lemma raw_vma_adjust_errno: "split_errno_ok E \<Longrightarrow> raw_vma_adjust E p a b pg ins ex s = Some (err, s') \<Longrightarrow> err = 0 \<or> is_errno err"
  by (auto simp: raw_vma_adjust_def Let_def vma_adjust_import_def dest: split_errnoD split: option.splits if_splits bind_splits prod.splits)

lemma raw_split_vma_errno: "split_errno_ok E \<Longrightarrow> raw_split_vma E p a b s = Some (err, s') \<Longrightarrow> err = 0 \<or> is_errno err"
  by (auto simp: raw_split_vma_def Let_def vma_adjust_def dest: split_errnoD raw_vma_adjust_errno split: option.splits if_splits bind_splits prod.splits)

lemma do_munmap_errno: "split_errno_ok E \<Longrightarrow> do_munmap E start len s = Some (err, s') \<Longrightarrow> err = 0 \<or> is_errno err"
  by (auto simp: do_munmap_cuts cut_start_def cut_end_def munmap_tail_def Let_def dest: raw_split_vma_errno split: option.splits if_splits bind_splits prod.splits)

section \<open>The mapping up to the accounting of its pages\<close>

definition plain :: "page_attr \<Rightarrow> page_attr" where
  "plain x = (case x of (fl, f, pg) \<Rightarrow> (fl AND NOT VM_ACCOUNT, f, pg))"

definition plain_view :: "mm_struct \<Rightarrow> 64 word \<Rightarrow> page_attr option" where
  "plain_view mm a = map_option plain (mm_view mm a)"

lemma plain_view_cong: "mm_view mm' = mm_view mm \<Longrightarrow> plain_view mm' = plain_view mm"
  by (simp add: plain_view_def fun_eq_iff)

lemma account_step:
  assumes mm: "mm_ok (st_mm s)" and sp: "mmap (st_mm s) = pre @ v # post" and fl: "\<And>u. g u AND NOT VM_ACCOUNT = u AND NOT VM_ACCOUNT"
    and s': "s' = s\<lparr>st_mm := upd_vma (vm_id v) (\<lambda>v. v\<lparr>vm_flags := g (vm_flags v)\<rparr>) (st_mm s)\<rparr>"
  shows "mmap (st_mm s') = pre @ v\<lparr>vm_flags := g (vm_flags v)\<rparr> # post" "mm_step E s s'" "plain_view (st_mm s') = plain_view (st_mm s)"
proof -
  let ?v = "v\<lparr>vm_flags := g (vm_flags v)\<rparr>"
  have pos: "vma_position (st_mm s) pre v post" by (rule vma_positionI [OF mm_ok_areas [OF mm] sp])
  show m': "mmap (st_mm s') = pre @ ?v # post" using vma_position_upd [OF pos] by (simp add: s')
  have ok: "mm_ok (st_mm s')" by (rule mm_ok_retag [OF mm sp m']) (simp_all add: s')
  have bits: "g u AND m = u AND m" if "m AND VM_ACCOUNT = 0" for u m
  proof -
    have m: "m = NOT VM_ACCOUNT AND m" using that by (auto simp: bit_eq_iff bit_simps)
    have "g u AND m = (g u AND NOT VM_ACCOUNT) AND m" by (subst m) (simp only: and.assoc)
    also have "\<dots> = (u AND NOT VM_ACCOUNT) AND m" by (simp only: fl)
    also have "\<dots> = u AND m" by (subst (2) m) (simp only: and.assoc)
    finally show ?thesis .
  qed
  have "bal E s' = bal E s"
    by (rule bal_retag [OF _ _ sp m']) (simp_all add: s' bits)
  moreover have "vma_pages ?v = vma_pages v" by (simp add: vma_pages_def)
  ultimately show "mm_step E s s'" using ok unfolding mm_step_def m' sp by (simp add: s')
  have pl: "plain (page_attr ?v a) = plain (page_attr v a)" for a
  proof -
    have "(g (vm_flags v) AND NOT VM_SOFTDIRTY) AND NOT VM_ACCOUNT = (g (vm_flags v) AND NOT VM_ACCOUNT) AND NOT VM_SOFTDIRTY" by (simp only: ac_simps)
    also have "\<dots> = (vm_flags v AND NOT VM_SOFTDIRTY) AND NOT VM_ACCOUNT" unfolding fl by (simp only: ac_simps)
    finally show ?thesis by (simp add: plain_def page_attr_def)
  qed
  have "vma_covers ?v = vma_covers v" by (simp add: fun_eq_iff vma_covers_def)
  then show "plain_view (st_mm s') = plain_view (st_mm s)"
    unfolding plain_view_def mm_view_def m' sp fun_eq_iff by (simp add: view_of_append pl split: option.split)
qed

lemma set_account_result:
  assumes mm: "mm_ok (st_mm s)" and sp: "mmap (st_mm s) = pre @ v # post"
  shows "\<exists>s'. set_account (Some (vm_id v)) s = Some s' \<and> mm_step E s s' \<and> plain_view (st_mm s') = plain_view (st_mm s) \<and>
    (\<exists>w. mmap (st_mm s') = pre @ w # post \<and> vm_id w = vm_id v)"
proof -
  let ?s = "s\<lparr>st_mm := upd_vma (vm_id v) (\<lambda>v. v\<lparr>vm_flags := vm_flags v OR VM_ACCOUNT\<rparr>) (st_mm s)\<rparr>"
  have "(u OR VM_ACCOUNT) AND NOT VM_ACCOUNT = u AND NOT VM_ACCOUNT" for u :: "64 word" by (auto simp: bit_eq_iff bit_simps)
  note a = account_step [OF mm sp this refl]
  have "set_account (Some (vm_id v)) s = Some ?s" using mm_ok_position(4) [OF mm sp] by (simp add: set_account_def)
  then show ?thesis using a by (intro exI [of _ ?s]) simp
qed


section \<open>Unmapping what has been moved\<close>

text \<open>As \<open>mm_step\<close>, with \<open>k\<close> pages more in \<open>total_vm\<close> than in the areas.\<close>

definition mm_step_by :: "mm_env \<Rightarrow> 64 word \<Rightarrow> mmst \<Rightarrow> mmst \<Rightarrow> bool" where
  "mm_step_by E k s s' \<longleftrightarrow> mm_ok (st_mm s') \<and> bal E s' = bal E s \<and> st_cur s' = st_cur s \<and> mm_fixed (st_mm s') = mm_fixed (st_mm s) \<and>
     total_vm (st_mm s') - pages_of (mmap (st_mm s')) = total_vm (st_mm s) - pages_of (mmap (st_mm s)) + k"

lemma mm_step_by_trans: "mm_step E s s1 \<Longrightarrow> mm_step_by E k s1 s2 \<Longrightarrow> mm_step_by E k s s2" "mm_step_by E k s s1 \<Longrightarrow> mm_step E s1 s2 \<Longrightarrow> mm_step_by E k s s2"
  by (auto simp: mm_step_def mm_step_by_def)

lemma mm_step_by_add: "mm_step_by E k s s1 \<Longrightarrow> mm_step_by E l s1 s2 \<Longrightarrow> mm_step_by E (k + l) s s2"
  by (auto simp: mm_step_by_def)

text \<open>
  As \<open>mm_step\<close> for a growth to \<open>n\<close> bytes: \<open>mremap_task\<close> counts the pages of a growth in place in an
  \<open>int\<close>, so that \<open>total_vm\<close> may be off from 8 TiB on.
\<close>

definition grow_step :: "mm_env \<Rightarrow> 64 word \<Rightarrow> mmst \<Rightarrow> mmst \<Rightarrow> bool" where
  "grow_step E n s s' \<longleftrightarrow> (\<exists>d. mm_step_by E d s s' \<and> (n < 0x80000000000 \<longrightarrow> d = 0))"

lemma grow_step_mm: "mm_step E s s' \<Longrightarrow> grow_step E n s s'"
  unfolding grow_step_def by (intro exI [of _ 0]) (simp add: mm_step_def mm_step_by_def)

lemma grow_step_trans: "mm_step E s s1 \<Longrightarrow> grow_step E n s1 s2 \<Longrightarrow> grow_step E n s s2"
  unfolding grow_step_def using mm_step_by_trans(1) by blast

lemma grow_stepD:
  assumes "grow_step E n s s'"
  shows "mm_ok (st_mm s')" "bal E s' = bal E s" "st_cur s' = st_cur s" "mm_fixed (st_mm s') = mm_fixed (st_mm s)"
    "n < 0x80000000000 \<Longrightarrow> mm_step E s s'"
  using assms by (auto simp: grow_step_def mm_step_def mm_step_by_def)

lemma mm_step_by_account:
  assumes "mm_ok (st_mm s)"
  shows "mm_step_by E k s (s\<lparr>st_mm := vm_stat_account fl k (st_mm s)\<rparr>)" "mm_view (vm_stat_account fl k mm) = mm_view mm"
proof -
  have "bal E (s\<lparr>st_mm := vm_stat_account fl k (st_mm s)\<rparr>) = bal E s" by (rule bal_same) simp_all
  then show "mm_step_by E k s (s\<lparr>st_mm := vm_stat_account fl k (st_mm s)\<rparr>)"
    using assms by (simp add: mm_step_by_def mm_ok_def tree_ok_def algebra_simps)
qed (simp add: mm_view_def)

lemma mm_step_locked:
  assumes "mm_ok (st_mm s)"
  shows "mm_step E s (s\<lparr>st_mm := (st_mm s)\<lparr>locked_vm := n\<rparr>\<rparr>)" "mm_view (mm\<lparr>locked_vm := n\<rparr>) = mm_view mm"
proof -
  have "bal E (s\<lparr>st_mm := (st_mm s)\<lparr>locked_vm := n\<rparr>\<rparr>) = bal E s" by (rule bal_same) simp_all
  then show "mm_step E s (s\<lparr>st_mm := (st_mm s)\<lparr>locked_vm := n\<rparr>\<rparr>)" using assms by (simp add: mm_step_def mm_ok_def tree_ok_def)
qed (simp add: mm_view_def)

text \<open>The accounting is restored on the pieces that are left.\<close>

lemma restore_account:
  assumes mm: "mm_ok (st_mm s)" and E: "mm_env_ok E" and sp: "mmap (st_mm s) = pre @ u # post"
    and a: "aligned old" "aligned len" "vm_start u \<le> old" "old \<le> old + len" "old + len \<le> vm_end u" "vm_end u - vm_start u - len \<noteq> 0"
    and ok: "do_munmap E old len s = Some (0, s')"
  shows "\<exists>s''. do { s \<leftarrow> set_account (Some (vm_id u)) s';
                   if old > vm_start u \<and> old + len < vm_end u then set_account (vm_next (st_mm s) (vm_id u)) s else Some s } = Some s'' \<and>
    mm_step E s' s'' \<and> plain_view (st_mm s'') = plain_view (st_mm s')"
proof -
  have "len \<noteq> 0" using ok by (auto simp: do_munmap_cuts PAGE_ALIGN_def split: if_splits)
  then have lt: "old < old + len" using a(4) by (simp add: order_less_le)
  have mm': "mm_ok (st_mm s')" using do_munmap_result [OF mm E, of old len] ok by (auto simp: mm_step_def)
  show ?thesis
  proof (cases "vm_start u < old")
    case True
    obtain front l rest where l: "mmap (st_mm s') = front @ l # rest" "vm_id l = vm_id u" "old + len < vm_end u \<longrightarrow> rest \<noteq> []"
      using do_munmap_above [OF mm E sp a(2) True lt a(5) ok] by blast
    obtain s1 w where s1: "set_account (Some (vm_id u)) s' = Some s1" "mm_step E s' s1" "plain_view (st_mm s1) = plain_view (st_mm s')"
      "mmap (st_mm s1) = front @ w # rest" "vm_id w = vm_id u"
      using set_account_result [OF mm' l(1), of E] unfolding l(2) by blast
    show ?thesis
    proof (cases "old + len < vm_end u")
      case False
      then show ?thesis using s1 by simp
    next
      case e: True
      then obtain n rest' where r: "rest = n # rest'" using l(3) by (cases rest) auto
      have mm1: "mm_ok (st_mm s1)" using s1(2) by (simp add: mm_step_def)
      have nx: "vm_next (st_mm s1) (vm_id u) = Some (vm_id n)" using mm_ok_position(2) [OF mm1 s1(4)] r s1(5) by simp
      have sp2: "mmap (st_mm s1) = (front @ [w]) @ n # rest'" using s1(4) r by simp
      obtain s2 where "set_account (Some (vm_id n)) s1 = Some s2" "mm_step E s1 s2" "plain_view (st_mm s2) = plain_view (st_mm s1)"
        using set_account_result [OF mm1 sp2, of E] by blast
      then show ?thesis using s1 nx e True mm_step_trans [OF s1(2)] by simp
    qed
  next
    case False
    then have eq: "old = vm_start u" using a(3) by simp
    have "old + len \<noteq> vm_end u" using a(6) eq by (metis add_diff_cancel_left' diff_self)
    then have lt2: "old + len < vm_end u" using a(5) by simp
    obtain front l rest where l: "mmap (st_mm s') = front @ l # rest" "vm_id l = vm_id u"
      using do_munmap_below [OF mm E sp a(2) eq lt lt2 ok] by blast
    show ?thesis using set_account_result [OF mm' l(1), of E] False unfolding l(2) by auto
  qed
qed

lemma move_vma_unmap_result:
  assumes mm: "mm_ok (st_mm s)" and E: "mm_env_ok E" "split_errno_ok E" and sp: "mmap (st_mm s) = pre @ u # post"
    and a: "aligned old" "aligned len" "vm_start u \<le> old" "old \<le> old + len" "old + len \<le> vm_end u"
  shows "\<exists>b s' gone. move_vma_unmap E flags (vm_id u) old len new_len ret s = Some (ret, b, s') \<and> mm_step_by E (drop_bit 12 new_len) s s' \<and>
    plain_view (st_mm s') = (if gone then clear_view (plain_view (st_mm s)) old (old + len) else plain_view (st_mm s))"
proof -
  let ?acc = "flags AND VM_ACCOUNT \<noteq> 0"
  define s1 where "s1 = (if ?acc then s\<lparr>st_mm := upd_vma (vm_id u) (\<lambda>v. v\<lparr>vm_flags := vm_flags v AND NOT VM_ACCOUNT\<rparr>) (st_mm s)\<rparr> else s)"
  define u1 where "u1 = (if ?acc then u\<lparr>vm_flags := vm_flags u AND NOT VM_ACCOUNT\<rparr> else u)"
  have "(x AND NOT VM_ACCOUNT) AND NOT VM_ACCOUNT = x AND NOT VM_ACCOUNT" for x :: "64 word" by (simp only: and.assoc and.idem)
  note st = account_step [OF mm sp this refl]
  have s1: "mmap (st_mm s1) = pre @ u1 # post" "mm_step E s s1" "plain_view (st_mm s1) = plain_view (st_mm s)"
    using st sp mm_step_refl [OF mm] by (auto simp: s1_def u1_def)
  have u1: "vm_id u1 = vm_id u" "vm_start u1 = vm_start u" "vm_end u1 = vm_end u" by (simp_all add: u1_def)
  have mm1: "mm_ok (st_mm s1)" using s1(2) by (simp add: mm_step_def)
  define s2 where "s2 = s1\<lparr>st_mm := vm_stat_account (vm_flags u1) (drop_bit 12 new_len) (st_mm s1)\<rparr>"
  have s2: "mm_step_by E (drop_bit 12 new_len) s s2" "plain_view (st_mm s2) = plain_view (st_mm s)" "mmap (st_mm s2) = pre @ u1 # post"
    using mm_step_by_trans(1) [OF s1(2) mm_step_by_account(1) [OF mm1]] plain_view_cong [OF mm_step_by_account(2) [OF mm1]] s1(1,3)
    by (simp_all add: s2_def)
  have mm2: "mm_ok (st_mm s2)" using s2(1) by (simp add: mm_step_by_def)
  obtain r s3 where r: "do_munmap E old len s2 = Some (r, s3)" "mm_step E s2 s3"
    "mm_view (st_mm s3) = (\<lambda>a. if r = 0 \<and> old \<le> a \<and> a < old + PAGE_ALIGN len then None else mm_view (st_mm s2) a)"
    using do_munmap_result [OF mm2 E(1), of old len] by blast
  have rle: "r \<le> 0" using do_munmap_errno [OF E(2) r(1)] by auto
  have pa: "PAGE_ALIGN len = len" if "r = 0"
  proof (cases "len = 0")
    case False
    then have "old < old + len" using a(4) by (simp add: order_less_le)
    then show ?thesis using do_munmap_part(2) [OF mm2 E(1) s2(3) a(2), unfolded u1, OF a(3) _ a(5)] r(1) that by simp
  qed (use that r(1) in \<open>auto simp: do_munmap_cuts PAGE_ALIGN_def split: if_splits\<close>)
  have view: "plain_view (st_mm s3) = (if r = 0 then clear_view (plain_view (st_mm s)) old (old + len) else plain_view (st_mm s))"
    using pa s2(2) by (auto simp: plain_view_def r(3) clear_view_def fun_eq_iff)
  have at: "vma_at (st_mm s) (vm_id u) = u" "vma_at (st_mm s1) (vm_id u) = u1"
    using mm_ok_position(1) [OF mm sp] mm_ok_position(1) [OF mm1 s1(1)] u1(1) by simp_all
  define ex where "ex = (if ?acc then vm_end u - vm_start u - len else 0)"
  define sp' where "sp' \<longleftrightarrow> ?acc \<and> old > vm_start u \<and> old + len < vm_end u"
  let ?fix = "\<lambda>s. do { s \<leftarrow> set_account (Some (vm_id u)) s; if sp' then set_account (vm_next (st_mm s) (vm_id u)) s else Some s }"
  let ?lock = "\<lambda>s. if flags AND VM_LOCKED \<noteq> 0 then s\<lparr>st_mm := (st_mm s)\<lparr>locked_vm := locked_vm (st_mm s) + drop_bit 12 new_len\<rparr>\<rparr> else s"
  have run: "move_vma_unmap E flags (vm_id u) old len new_len ret s =
      do { s \<leftarrow> (if r < 0 then Some (vm_unacct_memory (drop_bit 12 ex) s3) else if ex \<noteq> 0 then ?fix s3 else Some s3);
           Some (ret, flags AND VM_LOCKED \<noteq> 0, ?lock s) }"
  proof -
    have s2': "s2 = s\<lparr>st_mm := vm_stat_account (vm_flags u1) (drop_bit 12 new_len) (st_mm s1)\<rparr>" by (simp add: s2_def s1_def)
    have m1: "st_mm s1 = (if ?acc then upd_vma (vm_id u) (\<lambda>v. v\<lparr>vm_flags := vm_flags v AND NOT VM_ACCOUNT\<rparr>) (st_mm s) else st_mm s)" by (simp add: s1_def)
    show ?thesis
      unfolding move_vma_unmap_def Let_def at(1) m1 [symmetric] at(2) s2' [symmetric] r(1) ex_def [symmetric] sp'_def [symmetric] bind.bind_lunit prod.case
      by (cases "r < 0") (simp_all add: Let_def)
  qed
  have fin: "\<exists>s4. (if r < 0 then Some (vm_unacct_memory (drop_bit 12 ex) s3) else if ex \<noteq> 0 then ?fix s3 else Some s3) = Some s4 \<and>
      mm_step E s3 s4 \<and> plain_view (st_mm s4) = plain_view (st_mm s3)"
  proof -
    have mm3: "mm_ok (st_mm s3)" using r(2) by (simp add: mm_step_def)
    consider "r < 0" | "r = 0" "ex = 0" | "r = 0" "ex \<noteq> 0" using rle by linarith
    then show ?thesis
    proof cases
      case 1
      then show ?thesis using mm_step_unacct [OF mm_step_refl [OF mm3]] by simp
    next
      case 2
      then show ?thesis using mm_step_refl [OF mm3] by simp
    next
      case 3
      then have acc: "sp' \<longleftrightarrow> old > vm_start u \<and> old + len < vm_end u" "vm_end u1 - vm_start u1 - len \<noteq> 0" by (auto simp: ex_def sp'_def u1 split: if_splits)
      show ?thesis using restore_account [OF mm2 E(1) s2(3) a(1,2) _ a(4) _ acc(2), unfolded u1, OF a(3,5)] r(1) 3 acc(1) by simp
    qed
  qed
  then obtain s4 where s4: "(if r < 0 then Some (vm_unacct_memory (drop_bit 12 ex) s3) else if ex \<noteq> 0 then ?fix s3 else Some s3) = Some s4"
    "mm_step E s3 s4" "plain_view (st_mm s4) = plain_view (st_mm s3)" by blast
  have mm4: "mm_ok (st_mm s4)" using s4(2) by (simp add: mm_step_def)
  have l: "mm_step E s4 (?lock s4)" "plain_view (st_mm (?lock s4)) = plain_view (st_mm s4)"
    using mm_step_locked(1) [OF mm4] plain_view_cong [OF mm_step_locked(2) [OF mm4]] mm_step_refl [OF mm4] by auto
  have "move_vma_unmap E flags (vm_id u) old len new_len ret s = Some (ret, flags AND VM_LOCKED \<noteq> 0, ?lock s4)" unfolding run s4(1) by simp
  moreover have "mm_step_by E (drop_bit 12 new_len) s (?lock s4)"
    by (rule mm_step_by_trans(2) [OF mm_step_by_trans(2) [OF mm_step_by_trans(2) [OF s2(1) r(2)] s4(2)] l(1)])
  moreover have "plain_view (st_mm (?lock s4)) = (if r = 0 then clear_view (plain_view (st_mm s)) old (old + len) else plain_view (st_mm s))"
    unfolding l(2) s4(3) by (rule view)
  ultimately show ?thesis by blast
qed


section \<open>Moving\<close>

lemma no_wrap: "a \<le> a + b \<Longrightarrow> unat a + unat b < 2 ^ 64" for a b :: "64 word"
  using no_olen_add_nat [of a b] by simp

lemma mm_step_pgd:
  assumes "mm_ok (st_mm s)"
  shows "mm_step E s (set_pgd t s)" "plain_view (st_mm (set_pgd t s)) = plain_view (st_mm s)"
proof -
  have "bal E (set_pgd t s) = bal E s" by (rule bal_same) simp_all
  then show "mm_step E s (set_pgd t s)" using assms by (simp add: mm_step_def mm_ok_def tree_ok_def)
  show "plain_view (st_mm (set_pgd t s)) = plain_view (st_mm s)" by (rule plain_view_cong) (simp add: mm_view_def)
qed

lemma copied_step:
  assumes mm: "mm_ok (st_mm s)" and E: "mm_env_ok E" and r: "region_ok E addr len" and c: "copied E v addr len pg s q p s'"
  shows "mm_step_by E (- drop_bit 12 len) s s'"
proof -
  note rd = region_okD [OF E r]
  have ok': "mm_ok (st_mm s')" and vw: "mm_view (st_mm s') = set_view (mm_view (st_mm s)) addr (addr + len) (range_attr addr (vm_flags v) (vm_file v) pg)"
    and free: "clear_view (mm_view (st_mm s)) addr (addr + len) = mm_view (st_mm s)" using c by (simp_all add: copied_def)
  have "mm_view (st_mm s) x = None" if "addr \<le> x" "x < addr + len" for x using fun_cong [OF free, of x] that by (simp add: clear_view_def)
  then have "view_pages (mm_view (st_mm s')) = view_pages (mm_view (st_mm s)) + drop_bit 12 (addr + len - addr)"
    unfolding vw set_view_def by (intro view_pages_add) (use rd in auto)
  moreover have "pages_of (mmap mm) = view_pages (mm_view mm)" if "mm_ok mm" for mm
    unfolding mm_view_def by (rule pages_of_view [OF mm_ok_areas [OF that]])
  ultimately have "pages_of (mmap (st_mm s')) = pages_of (mmap (st_mm s)) + drop_bit 12 len" using mm ok' rd(9) by simp
  then show ?thesis using c by (simp add: copied_def mm_step_by_def)
qed

lemma mm_step_by_back: "mm_step_by E (- k) s s1 \<Longrightarrow> mm_step_by E k s1 s2 \<Longrightarrow> mm_step E s s2"
  by (simp add: mm_step_by_def mm_step_def)

lemma plain_set_view: "mm_view mm' = set_view (mm_view mm) lo hi g \<Longrightarrow> plain_view mm' = set_view (plain_view mm) lo hi (\<lambda>x. plain (g x))"
  by (auto simp: plain_view_def set_view_def fun_eq_iff)

text \<open>
  The new range shows the pages of the area, from the old address on.  The old range is gone unless
  memory was too short to split the old area.  After an error nothing has changed, except that the new
  range may still be there for the same reason.
\<close>

definition new_attr :: "vm_area_struct \<Rightarrow> 64 word \<Rightarrow> 64 word \<Rightarrow> 64 word \<Rightarrow> page_attr" where
  "new_attr v old_addr new_addr a =
     plain (range_attr new_addr (vm_flags v) (vm_file v)
       (if vma_is_anonymous v \<and> anon_vma v = None then drop_bit 12 new_addr else vm_pgoff v + drop_bit 12 (old_addr - vm_start v)) a)"

definition move_outcome ::
    "mm_env \<Rightarrow> vm_area_struct \<Rightarrow> 64 word \<Rightarrow> 64 word \<Rightarrow> 64 word \<Rightarrow> 64 word \<Rightarrow> mmst \<Rightarrow> 64 word \<Rightarrow> mmst \<Rightarrow> bool" where
  "move_outcome E v old_addr old_len new_len new_addr s r s' \<longleftrightarrow> mm_step E s s' \<and>
     (let V = plain_view (st_mm s); W = set_view V new_addr (new_addr + new_len) (new_attr v old_addr new_addr)
      in if IS_ERR_VALUE r then plain_view (st_mm s') = V \<or> plain_view (st_mm s') = W
         else r = new_addr \<and> (plain_view (st_mm s') = clear_view W old_addr (old_addr + old_len) \<or> plain_view (st_mm s') = W))"

definition remap_errno_ok :: "mm_env \<Rightarrow> bool" where
  "remap_errno_ok E \<longleftrightarrow> split_errno_ok E \<and> (\<forall>v a e f t. fst (ksm_madvise E v a e f t) \<noteq> 0 \<longrightarrow> is_errno (fst (ksm_madvise E v a e f t))) \<and>
     (\<forall>v. vm_ops_mremap E v \<noteq> 0 \<longrightarrow> is_errno (vm_ops_mremap E v))"

lemma move_error:
  assumes "mm_step E s s'" "plain_view (st_mm s') = plain_view (st_mm s)" "is_errno e"
  shows "move_outcome E v a b c d s (ulong e) s'"
  using assms ulong_err(1) [of e] by (simp add: move_outcome_def Let_def)

lemma move_vma_result:
  assumes mm: "mm_ok (st_mm s)" and E: "mm_env_ok E" "remap_errno_ok E" and reg: "region_ok E new_addr new_len" and sp: "mmap (st_mm s) = pre @ v # post"
    and a: "aligned old_addr" "aligned old_len" "vm_start v \<le> old_addr" "old_addr \<le> old_addr + old_len" "old_addr + old_len \<le> vm_end v"
      "old_len \<le> new_len"
  shows "\<exists>r b s'. move_vma E (vm_id v) old_addr old_len new_len new_addr s = Some (r, b, s') \<and>
    move_outcome E v old_addr old_len new_len new_addr s r s'"
proof -
  let ?mv = "move_vma E (vm_id v) old_addr old_len new_len new_addr s"
  have er: "split_errno_ok E" using E(2) by (simp add: remap_errno_ok_def)
  note rd = region_okD [OF E(1) reg]
  have at: "vma_at (st_mm s) (vm_id v) = v" by (rule mm_ok_position(1) [OF mm sp])
  obtain err flags t where k: "ksm_madvise E v old_addr (old_addr + old_len) (vm_flags v) (pgd (st_mm s)) = (err, flags, t)" by (metis prod_cases3)
  have kerr: "err \<noteq> 0 \<Longrightarrow> is_errno err" using E(2) k unfolding remap_errno_ok_def by (metis fst_conv)
  define s0 where "s0 = set_pgd t s"
  have s0: "mm_step E s s0" "plain_view (st_mm s0) = plain_view (st_mm s)" "mmap (st_mm s0) = pre @ v # post"
    using mm_step_pgd [OF mm] sp by (simp_all add: s0_def)
  have mm0: "mm_ok (st_mm s0)" using s0(1) by (simp add: mm_step_def)
  let ?from = "vm_pgoff v + drop_bit 12 (old_addr - vm_start v)"
  let ?pg = "if vma_is_anonymous v \<and> anon_vma v = None then drop_bit 12 new_addr else ?from"
  show ?thesis
  proof (cases "map_count (st_mm s) \<ge> sysctl_max_map_count E - 3 \<or> err \<noteq> 0")
    case True
    then have "?mv = Some (ulong (- ENOMEM), False, s) \<or> err \<noteq> 0 \<and> ?mv = Some (ulong err, False, s0)"
      using k by (auto simp: move_vma_def at s0_def)
    then show ?thesis using move_error [OF mm_step_refl [OF mm] refl, of "- ENOMEM"] move_error [OF s0(1,2)] kerr by auto
  next
    case False
    then have err0: "err = 0" and cnt: "\<not> map_count (st_mm s) \<ge> sysctl_max_map_count E - 3" by simp_all
    obtain new p s1 where c: "copy_vma E (vm_id v) new_addr new_len ?from s0 = Some (new, p, s1)"
      "case new of None \<Rightarrow> mm_step E s0 s1 \<and> mm_view (st_mm s1) = mm_view (st_mm s0) | Some q \<Rightarrow> copied E v new_addr new_len ?pg s0 q p s1"
      using copy_vma_result [OF mm0 E(1) reg s0(3), of ?from] by blast
    show ?thesis
    proof (cases new)
      case None
      then have "?mv = Some (ulong (- ENOMEM), False, s1)" using c(1) cnt err0 k by (simp add: move_vma_def at s0_def)
      then show ?thesis
        using move_error [of E s s1 "- ENOMEM"] c(2) None mm_step_trans [OF s0(1)] plain_view_cong [of "st_mm s1" "st_mm s0"] s0(2) by auto
    next
      case (Some q)
      then have cp: "copied E v new_addr new_len ?pg s0 q p s1" using c(2) by simp
      note st1 = copied_step [OF mm0 E(1) reg cp]
      have mm1: "mm_ok (st_mm s1)" using st1 by (simp add: mm_step_by_def)
      let ?W = "set_view (plain_view (st_mm s)) new_addr (new_addr + new_len) (new_attr v old_addr new_addr)"
      have W: "plain_view (st_mm s1) = ?W"
        using cp plain_set_view [of "st_mm s1" "st_mm s0"] s0(2) unfolding copied_def new_attr_def by simp
      obtain d t1 where m1: "move_page_tables (pgt E) old_addr (vma_at (st_mm s1) q) new_addr old_len (pgd (st_mm s1)) = Some (d, t1)" "d \<le> old_len" "aligned d"
        using move_page_tables_returns [OF a(1) rd(1) a(2) no_wrap [OF a(4)]] by blast
      define s2 where "s2 = set_pgd t1 s1"
      define e where "e = (if d < old_len then - ENOMEM else if vm_ops (vma_at (st_mm s2) p) \<noteq> None then vm_ops_mremap E (vma_at (st_mm s2) q) else 0)"
      have eerr: "e \<noteq> 0 \<Longrightarrow> is_errno e" using E(2) by (auto simp: e_def remap_errno_ok_def split: if_splits)
      have s2: "mm_step E s1 s2" "plain_view (st_mm s2) = ?W" "mmap (st_mm s2) = mmap (st_mm s1)"
        using mm_step_pgd [OF mm1] W by (simp_all add: s2_def)
      have mm2: "mm_ok (st_mm s2)" using s2(1) by (simp add: mm_step_def)
      have run: "?mv = (if e \<noteq> 0 then do {
            (_, t) \<leftarrow> move_page_tables (pgt E) new_addr (vma_at (st_mm s2) p) old_addr d (pgd (st_mm s2));
            move_vma_unmap E flags q new_addr new_len new_len (ulong e) (set_pgd t s2) }
          else move_vma_unmap E flags p old_addr old_len new_len new_addr s2)"
        using cnt k err0 c(1) Some m1(1) unfolding move_vma_def at Let_def by (simp add: s0_def [symmetric] s2_def [symmetric] e_def)
      show ?thesis
      proof (cases "e = 0")
        case True
        obtain u where u: "u \<in> set (mmap (st_mm s2))" "vm_id u = p" "vm_start u \<le> vm_start v" "vm_end v \<le> vm_end u"
          using cp unfolding copied_def area_in_def s2(3) by blast
        obtain l r where sp2: "mmap (st_mm s2) = l @ u # r" using u(1) by (meson split_list)
        obtain b s3 g where m: "move_vma_unmap E flags (vm_id u) old_addr old_len new_len new_addr s2 = Some (new_addr, b, s3)"
          "mm_step_by E (drop_bit 12 new_len) s2 s3"
          "plain_view (st_mm s3) = (if g then clear_view (plain_view (st_mm s2)) old_addr (old_addr + old_len) else plain_view (st_mm s2))"
          using move_vma_unmap_result [OF mm2 E(1) er sp2 a(1,2) order.trans [OF u(3) a(3)] a(4) order.trans [OF a(5) u(4)]] by blast
        have "mm_step E s s3" by (rule mm_step_trans [OF s0(1) mm_step_by_back [OF st1 mm_step_by_trans(1) [OF s2(1) m(2)]]])
        then have "move_outcome E v old_addr old_len new_len new_addr s new_addr s3"
          using m(3) s2(2) rd(8) by (simp add: move_outcome_def Let_def)
        then show ?thesis using run True m(1) u(2) by auto
      next
        case False
        have "unat new_addr + unat d < 2 ^ 64"
          using no_wrap [OF less_imp_le [OF rd(5)]] order.trans [OF m1(2) a(6)] by (simp add: word_le_nat_alt)
        from move_page_tables_returns [OF rd(1) a(1) m1(3) this]
        obtain d2 t2 where m2: "move_page_tables (pgt E) new_addr (vma_at (st_mm s2) p) old_addr d (pgd (st_mm s2)) = Some (d2, t2)" by blast
        let ?s3 = "set_pgd t2 s2"
        have s3: "mm_step E s2 ?s3" "plain_view (st_mm ?s3) = ?W" "mmap (st_mm ?s3) = mmap (st_mm s1)"
          using mm_step_pgd [OF mm2] s2 by simp_all
        have mm3: "mm_ok (st_mm ?s3)" using s3(1) by (simp add: mm_step_def)
        obtain u where u: "u \<in> set (mmap (st_mm ?s3))" "vm_id u = q" "vm_start u \<le> new_addr" "new_addr + new_len \<le> vm_end u"
          using cp unfolding copied_def area_in_def s3(3) by blast
        obtain l r where sp3: "mmap (st_mm ?s3) = l @ u # r" using u(1) by (meson split_list)
        obtain b s4 g where m: "move_vma_unmap E flags (vm_id u) new_addr new_len new_len (ulong e) ?s3 = Some (ulong e, b, s4)"
          "mm_step_by E (drop_bit 12 new_len) ?s3 s4"
          "plain_view (st_mm s4) = (if g then clear_view (plain_view (st_mm ?s3)) new_addr (new_addr + new_len) else plain_view (st_mm ?s3))"
          using move_vma_unmap_result [OF mm3 E(1) er sp3 rd(1,2) u(3) less_imp_le [OF rd(5)] u(4)] by blast
        have st: "mm_step E s s4"
          by (rule mm_step_trans [OF s0(1) mm_step_by_back [OF st1 mm_step_by_trans(1) [OF mm_step_trans [OF s2(1) s3(1)] m(2)]]])
        have "clear_view ?W new_addr (new_addr + new_len) = plain_view (st_mm s)"
        proof -
          have "clear_view (mm_view (st_mm s0)) new_addr (new_addr + new_len) = mm_view (st_mm s0)" using cp by (simp add: copied_def)
          then have "plain_view (st_mm s0) x = None" if "new_addr \<le> x" "x < new_addr + new_len" for x
            using that fun_cong [of _ _ x] by (fastforce simp: clear_view_def plain_view_def)
          then show ?thesis using s0(2) by (auto simp: clear_view_def set_view_def fun_eq_iff)
        qed
        then have "move_outcome E v old_addr old_len new_len new_addr s (ulong e) s4"
          using m(3) s3(2) st ulong_err(1) [of e] eerr [OF False] by (simp add: move_outcome_def Let_def)
        then show ?thesis using run False m2 m(1) u(2) by auto
      qed
    qed
  qed
qed


section \<open>Resizing\<close>

lemma vma_to_resize_task_result:
  assumes mm: "mm_ok (st_mm s)" and E: "mm_env_ok E" "enough_memory_ok E"
  shows "\<exists>res charged s'. vma_to_resize_task E addr old_len new_len s = (res, charged, s') \<and> mm_step E s s' \<and> st_mm s' = st_mm s \<and>
    (case res of Inl e \<Rightarrow> is_errno e
     | Inr p \<Rightarrow> \<exists>pre v post. mmap (st_mm s) = pre @ v # post \<and> p = vm_id v \<and> vm_start v \<le> addr \<and> addr \<le> addr + old_len \<and> addr + old_len \<le> vm_end v)"
proof -
  note ee = mm_env_okD [OF E(1)]
  let ?op = "vma_to_resize_task E addr old_len new_len s"
  have stop: ?thesis if "?op = (Inl e, c, s)" "is_errno e" for e c using that mm_step_refl [OF mm] by simp
  from mm ee(4) show ?thesis
  proof (cases rule: find_vma_cases [where a = addr])
    case none
    then show ?thesis by (intro stop [of "- EFAULT" 0]) (simp_all add: vma_to_resize_task_def)
  next
    case (found pre v post)
    note at = mm_ok_position(1) [OF mm found(2)]
    obtain e c where en: "security_vm_enough_memory_mm E s (drop_bit 12 (new_len - old_len)) = (e, s\<lparr>vm_committed_as := c\<rparr>)"
      using E(2) unfolding enough_memory_ok_def by (metis prod.collapse)
    note stc = mm_step_committed [OF mm, of E c]
    show ?thesis
    proof (cases "vm_start v > addr \<or> old_len > vm_end v - addr")
      case True
      then have "?op = (Inl (if \<not> vm_start v > addr \<and> vm_flags v AND VM_HUGETLB \<noteq> 0 then - EINVAL else - EFAULT), 0, s)"
        using found(1) at unfolding vma_to_resize_task_def Let_def by auto
      then show ?thesis by (rule stop) simp
    next
      case False
      then have b: "vm_start v \<le> addr" "old_len \<le> vm_end v - addr" by (auto simp: not_less)
      have nw: "addr \<le> addr + old_len" "addr + old_len \<le> vm_end v" using b(2) found(4) by unat_arith+
      have pos: "\<exists>pre v' post. mmap (st_mm s) = pre @ v' # post \<and> vm_id v = vm_id v' \<and> vm_start v' \<le> addr \<and> addr \<le> addr + old_len \<and> addr + old_len \<le> vm_end v'"
        using found(2) b(1) nw by blast
      have go: ?thesis if "?op = (Inr (vm_id v), k, s')" "mm_step E s s'" "st_mm s' = st_mm s" for k s'
        using that pos by simp
      have "(\<exists>e. ?op = (Inl e, 0, s) \<and> is_errno e) \<or> ?op = (Inr (vm_id v), 0, s) \<or> ?op = (Inl (- ENOMEM), 0, s\<lparr>vm_committed_as := c\<rparr>) \<or>
          ?op = (Inr (vm_id v), drop_bit 12 (new_len - old_len), s\<lparr>vm_committed_as := c\<rparr>)"
        using found(1) at False en unfolding vma_to_resize_task_def Let_def by (auto split: if_splits)
      then consider e where "?op = (Inl e, 0, s)" "is_errno e" | "?op = (Inr (vm_id v), 0, s)" | "?op = (Inl (- ENOMEM), 0, s\<lparr>vm_committed_as := c\<rparr>)"
          | "?op = (Inr (vm_id v), drop_bit 12 (new_len - old_len), s\<lparr>vm_committed_as := c\<rparr>)" by blast
      then show ?thesis
      proof cases
        case 1
        then show ?thesis by (rule stop)
      next
        case 2
        then show ?thesis by (rule go) (use mm_step_refl [OF mm] in simp_all)
      next
        case 3
        then show ?thesis using stc by simp
      next
        case 4
        then show ?thesis by (rule go) (use stc in simp_all)
      qed
    qed
  qed
qed

lemma pages_int: "x < 0x80000000000 \<Longrightarrow> scast (ucast (drop_bit 12 x) :: 32 word) = drop_bit 12 (x :: 64 word)"
proof -
  assume "x < 0x80000000000"
  then have "unat x < 0x80000000000" by (simp add: word_less_nat_alt)
  then have u: "unat (drop_bit 12 x) < 2 ^ 31" by (simp add: unat_drop12)
  then have i: "uint (drop_bit 12 x) < 2 ^ 31" by (metis of_nat_less_iff of_nat_numeral of_nat_power uint_nat)
  have "signed_take_bit 31 (uint (drop_bit 12 x)) = uint (drop_bit 12 x)"
    by (rule signed_take_bit_int_eq_self) (use i order.trans [of "- (2 ^ 31)" 0 "uint (drop_bit 12 x)"] in simp_all)
  then have "sint (ucast (drop_bit 12 x) :: 32 word) = uint (drop_bit 12 x)"
    using i by (simp add: sint_uint unsigned_ucast_eq take_bit_int_eq_self)
  then show ?thesis by (simp add: scast_eq)
qed

lemma view_grow:
  assumes "areas_ok (pre @ v # post)" "areas_ok (pre @ resized v (vm_start v) e (vm_pgoff v) # post)" "vm_end v \<le> e"
  shows "view_of (pre @ resized v (vm_start v) e (vm_pgoff v) # post) = set_view (view_of (pre @ v # post)) (vm_end v) e (page_attr v)"
proof
  fix a
  have lt: "vm_start v < vm_end v" using assms(1) by (simp add: areas_ok_append areas_ok_Cons area_ok_def)
  have pre: "view_of pre a = None" if "vm_start v \<le> a" using assms(1) that by (fastforce simp: view_of_None vma_covers_def areas_ok_append areas_ok_Cons)
  have pa: "page_attr (resized v (vm_start v) e (vm_pgoff v)) a = page_attr v a" by (simp add: page_attr_def)
  consider "a < vm_start v" | "vm_start v \<le> a" "a < vm_end v" | "vm_end v \<le> a" "a < e" | "e \<le> a" "vm_end v \<le> a" using assms(3) by fastforce
  then show "view_of (pre @ resized v (vm_start v) e (vm_pgoff v) # post) a = set_view (view_of (pre @ v # post)) (vm_end v) e (page_attr v) a"
    using lt assms(3) pre pa by cases (auto simp: set_view_def view_of_append vma_covers_def split: option.split)
qed

lemma mremap_expand_result:
  assumes mm: "mm_ok (st_mm s)" and E: "mm_env_ok E" and sp: "mmap (st_mm s) = pre @ v # post"
    and a: "aligned addr" "aligned new_len" "addr + old_len = vm_end v" "old_len < new_len" "vm_end v \<le> addr + new_len"
    and nx: "post \<noteq> [] \<Longrightarrow> addr + new_len \<le> vm_start (hd post)"
  shows "\<exists>b s'. mremap_expand E (vm_id v) addr old_len new_len s = Some (addr, b, s') \<and> grow_step E new_len s s' \<and>
    plain_view (st_mm s') = set_view (plain_view (st_mm s)) (addr + old_len) (addr + new_len) (\<lambda>x. plain (page_attr v x))"
proof -
  note ee = mm_env_okD [OF E]
  let ?e = "addr + new_len" and ?k = "drop_bit 12 (new_len - old_len)"
  let ?v = "resized v (vm_start v) ?e (vm_pgoff v)"
  have at: "vma_at (st_mm s) (vm_id v) = v" by (rule mm_ok_position(1) [OF mm sp])
  have ao: "areas_ok (pre @ v # post)" using mm_ok_areas [OF mm] sp by simp
  have room: "post \<noteq> [] \<Longrightarrow> vm_end v \<le> ?e \<and> ?e \<le> vm_start (hd post)" using a(5) nx by blast
  obtain s1 where s1: "raw_vma_adjust E (vm_id v) (vm_start v) ?e (vm_pgoff v) None None s = Some (0, s1)" "now_maps E s s1 (pre @ ?v # post)"
  proof -
    have "\<exists>s1. raw_vma_adjust E (vm_id v) (vm_start v) ?e (vm_pgoff v) None None s = Some (0, s1) \<and> now_maps E s s1 (pre @ ?v # post)"
      by (rule adjust_grow [OF mm ee(1) sp]) (use room in blast)
    then show ?thesis using that by blast
  qed
  have vv: "vm_start v < vm_end v" using ao by (simp add: areas_ok_append areas_ok_Cons area_ok_def)
  have post: "?e \<le> vm_start w" if "w \<in> set post" for w
  proof -
    obtain x xs where p: "post = x # xs" using \<open>w \<in> set post\<close> by (cases post) auto
    then have "?e \<le> vm_start x" "x \<noteq> w \<Longrightarrow> vm_end x \<le> vm_start w" "vm_start x < vm_end x"
      using nx ao that by (auto simp: areas_ok_append areas_ok_Cons area_ok_def)
    then show ?thesis by (cases "x = w") auto
  qed
  have ao1: "areas_ok (pre @ ?v # post)"
    using ao a vv post aligned_add_wrap [OF a(1,2)] by (auto simp: areas_ok_append areas_ok_Cons area_ok_def)
  note n = now_mapsD [OF s1(2)]
  have mm1: "mm_ok (st_mm s1)" by (rule n(9) [OF ao1])
  let ?c = "scast (ucast ?k :: 32 word) :: 64 word"
  have k: "?c = ?k" if "new_len < 0x80000000000" by (rule pages_int) (use a(4) that in unat_arith)
  have pg: "vma_pages ?v = vma_pages v + ?k"
  proof -
    have d: "?e - vm_end v = new_len - old_len" using a(3) by (simp add: algebra_simps)
    have al: "aligned (vm_start v)" "aligned (vm_end v)" using ao by (simp_all add: areas_ok_append areas_ok_Cons area_ok_def)
    show ?thesis
      using drop12_diff [of "vm_start v" "vm_end v" ?e] al vv a(5) unfolding vma_pages_def d [symmetric] by (simp add: add.commute)
  qed
  have st1: "mm_step_by E (- ?k) s s1"
    using n mm1 anons_pages [OF n(1)] pg by (simp add: mm_step_by_def sp)
  obtain w where w: "vma_at (st_mm s1) (vm_id v) = w" by blast
  let ?s2 = "s1\<lparr>st_mm := vm_stat_account (vm_flags w) ?c (st_mm s1)\<rparr>"
  have s2: "mm_step_by E (- ?k + ?c) s ?s2" by (rule mm_step_by_add [OF st1 mm_step_by_account(1) [OF mm1]])
  have mm2: "mm_ok (st_mm ?s2)" using s2 by (simp add: mm_step_by_def)
  let ?lock = "vm_flags w AND VM_LOCKED \<noteq> 0"
  let ?s3 = "if ?lock then ?s2\<lparr>st_mm := (st_mm ?s2)\<lparr>locked_vm := locked_vm (st_mm ?s2) + ?c\<rparr>\<rparr> else ?s2"
  have "mm_step_by E (- ?k + ?c) s ?s3" using s2 mm_step_by_trans(2) [OF s2 mm_step_locked(1) [OF mm2]] by simp
  then have s3: "grow_step E new_len s ?s3" using k unfolding grow_step_def by (intro exI [of _ "- ?k + ?c"]) simp
  have "mm_view (st_mm s1) = set_view (mm_view (st_mm s)) (addr + old_len) ?e (page_attr v)"
    using n(2) view_grow [OF ao ao1 a(5)] sp a(3) by (simp add: mm_view_def)
  then have "plain_view (st_mm s1) = set_view (plain_view (st_mm s)) (addr + old_len) ?e (\<lambda>x. plain (page_attr v x))" by (rule plain_set_view)
  moreover have "plain_view (st_mm ?s3) = plain_view (st_mm s1)" by (rule plain_view_cong) (simp add: mm_view_def)
  ultimately have view: "plain_view (st_mm ?s3) = set_view (plain_view (st_mm s)) (addr + old_len) ?e (\<lambda>x. plain (page_attr v x))" by simp
  have "mremap_expand E (vm_id v) addr old_len new_len s = Some (addr, ?lock, ?s3)"
    using s1(1) w by (simp add: mremap_expand_def at vma_adjust_def Let_def)
  then show ?thesis using s3 view by blast
qed


section \<open>The system call\<close>

text \<open>The pages of \<open>v\<close> from \<open>addr\<close> on are at \<open>r\<close>; they have left the old place unless memory was short.\<close>

definition remapped ::
    "vm_area_struct \<Rightarrow> 64 word \<Rightarrow> 64 word \<Rightarrow> 64 word \<Rightarrow> 64 word \<Rightarrow> (64 word \<Rightarrow> page_attr option) \<Rightarrow> (64 word \<Rightarrow> page_attr option) \<Rightarrow> bool" where
  "remapped v addr old_len new_len r V V' \<longleftrightarrow>
     (let W = set_view V r (r + new_len) (new_attr v addr r) in V' = W \<or> V' = clear_view W addr (addr + old_len))"

lemma clear_view_none [simp]: "clear_view V a a = V"
proof -
  have "\<not> (a \<le> x \<and> x < a)" for x by auto
  then show ?thesis unfolding clear_view_def by (simp only: if_False)
qed

lemma remap_munmap:
  assumes mm: "mm_ok (st_mm s)" and E: "mm_env_ok E" "remap_errno_ok E" and a: "aligned len"
  shows "\<exists>r s'. do_munmap E start len s = Some (r, s') \<and> mm_step E s s' \<and> (r = 0 \<or> is_errno r) \<and>
    plain_view (st_mm s') = (if r = 0 then clear_view (plain_view (st_mm s)) start (start + len) else plain_view (st_mm s))"
proof -
  note ee = mm_env_okD [OF E(1)]
  have er: "split_errno_ok E" using E(2) by (simp add: remap_errno_ok_def)
  obtain r s' where r: "do_munmap E start len s = Some (r, s')" "mm_step E s s'"
    "mm_view (st_mm s') = (\<lambda>a. if r = 0 \<and> start \<le> a \<and> a < start + PAGE_ALIGN len then None else mm_view (st_mm s) a)"
    using do_munmap_result [OF mm E(1), of start len] by blast
  have pa: "PAGE_ALIGN len = len" if "r = 0"
  proof -
    have "\<not> (offset_in_page start \<noteq> 0 \<or> start > TASK_SIZE E \<or> len > TASK_SIZE E - start)"
      using r(1) that by (auto simp: do_munmap_cuts split: if_splits)
    then have "len \<le> 0x8000000000000000"
      by (intro order.trans [OF _ order.trans [OF word_sub_le ee(8)], of len start]) (auto simp: not_less)
    then show ?thesis by (rule PAGE_ALIGN_aligned [OF a])
  qed
  then have "plain_view (st_mm s') = (if r = 0 then clear_view (plain_view (st_mm s)) start (start + len) else plain_view (st_mm s))"
    by (auto simp: plain_view_def r(3) clear_view_def fun_eq_iff)
  then show ?thesis using r(1,2) do_munmap_errno [OF er r(1)] by blast
qed

lemma unacct_plain: "mm_step E s s' \<Longrightarrow> mm_step E s (vm_unacct_memory n s')" "plain_view (st_mm (vm_unacct_memory n s')) = plain_view (st_mm s')"
  by (auto intro: mm_step_unacct)

text \<open>With \<open>MREMAP_FIXED\<close>: what was at the new place goes first, then the end of a range that shrinks.\<close>

definition fixed_outcome ::
    "mm_env \<Rightarrow> 64 word \<Rightarrow> 64 word \<Rightarrow> 64 word \<Rightarrow> 64 word \<Rightarrow> mmst \<Rightarrow> 64 word \<Rightarrow> mmst \<Rightarrow> bool" where
  "fixed_outcome E addr old_len new_addr new_len s r s' \<longleftrightarrow> mm_step E s s' \<and>
     (let V = plain_view (st_mm s);
          V1 = clear_view V new_addr (new_addr + new_len);
          V2 = (if old_len \<ge> new_len then clear_view V1 (addr + new_len) (addr + old_len) else V1)
      in if offset_in_page r \<noteq> 0
         then plain_view (st_mm s') \<in> {V, V1, V2} \<or> (\<exists>v. plain_view (st_mm s') = set_view V2 new_addr (new_addr + new_len) (new_attr v addr new_addr))
         else r = new_addr \<and> (\<exists>v. remapped v addr (min old_len new_len) new_len r V2 (plain_view (st_mm s'))))"

lemma mremap_to_task_result:
  assumes mm: "mm_ok (st_mm s)" and E: "mm_env_ok E" "enough_memory_ok E" "remap_errno_ok E" and a: "aligned addr" "aligned old_len" "aligned new_len" "new_len \<noteq> 0"
  shows "\<exists>r b s'. mremap_to_task E addr old_len new_addr new_len s = Some (r, b, s') \<and> fixed_outcome E addr old_len new_addr new_len s r s'"
proof -
  let ?op = "mremap_to_task E addr old_len new_addr new_len s"
  let ?V = "plain_view (st_mm s)"
  let ?V1 = "clear_view ?V new_addr (new_addr + new_len)"
  let ?V2 = "if old_len \<ge> new_len then clear_view ?V1 (addr + new_len) (addr + old_len) else ?V1"
  have stop: "\<exists>r b s'. ?op = Some (r, b, s') \<and> fixed_outcome E addr old_len new_addr new_len s r s'"
    if "?op = Some (ulong e, False, s')" "is_errno e" "mm_step E s s'" "plain_view (st_mm s') \<in> {?V, ?V1, ?V2}" for e s'
    using that ulong_err(2) [of e] by (auto simp: fixed_outcome_def Let_def)
  show ?thesis
  proof (cases "offset_in_page new_addr \<noteq> 0 \<or> new_len > TASK_SIZE E \<or> new_addr > TASK_SIZE E - new_len \<or> addr + old_len > new_addr \<and> new_addr + new_len > addr")
    case True
    then have "?op = Some (ulong (- EINVAL), False, s)" by (auto simp: mremap_to_task_def)
    then show ?thesis by (rule stop) (use mm_step_refl [OF mm] in simp_all)
  next
    case ck: False
    then have reg: "region_ok E new_addr new_len" using a by (simp add: region_ok_def aligned_def not_less)
    note rd = region_okD [OF E(1) reg]
    obtain r1 s1 where r1: "do_munmap E new_addr new_len s = Some (r1, s1)" "mm_step E s s1" "r1 = 0 \<or> is_errno r1" "plain_view (st_mm s1) = (if r1 = 0 then ?V1 else ?V)"
      using remap_munmap [OF mm E(1,3) a(3)] by blast
    show ?thesis
    proof (cases "r1 = 0")
      case False
      then have "?op = Some (ulong r1, False, s1)" using ck r1(1) by (auto simp: mremap_to_task_def)
      then show ?thesis by (rule stop) (use False r1 in auto)
    next
      case r10: True
      have mm1: "mm_ok (st_mm s1)" using r1(2) by (simp add: mm_step_def)
      let ?shrink = "if old_len \<ge> new_len then do_munmap E (addr + new_len) (old_len - new_len) s1 else Some (0, s1)"
      obtain r2 s2 where r2: "?shrink = Some (r2, s2)" "mm_step E s1 s2" "r2 = 0 \<or> is_errno r2"
        "plain_view (st_mm s2) = (if r2 = 0 \<or> old_len = new_len then ?V2 else ?V1)"
      proof (cases "old_len \<ge> new_len")
        case True
        obtain r s' where "do_munmap E (addr + new_len) (old_len - new_len) s1 = Some (r, s')" "mm_step E s1 s'" "r = 0 \<or> is_errno r"
          "plain_view (st_mm s') = (if r = 0 then clear_view (plain_view (st_mm s1)) (addr + new_len) (addr + new_len + (old_len - new_len)) else plain_view (st_mm s1))"
          using remap_munmap [OF mm1 E(1,3) aligned_diff [OF a(2,3) True], of "addr + new_len"] by blast
        then show ?thesis using True r1(4) r10 by (intro that [of r s']) auto
      next
        case False
        then show ?thesis using mm_step_refl [OF mm1] r1(4) r10 by (intro that [of 0 s1]) auto
      qed
      note st2 = mm_step_trans [OF r1(2) r2(2)]
      have mm2: "mm_ok (st_mm s2)" using st2 by (simp add: mm_step_def)
      show ?thesis
      proof (cases "old_len \<ge> new_len \<and> r2 \<noteq> 0 \<and> old_len \<noteq> new_len")
        case True
        then have "?op = Some (ulong r2, False, s2)" using ck r1(1) r10 r2(1) by (auto simp: mremap_to_task_def)
        then show ?thesis by (rule stop) (use True r2 st2 in auto)
      next
        case go: False
        then have v2: "plain_view (st_mm s2) = ?V2" using r2(1,4) by (auto split: if_splits)
        let ?ol = "if old_len \<ge> new_len then new_len else old_len"
        obtain res charged s3 where r3: "vma_to_resize_task E addr ?ol new_len s2 = (res, charged, s3)" "mm_step E s2 s3" "st_mm s3 = st_mm s2"
          "case res of Inl e \<Rightarrow> is_errno e
           | Inr p \<Rightarrow> \<exists>pre v post. mmap (st_mm s2) = pre @ v # post \<and> p = vm_id v \<and> vm_start v \<le> addr \<and> addr \<le> addr + ?ol \<and> addr + ?ol \<le> vm_end v"
          using vma_to_resize_task_result [OF mm2 E(1,2), of addr ?ol new_len] by blast
        note st3 = mm_step_trans [OF st2 r3(2)]
        have mm3: "mm_ok (st_mm s3)" using st3 by (simp add: mm_step_def)
        have v3: "plain_view (st_mm s3) = ?V2" using v2 r3(3) by simp
        define tail where "tail = (case res of
                 Inl err \<Rightarrow> Some (ulong err, False, s3)
               | Inr p \<Rightarrow>
                   let vma = vma_at (st_mm s3) p;
                       map_flags = (if vm_flags vma AND VM_MAYSHARE \<noteq> 0 then MAP_FIXED OR MAP_SHARED else MAP_FIXED);
                       ret = get_unmapped_area E (vm_file vma) new_addr new_len (vm_pgoff vma + drop_bit 12 (addr - vm_start vma)) map_flags s3
                   in if offset_in_page ret \<noteq> 0 then Some (ret, False, vm_unacct_memory charged s3)
                      else do {
                        (ret, locked, s) \<leftarrow> move_vma E p addr ?ol new_len new_addr s3;
                        Some (ret, locked, if offset_in_page ret = 0 then s else vm_unacct_memory charged s)
                      })"
        have op: "?op = tail"
        proof -
          have n: "\<not> (offset_in_page new_addr \<noteq> 0)" "\<not> (new_len > TASK_SIZE E \<or> new_addr > TASK_SIZE E - new_len)"
            "\<not> (addr + old_len > new_addr \<and> new_addr + new_len > addr)" using ck by blast+
          have nr: "\<not> r1 \<noteq> 0" using r10 by simp
          show ?thesis
            unfolding mremap_to_task_def tail_def if_not_P [OF n(1)] if_not_P [OF n(2)] if_not_P [OF n(3)] r1(1) bind.bind_lunit prod.case
              if_not_P [OF nr] r2(1) if_not_P [OF go] Let_def r3(1) by (rule refl)
        qed
        show ?thesis
        proof (cases res)
          case (Inl e)
          then have "?op = Some (ulong e, False, s3)" unfolding op tail_def by simp
          then show ?thesis by (rule stop) (use r3(4) Inl st3 v3 in simp_all)
        next
          case (Inr p)
          then obtain pre v post where v: "mmap (st_mm s3) = pre @ v # post" "p = vm_id v" "vm_start v \<le> addr" "addr \<le> addr + ?ol" "addr + ?ol \<le> vm_end v"
            using r3(3,4) by auto
          obtain g where op2: "?op = (if offset_in_page g \<noteq> 0 then Some (g, False, vm_unacct_memory charged s3)
              else do { (ret, locked, s) \<leftarrow> move_vma E p addr ?ol new_len new_addr s3;
                        Some (ret, locked, if offset_in_page ret = 0 then s else vm_unacct_memory charged s) })"
            unfolding op tail_def Inr sum.case Let_def by blast
          show ?thesis
          proof (cases "offset_in_page g = 0")
            case False
            then have "fixed_outcome E addr old_len new_addr new_len s g (vm_unacct_memory charged s3)"
              using unacct_plain(1) [OF st3] unacct_plain(2) v3 by (simp add: fixed_outcome_def Let_def)
            moreover have "?op = Some (g, False, vm_unacct_memory charged s3)" using op2 False by simp
            ultimately show ?thesis by blast
          next
            case True
            have ol: "aligned ?ol" "?ol \<le> new_len" "?ol = min old_len new_len" using a by (auto simp: min_def)
            obtain r b s4 where m: "move_vma E p addr ?ol new_len new_addr s3 = Some (r, b, s4)" "move_outcome E v addr ?ol new_len new_addr s3 r s4"
              using move_vma_result [OF mm3 E(1,3) reg v(1) a(1) ol(1) v(3-5) ol(2)] v(2) by blast
            let ?s5 = "if offset_in_page r = 0 then s4 else vm_unacct_memory charged s4"
            have st4: "mm_step E s s4" using m(2) mm_step_trans [OF st3] by (simp add: move_outcome_def)
            have s5: "mm_step E s ?s5" "plain_view (st_mm ?s5) = plain_view (st_mm s4)" using st4 unacct_plain by auto
            have "fixed_outcome E addr old_len new_addr new_len s r ?s5"
            proof (cases "IS_ERR_VALUE r")
              case True
              then have "offset_in_page r \<noteq> 0" by (rule err_value_offset)
              moreover have "plain_view (st_mm s4) = ?V2 \<or> plain_view (st_mm s4) = set_view ?V2 new_addr (new_addr + new_len) (new_attr v addr new_addr)"
                using m(2) True unfolding move_outcome_def Let_def v3 by simp
              ultimately show ?thesis using s5 unfolding fixed_outcome_def Let_def by auto
            next
              case False
              then have r: "r = new_addr" "remapped v addr ?ol new_len r ?V2 (plain_view (st_mm s4))"
                using m(2) unfolding move_outcome_def remapped_def Let_def v3 by auto
              moreover have "offset_in_page r = 0" using r(1) rd(1) by (simp add: aligned_def)
              ultimately show ?thesis using s5 unfolding fixed_outcome_def Let_def ol(3) by auto
            qed
            moreover have "?op = Some (r, b, ?s5)" using op2 True m(1) by simp
            ultimately show ?thesis by blast
          qed
        qed
      qed
    qed
  qed
qed


text \<open>Growing: in place, or at a new place that was free in the address space of the caller.\<close>

definition grow_outcome ::
    "mm_env \<Rightarrow> 64 word \<Rightarrow> 64 word \<Rightarrow> 64 word \<Rightarrow> mmst \<Rightarrow> 64 word \<Rightarrow> mmst \<Rightarrow> bool" where
  "grow_outcome E addr old_len new_len s r s' \<longleftrightarrow> grow_step E new_len s s' \<and>
     (let V = plain_view (st_mm s); V' = plain_view (st_mm s')
      in if offset_in_page r \<noteq> 0
         then V' = V \<or> (\<exists>v a. V' = set_view V a (a + new_len) (new_attr v addr a))
         else \<exists>v\<in>set (mmap (st_mm s)). vm_start v \<le> addr \<and> addr + old_len \<le> vm_end v \<and>
           (r = addr \<and> vm_end v = addr + old_len \<and> V' = set_view V (addr + old_len) (addr + new_len) (\<lambda>x. plain (page_attr v x)) \<or>
            remapped v addr old_len new_len r V V'))"

lemma grow_error:
  "mm_step E s s' \<Longrightarrow> plain_view (st_mm s') = plain_view (st_mm s) \<Longrightarrow> offset_in_page r \<noteq> 0 \<Longrightarrow> grow_outcome E addr old_len new_len s r s'"
  by (simp add: grow_outcome_def Let_def grow_step_mm)

lemma vma_expandable_room:
  assumes mm: "mm_ok (st_mm s)" and sp: "mmap (st_mm s) = pre @ v # post" and e: "vma_expandable E (vm_id v) d s"
  shows "vm_end v \<le> vm_end v + d" "post \<noteq> [] \<Longrightarrow> vm_end v + d \<le> vm_start (hd post)"
proof -
  note at = mm_ok_position [OF mm sp]
  show "vm_end v \<le> vm_end v + d" using e by (auto simp: vma_expandable_def at(1) Let_def not_less split: if_splits)
  assume "post \<noteq> []"
  then obtain n post' where n: "post = n # post'" by (cases post) auto
  then have sp2: "mmap (st_mm s) = (pre @ [v]) @ n # post'" using sp by simp
  show "vm_end v + d \<le> vm_start (hd post)"
    using e at(2) mm_ok_position(1) [OF mm sp2] n by (auto simp: vma_expandable_def at(1) Let_def not_less split: if_splits)
qed

lemma mremap_grow_result:
  assumes mm: "mm_ok (st_mm s)" "mm_ok (cur_mm s)" and E: "mm_env_ok E" "enough_memory_ok E" "remap_errno_ok E" "area_methods_ok E"
    and a: "aligned addr" "aligned old_len" "aligned new_len" "old_len < new_len"
  shows "\<exists>r b n c s'. mremap_grow E addr old_len new_len flags new_addr s = Some (r, b, n, c, s') \<and> grow_outcome E addr old_len new_len s r s'"
proof -
  note ee = mm_env_okD [OF E(1)]
  let ?op = "mremap_grow E addr old_len new_len flags new_addr s"
  obtain res charged s1 where r1: "vma_to_resize_task E addr old_len new_len s = (res, charged, s1)" "mm_step E s s1" "st_mm s1 = st_mm s"
    "case res of Inl e \<Rightarrow> is_errno e
     | Inr p \<Rightarrow> \<exists>pre v post. mmap (st_mm s) = pre @ v # post \<and> p = vm_id v \<and> vm_start v \<le> addr \<and> addr \<le> addr + old_len \<and> addr + old_len \<le> vm_end v"
    using vma_to_resize_task_result [OF mm(1) E(1,2), of addr old_len new_len] by blast
  have mm1: "mm_ok (st_mm s1)" using mm(1) r1(3) by simp
  have cur: "cur_mm s1 = cur_mm s" using r1(2,3) by (simp add: cur_mm_def mm_step_def split: option.split)
  have p1: "plain_view (st_mm s1) = plain_view (st_mm s)" using r1(3) by simp
  show ?thesis
  proof (cases res)
    case (Inl e)
    then have "?op = Some (ulong e, False, new_addr, charged, s1)" using r1(1) by (simp add: mremap_grow_def)
    then show ?thesis using grow_error [OF r1(2) p1] ulong_err(2) [of e] r1(4) Inl by auto
  next
    case (Inr p)
    then obtain pre v post where v: "mmap (st_mm s) = pre @ v # post" "p = vm_id v" "vm_start v \<le> addr" "addr \<le> addr + old_len" "addr + old_len \<le> vm_end v"
      using r1(4) by auto
    have vin: "v \<in> set (mmap (st_mm s))" using v(1) by simp
    have sp1: "mmap (st_mm s1) = pre @ v # post" using v(1) r1(3) by simp
    have at: "vma_at (st_mm s1) p = v" using mm_ok_position(1) [OF mm1 sp1] v(2) by simp
    show ?thesis
    proof (cases "old_len = vm_end v - addr \<and> vma_expandable E p (new_len - old_len) s1")
      case True
      have ve: "addr + old_len = vm_end v" using True by simp
      have ne: "vm_end v + (new_len - old_len) = addr + new_len" using ve [symmetric] by simp
      note room = vma_expandable_room [OF mm1 sp1, of E "new_len - old_len", unfolded ne]
      have x: "vma_expandable E (vm_id v) (new_len - old_len) s1" using True v(2) by blast
      obtain b s2 where x2: "mremap_expand E (vm_id v) addr old_len new_len s1 = Some (addr, b, s2)" "grow_step E new_len s1 s2"
        "plain_view (st_mm s2) = set_view (plain_view (st_mm s1)) (addr + old_len) (addr + new_len) (\<lambda>x. plain (page_attr v x))"
        using mremap_expand_result [OF mm1 E(1) sp1 a(1,3) ve a(4) room(1) [OF x] room(2) [OF x]] by blast
      have "?op = Some (addr, b, if b then addr else new_addr, charged, s2)"
        unfolding mremap_grow_def r1(1) prod.case Let_def Inr sum.case at if_P [OF True] using x2(1) v(2) by simp
      moreover have "offset_in_page addr = 0" using a(1) by (simp add: aligned_def)
      then have "grow_outcome E addr old_len new_len s addr s2"
        using grow_step_trans [OF r1(2) x2(2)] x2(3) p1 vin v(3,5) ve unfolding grow_outcome_def Let_def by auto
      ultimately show ?thesis by blast
    next
      case nx: False
      show ?thesis
      proof (cases "flags AND MREMAP_MAYMOVE = 0")
        case True
        then have "?op = Some (ulong (- ENOMEM), False, new_addr, charged, s1)" using r1(1) Inr nx at unfolding mremap_grow_def by auto
        then show ?thesis using grow_error [OF r1(2) p1, of "ulong (- ENOMEM)"] ulong_err(2) [of "- ENOMEM"] by auto
      next
        case mv: False
        define mf where "mf = (if vm_flags v AND VM_MAYSHARE \<noteq> 0 then MAP_SHARED else 0)"
        define g where "g = get_task_unmapped_area E (vm_file v) 0 new_len (vm_pgoff v + drop_bit 12 (addr - vm_start v)) mf s1"
        have op: "?op = (if offset_in_page g \<noteq> 0 then Some (g, False, g, charged, s1)
            else do { (ret, locked, s) \<leftarrow> move_vma E p addr old_len new_len g s1; Some (ret, locked, g, charged, s) })"
          unfolding mremap_grow_def r1(1) prod.case Let_def Inr sum.case at if_not_P [OF nx] mf_def [symmetric] g_def [symmetric] using mv by simp
        show ?thesis
        proof (cases "offset_in_page g = 0")
          case False
          then show ?thesis using op grow_error [OF r1(2) p1 False] by auto
        next
          case True
          have mmc: "mm_ok (cur_mm s1)" using mm(2) cur by simp
          have ga: "new_len \<le> TASK_SIZE E" "g \<le> TASK_SIZE E - new_len"
            using get_task_unmapped_area_result [OF mmc ee(4) E(4) g_def [symmetric] True] by auto
          have n0: "new_len \<noteq> 0" using a(4) by auto
          have reg: "region_ok E g new_len" using ga True a(3) n0 by (simp add: region_ok_def aligned_def)
          obtain r b s2 where m: "move_vma E p addr old_len new_len g s1 = Some (r, b, s2)" "move_outcome E v addr old_len new_len g s1 r s2"
            using move_vma_result [OF mm1 E(1,3) reg sp1 a(1,2) v(3-5) less_imp_le [OF a(4)]] v(2) by blast
          have st2: "mm_step E s s2" using m(2) mm_step_trans [OF r1(2)] by (simp add: move_outcome_def)
          have "grow_outcome E addr old_len new_len s r s2"
          proof (cases "IS_ERR_VALUE r")
            case True
            then have "offset_in_page r \<noteq> 0" by (rule err_value_offset)
            moreover have "plain_view (st_mm s2) = plain_view (st_mm s) \<or>
                plain_view (st_mm s2) = set_view (plain_view (st_mm s)) g (g + new_len) (new_attr v addr g)"
              using m(2) True unfolding move_outcome_def Let_def p1 by simp
            ultimately show ?thesis using grow_step_mm [OF st2] unfolding grow_outcome_def Let_def by auto
          next
            case False
            then have r: "r = g" "remapped v addr old_len new_len r (plain_view (st_mm s)) (plain_view (st_mm s2))"
              using m(2) unfolding move_outcome_def remapped_def Let_def p1 by auto
            moreover have "offset_in_page r = 0" using r(1) True by simp
            ultimately show ?thesis using grow_step_mm [OF st2] vin v(3,5) unfolding grow_outcome_def Let_def by auto
          qed
          moreover have "?op = Some (r, b, g, charged, s2)" using op True m(1) by simp
          ultimately show ?thesis by blast
        qed
      qed
    qed
  qed
qed

text \<open>The whole system call.\<close>

definition mremap_outcome ::
    "mm_env \<Rightarrow> 64 word \<Rightarrow> 64 word \<Rightarrow> 64 word \<Rightarrow> 64 word \<Rightarrow> 64 word \<Rightarrow> mmst \<Rightarrow> 64 word \<Rightarrow> mmst \<Rightarrow> bool" where
  "mremap_outcome E addr old_len new_len flags new_addr s r s' \<longleftrightarrow>
     (if flags AND MREMAP_FIXED \<noteq> 0 then fixed_outcome E addr old_len new_addr new_len s r s'
      else if old_len \<ge> new_len then
        mm_step E s s' \<and>
        (if offset_in_page r \<noteq> 0 then plain_view (st_mm s') = plain_view (st_mm s)
         else r = addr \<and> plain_view (st_mm s') = clear_view (plain_view (st_mm s)) (addr + new_len) (addr + old_len))
      else grow_outcome E addr old_len new_len s r s')"

lemma mremap_error:
  assumes "mm_step E s s'" "plain_view (st_mm s') = plain_view (st_mm s)" "offset_in_page r \<noteq> 0"
  shows "mremap_outcome E addr old_len new_len flags new_addr s r s'"
  using assms by (simp add: mremap_outcome_def fixed_outcome_def grow_outcome_def Let_def grow_step_mm)

lemma mremap_unacct:
  assumes "mremap_outcome E addr old_len new_len flags new_addr s r s'"
  shows "mremap_outcome E addr old_len new_len flags new_addr s r (vm_unacct_memory n s')"
proof -
  have "mm_step E s (vm_unacct_memory n s') = mm_step E s s'" "\<And>k. grow_step E k s (vm_unacct_memory n s') = grow_step E k s s'"
    by (simp_all add: mm_step_def mm_step_by_def grow_step_def)
  then show ?thesis using assms unfolding mremap_outcome_def fixed_outcome_def grow_outcome_def unacct_plain(2) by (simp only:)
qed

lemma mremap_task_result:
  assumes mm: "mm_ok (st_mm s)" "mm_ok (cur_mm s)" and E: "mm_env_ok E" "enough_memory_ok E" "remap_errno_ok E" "area_methods_ok E"
  shows "\<exists>r pop s'. mremap_task E addr old_len new_len flags new_addr s = Some (r, pop, s') \<and>
    mremap_outcome E addr (PAGE_ALIGN old_len) (PAGE_ALIGN new_len) flags new_addr s r s'"
proof -
  let ?op = "mremap_task E addr old_len new_len flags new_addr s"
  let ?ol = "PAGE_ALIGN old_len" and ?nl = "PAGE_ALIGN new_len"
  have al: "aligned ?ol" "aligned ?nl" by (simp_all add: PAGE_ALIGN_is_aligned)
  have stop: "\<exists>r pop s'. ?op = Some (r, pop, s') \<and> mremap_outcome E addr ?ol ?nl flags new_addr s r s'"
    if "?op = Some (ulong e, Populate_nothing, s)" "is_errno e" for e
    using that mremap_error [OF mm_step_refl [OF mm(1)] refl, of "ulong e"] ulong_err(2) [of e] by blast
  show ?thesis
  proof (cases "flags AND NOT (MREMAP_FIXED OR MREMAP_MAYMOVE) \<noteq> 0 \<or> (flags AND MREMAP_FIXED \<noteq> 0 \<and> flags AND MREMAP_MAYMOVE = 0) \<or> offset_in_page addr \<noteq> 0 \<or> ?nl = 0")
    case True
    then have "?op = Some (ulong (- EINVAL), Populate_nothing, s)" by (auto simp: mremap_task_def)
    then show ?thesis by (rule stop) simp
  next
    case ck: False
    show ?thesis
    proof (cases "mmap_sem_killed E")
      case True
      then have "?op = Some (ulong (- EINTR), Populate_nothing, s)" using ck unfolding mremap_task_def Let_def by auto
      then show ?thesis by (rule stop) simp
    next
      case nk: False
      have a: "aligned addr" "?nl \<noteq> 0" using ck by (auto simp: aligned_def)
      let ?mid = "if flags AND MREMAP_FIXED \<noteq> 0 then do {
                  (ret, locked, s) \<leftarrow> mremap_to_task E addr ?ol new_addr ?nl s;
                  Some (ret, locked, new_addr, 0, s)
                }
                else if ?ol \<ge> ?nl then do {
                  (ret, s) \<leftarrow> do_munmap E (addr + ?nl) (?ol - ?nl) s;
                  Some (if ret \<noteq> 0 \<and> ?ol \<noteq> ?nl then ulong ret else addr, False, new_addr, 0, s)
                }
                else mremap_grow E addr ?ol ?nl flags new_addr s"
      have "\<exists>r b n c s'. ?mid = Some (r, b, n, c, s') \<and> mremap_outcome E addr ?ol ?nl flags new_addr s r s'"
      proof (cases "flags AND MREMAP_FIXED \<noteq> 0")
        case True
        obtain r b s' where "mremap_to_task E addr ?ol new_addr ?nl s = Some (r, b, s')" "fixed_outcome E addr ?ol new_addr ?nl s r s'"
          using mremap_to_task_result [OF mm(1) E(1-3) a(1) al a(2)] by blast
        then show ?thesis using True by (simp add: mremap_outcome_def)
      next
        case nf: False
        show ?thesis
        proof (cases "?ol \<ge> ?nl")
          case True
          obtain r s' where m: "do_munmap E (addr + ?nl) (?ol - ?nl) s = Some (r, s')" "mm_step E s s'" "r = 0 \<or> is_errno r"
            "plain_view (st_mm s') = (if r = 0 then clear_view (plain_view (st_mm s)) (addr + ?nl) (addr + ?nl + (?ol - ?nl)) else plain_view (st_mm s))"
            using remap_munmap [OF mm(1) E(1,3) aligned_diff [OF al True], of "addr + ?nl"] by blast
          let ?r = "if r \<noteq> 0 \<and> ?ol \<noteq> ?nl then ulong r else addr"
          have "?mid = Some (?r, False, new_addr, 0, s')" using nf True m(1) by simp
          moreover have "mremap_outcome E addr ?ol ?nl flags new_addr s ?r s'"
          proof (cases "r \<noteq> 0 \<and> ?ol \<noteq> ?nl")
            case e: True
            then have "offset_in_page (ulong r) \<noteq> 0" using m(3) ulong_err(2) [of r] by blast
            then show ?thesis using e m(2,4) by (simp add: mremap_error)
          next
            case e: False
            have "addr + ?nl + (?ol - ?nl) = addr + ?ol" by simp
            then have "plain_view (st_mm s') = clear_view (plain_view (st_mm s)) (addr + ?nl) (addr + ?ol)" using m(4) e by auto
            moreover have "offset_in_page addr = 0" using a(1) by (simp add: aligned_def)
            moreover have "?r = addr" by (rule if_not_P [OF e])
            ultimately show ?thesis using nf True m(2) unfolding mremap_outcome_def by presburger
          qed
          ultimately show ?thesis by blast
        next
          case False
          then have lt: "?ol < ?nl" by simp
          obtain r b n c s' where "mremap_grow E addr ?ol ?nl flags new_addr s = Some (r, b, n, c, s')" "grow_outcome E addr ?ol ?nl s r s'"
            using mremap_grow_result [OF mm E a(1) al lt] by blast
          then show ?thesis using nf False by (simp add: mremap_outcome_def)
        qed
      qed
      then obtain r b n c s' where m: "?mid = Some (r, b, n, c, s')" "mremap_outcome E addr ?ol ?nl flags new_addr s r s'" by blast
      have nn: "\<not> flags AND NOT (MREMAP_FIXED OR MREMAP_MAYMOVE) \<noteq> 0" "\<not> (flags AND MREMAP_FIXED \<noteq> 0 \<and> flags AND MREMAP_MAYMOVE = 0)"
        "\<not> offset_in_page addr \<noteq> 0" "\<not> ?nl = 0" using ck by blast+
      obtain pop where "?op = Some (r, pop, if offset_in_page r \<noteq> 0 then vm_unacct_memory c s' else s')"
        unfolding mremap_task_def if_not_P [OF nn(1)] if_not_P [OF nn(2)] if_not_P [OF nn(3)] Let_def if_not_P [OF nn(4)] if_not_P [OF nk] m(1)
          bind.bind_lunit prod.case by blast
      then show ?thesis using m(2) mremap_unacct [OF m(2)] by (cases "offset_in_page r = 0") auto
    qed
  qed
qed

end
