(* ===== verification/Remote_Correct.thy ===== *)
theory Remote_Correct
  imports Ptrace_Remote Mremap_Correct
begin

text \<open>
  What the remote requests promise.  The invariant \<open>kernel_ok\<close> of tracer and tracee says that their
  address spaces and descriptor tables are well-formed and that every reference they hold to a file is
  counted.  Each request always returns, keeps the invariant, leaves all other tasks' memory and
  descriptors alone and neither loses nor leaks a reference.
\<close>

unbundle bit_operations_syntax

section \<open>The invariant\<close>

definition area_refs :: "mm_struct \<Rightarrow> file_ptr \<Rightarrow> nat" where
  "area_refs mm f = length (filter (\<lambda>v. vm_file v = Some f) (mmap mm))"

text \<open>The references to a file that neither a descriptor table nor the address space \<open>m\<close> holds.\<close>

definition spare_refs :: "mm_ptr \<Rightarrow> kstate \<Rightarrow> file_ptr \<Rightarrow> int" where
  "spare_refs m k f = store_refs (files_tab k) (fheap k) f - int (area_refs (mms k m) f)"

definition remote_env_ok :: "request_env \<Rightarrow> bool" where
  "remote_env_ok R \<longleftrightarrow> mmap_env_ok (mmenv R) \<and> area_methods_ok (mmenv R) \<and> hugetlb_ok (mmenv R) \<and> remap_errno_ok (mmenv R) \<and>
     pt_env_ok (pgt (mmenv R)) \<and> prot_env_ok (mmenv R) \<and> fs_env_ok (vfs (mmenv R)) \<and>
     (\<forall>f prot fl. - 4095 \<le> security_mmap_file (mmenv R) f prot fl \<and> security_mmap_file (mmenv R) f prot fl \<le> 0)"

lemma remote_env_okD:
  assumes "remote_env_ok R"
  shows "mmap_env_ok (mmenv R)" "area_methods_ok (mmenv R)" "hugetlb_ok (mmenv R)" "remap_errno_ok (mmenv R)" "pt_env_ok (pgt (mmenv R))"
    "prot_env_ok (mmenv R)" "fs_env_ok (vfs (mmenv R))" "\<And>f prot fl. - 4095 \<le> security_mmap_file (mmenv R) f prot fl \<and> security_mmap_file (mmenv R) f prot fl \<le> 0"
    "mm_env_ok (mmenv R)" "enough_memory_ok (mmenv R)" "vfs_ok (vfs (mmenv R))"
  using assms by (auto simp: remote_env_ok_def mmap_env_ok_def mm_env_ok_def)

definition spaces_ok :: "request_env \<Rightarrow> mm_ptr \<Rightarrow> mm_ptr \<Rightarrow> kstate \<Rightarrow> bool" where
  "spaces_ok R m c k \<longleftrightarrow> mm_ok (mms k m) \<and> mm_ok (mms k c) \<and> no_hugetlb (mmenv R) (mms k m) \<and> (\<forall>f. 0 \<le> spare_refs m k f)"

definition kernel_ok :: "request_env \<Rightarrow> tid \<Rightarrow> kstate \<Rightarrow> bool" where
  "kernel_ok R child k \<longleftrightarrow>
     (case (t_mm (tasks k child), t_mm (tasks k (cur k))) of (Some m, Some c) \<Rightarrow> spaces_ok R m c k | _ \<Rightarrow> False) \<and>
     store_ok (files_tab k) (fheap k) \<and> t_files (tasks k child) \<in> dom (files_tab k) \<and> t_files (tasks k (cur k)) \<in> dom (files_tab k)"

lemma kernel_okE:
  assumes "kernel_ok R child k"
  obtains m c files cfiles where "t_mm (tasks k child) = Some m" "t_mm (tasks k (cur k)) = Some c" "spaces_ok R m c k"
    "store_ok (files_tab k) (fheap k)" "files_tab k (t_files (tasks k child)) = Some files" "files_tab k (t_files (tasks k (cur k))) = Some cfiles"
  using assms by (auto simp: kernel_ok_def split: option.splits)

definition remote_frame :: "tid \<Rightarrow> kstate \<Rightarrow> kstate \<Rightarrow> bool" where
  "remote_frame child k k' \<longleftrightarrow> tasks k' = tasks k \<and> cur k' = cur k \<and> signals k' = signals k \<and> sighands k' = sighands k \<and>
     (\<forall>x. t_mm (tasks k child) \<noteq> Some x \<longrightarrow> mms k' x = mms k x) \<and>
     (\<forall>p. p \<noteq> t_files (tasks k child) \<longrightarrow> p \<noteq> t_files (tasks k (cur k)) \<longrightarrow> files_tab k' p = files_tab k p) \<and>
     (\<forall>m f. t_mm (tasks k child) = Some m \<longrightarrow> spare_refs m k' f = spare_refs m k f)"

lemma remote_frame_refl: "remote_frame child k k"
  by (simp add: remote_frame_def)

lemma remote_frame_trans: "remote_frame child k k' \<Longrightarrow> remote_frame child k' k'' \<Longrightarrow> remote_frame child k k''"
  by (simp add: remote_frame_def)

text \<open>User memory and the record of populated ranges do not matter.\<close>

lemma kernel_ok_simps [simp]:
  "kernel_ok R child (k\<lparr>umem := um\<rparr>) = kernel_ok R child k" "kernel_ok R child (k\<lparr>populated := pl\<rparr>) = kernel_ok R child k"
  "remote_frame child k (k'\<lparr>umem := um\<rparr>) = remote_frame child k k'" "remote_frame child k (k'\<lparr>populated := pl\<rparr>) = remote_frame child k k'"
  "kernel_ok R child (log_populate m c pop k) = kernel_ok R child k" "remote_frame child k (log_populate m c pop k') = remote_frame child k k'"
proof -
  show a: "kernel_ok R child (k\<lparr>umem := um\<rparr>) = kernel_ok R child k" "kernel_ok R child (k\<lparr>populated := pl\<rparr>) = kernel_ok R child k" for pl k
    by (simp_all add: kernel_ok_def spaces_ok_def spare_refs_def split: option.splits)
  show b: "remote_frame child k (k'\<lparr>umem := um\<rparr>) = remote_frame child k k'" "remote_frame child k (k'\<lparr>populated := pl\<rparr>) = remote_frame child k k'" for pl k
    by (simp_all add: remote_frame_def spare_refs_def)
  show "kernel_ok R child (log_populate m c pop k) = kernel_ok R child k" "remote_frame child k (log_populate m c pop k') = remote_frame child k k'"
    using a(2) b(2) by (simp_all add: log_populate_def split: populate.splits)
qed

section \<open>Requests on mappings\<close>

lemma bal_area: "fst (bal E s) f = f_count (st_heap s f) - int (area_refs (st_mm s) f)"
  by (simp add: bal_def Let_def area_refs_def vma_tag_def filter_map comp_def)

lemma enter_cur:
  "spaces_ok R m c k \<Longrightarrow> mm_ok (st_mm (mm_enter m c k))" "spaces_ok R m c k \<Longrightarrow> mm_ok (cur_mm (mm_enter m c k))"
  "spaces_ok R m c k \<Longrightarrow> no_hugetlb (mmenv R) (st_mm (mm_enter m c k))" "st_mm (mm_enter m c k) = mms k m" "st_heap (mm_enter m c k) = fheap k"
  by (simp_all add: spaces_ok_def mm_enter_def cur_mm_def)

lemma mm_leave_kernel:
  assumes k: "kernel_ok R child k" "t_mm (tasks k child) = Some m" "t_mm (tasks k (cur k)) = Some c"
    and s: "mm_ok (st_mm s)" "bal E s = bal E (mm_enter m c k)" "st_cur s = st_cur (mm_enter m c k)" "mm_fixed (st_mm s) = mm_fixed (mms k m)"
  shows "kernel_ok R child (mm_leave m c s k)" "remote_frame child k (mm_leave m c s k)"
proof -
  have mms: "mms (mm_leave m c s k) = (mms k)(m := st_mm s)"
    using s(3) by (auto simp: mm_leave_def mm_enter_def fun_eq_iff split: if_splits)
  have sp: "spaces_ok R m c k" using k by (simp add: kernel_ok_def)
  have sr: "store_ok (files_tab k) (fheap k)" using k(1) by (simp add: kernel_ok_def)
  have "f_count (st_heap s f) - int (area_refs (st_mm s) f) = f_count (fheap k f) - int (area_refs (mms k m) f)" for f
    using arg_cong [OF s(2), of "\<lambda>b. fst b f"] by (simp add: bal_area enter_cur)
  then have spare: "spare_refs m (mm_leave m c s k) f = spare_refs m k f" for f
    unfolding spare_refs_def store_refs_def mms by (simp add: mm_leave_def algebra_simps)
  have "0 \<le> store_refs (files_tab k) (st_heap s) f" for f
    using spare [of f] sp unfolding spaces_ok_def spare_refs_def mms by (simp add: mm_leave_def) (smt (verit) of_nat_0_le_iff)
  then have st: "store_ok (files_tab k) (st_heap s)" using sr by (simp add: store_ok_def)
  have "no_hugetlb (mmenv R) (st_mm s)" using sp s(4) by (simp add: spaces_ok_def no_hugetlb_def mm_fixed_def)
  then have "spaces_ok R m c (mm_leave m c s k)" using sp s(1) spare unfolding spaces_ok_def mms by simp
  then show "kernel_ok R child (mm_leave m c s k)" using k st unfolding kernel_ok_def by (simp add: mm_leave_def)
  show "remote_frame child k (mm_leave m c s k)" using spare k(2) unfolding remote_frame_def mms by (simp add: mm_leave_def)
qed

lemma mm_step_leave:
  assumes "kernel_ok R child k" "t_mm (tasks k child) = Some m" "t_mm (tasks k (cur k)) = Some c" "mm_step E (mm_enter m c k) s"
  shows "kernel_ok R child (mm_leave m c s k)" "remote_frame child k (mm_leave m c s k)"
  using mm_leave_kernel [OF assms(1-3), of s E] assms(4) by (simp_all add: mm_step_def enter_cur)

lemma grow_step_leave:
  assumes "kernel_ok R child k" "t_mm (tasks k child) = Some m" "t_mm (tasks k (cur k)) = Some c" "grow_step E n (mm_enter m c k) s"
  shows "kernel_ok R child (mm_leave m c s k)" "remote_frame child k (mm_leave m c s k)"
  using mm_leave_kernel [OF assms(1-3), of s E] grow_stepD [OF assms(4)] by (simp_all add: enter_cur)

text \<open>What each request promises; a request that cannot read its arguments changes nothing.\<close>

definition request_safe :: "request_env \<Rightarrow> tid \<Rightarrow> kstate \<Rightarrow> (int \<times> kstate) option \<Rightarrow> bool" where
  "request_safe R child k res \<longleftrightarrow> (\<exists>r k'. res = Some (r, k') \<and> kernel_ok R child k' \<and> remote_frame child k k')"

lemma request_safe_same: "kernel_ok R child k \<Longrightarrow> request_safe R child k (Some (r, k))"
  by (simp add: request_safe_def remote_frame_refl)

lemma remote_mmap_safe:
  assumes R: "remote_env_ok R" and k: "kernel_ok R child k"
  shows "request_safe R child k (ptrace_remote_mmap R child data k)"
proof (cases "copy_struct 40 get_mmap (umem k) data")
  case None
  then show ?thesis using request_safe_same [OF k] by (simp add: ptrace_remote_mmap_def)
next
  case (Some a)
  note Re = remote_env_okD [OF R]
  obtain m c files cf where o: "t_mm (tasks k child) = Some m" "t_mm (tasks k (cur k)) = Some c" "spaces_ok R m c k"
    "store_ok (files_tab k) (fheap k)" "files_tab k (t_files (tasks k (cur k))) = Some cf" by (rule kernel_okE [OF k])
  have cf: "files_ok cf" "refs_ok cf (st_heap (mm_enter m c k))" using store_okD(2,3) [OF o(4,5)] by (simp_all add: enter_cur)
  obtain r pop s where s: "do_mmap_remote (mmenv R) cf (personality (tasks k child)) (mmap_addr a) (mmap_length a)
       (ucast (mmap_prot a)) (ucast (mmap_flags a)) (ucast (mmap_fd a)) (mmap_offset a) (mm_enter m c k) = Some (r, pop, s)"
    "mm_step (mmenv R) (mm_enter m c k) s"
    using do_mmap_remote_result [OF enter_cur(1,2) [OF o(3)] Re(1,2,3) enter_cur(3) [OF o(3)] Re(8) cf]
    unfolding remote_mmap_outcome_def by blast
  note l = mm_step_leave [OF k o(1,2) s(2)]
  then show ?thesis using s(1) Some o by (auto simp: ptrace_remote_mmap_def request_safe_def Let_def split: prod.split)
qed

lemma remote_munmap_safe:
  assumes R: "remote_env_ok R" and k: "kernel_ok R child k"
  shows "request_safe R child k (ptrace_remote_munmap R child data k)"
proof (cases "copy_struct 16 get_munmap (umem k) data")
  case None
  then show ?thesis using request_safe_same [OF k] by (simp add: ptrace_remote_munmap_def)
next
  case (Some a)
  note Re = remote_env_okD [OF R]
  obtain m c where o: "t_mm (tasks k child) = Some m" "t_mm (tasks k (cur k)) = Some c" "spaces_ok R m c k" by (rule kernel_okE [OF k])
  obtain r s where s: "do_munmap (mmenv R) (munmap_addr a) (munmap_length a) (mm_enter m c k) = Some (r, s)" "mm_step (mmenv R) (mm_enter m c k) s"
    using do_munmap_result [OF enter_cur(1) [OF o(3)] Re(9)] by blast
  then show ?thesis using Some o mm_step_leave [OF k o(1,2) s(2)] request_safe_same [OF k]
    by (auto simp: ptrace_remote_munmap_def request_safe_def)
qed

lemma remote_mremap_safe:
  assumes R: "remote_env_ok R" and k: "kernel_ok R child k"
  shows "request_safe R child k (ptrace_remote_mremap R child data k)"
proof (cases "copy_struct 40 get_mremap (umem k) data")
  case None
  then show ?thesis using request_safe_same [OF k] by (simp add: ptrace_remote_mremap_def)
next
  case (Some a)
  note Re = remote_env_okD [OF R]
  obtain m c where o: "t_mm (tasks k child) = Some m" "t_mm (tasks k (cur k)) = Some c" "spaces_ok R m c k" by (rule kernel_okE [OF k])
  obtain r pop s where s: "mremap_task (mmenv R) (mremap_old_addr a) (mremap_old_size a) (mremap_new_size a)
       (ucast (mremap_flags a)) (mremap_new_addr a) (mm_enter m c k) = Some (r, pop, s)"
    "mremap_outcome (mmenv R) (mremap_old_addr a) (PAGE_ALIGN (mremap_old_size a)) (PAGE_ALIGN (mremap_new_size a))
       (ucast (mremap_flags a)) (mremap_new_addr a) (mm_enter m c k) r s"
    using mremap_task_result [OF enter_cur(1,2) [OF o(3)] Re(9,10,4,2)] by blast
  have "grow_step (mmenv R) (PAGE_ALIGN (mremap_new_size a)) (mm_enter m c k) s"
    using s(2) grow_step_mm by (auto simp: mremap_outcome_def fixed_outcome_def grow_outcome_def split: if_splits)
  note l = grow_step_leave [OF k o(1,2) this]
  then show ?thesis using s(1) Some o by (auto simp: ptrace_remote_mremap_def request_safe_def Let_def split: prod.split)
qed

lemma remote_mprotect_safe:
  assumes R: "remote_env_ok R" and k: "kernel_ok R child k"
  shows "request_safe R child k (ptrace_remote_mprotect R child data k)"
proof (cases "copy_struct 24 get_mprotect (umem k) data")
  case None
  then show ?thesis using request_safe_same [OF k] by (simp add: ptrace_remote_mprotect_def)
next
  case (Some a)
  note Re = remote_env_okD [OF R]
  obtain m c where o: "t_mm (tasks k child) = Some m" "t_mm (tasks k (cur k)) = Some c" "spaces_ok R m c k" by (rule kernel_okE [OF k])
  obtain r pops s where s: "mprotect_task (mmenv R) (personality (tasks k child)) (mprotect_addr a) (mprotect_length a)
       (ucast (mprotect_prot a)) (mm_enter m c k) = Some (r, pops, s)" "mm_step (mmenv R) (mm_enter m c k) s"
    using do_mprotect_pkey_task_result [OF enter_cur(1) [OF o(3)] Re(9,10,5,6)] unfolding mprotect_task_def by blast
  then show ?thesis using Some o mm_step_leave [OF k o(1,2) s(2)] by (auto simp: ptrace_remote_mprotect_def request_safe_def)
qed

section \<open>Requests on descriptors\<close>

text \<open>What all the descriptor tables of the system map.\<close>

definition tables :: "kstate \<Rightarrow> files_ptr \<Rightarrow> descriptor_map option" where
  "tables k p = map_option (\<lambda>files. descriptors (fdt files)) (files_tab k p)"

lemma files_kernel:
  assumes k: "kernel_ok R child k" and p: "p = t_files (tasks k child) \<or> p = t_files (tasks k (cur k))" "files_tab k p = Some files"
    and st: "store_ok ((files_tab k)(p \<mapsto> files')) h" "\<And>f. store_refs ((files_tab k)(p \<mapsto> files')) h f = store_refs (files_tab k) (fheap k) f"
  shows "kernel_ok R child (k\<lparr>files_tab := (files_tab k)(p \<mapsto> files'), fheap := h\<rparr>)"
    "remote_frame child k (k\<lparr>files_tab := (files_tab k)(p \<mapsto> files'), fheap := h\<rparr>)"
proof -
  let ?k = "k\<lparr>files_tab := (files_tab k)(p \<mapsto> files'), fheap := h\<rparr>"
  obtain m c cf ff where o: "t_mm (tasks k child) = Some m" "t_mm (tasks k (cur k)) = Some c" "spaces_ok R m c k"
    "files_tab k (t_files (tasks k child)) = Some ff" "files_tab k (t_files (tasks k (cur k))) = Some cf" by (rule kernel_okE [OF k])
  have spare: "spare_refs m ?k f = spare_refs m k f" for m f using st(2) by (simp add: spare_refs_def)
  have "spaces_ok R m c ?k" using o(3) spare unfolding spaces_ok_def by simp
  then show "kernel_ok R child ?k" using o st(1) by (auto simp: kernel_ok_def)
  show "remote_frame child k ?k" using spare p(1) by (auto simp: remote_frame_def)
qed

text \<open>Reserving a descriptor for a file whose reference is at hand, and installing it or dropping the reference.\<close>

lemma dup_store_cases:
  assumes E: "fs_env_ok E" "vfs_ok E" and st: "store_ok fs h" and p: "fs p = Some files"
  obtains (fail) r files' where "raw_alloc_fd E files 0 n flags = Some (r, files')" "r < 0" "r \<in> {- EMFILE, - ENOMEM}"
      "descriptors (fdt files') = descriptors (fdt files)" "store_ok (fs(p \<mapsto> files')) (fput E f (get_file f h))"
      "\<And>g. store_refs (fs(p \<mapsto> files')) (fput E f (get_file f h)) g = store_refs fs h g"
  | (success) fd s files' where "raw_alloc_fd E files 0 n flags = Some (int fd, s)" "fd < n" "lowest_free (descriptors (fdt files)) 0 fd"
      "raw_fd_install E s fd f = Some files'" "descriptors (fdt files') = (descriptors (fdt files))(fd \<mapsto> (Some f, flags AND O_CLOEXEC \<noteq> 0))"
      "store_ok (fs(p \<mapsto> files')) (get_file f h)" "\<And>g. store_refs (fs(p \<mapsto> files')) (get_file f h) g = store_refs fs h g"
proof -
  note ok = store_okD [OF st p]
  from E(1) ok(2) have "fs_env_ok E \<and> files_ok files" ..
  then show thesis
  proof (cases rule: files.alloc_install_cases [where start = 0 and fend = n and flags = flags and f = f])
    case (fail r s')
    have ok': "files_ok s'" using fail by simp
    have "other_refs s' (fput E f (get_file f h)) g = other_refs files h g" for g
      using other_refs_same [OF ok(2) ok' fail(5), of "fput E f (get_file f h)" g h] vfs_okD(1) [OF E(2), of f "get_file f h" g] by auto
    then show thesis using that(1) [of r s'] fail store_ok_upd [OF st p ok', of "fput E f (get_file f h)"] by blast
  next
    case (success fd s' s'')
    have ok'': "files_ok s''" using success by simp
    have "descriptors (fdt files) fd = None" using success(3) by (auto simp: lowest_free_def)
    then have "other_refs s'' (get_file f h) g = other_refs files h g" for g
      using other_refs_upd [OF ok(2) ok'' success(6), of "get_file f h" g h] by auto
    then show thesis using that(2) [of fd s' s''] success store_ok_upd [OF st p ok'', of "get_file f h"] by blast
  qed
qed

lemma tables_upd: "tables (k\<lparr>files_tab := (files_tab k)(p \<mapsto> files), fheap := h\<rparr>) = (tables k)(p \<mapsto> descriptors (fdt files))"
  by (auto simp: tables_def fun_eq_iff)

lemma tables_same: "files_tab k p = Some files \<Longrightarrow> descriptors (fdt files') = descriptors (fdt files) \<Longrightarrow>
    tables (k\<lparr>files_tab := (files_tab k)(p \<mapsto> files'), fheap := h\<rparr>) = tables k"
  by (auto simp: tables_def fun_eq_iff)

text \<open>The outcome of duplicating the file of descriptor \<open>fd\<close> of table \<open>p\<close> into table \<open>q\<close>.\<close>

definition dup_outcome :: "request_env \<Rightarrow> files_ptr \<Rightarrow> nat \<Rightarrow> files_ptr \<Rightarrow> 32 word \<Rightarrow> kstate \<Rightarrow> int \<Rightarrow> kstate \<Rightarrow> bool" where
  "dup_outcome R p fd q flags k r k' \<longleftrightarrow> mms k' = mms k \<and> umem k' = umem k \<and>
     (if r < 0 then r \<in> {- EINVAL, - EBADF, - EMFILE, - ENOMEM} \<and> tables k' = tables k
      else flags AND NOT O_CLOEXEC = 0 \<and> (\<exists>f D. local_file (files_tab k) p fd = Some f \<and> tables k q = Some D \<and>
        r < int (u32 (rlimit_nofile R)) \<and> lowest_free D 0 (nat r) \<and> tables k' = (tables k)(q \<mapsto> D(nat r \<mapsto> (Some f, flags AND O_CLOEXEC \<noteq> 0)))))"

lemma local_file_fcheck: "files_ok files \<Longrightarrow> fs p = Some files \<Longrightarrow> local_file fs p fd = raw_fcheck_files files fd"
  by (simp add: local_file_def raw_fcheck_files_descriptors)

lemma dup_to_remote_result:
  assumes R: "remote_env_ok R" and k: "kernel_ok R child k" and a: "copy_struct 8 get_dup_to (umem k) data = Some a"
  shows "\<exists>r k'. ptrace_dup_to_remote R child data k = Some (r, k') \<and> kernel_ok R child k' \<and> remote_frame child k k' \<and>
    dup_outcome R (t_files (tasks k (cur k))) (unat (dup_to_local_fd a)) (t_files (tasks k child)) (dup_to_flags a) k r k'"
proof (cases "dup_to_flags a AND NOT O_CLOEXEC = 0")
  case False
  then show ?thesis using a k by (auto simp: ptrace_dup_to_remote_def remote_frame_refl dup_outcome_def)
next
  case fl: True
  note Re = remote_env_okD [OF R]
  let ?E = "vfs (mmenv R)" and ?q = "t_files (tasks k child)" and ?p = "t_files (tasks k (cur k))" and ?fd = "unat (dup_to_local_fd a)"
  obtain m c cf ff where o: "store_ok (files_tab k) (fheap k)" "files_tab k ?q = Some ff" "files_tab k ?p = Some cf" by (rule kernel_okE [OF k])
  note ok = store_okD [OF o(1) o(3)]
  note get = fget_raw_result [OF ok(2,3), of ?fd]
  show ?thesis
  proof (cases "raw_fcheck_files cf ?fd")
    case None
    then show ?thesis using a fl k get o
      by (auto simp: ptrace_dup_to_remote_def remote_frame_refl dup_outcome_def)
  next
    case (Some f)
    have lf: "local_file (files_tab k) ?p ?fd = Some f" using Some local_file_fcheck [OF ok(2), of "files_tab k" ?p, OF o(3)] by simp
    show ?thesis using Re(7,11) o(1,2)
    proof (cases rule: dup_store_cases [where n = "u32 (rlimit_nofile R)" and flags = "dup_to_flags a" and f = f])
      case (fail r files')
      then show ?thesis using a fl get o Some files_kernel [OF k disjI1 [OF refl] o(2) fail(5,6)] tables_same [OF o(2) fail(4)]
        by (auto simp: ptrace_dup_to_remote_def dup_outcome_def)
    next
      case (success fd s files')
      have "tables k ?q = Some (descriptors (fdt ff))" using o(2) by (simp add: tables_def)
      then show ?thesis using a fl get o Some lf success(1-5) files_kernel [OF k disjI1 [OF refl] o(2) success(6,7)]
        by (auto simp: ptrace_dup_to_remote_def dup_outcome_def tables_upd)
    qed
  qed
qed

lemma dup_from_remote_result:
  assumes R: "remote_env_ok R" and k: "kernel_ok R child k" and a: "copy_struct 8 get_dup_from (umem k) data = Some a"
  shows "\<exists>r k'. ptrace_dup_from_remote R child data k = Some (r, k') \<and> kernel_ok R child k' \<and> remote_frame child k k' \<and>
    dup_outcome R (t_files (tasks k child)) (unat (dup_from_remote_fd a)) (t_files (tasks k (cur k))) (dup_from_flags a) k r k'"
proof (cases "dup_from_flags a AND NOT O_CLOEXEC = 0")
  case False
  then show ?thesis using a k by (auto simp: ptrace_dup_from_remote_def remote_frame_refl dup_outcome_def)
next
  case fl: True
  note Re = remote_env_okD [OF R]
  let ?E = "vfs (mmenv R)" and ?p = "t_files (tasks k child)" and ?q = "t_files (tasks k (cur k))" and ?fd = "unat (dup_from_remote_fd a)"
  obtain m c cf ff where o: "store_ok (files_tab k) (fheap k)" "files_tab k ?q = Some ff" "files_tab k ?p = Some cf" by (rule kernel_okE [OF k])
  note ok = store_okD [OF o(1) o(3)]
  note get = raw_fget_files_result [OF ok(2,3), of ?fd FMODE_PATH, folded fget_files_def]
  show ?thesis
  proof (cases "\<exists>f. raw_fcheck_files cf ?fd = Some f \<and> f_mode (fheap k f) AND FMODE_PATH = 0")
    case False
    then have "fget_files cf (fheap k) ?fd = Some (None, fheap k)" using get by (auto split: option.splits)
    then show ?thesis using a fl k o
      by (auto simp: ptrace_dup_from_remote_def remote_frame_refl dup_outcome_def)
  next
    case True
    then obtain f where f: "raw_fcheck_files cf ?fd = Some f" "fget_files cf (fheap k) ?fd = Some (Some f, get_file f (fheap k))"
      using get by auto
    have lf: "local_file (files_tab k) ?p ?fd = Some f" using f(1) local_file_fcheck [OF ok(2), of "files_tab k" ?p, OF o(3)] by simp
    show ?thesis using Re(7,11) o(1,2)
    proof (cases rule: dup_store_cases [where n = "u32 (rlimit_nofile R)" and flags = "dup_from_flags a" and f = f])
      case (fail r files')
      then show ?thesis using a fl f(2) o files_kernel [OF k disjI2 [OF refl] o(2) fail(5,6)] tables_same [OF o(2) fail(4)]
        by (auto simp: ptrace_dup_from_remote_def dup_outcome_def get_unused_fd_flags_def)
    next
      case (success fd s files')
      have "tables k ?q = Some (descriptors (fdt ff))" using o(2) by (simp add: tables_def)
      then show ?thesis using a fl f(2) o lf success(1-5) files_kernel [OF k disjI2 [OF refl] o(2) success(6,7)]
        by (auto simp: ptrace_dup_from_remote_def dup_outcome_def get_unused_fd_flags_def fd_install_def tables_upd)
    qed
  qed
qed

lemma dup2_to_remote_result:
  assumes R: "remote_env_ok R" and k: "kernel_ok R child k" and a: "copy_struct 12 get_dup2 (umem k) data = Some a"
  shows "\<exists>r k'. ptrace_dup2_to_remote R child data k = Some (r, k') \<and> kernel_ok R child k' \<and> remote_frame child k k'"
proof -
  note Re = remote_env_okD [OF R]
  let ?q = "t_files (tasks k child)" and ?p = "t_files (tasks k (cur k))"
  obtain m c cf ff where o: "store_ok (files_tab k) (fheap k)" "files_tab k ?q = Some ff" "files_tab k ?p = Some cf" by (rule kernel_okE [OF k])
  show ?thesis
  proof (cases "dup2_flags a AND NOT O_CLOEXEC = 0 \<and> unat (dup2_remote_fd a) < rlimit_nofile R")
    case False
    then show ?thesis using a k by (auto simp: ptrace_dup2_to_remote_def do_dup2_to_remote_def remote_frame_refl not_less)
  next
    case True
    obtain r files' h' where
      d: "do_dup2_to_remote (vfs (mmenv R)) (rlimit_nofile R) ?p ?q (files_tab k) (fheap k) (unat (dup2_local_fd a)) (unat (dup2_remote_fd a)) (dup2_flags a) =
          Some (r, (files_tab k)(?q \<mapsto> files'), h')"
      "store_ok ((files_tab k)(?q \<mapsto> files')) h'" "\<And>g. store_refs ((files_tab k)(?q \<mapsto> files')) h' g = store_refs (files_tab k) (fheap k) g"
      using do_dup2_to_remote_result [OF Re(7,11) o True [THEN conjunct1] True [THEN conjunct2]] by metis
    then show ?thesis using a files_kernel [OF k disjI1 [OF refl] o(2) d(2,3)] by (auto simp: ptrace_dup2_to_remote_def)
  qed
qed

lemma remote_close_result:
  assumes R: "remote_env_ok R" and k: "kernel_ok R child k" and a: "copy_struct 4 get_close (umem k) data = Some a"
  shows "\<exists>r k' D. ptrace_remote_close R child data k = Some (r, k') \<and> kernel_ok R child k' \<and> remote_frame child k k' \<and>
    mms k' = mms k \<and> umem k' = umem k \<and> tables k (t_files (tasks k child)) = Some D \<and>
    (if local_file (files_tab k) (t_files (tasks k child)) (unat (close_remote_fd a)) = None then r = - EBADF \<and> tables k' = tables k
     else tables k' = (tables k)(t_files (tasks k child) \<mapsto> D(unat (close_remote_fd a) := None)))"
proof -
  note Re = remote_env_okD [OF R]
  let ?q = "t_files (tasks k child)" and ?fd = "unat (close_remote_fd a)"
  obtain m c cf ff where o: "store_ok (files_tab k) (fheap k)" "files_tab k ?q = Some ff" by (rule kernel_okE [OF k])
  note ok = store_okD [OF o]
  obtain r files' h' where c: "raw_close_fd (vfs (mmenv R)) ff (fheap k) ?fd = (r, files', h')" by (metis prod_cases3)
  note cl = raw_close_fd_refs [OF Re(11) ok(2,3) c]
  have st: "store_ok ((files_tab k)(?q \<mapsto> files')) h'" "\<And>g. store_refs ((files_tab k)(?q \<mapsto> files')) h' g = store_refs (files_tab k) (fheap k) g"
    using store_ok_upd [OF o cl(1), of h'] cl(2) by blast+
  have "raw_fcheck_files ff ?fd = None \<Longrightarrow> r = - EBADF" using raw_close_fd_bad [OF ok(2), of ?fd "vfs (mmenv R)" "fheap k"] c by simp
  moreover have "tables k ?q = Some (descriptors (fdt ff))" using o(2) by (simp add: tables_def)
  ultimately show ?thesis
    using a c o files_kernel [OF k disjI1 [OF refl] o(2) st] cl(3) local_file_fcheck [OF ok(2), of "files_tab k" ?q ?fd, OF o(2)] tables_same [OF o(2), of files' h']
    by (auto simp: ptrace_remote_close_def tables_upd)
qed

lemma descriptor_requests_safe:
  assumes R: "remote_env_ok R" and k: "kernel_ok R child k"
  shows "request_safe R child k (ptrace_dup_to_remote R child data k)" "request_safe R child k (ptrace_dup2_to_remote R child data k)"
    "request_safe R child k (ptrace_dup_from_remote R child data k)" "request_safe R child k (ptrace_remote_close R child data k)"
proof -
  note s = request_safe_same [OF k]
  show "request_safe R child k (ptrace_dup_to_remote R child data k)"
  proof (cases "copy_struct 8 get_dup_to (umem k) data")
    case None
    then show ?thesis using s by (simp add: ptrace_dup_to_remote_def)
  next
    case (Some a)
    show ?thesis using dup_to_remote_result [OF R k Some] unfolding request_safe_def by blast
  qed
  show "request_safe R child k (ptrace_dup2_to_remote R child data k)"
  proof (cases "copy_struct 12 get_dup2 (umem k) data")
    case None
    then show ?thesis using s by (simp add: ptrace_dup2_to_remote_def)
  next
    case (Some a)
    show ?thesis using dup2_to_remote_result [OF R k Some] unfolding request_safe_def by blast
  qed
  show "request_safe R child k (ptrace_dup_from_remote R child data k)"
  proof (cases "copy_struct 8 get_dup_from (umem k) data")
    case None
    then show ?thesis using s by (simp add: ptrace_dup_from_remote_def)
  next
    case (Some a)
    show ?thesis using dup_from_remote_result [OF R k Some] unfolding request_safe_def by blast
  qed
  show "request_safe R child k (ptrace_remote_close R child data k)"
  proof (cases "copy_struct 4 get_close (umem k) data")
    case None
    then show ?thesis using s by (simp add: ptrace_remote_close_def)
  next
    case (Some a)
    show ?thesis using remote_close_result [OF R k Some] unfolding request_safe_def by blast
  qed
qed

section \<open>A remote mapping\<close>

lemma int_of_err:
  assumes "IS_ERR_VALUE w"
  shows "- 4095 \<le> int_of_ulong w" "int_of_ulong w < 0"
proof -
  define e where "e = uint w - 2 ^ 64"
  have "uint w < 2 ^ 64" using uint_lt2p [of w] by simp
  moreover have "18446744073709547521 \<le> uint w" using assms by (simp add: IS_ERR_VALUE_def word_le_def)
  ultimately have e: "- 4095 \<le> e" "e < 0" by (simp_all add: e_def)
  have w: "w = word_of_int e"
  proof -
    have "word_of_int e = (word_of_int (uint w) :: 64 word) - word_of_int (2 ^ 64)" unfolding e_def by (simp only: of_int_diff)
    moreover have "(word_of_int (2 ^ 64) :: 64 word) = 0" by simp
    ultimately show ?thesis by simp
  qed
  have "(ucast w :: 32 word) = word_of_int e" unfolding w by (rule bit_word_eqI) (simp add: bit_simps)
  then have "int_of_ulong w = signed_take_bit 31 e" by (simp add: int_of_ulong_def signed_of_int)
  also have "\<dots> = e" by (rule signed_take_bit_int_eq_self) (use e in simp_all)
  finally show "- 4095 \<le> int_of_ulong w" "int_of_ulong w < 0" using e by simp_all
qed

text \<open>
  The area that a successful request has made: what was asked for in the file of the tracer's descriptor
  or, if no file was asked for, in memory, and every other page as before.
\<close>

definition mapped_remotely ::
    "request_env \<Rightarrow> ptrace_remote_mmap_args \<Rightarrow> files_struct \<Rightarrow> 64 word \<Rightarrow> mm_struct \<Rightarrow> mm_struct \<Rightarrow> 64 word \<Rightarrow> mm_struct \<Rightarrow> bool" where
  "mapped_remotely R a cf pers tracer mm addr mm' \<longleftrightarrow>
     offset_in_page addr = 0 \<and>
     (\<exists>f l fl g pg. request_file cf (ucast (mmap_flags a)) (ucast (mmap_fd a)) f \<and> request_len (mmenv R) (ucast (mmap_flags a)) f (mmap_length a) l \<and>
        (f \<noteq> None \<longrightarrow> g = f \<and> pg = drop_bit 12 (mmap_offset a)) \<and>
        fl AND 7 = mmap_prot_of (mmenv R) pers f (ucast (mmap_prot a)) AND 7 \<and>
        mm_view mm' = set_view (mm_view mm) addr (addr + PAGE_ALIGN l) (range_attr addr fl g pg) \<and>
        ((ucast (mmap_flags a) :: 64 word) AND MAP_FIXED = 0 \<longrightarrow> range_free tracer addr (PAGE_ALIGN l)))"

lemma remote_outcome_mapped:
  assumes o: "remote_mmap_outcome (mmenv R) cf pers (mmap_length a) (ucast (mmap_prot a)) (ucast (mmap_flags a)) (ucast (mmap_fd a)) (mmap_offset a) s r s'"
    and r: "\<not> IS_ERR_VALUE r"
  shows "mapped_remotely R a cf pers (cur_mm s) (st_mm s) r (st_mm s')"
proof -
  have off: "offset_in_page r = 0" using o r unfolding remote_mmap_outcome_def by presburger
  then obtain f l fl pg where f: "request_file cf (ucast (mmap_flags a)) (ucast (mmap_fd a)) f" "request_len (mmenv R) (ucast (mmap_flags a)) f (mmap_length a) l"
    "fl AND 7 = mmap_prot_of (mmenv R) pers f (ucast (mmap_prot a)) AND 7"
    "f \<noteq> None \<longrightarrow> pg = drop_bit 12 (mmap_offset a)" "mapped_new f r (PAGE_ALIGN l) fl pg s s'"
    "(ucast (mmap_flags a) :: 64 word) AND MAP_FIXED = 0 \<longrightarrow> range_free (cur_mm s) r (PAGE_ALIGN l)"
    using o unfolding remote_mmap_outcome_def by auto
  then obtain fl' g where g: "mm_view (st_mm s') = set_view (mm_view (st_mm s)) r (r + PAGE_ALIGN l) (range_attr r fl' g pg)"
    "fl' AND VM_KEPT = fl AND VM_KEPT" "f \<noteq> None \<longrightarrow> g = f" unfolding mapped_new_def by (auto split: option.splits)
  have "fl' AND 7 = (fl' AND VM_KEPT) AND 7" "fl AND 7 = (fl AND VM_KEPT) AND 7" by (simp_all add: and.assoc)
  then have "fl' AND 7 = fl AND 7" using g(2) by simp
  then show ?thesis
    using off f g unfolding mapped_remotely_def by (intro conjI exI [of _ f] exI [of _ l] exI [of _ fl'] exI [of _ g] exI [of _ pg]) simp_all
qed

lemma remote_mmap_result:
  assumes R: "remote_env_ok R" and k: "kernel_ok R child k" and a: "copy_struct 40 get_mmap (umem k) data = Some a"
    and t: "t_mm (tasks k child) = Some m" "t_mm (tasks k (cur k)) = Some c" "files_tab k (t_files (tasks k (cur k))) = Some cf"
  shows "\<exists>r k'. ptrace_remote_mmap R child data k = Some (r, k') \<and> kernel_ok R child k' \<and> remote_frame child k k' \<and> files_tab k' = files_tab k \<and>
    (if r = 0 then \<exists>addr. user_bytes (umem k') data 8 = put_u64 addr \<and>
         mapped_remotely R a cf (personality (tasks k child)) (mms k c) (mms k m) addr (mms k' m)
     else r < 0 \<and> (mm_view (mms k' m) = mm_view (mms k m) \<or> (\<exists>x y. mm_view (mms k' m) = clear_view (mm_view (mms k m)) x y) \<or>
         r = - EFAULT \<and> (\<exists>addr. mapped_remotely R a cf (personality (tasks k child)) (mms k c) (mms k m) addr (mms k' m)))) \<and>
    (\<forall>x. (\<forall>i<8. x \<noteq> data + of_nat i) \<longrightarrow> um_byte (umem k') x = um_byte (umem k) x)"
proof -
  note Re = remote_env_okD [OF R]
  have o: "spaces_ok R m c k" "store_ok (files_tab k) (fheap k)" using k t by (simp_all add: kernel_ok_def)
  have cf: "files_ok cf" "refs_ok cf (st_heap (mm_enter m c k))" using store_okD(2,3) [OF o(2) t(3)] by (simp_all add: enter_cur)
  obtain r pop s where s: "do_mmap_remote (mmenv R) cf (personality (tasks k child)) (mmap_addr a) (mmap_length a)
       (ucast (mmap_prot a)) (ucast (mmap_flags a)) (ucast (mmap_fd a)) (mmap_offset a) (mm_enter m c k) = Some (r, pop, s)"
    "remote_mmap_outcome (mmenv R) cf (personality (tasks k child)) (mmap_length a) (ucast (mmap_prot a)) (ucast (mmap_flags a)) (ucast (mmap_fd a)) (mmap_offset a)
       (mm_enter m c k) r s"
    using do_mmap_remote_result [OF enter_cur(1,2) [OF o(1)] Re(1,2,3) enter_cur(3) [OF o(1)] Re(8) cf] by blast
  have st: "mm_step (mmenv R) (mm_enter m c k) s" using s(2) by (simp add: remote_mmap_outcome_def)
  note l = mm_step_leave [OF k t(1,2) st]
  let ?k = "log_populate m c pop (mm_leave m c s k)"
  have cur: "cur_mm (mm_enter m c k) = mms k c" by (simp add: cur_mm_def mm_enter_def)
  have mk: "mms ?k m = st_mm s" "files_tab ?k = files_tab k" "umem ?k = umem k"
    by (simp_all add: log_populate_def mm_leave_def split: populate.split)
  show ?thesis
  proof (cases "IS_ERR_VALUE r")
    case True
    then have "ptrace_remote_mmap R child data k = Some (int_of_ulong r, ?k)" using s(1) a t by (simp add: ptrace_remote_mmap_def)
    moreover have "mm_view (st_mm s) = mm_view (mms k m) \<or> (\<exists>x y. mm_view (st_mm s) = clear_view (mm_view (mms k m)) x y)"
      using s(2) err_value_offset [OF True] by (simp add: remote_mmap_outcome_def enter_cur)
    ultimately show ?thesis using l int_of_err [OF True] mk by auto
  next
    case False
    obtain ok um where um: "copy_to_user (umem k) data (put_u64 r) = (ok, um)" by (meson surj_pair)
    have p: "ptrace_remote_mmap R child data k = Some (if ok then 0 else - EFAULT, ?k\<lparr>umem := um\<rparr>)"
      using False s(1) a t um mk(3) by (simp add: ptrace_remote_mmap_def Let_def)
    have mp: "mapped_remotely R a cf (personality (tasks k child)) (mms k c) (mms k m) r (st_mm s)"
      using remote_outcome_mapped [OF s(2) False] by (simp add: cur enter_cur)
    have b: "ok \<Longrightarrow> user_bytes um data 8 = put_u64 r"
      using copy_to_user_bytes [of "put_u64 r" "umem k" data] um by simp
    have "um_byte um x = um_byte (umem k) x" if "\<forall>i<8. x \<noteq> data + of_nat i" for x
      using copy_to_user_outside [of "put_u64 r" x data "umem k"] um that by simp
    then show ?thesis using p l mk mp b by (cases ok) auto
  qed
qed

section \<open>The system call\<close>

text \<open>A tracee of the current task that is stopped and can be frozen for a request.\<close>

definition stopped_tracee :: "tid \<Rightarrow> kstate \<Rightarrow> bool" where
  "stopped_tracee child k \<longleftrightarrow>
     t_ptrace (tasks k child) \<noteq> 0 \<and> parent (tasks k child) = cur k \<and> task_is_traced (tasks k child) \<and>
     \<not> raw_fatal_signal_pending (tasks k child) \<and> t_jobctl (tasks k child) AND JOBCTL_LISTENING = 0 \<and> 0 < t_usage (tasks k child)"

text \<open>The tracee while the request runs: frozen and with one more reference.\<close>

definition held :: "tid \<Rightarrow> kstate \<Rightarrow> kstate" where
  "held child k = upd_task child (\<lambda>t. t\<lparr>t_usage := t_usage t + 1, t_state := raw_TASK_TRACED\<rparr>) k"

definition stopped_again :: "tid \<Rightarrow> kstate \<Rightarrow> tid \<Rightarrow> task_struct" where
  "stopped_again child k = (tasks k)(child := (tasks k child)\<lparr>t_state := TASK_TRACED\<rparr>)"

lemma held_simps [simp]:
  "cur (held c k) = cur k" "signals (held c k) = signals k" "sighands (held c k) = sighands k" "files_tab (held c k) = files_tab k"
  "fheap (held c k) = fheap k" "mms (held c k) = mms k" "umem (held c k) = umem k" "spaces (held c k) = spaces k"
  "committed_as (held c k) = committed_as k" "populated (held c k) = populated k"
  "t_mm (tasks (held c k) t) = t_mm (tasks k t)" "t_files (tasks (held c k) t) = t_files (tasks k t)" "personality (tasks (held c k) t) = personality (tasks k t)"
  by (simp_all add: held_def)

lemma kernel_ok_cong:
  assumes "\<And>t. t_mm (tasks k' t) = t_mm (tasks k t)" "\<And>t. t_files (tasks k' t) = t_files (tasks k t)" "cur k' = cur k" "mms k' = mms k"
    "files_tab k' = files_tab k" "fheap k' = fheap k"
  shows "kernel_ok R child k' = kernel_ok R child k"
proof -
  have "spaces_ok R m c k' = spaces_ok R m c k" for m c using assms by (simp add: spaces_ok_def spare_refs_def)
  then show ?thesis using assms by (simp add: kernel_ok_def split: option.split)
qed

lemma kernel_ok_held: "kernel_ok R child (held c k) = kernel_ok R child k"
  by (rule kernel_ok_cong) simp_all

text \<open>What the system call leaves: the state of the tracee apart, only what the request did.\<close>

definition call_safe :: "request_env \<Rightarrow> tid \<Rightarrow> kstate \<Rightarrow> kstate \<Rightarrow> bool" where
  "call_safe R child k k' \<longleftrightarrow> kernel_ok R child k' \<and> tasks k' = stopped_again child k \<and> remote_frame child k (k'\<lparr>tasks := tasks k\<rparr>)"

definition passes_remote :: "request_env \<Rightarrow> bool" where
  "passes_remote R \<longleftrightarrow> (\<forall>child req addr data k. PTRACE_REMOTE_MMAP \<le> req \<and> req \<le> PTRACE_REMOTE_CLOSE \<longrightarrow>
     arch_request (tracing R) child req addr data k = None)"

definition names :: "request_env \<Rightarrow> int \<Rightarrow> tid \<Rightarrow> kstate \<Rightarrow> bool" where
  "names R pid child k \<longleftrightarrow> find_task_by_vpid (tracing R) (signed_take_bit 31 pid) k = Some child \<and>
     wait_task_inactive (tracing R) child raw_TASK_TRACED (held child k)"

text \<open>
  A request as the system call sees it: its number and its handler, which keeps its promise.
\<close>

locale remote_request =
  fixes req :: int and handler :: "request_env \<Rightarrow> tid \<Rightarrow> 64 word \<Rightarrow> kstate \<Rightarrow> (int \<times> kstate) option"
  assumes number: "PTRACE_REMOTE_MMAP \<le> req" "req \<le> PTRACE_REMOTE_CLOSE"
    and dispatched: "ptrace_request R child req addr data k = handler R child data k"
    and safe: "remote_env_ok R \<Longrightarrow> kernel_ok R child k \<Longrightarrow> request_safe R child k (handler R child data k)"
begin

lemma call_runs:
  assumes R: "passes_remote R" and n: "names R pid child k" and st: "stopped_tracee child k"
    and h: "handler R child data (held child k) = Some (r, k')" "tasks k' = tasks (held child k)"
  shows "sys_ptrace R req pid addr data k = Some (r, k'\<lparr>tasks := stopped_again child k\<rparr>)"
proof -
  note s = st [unfolded stopped_tracee_def]
  let ?k1 = "get_task_struct child k"
  have get: "ptrace_get_task_struct R pid k = (Inr child, ?k1)" using n by (simp add: ptrace_get_task_struct_def names_def)
  have fz: "ptrace_freeze_traced child ?k1 = (True, held child k)"
    using s by (simp add: ptrace_freeze_traced_def get_task_struct_def held_def upd_task_def task_is_traced_def raw_fatal_signal_pending_def)
  have chk: "ptrace_check_attach (tracing R) child False ?k1 = (0, held child k)"
    using s fz n by (simp add: ptrace_check_attach_def names_def) (simp add: get_task_struct_def)
  have arch: "arch_ptrace R child req addr data (held child k) = Some (r, k')"
    using R number h(1) by (simp add: arch_ptrace_def passes_remote_def dispatched)
  have un: "ptrace_unfreeze_traced (tracing R) child k' = upd_task child (\<lambda>t. t\<lparr>t_state := TASK_TRACED\<rparr>) k'"
    using s h(2) by (simp add: ptrace_unfreeze_traced_def held_def raw_fatal_signal_pending_def)
  have "put_task_struct R child (upd_task child (\<lambda>t. t\<lparr>t_state := TASK_TRACED\<rparr>) k') = k'\<lparr>tasks := stopped_again child k\<rparr>"
    using s h(2) by (simp add: put_task_struct_def Let_def stopped_again_def held_def upd_task_def)
  then show ?thesis
    using number get chk arch un by (simp add: sys_ptrace_def)
qed

text \<open>The call always returns, and the tracee is stopped afterwards as it was before.\<close>

lemma call_returns:
  assumes R: "remote_env_ok R" "passes_remote R" and k: "kernel_ok R child k" "names R pid child k" "stopped_tracee child k"
  shows "\<exists>r k'. sys_ptrace R req pid addr data k = Some (r, k') \<and> call_safe R child k k'"
proof -
  have "kernel_ok R child (held child k)" using k(1) by (simp add: kernel_ok_held)
  from safe [OF R(1) this, of data] obtain r k' where h: "handler R child data (held child k) = Some (r, k')" "kernel_ok R child k'"
    "remote_frame child (held child k) k'" unfolding request_safe_def by blast
  let ?k = "k'\<lparr>tasks := stopped_again child k\<rparr>"
  have t: "tasks k' = tasks (held child k)" "cur k' = cur k" using h(3) by (simp_all add: remote_frame_def)
  have "kernel_ok R child ?k = kernel_ok R child k'"
    by (rule kernel_ok_cong) (simp_all add: t stopped_again_def)
  moreover have "remote_frame child k (?k\<lparr>tasks := tasks k\<rparr>)"
    using h(3) t by (simp add: remote_frame_def spare_refs_def)
  ultimately show ?thesis using call_runs [OF R(2) k(2,3) h(1) t(1)] h(2) by (simp add: call_safe_def)
qed

end

interpretation mmap_request: remote_request PTRACE_REMOTE_MMAP ptrace_remote_mmap
  by unfold_locales (simp_all add: ptrace_request_def remote_mmap_safe)

interpretation munmap_request: remote_request PTRACE_REMOTE_MUNMAP ptrace_remote_munmap
  by unfold_locales (simp_all add: ptrace_request_def remote_munmap_safe)

interpretation mremap_request: remote_request PTRACE_REMOTE_MREMAP ptrace_remote_mremap
  by unfold_locales (simp_all add: ptrace_request_def remote_mremap_safe)

interpretation mprotect_request: remote_request PTRACE_REMOTE_MPROTECT ptrace_remote_mprotect
  by unfold_locales (simp_all add: ptrace_request_def remote_mprotect_safe)

interpretation dup_to_request: remote_request PTRACE_DUP_TO_REMOTE ptrace_dup_to_remote
  by unfold_locales (simp_all add: ptrace_request_def descriptor_requests_safe)

interpretation dup2_to_request: remote_request PTRACE_DUP2_TO_REMOTE ptrace_dup2_to_remote
  by unfold_locales (simp_all add: ptrace_request_def descriptor_requests_safe)

interpretation dup_from_request: remote_request PTRACE_DUP_FROM_REMOTE ptrace_dup_from_remote
  by unfold_locales (simp_all add: ptrace_request_def descriptor_requests_safe)

interpretation close_request: remote_request PTRACE_REMOTE_CLOSE ptrace_remote_close
  by unfold_locales (simp_all add: ptrace_request_def descriptor_requests_safe)

lemma remote_call_returns:
  assumes "remote_env_ok R" "passes_remote R" "kernel_ok R child k" "names R pid child k" "stopped_tracee child k"
    and req: "PTRACE_REMOTE_MMAP \<le> req" "req \<le> PTRACE_REMOTE_CLOSE"
  shows "\<exists>r k'. sys_ptrace R req pid addr data k = Some (r, k') \<and> call_safe R child k k'"
proof -
  have "req \<in> {50, 51, 52, 53, 54, 55, 56, 57}" using req by auto
  then show ?thesis
    using mmap_request.call_returns [OF assms(1-5)] munmap_request.call_returns [OF assms(1-5)] mremap_request.call_returns [OF assms(1-5)]
      mprotect_request.call_returns [OF assms(1-5)] dup_to_request.call_returns [OF assms(1-5)] dup2_to_request.call_returns [OF assms(1-5)]
      dup_from_request.call_returns [OF assms(1-5)] close_request.call_returns [OF assms(1-5)]
    by (elim insertE) (simp_all only: singleton_iff, simp_all)
qed

text \<open>A request on a task that is not a stopped tracee of the caller is refused and changes nothing.\<close>

lemma get_put_task: "0 < t_usage (tasks k child) \<Longrightarrow> put_task_struct R child (get_task_struct child k) = k"
  by (simp add: put_task_struct_def get_task_struct_def upd_task_def Let_def)

lemma request_refused:
  assumes req: "request \<notin> {PTRACE_TRACEME, PTRACE_ATTACH, PTRACE_SEIZE}"
    and t: "\<And>child. find_task_by_vpid (tracing R) (signed_take_bit 31 pid) k = Some child \<Longrightarrow> 0 < t_usage (tasks k child) \<and>
      (t_ptrace (tasks k child) = 0 \<or> parent (tasks k child) \<noteq> cur k \<or>
       request \<notin> {PTRACE_KILL, PTRACE_INTERRUPT} \<and> (\<not> task_is_traced (tasks k child) \<or> raw_fatal_signal_pending (tasks k child) \<or>
         t_jobctl (tasks k child) AND JOBCTL_LISTENING \<noteq> 0))"
  shows "sys_ptrace R request pid addr data k = Some (- ESRCH, k)"
proof (cases "find_task_by_vpid (tracing R) (signed_take_bit 31 pid) k")
  case None
  then show ?thesis using req by (simp add: sys_ptrace_def ptrace_get_task_struct_def)
next
  case (Some child)
  note tc = t [OF Some]
  let ?k1 = "get_task_struct child k"
  have "ptrace_check_attach (tracing R) child (request = PTRACE_KILL \<or> request = PTRACE_INTERRUPT) ?k1 = (- ESRCH, ?k1)"
    using tc by (auto simp: ptrace_check_attach_def ptrace_freeze_traced_def get_task_struct_def task_is_traced_def raw_fatal_signal_pending_def)
  then show ?thesis using req Some tc get_put_task [of k child R] by (simp add: sys_ptrace_def ptrace_get_task_struct_def)
qed

end
