(* ===== verification/Fd_Properties.thy ===== *)
theory Fd_Properties
  imports Table_Life
begin

text \<open>
  The properties of the descriptor tables (\<open>fs/file.c\<close>), each with a witness on a concrete table.
  The witnesses use the initial table of the system, \<open>init_files\<close>, and tables derived from it by the
  operations themselves, in an environment \<open>env0\<close> where memory is available and \<open>fput\<close> and
  \<open>filp_close\<close> only count.
\<close>

section \<open>A concrete environment\<close>

definition drop_ref :: "file_ptr \<Rightarrow> fheap \<Rightarrow> fheap" where
  "drop_ref f h = h(f := (h f)\<lparr>f_count := f_count (h f) - 1\<rparr>)"

definition env0 :: fs_env where
  "env0 = \<lparr>sysctl_nr_open = 1048576, kmalloc_ok = (\<lambda>_. True), vmalloc_ok = (\<lambda>_. True),
     uninit_fd = (\<lambda>_. Some 99), uninit_word = (\<lambda>_. 0xDEADBEEF), wait_resize = (\<lambda>f. f),
     fput = drop_ref, filp_close = (\<lambda>f h. (0, drop_ref f h))\<rparr>"

definition heap0 :: fheap where
  "heap0 = (\<lambda>f. \<lparr>f_count = 1, f_mode = 3, f_pos_lock = False\<rparr>)"

text \<open>The initial table with descriptor 0 referring to file 7, which has one reference.\<close>

definition table1 :: files_struct where
  "table1 = init_files\<lparr>fdt := \<lparr>max_fds = 64, fdt_fd = (replicate 64 None)[0 := Some 7],
     fdt_close_on_exec = [1], fdt_open_fds = [1], fdt_full_fds_bits = [0]\<rparr>, next_fd := 1\<rparr>"

lemma env0_ok: "fs_env_ok env0"
  by (simp add: fs_env_ok_def env0_def sysctl_nr_open_min_def nr_open_safe_def)

lemma env0_vfs: "vfs_ok env0"
  by (simp add: vfs_ok_def env0_def drop_ref_def)

lemma init_fdtable_ok: "fdt_ok init_fdtable"
  by (auto simp: fdt_ok_def fdt_shape_def init_fdtable_def sysctl_nr_open_max_eq BITBIT_NR_def BITS_TO_LONGS_def
      test_bit_def less_Suc_eq)

lemma init_files_ok: "files_ok init_files"
  using init_fdtable_ok by (simp add: files_ok_def init_files_def)

lemma table1_fdt: "fdt table1 = raw_set_close_on_exec 0
    ((raw_set_open_fd 0 init_fdtable)\<lparr>fdt_fd := (fdt_fd (raw_set_open_fd 0 init_fdtable))[0 := Some 7]\<rparr>)"
  by (simp add: table1_def init_fdtable_def raw_set_open_fd_def raw_set_close_on_exec_def raw_set_bit_def)

lemma table1_ok: "files_ok table1"
proof -
  have "fdt_ok (fdt table1)"
    unfolding table1_fdt using init_fdtable_ok
    by (intro fdt_ok_cloexec fdt_ok_install fdt_ok_set_open) (auto simp: fdt_simps init_fdtable_def)
  then show ?thesis
    by (auto simp: files_ok_def table1_def init_files_def fd_is_open_def test_bit_def)
qed

lemma table1_descriptors: "descriptors (fdt table1) = [0 \<mapsto> (Some 7, True)]"
  by (auto simp: fun_eq_iff descriptors_def table1_def fd_is_open_def close_on_exec_def test_bit_def bit_1_iff)

lemma table1_refs: "refs_ok table1 heap0"
proof -
  have "fdt_fd (fdt table1) = Some 7 # replicate 63 None" by code_simp
  then show ?thesis by (simp add: refs_ok_def other_refs_def fd_refs_def heap0_def)
qed

section \<open>Properties\<close>

text \<open>
  C31. The two-level search finds the lowest free descriptor: \<open>find_next_fd\<close>, which first looks for a
  word that \<open>full_fds_bits\<close> does not mark as full, returns the least descriptor not below \<open>start\<close>
  that is not open, or \<open>max_fds\<close> when there is none.
\<close>

theorem find_next_fd_lowest:
  assumes "fdt_ok t" "start < max_fds t"
  shows "start \<le> find_next_fd t start \<and> find_next_fd t start \<le> max_fds t \<and>
    (find_next_fd t start < max_fds t \<longrightarrow> \<not> fd_is_open (find_next_fd t start) t) \<and>
    (\<forall>k. start \<le> k \<and> k < find_next_fd t start \<longrightarrow> fd_is_open k t)"
proof -
  have le: "find_next_fd t start \<le> max_fds t" and "start \<le> find_next_fd t start"
    using assms by (simp_all add: find_next_fd_eq find_next_zero_bit_le find_next_zero_bit_ge)
  moreover have "\<not> fd_is_open (find_next_fd t start) t" if "find_next_fd t start < max_fds t"
    using that find_next_zero_bit_clear by (simp add: find_next_fd_eq [OF assms] fd_is_open_def)
  moreover have "fd_is_open k t" if "start \<le> k" "k < find_next_fd t start" for k
    using that le find_next_zero_bit_skips [of start k "fdt_open_fds t" "max_fds t"]
    by (simp add: find_next_fd_eq [OF assms] fd_is_open_def)
  ultimately show ?thesis by blast
qed

theorem find_next_fd_lowest_witness:
  "fd_is_open 0 (fdt table1) \<and> find_next_fd (fdt table1) 0 = 1 \<and> \<not> fd_is_open 1 (fdt table1)"
proof -
  have ok: "fdt_ok (fdt table1)" "0 < max_fds (fdt table1)"
    using files_ok_fdt [OF table1_ok] by (simp, simp add: table1_def)
  have "find_next_fd (fdt table1) 0 = 1"
    unfolding find_next_fd_eq [OF ok]
    by (rule find_next_zero_bit_unique) (auto simp: table1_def test_bit_def bit_1_iff)
  with find_next_fd_lowest [OF ok] show ?thesis by (auto simp: table1_def)
qed

text \<open>
  C26. \<open>__alloc_fd\<close> always comes back with the lock released and the invariant kept.  It either
  reserves the lowest free descriptor not below \<open>start\<close> (which is below \<open>end\<close>) with the requested
  close-on-exec flag and changes nothing else, or it fails with \<open>EMFILE\<close> or \<open>ENOMEM\<close> and no
  descriptor has changed; \<open>EMFILE\<close> means that the lowest free descriptor is out of the limits.
\<close>

theorem raw_alloc_fd_lowest:
  assumes "fs_env_ok E" "files_ok files"
  shows "\<exists>r files' fd. raw_alloc_fd E files start fend flags = Some (r, files') \<and>
    files_ok files' \<and> \<not> file_lock files' \<and> lowest_free (descriptors (fdt files)) start fd \<and>
    (if r < 0 then descriptors (fdt files') = descriptors (fdt files) \<and>
        (r = - ENOMEM \<or> r = - EMFILE \<and> (fend \<le> fd \<or> sysctl_nr_open E \<le> fd))
     else r = int fd \<and> fd < fend \<and> fd < max_fds (fdt files') \<and>
        descriptors (fdt files') = (descriptors (fdt files))(fd \<mapsto> (None, flags AND O_CLOEXEC \<noteq> 0)))"
  using assms by (cases rule: raw_alloc_fd_cases [where start = start and fend = fend and flags = flags])
    (use assms in \<open>force+\<close>)

theorem raw_alloc_fd_lowest_witness:
  "fs_env_ok env0 \<and> files_ok table1 \<and> (\<exists>r files' fd. raw_alloc_fd env0 table1 0 1024 0 = Some (r, files') \<and>
    files_ok files' \<and> lowest_free (descriptors (fdt table1)) 0 fd)"
  using raw_alloc_fd_lowest [OF env0_ok table1_ok, of 0 1024 0] env0_ok table1_ok by blast

text \<open>
  C30. Growing a table is invisible: when \<open>expand_files\<close> replaces the table by a larger one, the new
  table satisfies the invariant, has room for the descriptor asked for and the same descriptors,
  files and flags as the old one, although it was built in uninitialised memory.
\<close>

theorem expand_files_keeps_descriptors:
  assumes "fs_env_ok E" "files_ok files"
  shows "\<exists>err files'. expand_files E (spin_lock files) nr = Some (err, files') \<and> files_ok files' \<and>
    descriptors (fdt files') = descriptors (fdt files) \<and> file_lock files' \<and>
    (err \<in> {0, 1} \<and> nr < max_fds (fdt files') \<or>
     err \<in> {- EMFILE, - ENOMEM} \<and> max_fds (fdt files) \<le> nr)"
  using expand_files_result [OF assms, of nr] by (metis insertCI)

theorem expand_files_keeps_descriptors_witness:
  "files_ok table1 \<and> (\<exists>err files'. expand_files env0 (spin_lock table1) 100 = Some (err, files') \<and>
     files_ok files' \<and> descriptors (fdt files') = [0 \<mapsto> (Some 7, True)])"
  using expand_files_keeps_descriptors [OF env0_ok table1_ok, of 100] table1_ok
  by (auto simp: table1_descriptors)

text \<open>
  Allocating, installing and closing a descriptor is a round trip: closing the descriptor that
  \<open>__alloc_fd\<close> returned after \<open>__fd_install\<close> put a file in it gives back the descriptors from before.
\<close>

theorem alloc_install_close_roundtrip:
  assumes "fs_env_ok E" "files_ok files" "raw_alloc_fd E files start fend flags = Some (r, files1)" "0 \<le> r"
  shows "\<exists>files2 files3 h'. raw_fd_install E files1 (nat r) f = Some files2 \<and>
    raw_fcheck_files files2 (nat r) = Some f \<and>
    raw_close_fd E files2 h (nat r) = (fst (filp_close E f h), files3, h') \<and>
    files_ok files3 \<and> descriptors (fdt files3) = descriptors (fdt files)"
proof -
  from assms(1,2) show ?thesis
  proof (cases rule: raw_alloc_fd_cases [where start = start and fend = fend and flags = flags])
    case (allocated fd files')
    with assms(3) have f: "files' = files1" "nat r = fd" by auto
    have free: "descriptors (fdt files) fd = None"
      using allocated(1) by (auto simp: lowest_free_def)
    let ?c = "flags AND O_CLOEXEC \<noteq> 0"
    from allocated f have "files_ok files1" "descriptors (fdt files1) fd = Some (None, ?c)" by auto
    from raw_fd_install_descriptors [OF this, of E f] obtain files2 where
      i: "raw_fd_install E files1 fd f = Some files2" "files_ok files2"
        "descriptors (fdt files2) = (descriptors (fdt files1))(fd \<mapsto> (Some f, ?c))" by blast
    then have m: "descriptors (fdt files2) fd = Some (Some f, ?c)" by simp
    from raw_close_fd_descriptors [OF i(2) m, of E h] obtain files3 where
      "raw_close_fd E files2 h fd = (fst (filp_close E f h), files3, snd (filp_close E f h))"
      "descriptors (fdt files3) = (descriptors (fdt files2))(fd := None)" "files_ok files3" by blast
    moreover have "raw_fcheck_files files2 fd = Some f" using i(2) m by (simp add: raw_fcheck_files_descriptors)
    ultimately show ?thesis
      using i allocated(8) f free by (auto simp: fun_upd_idem)
  qed (use assms(3,4) in auto)
qed

theorem alloc_install_close_roundtrip_witness:
  "\<exists>files1 files2 files3 h'. raw_alloc_fd env0 init_files 0 1024 0 = Some (0, files1) \<and>
     raw_fd_install env0 files1 0 5 = Some files2 \<and> raw_close_fd env0 files2 heap0 0 = (0, files3, h') \<and>
     descriptors (fdt files3) = descriptors (fdt init_files)"
proof -
  have c: "alloc_candidate (spin_lock init_files) 0 = 0"
  proof -
    have "lowest_free (descriptors (fdt init_files)) 0 0"
      by (auto simp: lowest_free_def dom_descriptors fd_is_open_def init_files_def init_fdtable_def test_bit_def)
    with alloc_candidate_lowest [of "spin_lock init_files" 0] init_files_ok show ?thesis
      by (auto intro: lowest_free_unique)
  qed
  obtain r fs where r: "raw_alloc_fd env0 init_files 0 1024 0 = Some (r, fs)" "r = 0"
    using raw_alloc_fd_repeat_room [of "spin_lock init_files" 0 1024 env0 0]
    by (simp add: raw_alloc_fd_def c) (simp add: init_files_def init_fdtable_def)
  from alloc_install_close_roundtrip [OF env0_ok init_files_ok r(1), of 5 heap0] r show ?thesis
    by (auto simp: env0_def)
qed


text \<open>
  \<open>dup\<close> of an open descriptor returns the lowest free descriptor, referring to the same file
  without the close-on-exec flag, or fails with \<open>EMFILE\<close> or \<open>ENOMEM\<close> and no descriptor changed.  On
  both paths the references are balanced: the count of every file exceeds the number of
  descriptors referring to it by as much as before.
\<close>

theorem sys_dup_lowest:
  assumes "fs_env_ok E" "vfs_ok E" "files_ok files" "refs_ok files h"
    and "descriptors (fdt files) fildes = Some (Some f, c)"
  shows "\<exists>r files' h'. sys_dup E rlim files h fildes = Some (r, files', h') \<and> files_ok files' \<and>
    (if r < 0 then r \<in> {- EMFILE, - ENOMEM} \<and> descriptors (fdt files') = descriptors (fdt files)
     else \<exists>fd. r = int fd \<and> lowest_free (descriptors (fdt files)) 0 fd \<and>
       descriptors (fdt files') = (descriptors (fdt files))(fd \<mapsto> (Some f, False))) \<and>
    (\<forall>g. other_refs files' h' g = other_refs files h g)"
  using assms(1,3,4,5)
proof (cases rule: sys_dup_cases [where rlim = rlim])
  case (fail r files')
  have "other_refs files' (fput E f (get_file f h)) g = other_refs files h g" for g
    using other_refs_same [OF assms(3) fail(3,4), of "fput E f (get_file f h)" g h]
      vfs_okD(1) [OF assms(2), of f "get_file f h" g] by auto
  with fail show ?thesis by auto
next
  case (success fd files')
  have "descriptors (fdt files) fd = None" using success(3) by (auto simp: lowest_free_def)
  then have "other_refs files' (get_file f h) g = other_refs files h g" for g
    using other_refs_upd [OF assms(3) success(4,5), of "get_file f h" g h] by auto
  with success show ?thesis by auto
qed

theorem sys_dup_lowest_witness:
  "refs_ok table1 heap0 \<and> (\<exists>r files' h'. sys_dup env0 1024 table1 heap0 0 = Some (r, files', h') \<and>
     files_ok files' \<and> (\<forall>g. other_refs files' h' g = other_refs table1 heap0 g))"
  using sys_dup_lowest [OF env0_ok env0_vfs table1_ok table1_refs, of 0 7 True 1024] table1_refs
  by (auto simp: table1_descriptors)



text \<open>
  C8. \<open>do_dup2_to_remote\<close> duplicates a descriptor of the tracer into the tracee's table, also when the
  two share one table.  Whatever it returns, every table of the store keeps its invariant, the
  tracee's lock is released and no reference is lost or leaked; on success exactly the remote
  descriptor has changed, on an error nothing has.
\<close>

theorem do_dup2_to_remote_balanced:
  assumes "fs_env_ok E" "vfs_ok E" "store_ok fs h" "fs child = Some files" "fs cur = Some cfiles"
    and "flags AND NOT O_CLOEXEC = 0" "remote_fd < rlim"
  shows "\<exists>r files' h'. do_dup2_to_remote E rlim cur child fs h local_fd remote_fd flags =
      Some (r, fs(child \<mapsto> files'), h') \<and> store_ok (fs(child \<mapsto> files')) h' \<and> \<not> file_lock files' \<and>
    (\<forall>g. store_refs (fs(child \<mapsto> files')) h' g = store_refs fs h g) \<and>
    (if r < 0 then r \<in> {- EBADF, - ENOMEM, - EBUSY} \<and> h' = h \<and> descriptors (fdt files') = descriptors (fdt files)
     else r = int remote_fd \<and> (\<exists>f. local_file fs cur local_fd = Some f \<and>
       descriptors (fdt files') = (descriptors (fdt files))(remote_fd \<mapsto> (Some f, flags AND O_CLOEXEC \<noteq> 0))))"
proof -
  obtain r files' h' where res:
    "do_dup2_to_remote E rlim cur child fs h local_fd remote_fd flags = Some (r, fs(child \<mapsto> files'), h')"
    "\<not> file_lock files'" "store_ok (fs(child \<mapsto> files')) h'"
    "\<And>g. store_refs (fs(child \<mapsto> files')) h' g = store_refs fs h g"
    "r \<in> {- EBADF, - ENOMEM, - EBUSY} \<and> h' = h \<and> descriptors (fdt files') = descriptors (fdt files) \<or>
     r = int remote_fd \<and> (\<exists>f. local_file fs cur local_fd = Some f \<and>
       descriptors (fdt files') = (descriptors (fdt files))(remote_fd \<mapsto> (Some f, flags AND O_CLOEXEC \<noteq> 0)))"
    using do_dup2_to_remote_result [OF assms, of local_fd] by metis
  show ?thesis
    by (rule exI [of _ r], rule exI [of _ files'], rule exI [of _ h']) (use res in auto)
qed

lemma store1_ok: "store_ok [1 \<mapsto> table1, 2 \<mapsto> init_files] heap0"
proof -
  have "fd_refs (fdt init_files) f = 0" for f
    by (simp add: fd_refs_def init_files_def init_fdtable_def)
  moreover have "int (fd_refs (fdt table1) f) \<le> 1" for f
    using table1_refs by (simp add: refs_ok_def other_refs_def heap0_def)
  ultimately show ?thesis
    using table1_ok init_files_ok by (auto simp: store_ok_def ran_def store_refs_def heap0_def)
qed

theorem do_dup2_to_remote_balanced_witness:
  "\<exists>r files' h'. do_dup2_to_remote env0 1024 1 2 [1 \<mapsto> table1, 2 \<mapsto> init_files] heap0 0 5 0 =
     Some (r, [1 \<mapsto> table1, 2 \<mapsto> files'], h') \<and> store_ok [1 \<mapsto> table1, 2 \<mapsto> files'] h'"
  using do_dup2_to_remote_balanced [OF env0_ok env0_vfs store1_ok, of 2 init_files 1 table1 0 5 1024 0]
  by (auto simp: fun_upd_twist)

text \<open>
  C29. An exec closes exactly the descriptors that are installed and marked close-on-exec: the others
  stay with the flag clear, the invariant is kept and the references stay balanced.
\<close>

theorem do_close_on_exec_closes:
  assumes "vfs_ok E" "files_ok files" "refs_ok files h"
  shows "\<exists>files' h'. do_close_on_exec E files h = (files', h') \<and> files_ok files' \<and> \<not> file_lock files' \<and>
    (\<forall>g. other_refs files' h' g = other_refs files h g) \<and>
    (\<forall>fd. descriptors (fdt files') fd = (case descriptors (fdt files) fd of
        Some (Some f, True) \<Rightarrow> None | Some (x, c) \<Rightarrow> Some (x, False) | None \<Rightarrow> None))"
proof -
  obtain files' h' where r: "do_close_on_exec E files h = (files', h')" by fastforce
  from do_close_on_exec_result [OF assms r] r show ?thesis by (auto simp: exec_view_def)
qed

theorem do_close_on_exec_closes_witness:
  "\<exists>files' h'. do_close_on_exec env0 table1 heap0 = (files', h') \<and> descriptors (fdt files') 0 = None"
  using do_close_on_exec_closes [OF env0_vfs table1_ok table1_refs] by (auto simp: table1_descriptors)

text \<open>
  C27. \<open>dup_fd\<close> gives a new process a table of its own with exactly the installed descriptors of the
  old one (a descriptor that another thread has reserved but not installed is free in the copy),
  one more reference for each of them, the invariant established, and the old table unchanged.
  It fails only for want of memory or because the sysctl limit was lowered.
\<close>

theorem dup_fd_copies:
  assumes "fs_env_ok E" "files_ok oldf"
  shows "\<exists>r oldf' h'. dup_fd E oldf h = Some (r, oldf', h') \<and> fdt oldf' = fdt oldf \<and>
    (case r of
       Inl err \<Rightarrow> err \<in> {- ENOMEM, - EMFILE} \<and> h' = h
     | Inr newf \<Rightarrow> files_ok newf \<and> files_count newf = 1 \<and> \<not> file_lock newf \<and>
         (\<forall>fd. descriptors (fdt newf) fd =
            (case descriptors (fdt oldf) fd of Some (Some f, c) \<Rightarrow> Some (Some f, c) | _ \<Rightarrow> None)) \<and>
         (\<forall>g. f_count (h' g) = f_count (h g) + int (fd_refs (fdt newf) g)))"
  using assms
proof (cases rule: dup_fd_cases [where h = h])
  case (fail r oldf')
  then show ?thesis by auto
next
  case (success newf h')
  have "descriptors (fdt newf) fd =
      (case descriptors (fdt oldf) fd of Some (Some f, c) \<Rightarrow> Some (Some f, c) | _ \<Rightarrow> None)" for fd
    using success(5) by (auto simp: installed_def split: option.splits)
  with success show ?thesis by auto
qed

theorem dup_fd_copies_witness:
  "\<exists>r oldf' h'. dup_fd env0 table1 heap0 = Some (r, oldf', h') \<and> fdt oldf' = fdt table1"
  using dup_fd_copies [OF env0_ok table1_ok, of heap0] by blast

text \<open>
  C32. Dropping the last reference to a table gives back exactly the references its descriptors
  held, and frees the structure; dropping another reference only counts down.
\<close>

theorem put_files_struct_releases:
  assumes "vfs_ok E" "fs p = Some files" "files_ok files" "refs_ok files h"
  shows "\<exists>fs' h'. put_files_struct E p fs h = Some (fs', h') \<and>
    (if files_count files = 1 then fs' = fs(p := None) \<and> (\<forall>g. f_count (h' g) = f_count (h g) - int (fd_refs (fdt files) g))
     else fs' = fs(p \<mapsto> files\<lparr>files_count := files_count files - 1\<rparr>) \<and> h' = h)"
proof (cases "files_count files = 1")
  case True
  let ?f = "files\<lparr>files_count := 0\<rparr>"
  obtain t h' where c: "close_files E ?f h = (t, h')" by fastforce
  have "files_ok ?f" "refs_ok ?f h" using assms by (simp_all add: files_ok_def refs_ok_def other_refs_def)
  from close_files_result(2) [OF assms(1) this c] True c assms(2) show ?thesis
    by (auto simp: put_files_struct_def)
qed (use assms in \<open>auto simp: put_files_struct_def\<close>)

theorem put_files_struct_releases_witness:
  "\<exists>fs' h'. put_files_struct env0 1 [1 \<mapsto> table1] heap0 = Some (fs', h') \<and> fs' 1 = None \<and> f_count (h' 7) = 0"
proof -
  have "files_count table1 = 1" "fd_refs (fdt table1) 7 = 1" by code_simp+
  with put_files_struct_releases [OF env0_vfs _ table1_ok table1_refs, of "[1 \<mapsto> table1]" 1] show ?thesis
    by (auto simp: heap0_def)
qed

text \<open>
  C33. The byte counts of \<open>copy_fdtable\<close> are 32 bits wide: growing a table of \<open>2 ^ 29\<close> descriptors
  to \<open>2 ^ 30\<close>, which \<open>sysctl_nr_open_max\<close> admits, copies not a single file pointer and clears none,
  so the new array is the uninitialised memory it was allocated as.
\<close>

theorem copy_fdtable_wraps:
  assumes "max_fds ofdt = 2 ^ 29" "max_fds nfdt = 2 ^ 30"
  shows "max_fds nfdt \<le> sysctl_nr_open_max \<and> map_option fdt_fd (copy_fdtable nfdt ofdt) = Some (fdt_fd nfdt)"
  using assms by (simp add: copy_fdtable_def u32_def memcpy_memset_def sysctl_nr_open_max_eq fdt_simps)

theorem copy_fdtable_wraps_witness:
  "\<exists>nfdt ofdt. fdt_fd ofdt = replicate (2 ^ 29) (Some 1) \<and> fdt_fd nfdt = replicate (2 ^ 30) (Some 2) \<and>
     map_option fdt_fd (copy_fdtable nfdt ofdt) = Some (replicate (2 ^ 30) (Some 2))"
proof -
  let ?o = "\<lparr>max_fds = 2 ^ 29, fdt_fd = replicate (2 ^ 29) (Some 1), fdt_close_on_exec = replicate (2 ^ 23) 0,
     fdt_open_fds = replicate (2 ^ 23) 0, fdt_full_fds_bits = replicate (2 ^ 17) 0\<rparr>"
  let ?n = "\<lparr>max_fds = 2 ^ 30, fdt_fd = replicate (2 ^ 30) (Some 2), fdt_close_on_exec = replicate (2 ^ 24) 0,
     fdt_open_fds = replicate (2 ^ 24) 0, fdt_full_fds_bits = replicate (2 ^ 18) 0\<rparr>"
  have "map_option fdt_fd (copy_fdtable ?n ?o) = Some (fdt_fd ?n)"
    using copy_fdtable_wraps [of ?o ?n] by (simp only: fdtable.simps simp_thms)
  then show ?thesis by (intro exI [of _ ?n] exI [of _ ?o]) simp
qed

end
