(* ===== verification/Ptrace_Properties.thy ===== *)
theory Ptrace_Properties
  imports Ptrace
begin

text \<open>
  The properties of tracing (\<open>kernel/ptrace.c\<close>), with witnesses in the environment \<open>penv0\<close>, whose
  functions do what their documentation says on the fields at hand, and the state \<open>kst0\<close>, in which
  task 1, the current one, may trace task 2.
\<close>

section \<open>A concrete environment\<close>

definition wake :: "tid \<Rightarrow> 64 word \<Rightarrow> kstate \<Rightarrow> kstate" where
  "wake t m k = (if t_state (tasks k t) AND m \<noteq> 0 then upd_task t (\<lambda>s. s\<lparr>t_state := TASK_RUNNING\<rparr>) k else k)"

definition penv0 :: ptrace_env where
  "penv0 = \<lparr>get_task_mm = (\<lambda>t k. (t_mm (tasks k t), k)), mmput = (\<lambda>m k. k),
     access_remote_vm = (\<lambda>t m a buf fl k. (int (length buf), replicate (length buf) 7, k)),
     ptracer_capable = (\<lambda>t ns k. False), has_ns_capability = (\<lambda>t ns k. False),
     has_ns_capability_noaudit = (\<lambda>t ns k. False), capable_sys_admin = (\<lambda>k. False),
     security_ptrace_access_check = (\<lambda>t m k. 0), security_ptrace_traceme = (\<lambda>t k. 0),
     cred_guard_interrupted = (\<lambda>t k. False), wake_up_state = wake, signal_wake_up_state = wake,
     send_sig_forced = (\<lambda>n t k. upd_task t (\<lambda>s. s\<lparr>t_pending := (t_pending s)\<lparr>sp_signal := sigaddset (sp_signal (t_pending s)) n\<rparr>\<rparr>) k),
     task_set_jobctl_pending = (\<lambda>t m k. (True, upd_task t (\<lambda>s. s\<lparr>t_jobctl := t_jobctl s OR m\<rparr>) k)),
     task_clear_jobctl_pending = (\<lambda>t m k. upd_task t (\<lambda>s. s\<lparr>t_jobctl := t_jobctl s AND NOT m\<rparr>) k),
     task_clear_jobctl_trapping = (\<lambda>t k. upd_task t (\<lambda>s. s\<lparr>t_jobctl := t_jobctl s AND NOT JOBCTL_TRAPPING\<rparr>) k),
     do_notify_parent = (\<lambda>t s k. (False, k)), wake_up_parent = (\<lambda>t p k. k), wait_task_inactive = (\<lambda>t m k. True),
     wait_trapping = (\<lambda>t k. k), ptrace_disable = (\<lambda>t k. k), arch_ptrace_attach = (\<lambda>t k. k),
     arch_has_single_step = True, arch_has_block_step = True, arch_set_step = (\<lambda>s t k. k),
     arch_request = (\<lambda>t r a d k. None), find_task_by_vpid = (\<lambda>n k. Some (nat n)), user_regset_view = (\<lambda>t. []),
     copy_regset = (\<lambda>b t n l p k. (0, k)), copy_siginfo_to_user = (\<lambda>a s um. let (ok, um) = copy_to_user um a s in (if ok then 0 else - EFAULT, um)),
     seccomp_get_filter = (\<lambda>t a d k. (0, k)), suspend_seccomp_config = True\<rparr>"

definition task0 :: "nat \<Rightarrow> task_struct" where
  "task0 n = \<lparr>t_state = TASK_TRACED, t_flags = 0, t_ptrace = 0, t_jobctl = 0, t_exit_state = 0, t_exit_code = 0,
     t_exit_signal = 17, t_usage = 1, real_parent = 0, parent = 0, ptraced = [], ptrace_linked = False,
     ptracer_cred = None,
     t_cred = \<lparr>cr_uid = 0, cr_gid = 0, cr_suid = 0, cr_sgid = 0, cr_euid = 0, cr_egid = 0, cr_fsuid = 0, cr_fsgid = 0, cr_user_ns = 0\<rparr>,
     t_signal = n, t_sighand = Some n, t_thread_group = [], t_mm = Some n, t_files = n,
     t_pending = \<lparr>sp_list = [], sp_signal = 0\<rparr>, t_blocked = 0, last_siginfo = None, ptrace_message = 0,
     tif_syscall_trace = False, tif_syscall_emu = False, tif_sigpending = False, t_seccomp_mode = 0, personality = 0\<rparr>"

definition mm0 :: mm_struct where
  "mm0 = \<lparr>mmap = [], mm_rb = Rb_null, highest_vm_end = 0, map_count = 0, total_vm = 0, locked_vm = 0, data_vm = 0,
     exec_vm = 0, stack_vm = 0, def_flags = 0, mm_get_unmapped_area = Arch_get_unmapped_area_topdown, mmap_base = 0, task_size = 0, start_data = 0, end_data = 0,
     start_brk = 0, brk = 0, mm_flags = 1, mm_user_ns = 0, mm_users = 1,
     pgd = \<lparr>pt_pgd = (\<lambda>i. Dir_none), pt_pud = (\<lambda>i. Dir_none), pt_pmd = (\<lambda>i. Pmd_none), pt_pte = (\<lambda>i. 0)\<rparr>\<rparr>"

definition kst0 :: kstate where
  "kst0 = \<lparr>cur = 1, tasks = task0, signals = (\<lambda>n. \<lparr>sig_flags = 0, group_stop_count = 0, shared_pending = \<lparr>sp_list = [], sp_signal = 0\<rparr>\<rparr>),
     sighands = (\<lambda>n. \<lparr>sigchld_ignored = False, sigchld_nocldwait = False\<rparr>), files_tab = Map.empty,
     fheap = (\<lambda>f. \<lparr>f_count = 0, f_mode = 0, f_pos_lock = False\<rparr>), mms = (\<lambda>n. mm0), spaces = (\<lambda>m. \<lparr>i_writecount = 0, i_mmap_writable = 0\<rparr>), committed_as = 0,
     umem = \<lparr>um_byte = (\<lambda>a. 0), um_read = (\<lambda>a. True), um_write = (\<lambda>a. True)\<rparr>, populated = []\<rparr>"

lemma penv0_keeps: "keeps_links penv0"
  by (simp add: keeps_links_def penv0_def same_links_def wake_def)

lemma kst0_links: "links_ok kst0"
  by (simp add: links_except_def kst0_def task0_def)

text \<open>The same state after task 1 has attached to task 2.\<close>

definition kst1 :: kstate where
  "kst1 = kst0\<lparr>tasks := task0(1 := (task0 1)\<lparr>ptraced := [2]\<rparr>,
     2 := (task0 2)\<lparr>t_ptrace := 1, parent := 1, ptrace_linked := True, ptracer_cred := Some (t_cred (task0 1))\<rparr>)\<rparr>"

lemma kst1_links: "links_ok kst1"
  by (auto simp: links_except_def kst1_def kst0_def task0_def)

text \<open>
  What the functions for job control bits promise for the bits cleared on detaching: clearing traps
  clears the bits asked for and possibly \<open>TRAPPING\<close>, clearing \<open>TRAPPING\<close> only that, and waking a task
  up leaves its job control bits alone.
\<close>

definition jobctl_ok :: "ptrace_env \<Rightarrow> bool" where
  "jobctl_ok E \<longleftrightarrow>
     (\<forall>t k. let k' = task_clear_jobctl_pending E t JOBCTL_TRAP_MASK k
        in signals k' = signals k \<and> t_signal (tasks k' t) = t_signal (tasks k t) \<and> t_flags (tasks k' t) = t_flags (tasks k t) \<and>
           t_jobctl (tasks k' t) AND NOT JOBCTL_TRAPPING = t_jobctl (tasks k t) AND NOT JOBCTL_TRAP_MASK AND NOT JOBCTL_TRAPPING) \<and>
     (\<forall>t k. let k' = task_clear_jobctl_trapping E t k
        in signals k' = signals k \<and> t_signal (tasks k' t) = t_signal (tasks k t) \<and> t_flags (tasks k' t) = t_flags (tasks k t) \<and>
           t_jobctl (tasks k' t) = t_jobctl (tasks k t) AND NOT JOBCTL_TRAPPING) \<and>
     (\<forall>t m k. t_jobctl (tasks (signal_wake_up_state E t m k) t) = t_jobctl (tasks k t))"

lemma penv0_jobctl: "jobctl_ok penv0"
  by (simp add: jobctl_ok_def penv0_def wake_def Let_def and.assoc)

lemma reinstate_group_stop_bits:
  assumes j: "t_jobctl (tasks k c) AND 0x380000 = 0"
  shows "t_jobctl (tasks (reinstate_group_stop c k) c) AND 0x380000 = 0"
    "t_flags (tasks k c) AND PF_EXITING = 0 \<Longrightarrow>
     sig_flags (signals k (t_signal (tasks k c))) AND SIGNAL_STOP_STOPPED \<noteq> 0 \<or>
       group_stop_count (signals k (t_signal (tasks k c))) \<noteq> 0 \<Longrightarrow>
     t_jobctl (tasks (reinstate_group_stop c k) c) AND JOBCTL_STOP_PENDING \<noteq> 0 \<and>
     t_jobctl (tasks (reinstate_group_stop c k) c) AND JOBCTL_STOP_SIGMASK \<noteq> 0"
proof -
  let ?j = "t_jobctl (tasks k c)"
  show "t_jobctl (tasks (reinstate_group_stop c k) c) AND 0x380000 = 0"
    using j by (simp add: reinstate_group_stop_def Let_def bit.conj_disj_distrib2)
  have p: "(?j OR 0x20000) AND 0x20000 \<noteq> 0" "(?j OR 0x20000 OR 0x13) AND 0x20000 \<noteq> 0"
    by (simp_all add: bit.conj_disj_distrib2 or_eq_0_iff)
  have q: "(?j OR 0x20000 OR 0x13) AND 0xffff \<noteq> 0"
    by (simp add: bit.conj_disj_distrib2 or_eq_0_iff)
  show "t_jobctl (tasks (reinstate_group_stop c k) c) AND JOBCTL_STOP_PENDING \<noteq> 0 \<and>
     t_jobctl (tasks (reinstate_group_stop c k) c) AND JOBCTL_STOP_SIGMASK \<noteq> 0"
    if "t_flags (tasks k c) AND PF_EXITING = 0"
      "sig_flags (signals k (t_signal (tasks k c))) AND SIGNAL_STOP_STOPPED \<noteq> 0 \<or>
       group_stop_count (signals k (t_signal (tasks k c))) \<noteq> 0"
    using that p q by (simp add: reinstate_group_stop_def Let_def or.assoc)
qed

section \<open>Properties\<close>

text \<open>
  C34. The relation between tracers and tracees is always consistent: in every state reachable by
  attaching, \<open>PTRACE_TRACEME\<close>, freezing and unfreezing, detaching, setting options and scheduling,
  in any order and by any tasks, each traced task is on the list of exactly one tracer, its parent,
  with that tracer's credentials recorded, and each untraced task is on no list and has its real
  parent as parent.
\<close>

theorem tracing_links_invariant:
  assumes "keeps_links E" "links_ok k" "(ptrace_step E)\<^sup>*\<^sup>* k k'"
  shows "links_ok k'"
  using assms(3,2) by (induction rule: rtranclp_induct) (auto intro: ptrace_step_links [OF assms(1)])

theorem tracing_links_invariant_witness:
  "\<exists>k'. (ptrace_step penv0)\<^sup>*\<^sup>* kst0 k' \<and> k' \<noteq> kst0 \<and> links_ok k'"
proof -
  have "ptrace_step penv0 kst0 (kst0\<lparr>cur := 2\<rparr>)" by (rule step_schedule)
  then have r: "(ptrace_step penv0)\<^sup>*\<^sup>* kst0 (kst0\<lparr>cur := 2\<rparr>)" by simp
  moreover have "kst0\<lparr>cur := 2\<rparr> \<noteq> kst0" by (simp add: kst0_def)
  ultimately show ?thesis using tracing_links_invariant [OF penv0_keeps kst0_links r] by blast
qed

text \<open>
  C36. \<open>ptrace_attach\<close> either fails and changes nothing, or makes the calling task the tracer and
  parent of a task that was not traced before, is not a kernel thread, not exiting and not of the
  caller's own thread group, and to which \<open>__ptrace_may_access\<close> grants access; \<open>PT_SEIZED\<close> is set
  exactly for \<open>PTRACE_SEIZE\<close>.  In particular a traced task cannot be attached to a second time.
\<close>

theorem ptrace_attach_makes_tracer:
  assumes "keeps_links E" "links_ok k"
  shows "\<exists>r k'. ptrace_attach E t request addr flags k = Some (r, k') \<and> links_ok k' \<and>
    (if r \<noteq> 0 then k' = k
     else t_ptrace (tasks k t) = 0 \<and> t_ptrace (tasks k' t) \<noteq> 0 \<and> parent (tasks k' t) = cur k \<and>
       t \<in> set (ptraced (tasks k' (cur k))) \<and>
       (t_ptrace (tasks k' t) AND PT_SEIZED \<noteq> 0 \<longleftrightarrow> request = PTRACE_SEIZE) \<and>
       raw_ptrace_may_access E t PTRACE_MODE_ATTACH_REALCREDS k = 0 \<and>
       t_flags (tasks k t) AND PF_KTHREAD = 0 \<and> t_exit_state (tasks k t) = 0 \<and>
       \<not> same_thread_group (tasks k t) (tasks k (cur k)) \<and>
       (\<forall>c. c \<noteq> t \<longrightarrow> t_ptrace (tasks k' c) = t_ptrace (tasks k c) \<and> parent (tasks k' c) = parent (tasks k c)))"
  using assms
proof (cases rule: ptrace_attach_cases [where t = t and request = request and addr = addr and flags = flags])
  case (refused r)
  with assms(2) show ?thesis by auto
next
  case (attached k')
  moreover from this have "t \<in> set (ptraced (tasks k' (cur k)))" by (simp add: links_except_def)
  ultimately show ?thesis by auto
qed

theorem ptrace_attach_makes_tracer_witness:
  "\<exists>r k'. ptrace_attach penv0 2 PTRACE_ATTACH 0 0 kst0 = Some (r, k') \<and> links_ok k'"
  using ptrace_attach_makes_tracer [OF penv0_keeps kst0_links, of 2 PTRACE_ATTACH 0 0] by blast


text \<open>
  C38. A task that leaves ptrace conforms to the group stop of its thread group: after
  \<open>__ptrace_unlink\<close> it is untraced and back with its real parent, no trap is pending and \<open>TRAPPING\<close> is
  clear, and if the group is stopped or stopping and the task is not exiting, \<open>JOBCTL_STOP_PENDING\<close> is
  set together with a signal number to report.
\<close>

theorem ptrace_unlink_conforms_to_group_stop:
  assumes "keeps_links E" "jobctl_ok E" "links_ok k" "t_ptrace (tasks k c) \<noteq> 0"
  shows "\<exists>k'. raw_ptrace_unlink E c k = Some k' \<and> links_ok k' \<and>
    t_ptrace (tasks k' c) = 0 \<and> parent (tasks k' c) = real_parent (tasks k c) \<and>
    t_jobctl (tasks k' c) AND (JOBCTL_TRAP_MASK OR JOBCTL_TRAPPING) = 0 \<and>
    (t_flags (tasks k c) AND PF_EXITING = 0 \<and>
       (sig_flags (signals k (t_signal (tasks k c))) AND SIGNAL_STOP_STOPPED \<noteq> 0 \<or>
        group_stop_count (signals k (t_signal (tasks k c))) \<noteq> 0) \<longrightarrow>
     t_jobctl (tasks k' c) AND JOBCTL_STOP_PENDING \<noteq> 0 \<and> t_jobctl (tasks k' c) AND JOBCTL_STOP_SIGMASK \<noteq> 0)"
proof -
  obtain k' where k': "raw_ptrace_unlink E c k = Some k'" "links_ok k'"
    "t_ptrace (tasks k' c) = 0" "parent (tasks k' c) = real_parent (tasks k c)"
    using raw_ptrace_unlink_result [OF assms(1,3,4)] by metis
  define k1 where "k1 = upd_task c (\<lambda>t. t\<lparr>t_ptrace := 0\<rparr>)
    (upd_task c (\<lambda>t. t\<lparr>ptracer_cred := None\<rparr>) (ptrace_list_del c
      (upd_task c (\<lambda>t. t\<lparr>parent := real_parent t\<rparr>) (upd_task c (\<lambda>t. t\<lparr>tif_syscall_trace := False\<rparr>) k))))"
  define k2 where "k2 = task_clear_jobctl_pending E c JOBCTL_TRAP_MASK k1"
  define k3 where "k3 = task_clear_jobctl_trapping E c k2"
  have f1: "signals k1 = signals k" "t_signal (tasks k1 c) = t_signal (tasks k c)" "t_flags (tasks k1 c) = t_flags (tasks k c)"
    by (simp_all add: k1_def ptrace_list_del_def)
  have f2: "signals k2 = signals k" "t_signal (tasks k2 c) = t_signal (tasks k c)" "t_flags (tasks k2 c) = t_flags (tasks k c)"
    "t_jobctl (tasks k2 c) AND NOT JOBCTL_TRAPPING = t_jobctl (tasks k1 c) AND NOT JOBCTL_TRAP_MASK AND NOT JOBCTL_TRAPPING"
    using assms(2) f1 unfolding jobctl_ok_def Let_def k2_def by simp_all
  have f3: "signals k3 = signals k" "t_signal (tasks k3 c) = t_signal (tasks k c)" "t_flags (tasks k3 c) = t_flags (tasks k c)"
    "t_jobctl (tasks k3 c) = t_jobctl (tasks k2 c) AND NOT JOBCTL_TRAPPING"
    using assms(2) f2 unfolding jobctl_ok_def Let_def k3_def by simp_all
  have "t_jobctl (tasks k3 c) AND 0x380000 = 0"
    unfolding f3(4) f2(4) by (simp add: and.assoc)
  note bits = reinstate_group_stop_bits [OF this, unfolded f3]
  let ?k4 = "reinstate_group_stop c k3"
  have "raw_ptrace_unlink E c k = Some (if t_jobctl (tasks ?k4 c) AND JOBCTL_STOP_PENDING \<noteq> 0 \<or> task_is_traced (tasks ?k4 c)
      then ptrace_signal_wake_up E c True ?k4 else ?k4)"
    using assms(4) by (simp only: raw_ptrace_unlink_def Let_def k1_def k2_def k3_def if_False)
  then have j: "t_jobctl (tasks k' c) = t_jobctl (tasks ?k4 c)"
    using k'(1) assms(2) by (auto simp: ptrace_signal_wake_up_def jobctl_ok_def)
  have "t_jobctl (tasks k' c) AND (JOBCTL_TRAP_MASK OR JOBCTL_TRAPPING) = 0"
    using bits(1) j by simp
  with k' bits(2) j show ?thesis by auto
qed

theorem ptrace_unlink_conforms_to_group_stop_witness:
  "\<exists>k'. raw_ptrace_unlink penv0 2 kst1 = Some k' \<and> t_ptrace (tasks k' 2) = 0 \<and> parent (tasks k' 2) = 0"
proof -
  have "t_ptrace (tasks kst1 2) \<noteq> 0" "real_parent (tasks kst1 2) = 0" by (simp_all add: kst1_def task0_def)
  with ptrace_unlink_conforms_to_group_stop [OF penv0_keeps penv0_jobctl kst1_links] show ?thesis by metis
qed




text \<open>
  C35. The freezing protocol: \<open>ptrace_check_attach\<close> accepts a request that needs a stopped tracee only
  from its tracer and only when the tracee is stopped in a trap, with no \<open>SIGKILL\<close> pending, not
  listening and off the CPU; it then holds it in \<open>__TASK_TRACED\<close>, where \<open>TASK_WAKEKILL\<close> is clear, so
  that not even \<open>SIGKILL\<close> wakes it.  \<open>ptrace_unfreeze_traced\<close> gives the state \<open>TASK_TRACED\<close> back, or
  lets the tracee go if \<open>SIGKILL\<close> has arrived meanwhile.  Anyone else gets \<open>ESRCH\<close> and changes nothing.
\<close>

theorem ptrace_freeze_protocol:
  assumes "ptrace_check_attach E c False k = (r, k')"
  shows "(r = 0 \<longrightarrow> t_ptrace (tasks k c) \<noteq> 0 \<and> parent (tasks k c) = cur k \<and> task_is_traced (tasks k c) \<and>
       \<not> raw_fatal_signal_pending (tasks k c) \<and> t_jobctl (tasks k c) AND JOBCTL_LISTENING = 0 \<and>
       wait_task_inactive E c raw_TASK_TRACED k' \<and>
       k' = upd_task c (\<lambda>t. t\<lparr>t_state := raw_TASK_TRACED\<rparr>) k \<and> t_state (tasks k' c) AND 128 = 0) \<and>
    (t_ptrace (tasks k c) = 0 \<or> parent (tasks k c) \<noteq> cur k \<longrightarrow> r = - ESRCH \<and> k' = k) \<and>
    (\<forall>k''. r = 0 \<and> t_state (tasks k'' c) = t_state (tasks k' c) \<longrightarrow>
       ptrace_unfreeze_traced E c k'' =
         (if raw_fatal_signal_pending (tasks k'' c) then wake_up_state E c raw_TASK_TRACED k''
          else upd_task c (\<lambda>t. t\<lparr>t_state := TASK_TRACED\<rparr>) k''))"
  using assms
  by (cases rule: ptrace_check_attach_cases)
    (use assms in \<open>auto simp: ptrace_unfreeze_traced_def ptrace_check_attach_def\<close>)

theorem ptrace_freeze_protocol_witness:
  "\<exists>k'. ptrace_check_attach penv0 2 False kst1 = (0, k') \<and> t_state (tasks k' 2) = raw_TASK_TRACED \<and>
     t_state (tasks (ptrace_unfreeze_traced penv0 2 k') 2) = TASK_TRACED"
proof -
  obtain r k' where c: "ptrace_check_attach penv0 2 False kst1 = (r, k')" by fastforce
  have "r = 0"
    using c by (simp add: ptrace_check_attach_def ptrace_freeze_traced_def kst1_def kst0_def task0_def penv0_def
        task_is_traced_def raw_fatal_signal_pending_def sigismember_def)
  have n: "\<not> raw_fatal_signal_pending (tasks kst1 2\<lparr>t_state := 8\<rparr>)"
    by (simp add: raw_fatal_signal_pending_def kst1_def kst0_def task0_def sigismember_def)
  from ptrace_freeze_protocol [OF c] \<open>r = 0\<close>
  have k': "k' = upd_task 2 (\<lambda>t. t\<lparr>t_state := raw_TASK_TRACED\<rparr>) kst1" and
    u: "ptrace_unfreeze_traced penv0 2 k' = (if raw_fatal_signal_pending (tasks k' 2) then wake_up_state penv0 2 raw_TASK_TRACED k'
          else upd_task 2 (\<lambda>t. t\<lparr>t_state := TASK_TRACED\<rparr>) k')"
    by blast+
  show ?thesis by (rule exI [of _ k']) (use c \<open>r = 0\<close> n u in \<open>simp add: k'\<close>)
qed

text \<open>
  \<open>PTRACE_SETOPTIONS\<close> either fails with \<open>EINVAL\<close> or \<open>EPERM\<close> and changes nothing, or sets exactly
  the options given: they read back from the option bits of \<open>task->ptrace\<close>, and the bits \<open>PT_PTRACED\<close>
  and \<open>PT_SEIZED\<close> stay as they were.
\<close>

theorem ptrace_setoptions_reads_back:
  "\<exists>r k'. ptrace_setoptions E c data k = (r, k') \<and>
    (if r \<noteq> 0 then r \<in> {- EINVAL, - EPERM} \<and> k' = k
     else data AND NOT PTRACE_O_MASK = 0 \<and>
       drop_bit PT_OPT_FLAG_SHIFT (ucast (t_ptrace (tasks k' c))) AND PTRACE_O_MASK = data \<and>
       bit (t_ptrace (tasks k' c)) 0 = bit (t_ptrace (tasks k c)) 0 \<and>
       bit (t_ptrace (tasks k' c)) 16 = bit (t_ptrace (tasks k c)) 16 \<and>
       tasks k' = (tasks k)(c := tasks k' c))"
proof (cases rule: ptrace_setoptions_cases [of E c data k])
  case (refused r)
  then show ?thesis by auto
next
  case set
  then show ?thesis by (auto simp: set_opt_bits_keeps set_opt_bits_read fun_eq_iff)
qed

text \<open>
  C39. Without \<open>CAP_SYS_PTRACE\<close> over the target's user namespace, access to a task of another thread
  group is granted only if the caller's uid and gid (the filesystem ids under \<open>PTRACE_MODE_FSCREDS\<close>,
  the real ids under \<open>PTRACE_MODE_REALCREDS\<close>) are the target's real, effective and saved ids, and only
  if the target is dumpable; a mode with neither or both of the two flags is always denied.
\<close>

theorem ptrace_may_access_denies:
  assumes "ptrace_may_access E t mode k" "\<not> ptrace_has_cap E (cr_user_ns (t_cred (tasks k t))) mode k"
    "\<And>mm. t_mm (tasks k t) = Some mm \<Longrightarrow> \<not> ptrace_has_cap E (mm_user_ns (mms k mm)) mode k"
    "\<not> same_thread_group (tasks k t) (tasks k (cur k))"
  shows "(mode AND PTRACE_MODE_FSCREDS = 0) \<noteq> (mode AND PTRACE_MODE_REALCREDS = 0) \<and>
    (let cred = t_cred (tasks k (cur k)); tcred = t_cred (tasks k t);
         uid = (if mode AND PTRACE_MODE_FSCREDS \<noteq> 0 then cr_fsuid cred else cr_uid cred);
         gid = (if mode AND PTRACE_MODE_FSCREDS \<noteq> 0 then cr_fsgid cred else cr_gid cred)
     in cr_uid tcred = uid \<and> cr_euid tcred = uid \<and> cr_suid tcred = uid \<and>
        cr_gid tcred = gid \<and> cr_egid tcred = gid \<and> cr_sgid tcred = gid) \<and>
    (\<forall>mm. t_mm (tasks k t) = Some mm \<longrightarrow> get_dumpable (mms k mm) = SUID_DUMP_USER) \<and>
    security_ptrace_access_check E t mode k = 0"
  using assms
  by (auto simp: ptrace_may_access_def raw_ptrace_may_access_def Let_def split: if_splits option.splits)

theorem ptrace_may_access_denies_witness:
  "ptrace_may_access penv0 2 PTRACE_MODE_ATTACH_REALCREDS kst0 \<and> cr_uid (t_cred (tasks kst0 2)) = cr_uid (t_cred (tasks kst0 1))"
proof -
  have a: "ptrace_may_access penv0 2 PTRACE_MODE_ATTACH_REALCREDS kst0"
    "\<not> ptrace_has_cap penv0 ns PTRACE_MODE_ATTACH_REALCREDS kst0"
    "\<not> same_thread_group (tasks kst0 2) (tasks kst0 (cur kst0))" for ns
    by (simp_all add: ptrace_may_access_def raw_ptrace_may_access_def ptrace_has_cap_def penv0_def kst0_def task0_def
        same_thread_group_def get_dumpable_def raw_get_dumpable_def mm0_def)
  from ptrace_may_access_denies [OF a(1,2,2,3)] a(1) show ?thesis by (simp add: kst0_def Let_def)
qed

text \<open>
  Transfer of data from a tracee comes back: as long as the access to the other address space
  reports between 0 and the number of bytes asked for, \<open>ptrace_readdata\<close> returns, with the number of
  bytes copied, at most those asked for, or with \<open>EIO\<close> or \<open>EFAULT\<close>.
\<close>

lemma ptrace_readdata_loop_returns:
  assumes acc: "\<And>src buf k. 0 \<le> fst (ptrace_access_vm E tsk src buf FOLL_FORCE k) \<and>
      fst (ptrace_access_vm E tsk src buf FOLL_FORCE k) \<le> int (length buf)"
  shows "0 \<le> copied \<Longrightarrow> \<exists>r k'. ptrace_readdata_loop E tsk src dst len copied k = Some (r, k') \<and>
    (r \<in> {- EIO, - EFAULT} \<or> 0 \<le> r \<and> r \<le> copied + max 0 len)"
proof (induction "nat len" arbitrary: src dst len copied k rule: less_induct)
  case less
  show ?case
  proof (cases "len > 0")
    case False
    then show ?thesis using less.prems by (auto simp: ptrace_readdata_loop.simps [of E tsk src dst len])
  next
    case True
    define n where "n = (if len > BUF_SIZE then BUF_SIZE else len)"
    obtain ret buf k1 where a: "ptrace_access_vm E tsk src (replicate (nat n) 0) FOLL_FORCE k = (ret, buf, k1)"
      by (cases "ptrace_access_vm E tsk src (replicate (nat n) 0) FOLL_FORCE k") auto
    have ret: "0 \<le> ret" "ret \<le> len"
      using acc [of src "replicate (nat n) 0" k] True unfolding a by (auto simp: n_def split: if_splits)
    obtain ok um where c: "copy_to_user (umem k1) dst (take (nat ret) buf) = (ok, um)" by fastforce
    show ?thesis
    proof (cases "ret = 0 \<or> \<not> ok")
      case stop: True
      with True a c ret less.prems show ?thesis
        by (auto simp: ptrace_readdata_loop.simps [of E tsk src dst len] Let_def simp flip: n_def)
    next
      case False
      then have dec: "nat (len - ret) < nat len" using ret True by auto
      have rec: "ptrace_readdata_loop E tsk src dst len copied k =
          ptrace_readdata_loop E tsk (src + of_int ret) (dst + of_int ret) (len - ret) (copied + ret) (k1\<lparr>umem := um\<rparr>)"
        using True False a c by (simp add: ptrace_readdata_loop.simps [of E tsk src dst len] Let_def flip: n_def)
      have "0 \<le> copied + ret" using less.prems ret by simp
      from less.hyps [OF dec this, of "src + of_int ret" "dst + of_int ret" "k1\<lparr>umem := um\<rparr>"]
      show ?thesis unfolding rec using ret by (smt (verit))
    qed
  qed
qed

theorem ptrace_readdata_returns:
  assumes "\<And>src buf k. 0 \<le> fst (ptrace_access_vm E tsk src buf FOLL_FORCE k) \<and>
      fst (ptrace_access_vm E tsk src buf FOLL_FORCE k) \<le> int (length buf)"
  shows "\<exists>r k'. ptrace_readdata E tsk src dst len k = Some (r, k') \<and>
    (r \<in> {- EIO, - EFAULT} \<or> 0 \<le> r \<and> r \<le> max 0 len)"
  using ptrace_readdata_loop_returns [of E tsk 0, OF assms] by (simp add: ptrace_readdata_def)

theorem ptrace_readdata_returns_witness:
  "\<exists>r k'. ptrace_readdata penv0 2 0 0 300 kst1 = Some (r, k') \<and> (r \<in> {- EIO, - EFAULT} \<or> 0 \<le> r \<and> r \<le> 300)"
proof -
  have "0 \<le> fst (ptrace_access_vm penv0 2 src buf FOLL_FORCE k) \<and>
      fst (ptrace_access_vm penv0 2 src buf FOLL_FORCE k) \<le> int (length buf)" for src buf k
    by (simp add: ptrace_access_vm_def penv0_def split: option.splits)
  from ptrace_readdata_returns [of penv0 2, OF this, of 0 0 300 kst1] show ?thesis by simp
qed


lemma copy_to_user_writable: "(\<And>x. um_write um x) \<Longrightarrow> fst (copy_to_user um a bs)"
  by (induction um a bs rule: copy_to_user.induct) auto

lemma user_numeral:
  "user_bytes um a (numeral n) = um_byte um a # user_bytes um (a + 1) (pred_numeral n)"
  "user_readable um a (numeral n) \<longleftrightarrow> um_read um a \<and> user_readable um (a + 1) (pred_numeral n)"
  by (simp_all add: numeral_eq_Suc)


end
