(* ===== verification/Mm_Example.thy ===== *)
theory Mm_Example
  imports Mremap_Correct Fd_Properties Ptrace_Properties
begin

text \<open>
  A concrete environment of the memory management: balanced trees as lists, tables that are always
  allocated, limits that are never reached.  It meets every assumption the theorems on address spaces
  and page tables make on code outside these sources, so that they can be applied to it.
\<close>

unbundle bit_operations_syntax

section \<open>A concrete environment\<close>

fun list_tree :: "vma_ptr list \<Rightarrow> rb_tree" where
  "list_tree [] = Rb_null"
| "list_tree (p # ps) = Rb_node Rb_null p (list_tree ps)"

definition new_id :: "vm_area_struct list \<Rightarrow> vma_ptr" where
  "new_id vs = Suc (foldr max (map vm_id vs) 0)"

text \<open>The macros \<open>pgd_addr_end\<close>, \<open>pud_addr_end\<close> and \<open>pmd_addr_end\<close>.\<close>

definition addr_end :: "nat \<Rightarrow> 64 word \<Rightarrow> 64 word \<Rightarrow> 64 word" where
  "addr_end k a b = (let boundary = push_bit k (drop_bit k a + 1) in if boundary - 1 < b - 1 then boundary else b)"

definition ptenv0 :: pt_env where
  "ptenv0 = \<lparr>pgd_addr_end = addr_end 39, pud_addr_end = addr_end 30, pmd_addr_end = addr_end 21,
     pgd_none_or_clear_bad = (\<lambda>a pt. (pgd_at pt a \<noteq> Dir_table, if pgd_at pt a = Dir_bad then pt\<lparr>pt_pgd := (pt_pgd pt)(drop_bit 39 a := Dir_none)\<rparr> else pt)),
     pud_none_or_clear_bad = (\<lambda>a pt. (pud_at pt a \<noteq> Dir_table, if pud_at pt a = Dir_bad then pt\<lparr>pt_pud := (pt_pud pt)(drop_bit 30 a := Dir_none)\<rparr> else pt)),
     pmd_none_or_clear_bad = (\<lambda>a pt. (pmd_at pt a \<noteq> Pmd_table, if pmd_at pt a \<noteq> Pmd_table \<and> pmd_at pt a \<noteq> Pmd_none then set_pmd_at a Pmd_none pt else pt)),
     pmd_trans_unstable = (\<lambda>a pt. (pmd_at pt a \<noteq> Pmd_table, pt)),
     pte_none = (\<lambda>v. v = 0), pte_present = (\<lambda>v. bit v 0), pte_write = (\<lambda>v. bit v 1), pte_dirty = (\<lambda>v. bit v 6),
     pte_soft_dirty = (\<lambda>v. bit v 11), pte_protnone = (\<lambda>v. bit v 8), pte_modify = (\<lambda>v p. (v AND NOT 0x7) OR (p AND 0x7)),
     pte_mkwrite = (\<lambda>v. v OR 0x2), pte_mksoft_dirty = (\<lambda>v. v OR 0x800), is_swap_pte = (\<lambda>v. v \<noteq> 0 \<and> \<not> bit v 0),
     pte_swp_soft_dirty = (\<lambda>v. bit v 7), pte_swp_mksoft_dirty = (\<lambda>v. v OR 0x80), is_write_migration_entry = (\<lambda>v. False),
     make_migration_entry_read = (\<lambda>v. v), move_pte = (\<lambda>v p a b. v), migration_config = False, mem_soft_dirty_config = False,
     vm_normal_page = (\<lambda>vma a v. Some (unat (drop_bit 12 v))), page_is_ksm = (\<lambda>p. False), split_huge_pmd = (\<lambda>a pt. pt),
     change_huge_pmd = (\<lambda>vma a p n pt. (0, pt)), hugetlb_change_protection = (\<lambda>vma a b p pt. (0, pt)),
     move_huge_pmd = (\<lambda>a b e pt. (False, pt)),
     raw_pud_alloc = (\<lambda>a pt. (0, pt\<lparr>pt_pgd := (pt_pgd pt)(drop_bit 39 a := Dir_table), pt_pud := (\<lambda>i. if drop_bit 9 i = drop_bit 39 a then Dir_none else pt_pud pt i)\<rparr>)),
     raw_pmd_alloc = (\<lambda>a pt. (0, pt\<lparr>pt_pud := (pt_pud pt)(drop_bit 30 a := Dir_table), pt_pmd := (\<lambda>i. if drop_bit 9 i = drop_bit 30 a then Pmd_none else pt_pmd pt i)\<rparr>)),
     raw_pte_alloc = (\<lambda>a pt. (0, pt\<lparr>pt_pmd := (pt_pmd pt)(drop_bit 21 a := Pmd_table), pt_pte := (\<lambda>i. if drop_bit 9 i = drop_bit 21 a then 0 else pt_pte pt i)\<rparr>))\<rparr>"


definition menv_base :: mm_env where
  "menv_base = \<lparr>vfs = env0, pgt = ptenv0, f_mapping = (\<lambda>f. f), rb_insert_color = (\<lambda>p t. t),
     rb_erase_augmented = (\<lambda>p t. list_tree (filter (\<lambda>q. q \<noteq> p) (inorder t))), vmacache_find = (\<lambda>mm a. None),
     kmem_cache_alloc = (\<lambda>s. Some (new_id (mmap (st_mm s)))), vma_dup_policy = (\<lambda>v. (0, vm_policy v)), mpol_equal = (\<lambda>p q. p = q),
     anon_vma_clone = (\<lambda>d v. (0, d)), anon_vma_prepare = (\<lambda>v. (0, v)), is_hugepage_only_range = (\<lambda>a l. False),
     huge_page_mask = (\<lambda>v. NOT 0x1fffff), sysctl_max_map_count = 65530, TASK_SIZE = 0x7ffffffff000, TASK_UNMAPPED_BASE = 0x2aaaaaaaa000,
     rlimit_as = - 1, rlimit_data = - 1, rlimit_max_data = - 1, rlimit_memlock = 0x10000, rlimit_stack = 0x800000, ignore_rlimit_data = False, capable_ipc_lock = False,
     security_vm_enough_memory_mm = (\<lambda>s n. (0, s\<lparr>vm_committed_as := vm_committed_as s + uint n\<rparr>)),
     protection_map = (\<lambda>i. i), arch_vm_get_page_prot = (\<lambda>f. 0), pgprot_modify = (\<lambda>old new. new), soft_dirty_config = True,
     mapping_cap_account_dirty = (\<lambda>m. False), unmap_vmas = (\<lambda>a b t. t), free_pgtables = (\<lambda>vs s. s), mmap_sem_killed = False,
     arch_mmap_check = (\<lambda>a l f. 0), security_mmap_addr = (\<lambda>a. 0), security_mmap_file = (\<lambda>f p l. 0), execute_only_pkey = (\<lambda>mm. - 1),
     calc_vm_prot_bits = (\<lambda>p k. p AND 7), calc_vm_flag_bits = (\<lambda>f. 0), can_do_mlock = True, path_noexec = (\<lambda>f. False),
     is_append = (\<lambda>m. False), locks_verify_locked = (\<lambda>f. 0), is_file_hugepages = (\<lambda>f. False), huge_page_size = (\<lambda>f. 0x200000),
     hstate_sizelog = (\<lambda>l. None), hugetlb_file_setup = (\<lambda>l k h. (Inl (- ENOMEM), h)), has_f_op_mmap = (\<lambda>f. True),
     f_op_mmap = (\<lambda>f v. (0, v)), f_op_get_unmapped_area = (\<lambda>f. None), shmem_get_unmapped_area = (\<lambda>mm a l p f. ulong (- ENOMEM)),
     shmem_zero_setup = (\<lambda>v s. (- ENOMEM, v, s)), deny_write_access = (\<lambda>a. (0, a\<lparr>i_writecount := i_writecount a - 1\<rparr>)),
     mapping_map_writable = (\<lambda>a. (0, a\<lparr>i_mmap_writable := i_mmap_writable a + 1\<rparr>)), overcommit_never = False, VM_DATA_DEFAULT_FLAGS = 0x77,
     mmap_min_addr = 0x10000, arch_validate_prot = (\<lambda>p. p AND NOT 7 = 0), mm_pkey_is_allocated = (\<lambda>mm k. False),
     mm_pkey_alloc = (\<lambda>mm. (- 1, mm)), mm_pkey_free = (\<lambda>mm k. (- EINVAL, mm)), arch_set_user_pkey_access = (\<lambda>k v. - EINVAL),
     arch_override_mprotect_pkey = (\<lambda>v p k. 0), arch_vm_pkey_flags = 0, security_file_mprotect = (\<lambda>v r p. 0),
     ksm_madvise = (\<lambda>v a b f t. (0, f, t)), vm_ops_mremap = (\<lambda>v. 0)\<rparr>"

text \<open>\<open>free_pgtables\<close> takes the areas off the trees of their files.\<close>

definition menv0 :: mm_env where
  "menv0 = menv_base\<lparr>free_pgtables := fold (unlink_file_vma menv_base)\<rparr>"

lemma inorder_list_tree [simp]: "inorder (list_tree ps) = ps"
  by (induction ps) auto

lemma new_id_fresh: "v \<in> set vs \<Longrightarrow> vm_id v < new_id vs"
  by (induction vs) (auto simp: new_id_def less_Suc_eq_le max_def)

lemma unlink_base: "unlink_file_vma menv_base = unlink_file_vma menv0"
  by (simp add: fun_eq_iff unlink_file_vma_def raw_remove_shared_vm_struct_def menv0_def split: option.split)

lemma menv0_ok: "mm_env_ok menv0"
proof -
  have "pgtables_ok menv0"
    unfolding pgtables_ok_def
  proof (intro allI)
    fix vs s
    have "free_pgtables menv0 vs s = set_pgd (pgd (st_mm (fold (unlink_file_vma menv0) vs s))) (fold (unlink_file_vma menv0) vs s)"
      by (simp add: set_pgd_def unlink_base [symmetric]) (simp add: menv0_def)
    then show "\<exists>t. free_pgtables menv0 vs s = set_pgd t (fold (unlink_file_vma menv0) vs s)" by blast
  qed
  moreover have "clone_ok menv0" "vmacache_ok menv0" by (simp_all add: clone_ok_def vmacache_ok_def menv0_def menv_base_def)
  moreover have "rb_ok menv0" by (simp add: rb_ok_def menv0_def menv_base_def)
  moreover have "alloc_ok menv0" using new_id_fresh by (fastforce simp: alloc_ok_def menv0_def menv_base_def)
  moreover have "vfs_ok (vfs menv0)" using env0_vfs by (simp add: menv0_def menv_base_def)
  ultimately show ?thesis by (simp add: mm_env_ok_def menv0_def menv_base_def aligned_def offset_in_page_def)
qed

lemma menv0_files: "enough_memory_ok menv0" "mmap_env_ok menv0" "area_methods_ok menv0" "hugetlb_ok menv0"
proof -
  show e: "enough_memory_ok menv0" by (auto simp: enough_memory_ok_def menv0_def menv_base_def)
  have "mmap_files_ok menv0" by (auto simp: mmap_files_ok_def menv0_def menv_base_def)
  with e show "mmap_env_ok menv0" using menv0_ok by (simp add: mmap_env_ok_def)
  show "area_methods_ok menv0" by (simp add: area_methods_ok_def menv0_def menv_base_def IS_ERR_VALUE_def)
  show "hugetlb_ok menv0" by (simp add: hugetlb_ok_def menv0_def menv_base_def)
qed

lemma menv0_remap: "remap_errno_ok menv0"
  by (simp add: remap_errno_ok_def split_errno_ok_def menv0_def menv_base_def)

lemma menv0_prot: "prot_env_ok menv0"
proof -
  have "(p AND 7) AND 7 = p AND (7 :: 64 word)" "(p AND 7) AND NOT 7 = (0 :: 64 word)" for p
    by (simp_all add: and.assoc)
  then show ?thesis by (simp add: prot_env_ok_def menv0_def menv_base_def)
qed

lemma menv0_hugetlb: "no_hugetlb menv0 mm0"
  by (simp add: no_hugetlb_def mm0_def menv0_def menv_base_def and.assoc)

lemma len64: "LENGTH(64) = 64"
  by simp

lemma addr_end_next:
  assumes k: "12 \<le> k" "k < 64"
  shows "addr_end_ok k (addr_end k)"
  unfolding addr_end_ok_def
proof (intro allI impI)
  fix a b :: "64 word"
  assume al: "aligned a" "aligned b" "a < b"
  define q where "q = unat a div 2 ^ k"
  define B :: "64 word" where "B = push_bit k (drop_bit k a + 1)"
  have ua: "unat a < 2 ^ 64" "unat b < 2 ^ 64" using unsigned_less [of a] unsigned_less [of b] by simp_all
  have b0: "b \<noteq> 0" using al(3) by auto
  have lt: "unat a < unat b" using al(3) by (simp add: word_less_nat_alt)
  have pw: "(2::nat) ^ 64 = 2 ^ (64 - k) * 2 ^ k" using k by (simp add: power_add [symmetric])
  have q: "q * 2 ^ k \<le> unat a" "unat a < (q + 1) * 2 ^ k"
    by (simp_all add: q_def) (metis add.commute dividend_less_div_times mult.commute zero_less_numeral zero_less_power)
  have ud: "unat (drop_bit k x) = unat x div 2 ^ k" for x :: "64 word" unfolding unat_drop_bit_eq by (simp add: drop_bit_eq_div)
  have dq: "drop_bit k a = of_nat q" unfolding q_def ud [symmetric] by simp
  have B: "B = of_nat ((q + 1) * 2 ^ k)" by (simp add: B_def dq push_bit_eq_mult algebra_simps)
  have qq: "(q + 1) * 2 ^ k \<le> 2 ^ 64"
  proof -
    have "q < 2 ^ (64 - k)" using q(1) ua(1) unfolding pw by (metis le_less_trans mult_less_cancel2)
    then show ?thesis unfolding pw by (intro mult_le_mono1) simp
  qed
  have uB: "unat B = (q + 1) * 2 ^ k" if "(q + 1) * 2 ^ k \<noteq> 2 ^ 64"
  proof -
    have "(q + 1) * 2 ^ k < 2 ^ 64" using qq that by (rule le_neq_implies_less)
    then have "(q + 1) * 2 ^ k mod 2 ^ 64 = (q + 1) * 2 ^ k" by (rule mod_less)
    then show ?thesis unfolding B unat_of_nat by (simp only: len64)
  qed
  have same: "drop_bit k x = drop_bit k a" if "unat a \<le> unat x" "unat x < (q + 1) * 2 ^ k" for x
  proof -
    have "unat x div 2 ^ k = q"
    proof (rule antisym)
      show "unat x div 2 ^ k \<le> q" using that(2) less_mult_imp_div_less [of "unat x" "q + 1" "2 ^ k"] by simp
      show "q \<le> unat x div 2 ^ k" unfolding q_def using that(1) by (rule div_le_mono)
    qed
    then show ?thesis by (simp add: word_unat_eq_iff ud q_def)
  qed
  show "a < addr_end k a b \<and> addr_end k a b \<le> b \<and> aligned (addr_end k a b) \<and> (\<forall>x. a \<le> x \<and> x < addr_end k a b \<longrightarrow> drop_bit k x = drop_bit k a)"
  proof (cases "B - 1 < b - 1")
    case True
    then have e: "addr_end k a b = B" by (simp add: addr_end_def B_def [symmetric])
    have ne: "B \<noteq> 0"
    proof
      assume "B = 0"
      then have "- 1 < b - 1" using True by simp
      moreover have "b - 1 \<le> - 1" by simp
      ultimately show False by (simp add: not_le [symmetric])
    qed
    have "(q + 1) * 2 ^ k \<noteq> 2 ^ 64"
    proof
      assume "(q + 1) * 2 ^ k = 2 ^ 64"
      then have "B = of_nat (2 ^ 64)" unfolding B by (rule arg_cong)
      then show False using ne by simp
    qed
    then have uB: "unat B = (q + 1) * 2 ^ k" by (rule uB)
    have "unat (B - 1) = unat B - 1" "unat (b - 1) = unat b - 1" using ne b0 by (simp_all add: unat_minus_one)
    then have lb: "unat B < unat b" using True by (simp add: word_less_nat_alt)
    have "(4096::nat) dvd 2 ^ k" using le_imp_power_dvd [OF k(1), of "2::nat"] by simp
    then have "aligned B" unfolding aligned_unat uB by (metis dvd_eq_mod_eq_0 dvd_mult)
    have "a < B" unfolding word_less_nat_alt uB by (rule q(2))
    moreover have "B \<le> b" unfolding word_le_nat_alt using lb by (rule less_imp_le)
    moreover have "drop_bit k x = drop_bit k a" if "a \<le> x" "x < B" for x
      by (rule same) (use that in \<open>simp_all only: word_less_nat_alt word_le_nat_alt uB\<close>)
    ultimately show ?thesis unfolding e using \<open>aligned B\<close> by blast
  next
    case False
    then have e: "addr_end k a b = b" by (simp add: addr_end_def B_def [symmetric])
    have "unat b \<le> (q + 1) * 2 ^ k"
    proof (cases "(q + 1) * 2 ^ k = 2 ^ 64")
      case False
      then have uB: "unat B = (q + 1) * 2 ^ k" by (rule uB)
      then have "B \<noteq> 0" using q(2) by auto
      then have "unat (B - 1) = unat B - 1" "unat (b - 1) = unat b - 1" using b0 by (simp_all add: unat_minus_one)
      then have "unat b - 1 \<le> unat B - 1" using \<open>\<not> B - 1 < b - 1\<close> by (simp add: word_less_nat_alt)
      then show ?thesis using uB lt q(2) by linarith
    qed (use ua in simp)
    then have "drop_bit k x = drop_bit k a" if "a \<le> x" "x < b" for x
      using that by (intro same less_le_trans [OF that(2) [unfolded word_less_nat_alt]]) (simp_all only: word_le_nat_alt)
    then show ?thesis unfolding e using al by blast
  qed
qed

lemma ptenv0_tests: "table_tests_ok ptenv0"
  by (simp add: table_tests_ok_def ptenv0_def)

lemma ptenv0_ok: "pt_env_ok ptenv0"
proof -
  have "addr_end_ok 39 (addr_end 39)" "addr_end_ok 30 (addr_end 30)" "addr_end_ok 21 (addr_end 21)" by (rule addr_end_next; simp)+
  then show ?thesis using ptenv0_tests by (simp add: pt_env_ok_def) (simp add: ptenv0_def)
qed

lemma drop_levels: "drop_bit 9 (drop_bit 30 a) = drop_bit 39 (a :: 64 word)" "drop_bit 9 (drop_bit 21 a) = drop_bit 30 a" "drop_bit 9 (drop_bit 12 a) = drop_bit 21 a"
  by simp_all

lemma ptenv0_alloc: "table_alloc_ok ptenv0"
proof -
  have pud: "grown pt pt' \<and> (e = 0 \<longrightarrow> 1 \<le> walk_depth pt' a)"
    if "raw_pud_alloc ptenv0 a pt = (e, pt')" "sound_tables pt" "walk_depth pt a = 0" for a pt e pt'
  proof -
    have "pgd_at pt a \<noteq> Dir_table" using that(3) by (auto simp: walk_depth_def split: if_splits)
    moreover have "pt' = pt\<lparr>pt_pgd := (pt_pgd pt)(drop_bit 39 a := Dir_table), pt_pud := (\<lambda>i. if drop_bit 9 i = drop_bit 39 a then Dir_none else pt_pud pt i)\<rparr>"
      using that(1) by (simp add: ptenv0_def)
    ultimately show ?thesis using that(2)
      by (auto simp: grown_def sound_tables_def pte_val_def walk_depth_def pgd_at_def pud_at_def pmd_at_def pte_slot_def drop_levels)
  qed
  have pmd: "grown pt pt' \<and> (e = 0 \<longrightarrow> 2 \<le> walk_depth pt' a)"
    if "raw_pmd_alloc ptenv0 a pt = (e, pt')" "sound_tables pt" "walk_depth pt a = 1" for a pt e pt'
  proof -
    have "pgd_at pt a = Dir_table" "pud_at pt a \<noteq> Dir_table" using that(3) by (auto simp: walk_depth_def split: if_splits)
    moreover have "pt' = pt\<lparr>pt_pud := (pt_pud pt)(drop_bit 30 a := Dir_table), pt_pmd := (\<lambda>i. if drop_bit 9 i = drop_bit 30 a then Pmd_none else pt_pmd pt i)\<rparr>"
      using that(1) by (simp add: ptenv0_def)
    ultimately show ?thesis using that(2)
      by (auto simp: grown_def sound_tables_def pte_val_def walk_depth_def pgd_at_def pud_at_def pmd_at_def pte_slot_def drop_levels)
  qed
  have pte: "grown pt pt' \<and> (e = 0 \<longrightarrow> walk_depth pt' a = 3)"
    if "raw_pte_alloc ptenv0 a pt = (e, pt')" "sound_tables pt" "walk_depth pt a = 2" for a pt e pt'
  proof -
    have "pgd_at pt a = Dir_table" "pud_at pt a = Dir_table" "pmd_at pt a \<noteq> Pmd_table" using that(3) by (auto simp: walk_depth_def split: if_splits)
    moreover have "pt' = pt\<lparr>pt_pmd := (pt_pmd pt)(drop_bit 21 a := Pmd_table), pt_pte := (\<lambda>i. if drop_bit 9 i = drop_bit 21 a then 0 else pt_pte pt i)\<rparr>"
      using that(1) by (simp add: ptenv0_def)
    ultimately show ?thesis using that(2)
      by (auto simp: grown_def sound_tables_def pte_val_def walk_depth_def pgd_at_def pud_at_def pmd_at_def pte_slot_def drop_levels)
  qed
  have "pte_none ptenv0 v \<longleftrightarrow> v = 0" for v by (simp add: ptenv0_def)
  then show ?thesis unfolding table_alloc_ok_def using pud pmd pte ptenv0_tests by blast
qed

end
