(* ===== verification/Mm_Properties.thy ===== *)
theory Mm_Properties
  imports Mm_Example
begin

text \<open>
  The properties of address spaces: lookup, merging, splitting and unmapping of areas, the search for
  a gap, and the requests \<open>mmap\<close>, \<open>mprotect\<close> and \<open>mremap\<close> on the address space of a tracee.
\<close>

unbundle bit_operations_syntax

text \<open>
  An address space with an anonymous area of four pages and two pages of file 7, and the state in
  which the current task works on its own address space or on that of another task.
\<close>

definition area1 :: vm_area_struct where
  "area1 = \<lparr>vm_id = 1, vm_start = 0x10000, vm_end = 0x14000, vm_flags = 0x100073, vm_pgoff = 0x10, vm_file = None, vm_page_prot = 3,
     anon_vma = None, anon_vma_chain = [], vm_ops = None, vm_policy = 0, vm_userfaultfd_ctx = 0\<rparr>"

definition area2 :: vm_area_struct where
  "area2 = \<lparr>vm_id = 2, vm_start = 0x20000, vm_end = 0x22000, vm_flags = 0x71, vm_pgoff = 0, vm_file = Some 7, vm_page_prot = 1,
     anon_vma = None, anon_vma_chain = [],
     vm_ops = Some \<lparr>has_close = False, has_mremap = False, has_page_mkwrite = False, has_pfn_mkwrite = False\<rparr>, vm_policy = 0, vm_userfaultfd_ctx = 0\<rparr>"

definition mm1 :: mm_struct where
  "mm1 = mm0\<lparr>mmap := [area1, area2], mm_rb := Rb_node (Rb_node Rb_null 1 Rb_null) 2 Rb_null, highest_vm_end := 0x22000, map_count := 2,
     total_vm := 6, data_vm := 4, mmap_base := 0x7ffff0000000, task_size := 0x7ffffffff000\<rparr>"

definition mst1 :: mmst where
  "mst1 = \<lparr>st_mm = mm1, st_cur = None, st_heap = heap0, st_spaces = (\<lambda>m. \<lparr>i_writecount = 0, i_mmap_writable = 0\<rparr>), vm_committed_as = 4\<rparr>"

definition mst2 :: mmst where
  "mst2 = mst1\<lparr>st_cur := Some mm0\<rparr>"

lemma mm1_ok: "mm_ok mm1"
  by (simp add: mm_ok_def tree_ok_def areas_ok_def area_ok_def aligned_def offset_in_page_def highest_end_def mm1_def area1_def area2_def)

lemma mm0_ok: "mm_ok mm0"
  by (simp add: mm_ok_def tree_ok_def areas_ok_def highest_end_def mm0_def)

lemma mst_ok: "mm_ok (st_mm mst1)" "mm_ok (cur_mm mst1)" "mm_ok (st_mm mst2)" "mm_ok (cur_mm mst2)"
  by (simp_all add: mst1_def mst2_def cur_mm_def mm1_ok mm0_ok)

lemma mst_hugetlb: "no_hugetlb menv0 (st_mm mst1)" "no_hugetlb menv0 (st_mm mst2)"
  using menv0_hugetlb by (simp_all add: no_hugetlb_def mst1_def mst2_def mm1_def)

lemma mst2_refs: "refs_ok table1 (st_heap mst2)"
  using table1_refs by (simp add: mst1_def mst2_def)

section \<open>Areas\<close>

text \<open>
  C23. \<open>find_vma\<close>, which walks the search tree after a look into the cache, returns the first area in
  address order that ends above the address, and nothing if there is none.
\<close>

theorem find_vma_first_above:
  assumes "mm_ok mm" "vmacache_ok E"
  shows "find_vma E mm a = map_option vm_id (find (\<lambda>v. a < vm_end v) (mmap mm))"
  using find_vma_list [of mm E a] assms by simp

theorem find_vma_first_above_witness:
  "mm_ok mm1 \<and> vmacache_ok menv0 \<and> find_vma menv0 mm1 0x15000 = Some 2 \<and> find_vma menv0 mm1 0x13fff = Some 1 \<and> find_vma menv0 mm1 0x22000 = None"
proof -
  have v: "vmacache_ok menv0" by (rule mm_env_okD(4) [OF menv0_ok])
  show ?thesis
    using mm1_ok v find_vma_first_above [OF mm1_ok v, of "0x15000"] find_vma_first_above [OF mm1_ok v, of "0x13fff"]
      find_vma_first_above [OF mm1_ok v, of "0x22000"]
    by (simp add: mm1_def area1_def area2_def)
qed

lemma merge_outcomeD:
  assumes "merge_outcome E s addr e flags f pgoff R"
  obtains (none) s' where "R = Some (None, s')" "now_maps E s s' (mmap (st_mm s))"
  | (some) q s' vs where "R = Some (Some q, s')" "now_maps E s s' vs" "areas_ok vs"
      "\<And>a. view_of vs a = (if addr \<le> a \<and> a < e then Some (range_attr addr flags f pgoff a) else view_of (mmap (st_mm s)) a)"
proof (cases R)
  case None
  with assms show thesis by (simp add: merge_outcome_def)
next
  case (Some p)
  obtain res s' where p: "p = (res, s')" by (cases p)
  show thesis
  proof (cases res)
    case None
    with assms Some p show thesis by (intro none) (simp_all add: merge_outcome_def)
  next
    case (Some q)
    have R: "R = Some (Some q, s')" using \<open>R = Some p\<close> p Some by simp
    from assms show thesis unfolding R merge_outcome_def option.case prod.case by (elim exE conjE) (rule some [OF R], assumption+, blast)
  qed
qed



text \<open>
  C16. Splitting an area at a page boundary cannot be seen: every address stays mapped with the same
  flags, file and offset, whether the split succeeds or fails for want of memory.  Afterwards the area
  is the part above or below the boundary, as asked for.
\<close>

theorem split_vma_invisible:
  assumes "mm_ok (st_mm s)" "mm_env_ok E" "mmap (st_mm s) = pre @ v # post" "vm_start v < a" "a < vm_end v" "aligned a"
  shows "\<exists>r s'. split_vma E (vm_id v) a below s = Some (r, s') \<and> mm_step E s s' \<and> mm_view (st_mm s') = mm_view (st_mm s) \<and>
    (r = 0 \<longrightarrow> (\<exists>w\<in>set (mmap (st_mm s')). vm_id w = vm_id v \<and> (if below then vm_start w = a \<and> vm_end w = vm_end v else vm_start w = vm_start v \<and> vm_end w = a)))"
proof -
  obtain r s' where r: "split_vma E (vm_id v) a below s = Some (r, s')" "mm_step E s s'" "mm_view (st_mm s') = mm_view (st_mm s)"
    "r = 0 \<longrightarrow> (\<exists>pre' v' post'. mmap (st_mm s') = pre' @ v' # post' \<and> vm_id v' = vm_id v \<and> vm_flags v' = vm_flags v \<and> vm_file v' = vm_file v \<and>
       (if below then vm_start v' = a \<and> vm_end v' = vm_end v \<and> vm_pgoff v' = vm_pgoff v + drop_bit 12 (a - vm_start v)
        else vm_start v' = vm_start v \<and> vm_end v' = a \<and> vm_pgoff v' = vm_pgoff v))"
    using split_vma_result [OF assms, of below] by blast
  have "\<exists>w\<in>set (mmap (st_mm s')). vm_id w = vm_id v \<and> (if below then vm_start w = a \<and> vm_end w = vm_end v else vm_start w = vm_start v \<and> vm_end w = a)"
    if r0: "r = 0"
  proof -
    obtain pre' v' post' where "mmap (st_mm s') = pre' @ v' # post'" "vm_id v' = vm_id v"
      "if below then vm_start v' = a \<and> vm_end v' = vm_end v else vm_start v' = vm_start v \<and> vm_end v' = a"
      using mp [OF r(4) r0] by (elim exE conjE) (cases below; simp)
    then show ?thesis by (intro bexI [of _ v']) auto
  qed
  then show ?thesis using r(1-3) by blast
qed

theorem split_vma_invisible_witness:
  "\<exists>r s'. split_vma menv0 1 0x12000 True mst1 = Some (r, s') \<and> mm_view (st_mm s') = mm_view (st_mm mst1)"
  using split_vma_invisible [OF mst_ok(1) menv0_ok, of "[]" area1 "[area2]" "0x12000" True]
  by (auto simp: mst1_def mm1_def area1_def area2_def aligned_def offset_in_page_def)

text \<open>
  C5. \<open>do_munmap\<close> always returns.  If it reports success, exactly the pages of the rounded range have
  gone, however the range cuts the areas; if it reports an error, the mapping is as before.  In both
  cases the invariant holds, the references to files are balanced, and \<open>total_vm\<close> has changed by the
  number of pages that went.
\<close>

theorem do_munmap_removes:
  assumes "mm_ok (st_mm s)" "mm_env_ok E"
  shows "\<exists>r s'. do_munmap E start len s = Some (r, s') \<and> mm_ok (st_mm s') \<and> bal E s' = bal E s \<and>
    total_vm (st_mm s') - pages_of (mmap (st_mm s')) = total_vm (st_mm s) - pages_of (mmap (st_mm s)) \<and>
    mm_view (st_mm s') = (if r = 0 then clear_view (mm_view (st_mm s)) start (start + PAGE_ALIGN len) else mm_view (st_mm s))"
proof -
  obtain r s' where "do_munmap E start len s = Some (r, s')" "mm_step E s s'"
    "mm_view (st_mm s') = (\<lambda>a. if r = 0 \<and> start \<le> a \<and> a < start + PAGE_ALIGN len then None else mm_view (st_mm s) a)"
    using do_munmap_result [OF assms, of start len] by blast
  then show ?thesis by (intro exI [of _ r] exI [of _ s']) (auto simp: mm_step_def clear_view_def)
qed

theorem do_munmap_removes_witness:
  "\<exists>r s'. do_munmap menv0 0x12000 0xf000 mst1 = Some (r, s') \<and> mm_ok (st_mm s')"
  using do_munmap_removes [OF mst_ok(1) menv0_ok, of "0x12000" "0xf000"] by blast

text \<open>
  C21. The search for a free range without an alignment constraint finds the lowest address at which
  the length fits between the limits, and reports \<open>ENOMEM\<close> only if there is none: the pruning by the
  largest gap of a subtree loses nothing.
\<close>

theorem unmapped_area_finds_lowest:
  assumes "mm_ok mm" "ua_align_mask info = 0"
  shows "let F = fits mm (ua_low_limit info) (ua_high_limit info) (ua_length info); r = unmapped_area mm info
    in if \<exists>a. F a then F r \<and> (\<forall>a. F a \<longrightarrow> r \<le> a) else r = ulong (- ENOMEM)"
  using unmapped_area_lowest [OF assms] by (simp add: best_fit_def Let_def)

definition info1 :: vm_unmapped_area_info where
  "info1 = \<lparr>ua_flags = 0, ua_length = 0x3000, ua_low_limit = 0x10000, ua_high_limit = 0x30000, ua_align_mask = 0, ua_align_offset = 0\<rparr>"

theorem unmapped_area_finds_lowest_witness:
  "mm_ok mm1 \<and> fits mm1 0x10000 0x30000 0x3000 0x14000 \<and> unmapped_area mm1 info1 \<le> 0x14000"
proof -
  have f: "fits mm1 0x10000 0x30000 0x3000 0x14000" by (simp add: fits_def range_free_def mm1_def area1_def area2_def)
  then have "unmapped_area mm1 info1 \<le> 0x14000"
    using unmapped_area_finds_lowest [OF mm1_ok, of info1] by (auto simp: info1_def Let_def split: if_splits)
  with f show ?thesis using mm1_ok by blast
qed



section \<open>Requests\<close>


lemma menv0_security: "- 4095 \<le> security_mmap_file menv0 f prot fl \<and> security_mmap_file menv0 f prot fl \<le> 0"
  by (simp add: menv0_def menv_base_def)


lemma and_not_self: "x AND m = 0 \<Longrightarrow> x AND NOT m = x" for x :: "64 word"
  by (auto simp: bit_eq_iff bit_simps)

text \<open>
  C7. Changing protections always returns, whatever the range.  Without the flags for growing areas
  it changes a leading part of the range and nothing else, page by page: the file and the offset stay,
  the permissions become those asked for; on success the part is the whole rounded range, and all of
  it was mapped.
\<close>

theorem do_mprotect_pkey_task_protects:
  assumes "mm_ok (st_mm s)" "mm_env_ok E" "enough_memory_ok E" "pt_env_ok (pgt E)" "prot_env_ok E"
    and "prot AND (PROT_GROWSDOWN OR PROT_GROWSUP) = 0"
  shows "\<exists>r pops s' m. do_mprotect_pkey_task E pers start len prot pkey s = Some (r, pops, s') \<and> mm_step E s s' \<and>
    (m = start \<or> m \<le> start + PAGE_ALIGN len) \<and> (r = 0 \<longrightarrow> m = start + PAGE_ALIGN len) \<and>
    protected E (pers AND READ_IMPLIES_EXEC \<noteq> 0 \<and> prot AND PROT_READ \<noteq> 0) prot (mm_view (st_mm s)) (mm_view (st_mm s')) start m"
proof -
  note p = and_not_self [OF assms(6)]
  obtain r pops s' where r: "do_mprotect_pkey_task E pers start len prot pkey s = Some (r, pops, s')" "mm_step E s s'"
    "protect_outcome E pers start len prot r s s'"
    using do_mprotect_pkey_task_result [OF assms(1-5), of pers start len prot pkey] by blast
  from r(3) obtain lo m where m: "protected E (pers AND READ_IMPLIES_EXEC \<noteq> 0 \<and> prot AND PROT_READ \<noteq> 0) prot (mm_view (st_mm s)) (mm_view (st_mm s')) lo m"
    "lo = start \<and> (m = start \<or> m \<le> start + PAGE_ALIGN len) \<and> (r = 0 \<longrightarrow> m = start + PAGE_ALIGN len)"
    unfolding protect_outcome_def p using assms(6) by blast
  then show ?thesis using r(1,2) by blast
qed

theorem do_mprotect_pkey_task_protects_witness:
  "\<exists>r pops s' m. do_mprotect_pkey_task menv0 0 0x11000 0x2000 1 (- 1) mst1 = Some (r, pops, s') \<and>
     protected menv0 False 1 (mm_view (st_mm mst1)) (mm_view (st_mm s')) 0x11000 m"
proof -
  have "pt_env_ok (pgt menv0)" using ptenv0_ok by (simp add: menv0_def menv_base_def)
  then show ?thesis
    using do_mprotect_pkey_task_protects [OF mst_ok(1) menv0_ok menv0_files(1) _ menv0_prot, of 1 0 "0x11000" "0x2000" "- 1"] by auto
qed

text \<open>
  C13. No sequence of flags makes \<open>mprotect\<close> grant what an area may not have: if every page has only
  permissions that its \<open>VM_MAY\<close> bits allow, the same holds afterwards, on every path.
\<close>

theorem do_mprotect_pkey_task_within_may:
  assumes "mm_ok (st_mm s)" "mm_env_ok E" "enough_memory_ok E" "pt_env_ok (pgt E)" "prot_env_ok E"
    and may: "\<forall>a fl f pg. mm_view (st_mm s) a = Some (fl, f, pg) \<longrightarrow> (fl AND NOT (drop_bit 4 fl)) AND 7 = 0"
    and run: "do_mprotect_pkey_task E pers start len prot pkey s = Some (r, pops, s')"
    and v: "mm_view (st_mm s') a = Some (fl, f, pg)"
  shows "(fl AND NOT (drop_bit 4 fl)) AND 7 = 0"
proof -
  have o: "protect_outcome E pers start len prot r s s'"
    using do_mprotect_pkey_task_result [OF assms(1-5), of pers start len prot pkey] run by auto
  then obtain lo m rier p where "protected E rier p (mm_view (st_mm s)) (mm_view (st_mm s')) lo m"
    unfolding protect_outcome_def by blast
  then have "if lo \<le> a \<and> a < m then \<exists>x y. mm_view (st_mm s) a = Some x \<and> mm_view (st_mm s') a = Some y \<and> reprotected E rier p x y
      else mm_view (st_mm s') a = mm_view (st_mm s) a"
    unfolding protected_def by blast
  then show ?thesis
  proof (cases "lo \<le> a \<and> a < m")
    case True
    then obtain x where "reprotected E rier p x (fl, f, pg)" using \<open>if _ then _ else _\<close> v by auto
    then show ?thesis by (cases x) (simp add: reprotected_def)
  next
    case False
    then show ?thesis using \<open>if _ then _ else _\<close> v may by (metis (no_types, lifting))
  qed
qed

lemma mm1_view: "mm_view mm1 a = Some (fl, f, pg) \<Longrightarrow> fl = 0x100073 \<or> fl = 0x71"
  by (auto simp: mm_view_def mm1_def area1_def area2_def page_attr_def split: if_splits)

theorem do_mprotect_pkey_task_within_may_witness:
  "\<exists>r pops s'. do_mprotect_pkey_task menv0 0 0x11000 0x2000 5 (- 1) mst1 = Some (r, pops, s') \<and>
     (\<forall>a fl f pg. mm_view (st_mm s') a = Some (fl, f, pg) \<longrightarrow> (fl AND NOT (drop_bit 4 fl)) AND 7 = 0)"
proof -
  have p: "pt_env_ok (pgt menv0)" using ptenv0_ok by (simp add: menv0_def menv_base_def)
  have may: "\<forall>a fl f pg. mm_view (st_mm mst1) a = Some (fl, f, pg) \<longrightarrow> (fl AND NOT (drop_bit 4 fl)) AND 7 = 0"
  proof (intro allI impI)
    fix a fl f pg
    assume "mm_view (st_mm mst1) a = Some (fl, f, pg)"
    then have "fl = 0x100073 \<or> fl = 0x71" by (intro mm1_view) (simp add: mst1_def)
    then show "(fl AND NOT (drop_bit 4 fl)) AND 7 = 0" by (elim disjE) simp_all
  qed
  obtain r pops s' where run: "do_mprotect_pkey_task menv0 0 0x11000 0x2000 5 (- 1) mst1 = Some (r, pops, s')"
    using do_mprotect_pkey_task_result [OF mst_ok(1) menv0_ok menv0_files(1) p menv0_prot, of 0 "0x11000" "0x2000" 5 "- 1"] by blast
  then show ?thesis using do_mprotect_pkey_task_within_may [OF mst_ok(1) menv0_ok menv0_files(1) p menv0_prot may run] by blast
qed



text \<open>
  C25. Growing a mapping in place counts the new pages in an \<open>int\<close>: \<open>total_vm\<close> grows by the number of
  pages cut to 32 bits and read as a signed number, while the areas grow by all of them.  For 16 TiB
  nothing is counted at all.
\<close>

theorem mremap_expand_counts_int:
  assumes mm: "mm_ok (st_mm s)" and E: "mm_env_ok E" and sp: "mmap (st_mm s) = pre @ [v]"
    and a: "aligned addr" "aligned new_len" "addr + old_len = vm_end v" "vm_end v \<le> addr + new_len"
  shows "\<exists>b s'. mremap_expand E (vm_id v) addr old_len new_len s = Some (addr, b, s') \<and>
    pages_of (mmap (st_mm s')) = pages_of (mmap (st_mm s)) + drop_bit 12 (new_len - old_len) \<and>
    total_vm (st_mm s') = total_vm (st_mm s) + scast (ucast (drop_bit 12 (new_len - old_len)) :: 32 word)"
proof -
  note ee = mm_env_okD [OF E]
  let ?e = "addr + new_len" and ?k = "drop_bit 12 (new_len - old_len)"
  let ?v = "resized v (vm_start v) ?e (vm_pgoff v)"
  have at: "vma_at (st_mm s) (vm_id v) = v" by (rule mm_ok_position(1) [OF mm]) (use sp in simp)
  have ao: "areas_ok (pre @ [v])" using mm_ok_areas [OF mm] sp by simp
  obtain s1 where s1: "raw_vma_adjust E (vm_id v) (vm_start v) ?e (vm_pgoff v) None None s = Some (0, s1)" "now_maps E s s1 (pre @ [?v])"
  proof -
    have "\<exists>s1. raw_vma_adjust E (vm_id v) (vm_start v) ?e (vm_pgoff v) None None s = Some (0, s1) \<and> now_maps E s s1 (pre @ [?v])"
      by (rule adjust_grow [OF mm ee(1) sp]) simp
    then show ?thesis using that by blast
  qed
  note n = now_mapsD [OF s1(2)]
  have al: "aligned (vm_start v)" "aligned (vm_end v)" "vm_start v < vm_end v" using ao by (simp_all add: areas_ok_append areas_ok_Cons area_ok_def)
  have d: "?e - vm_end v = new_len - old_len" using a(3) by (simp add: algebra_simps)
  have "vma_pages ?v = vma_pages v + ?k"
    using drop12_diff [of "vm_start v" "vm_end v" ?e] al a(4) unfolding vma_pages_def d [symmetric] by (simp add: add.commute)
  then have "pages_of (mmap (st_mm s1)) = pages_of (mmap (st_mm s)) + ?k" using anons_pages [OF n(1)] by (simp add: sp)
  moreover have "\<exists>b s'. mremap_expand E (vm_id v) addr old_len new_len s = Some (addr, b, s') \<and> mmap (st_mm s') = mmap (st_mm s1) \<and>
      total_vm (st_mm s') = total_vm (st_mm s) + scast (ucast ?k :: 32 word)"
    using s1(1) n(7) by (simp add: mremap_expand_def at vma_adjust_def Let_def)
  ultimately show ?thesis by auto
qed

definition mst3 :: mmst where
  "mst3 = mst1\<lparr>st_mm := mm0\<lparr>mmap := [area1], mm_rb := Rb_node Rb_null 1 Rb_null, highest_vm_end := 0x14000, map_count := 1, total_vm := 4\<rparr>\<rparr>"

theorem mremap_expand_counts_int_witness:
  "\<exists>b s'. mremap_expand menv0 1 0x10000 0x4000 0x100000004000 mst3 = Some (0x10000, b, s') \<and>
     pages_of (mmap (st_mm s')) = 0x100000004 \<and> total_vm (st_mm s') = 4"
proof -
  have "mm_ok (st_mm mst3)"
    by (simp add: mm_ok_def tree_ok_def areas_ok_def area_ok_def aligned_def offset_in_page_def highest_end_def mst3_def area1_def)
  moreover have "pages_of (mmap (st_mm mst3)) = 4" "total_vm (st_mm mst3) = 4" "vm_id area1 = 1"
    by (simp_all add: mst3_def area1_def pages_of_def vma_pages_def)
  ultimately show ?thesis
    using mremap_expand_counts_int [OF _ menv0_ok, of mst3 "[]" area1 "0x10000" "0x100000004000" "0x4000"]
    by (simp add: aligned_def offset_in_page_def mst3_def) (simp add: area1_def)
qed

end
