(* ===== verification/Page_Table_Properties.thy ===== *)
theory Page_Table_Properties
  imports Mm_Properties
begin

text \<open>
  The properties of the walks over page tables: changing the protection of a range, moving a range and
  moving it back.
\<close>

unbundle bit_operations_syntax

section \<open>Page tables\<close>


text \<open>Tables in which the lowest two megabytes, and the third two, have page tables; three pages are mapped.\<close>

definition pt1 :: pgtables where
  "pt1 = \<lparr>pt_pgd = (\<lambda>i. if i = 0 then Dir_table else Dir_none), pt_pud = (\<lambda>i. if i = 0 then Dir_table else Dir_none),
     pt_pmd = (\<lambda>i. if i = 0 \<or> i = 2 then Pmd_table else Pmd_none),
     pt_pte = (\<lambda>i. if i = 0x1ff then 0x5007 else if i = 0x400 then 0x6007 else if i = 0x401 then 0x7007 else 0)\<rparr>"

lemma pt1_sound: "sound_tables pt1" "no_huge pt1"
  by (simp_all add: sound_tables_def no_huge_def pt1_def)


text \<open>
  C18. Moving page tables always comes back and has moved the entries of a leading part of the range,
  of all of it if no table is lacking at the new place: each entry is found at its new address, the old
  place of the part is empty and no other entry has changed.
\<close>

theorem move_page_tables_moves:
  assumes "table_alloc_ok E" "sound_tables pt" "apart old new n" "empty_range (pte_val pt) new n"
  shows "\<exists>d pt'. move_page_tables E old nv new n pt = Some (d, pt') \<and> d \<le> n \<and> aligned d \<and> sound_tables pt' \<and>
    (\<forall>a. aligned a \<longrightarrow> pte_val pt' a =
       (if new \<le> a \<and> a < new + d then moved_pte E (vm_page_prot nv) (old + (a - new)) a (pte_val pt (old + (a - new)))
        else if old \<le> a \<and> a < old + d then 0 else pte_val pt a)) \<and>
    ((\<forall>a. new \<le> a \<longrightarrow> a < new + n \<longrightarrow> walk_depth pt a = 3) \<longrightarrow> d = n)"
proof -
  obtain d pt' where "move_page_tables E old nv new n pt = Some (d, pt')" "d \<le> n" "aligned d" "sound_tables pt'"
    "moved E (vm_page_prot nv) old new d (pte_val pt) (pte_val pt')"
    "(\<forall>a. new \<le> a \<longrightarrow> a < new + n \<longrightarrow> walk_depth pt a = 3) \<or> alloc_never_fails E \<longrightarrow> d = n"
    using move_page_tables_result [OF assms, of nv] by blast
  then show ?thesis unfolding moved_def by (intro exI [of _ d] exI [of _ pt']) blast
qed

lemma pt1_val: "pte_val pt1 a \<noteq> 0 \<Longrightarrow> drop_bit 12 a = 0x1ff \<or> drop_bit 12 a = 0x400 \<or> drop_bit 12 a = 0x401"
  by (auto simp: pte_val_def pte_slot_def pt1_def split: if_splits)

lemma pt1_free: "empty_range (pte_val pt1) 0xdfe000 0x203000"
  unfolding empty_range_def
proof (intro allI impI, rule ccontr)
  fix a :: "64 word"
  assume a: "aligned a" "0xdfe000 \<le> a" "a < 0xdfe000 + 0x203000" "pte_val pt1 a \<noteq> 0"
  have "push_bit 12 (drop_bit 12 a) = a" using a(1) by (rule push_drop12)
  then have "a = 0x1ff000 \<or> a = 0x400000 \<or> a = 0x401000" using pt1_val [OF a(4)] by auto
  then show False using a(2) by auto
qed

lemma pt1_apart: "apart 0x1ff000 0xdfe000 0x203000"
  by (simp add: apart_def aligned_def offset_in_page_def)

theorem move_page_tables_moves_witness:
  "\<exists>d pt'. move_page_tables ptenv0 0x1ff000 area1 0xdfe000 0x203000 pt1 = Some (d, pt') \<and> d \<le> 0x203000 \<and> sound_tables pt'"
  using move_page_tables_moves [OF ptenv0_alloc pt1_sound(1) pt1_apart pt1_free, of area1] by blast


lemma pt1_small: "apart 0x400000 0xdfe000 0x2000" "empty_range (pte_val pt1) 0xdfe000 0x2000"
proof -
  show "apart 0x400000 0xdfe000 0x2000" by (simp add: apart_def aligned_def offset_in_page_def)
  show "empty_range (pte_val pt1) 0xdfe000 0x2000"
    by (rule empty_range_less [OF pt1_free]) simp_all
qed

lemma pt1_there:
  assumes "0x400000 \<le> a" "a < 0x400000 + 0x2000"
  shows "walk_depth pt1 a = 3"
proof -
  have u: "0x400000 \<le> unat a" "unat a < 0x402000" using assms by (simp_all add: word_le_nat_alt word_less_nat_alt)
  have d: "unat (drop_bit k a) = unat a div 2 ^ k" for k unfolding unat_drop_bit_eq by (simp add: drop_bit_eq_div)
  have "unat a div 2 ^ 21 = 2" "unat a div 2 ^ 30 = 0" "unat a div 2 ^ 39 = 0" using u by simp_all
  then have "drop_bit 21 a = 2" "drop_bit 30 a = 0" "drop_bit 39 a = 0" by (simp_all add: word_unat_eq_iff d)
  then show ?thesis by (simp add: walk_depth_def pgd_at_def pud_at_def pmd_at_def pt1_def)
qed


text \<open>
  C20. Without that, entries are lost: \<open>move_vma\<close> relies on a comment that moving back \<open>will succeed since
  page tables still there\<close>, but where the old range has a hole of a whole table, moving back asks for a
  table again, and stops when there is no memory.  Here the move gets as far as the third page table
  and the way back stops at the hole, so that a page that was mapped has left the old range for good.
\<close>

definition ptenv1 :: pt_env where
  "ptenv1 = ptenv0\<lparr>raw_pte_alloc := (\<lambda>a pt. if drop_bit 21 a = 1 \<or> drop_bit 21 a = 8 then (- ENOMEM, pt) else raw_pte_alloc ptenv0 a pt)\<rparr>"

lemma ptenv1_alloc: "table_alloc_ok ptenv1"
proof -
  have a: "raw_pud_alloc ptenv1 = raw_pud_alloc ptenv0" "raw_pmd_alloc ptenv1 = raw_pmd_alloc ptenv0" "pte_none ptenv1 = pte_none ptenv0"
    "table_tests_ok ptenv1 = table_tests_ok ptenv0"
    by (simp_all add: ptenv1_def table_tests_ok_def)
  have pte: "grown pt pt' \<and> (e = 0 \<longrightarrow> walk_depth pt' a = 3)"
    if "raw_pte_alloc ptenv1 a pt = (e, pt')" "sound_tables pt" "walk_depth pt a = 2" for a pt e pt'
  proof (cases "drop_bit 21 a = 1 \<or> drop_bit 21 a = 8")
    case True
    then have "e = - ENOMEM" "pt' = pt" using that(1) by (auto simp: ptenv1_def)
    then show ?thesis using grown_refl [OF that(2)] by simp
  next
    case False
    then have "raw_pte_alloc ptenv0 a pt = (e, pt')" using that(1) by (simp add: ptenv1_def)
    then show ?thesis using ptenv0_alloc that(2,3) unfolding table_alloc_ok_def by blast
  qed
  note d = ptenv0_alloc [unfolded table_alloc_ok_def]
  show ?thesis
    unfolding table_alloc_ok_def a
    using d [THEN conjunct1] d [THEN conjunct2, THEN conjunct1] d [THEN conjunct2, THEN conjunct2, THEN conjunct2] pte by (intro conjI allI impI) blast+
qed

lemmas entry_defs = get_old_pmd_def alloc_new_pmd_def pud_alloc_def pmd_alloc_def pte_alloc_def pgd_at_def pud_at_def pmd_at_def pte_slot_def
  set_pte_at_def move_soft_dirty_pte_def

definition tab :: "(64 word \<Rightarrow> pmd_entry) \<Rightarrow> (64 word \<Rightarrow> 64 word) \<Rightarrow> pgtables" where
  "tab m p = \<lparr>pt_pgd = (\<lambda>i. if i = 0 then Dir_table else Dir_none), pt_pud = (\<lambda>i. if i = 0 then Dir_table else Dir_none), pt_pmd = m, pt_pte = p\<rparr>"

definition pmd_fwd :: "64 word \<Rightarrow> pmd_entry" where
  "pmd_fwd = (pt_pmd pt1)(6 := Pmd_table)"

definition pte_fwd :: "64 word \<Rightarrow> 64 word" where
  "pte_fwd = (\<lambda>i. if drop_bit 9 i = 6 then 0 else pt_pte pt1 i)(0x1ff := 0, 0xdfe := 0x5007)"

definition pte_end :: "64 word \<Rightarrow> 64 word" where
  "pte_end = (\<lambda>i. if drop_bit 9 i = 7 then 0 else pte_fwd i)(0x400 := 0, 0xfff := 0x6007)"

lemma tab_simps [simp]: "pt_pgd (tab m p) = (\<lambda>i. if i = 0 then Dir_table else Dir_none)" "pt_pud (tab m p) = (\<lambda>i. if i = 0 then Dir_table else Dir_none)"
  "pt_pmd (tab m p) = m" "pt_pte (tab m p) = p" "tab m p\<lparr>pt_pte := q\<rparr> = tab m q" "tab m p\<lparr>pt_pmd := n\<rparr> = tab n p"
  by (simp_all add: tab_def)

lemma pt1_tab: "pt1 = tab (pt_pmd pt1) (pt_pte pt1)"
  by (simp add: tab_def pt1_def)

lemma move_ptes_end: "move_ptes E prot a a b pt = Some pt"
  by (subst move_ptes.simps) simp

lemma move_one:
  assumes "a < a + 0x1000" "p (drop_bit 12 a) \<noteq> 0"
  shows "move_ptes ptenv1 prot (a + 0x1000) a b (tab m p) = Some (tab m (p(drop_bit 12 a := 0, drop_bit 12 b := p (drop_bit 12 a))))"
proof -
  have "set_pte_at b (p (drop_bit 12 a)) (set_pte_at a 0 (tab m p)) = tab m (p(drop_bit 12 a := 0, drop_bit 12 b := p (drop_bit 12 a)))"
    by (simp add: set_pte_at_def)
  moreover have "pte_slot (tab m p) a = p (drop_bit 12 a)" by (simp add: pte_slot_def)
  ultimately show ?thesis
    using assms by (subst move_ptes.simps) (simp add: Let_def ptenv1_def ptenv0_def move_soft_dirty_pte_def move_ptes_end)
qed

lemma pmd_fwd_at [simp]: "pmd_fwd 0 = Pmd_table" "pmd_fwd 1 = Pmd_none" "pmd_fwd 2 = Pmd_table" "pmd_fwd 6 = Pmd_table" "pmd_fwd 7 = Pmd_none" "pmd_fwd 8 = Pmd_none"
  by (simp_all add: pmd_fwd_def pt1_def)

lemma pt1_at: "pt_pmd pt1 0 = Pmd_table" "pt_pmd pt1 6 = Pmd_none" "pt_pte pt1 0x1ff = 0x5007" "pt_pte pt1 0x400 = 0x6007" "pt_pte pt1 0xdfe = 0"
  by (simp_all add: pt1_def)

lemma ptenv1_sel: "pgd_none_or_clear_bad ptenv1 = pgd_none_or_clear_bad ptenv0" "pud_none_or_clear_bad ptenv1 = pud_none_or_clear_bad ptenv0"
  "raw_pte_alloc ptenv1 a (tab m p) = (if drop_bit 21 a = 1 \<or> drop_bit 21 a = 8 then (- ENOMEM, tab m p)
     else (0, tab (m(drop_bit 21 a := Pmd_table)) (\<lambda>i. if drop_bit 9 i = drop_bit 21 a then 0 else p i)))"
  by (simp_all add: ptenv1_def ptenv0_def cong: if_cong)

lemma old_pmd_tab:
  assumes "drop_bit 39 a = 0" "drop_bit 30 a = 0"
  shows "get_old_pmd ptenv1 a (tab m p) = (m (drop_bit 21 a) \<noteq> Pmd_none, tab m p)" "alloc_new_pmd ptenv1 a (tab m p) = (True, tab m p)"
  using assms by (simp_all add: get_old_pmd_def alloc_new_pmd_def pud_alloc_def pmd_alloc_def pgd_at_def pud_at_def pmd_at_def ptenv1_sel ptenv0_def)

lemma pte_alloc_tab: "pte_alloc ptenv1 a (tab m p) = (if m (drop_bit 21 a) \<noteq> Pmd_none then (False, tab m p)
    else if drop_bit 21 a = 1 \<or> drop_bit 21 a = 8 then (True, tab m p)
    else (False, tab (m(drop_bit 21 a := Pmd_table)) (\<lambda>i. if drop_bit 9 i = drop_bit 21 a then 0 else p i)))"
  by (simp add: pte_alloc_def pmd_at_def ptenv1_sel)

lemma forward_1: "move_extent ptenv1 area1 0x402000 0x1ff000 0xdfe000 (tab (pt_pmd pt1) (pt_pte pt1)) = Some (Some 0x1000, tab pmd_fwd pte_fwd)"
  using move_one [of "0x1ff000" "\<lambda>i. if drop_bit 9 i = 6 then 0 else pt_pte pt1 i" "vm_page_prot area1" "0xdfe000" pmd_fwd]
  by (simp add: move_extent_def old_pmd_tab pte_alloc_tab Let_def pmd_at_def pt1_at pmd_fwd_def [symmetric] pte_fwd_def [symmetric])

lemma forward_2: "move_extent ptenv1 area1 0x402000 0x200000 0xdff000 (tab pmd_fwd p) = Some (Some 0x200000, tab pmd_fwd p)"
  by (simp add: move_extent_def old_pmd_tab Let_def)

lemma forward_3: "move_extent ptenv1 area1 0x402000 0x400000 0xfff000 (tab pmd_fwd pte_fwd) = Some (Some 0x1000, tab (pmd_fwd(7 := Pmd_table)) pte_end)"
proof -
  have "pte_fwd 0x400 = 0x6007" by (simp add: pte_fwd_def pt1_def)
  then show ?thesis
    using move_one [of "0x400000" "\<lambda>i. if drop_bit 9 i = 7 then 0 else pte_fwd i" "vm_page_prot area1" "0xfff000" "pmd_fwd(7 := Pmd_table)"]
    by (simp add: move_extent_def old_pmd_tab pte_alloc_tab Let_def pmd_at_def pte_end_def [symmetric])
qed

lemma forward_4: "move_extent ptenv1 area1 0x402000 0x401000 0x1000000 (tab (pmd_fwd(7 := Pmd_table)) p) = Some (None, tab (pmd_fwd(7 := Pmd_table)) p)"
  by (simp add: move_extent_def old_pmd_tab pte_alloc_tab Let_def pmd_at_def)

lemma backward_1: "move_extent ptenv1 area1 0x1000000 0xdfe000 0x1ff000 (tab (pmd_fwd(7 := Pmd_table)) pte_end) =
    Some (Some 0x1000, tab (pmd_fwd(7 := Pmd_table)) (pte_end(0xdfe := 0, 0x1ff := 0x5007)))"
proof -
  have "pte_end 0xdfe = 0x5007" by (simp add: pte_end_def pte_fwd_def pt1_def)
  then show ?thesis
    using move_one [of "0xdfe000" pte_end "vm_page_prot area1" "0x1ff000" "pmd_fwd(7 := Pmd_table)"]
    by (simp add: move_extent_def old_pmd_tab pte_alloc_tab Let_def pmd_at_def)
qed

lemma backward_2: "move_extent ptenv1 area1 0x1000000 0xdff000 0x200000 (tab (pmd_fwd(7 := Pmd_table)) p) = Some (None, tab (pmd_fwd(7 := Pmd_table)) p)"
  by (simp add: move_extent_def old_pmd_tab pte_alloc_tab Let_def pmd_at_def)

lemma extents_step:
  assumes "move_extent E v e a b pt = Some (Some x, pt')" "a < e"
  shows "move_extents E v e a b pt = move_extents E v e (a + x) (b + x) pt'"
  using assms by (subst move_extents.simps) simp

lemma extents_stop:
  assumes "move_extent E v e a b pt = Some (None, pt')" "a < e"
  shows "move_extents E v e a b pt = Some (a, pt')"
  using assms by (subst move_extents.simps) simp

lemma moved_forward: "move_page_tables ptenv1 0x1ff000 area1 0xdfe000 0x203000 pt1 = Some (0x202000, tab (pmd_fwd(7 := Pmd_table)) pte_end)"
proof -
  have "move_extents ptenv1 area1 0x402000 0x1ff000 0xdfe000 pt1 = move_extents ptenv1 area1 0x402000 0x200000 0xdff000 (tab pmd_fwd pte_fwd)"
    using extents_step [OF forward_1] by (simp add: pt1_tab [symmetric])
  also have "\<dots> = move_extents ptenv1 area1 0x402000 0x400000 0xfff000 (tab pmd_fwd pte_fwd)"
    using extents_step [OF forward_2] by simp
  also have "\<dots> = move_extents ptenv1 area1 0x402000 0x401000 0x1000000 (tab (pmd_fwd(7 := Pmd_table)) pte_end)"
    using extents_step [OF forward_3] by simp
  also have "\<dots> = Some (0x401000, tab (pmd_fwd(7 := Pmd_table)) pte_end)" using extents_stop [OF forward_4] by simp
  finally show ?thesis by (simp add: move_page_tables_def)
qed

lemma moved_backward: "move_page_tables ptenv1 0xdfe000 area1 0x1ff000 0x202000 (tab (pmd_fwd(7 := Pmd_table)) pte_end) =
    Some (0x1000, tab (pmd_fwd(7 := Pmd_table)) (pte_end(0xdfe := 0, 0x1ff := 0x5007)))"
proof -
  have "move_extents ptenv1 area1 0x1000000 0xdfe000 0x1ff000 (tab (pmd_fwd(7 := Pmd_table)) pte_end) =
      move_extents ptenv1 area1 0x1000000 0xdff000 0x200000 (tab (pmd_fwd(7 := Pmd_table)) (pte_end(0xdfe := 0, 0x1ff := 0x5007)))"
    using extents_step [OF backward_1] by simp
  also have "\<dots> = Some (0xdff000, tab (pmd_fwd(7 := Pmd_table)) (pte_end(0xdfe := 0, 0x1ff := 0x5007)))" using extents_stop [OF backward_2] by simp
  finally show ?thesis by (simp add: move_page_tables_def)
qed

theorem move_page_tables_back_may_fail:
  "\<exists>E pt old new n v d pt' d' pt''. table_alloc_ok E \<and> sound_tables pt \<and> apart old new n \<and> empty_range (pte_val pt) new n \<and>
     move_page_tables E old v new n pt = Some (d, pt') \<and> d < n \<and> move_page_tables E new v old d pt' = Some (d', pt'') \<and> d' < d \<and>
     (\<exists>a. aligned a \<and> old \<le> a \<and> a < old + n \<and> pte_val pt a \<noteq> 0 \<and> pte_val pt'' a = 0)"
proof -
  have "pte_val pt1 0x400000 \<noteq> 0"
    by (simp add: pte_val_def walk_depth_def pgd_at_def pud_at_def pmd_at_def pte_slot_def pt1_def)
  moreover have "pte_val (tab m (pte_end(0xdfe := 0, 0x1ff := 0x5007))) 0x400000 = 0" for m
    by (simp add: pte_val_def pte_slot_def pte_end_def)
  moreover have "aligned 0x400000" by (simp add: aligned_def offset_in_page_def)
  ultimately have "\<exists>a. aligned a \<and> 0x1ff000 \<le> a \<and> a < 0x1ff000 + 0x203000 \<and> pte_val pt1 a \<noteq> 0 \<and>
      pte_val (tab (pmd_fwd(7 := Pmd_table)) (pte_end(0xdfe := 0, 0x1ff := 0x5007))) a = 0"
    by (intro exI [of _ "0x400000"]) simp
  moreover have "(0x202000 :: 64 word) < 0x203000" "(0x1000 :: 64 word) < 0x202000" by simp_all
  ultimately show ?thesis
    using ptenv1_alloc pt1_sound(1) pt1_apart pt1_free moved_forward moved_backward by blast
qed

end
