(* ===== verification/Remote_Properties.thy ===== *)
theory Remote_Properties
  imports Remote_Correct Page_Table_Properties
begin

unbundle bit_operations_syntax

text \<open>
  Properties of the remote requests as a whole, from \<open>sys_ptrace\<close> down to the tables they change: that every
  request comes back with the tracee stopped again and both tasks in order, what sequences of requests
  leave for the tracee's exit, which requests are refused, and what the requests that map memory and
  duplicate descriptors do.  A concrete pair of tasks shows that the hypotheses can hold, and that the
  address of a remote mapping is looked for in the tracer.
\<close>

section \<open>Sessions\<close>

lemma call_safe_frame:
  assumes "call_safe R child k k'"
  shows "kernel_ok R child k'" "cur k' = cur k" "t \<noteq> child \<Longrightarrow> tasks k' t = tasks k t"
    "t_mm (tasks k child) \<noteq> Some x \<Longrightarrow> mms k' x = mms k x" "t_mm (tasks k child) = Some m \<Longrightarrow> spare_refs m k' f = spare_refs m k f"
    "t_mm (tasks k' t) = t_mm (tasks k t)" "t_files (tasks k' t) = t_files (tasks k t)" "t_usage (tasks k' t) = t_usage (tasks k t)"
    "t_state (tasks k' child) = TASK_TRACED"
  using assms by (auto simp: call_safe_def remote_frame_def stopped_again_def spare_refs_def)

lemma call_safe_stopped: "call_safe R child k k' \<Longrightarrow> stopped_tracee child k \<Longrightarrow> stopped_tracee child k'"
  using call_safe_frame(2) [of R child k k']
  by (simp add: call_safe_def stopped_tracee_def stopped_again_def task_is_traced_def raw_fatal_signal_pending_def)

text \<open>Any sequence of remote requests of the tracer on one tracee.\<close>

inductive remote_session :: "request_env \<Rightarrow> int \<Rightarrow> kstate \<Rightarrow> kstate \<Rightarrow> bool" for R pid k where
  session_start: "remote_session R pid k k"
| session_request: "remote_session R pid k k1 \<Longrightarrow> PTRACE_REMOTE_MMAP \<le> req \<Longrightarrow> req \<le> PTRACE_REMOTE_CLOSE \<Longrightarrow>
     sys_ptrace R req pid addr data k1 = Some (r, k2) \<Longrightarrow> remote_session R pid k k2"

lemma remote_session_result:
  assumes R: "remote_env_ok R" "passes_remote R" and n: "\<And>k. stopped_tracee child k \<Longrightarrow> names R pid child k"
    and k: "kernel_ok R child k" "stopped_tracee child k" and t: "t_mm (tasks k child) = Some m" "t_mm (tasks k (cur k)) = Some c"
    and s: "remote_session R pid k k'"
  shows "kernel_ok R child k' \<and> stopped_tracee child k' \<and> t_mm (tasks k' child) = Some m \<and> t_mm (tasks k' (cur k')) = Some c \<and> cur k' = cur k \<and>
    (\<forall>x. x \<noteq> m \<longrightarrow> mms k' x = mms k x) \<and> (\<forall>f. spare_refs m k' f = spare_refs m k f)"
  using s
proof (induction rule: remote_session.induct)
  case session_start
  then show ?case using k t by simp
next
  case (session_request k1 req addr data r k2)
  have k1: "kernel_ok R child k1" "stopped_tracee child k1" using session_request.IH by blast+
  have "call_safe R child k1 k2"
    using remote_call_returns [OF R k1(1) n [OF k1(2)] k1(2) session_request(2,3), of addr data] session_request(4) by auto
  note f = call_safe_frame [OF this] and st = call_safe_stopped [OF this k1(2)]
  show ?case using session_request.IH f(1,2,4,5,6) st by auto
qed

lemma exit_mmap_spare:
  assumes E: "mm_env_ok (mmenv R)"
  shows "store_refs (files_tab k) (st_heap (exit_mmap (mmenv R) (mm_enter m c k))) f = spare_refs m k f"
proof -
  have "f_count (st_heap (exit_mmap (mmenv R) (mm_enter m c k)) f) = fst (bal (mmenv R) (mm_enter m c k)) f"
    using arg_cong [OF exit_mmap_result [OF E, of "mm_enter m c k"], of "\<lambda>b. fst b f"] by simp
  then show ?thesis by (simp add: bal_area enter_cur store_refs_def spare_refs_def)
qed

text \<open>With the same descriptors, the counts are determined by the references that are spare.\<close>

lemma counts_same:
  assumes "store_ok (files_tab k) (fheap k)" "store_ok (files_tab k') (fheap k')" "tables k' = tables k" "mms k' m = mms k m"
    "\<And>f. spare_refs m k' f = spare_refs m k f"
  shows "f_count (fheap k' f) = f_count (fheap k f)"
proof -
  have d: "dom (files_tab k') = dom (files_tab k)" using arg_cong [OF assms(3), of dom] by (auto simp: tables_def dom_def)
  have "fd_refs (fdt (the (files_tab k' p))) f = fd_refs (fdt (the (files_tab k p))) f" if p: "p \<in> dom (files_tab k)" for p
  proof -
    obtain a b where ab: "files_tab k p = Some a" "files_tab k' p = Some b" using p d by blast
    then have "descriptors (fdt b) = descriptors (fdt a)" using fun_cong [OF assms(3), of p] by (simp add: tables_def)
    moreover have "files_ok a" "files_ok b" using store_okD(2) assms(1,2) ab by blast+
    ultimately show ?thesis using other_refs_same [of a b undefined f undefined] ab by (simp add: other_refs_def)
  qed
  then have "(\<Sum>p \<in> dom (files_tab k'). int (fd_refs (fdt (the (files_tab k' p))) f)) = (\<Sum>p \<in> dom (files_tab k). int (fd_refs (fdt (the (files_tab k p))) f))"
    unfolding d by (intro sum.cong) simp_all
  then show ?thesis using assms(5) [of f] by (simp add: spare_refs_def store_refs_def assms(4))
qed

section \<open>A concrete state\<close>

text \<open>
  Task 1 traces task 2, which is stopped and has the address space \<open>mm\<close>; descriptor 0 of task 1 refers to
  file 7, which has one more reference.  The arguments of a request are at \<open>0x7000\<close> in the memory of task 1.
\<close>

definition renv0 :: request_env where
  "renv0 = \<lparr>tracing = penv0, mmenv = menv0, rlimit_nofile = 1024, stale_siginfo = (\<lambda>i. []), raw_put_task_struct = (\<lambda>t k. k),
     compat_arch_request = (\<lambda>t r a d k. None), copy_siginfo_to_user32 = (\<lambda>a s um. (0, um)), copy_siginfo_from_user32 = (\<lambda>a s um. (0, s))\<rparr>"

definition kst2 :: "mm_struct \<Rightarrow> 8 word list \<Rightarrow> kstate" where
  "kst2 mm args = kst1\<lparr>files_tab := [1 \<mapsto> table1, 2 \<mapsto> init_files], fheap := (\<lambda>f. \<lparr>f_count = 2, f_mode = 3, f_pos_lock = False\<rparr>),
     mms := (\<lambda>n. mm0)(2 := mm), umem := snd (copy_to_user (umem kst0) 0x7000 args)\<rparr>"

lemma renv0_ok: "remote_env_ok renv0" "passes_remote renv0" "names renv0 2 2 k"
proof -
  have "pt_env_ok (pgt menv0)" using ptenv0_ok by (simp add: menv0_def menv_base_def)
  moreover have "fs_env_ok (vfs menv0)" using env0_ok by (simp add: menv0_def menv_base_def)
  ultimately show "remote_env_ok renv0"
    using menv0_files menv0_remap menv0_prot menv0_security by (simp add: remote_env_ok_def renv0_def)
  show "passes_remote renv0" "names renv0 2 2 k" by (simp_all add: passes_remote_def names_def renv0_def penv0_def)
qed

lemma kst2_task: "tasks (kst2 mm a) = tasks kst1" "cur (kst2 mm a) = 1" "mms (kst2 mm a) = (\<lambda>n. mm0)(2 := mm)"
  "t_mm (tasks kst1 t) = Some t" "t_files (tasks kst1 t) = t" "files_tab (kst2 mm a) = [1 \<mapsto> table1, 2 \<mapsto> init_files]"
  by (simp_all add: kst2_def kst1_def kst0_def task0_def)

lemma kst2_stopped: "stopped_tracee 2 (kst2 mm a)"
  by (simp add: stopped_tracee_def kst2_def kst1_def kst0_def task0_def task_is_traced_def raw_fatal_signal_pending_def sigismember_def)

lemma kst2_kernel:
  assumes "mm_ok mm" "no_hugetlb menv0 mm" "\<And>f. area_refs mm f \<le> 1"
  shows "kernel_ok renv0 2 (kst2 mm a)"
proof -
  have t: "fd_refs (fdt table1) f = (if f = 7 then 1 else 0)" "fd_refs (fdt init_files) f = 0" for f
  proof -
    have "fdt_fd (fdt table1) = Some 7 # replicate 63 None" by code_simp
    then show "fd_refs (fdt table1) f = (if f = 7 then 1 else 0)" by (simp add: fd_refs_def)
    show "fd_refs (fdt init_files) f = 0" by (simp add: fd_refs_def init_files_def init_fdtable_def)
  qed
  have r: "store_refs (files_tab (kst2 mm a)) (fheap (kst2 mm a)) f = (if f = 7 then 1 else 2)" for f
    by (simp add: store_refs_def kst2_def t)
  have "0 \<le> spare_refs 2 (kst2 mm a) f" for f
    unfolding spare_refs_def r using assms(3) [of f] by (auto simp: kst2_task)
  then have "spaces_ok renv0 2 1 (kst2 mm a)"
    using assms(1,2) mm0_ok by (simp add: spaces_ok_def kst2_task renv0_def)
  moreover have "store_ok (files_tab (kst2 mm a)) (fheap (kst2 mm a))"
    using r table1_ok init_files_ok by (simp add: store_ok_def kst2_task)
  ultimately show ?thesis by (simp add: kernel_ok_def kst2_task)
qed

lemma kst2_ok: "kernel_ok renv0 2 (kst2 mm1 a)"
  by (rule kst2_kernel) (use mm1_ok mst_hugetlb(1) in \<open>simp_all add: mst1_def area_refs_def mm1_def area1_def area2_def\<close>)

lemma user_readable_all: "um_read um = (\<lambda>a. True) \<Longrightarrow> user_readable um a n"
  by (induction n arbitrary: a) auto

lemma kst2_args:
  "copy_struct 40 get_mmap (umem (kst2 mm (put_mmap x))) 0x7000 = Some x" "copy_struct 8 get_dup_to (umem (kst2 mm (put_dup_to y))) 0x7000 = Some y"
  "copy_struct 8 get_dup_from (umem (kst2 mm (put_dup_from z))) 0x7000 = Some z" "copy_struct 4 get_close (umem (kst2 mm (put_close w))) 0x7000 = Some w"
proof -
  have c: "copy_to_user (umem kst0) 0x7000 bs = (True, umem (kst2 mm bs))" for bs
    using copy_to_user_writable [of "umem kst0" "0x7000" bs] by (simp add: kst2_def kst0_def prod_eq_iff)
  have r: "user_readable (umem (kst2 mm bs)) a n" for bs a n
    using copy_to_user_access(1) [of "umem kst0" "0x7000" bs] by (intro user_readable_all) (simp add: kst2_def kst0_def)
  show "copy_struct 40 get_mmap (umem (kst2 mm (put_mmap x))) 0x7000 = Some x" by (rule mmap_struct.copy_struct_stored [OF c r])
  show "copy_struct 8 get_dup_to (umem (kst2 mm (put_dup_to y))) 0x7000 = Some y" by (rule dup_to_struct.copy_struct_stored [OF c r])
  show "copy_struct 8 get_dup_from (umem (kst2 mm (put_dup_from z))) 0x7000 = Some z" by (rule dup_from_struct.copy_struct_stored [OF c r])
  show "copy_struct 4 get_close (umem (kst2 mm (put_close w))) 0x7000 = Some w" by (rule close_struct.copy_struct_stored [OF c r])
qed

section \<open>Properties\<close>



text \<open>
  C2. A tracer may issue any sequence of remote requests.  Through all of it the invariant holds and the
  tracee stays stopped; and when the tracee's address space goes in the end, what is left of the counts of
  files beside the descriptors is what was there at the start without the tracee's mappings: nothing
  that was mapped, unmapped, moved, split or duplicated on the way has left a reference behind.
\<close>

theorem remote_session_then_exit:
  assumes "remote_env_ok R" "passes_remote R" "\<And>k. stopped_tracee child k \<Longrightarrow> names R pid child k"
    and "kernel_ok R child k" "stopped_tracee child k" "t_mm (tasks k child) = Some m" "t_mm (tasks k (cur k)) = Some c"
    and "remote_session R pid k k'"
  shows "kernel_ok R child k' \<and> stopped_tracee child k' \<and>
    (\<forall>f. store_refs (files_tab k') (st_heap (exit_mmap (mmenv R) (mm_enter m c k'))) f = spare_refs m k f)"
  using remote_session_result [OF assms] exit_mmap_spare [OF remote_env_okD(9) [OF assms(1)]] by simp

theorem remote_session_then_exit_witness:
  "\<exists>k'. remote_session renv0 2 (kst2 mm1 []) k' \<and> store_refs (files_tab k') (st_heap (exit_mmap menv0 (mm_enter 2 1 k'))) 7 = spare_refs 2 (kst2 mm1 []) 7"
proof -
  obtain r k' where r: "sys_ptrace renv0 PTRACE_REMOTE_MUNMAP 2 0 0x7000 (kst2 mm1 []) = Some (r, k')"
    using remote_call_returns [OF renv0_ok(1,2) kst2_ok [of "[]"] renv0_ok(3) kst2_stopped, of PTRACE_REMOTE_MUNMAP 0 "0x7000"] by auto
  have s: "remote_session renv0 2 (kst2 mm1 []) k'" by (rule session_request [OF session_start _ _ r]) simp_all
  have t: "t_mm (tasks (kst2 mm1 []) 2) = Some 2" "t_mm (tasks (kst2 mm1 []) (cur (kst2 mm1 []))) = Some 1" by (simp_all add: kst2_task)
  show ?thesis
    using remote_session_then_exit [OF renv0_ok(1,2,3) kst2_ok kst2_stopped t s] s by (auto simp: renv0_def)
qed

text \<open>
  C12. A request on a task that does not exist, is not traced by the caller, or is not stopped is refused
  with \<open>ESRCH\<close> and leaves no trace at all.  Only \<open>PTRACE_KILL\<close> and \<open>PTRACE_INTERRUPT\<close> work on a tracee that
  is running.
\<close>

theorem sys_ptrace_refuses:
  assumes "request \<notin> {PTRACE_TRACEME, PTRACE_ATTACH, PTRACE_SEIZE}"
    and "\<And>child. find_task_by_vpid (tracing R) (signed_take_bit 31 pid) k = Some child \<Longrightarrow> 0 < t_usage (tasks k child) \<and>
      (t_ptrace (tasks k child) = 0 \<or> parent (tasks k child) \<noteq> cur k \<or>
       request \<notin> {PTRACE_KILL, PTRACE_INTERRUPT} \<and> (\<not> task_is_traced (tasks k child) \<or> raw_fatal_signal_pending (tasks k child) \<or>
         t_jobctl (tasks k child) AND JOBCTL_LISTENING \<noteq> 0))"
  shows "sys_ptrace R request pid addr data k = Some (- ESRCH, k)"
  by (rule request_refused) (use assms in blast)+

theorem sys_ptrace_refuses_witness:
  "sys_ptrace renv0 PTRACE_REMOTE_CLOSE 3 0 0x7000 (kst2 mm1 []) = Some (- ESRCH, kst2 mm1 [])"
  by (rule sys_ptrace_refuses) (simp_all add: renv0_def penv0_def kst2_task kst1_def task0_def)


definition mmap_args0 :: ptrace_remote_mmap_args where
  "mmap_args0 = \<lparr>mmap_addr = 0, mmap_length = 0x3000, mmap_prot = 1, mmap_flags = 2, mmap_fd = 0, mmap_pad = 0, mmap_offset = 0\<rparr>"


text \<open>
  C9. \<open>PTRACE_DUP_TO_REMOTE\<close> gives the tracee the lowest free descriptor for the file of the caller's
  descriptor, with the flag asked for, and changes no other descriptor of any table; or it fails and changes
  none.  Whatever happens, no reference to a file is lost or leaked, also when both tasks share a table.
\<close>

theorem ptrace_dup_to_remote_duplicates:
  assumes "remote_env_ok R" "kernel_ok R child k" "copy_struct 8 get_dup_to (umem k) data = Some a"
  shows "\<exists>r k'. ptrace_dup_to_remote R child data k = Some (r, k') \<and> kernel_ok R child k' \<and>
    (if r < 0 then r \<in> {- EINVAL, - EBADF, - EMFILE, - ENOMEM} \<and> tables k' = tables k
     else dup_to_flags a AND NOT O_CLOEXEC = 0 \<and> (\<exists>f D. local_file (files_tab k) (t_files (tasks k (cur k))) (unat (dup_to_local_fd a)) = Some f \<and>
       tables k (t_files (tasks k child)) = Some D \<and> r < int (u32 (rlimit_nofile R)) \<and> lowest_free D 0 (nat r) \<and>
       tables k' = (tables k)(t_files (tasks k child) \<mapsto> D(nat r \<mapsto> (Some f, dup_to_flags a AND O_CLOEXEC \<noteq> 0))))) \<and>
    (\<forall>m f. t_mm (tasks k child) = Some m \<longrightarrow> mms k' m = mms k m \<and> spare_refs m k' f = spare_refs m k f)"
proof -
  obtain r k' where r: "ptrace_dup_to_remote R child data k = Some (r, k')" "kernel_ok R child k'" "remote_frame child k k'"
    "dup_outcome R (t_files (tasks k (cur k))) (unat (dup_to_local_fd a)) (t_files (tasks k child)) (dup_to_flags a) k r k'"
    using dup_to_remote_result [OF assms] by blast
  have "\<forall>m f. t_mm (tasks k child) = Some m \<longrightarrow> mms k' m = mms k m \<and> spare_refs m k' f = spare_refs m k f"
    using r(3,4) by (simp add: remote_frame_def dup_outcome_def)
  then show ?thesis using r(1,2) r(4) [unfolded dup_outcome_def] by blast
qed

definition dup_to_args0 :: ptrace_dup_to_remote_args where
  "dup_to_args0 = \<lparr>dup_to_local_fd = 0, dup_to_flags = 0x80000\<rparr>"

theorem ptrace_dup_to_remote_duplicates_witness:
  "\<exists>r k'. ptrace_dup_to_remote renv0 2 0x7000 (kst2 mm1 (put_dup_to dup_to_args0)) = Some (r, k') \<and> kernel_ok renv0 2 k'"
  using ptrace_dup_to_remote_duplicates [OF renv0_ok(1) kst2_ok kst2_args(2), of dup_to_args0] by blast

text \<open>
  C10. \<open>PTRACE_DUP_FROM_REMOTE\<close> does the same in the other direction.\<close>

theorem ptrace_dup_from_remote_duplicates:
  assumes "remote_env_ok R" "kernel_ok R child k" "copy_struct 8 get_dup_from (umem k) data = Some a"
  shows "\<exists>r k'. ptrace_dup_from_remote R child data k = Some (r, k') \<and> kernel_ok R child k' \<and>
    (if r < 0 then r \<in> {- EINVAL, - EBADF, - EMFILE, - ENOMEM} \<and> tables k' = tables k
     else dup_from_flags a AND NOT O_CLOEXEC = 0 \<and> (\<exists>f D. local_file (files_tab k) (t_files (tasks k child)) (unat (dup_from_remote_fd a)) = Some f \<and>
       tables k (t_files (tasks k (cur k))) = Some D \<and> r < int (u32 (rlimit_nofile R)) \<and> lowest_free D 0 (nat r) \<and>
       tables k' = (tables k)(t_files (tasks k (cur k)) \<mapsto> D(nat r \<mapsto> (Some f, dup_from_flags a AND O_CLOEXEC \<noteq> 0))))) \<and>
    (\<forall>m f. t_mm (tasks k child) = Some m \<longrightarrow> mms k' m = mms k m \<and> spare_refs m k' f = spare_refs m k f)"
proof -
  obtain r k' where r: "ptrace_dup_from_remote R child data k = Some (r, k')" "kernel_ok R child k'" "remote_frame child k k'"
    "dup_outcome R (t_files (tasks k child)) (unat (dup_from_remote_fd a)) (t_files (tasks k (cur k))) (dup_from_flags a) k r k'"
    using dup_from_remote_result [OF assms] by blast
  have "\<forall>m f. t_mm (tasks k child) = Some m \<longrightarrow> mms k' m = mms k m \<and> spare_refs m k' f = spare_refs m k f"
    using r(3,4) by (simp add: remote_frame_def dup_outcome_def)
  then show ?thesis using r(1,2) r(4) [unfolded dup_outcome_def] by blast
qed

theorem ptrace_dup_from_remote_duplicates_witness:
  "\<exists>r k'. ptrace_dup_from_remote renv0 2 0x7000 (kst2 mm1 (put_dup_from \<lparr>dup_from_remote_fd = 3, dup_from_flags = 0\<rparr>)) = Some (r, k') \<and> kernel_ok renv0 2 k'"
  using ptrace_dup_from_remote_duplicates [OF renv0_ok(1) kst2_ok kst2_args(3)] by blast

text \<open>
  C11. Duplicating a descriptor to the tracee and closing it there gives back exactly the descriptors of all
  tables and the reference counts of all files from before.
\<close>

theorem dup_to_remote_close_roundtrip:
  assumes R: "remote_env_ok R" and k: "kernel_ok R child k"
    and d: "ptrace_dup_to_remote R child data k = Some (r, k1)" "0 \<le> r"
    and c: "copy_struct 4 get_close um data' = Some a" "unat (close_remote_fd a) = nat r"
  shows "\<exists>r' k2. ptrace_remote_close R child data' (k1\<lparr>umem := um\<rparr>) = Some (r', k2) \<and> tables k2 = tables k \<and>
    (\<forall>f. f_count (fheap k2 f) = f_count (fheap k f))"
proof -
  obtain x where x: "copy_struct 8 get_dup_to (umem k) data = Some x" using d by (auto simp: ptrace_dup_to_remote_def split: option.splits)
  have r: "kernel_ok R child k1" "remote_frame child k k1"
    "dup_outcome R (t_files (tasks k (cur k))) (unat (dup_to_local_fd x)) (t_files (tasks k child)) (dup_to_flags x) k r k1"
    using dup_to_remote_result [OF R k x] d(1) by auto
  let ?k1 = "k1\<lparr>umem := um\<rparr>" and ?q = "t_files (tasks k child)"
  have tk: "tasks k1 = tasks k" using r(2) by (simp add: remote_frame_def)
  obtain f D where f: "tables k ?q = Some D" "lowest_free D 0 (nat r)" "tables k1 = (tables k)(?q \<mapsto> D(nat r \<mapsto> (Some f, dup_to_flags x AND O_CLOEXEC \<noteq> 0)))"
    "mms k1 = mms k" using r(3) d(2) unfolding dup_outcome_def by auto
  have k1: "kernel_ok R child ?k1" using r(1) by simp
  have c1: "copy_struct 4 get_close (umem ?k1) data' = Some a" using c by simp
  obtain r' k2 D' where z: "ptrace_remote_close R child data' ?k1 = Some (r', k2)" "kernel_ok R child k2" "remote_frame child ?k1 k2" "mms k2 = mms ?k1"
    "tables ?k1 (t_files (tasks ?k1 child)) = Some D'"
    "if local_file (files_tab ?k1) (t_files (tasks ?k1 child)) (unat (close_remote_fd a)) = None then r' = - EBADF \<and> tables k2 = tables ?k1
     else tables k2 = (tables ?k1)(t_files (tasks ?k1 child) \<mapsto> D'(unat (close_remote_fd a) := None))"
    using remote_close_result [OF R k1 c1] by blast
  have tu: "tables ?k1 = tables k1" by (simp add: tables_def fun_eq_iff)
  have D': "D' = D(nat r \<mapsto> (Some f, dup_to_flags x AND O_CLOEXEC \<noteq> 0))" using z(5) f(3) tk by (simp add: tu)
  have lf: "local_file (files_tab ?k1) (t_files (tasks ?k1 child)) (nat r) \<noteq> None"
    using z(5) D' by (auto simp: local_file_def tables_def)
  have dn: "D'(nat r := None) = D" using f(2) by (auto simp: D' lowest_free_def fun_eq_iff)
  have "tables k2 = (tables k1)(?q \<mapsto> D'(nat r := None))" using z(6) lf tk c(2) by (simp add: tu)
  then have t2: "tables k2 = tables k" unfolding dn f(3) using f(1) by (auto simp: fun_eq_iff)
  obtain m ca where m: "t_mm (tasks k child) = Some m" "store_ok (files_tab k) (fheap k)" by (rule kernel_okE [OF k])
  have "store_ok (files_tab k2) (fheap k2)" using z(2) by (simp add: kernel_ok_def)
  moreover have "spare_refs m k2 g = spare_refs m k g" for g
    using z(3) r(2) m(1) tk by (simp add: remote_frame_def) (simp add: spare_refs_def)
  ultimately have "f_count (fheap k2 g) = f_count (fheap k g)" for g
    using counts_same [OF m(2) _ t2, of m] z(4) f(4) by simp
  then show ?thesis using z(1) t2 by blast
qed

theorem dup_to_remote_close_roundtrip_witness:
  "\<exists>r k1 um r' k2. ptrace_dup_to_remote renv0 2 0x7000 (kst2 mm1 (put_dup_to dup_to_args0)) = Some (r, k1) \<and>
     ptrace_remote_close renv0 2 0x7000 (k1\<lparr>umem := um\<rparr>) = Some (r', k2) \<and> tables k2 = tables (kst2 mm1 (put_dup_to dup_to_args0))"
proof -
  let ?k = "kst2 mm1 (put_dup_to dup_to_args0)"
  have st: "store_ok (files_tab ?k) (fheap ?k)" using kst2_ok [of "put_dup_to dup_to_args0"] by (simp add: kernel_ok_def)
  have low: "fd = 0" if "lowest_free (descriptors (fdt init_files)) 0 fd" for fd
  proof -
    have "descriptors (fdt init_files) = Map.empty"
      by (simp add: fun_eq_iff descriptors_def init_files_def init_fdtable_def fd_is_open_def test_bit_def less_Suc_eq)
    then show ?thesis using that by (auto simp: lowest_free_def)
  qed
  have mx: "max_fds (fdt init_files) = 64" by (simp add: init_files_def init_fdtable_def)
  obtain files' where al: "raw_alloc_fd env0 init_files 0 (u32 1024) 0x80000 = Some (0, files')"
    using env0_ok init_files_ok
  proof (cases rule: raw_alloc_fd_cases [where start = 0 and fend = "u32 1024" and flags = "0x80000"])
    case (limit fd)
    then show thesis using low [of fd] mx by (simp add: u32_def)
  next
    case (nomem fd)
    then show thesis using low [of fd] mx by simp
  next
    case (allocated fd files')
    then show thesis using that [of files'] low [of fd] by simp
  qed
  have "files_tab ?k 1 = Some table1" by (simp add: kst2_task)
  note get = fget_raw_result [OF store_okD(2,3) [OF st this], of 0]
  have fc: "raw_fcheck_files table1 0 = Some 7" by (simp add: raw_fcheck_files_def table1_def)
  obtain r k1 where k1: "ptrace_dup_to_remote renv0 2 0x7000 ?k = Some (r, k1)"
    using dup_to_remote_result [OF renv0_ok(1) kst2_ok kst2_args(2)] by blast
  have v: "vfs (mmenv renv0) = env0" "rlimit_nofile renv0 = 1024" by (simp_all add: renv0_def menv0_def menv_base_def)
  have r0: "r = 0"
    using k1 al get fc unfolding ptrace_dup_to_remote_def kst2_args(2) v
    by (auto simp: dup_to_args0_def kst2_task bind_eq_Some_conv)
  show ?thesis
    using dup_to_remote_close_roundtrip [OF renv0_ok(1) kst2_ok k1 _ kst2_args(4) [where mm = mm1], of "\<lparr>close_remote_fd = 0\<rparr>"] k1 r0 by auto
qed

section \<open>Where a remote mapping goes\<close>

definition mm3 :: mm_struct where
  "mm3 = mm0\<lparr>mmap := [area1], mm_rb := Rb_node Rb_null 1 Rb_null, highest_vm_end := 0x14000, map_count := 1, total_vm := 4, data_vm := 4\<rparr>"

definition mst4 :: "mm_struct \<Rightarrow> int \<Rightarrow> mmst" where
  "mst4 mm n = \<lparr>st_mm = mm, st_cur = Some mm0, st_heap = (\<lambda>f. \<lparr>f_count = 2, f_mode = 3, f_pos_lock = False\<rparr>),
     st_spaces = (\<lambda>m. \<lparr>i_writecount = 0, i_mmap_writable = 0\<rparr>), vm_committed_as = n\<rparr>"

lemmas env_defs = menv0_def menv_base_def
lemmas vma_defs = vma_at_def vma_of_def vm_next_def vm_prev_def mm_first_def find_vma_def vma_pages_def vm_stat_account_def is_exec_mapping_def is_stack_mapping_def is_data_mapping_def
  vm_unacct_memory_def offset_in_page_def PAGE_ALIGN_def

lemma mst4_munmap: "do_munmap menv0 0x10000 0x4000 (mst4 mm3 0) = Some (0, mst4 mm0 (- 4))"
  by (simp add: do_munmap_def munmap_tail_def env_defs vma_defs mst4_def mm3_def mm0_def area1_def detach_vmas_to_be_unmapped_def unmap_region_def set_pgd_def
    remove_vma_list_def remove_vma_def unlink_file_vma_def Let_def)

lemma mst4_simps [simp]: "st_mm (mst4 mm n) = mm" "cur_mm (mst4 mm n) = mm0"
  by (simp_all add: mst4_def cur_mm_def)

lemma mst4_cleared: "clear_old_maps menv0 0x10000 0x4000 (mst4 mm3 0) = Some (Some \<lparr>ln_prev = None, ln_rb_link = [], ln_rb_parent = None\<rparr>, mst4 mm0 (- 4))"
proof -
  have "find_vma_links mm3 0x10000 0x14000 = None" by (simp add: find_vma_links_def mm3_def vma_defs area1_def)
  then have "clear_old_maps menv0 0x10000 0x4000 (mst4 mm3 0) = clear_old_maps menv0 0x10000 0x4000 (mst4 mm0 (- 4))"
    by (subst clear_old_maps.simps) (simp add: mst4_munmap)
  also have "\<dots> = Some (Some \<lparr>ln_prev = None, ln_rb_link = [], ln_rb_parent = None\<rparr>, mst4 mm0 (- 4))"
    by (subst clear_old_maps.simps) (simp add: mm0_def find_vma_links_def)
  finally show ?thesis .
qed

lemma menv0_sel: "kmem_cache_alloc menv0 s = Some (new_id (mmap (st_mm s)))" "rlimit_as menv0 = - 1" "rlimit_data menv0 = - 1" "is_file_hugepages menv0 f = False"
  "execute_only_pkey menv0 mm = - 1" "calc_vm_prot_bits menv0 p k = p AND 7" "calc_vm_flag_bits menv0 fl = 0" "can_do_mlock menv0" "overcommit_never menv0 = False"
  "mmap_sem_killed menv0 = False" "security_mmap_file menv0 g p fl = 0" "sysctl_max_map_count menv0 = 65530" "mmap_min_addr menv0 = 0x10000"
  by (simp_all add: menv0_def menv_base_def)

lemma mst4_region: "\<exists>s'. mmap_task_region menv0 None 0x10000 0x4000 0x71 0x10 (mst4 mm3 0) = Some (0x10000, s')"
proof -
  have m: "vma_merge menv0 None 0x10000 0x14000 0x71 None None 0x10 0 0 (mst4 mm0 (- 4)) = Some (None, mst4 mm0 (- 4))"
    unfolding vma_merge_def Let_def by (simp add: mst4_def mm0_def mm_first_def)
  have "may_expand_vm menv0 mm3 0x71 4" by (simp add: may_expand_vm_def menv0_sel mm3_def is_data_mapping_def mask_eq_exp_minus_1)
  then have x: "may_expand_vm menv0 (st_mm (mst4 mm3 0)) 0x71 (drop_bit 12 0x4000)" by (simp add: mst4_def)
  have ac: "\<not> accountable_mapping menv0 None 0x71" by (simp add: accountable_mapping_def)
  obtain s' where n: "mmap_new_area menv0 None 0x10000 0x4000 0x71 0x10 \<lparr>ln_prev = None, ln_rb_link = [], ln_rb_parent = None\<rparr> 0 (mst4 mm0 (- 4)) = (0x10000, s')"
    unfolding mmap_new_area_def menv0_sel blank_vma_def by (simp add: mmap_anon_area_def)
  show ?thesis unfolding mmap_task_region_def mst4_cleared using x ac m n by simp
qed

lemma mst4_mapped: "\<exists>s'. do_mmap_remote menv0 table1 0 0x10000 0x4000 1 0x8022 0 0 (mst4 mm3 0) = Some (0x10000, Populate_current 0x10000 0x4000, s')"
proof -
  obtain s' where s: "mmap_task_region menv0 None 0x10000 0x4000 0x71 0x10 (mst4 mm3 0) = Some (0x10000, s')" using mst4_region by blast
  have g: "get_task_unmapped_area menv0 None 0x10000 0x4000 0 0x8022 (mst4 mm3 0) = 0x10000"
    by (simp add: get_task_unmapped_area_def Let_def menv0_def menv_base_def mst4_def mm3_def mm0_def arch_get_unmapped_area_topdown_def hinted_area_def IS_ERR_VALUE_def offset_in_page_def cur_mm_def find_vma_def PAGE_ALIGN_def)
  have at: "do_task_mmap_at menv0 None 0x10000 0x4000 1 0x8022 0 0 (mst4 mm3 0) = Some (0x10000, 0x4000, s')"
    unfolding do_task_mmap_at_def Let_def menv0_sel using s by (simp add: mst4_def mm3_def mm0_def mlock_future_check_def mmap_anon_flags_def IS_ERR_VALUE_def)
  have pa: "PAGE_ALIGN 0x4000 = 0x4000" by (simp add: PAGE_ALIGN_def)
  have "do_task_mmap menv0 0 None 0x10000 0x4000 1 0x8022 0 0 (mst4 mm3 0) = Some (0x10000, 0x4000, s')"
    unfolding do_task_mmap_def Let_def pa using g at by (simp add: menv0_sel round_hint_to_min_def mst4_def mm3_def offset_in_page_def)
  then show ?thesis
    by (simp add: do_mmap_remote_def mmap_get_file_def vm_mmap_remote_def menv0_sel pa offset_in_page_def)
qed

definition mmap_args1 :: ptrace_remote_mmap_args where
  "mmap_args1 = \<lparr>mmap_addr = 0x10000, mmap_length = 0x4000, mmap_prot = 1, mmap_flags = 0x8022, mmap_fd = 0, mmap_pad = 0, mmap_offset = 0\<rparr>"

text \<open>
  C14. The address of a remote mapping is chosen in the address space of the tracer.  Here a request without
  \<open>MAP_FIXED\<close> gives an address hint at which the tracee has writable memory, but the tracer nothing: the
  request succeeds, and the tracee's memory there is gone, replaced by fresh pages without write permission.
  Also, the pages that \<open>MAP_POPULATE\<close> asks for are faulted in in the tracer, where nothing is mapped.
\<close>

theorem remote_mmap_looks_at_tracer:
  "\<exists>k'. copy_struct 40 get_mmap (umem (kst2 mm3 (put_mmap mmap_args1))) 0x7000 = Some mmap_args1 \<and> (ucast (mmap_flags mmap_args1) :: 64 word) AND MAP_FIXED = 0 \<and>
     mm_view (mms (kst2 mm3 (put_mmap mmap_args1)) 2) 0x10000 = Some (0x100073, None, 0x10) \<and> mm_view (mms (kst2 mm3 (put_mmap mmap_args1)) 1) 0x10000 = None \<and>
     ptrace_remote_mmap renv0 2 0x7000 (kst2 mm3 (put_mmap mmap_args1)) = Some (0, k') \<and>
     (\<exists>fl g pg. mm_view (mms k' 2) 0x10000 = Some (fl, g, pg) \<and> fl AND 7 = 1) \<and> populated k' = [(1, 0x10000, 0x4000)] \<and> mms k' 1 = mm0"
proof -
  let ?k = "kst2 mm3 (put_mmap mmap_args1)"
  have k: "kernel_ok renv0 2 ?k"
    by (rule kst2_kernel) (use menv0_hugetlb in \<open>simp_all add: mm_ok_def tree_ok_def areas_ok_def area_ok_def aligned_def offset_in_page_def highest_end_def
      mm3_def area1_def area_refs_def no_hugetlb_def\<close>)
  have t: "t_mm (tasks ?k 2) = Some 2" "t_mm (tasks ?k (cur ?k)) = Some 1" "files_tab ?k (t_files (tasks ?k (cur ?k))) = Some table1"
    by (simp_all add: kst2_task)
  have e: "mm_enter 2 1 ?k = mst4 mm3 0" by (simp add: mm_enter_def mst4_def kst2_def kst1_def kst0_def)
  have pe: "personality (tasks ?k 2) = 0" by (simp add: kst2_task kst1_def task0_def)
  obtain s' where s: "do_mmap_remote menv0 table1 0 0x10000 0x4000 1 0x8022 0 0 (mst4 mm3 0) = Some (0x10000, Populate_current 0x10000 0x4000, s')"
    using mst4_mapped by blast
  have "um_write (umem ?k) = (\<lambda>a. True)" using copy_to_user_access(2) [of "umem kst0" "0x7000"] by (simp add: kst2_def kst0_def)
  then obtain um where um: "copy_to_user (umem ?k) 0x7000 (put_u64 0x10000) = (True, um)"
    using copy_to_user_writable [of "umem ?k" "0x7000" "put_u64 0x10000"] by (metis prod.collapse)
  let ?k' = "(log_populate 2 1 (Populate_current 0x10000 0x4000) (mm_leave 2 1 s' ?k))\<lparr>umem := um\<rparr>"
  have R: "mmenv renv0 = menv0" by (simp add: renv0_def)
  have l: "umem (log_populate 2 1 (Populate_current 0x10000 0x4000) (mm_leave 2 1 s' ?k)) = umem ?k" by (simp add: log_populate_def mm_leave_def)
  have run: "ptrace_remote_mmap renv0 2 0x7000 ?k = Some (0, ?k')"
    using s um t e pe kst2_args(1) [of mm3 mmap_args1] l by (simp add: ptrace_remote_mmap_def R mmap_args1_def IS_ERR_VALUE_def)
  have res: "remote_frame 2 ?k ?k'" "\<exists>addr. user_bytes um 0x7000 8 = put_u64 addr \<and> mapped_remotely renv0 mmap_args1 table1 0 (mms ?k 1) (mms ?k 2) addr (mms ?k' 2)"
    using remote_mmap_result [OF renv0_ok(1) k kst2_args(1) t] unfolding run pe by auto
  have "user_bytes um 0x7000 8 = put_u64 0x10000" using copy_to_user_bytes [of "put_u64 0x10000" "umem ?k" "0x7000"] um by simp
  then have mp: "mapped_remotely renv0 mmap_args1 table1 0 (mms ?k 1) (mms ?k 2) 0x10000 (mms ?k' 2)"
    using res(2) get_put_last(1) by metis
  then obtain f l fl g pg where m: "request_file table1 0x8022 0 f" "request_len menv0 0x8022 f 0x4000 l"
    "fl AND 7 = mmap_prot_of menv0 0 f 1 AND 7" "mm_view (mms ?k' 2) = set_view (mm_view (mms ?k 2)) 0x10000 (0x10000 + PAGE_ALIGN l) (range_attr 0x10000 fl g pg)"
    unfolding mapped_remotely_def R by (auto simp: mmap_args1_def)
  have "f = None" using m(1) by (simp add: request_file_def)
  then have "l = 0x4000" "fl AND 7 = 1" using m(2,3) by (simp_all add: request_len_def mmap_prot_of_def)
  then have v: "\<exists>fl g pg. mm_view (mms ?k' 2) 0x10000 = Some (fl, g, pg) \<and> fl AND 7 = 1"
    unfolding m(4) by (simp add: set_view_def range_attr_def PAGE_ALIGN_def and.assoc)
  have "mm_view (mms ?k 2) 0x10000 = Some (0x100073, None, 0x10)" "mm_view (mms ?k 1) 0x10000 = None"
    by (simp_all add: kst2_task mm_view_def mm3_def mm0_def area1_def vma_covers_def page_attr_def)
  moreover have "populated ?k' = [(1, 0x10000, 0x4000)]" by (simp add: log_populate_def mm_leave_def kst2_def kst1_def kst0_def)
  moreover have "mms ?k' 1 = mm0" using res(1) by (simp add: remote_frame_def kst2_task)
  moreover have "(ucast (mmap_flags mmap_args1) :: 64 word) AND MAP_FIXED = 0" by (simp add: mmap_args1_def)
  ultimately show ?thesis using run v kst2_args(1) [of mm3 mmap_args1] by blast
qed

section \<open>32-bit callers\<close>

lemma ptrace_check_attach_nonpos: "fst (ptrace_check_attach E child ign k) \<le> 0"
  by (auto simp: ptrace_check_attach_def Let_def split: prod.splits if_splits)

text \<open>
  C24. A remote request of a 32-bit tracer is the same call with the addresses extended by zeros.
\<close>

theorem compat_sys_ptrace_remote_same:
  assumes "passes_remote R" "PTRACE_REMOTE_MMAP \<le> req" "req \<le> PTRACE_REMOTE_CLOSE"
    and c: "\<And>child k. compat_arch_request R child req addr data k = None"
  shows "compat_sys_ptrace R req pid addr data k = sys_ptrace R req pid (ucast addr) (compat_ptr data) k"
proof -
  have a: "compat_arch_ptrace R child req addr data k = arch_ptrace R child req (ucast addr) (compat_ptr data) k" for child k
    using assms by (simp add: compat_arch_ptrace_def arch_ptrace_def passes_remote_def compat_ptrace_request_def compat_ptr_def)
  have b: "ret \<noteq> 0 \<longleftrightarrow> ret < 0" if "ptrace_check_attach (tracing R) child ign k = (ret, k')" for child ign k k' ret
    using ptrace_check_attach_nonpos [of "tracing R" child ign k] that by auto
  show ?thesis using assms(2,3)
    by (auto simp: compat_sys_ptrace_def sys_ptrace_def a dest: b split: sum.split prod.split)
qed

theorem compat_sys_ptrace_remote_same_witness:
  "compat_sys_ptrace renv0 PTRACE_REMOTE_CLOSE 2 0 0x7000 (kst2 mm1 []) = sys_ptrace renv0 PTRACE_REMOTE_CLOSE 2 0 0x7000 (kst2 mm1 [])"
  using compat_sys_ptrace_remote_same [OF renv0_ok(2), of PTRACE_REMOTE_CLOSE 0 "0x7000" 2 "kst2 mm1 []"]
  by (simp add: renv0_def compat_ptr_def)

end
